(* ===== verification/Asct_Prelude.thy ===== *)
theory Asct_Prelude
  imports Complex_Main "HOL-Library.AList" "HOL-Library.Sublist"
begin

text \<open>
  Shared vocabulary of the development: the Python exceptions that the code raises and
  catches, results as sums, insertion-ordered dictionaries as association lists, and the
  generic lemmas the components use.  Nothing here models a particular source file.
\<close>

named_theorems py_simps \<open>unfolding rules for results and dictionaries\<close>

section \<open>Exceptions and results\<close>

datatype exc_class =
    RuntimeError | ValueError | TypeError | OSError | KeyError | AttributeError
  | MemoryError | AssertionError | CycleError | IndexError | FileNotFoundError
  | PermissionError | JSONDecodeError | NotImplementedError | SubprocessError
  | SystemExit | InvalidVersion | ZeroDivisionError | NameError

datatype exc = Exc (exc_class: exc_class) (exc_msg: string)

text \<open>The direct base classes that matter for the \<open>except\<close> clauses of the code.\<close>

fun base_class :: "exc_class \<Rightarrow> exc_class" where
  "base_class CycleError = ValueError"
| "base_class FileNotFoundError = OSError"
| "base_class PermissionError = OSError"
| "base_class JSONDecodeError = ValueError"
| "base_class NotImplementedError = RuntimeError"
| "base_class InvalidVersion = ValueError"
| "base_class c = c"

definition caught :: "exc_class list \<Rightarrow> exc \<Rightarrow> bool" where
  "caught cs e \<longleftrightarrow> exc_class e \<in> set cs \<or> base_class (exc_class e) \<in> set cs"

type_synonym 'a res = "exc + 'a"

definition bindr :: "'a res \<Rightarrow> ('a \<Rightarrow> 'b res) \<Rightarrow> 'b res" where
  "bindr m f = (case m of Inl e \<Rightarrow> Inl e | Inr v \<Rightarrow> f v)"

lemma bindr_simps [simp, py_simps]:
  "bindr (Inl e) f = Inl e" "bindr (Inr v) f = f v"
  by (simp_all add: bindr_def)

lemma bindr_Inr_iff: "bindr m f = Inr y \<longleftrightarrow> (\<exists>x. m = Inr x \<and> f x = Inr y)"
  by (cases m) auto

lemma bindr_Inl_iff: "bindr m f = Inl e \<longleftrightarrow> m = Inl e \<or> (\<exists>x. m = Inr x \<and> f x = Inl e)"
  by (cases m) auto

lemma bindr_cong [fundef_cong]:
  "m = m' \<Longrightarrow> (\<And>v. m' = Inr v \<Longrightarrow> f v = g v) \<Longrightarrow> bindr m f = bindr m' g"
  by (cases m') auto

text \<open>A list comprehension whose body may raise: the first error wins.\<close>

fun map_res :: "('a \<Rightarrow> 'b res) \<Rightarrow> 'a list \<Rightarrow> 'b list res" where
  "map_res f [] = Inr []"
| "map_res f (x # xs) = bindr (f x) (\<lambda>y. bindr (map_res f xs) (\<lambda>ys. Inr (y # ys)))"

lemma map_res_Inr: "(\<And>x. x \<in> set xs \<Longrightarrow> f x = Inr (g x)) \<Longrightarrow> map_res f xs = Inr (map g xs)"
  by (induction xs) auto

lemma map_res_InrD:
  "map_res f xs = Inr ys \<Longrightarrow> length ys = length xs \<and> (\<forall>i < length xs. f (xs ! i) = Inr (ys ! i))"
proof (induction xs arbitrary: ys)
  case Nil
  then show ?case by simp
next
  case (Cons x xs)
  then obtain y ys' where "f x = Inr y" "map_res f xs = Inr ys'" "ys = y # ys'"
    by (auto simp: bindr_Inr_iff)
  with Cons.IH[of ys'] show ?case by (auto simp: nth_Cons split: nat.splits)
qed

section \<open>Dictionaries\<close>

text \<open>
  A Python dictionary keeps its insertion order: assigning to a present key keeps its
  place, a new key goes to the end.  \<open>AList.update\<close> is exactly this operation, \<open>map_of\<close>
  is the lookup and \<open>AList.delete\<close> is \<open>del\<close>.
\<close>

type_synonym ('k, 'v) dict = "('k \<times> 'v) list"

abbreviation dkeys :: "('k, 'v) dict \<Rightarrow> 'k list" where
  "dkeys d \<equiv> map fst d"

abbreviation wf_dict :: "('k, 'v) dict \<Rightarrow> bool" where
  "wf_dict d \<equiv> distinct (map fst d)"

definition dset :: "'k \<Rightarrow> 'v \<Rightarrow> ('k, 'v) dict \<Rightarrow> ('k, 'v) dict" where
  "dset k v d = AList.update k v d"

definition ddel :: "'k \<Rightarrow> ('k, 'v) dict \<Rightarrow> ('k, 'v) dict" where
  "ddel k d = AList.delete k d"

definition dget :: "('k, 'v) dict \<Rightarrow> 'k \<Rightarrow> 'v \<Rightarrow> 'v" where
  "dget d k x = (case map_of d k of None \<Rightarrow> x | Some v \<Rightarrow> v)"

text \<open>\<open>d.update(e)\<close> and a dictionary comprehension assign from left to right.\<close>

definition dupdate :: "('k, 'v) dict \<Rightarrow> ('k, 'v) dict \<Rightarrow> ('k, 'v) dict" where
  "dupdate d e = foldl (\<lambda>m (k, v). dset k v m) d e"

abbreviation dict_of :: "('k \<times> 'v) list \<Rightarrow> ('k, 'v) dict" where
  "dict_of kvs \<equiv> dupdate [] kvs"

lemma map_of_dset [simp]: "map_of (dset k v d) = (map_of d)(k \<mapsto> v)"
  by (simp add: dset_def update_conv')

lemma map_of_ddel [simp]: "map_of (ddel k d) = (map_of d)(k := None)"
  by (simp add: ddel_def delete_conv')

lemma dset_simps [simp, py_simps]:
  "dset k v [] = [(k, v)]"
  "dset k v ((k', w) # d) = (if k' = k then (k', v) # d else (k', w) # dset k v d)"
  by (simp_all add: dset_def)

lemma ddel_simps [simp, py_simps]:
  "ddel k [] = []"
  "ddel k ((k', w) # d) = (if k' = k then ddel k d else (k', w) # ddel k d)"
  by (simp_all add: ddel_def AList.delete_eq)

lemma dget_simps [simp, py_simps]:
  "dget [] k x = x" "dget ((k', v) # d) k x = (if k' = k then v else dget d k x)"
  by (simp_all add: dget_def)

lemma wf_dset [simp]: "wf_dict d \<Longrightarrow> wf_dict (dset k v d)"
  by (simp add: dset_def distinct_update)

lemma wf_ddel [simp]: "wf_dict d \<Longrightarrow> wf_dict (ddel k d)"
  by (simp add: ddel_def distinct_delete)

lemma set_keys_dset [simp]: "fst ` set (dset k v d) = insert k (fst ` set d)"
  by (simp add: dset_def dom_update)

lemma set_keys_ddel [simp]: "fst ` set (ddel k d) = fst ` set d - {k}"
proof (induction d)
  case (Cons a d)
  then show ?case by (cases a) auto
qed simp

lemma dset_new: "k \<notin> fst ` set d \<Longrightarrow> dset k v d = d @ [(k, v)]"
  by (induction d) auto

lemma ddel_new: "k \<notin> fst ` set d \<Longrightarrow> ddel k d = d"
  by (induction d) auto

lemma dkeys_dset: "dkeys (dset k v d) = (if k \<in> set (dkeys d) then dkeys d else dkeys d @ [k])"
  by (simp add: dset_def update_keys)

lemma dupdate_simps [simp, py_simps]:
  "dupdate d [] = d" "dupdate d ((k, v) # e) = dupdate (dset k v d) e"
  by (simp_all add: dupdate_def)

lemma wf_dupdate [simp]: "wf_dict d \<Longrightarrow> wf_dict (dupdate d e)"
  by (induction e arbitrary: d) auto

lemma map_of_dupdate: "wf_dict e \<Longrightarrow> map_of (dupdate d e) = map_of d ++ map_of e"
proof (induction e arbitrary: d)
  case Nil
  then show ?case by simp
next
  case (Cons kv e)
  obtain k v where kv: "kv = (k, v)" by (cases kv)
  with Cons.prems have k: "map_of e k = None" by (simp add: map_of_eq_None_iff)
  show ?case using Cons kv k
    by (auto simp: fun_eq_iff map_add_def split: option.splits)
qed

lemma set_keys_dupdate [simp]: "fst ` set (dupdate d e) = fst ` set d \<union> fst ` set e"
proof (induction e arbitrary: d)
  case (Cons a e)
  then show ?case by (cases a) simp
qed simp

lemma dupdate_append_new:
  "wf_dict e \<Longrightarrow> fst ` set d \<inter> fst ` set e = {} \<Longrightarrow> dupdate d e = d @ e"
proof (induction e arbitrary: d)
  case Nil
  then show ?case by simp
next
  case (Cons kv e)
  obtain k v where kv: "kv = (k, v)" by (cases kv)
  have "dset k v d = d @ [(k, v)]" using Cons.prems kv by (intro dset_new) auto
  with Cons kv show ?case by auto
qed

lemma dict_of_wf: "wf_dict e \<Longrightarrow> dict_of e = e"
  by (simp add: dupdate_append_new)

section \<open>Lists in place of sets, counting\<close>

text \<open>Adding to a Python set that is kept as a duplicate-free list.\<close>

definition set_add :: "'a \<Rightarrow> 'a list \<Rightarrow> 'a list" where
  "set_add x xs = (if x \<in> set xs then xs else xs @ [x])"

lemma set_set_add [simp]: "set (set_add x xs) = insert x (set xs)"
  by (auto simp: set_add_def)

lemma distinct_set_add [simp]: "distinct xs \<Longrightarrow> distinct (set_add x xs)"
  by (simp add: set_add_def)

lemma map_of_Some_in: "map_of d k = Some v \<Longrightarrow> (k, v) \<in> set d"
  by (rule map_of_SomeD)

lemma map_of_in_keys: "k \<in> fst ` set d \<Longrightarrow> \<exists>v. map_of d k = Some v"
  by (metis map_of_eq_None_iff not_None_eq)

end
