(* ===== verification/File_System.thy ===== *)
theory File_System
  imports Asct_Prelude
begin

text \<open>
  The operating-system calls the code uses on files, on a tree of named entries: a path is
  the list of its components, the root is the empty path and always a directory, and the
  entries are a dictionary from paths to directories and files.  \<open>'c\<close> is what a file
  holds; the resources only need its size, the saved results its contents.  The interface
  \<open>file_store\<close> is what the clients that only write, read and remove files rely on.
\<close>

type_synonym path = "string list"

datatype 'c fnode = Dir | File 'c

type_synonym 'c fs = "(path, 'c fnode) dict"

definition path_exists :: "'c fs \<Rightarrow> path \<Rightarrow> bool" where
  "path_exists d p \<longleftrightarrow> p = [] \<or> p \<in> set (dkeys d)"

definition is_dir :: "'c fs \<Rightarrow> path \<Rightarrow> bool" where
  "is_dir d p \<longleftrightarrow> p = [] \<or> (case map_of d p of Some Dir \<Rightarrow> True | _ \<Rightarrow> False)"

definition is_file :: "'c fs \<Rightarrow> path \<Rightarrow> bool" where
  "is_file d p \<longleftrightarrow> p \<noteq> [] \<and> (case map_of d p of Some (File _) \<Rightarrow> True | _ \<Rightarrow> False)"

definition read_file :: "'c fs \<Rightarrow> path \<Rightarrow> 'c res" where
  "read_file d p = (case map_of d p of
       None \<Rightarrow> Inl (Exc FileNotFoundError ''no such file'')
     | Some Dir \<Rightarrow> Inl (Exc OSError ''is a directory'')
     | Some (File c) \<Rightarrow> Inr c)"

text \<open>\<open>os.listdir\<close>: the names directly below a directory.\<close>

definition listdir :: "'c fs \<Rightarrow> path \<Rightarrow> string list" where
  "listdir d p = map last (filter (\<lambda>q. q \<noteq> [] \<and> butlast q = p) (dkeys d))"

text \<open>\<open>os.makedirs(p, exist_ok=True)\<close> makes the missing components one by one; \<open>deny\<close> says
  which of them the system refuses.\<close>

fun mkdirs :: "(path \<Rightarrow> bool) \<Rightarrow> path \<Rightarrow> string list \<Rightarrow> 'c fs \<Rightarrow> exc option \<times> 'c fs" where
  "mkdirs deny pre [] d = (None, d)"
| "mkdirs deny pre (c # cs) d =
     (let p = pre @ [c] in
      case map_of d p of
        Some Dir \<Rightarrow> mkdirs deny p cs d
      | Some (File _) \<Rightarrow> (Some (Exc OSError ''not a directory''), d)
      | None \<Rightarrow> if deny p then (Some (Exc OSError ''cannot create directory''), d)
                else mkdirs deny p cs (dset p Dir d))"

definition makedirs :: "(path \<Rightarrow> bool) \<Rightarrow> path \<Rightarrow> 'c fs \<Rightarrow> exc option \<times> 'c fs" where
  "makedirs deny p d = mkdirs deny [] p d"

definition rmtree :: "path \<Rightarrow> 'c fs \<Rightarrow> 'c fs" where
  "rmtree p d = filter (\<lambda>(q, _). \<not> prefix p q) d"

definition remove_file :: "path \<Rightarrow> 'c fs \<Rightarrow> 'c fs" where
  "remove_file p d = ddel p d"

definition write_file :: "path \<Rightarrow> 'c \<Rightarrow> 'c fs \<Rightarrow> 'c fs" where
  "write_file p c d = dset p (File c) d"

section \<open>Well-formed trees\<close>

text \<open>No entry is listed twice, and every entry lies in a directory.\<close>

definition wf_fs :: "'c fs \<Rightarrow> bool" where
  "wf_fs d \<longleftrightarrow> wf_dict d \<and> (\<forall>q \<in> set (dkeys d). q \<noteq> [] \<and> is_dir d (butlast q))"

lemma is_dir_Nil [simp]: "is_dir d []"
  by (simp add: is_dir_def)

lemma wf_fsD: "wf_fs d \<Longrightarrow> q \<in> fst ` set d \<Longrightarrow> q \<noteq> [] \<and> is_dir d (butlast q)"
  by (auto simp: wf_fs_def)

lemma map_of_key: "map_of d p = Some x \<Longrightarrow> p \<in> fst ` set d"
  by (metis map_of_eq_None_iff option.distinct(1))

lemma is_dir_key: "is_dir d p \<Longrightarrow> p \<noteq> [] \<Longrightarrow> p \<in> fst ` set d"
  by (auto simp: is_dir_def map_of_key split: option.splits)

lemma is_dir_exists: "is_dir d p \<Longrightarrow> path_exists d p"
  using is_dir_key[of d p] by (auto simp: path_exists_def)

lemma is_dir_dset: "p \<noteq> q \<Longrightarrow> is_dir (dset p n d) q = is_dir d q"
  by (simp add: is_dir_def)

lemma is_dir_dset_Dir [simp]: "is_dir (dset p Dir d) q \<longleftrightarrow> q = p \<or> is_dir d q"
  by (auto simp: is_dir_def)

lemma exists_dset [simp]: "path_exists (dset p n d) q \<longleftrightarrow> q = p \<or> path_exists d q"
  by (auto simp: path_exists_def)

lemma wf_fs_empty [simp]: "wf_fs []"
  by (simp add: wf_fs_def)

lemma wf_fs_Dir:
  "wf_fs d \<Longrightarrow> p \<noteq> [] \<Longrightarrow> is_dir d (butlast p) \<Longrightarrow> wf_fs (dset p Dir d)"
  by (auto simp: wf_fs_def)

lemma wf_fs_File:
  assumes "wf_fs d" "p \<noteq> []" "is_dir d (butlast p)" "\<not> is_dir d p"
  shows "wf_fs (dset p (File c) d)"
proof -
  have "is_dir (dset p (File c) d) (butlast q)" if "q = p \<or> q \<in> fst ` set d" for q
  proof -
    have "is_dir d (butlast q)" using that assms by (auto simp: wf_fs_def)
    moreover from this assms(4) have "p \<noteq> butlast q" by blast
    ultimately show ?thesis by (simp add: is_dir_dset)
  qed
  then show ?thesis using assms(1,2) by (auto simp: wf_fs_def)
qed

text \<open>Below a path that does not exist there is nothing.\<close>

lemma no_entry_below:
  assumes "wf_fs d" "\<not> path_exists d p" "prefix p q"
  shows "q \<notin> set (dkeys d)"
  using assms(3)
proof (induction q rule: rev_induct)
  case Nil
  then show ?case using assms(1) by (auto simp: wf_fs_def)
next
  case (snoc x q)
  show ?case
  proof
    assume in_d: "q @ [x] \<in> set (dkeys d)"
    then have "p \<noteq> q @ [x]" using assms(2) by (auto simp: path_exists_def)
    then have "prefix p q" using snoc.prems by simp
    then have "q \<notin> set (dkeys d)" by (rule snoc.IH)
    moreover have "is_dir d q" using wf_fsD[OF assms(1), of "q @ [x]"] in_d by simp
    ultimately have "q = []" using is_dir_key[of d q] by auto
    then show False using \<open>prefix p q\<close> assms(2) by (simp add: path_exists_def)
  qed
qed

lemma rmtree_undo:
  assumes "wf_fs d" "\<not> path_exists d p"
  shows "rmtree p (dset p n d) = d"
proof -
  have new: "p \<notin> fst ` set d" using assms(2) by (simp add: path_exists_def)
  have "\<not> prefix p q" if "(q, m) \<in> set d" for q m
    using no_entry_below[OF assms] that by force
  then have "filter (\<lambda>(q, _). \<not> prefix p q) d = d" by (auto simp: filter_id_conv)
  then show ?thesis by (simp add: rmtree_def dset_new[OF new])
qed

lemma ddel_append_new: "k \<notin> fst ` set d \<Longrightarrow> ddel k (d @ [(k, v)]) = d"
  by (induction d) auto

lemma remove_undo:
  assumes "\<not> path_exists d p"
  shows "remove_file p (dset p n d) = d"
  using assms by (simp add: remove_file_def path_exists_def dset_new ddel_append_new)

lemma listdir_new:
  assumes "wf_fs d" "\<not> path_exists d p"
  shows "listdir (dset p n d) p = []"
proof -
  have new: "p \<notin> fst ` set d" using assms(2) by (simp add: path_exists_def)
  have "butlast q \<noteq> p" if "q \<in> set (dkeys d)" for q
    using that assms is_dir_exists by (auto simp: wf_fs_def)
  moreover have "p \<noteq> []" using assms(2) by (auto simp: path_exists_def)
  then have "butlast p \<noteq> p" by (metis append_butlast_last_id not_Cons_self self_append_conv)
  ultimately show ?thesis by (force simp: listdir_def dset_new[OF new] filter_empty_conv)
qed

lemma mkdirs_existing:
  "is_dir d pre \<Longrightarrow> (\<And>n. n \<le> length cs \<Longrightarrow> is_dir d (pre @ take n cs)) \<Longrightarrow> mkdirs deny pre cs d = (None, d)"
proof (induction cs arbitrary: pre)
  case Nil
  then show ?case by simp
next
  case (Cons c cs)
  have "is_dir d (pre @ [c])" using Cons.prems(2)[of 1] by simp
  then have dir: "map_of d (pre @ [c]) = Some Dir"
    by (auto simp: is_dir_def split: option.splits fnode.splits)
  have "is_dir d ((pre @ [c]) @ take n cs)" if "n \<le> length cs" for n
    using Cons.prems(2)[of "Suc n"] that by simp
  then show ?case using Cons.IH[of "pre @ [c]"] \<open>is_dir d (pre @ [c])\<close> dir by simp
qed

lemma is_dir_take:
  assumes "wf_fs d" "is_dir d p"
  shows "is_dir d (take n p)"
  using assms(2)
proof (induction p rule: rev_induct)
  case (snoc x p)
  have "is_dir d p" using wf_fsD[OF assms(1) is_dir_key[OF snoc.prems]] by simp
  then show ?case using snoc by (cases "n \<le> length p") auto
qed simp

lemma mkdirs_append:
  "mkdirs deny pre cs d = (None, d') \<Longrightarrow> mkdirs deny pre (cs @ cs') d = mkdirs deny (pre @ cs) cs' d'"
  by (induction deny pre cs d rule: mkdirs.induct)
    (auto simp: Let_def split: option.splits fnode.splits if_splits)

text \<open>Making a directory in an existing one adds one entry, or nothing when refused.\<close>

lemma makedirs_one:
  assumes "wf_fs d" "p \<noteq> []" "is_dir d (butlast p)" "\<not> path_exists d p"
  shows "makedirs deny p d =
    (if deny p then (Some (Exc OSError ''cannot create directory''), d) else (None, dset p Dir d))"
proof -
  have "mkdirs deny [] (butlast p) d = (None, d)"
    using is_dir_take[OF assms(1,3)] by (intro mkdirs_existing) auto
  from mkdirs_append[OF this, of "[last p]"] assms(2)
  have "makedirs deny p d = mkdirs deny (butlast p) [last p] d" by (simp add: makedirs_def)
  moreover have "map_of d p = None" using assms(4) by (simp add: path_exists_def map_of_eq_None_iff)
  ultimately show ?thesis using assms(2) by simp
qed

lemma mkdirs_wf:
  "wf_fs d \<Longrightarrow> is_dir d pre \<Longrightarrow> wf_fs (snd (mkdirs deny pre cs d))"
proof (induction deny pre cs d rule: mkdirs.induct)
  case (2 deny pre c cs d)
  have "wf_fs (dset (pre @ [c]) Dir d)" using 2 by (intro wf_fs_Dir) auto
  moreover have "map_of d (pre @ [c]) = Some Dir \<Longrightarrow> is_dir d (pre @ [c])" by (simp add: is_dir_def)
  ultimately show ?case using 2 by (auto simp: Let_def split: option.splits fnode.splits)
qed simp

section \<open>The interface of the clients that store files\<close>

locale file_store =
  fixes store :: "'p \<Rightarrow> 'c \<Rightarrow> 's \<Rightarrow> 's"
    and fetch :: "'s \<Rightarrow> 'p \<Rightarrow> 'c res"
    and discard :: "'p \<Rightarrow> 's \<Rightarrow> 's"
    and holds :: "'s \<Rightarrow> 'p \<Rightarrow> bool"
  assumes fetch_store: "fetch (store p c s) q = (if q = p then Inr c else fetch s q)"
    and fetch_discard: "q \<noteq> p \<Longrightarrow> fetch (discard p s) q = fetch s q"
    and holds_iff: "holds s p \<longleftrightarrow> (\<exists>c. fetch s p = Inr c)"
    and holds_discard: "\<not> holds (discard p s) p"
begin

lemma holds_store [simp]: "holds (store p c s) q \<longleftrightarrow> q = p \<or> holds s q"
  by (auto simp: holds_iff fetch_store)

lemma holds_discard_iff [simp]: "holds (discard p s) q \<longleftrightarrow> q \<noteq> p \<and> holds s q"
  by (metis holds_iff fetch_discard holds_discard)

text \<open>Storing a list of files: the last content of a path is the one that is read back.\<close>

definition store_all :: "('p \<times> 'c) list \<Rightarrow> 's \<Rightarrow> 's" where
  "store_all xs s = foldl (\<lambda>s (p, c). store p c s) s xs"

lemma fetch_store_all:
  "distinct (map fst xs) \<Longrightarrow> fetch (store_all xs s) q =
     (case map_of xs q of Some c \<Rightarrow> Inr c | None \<Rightarrow> fetch s q)"
proof (induction xs arbitrary: s)
  case Nil
  then show ?case by (simp add: store_all_def)
next
  case (Cons a xs)
  obtain p c where a: "a = (p, c)" by (cases a)
  have "map_of xs p = None" using Cons.prems a by (simp add: map_of_eq_None_iff)
  then show ?case using Cons a
    by (auto simp: store_all_def fetch_store split: option.splits)
qed

lemma holds_store_all [simp]:
  "holds (store_all xs s) q \<longleftrightarrow> q \<in> fst ` set xs \<or> holds s q"
proof (induction xs arbitrary: s)
  case (Cons a xs)
  then show ?case by (cases a) (auto simp: store_all_def)
qed (simp add: store_all_def)

end

text \<open>Plain files in a tree: \<open>open(..., "w")\<close>, \<open>open(...)\<close>, \<open>os.remove\<close>, \<open>os.path.isfile\<close>.\<close>

definition holds_file :: "'c fs \<Rightarrow> path \<Rightarrow> bool" where
  "holds_file d p \<longleftrightarrow> (case map_of d p of Some (File _) \<Rightarrow> True | _ \<Rightarrow> False)"

interpretation files: file_store write_file read_file remove_file holds_file
  by unfold_locales
    (auto simp: write_file_def read_file_def remove_file_def holds_file_def
      split: option.splits fnode.splits)

end
