(* ===== verification/Py_String.thy ===== *)
theory Py_String
  imports Asct_Prelude
begin

text \<open>
  The string operations of Python that the code uses, on ASCII strings: white space,
  \<open>strip\<close>, \<open>lower\<close>, \<open>split\<close> with and without a limit, \<open>join\<close>, \<open>removeprefix\<close>,
  decimal output and the conversion \<open>int(s)\<close> with its optional white space, sign and
  single underscores between digits.
\<close>

section \<open>Characters, stripping and case\<close>

definition is_space :: "char \<Rightarrow> bool" where
  "is_space c \<longleftrightarrow> c = CHR '' '' \<or> c = CHR 0x09 \<or> c = CHR 0x0A \<or> c = CHR 0x0B \<or>
     c = CHR 0x0C \<or> c = CHR 0x0D \<or> c = CHR 0x1C \<or> c = CHR 0x1D \<or> c = CHR 0x1E \<or> c = CHR 0x1F"

definition lstrip :: "string \<Rightarrow> string" where
  "lstrip s = dropWhile is_space s"

definition rstrip :: "string \<Rightarrow> string" where
  "rstrip s = rev (dropWhile is_space (rev s))"

definition strip :: "string \<Rightarrow> string" where
  "strip s = rstrip (lstrip s)"

definition lower_char :: "char \<Rightarrow> char" where
  "lower_char c = (let n = (of_char c :: nat) in if 65 \<le> n \<and> n \<le> 90 then char_of (n + 32) else c)"

definition lower :: "string \<Rightarrow> string" where
  "lower s = map lower_char s"

definition ljust :: "nat \<Rightarrow> string \<Rightarrow> string" where
  "ljust n s = s @ replicate (n - length s) CHR '' ''"

lemma length_ljust [simp]: "length (ljust n s) = max n (length s)"
  by (simp add: ljust_def)

lemma lower_idem_char: "lower_char (lower_char c) = lower_char c"
proof (cases "65 \<le> (of_char c :: nat) \<and> (of_char c :: nat) \<le> 90")
  case True
  define n :: nat where "n = of_char c"
  have n: "65 \<le> n" "n \<le> 90" using True by (auto simp: n_def)
  then have "(of_char (char_of (n + 32) :: char) :: nat) = n + 32" by (simp add: of_char_of)
  then show ?thesis using n by (simp add: lower_char_def Let_def flip: n_def)
next
  case False
  then show ?thesis by (auto simp: lower_char_def Let_def)
qed

lemma lower_idem [simp]: "lower (lower s) = lower s"
  by (simp add: lower_def lower_idem_char)

section \<open>Splitting and joining\<close>

fun split_on :: "char \<Rightarrow> string \<Rightarrow> string list" where
  "split_on c [] = [[]]"
| "split_on c (x # xs) =
     (if x = c then [] # split_on c xs
      else case split_on c xs of [] \<Rightarrow> [[x]] | y # ys \<Rightarrow> (x # y) # ys)"

fun join :: "string \<Rightarrow> string list \<Rightarrow> string" where
  "join sep [] = []"
| "join sep [s] = s"
| "join sep (s # t # ss) = s @ sep @ join sep (t # ss)"

text \<open>\<open>s.split(c, 1)\<close> where \<open>c\<close> occurs in \<open>s\<close>: the part before and the part after it.\<close>

definition split_once :: "char \<Rightarrow> string \<Rightarrow> string \<times> string" where
  "split_once c s = (takeWhile (\<lambda>x. x \<noteq> c) s, tl (dropWhile (\<lambda>x. x \<noteq> c) s))"

definition removeprefix :: "string \<Rightarrow> string \<Rightarrow> string" where
  "removeprefix p s = (if prefix p s then drop (length p) s else s)"

definition infix_of :: "string \<Rightarrow> string \<Rightarrow> bool" where
  "infix_of p s \<longleftrightarrow> (\<exists>i \<le> length s. prefix p (drop i s))"

lemma split_on_ne [simp]: "split_on c s \<noteq> []"
  by (induction s) (auto split: list.splits)

lemma join_Cons: "ss \<noteq> [] \<Longrightarrow> join sep (s # ss) = s @ sep @ join sep ss"
  by (cases ss) auto

lemma join_split: "join [c] (split_on c s) = s"
proof (induction s)
  case (Cons x s)
  obtain y ys where y: "split_on c s = y # ys" by (metis split_on_ne neq_Nil_conv)
  show ?case
  proof (cases "x = c")
    case True
    then show ?thesis using Cons y by simp
  next
    case False
    then show ?thesis using Cons y by (cases ys) auto
  qed
qed simp

lemma split_on_parts: "p \<in> set (split_on c s) \<Longrightarrow> c \<notin> set p"
proof (induction s arbitrary: p)
  case (Cons x s)
  obtain y ys where y: "split_on c s = y # ys" by (metis split_on_ne neq_Nil_conv)
  then show ?case using Cons by (auto split: if_splits)
qed simp

lemma split_on_nosep: "c \<notin> set s \<Longrightarrow> split_on c s = [s]"
  by (induction s) auto

lemma split_on_append: "c \<notin> set s \<Longrightarrow> split_on c (s @ c # t) = s # split_on c t"
proof (induction s)
  case (Cons x s)
  then show ?case by auto
qed simp

lemma split_join: "ss \<noteq> [] \<Longrightarrow> \<forall>s \<in> set ss. c \<notin> set s \<Longrightarrow> split_on c (join [c] ss) = ss"
proof (induction ss)
  case (Cons s ss)
  then show ?case
    by (cases "ss = []") (auto simp: join_Cons split_on_nosep split_on_append)
qed simp

section \<open>Decimal numbers\<close>

definition digit_char :: "nat \<Rightarrow> char" where
  "digit_char d = char_of (48 + d)"

fun nat_str :: "nat \<Rightarrow> string" where
  "nat_str n = (if n < 10 then [digit_char n] else nat_str (n div 10) @ [digit_char (n mod 10)])"

declare nat_str.simps [simp del]

definition int_str :: "int \<Rightarrow> string" where
  "int_str i = (if i < 0 then CHR ''-'' # nat_str (nat (- i)) else nat_str (nat i))"

definition is_digit :: "char \<Rightarrow> bool" where
  "is_digit c \<longleftrightarrow> 48 \<le> (of_char c :: nat) \<and> (of_char c :: nat) \<le> 57"

definition digit_val :: "char \<Rightarrow> nat" where
  "digit_val c = of_char c - 48"

definition digits_val :: "string \<Rightarrow> nat" where
  "digits_val s = foldl (\<lambda>n c. 10 * n + digit_val c) 0 s"

text \<open>Digits with at most one underscore between two of them.\<close>

fun us_digits :: "string \<Rightarrow> bool" where
  "us_digits [] \<longleftrightarrow> False"
| "us_digits [c] \<longleftrightarrow> is_digit c"
| "us_digits (c # d # s) \<longleftrightarrow>
     is_digit c \<and> (if d = CHR ''_'' then us_digits s else us_digits (d # s))"

definition int_of_str :: "string \<Rightarrow> int res" where
  "int_of_str s =
     (let t = strip s;
          (neg, u) = (case t of [] \<Rightarrow> (False, t)
             | c # r \<Rightarrow> if c = CHR ''-'' then (True, r) else if c = CHR ''+'' then (False, r)
                       else (False, t))
      in if us_digits u
         then (let n = int (digits_val (filter (\<lambda>c. c \<noteq> CHR ''_'') u))
               in Inr (if neg then - n else n))
         else Inl (Exc ValueError ''invalid literal for int()''))"

lemma is_digit_digit_char [simp]: "d < 10 \<Longrightarrow> is_digit (digit_char d)"
  by (simp add: is_digit_def digit_char_def of_char_of)

lemma digit_val_digit_char [simp]: "d < 10 \<Longrightarrow> digit_val (digit_char d) = d"
  by (simp add: digit_val_def digit_char_def of_char_of)

lemma is_digit_not_special:
  "is_digit c \<Longrightarrow> c \<noteq> CHR ''_'' \<and> c \<noteq> CHR ''-'' \<and> c \<noteq> CHR ''+'' \<and> c \<noteq> CHR ''.'' \<and> \<not> is_space c"
  by (auto simp: is_digit_def is_space_def)

lemma nat_str_digits: "\<forall>c \<in> set (nat_str n). is_digit c"
proof (induction n rule: nat_str.induct)
  case (1 n)
  then show ?case by (subst nat_str.simps) (auto simp del: One_nat_def)
qed

lemma nat_str_ne [simp]: "nat_str n \<noteq> []"
  by (subst nat_str.simps) simp

lemma digits_val_snoc: "digits_val (s @ [c]) = 10 * digits_val s + digit_val c"
  by (simp add: digits_val_def)

lemma digits_val_nat_str [simp]: "digits_val (nat_str n) = n"
proof (induction n rule: nat_str.induct)
  case (1 n)
  show ?case
  proof (cases "n < 10")
    case True
    then show ?thesis by (subst nat_str.simps) (simp add: digits_val_def)
  next
    case False
    then show ?thesis using 1 by (subst nat_str.simps) (simp add: digits_val_snoc)
  qed
qed

lemma nat_str_inj: "nat_str m = nat_str n \<Longrightarrow> m = n"
  by (metis digits_val_nat_str)

lemma us_digits_plain: "s \<noteq> [] \<Longrightarrow> \<forall>c \<in> set s. is_digit c \<Longrightarrow> us_digits s"
  by (induction s rule: us_digits.induct) (auto dest: is_digit_not_special)

lemma strip_id:
  assumes "s = [] \<or> \<not> is_space (hd s) \<and> \<not> is_space (last s)"
  shows "strip s = s"
proof (cases s)
  case (Cons c r)
  have l: "lstrip s = s" using assms Cons by (simp add: lstrip_def)
  obtain i l' where s: "s = i @ [l']" using Cons by (metis neq_Nil_conv rev_exhaust)
  then have "dropWhile is_space (rev s) = rev s" using assms Cons by simp
  then show ?thesis by (simp add: strip_def rstrip_def l)
qed (simp add: strip_def rstrip_def lstrip_def)

lemma int_of_str_nat_str [simp]: "int_of_str (nat_str n) = Inr (int n)"
proof -
  have d: "\<forall>c \<in> set (nat_str n). is_digit c" by (rule nat_str_digits)
  obtain c r where cr: "nat_str n = c # r" by (metis nat_str_ne neq_Nil_conv)
  have st: "strip (nat_str n) = nat_str n"
    using d by (intro strip_id) (metis is_digit_not_special last_in_set hd_in_set nat_str_ne)
  have "c \<noteq> CHR ''-''" "c \<noteq> CHR ''+''" using d cr is_digit_not_special by auto
  moreover have "us_digits (c # r)" using us_digits_plain[of "nat_str n"] d cr by auto
  moreover have "filter (\<lambda>c. c \<noteq> CHR ''_'') (c # r) = c # r"
    using d cr is_digit_not_special by (intro filter_True) auto
  moreover have "strip (c # r) = c # r" using st cr by simp
  ultimately show ?thesis
    using digits_val_nat_str[of n] unfolding int_of_str_def cr Let_def by simp
qed

end
