(* ===== verification/Resources.thy ===== *)
theory Resources
  imports File_System Py_String
begin

text \<open>
  The resources under \<open>src/core/resources\<close> (without huge pages, which have a theory of
  their own) and their base classes: each resource is a state of its class, and its
  \<open>setup\<close> and \<open>teardown\<close> are functions from that state and the world to an optional
  exception, the new state and the new world.  State and world are returned on the error
  paths too, because what a failed call leaves behind matters.  The world is the file tree
  (files by their size) with what the operating system decides: which directories it
  refuses to create, how large a file may get, the name of the next temporary file, and
  what running a tool with \<open>--version\<close> gives.
\<close>

record world =
  w_fs :: "nat fs"
  w_deny :: "path \<Rightarrow> bool"
  w_space :: nat
  w_tmpname :: "nat fs \<Rightarrow> path \<Rightarrow> string"
  w_tool :: "string list \<Rightarrow> exc + (int \<times> string)"

type_synonym 'k outcome = "exc option \<times> 'k \<times> world"

section \<open>Directories and temporary files\<close>

record output_folder =
  of_path :: "path option"
  of_force_create :: bool
  of_force_delete :: bool
  of_always_creatable :: bool
  of_created :: "path option"

definition new_output_folder :: "path \<Rightarrow> bool \<Rightarrow> bool \<Rightarrow> output_folder" where
  "new_output_folder p fc fd = \<lparr>of_path = Some p, of_force_create = fc, of_force_delete = fd,
     of_always_creatable = False, of_created = None\<rparr>"

definition new_raw_results_folder :: "path \<Rightarrow> output_folder" where
  "new_raw_results_folder p = (new_output_folder p True False)\<lparr>of_always_creatable := True\<rparr>"

definition type_error_path :: exc where
  "type_error_path = Exc TypeError ''stat: path should be string, bytes, os.PathLike or integer, not NoneType''"

definition creation_failed :: exc where
  "creation_failed = Exc RuntimeError ''Failed to create filesystem resource.''"

definition folder_creatable :: "output_folder \<Rightarrow> world \<Rightarrow> bool res" where
  "folder_creatable k w =
     (if of_always_creatable k then Inr True
      else case of_path k of
        None \<Rightarrow> Inl type_error_path
      | Some p \<Rightarrow> Inr (\<not> path_exists (w_fs w) p \<or> of_force_create k))"

text \<open>Creating returns the path only when this object made the directory.\<close>

definition folder_create :: "output_folder \<Rightarrow> world \<Rightarrow> output_folder outcome" where
  "folder_create k w =
     (case of_path k of
        None \<Rightarrow> (Some type_error_path, k, w)
      | Some p \<Rightarrow>
          if path_exists (w_fs w) p then (None, k\<lparr>of_created := None\<rparr>, w)
          else (case makedirs (w_deny w) p (w_fs w) of
              (None, d) \<Rightarrow> (None, k\<lparr>of_created := Some p\<rparr>, w\<lparr>w_fs := d\<rparr>)
            | (Some _, d) \<Rightarrow> (Some creation_failed, k\<lparr>of_path := None\<rparr>, w\<lparr>w_fs := d\<rparr>)))"

definition folder_setup :: "output_folder \<Rightarrow> world \<Rightarrow> output_folder outcome" where
  "folder_setup k w = (case folder_creatable k w of
       Inl e \<Rightarrow> (Some e, k, w)
     | Inr False \<Rightarrow> (Some creation_failed, k, w)
     | Inr True \<Rightarrow> folder_create k w)"

definition folder_deletable :: "path option \<Rightarrow> world \<Rightarrow> bool" where
  "folder_deletable p w = (case p of None \<Rightarrow> False | Some q \<Rightarrow> is_dir (w_fs w) q)"

definition folder_teardown :: "output_folder \<Rightarrow> world \<Rightarrow> output_folder outcome" where
  "folder_teardown k w =
     (case of_created k of
        None \<Rightarrow> (None, k, w)
      | Some p \<Rightarrow>
          if \<not> folder_deletable (Some p) w then (None, k, w)
          else if of_force_delete k \<or> listdir (w_fs w) p = []
          then (None, k\<lparr>of_created := None\<rparr>, w\<lparr>w_fs := rmtree p (w_fs w)\<rparr>)
          else (None, k, w))"

definition get_output_folder_path :: "output_folder \<Rightarrow> world \<Rightarrow> path res" where
  "get_output_folder_path k w = (case of_path k of
       None \<Rightarrow> Inl (Exc FileNotFoundError ''Output folder does not exist'')
     | Some p \<Rightarrow> if is_dir (w_fs w) p then Inr p
         else Inl (Exc FileNotFoundError ''Output folder does not exist''))"

record temporary_file =
  tf_parent :: path
  tf_size :: nat
  tf_force_delete :: bool
  tf_created :: "path option"

definition new_temporary_file :: "path \<Rightarrow> nat \<Rightarrow> bool \<Rightarrow> temporary_file" where
  "new_temporary_file p n fd =
     \<lparr>tf_parent = p, tf_size = n, tf_force_delete = fd, tf_created = None\<rparr>"

text \<open>The loop of \<open>_allocate_size\<close>: the sizes of the writes, chunk by chunk.\<close>

function allocate_sizes :: "nat \<Rightarrow> nat \<Rightarrow> nat list" where
  "allocate_sizes chunk remaining =
     (if remaining = 0 \<or> chunk = 0 then []
      else (let write_size = min chunk remaining
            in write_size # allocate_sizes chunk (remaining - write_size)))"
  by pat_completeness auto
termination by (relation "measure snd") auto

declare allocate_sizes.simps [simp del]

definition chunk_size :: nat where
  "chunk_size = 1024 * 1024"

text \<open>The file is made first and filled afterwards; when filling fails it stays, because it
  was opened with \<open>delete=False\<close> and its name was not recorded.\<close>

definition temp_create :: "temporary_file \<Rightarrow> world \<Rightarrow> temporary_file outcome" where
  "temp_create k w =
     (let p = tf_parent k @ [w_tmpname w (w_fs w) (tf_parent k)];
          n = sum_list (allocate_sizes chunk_size (tf_size k))
      in if w_deny w p then (Some creation_failed, k, w)
         else if n > w_space w
         then (Some creation_failed, k, w\<lparr>w_fs := write_file p (w_space w) (w_fs w)\<rparr>)
         else (None, k\<lparr>tf_created := Some p\<rparr>, w\<lparr>w_fs := write_file p n (w_fs w)\<rparr>))"

definition temp_setup :: "temporary_file \<Rightarrow> world \<Rightarrow> temporary_file outcome" where
  "temp_setup k w =
     (if \<not> is_dir (w_fs w) (tf_parent k) then (Some creation_failed, k, w) else temp_create k w)"

definition temp_deletable :: "path option \<Rightarrow> world \<Rightarrow> bool" where
  "temp_deletable p w = (case p of None \<Rightarrow> False | Some q \<Rightarrow> is_file (w_fs w) q)"

definition temp_is_empty :: "path \<Rightarrow> world \<Rightarrow> bool" where
  "temp_is_empty p w = (read_file (w_fs w) p = Inr 0)"

definition temp_teardown :: "temporary_file \<Rightarrow> world \<Rightarrow> temporary_file outcome" where
  "temp_teardown k w =
     (case tf_created k of
        None \<Rightarrow> (None, k, w)
      | Some p \<Rightarrow>
          if \<not> temp_deletable (Some p) w then (None, k, w)
          else if tf_force_delete k \<or> temp_is_empty p w
          then (None, k\<lparr>tf_created := None\<rparr>, w\<lparr>w_fs := remove_file p (w_fs w)\<rparr>)
          else (None, k, w))"

section \<open>Checks and external tools\<close>

definition check_sudo_setup :: "bool \<Rightarrow> exc option" where
  "check_sudo_setup is_sudo = (if is_sudo then None else
     Some (Exc RuntimeError ''sudo/root is required for this operation - please re-run as root or with sudo''))"

text \<open>An unreadable or malformed level counts as -1.\<close>

definition paranoid_level :: "string res \<Rightarrow> int res \<Rightarrow> int" where
  "paranoid_level content parsed = (case content of Inl _ \<Rightarrow> -1 | Inr _ \<Rightarrow>
     (case parsed of Inl _ \<Rightarrow> -1 | Inr n \<Rightarrow> n))"

definition check_paranoid_setup :: "int \<Rightarrow> int \<Rightarrow> exc option" where
  "check_paranoid_setup level max_required = (if level > max_required then
     Some (Exc RuntimeError (''/proc/sys/kernel/perf_event_paranoid has to be set to a value <= '' @
       int_str max_required @ '', current value: '' @ int_str level)) else None)"

record tool =
  tool_name :: string
  tool_args :: "string list"
  tool_version :: "string option"

definition check_tool_version :: "string \<Rightarrow> string \<Rightarrow> exc option" where
  "check_tool_version name version = (if version = [] then
     Some (Exc RuntimeError (''Unable to determine version of '' @ name @ ''.'')) else None)"

definition tool_setup :: "tool \<Rightarrow> world \<Rightarrow> tool outcome" where
  "tool_setup t w =
     (if tool_version t \<noteq> None then (None, t, w)
      else case w_tool w (tool_name t # tool_args t) of
        Inl e \<Rightarrow> (Some e, t, w)
      | Inr (rc, out) \<Rightarrow>
          (let v = (if rc = 0 then strip out else ''unknown''); t' = t\<lparr>tool_version := Some v\<rparr>
           in (check_tool_version (tool_name t) v, t', w)))"

definition mpstat :: tool where
  "mpstat = \<lparr>tool_name = ''mpstat'', tool_args = [''-V''], tool_version = None\<rparr>"

definition numactl :: tool where
  "numactl = \<lparr>tool_name = ''numactl'', tool_args = [''--version''], tool_version = None\<rparr>"

definition numactl_setup :: "nat \<Rightarrow> tool \<Rightarrow> world \<Rightarrow> tool outcome" where
  "numactl_setup n_numa_nodes t w =
     (if n_numa_nodes = 0 then (Some (Exc RuntimeError []), t, w) else tool_setup t w)"

section \<open>All kinds together\<close>

datatype resource_kind =
    CheckSudo bool
  | CheckParanoidLevel int int
  | ExternalTool tool
  | Numactl nat tool
  | OutputFolder output_folder
  | TemporaryFile temporary_file

definition lift_kind :: "('a \<Rightarrow> resource_kind) \<Rightarrow> 'a outcome \<Rightarrow> resource_kind outcome" where
  "lift_kind C res = (case res of (e, k, w) \<Rightarrow> (e, C k, w))"

fun kind_setup :: "resource_kind \<Rightarrow> world \<Rightarrow> resource_kind outcome" where
  "kind_setup (CheckSudo b) w = (check_sudo_setup b, CheckSudo b, w)"
| "kind_setup (CheckParanoidLevel l m) w = (check_paranoid_setup l m, CheckParanoidLevel l m, w)"
| "kind_setup (ExternalTool t) w = lift_kind ExternalTool (tool_setup t w)"
| "kind_setup (Numactl n t) w = lift_kind (Numactl n) (numactl_setup n t w)"
| "kind_setup (OutputFolder k) w = lift_kind OutputFolder (folder_setup k w)"
| "kind_setup (TemporaryFile k) w = lift_kind TemporaryFile (temp_setup k w)"

fun kind_teardown :: "resource_kind \<Rightarrow> world \<Rightarrow> resource_kind outcome" where
  "kind_teardown (OutputFolder k) w = lift_kind OutputFolder (folder_teardown k w)"
| "kind_teardown (TemporaryFile k) w = lift_kind TemporaryFile (temp_teardown k w)"
| "kind_teardown k w = (None, k, w)"

section \<open>Several resources behind one\<close>

text \<open>
  \<open>MultiResourceContainer\<close> sets its members up in order.  With \<open>require_all\<close> the first
  failure ends the loop and is raised; without it the container fails only when every
  member failed.  Only the exceptions the clause names are collected.
\<close>

abbreviation setup_errors :: "exc_class list" where
  "setup_errors \<equiv> [RuntimeError, ValueError, TypeError, OSError, KeyError, AttributeError]"

fun multi_loop :: "('k \<Rightarrow> 'w \<Rightarrow> exc option \<times> 'k \<times> 'w) \<Rightarrow> bool \<Rightarrow> 'k list \<Rightarrow> 'w \<Rightarrow>
    exc option \<times> exc list \<times> 'k list \<times> 'w" where
  "multi_loop set_up req [] w = (None, [], [], w)"
| "multi_loop set_up req (k # ks) w =
     (case set_up k w of
        (None, k', w') \<Rightarrow>
          (let (u, fs, ks', w'') = multi_loop set_up req ks w' in (u, fs, k' # ks', w''))
      | (Some e, k', w') \<Rightarrow>
          if \<not> caught setup_errors e then (Some e, [], k' # ks, w')
          else if req then (None, [e], k' # ks, w')
          else (let (u, fs, ks', w'') = multi_loop set_up req ks w' in (u, e # fs, k' # ks', w'')))"

definition multi_setup :: "('k \<Rightarrow> 'w \<Rightarrow> exc option \<times> 'k \<times> 'w) \<Rightarrow> bool \<Rightarrow> 'k list \<Rightarrow> 'w \<Rightarrow>
    exc option \<times> 'k list \<times> 'w" where
  "multi_setup set_up req ks w =
     (case multi_loop set_up req ks w of
        (Some e, _, ks', w') \<Rightarrow> (Some e, ks', w')
      | (None, [], ks', w') \<Rightarrow> (None, ks', w')
      | (None, e # es, ks', w') \<Rightarrow>
          if req then (Some e, ks', w')
          else if Suc (length es) = length ks
          then (Some (Exc RuntimeError (join '' OR '' (map exc_msg (e # es)))), ks', w')
          else (None, ks', w'))"

section \<open>What setting up and tearing down does to the world\<close>

lemma allocate_sizes_sum: "chunk > 0 \<Longrightarrow> sum_list (allocate_sizes chunk n) = n"
proof (induction chunk n rule: allocate_sizes.induct)
  case (1 chunk n)
  then show ?case by (subst allocate_sizes.simps) (auto simp: Let_def)
qed

lemma allocate_sizes_bound: "x \<in> set (allocate_sizes chunk n) \<Longrightarrow> 0 < x \<and> x \<le> chunk"
proof (induction chunk n rule: allocate_sizes.induct)
  case (1 chunk n)
  show ?case
  proof (cases "n = 0 \<or> chunk = 0")
    case True
    with "1.prems" show ?thesis by (subst (asm) allocate_sizes.simps) simp
  next
    case False
    with "1.prems" have "x = min chunk n \<or> x \<in> set (allocate_sizes chunk (n - min chunk n))"
      by (subst (asm) allocate_sizes.simps) (simp add: Let_def)
    then show ?thesis using "1.IH"[OF False refl] False by auto
  qed
qed

lemma temp_size [simp]: "sum_list (allocate_sizes chunk_size n) = n"
  by (simp add: allocate_sizes_sum chunk_size_def)

text \<open>
  A resource is ready for its setup when the world is well formed, the directory it goes
  to exists, and, for a temporary file, the system hands out a fresh name, the requested
  size fits and the teardown will remove it.
\<close>

fun kind_ready :: "resource_kind \<Rightarrow> world \<Rightarrow> bool" where
  "kind_ready (OutputFolder k) w \<longleftrightarrow> wf_fs (w_fs w) \<and> of_created k = None \<and>
     (case of_path k of None \<Rightarrow> False | Some p \<Rightarrow> p \<noteq> [] \<and> is_dir (w_fs w) (butlast p))"
| "kind_ready (TemporaryFile k) w \<longleftrightarrow> wf_fs (w_fs w) \<and> tf_created k = None \<and>
     \<not> path_exists (w_fs w) (tf_parent k @ [w_tmpname w (w_fs w) (tf_parent k)]) \<and>
     tf_size k \<le> w_space w \<and> (tf_force_delete k \<or> tf_size k = 0)"
| "kind_ready k w \<longleftrightarrow> True"

lemma folder_setup_ready:
  assumes "kind_ready (OutputFolder k) w" "of_path k = Some p" "\<not> path_exists (w_fs w) p"
  shows "folder_setup k w =
    (if w_deny w p then (Some creation_failed, k\<lparr>of_path := None\<rparr>, w)
     else (None, k\<lparr>of_created := Some p\<rparr>, w\<lparr>w_fs := dset p Dir (w_fs w)\<rparr>))"
  using assms
  by (auto simp: folder_setup_def folder_creatable_def folder_create_def makedirs_one)

lemma folder_setup_existing:
  assumes "of_path k = Some p" "path_exists (w_fs w) p"
  shows "folder_setup k w =
    (if of_always_creatable k \<or> of_force_create k then (None, k\<lparr>of_created := None\<rparr>, w)
     else (Some creation_failed, k, w))"
  using assms by (simp add: folder_setup_def folder_creatable_def folder_create_def)

lemma folder_undo:
  assumes r: "kind_ready (OutputFolder k) w" and s: "folder_setup k w = (None, k', w')"
  shows "\<exists>k''. folder_teardown k' w' = (None, k'', w)"
proof -
  obtain p where p: "of_path k = Some p" using r by (auto split: option.splits)
  show ?thesis
  proof (cases "path_exists (w_fs w) p")
    case True
    then have "k' = k\<lparr>of_created := None\<rparr>" "w' = w"
      using s folder_setup_existing[OF p True] by (auto split: if_splits)
    then show ?thesis by (simp add: folder_teardown_def)
  next
    case False
    have k': "k' = k\<lparr>of_created := Some p\<rparr>" and w': "w' = w\<lparr>w_fs := dset p Dir (w_fs w)\<rparr>"
      using s folder_setup_ready[OF r p False] by (auto split: if_splits)
    have wf: "wf_fs (w_fs w)" using r by simp
    show ?thesis
      by (simp add: folder_teardown_def folder_deletable_def k' w' listdir_new[OF wf False]
          rmtree_undo[OF wf False])
  qed
qed

lemma temp_undo:
  assumes r: "kind_ready (TemporaryFile k) w" and s: "temp_setup k w = (None, k', w')"
  shows "\<exists>k''. temp_teardown k' w' = (None, k'', w)"
proof -
  define p where "p = tf_parent k @ [w_tmpname w (w_fs w) (tf_parent k)]"
  have new: "\<not> path_exists (w_fs w) p" using r by (simp add: p_def)
  have k': "k' = k\<lparr>tf_created := Some p\<rparr>" and w': "w' = w\<lparr>w_fs := write_file p (tf_size k) (w_fs w)\<rparr>"
    using s r by (auto simp: temp_setup_def temp_create_def Let_def p_def split: if_splits)
  have "p \<noteq> []" by (simp add: p_def)
  then show ?thesis using r
    by (auto simp: temp_teardown_def temp_deletable_def temp_is_empty_def k' w' is_file_def
        read_file_def write_file_def remove_undo[OF new])
qed

lemma kind_undo:
  "kind_ready k w \<Longrightarrow> kind_setup k w = (None, k', w') \<Longrightarrow> \<exists>k''. kind_teardown k' w' = (None, k'', w)"
proof (cases k)
  case (ExternalTool t)
  then show "kind_setup k w = (None, k', w') \<Longrightarrow> ?thesis"
    by (auto simp: lift_kind_def tool_setup_def Let_def split: if_splits sum.splits)
next
  case (Numactl n t)
  then show "kind_setup k w = (None, k', w') \<Longrightarrow> ?thesis"
    by (auto simp: lift_kind_def numactl_setup_def tool_setup_def Let_def split: if_splits sum.splits)
next
  case (OutputFolder f)
  then show "kind_ready k w \<Longrightarrow> kind_setup k w = (None, k', w') \<Longrightarrow> ?thesis"
    by (cases "folder_setup f w")
      (auto simp: lift_kind_def simp del: kind_ready.simps dest!: folder_undo)
next
  case (TemporaryFile f)
  then show "kind_ready k w \<Longrightarrow> kind_setup k w = (None, k', w') \<Longrightarrow> ?thesis"
    by (cases "temp_setup f w")
      (auto simp: lift_kind_def simp del: kind_ready.simps dest!: temp_undo)
qed auto

lemma kind_fail:
  "kind_ready k w \<Longrightarrow> kind_setup k w = (Some e, k', w') \<Longrightarrow> w' = w"
proof (cases k)
  case (OutputFolder f)
  assume a: "kind_ready k w" "kind_setup k w = (Some e, k', w')"
  obtain p where p: "of_path f = Some p" using a OutputFolder by (auto split: option.splits)
  obtain f' where s: "folder_setup f w = (Some e, f', w')"
    using a OutputFolder by (cases "folder_setup f w") (auto simp: lift_kind_def)
  show "w' = w"
  proof (cases "path_exists (w_fs w) p")
    case True
    then show ?thesis using s folder_setup_existing[OF p True] by (auto split: if_splits)
  next
    case False
    then show ?thesis using s folder_setup_ready[OF _ p False] a(1) OutputFolder
      by (auto split: if_splits)
  qed
next
  case (TemporaryFile f)
  then show "kind_ready k w \<Longrightarrow> kind_setup k w = (Some e, k', w') \<Longrightarrow> w' = w"
    by (auto simp: lift_kind_def temp_setup_def temp_create_def Let_def split: if_splits)
qed (auto simp: lift_kind_def numactl_setup_def tool_setup_def Let_def split: if_splits sum.splits)

end
