(* ===== verification/Graphlib.thy ===== *)
theory Graphlib
  imports Asct_Prelude
begin

text \<open>
  The standard library's \<open>graphlib.TopologicalSorter(graph).static_order()\<close>, which the
  resource manager and the recipe registry use.  A graph is the dictionary the code passes,
  node to list of predecessors; a node that only occurs as a predecessor is a node as well.
  Nodes with no open predecessor leave through a queue; passing a node out lowers the
  counter of each of its successors, and a counter that reaches zero puts its node at the
  end of the queue.  The sorter raises \<open>CycleError\<close> when the graph has a cycle, that is,
  when some node never leaves.

  The interface \<open>topo_order\<close> states what the clients rely on; the model of
  \<open>static_order\<close> interprets it.
\<close>

type_synonym 'a graph = "('a, 'a list) dict"

section \<open>The sorter\<close>

definition graph_nodes :: "'a graph \<Rightarrow> 'a list" where
  "graph_nodes g = foldl (\<lambda>acc x. set_add x acc) [] (concat (map (\<lambda>(n, ds). n # ds) g))"

definition npred :: "'a graph \<Rightarrow> 'a \<Rightarrow> nat" where
  "npred g n = (case map_of g n of None \<Rightarrow> 0 | Some ds \<Rightarrow> length ds)"

definition succs :: "'a graph \<Rightarrow> 'a \<Rightarrow> 'a list" where
  "succs g x = concat (map (\<lambda>(n, ds). replicate (count_list ds x) n) g)"

fun release :: "'a list \<Rightarrow> ('a \<Rightarrow> nat) \<Rightarrow> ('a \<Rightarrow> nat) \<times> 'a list" where
  "release [] c = (c, [])"
| "release (s # ss) c =
     (let c' = c(s := c s - 1); (c'', r) = release ss c'
      in (c'', if c' s = 0 then s # r else r))"

fun topo_run :: "nat \<Rightarrow> 'a graph \<Rightarrow> 'a list \<Rightarrow> ('a \<Rightarrow> nat) \<Rightarrow> 'a list" where
  "topo_run 0 g q c = []"
| "topo_run (Suc k) g [] c = []"
| "topo_run (Suc k) g (x # q) c =
     (let (c', r) = release (succs g x) c in x # topo_run k g (q @ r) c')"

definition static_order :: "'a graph \<Rightarrow> 'a list res" where
  "static_order g =
     (let ns = graph_nodes g;
          out = topo_run (length ns) g (filter (\<lambda>n. npred g n = 0) ns) (npred g)
      in if length out = length ns then Inr out
         else Inl (Exc CycleError ''nodes are in a cycle''))"

section \<open>What a sorter promises\<close>

fun before :: "'a \<Rightarrow> 'a \<Rightarrow> 'a list \<Rightarrow> bool" where
  "before a b [] \<longleftrightarrow> False"
| "before a b (x # xs) \<longleftrightarrow> (if x = a then b \<in> set xs else before a b xs)"

lemma before_in: "before a b xs \<Longrightarrow> a \<in> set xs \<and> b \<in> set xs"
  by (induction xs) (auto split: if_splits)

lemma before_appendI:
  "before a b xs \<Longrightarrow> before a b (xs @ ys)"
  "a \<in> set xs \<Longrightarrow> b \<in> set ys \<Longrightarrow> before a b (xs @ ys)"
  by (induction xs) auto

lemma before_map_inj: "inj_on f (insert a (set xs)) \<Longrightarrow> before a b xs \<Longrightarrow> before (f a) (f b) (map f xs)"
proof (induction xs)
  case (Cons x xs)
  have "f x = f a \<Longrightarrow> x = a" using Cons.prems(1) by (metis inj_onD insertCI list.set_intros(1))
  moreover have "inj_on f (insert a (set xs))" using Cons.prems(1) by (auto intro: inj_on_subset)
  ultimately show ?case using Cons by (auto split: if_splits)
qed simp

lemma before_asym: "distinct xs \<Longrightarrow> before a b xs \<Longrightarrow> \<not> before b a xs"
  by (induction xs) (auto dest: before_in split: if_splits)

text \<open>A graph is ranked by a function that is smaller on every predecessor.\<close>

definition ranked :: "'a graph \<Rightarrow> ('a \<Rightarrow> nat) \<Rightarrow> bool" where
  "ranked g r \<longleftrightarrow> (\<forall>(n, ds) \<in> set g. \<forall>d \<in> set ds. r d < r n)"

definition node_set :: "'a graph \<Rightarrow> 'a set" where
  "node_set g = (\<Union>(n, ds) \<in> set g. insert n (set ds))"

definition closed_graph :: "'a graph \<Rightarrow> bool" where
  "closed_graph g \<longleftrightarrow> (\<forall>(n, ds) \<in> set g. \<forall>d \<in> set ds. d \<in> set (dkeys g))"

locale topo_order =
  fixes order :: "'a graph \<Rightarrow> 'a list res"
  assumes order_distinct: "wf_dict g \<Longrightarrow> order g = Inr ns \<Longrightarrow> distinct ns"
    and order_nodes: "wf_dict g \<Longrightarrow> order g = Inr ns \<Longrightarrow> set ns = node_set g"
    and order_deps: "wf_dict g \<Longrightarrow> order g = Inr ns \<Longrightarrow> (n, ds) \<in> set g \<Longrightarrow> d \<in> set ds \<Longrightarrow>
      before d n ns"
    and order_total: "wf_dict g \<Longrightarrow> ranked g r \<Longrightarrow> \<exists>ns. order g = Inr ns"
    and order_error: "order g = Inl e \<Longrightarrow> exc_class e = CycleError"
begin

lemma order_closed:
  assumes "wf_dict g" "closed_graph g" "order g = Inr ns"
  shows "set ns = set (dkeys g)" "length ns = length g"
proof -
  show eq: "set ns = set (dkeys g)"
    using order_nodes[OF assms(1,3)] assms(2)
    by (force simp: node_set_def closed_graph_def)
  have "length ns = card (set ns)"
    using order_distinct[OF assms(1,3)] by (simp add: distinct_card)
  also have "\<dots> = length g" using eq assms(1) distinct_card[of "dkeys g"] by simp
  finally show "length ns = length g" .
qed

lemma order_acyclic:
  assumes "wf_dict g" "order g = Inr ns" "(n, ds) \<in> set g" "n \<in> set ds"
  shows False
proof -
  have b: "before n n ns" using order_deps[OF assms] .
  then show False using before_asym[OF order_distinct[OF assms(1,2)] b] by blast
qed

text \<open>The position of a node in the order is a rank, so an order exists only without cycles.\<close>

lemma order_ranks:
  assumes "wf_dict g" "order g = Inr ns"
  shows "\<exists>r. ranked g r"
proof -
  define r where "r n = length (takeWhile (\<lambda>x. x \<noteq> n) ns)" for n
  have lt: "length (takeWhile (\<lambda>x. x \<noteq> a) xs) < length (takeWhile (\<lambda>x. x \<noteq> b) xs)"
    if "before a b xs" "distinct xs" for a b and xs :: "'a list"
    using that by (induction xs) (auto dest: before_in split: if_splits)
  have "ranked g r"
    using lt order_deps[OF assms] order_distinct[OF assms] by (auto simp: ranked_def r_def)
  then show ?thesis by blast
qed

lemma order_iff_ranked: "wf_dict g \<Longrightarrow> (\<exists>ns. order g = Inr ns) \<longleftrightarrow> (\<exists>r. ranked g r)"
  using order_ranks order_total by blast

end

section \<open>The model keeps the promise\<close>

lemma graph_nodes_aux:
  "set (foldl (\<lambda>acc x. set_add x acc) acc xs) = set acc \<union> set xs"
  "distinct acc \<Longrightarrow> distinct (foldl (\<lambda>acc x. set_add x acc) acc xs)"
  by (induction xs arbitrary: acc) auto

lemma set_graph_nodes [simp]: "set (graph_nodes g) = node_set g"
  by (force simp: graph_nodes_def graph_nodes_aux node_set_def)

lemma finite_node_set [simp]: "finite (node_set g)"
  by (metis set_graph_nodes List.finite_set)

lemma distinct_graph_nodes [simp]: "distinct (graph_nodes g)"
  by (simp add: graph_nodes_def graph_nodes_aux)

lemma count_list_replicate: "count_list (replicate k y) x = (if x = y then k else 0)"
  by (induction k) auto

definition deps :: "'a graph \<Rightarrow> 'a \<Rightarrow> 'a list" where
  "deps g n = (case map_of g n of None \<Rightarrow> [] | Some ds \<Rightarrow> ds)"

lemma npred_deps: "npred g n = length (deps g n)"
  by (simp add: npred_def deps_def split: option.splits)

lemma deps_in: "wf_dict g \<Longrightarrow> (n, ds) \<in> set g \<Longrightarrow> deps g n = ds"
  by (simp add: deps_def)

lemma deps_mem: "d \<in> set (deps g n) \<Longrightarrow> (n, deps g n) \<in> set g"
  by (cases "map_of g n") (auto simp: deps_def dest: map_of_SomeD)

lemma deps_nodes: "d \<in> set (deps g n) \<Longrightarrow> d \<in> node_set g \<and> n \<in> node_set g"
  using deps_mem[of d g n] by (force simp: node_set_def)

lemma count_succs: "wf_dict g \<Longrightarrow> count_list (succs g x) n = count_list (deps g n) x"
proof (induction g)
  case Nil
  then show ?case by (simp add: succs_def deps_def)
next
  case (Cons p g)
  obtain m ds where p: "p = (m, ds)" by (cases p)
  have none: "map_of g m = None" using Cons.prems p by (simp add: map_of_eq_None_iff)
  have IH: "count_list (succs g x) n = count_list (deps g n) x" using Cons by simp
  have cnt: "count_list (succs (p # g) x) n = (if m = n then count_list ds x else 0) + count_list (succs g x) n"
    unfolding succs_def p list.map concat.simps count_list_append case_prod_conv count_list_replicate
    by (simp only: eq_commute[of n m])
  have "deps (p # g) n = (if m = n then ds else deps g n)" "m = n \<Longrightarrow> deps g n = []"
    using none by (auto simp: deps_def p)
  then show ?case using IH by (simp only: cnt) simp
qed

lemma release_spec_aux:
  assumes "\<And>s. count_list ss s \<le> c s" "release ss c = (c', r)"
  shows "(\<forall>s. c' s = c s - count_list ss s) \<and>
    set r = {s \<in> set ss. count_list ss s = c s} \<and> distinct r"
  using assms
proof (induction ss arbitrary: c c' r)
  case Nil
  then show ?case by simp
next
  case (Cons x ss)
  define c1 where "c1 = c(x := c x - 1)"
  have le: "count_list ss s \<le> c1 s" for s
    using Cons.prems(1)[of s] by (auto simp: c1_def split: if_splits)
  obtain c2 r2 where r2: "release ss c1 = (c2, r2)" by (cases "release ss c1")
  have c': "c' = c2" and r: "r = (if c1 x = 0 then x # r2 else r2)"
    using Cons.prems(2) r2 by (auto simp: c1_def Let_def split: if_splits)
  have pos: "c x \<ge> 1" using Cons.prems(1)[of x] by simp
  have IH: "\<forall>s. c2 s = c1 s - count_list ss s" "set r2 = {s \<in> set ss. count_list ss s = c1 s}"
    "distinct r2" using Cons.IH[OF le r2] by auto
  have v: "\<forall>s. c' s = c s - count_list (x # ss) s" using IH(1) c' by (auto simp: c1_def)
  have zero: "c1 x = 0 \<Longrightarrow> x \<notin> set ss"
    using le[of x] count_list_0_iff[of ss x] by simp
  have c0: "x \<notin> set ss \<Longrightarrow> count_list ss x = 0" by simp
  have sr: "set r = {s \<in> set (x # ss). count_list (x # ss) s = c s}"
  proof (cases "c1 x = 0")
    case True
    then have "c x = 1" using pos by (simp add: c1_def)
    then show ?thesis using True zero c0 IH(2) r by (auto simp: c1_def)
  next
    case False
    then have "x \<notin> set ss \<Longrightarrow> c x \<noteq> 1" by (auto simp: c1_def)
    then show ?thesis using False IH(2) r pos c0 by (auto simp: c1_def)
  qed
  have "distinct r" using IH(2,3) zero r by auto
  with v sr show ?case by blast
qed

lemma release_spec:
  assumes "\<And>s. count_list ss s \<le> c s" "release ss c = (c', r)"
  shows "c' s = c s - count_list ss s"
    and "set r = {s \<in> set ss. count_list ss s = c s}" and "distinct r"
  using release_spec_aux[OF assms] by auto

text \<open>
  The state between two passes: the nodes that left, the queue and the counters.  A counter
  is the number of predecessor entries that have not left; the nodes that left or wait are
  exactly those without an open predecessor.
\<close>

definition topo_inv :: "'a graph \<Rightarrow> 'a list \<Rightarrow> 'a list \<Rightarrow> ('a \<Rightarrow> nat) \<Rightarrow> bool" where
  "topo_inv g out q c \<longleftrightarrow>
     distinct (out @ q) \<and>
     (\<forall>n. c n = length (filter (\<lambda>d. d \<notin> set out) (deps g n))) \<and>
     (\<forall>n. n \<in> set (out @ q) \<longleftrightarrow> n \<in> node_set g \<and> c n = 0) \<and>
     (\<forall>n \<in> set out. \<forall>d \<in> set (deps g n). before d n out)"

lemma filter_split_count:
  "x \<notin> A \<Longrightarrow> length (filter (\<lambda>d. d \<notin> A) ds) =
     length (filter (\<lambda>d. d \<notin> insert x A) ds) + count_list ds x"
  by (induction ds) auto

lemma count_le_filter: "x \<notin> A \<Longrightarrow> count_list ds x \<le> length (filter (\<lambda>d. d \<notin> A) ds)"
  by (induction ds) auto

lemma topo_inv_init:
  "topo_inv g [] (filter (\<lambda>n. npred g n = 0) (graph_nodes g)) (npred g)"
  by (auto simp: topo_inv_def npred_deps)

lemma topo_inv_step:
  assumes wf: "wf_dict g" and inv: "topo_inv g out (x # q) c"
    and rel: "release (succs g x) c = (c', r)"
  shows "topo_inv g (out @ [x]) (q @ r) c'"
proof -
  have dist: "distinct (out @ x # q)"
    and cnt: "\<And>n. c n = length (filter (\<lambda>d. d \<notin> set out) (deps g n))"
    and mem: "\<And>n. n \<in> set (out @ x # q) \<longleftrightarrow> n \<in> node_set g \<and> c n = 0"
    and ord: "\<forall>n \<in> set out. \<forall>d \<in> set (deps g n). before d n out"
    using inv by (auto simp: topo_inv_def)
  have xo: "x \<notin> set out" using dist by simp
  have cs: "count_list (succs g x) n = count_list (deps g n) x" for n
    using count_succs[OF wf] .
  have le: "count_list (succs g x) n \<le> c n" for n
    using count_le_filter[OF xo, of "deps g n"] by (simp add: cs cnt)
  note rs = release_spec[OF le rel]
  have c': "c' n = length (filter (\<lambda>d. d \<notin> set (out @ [x])) (deps g n))" for n
  proof -
    have "c' n = c n - count_list (deps g n) x" using rs(1)[of n] by (simp add: cs)
    moreover have "c n = length (filter (\<lambda>d. d \<notin> insert x (set out)) (deps g n)) +
        count_list (deps g n) x"
      using cnt[of n] filter_split_count[OF xo, of "deps g n"] by simp
    ultimately show ?thesis by simp
  qed
  have c'_c: "c' n = c n - count_list (deps g n) x" for n using rs(1)[of n] by (simp add: cs)
  have r_iff: "n \<in> set r \<longleftrightarrow> c n \<noteq> 0 \<and> c' n = 0" for n
  proof -
    have "n \<in> set r \<longleftrightarrow> n \<in> set (succs g x) \<and> count_list (deps g n) x = c n"
      using rs(2) by (auto simp: cs)
    moreover have "n \<in> set (succs g x) \<longleftrightarrow> count_list (deps g n) x \<noteq> 0"
      using cs[of n] count_list_0_iff[of "succs g x" n] by auto
    ultimately show ?thesis using le[of n] c'_c[of n] by (auto simp: cs)
  qed
  have node: "c n \<noteq> 0 \<Longrightarrow> n \<in> node_set g" for n
    using cnt[of n] deps_nodes[of _ g n] by (cases "deps g n") auto
  have mem': "n \<in> set ((out @ [x]) @ q @ r) \<longleftrightarrow> n \<in> node_set g \<and> c' n = 0" for n
    using mem[of n] r_iff[of n] node[of n] c'_c[of n] by auto
  have "set (out @ x # q) \<inter> set r = {}" using mem r_iff by fastforce
  then have dist': "distinct ((out @ [x]) @ q @ r)" using dist rs(3) by auto
  have "c x = 0" using mem[of x] by simp
  then have dx: "\<forall>d \<in> set (deps g x). d \<in> set out"
    using cnt[of x] by (simp add: filter_empty_conv)
  have ord': "\<forall>n \<in> set (out @ [x]). \<forall>d \<in> set (deps g n). before d n (out @ [x])"
    using ord dx by (auto intro: before_appendI)
  show ?thesis using dist' c' mem' ord' unfolding topo_inv_def by blast
qed

lemma topo_invD:
  assumes "topo_inv g out q c"
  shows "distinct (out @ q)" "c n = length (filter (\<lambda>d. d \<notin> set out) (deps g n))"
    "n \<in> set (out @ q) \<longleftrightarrow> n \<in> node_set g \<and> c n = 0"
    "n \<in> set out \<Longrightarrow> d \<in> set (deps g n) \<Longrightarrow> before d n out"
  using assms unfolding topo_inv_def by blast+

text \<open>The run ends with an empty queue: the fuel, one unit per node, is enough.\<close>

lemma topo_run_inv:
  assumes "wf_dict g" "topo_inv g out q c" "length (graph_nodes g) \<le> k + length out"
  shows "\<exists>c'. topo_inv g (out @ topo_run k g q c) [] c'"
  using assms
proof (induction k g q c arbitrary: out rule: topo_run.induct)
  case (1 g q c)
  have "set (out @ q) \<subseteq> set (graph_nodes g)" "distinct (out @ q)"
    using "1.prems"(2) by (auto simp: topo_inv_def)
  then have "length (out @ q) \<le> length (graph_nodes g)"
    by (metis card_mono distinct_card distinct_graph_nodes List.finite_set)
  then have "length q = 0" using "1.prems"(3) unfolding length_append by linarith
  then have "q = []" by simp
  then show ?case using "1.prems"(2) by auto
next
  case (2 k g c)
  then show ?case by auto
next
  case (3 k g x q c)
  obtain c' r where rel: "release (succs g x) c = (c', r)" by fastforce
  have "topo_inv g (out @ [x]) (q @ r) c'" using topo_inv_step[OF "3.prems"(1,2) rel] .
  from "3.IH"[OF rel[symmetric] refl "3.prems"(1) this] "3.prems"(3) rel
  show ?case by auto
qed

lemma topo_result:
  assumes "wf_dict g"
  obtains out c where
    "out = topo_run (length (graph_nodes g)) g (filter (\<lambda>n. npred g n = 0) (graph_nodes g)) (npred g)"
    "topo_inv g out [] c"
  using topo_run_inv[OF assms topo_inv_init, of "length (graph_nodes g)"] by auto

lemma static_order_Inr:
  assumes "wf_dict g" "static_order g = Inr ns"
  shows "distinct ns" "set ns = node_set g" "\<And>n d. d \<in> set (deps g n) \<Longrightarrow> before d n ns"
proof -
  obtain c where inv: "topo_inv g ns [] c" and len: "length ns = length (graph_nodes g)"
    using topo_result[OF assms(1)] assms(2) by (auto simp: static_order_def Let_def split: if_splits)
  show d: "distinct ns" using inv by (simp add: topo_inv_def)
  have sub: "set ns \<subseteq> set (graph_nodes g)" using inv by (auto simp: topo_inv_def)
  moreover have "card (set ns) = card (set (graph_nodes g))"
    using len d distinct_card distinct_graph_nodes by metis
  ultimately have "set ns = set (graph_nodes g)" by (simp add: card_subset_eq)
  then show s: "set ns = node_set g" by simp
  show "before b n ns" if "b \<in> set (deps g n)" for n b
    using inv that deps_nodes[OF that] s by (simp add: topo_inv_def)
qed

lemma static_order_total:
  assumes "wf_dict g" "ranked g r"
  shows "\<exists>ns. static_order g = Inr ns"
proof -
  obtain out c where out: "out = topo_run (length (graph_nodes g)) g
      (filter (\<lambda>n. npred g n = 0) (graph_nodes g)) (npred g)" and inv: "topo_inv g out [] c"
    using topo_result[OF assms(1)] by blast
  have step: "r d < r n" if "d \<in> set (deps g n)" for d n
    using that deps_mem[OF that] assms(2) by (force simp: ranked_def)
  have "n \<in> node_set g \<Longrightarrow> n \<in> set out" for n
  proof (induction "r n" arbitrary: n rule: less_induct)
    case less
    have "d \<in> set out" if "d \<in> set (deps g n)" for d
      using less.hyps[OF step[OF that]] deps_nodes[OF that] by simp
    then have "c n = 0" using topo_invD(2)[OF inv, of n] by (simp add: filter_empty_conv)
    then show ?case using topo_invD(3)[OF inv, of n] less.prems by simp
  qed
  then have "set out = set (graph_nodes g)" using topo_invD(3)[OF inv] by auto
  moreover have "distinct out" using topo_invD(1)[OF inv] by simp
  ultimately have "length out = length (graph_nodes g)"
    by (metis distinct_card distinct_graph_nodes)
  then show ?thesis using out by (simp add: static_order_def Let_def)
qed

interpretation sorter: topo_order static_order
proof
  fix g :: "'a graph" and ns n ds d
  assume a: "wf_dict g" "static_order g = Inr ns"
  show "distinct ns" using static_order_Inr(1)[OF a] .
  show "set ns = node_set g" using static_order_Inr(2)[OF a] .
  assume "(n, ds) \<in> set g" "d \<in> set ds"
  then show "before d n ns" using static_order_Inr(3)[OF a] deps_in[OF a(1)] by simp
next
  fix g :: "'a graph" and r
  assume "wf_dict g" "ranked g r"
  then show "\<exists>ns. static_order g = Inr ns" by (rule static_order_total)
next
  fix g :: "'a graph" and e
  assume "static_order g = Inl e"
  then show "exc_class e = CycleError"
    by (auto simp: static_order_def Let_def split: if_splits)
qed

end
