(* ===== verification/Resource_Manager.thy ===== *)
theory Resource_Manager
  imports Resources Graphlib
begin

text \<open>
  \<open>src/core/managers/resource_manager.py\<close>: the registry of global and per-recipe resources,
  the topological order in which they are set up, and their restoration.  The manager is
  generic in the resources: \<open>set_up\<close> and \<open>teardown\<close> are parameters that may raise and that
  return the object and the world they leave.  The interface \<open>resource_ops\<close> states what a
  resource owes the manager, the lemmas in it what the manager then guarantees, and the
  resources of \<open>Resources\<close> interpret it.  An object is identified by a number (\<open>id\<close> of the
  target); each registered resource is an object of its own.
\<close>

record 'k resource =
  res_name :: string
  res_depends_on :: "string list"
  res_applied :: bool
  res_state :: 'k

type_synonym ('k, 'w) res_op = "'k \<Rightarrow> 'w \<Rightarrow> exc option \<times> 'k \<times> 'w"

definition new_resource :: "string \<Rightarrow> string list \<Rightarrow> 'k \<Rightarrow> 'k resource" where
  "new_resource n ds k = \<lparr>res_name = n, res_depends_on = ds, res_applied = False, res_state = k\<rparr>"

record 'k manager =
  global_resources :: "'k resource list"
  local_resources :: "(nat option, 'k resource list) dict"

definition new_manager :: "'k manager" where
  "new_manager = \<lparr>global_resources = [], local_resources = []\<rparr>"

section \<open>Operations\<close>

text \<open>
  The equality of the base class compares the classes, that is, the names; that of file system
  resources also compares the path of what was created (none before the setup), and accepts an
  object of a subclass: a folder for raw results is an output folder.  A comparison asks the
  right operand first when its class is a subclass of the left one's.
\<close>

definition same_class :: "'k resource \<Rightarrow> 'k resource \<Rightarrow> bool" where
  "same_class r s \<longleftrightarrow> res_name r = res_name s"

fun fs_resource_path :: "resource_kind \<Rightarrow> path option" where
  "fs_resource_path (OutputFolder k) = of_created k"
| "fs_resource_path (TemporaryFile k) = tf_created k"
| "fs_resource_path _ = None"

definition is_instance :: "string \<Rightarrow> string \<Rightarrow> bool" where
  "is_instance n c \<longleftrightarrow> n = c \<or> n = ''RawResultsFolder'' \<and> c = ''OutputFolder''"

definition fs_eq :: "resource_kind resource \<Rightarrow> resource_kind resource \<Rightarrow> bool" where
  "fs_eq s r \<longleftrightarrow> is_instance (res_name r) (res_name s) \<and> fs_resource_path (res_state s) = fs_resource_path (res_state r)"

definition resource_eq :: "resource_kind resource \<Rightarrow> resource_kind resource \<Rightarrow> bool" where
  "resource_eq s r =
     (if res_name s \<in> {''OutputFolder'', ''RawResultsFolder'', ''TemporaryFile''} then fs_eq s r else same_class s r)"

definition same_resource :: "resource_kind resource \<Rightarrow> resource_kind resource \<Rightarrow> bool" where
  "same_resource s r =
     (if res_name r \<noteq> res_name s \<and> is_instance (res_name r) (res_name s)
      then resource_eq r s else resource_eq s r)"

definition register :: "resource_kind resource \<Rightarrow> nat option \<Rightarrow> bool \<Rightarrow> resource_kind manager \<Rightarrow> resource_kind manager" where
  "register r target global_scope m =
     (if global_scope
      then if (\<exists>s \<in> set (global_resources m). same_resource s r) then m
           else m\<lparr>global_resources := global_resources m @ [r]\<rparr>
      else m\<lparr>local_resources :=
             dset target (dget (local_resources m) target [] @ [r]) (local_resources m)\<rparr>)"

text \<open>Output folders that have not been set up are equal, whatever paths they are for: the second one
  is not registered.\<close>

lemma second_folder_skipped:
  assumes "global_resources m = [\<lparr>res_name = ''OutputFolder'', res_depends_on = ds, res_applied = False,
      res_state = OutputFolder (new_output_folder p fc fd)\<rparr>]"
  shows "register \<lparr>res_name = ''OutputFolder'', res_depends_on = ds', res_applied = False,
      res_state = OutputFolder (new_output_folder q fc' fd')\<rparr> i True m = m"
  by (simp add: register_def assms same_resource_def resource_eq_def fs_eq_def is_instance_def new_output_folder_def)

definition lookup_name :: "('v \<Rightarrow> string) \<Rightarrow> 'v list \<Rightarrow> string \<Rightarrow> 'v res" where
  "lookup_name f rs n = (case map_of (dict_of (map (\<lambda>r. (f r, r)) rs)) n of
       None \<Rightarrow> Inl (Exc KeyError n) | Some r \<Rightarrow> Inr r)"

definition dep_graph :: "'k resource list \<Rightarrow> string graph" where
  "dep_graph rs = dict_of (map (\<lambda>r. (res_name r, res_depends_on r)) rs)"

definition topological_sort :: "'k resource list \<Rightarrow> 'k resource list res" where
  "topological_sort rs =
     bindr (static_order (dep_graph rs)) (\<lambda>names. map_res (lookup_name res_name rs) names)"

fun apply_resources :: "('k, 'w) res_op \<Rightarrow> 'k resource list \<Rightarrow> 'w \<Rightarrow>
    exc option \<times> 'k resource list \<times> 'w" where
  "apply_resources set_up [] w = (None, [], w)"
| "apply_resources set_up (r # rs) w =
     (if res_applied r
      then (let (e, rs', w') = apply_resources set_up rs w in (e, r # rs', w'))
      else case set_up (res_state r) w of
        (Some e, k, w') \<Rightarrow> (Some e, r\<lparr>res_state := k\<rparr> # rs, w')
      | (None, k, w') \<Rightarrow>
          (let (e, rs', w'') = apply_resources set_up rs w'
           in (e, r\<lparr>res_applied := True, res_state := k\<rparr> # rs', w'')))"

definition apply_all :: "('k, 'w) res_op \<Rightarrow> nat option \<Rightarrow> bool \<Rightarrow> 'k manager \<Rightarrow> 'w \<Rightarrow>
    exc option \<times> 'k manager \<times> 'w" where
  "apply_all set_up target global_scope m w =
     (if global_scope then
        (case topological_sort (global_resources m) of
           Inl e \<Rightarrow> (Some e, m, w)
         | Inr rs \<Rightarrow> (let (e, rs', w') = apply_resources set_up rs w
             in (e, m\<lparr>global_resources := rs'\<rparr>, w')))
      else case target of
        None \<Rightarrow> (Some (Exc ValueError ''Object must be provided for local resources''), m, w)
      | Some i \<Rightarrow>
          (case dget (local_resources m) target [] of
             [] \<Rightarrow> (None, m, w)
           | r # rs \<Rightarrow>
               (case topological_sort (r # rs) of
                  Inl e \<Rightarrow> (Some e, m, w)
                | Inr rs' \<Rightarrow> (let (e, rs'', w') = apply_resources set_up rs' w
                    in (e, m\<lparr>local_resources := dset target rs'' (local_resources m)\<rparr>, w')))))"

text \<open>Tearing down a sequence stops at the first exception; \<open>applied\<close> is not reset.\<close>

fun teardown_seq :: "('k, 'w) res_op \<Rightarrow> 'k resource list \<Rightarrow> 'w \<Rightarrow>
    exc option \<times> 'k resource list \<times> 'w" where
  "teardown_seq teardown [] w = (None, [], w)"
| "teardown_seq teardown (r # rs) w =
     (if \<not> res_applied r
      then (let (e, rs', w') = teardown_seq teardown rs w in (e, r # rs', w'))
      else case teardown (res_state r) w of
        (Some e, k, w') \<Rightarrow> (Some e, r\<lparr>res_state := k\<rparr> # rs, w')
      | (None, k, w') \<Rightarrow>
          (let (e, rs', w'') = teardown_seq teardown rs w'
           in (e, r\<lparr>res_state := k\<rparr> # rs', w'')))"

definition restore_local_from_id :: "('k, 'w) res_op \<Rightarrow> nat option \<Rightarrow> 'k manager \<Rightarrow> 'w \<Rightarrow>
    exc option \<times> 'k manager \<times> 'w" where
  "restore_local_from_id teardown i m w =
     (let (e, rs, w') = teardown_seq teardown (rev (dget (local_resources m) i [])) w
      in case e of
           Some ex \<Rightarrow> (Some ex, m\<lparr>local_resources := dset i (rev rs) (local_resources m)\<rparr>, w')
         | None \<Rightarrow> (None, m\<lparr>local_resources := ddel i (local_resources m)\<rparr>, w'))"

definition restore_local :: "('k, 'w) res_op \<Rightarrow> nat option \<Rightarrow> 'k manager \<Rightarrow> 'w \<Rightarrow>
    exc option \<times> 'k manager \<times> 'w" where
  "restore_local teardown i m w =
     (if i \<notin> set (dkeys (local_resources m)) then (None, m, w)
      else restore_local_from_id teardown i m w)"

definition restore_global :: "('k, 'w) res_op \<Rightarrow> 'k manager \<Rightarrow> 'w \<Rightarrow>
    exc option \<times> 'k manager \<times> 'w" where
  "restore_global teardown m w =
     (let (e, rs, w') = teardown_seq teardown (global_resources m) w
      in case e of Some ex \<Rightarrow> (Some ex, m\<lparr>global_resources := rs\<rparr>, w')
         | None \<Rightarrow> (None, m\<lparr>global_resources := []\<rparr>, w'))"

definition restore_all :: "('k, 'w) res_op \<Rightarrow> nat option \<Rightarrow> bool \<Rightarrow> 'k manager \<Rightarrow> 'w \<Rightarrow>
    exc option \<times> 'k manager \<times> 'w" where
  "restore_all teardown target global_scope m w =
     (if global_scope then restore_global teardown m w else restore_local teardown target m w)"

fun restore_ids :: "('k, 'w) res_op \<Rightarrow> nat option list \<Rightarrow> 'k manager \<Rightarrow> 'w \<Rightarrow>
    exc option \<times> 'k manager \<times> 'w" where
  "restore_ids teardown [] m w = (None, m, w)"
| "restore_ids teardown (i # ids) m w =
     (case restore_local_from_id teardown i m w of
        (Some e, m', w') \<Rightarrow> (Some e, m', w')
      | (None, m', w') \<Rightarrow> restore_ids teardown ids m' w')"

definition cleanup_all_resources :: "('k, 'w) res_op \<Rightarrow> 'k manager \<Rightarrow> 'w \<Rightarrow>
    exc option \<times> 'k manager \<times> 'w" where
  "cleanup_all_resources teardown m w =
     (case restore_global teardown m w of
        (Some e, m', w') \<Rightarrow> (Some e, m', w')
      | (None, m', w') \<Rightarrow> restore_ids teardown (dkeys (local_resources m')) m' w')"

text \<open>Every resource is ready when its turn comes, in the world its predecessors have made.\<close>

fun all_ready :: "('k, 'w) res_op \<Rightarrow> ('k \<Rightarrow> 'w \<Rightarrow> bool) \<Rightarrow> 'k resource list \<Rightarrow> 'w \<Rightarrow> bool" where
  "all_ready set_up ready [] w \<longleftrightarrow> True"
| "all_ready set_up ready (r # rs) w \<longleftrightarrow> \<not> res_applied r \<and> ready (res_state r) w \<and>
     (case set_up (res_state r) w of
        (None, _, w') \<Rightarrow> all_ready set_up ready rs w'
      | (Some _, _, _) \<Rightarrow> list_all (\<lambda>s. \<not> res_applied s) rs)"

section \<open>What a resource owes the manager, and what the manager gives back\<close>

locale resource_ops =
  fixes set_up teardown :: "('k, 'w) res_op"
    and ready :: "'k \<Rightarrow> 'w \<Rightarrow> bool"
  assumes undo: "ready k w \<Longrightarrow> set_up k w = (None, k', w') \<Longrightarrow> \<exists>k''. teardown k' w' = (None, k'', w)"
    and fail: "ready k w \<Longrightarrow> set_up k w = (Some e, k', w') \<Longrightarrow> w' = w"
begin

lemma teardown_seq_append:
  "teardown_seq teardown xs w = (None, xs', w') \<Longrightarrow>
   teardown_seq teardown (xs @ ys) w =
     (let (e, ys', w'') = teardown_seq teardown ys w' in (e, xs' @ ys', w''))"
proof (induction xs arbitrary: xs' w)
  case (Cons x xs)
  show ?case
  proof (cases "res_applied x")
    case True
    obtain e k w1 where t: "teardown (res_state x) w = (e, k, w1)" by (cases "teardown (res_state x) w")
    have e: "e = None" using Cons.prems True t by (cases e) auto
    obtain e2 xs2 w2 where r: "teardown_seq teardown xs w1 = (e2, xs2, w2)"
      by (cases "teardown_seq teardown xs w1")
    have r': "teardown_seq teardown xs w1 = (None, xs2, w')" "xs' = x\<lparr>res_state := k\<rparr> # xs2"
      using Cons.prems True t e r by auto
    show ?thesis using Cons.IH[OF r'(1)] True t e r'
      by (cases "teardown_seq teardown ys w'") simp
  next
    case False
    obtain e2 xs2 w2 where r: "teardown_seq teardown xs w = (e2, xs2, w2)"
      by (cases "teardown_seq teardown xs w")
    have r': "teardown_seq teardown xs w = (None, xs2, w')" "xs' = x # xs2"
      using Cons.prems False r by auto
    show ?thesis using Cons.IH[OF r'(1)] False r'
      by (cases "teardown_seq teardown ys w'") simp
  qed
qed simp

lemma teardown_seq_none: "\<forall>r \<in> set rs. \<not> res_applied r \<Longrightarrow> teardown_seq teardown rs w = (None, rs, w)"
  by (induction rs) auto

text \<open>
  Whatever happens while the resources are set up, complete success or an exception in the
  middle, tearing down in reverse order what was set up gives the first world back.
\<close>

lemma apply_then_teardown:
  "all_ready set_up ready rs w \<Longrightarrow> apply_resources set_up rs w = (e, rs', w') \<Longrightarrow>
   \<exists>rs''. teardown_seq teardown (rev rs') w' = (None, rs'', w)"
proof (induction rs arbitrary: w e rs' w')
  case Nil
  then show ?case by simp
next
  case (Cons r rs)
  have na: "\<not> res_applied r" and rd: "ready (res_state r) w" using Cons.prems(1) by auto
  obtain e1 k w1 where s: "set_up (res_state r) w = (e1, k, w1)" by (cases "set_up (res_state r) w")
  show ?case
  proof (cases e1)
    case None
    obtain e2 rs2 w2 where a: "apply_resources set_up rs w1 = (e2, rs2, w2)"
      by (cases "apply_resources set_up rs w1")
    have out: "rs' = r\<lparr>res_applied := True, res_state := k\<rparr> # rs2" "w' = w2"
      using Cons.prems(2) na s None a by auto
    have "all_ready set_up ready rs w1" using Cons.prems(1) s None by simp
    from Cons.IH[OF this a] obtain rs3 where t: "teardown_seq teardown (rev rs2) w2 = (None, rs3, w1)"
      by blast
    obtain k' where "teardown k w1 = (None, k', w)" using undo[OF rd] s None by blast
    then show ?thesis using teardown_seq_append[OF t] out by simp
  next
    case (Some x)
    have "w1 = w" using fail[OF rd] s Some by blast
    moreover have "\<forall>s \<in> set rs. \<not> res_applied s"
      using Cons.prems(1) s Some by (simp add: list_all_iff)
    ultimately show ?thesis using Cons.prems(2) na s Some by (auto simp: teardown_seq_none)
  qed
qed

lemma apply_all_restore_all:
  assumes srt: "topological_sort (dget (local_resources m) (Some i) []) = Inr rs"
    and rdy: "all_ready set_up ready rs w"
    and app: "apply_all set_up (Some i) False m w = (e, m', w')"
    and some: "dget (local_resources m) (Some i) [] \<noteq> []"
  shows "\<exists>m''. restore_all teardown (Some i) False m' w' = (None, m'', w) \<and>
    local_resources m'' = ddel (Some i) (local_resources m')"
proof -
  obtain e1 rs' w1 where a: "apply_resources set_up rs w = (e1, rs', w1)"
    by (cases "apply_resources set_up rs w")
  obtain r0 rs0 where l: "dget (local_resources m) (Some i) [] = r0 # rs0"
    using some by (meson neq_Nil_conv)
  have m': "m' = m\<lparr>local_resources := dset (Some i) rs' (local_resources m)\<rparr>" and w': "w' = w1"
    using app srt a l by (auto simp: apply_all_def)
  obtain rs'' where t: "teardown_seq teardown (rev rs') w1 = (None, rs'', w)"
    using apply_then_teardown[OF rdy a] by blast
  show ?thesis
    using t by (auto simp: restore_all_def restore_local_def restore_local_from_id_def m' w' dget_def)
qed

end

interpretation kinds: resource_ops kind_setup kind_teardown kind_ready
proof
  fix k :: resource_kind and w w' :: world and k' e
  assume r: "kind_ready k w"
  show "kind_setup k w = (None, k', w') \<Longrightarrow> \<exists>k''. kind_teardown k' w' = (None, k'', w)"
    using kind_undo[OF r] .
  show "kind_setup k w = (Some e, k', w') \<Longrightarrow> w' = w" using kind_fail[OF r] .
qed

section \<open>The order of the resources\<close>

definition closed_deps :: "'k resource list \<Rightarrow> bool" where
  "closed_deps rs \<longleftrightarrow> (\<forall>r \<in> set rs. \<forall>d \<in> set (res_depends_on r). d \<in> res_name ` set rs)"

lemma lookup_name_InrD: "lookup_name f rs n = Inr r \<Longrightarrow> r \<in> set rs \<and> f r = n"
proof -
  have "map_of (dict_of (map (\<lambda>r. (f r, r)) rs)) n = Some r \<Longrightarrow> r \<in> set rs \<and> f r = n"
  proof (induction rs rule: rev_induct)
    case (snoc x rs)
    then show ?case by (auto simp: dupdate_def split: if_splits)
  qed simp
  then show "lookup_name f rs n = Inr r \<Longrightarrow> r \<in> set rs \<and> f r = n"
    by (auto simp: lookup_name_def split: option.splits)
qed

lemma map_of_named:
  "distinct (map f rs) \<Longrightarrow> r \<in> set rs \<Longrightarrow> map_of (map (\<lambda>r. (f r, r)) rs) (f r) = Some r"
  by (induction rs) (auto, metis imageI)

lemma lookup_name_Inr: "distinct (map f rs) \<Longrightarrow> r \<in> set rs \<Longrightarrow> lookup_name f rs (f r) = Inr r"
  by (simp add: lookup_name_def dict_of_wf comp_def map_of_named)

lemma lookup_name_known:
  assumes "n \<in> f ` set rs"
  shows "\<exists>r. lookup_name f rs n = Inr r"
proof -
  have "n \<in> fst ` set (dict_of (map (\<lambda>r. (f r, r)) rs))"
    using assms by (simp add: image_image)
  from map_of_in_keys[OF this] obtain r
    where "map_of (dict_of (map (\<lambda>r. (f r, r)) rs)) n = Some r" ..
  then show ?thesis by (simp add: lookup_name_def)
qed

lemma wf_dep_graph [simp]: "wf_dict (dep_graph rs)"
  by (simp add: dep_graph_def)

lemma dep_graph_distinct:
  "distinct (map res_name rs) \<Longrightarrow> dep_graph rs = map (\<lambda>r. (res_name r, res_depends_on r)) rs"
  by (simp add: dep_graph_def dict_of_wf comp_def)

lemma dep_graph_keys: "set (dkeys (dep_graph rs)) = res_name ` set rs"
  by (simp add: dep_graph_def image_image)

lemma closed_dep_graph:
  "distinct (map res_name rs) \<Longrightarrow> closed_graph (dep_graph rs) \<longleftrightarrow> closed_deps rs"
  by (auto simp: closed_graph_def closed_deps_def dep_graph_distinct)

lemma topological_sort_Inr:
  assumes "topological_sort rs = Inr rs'"
  shows "\<exists>ns. static_order (dep_graph rs) = Inr ns \<and> map res_name rs' = ns \<and> set rs' \<subseteq> set rs"
proof -
  obtain ns where ns: "static_order (dep_graph rs) = Inr ns"
    and m: "map_res (lookup_name res_name rs) ns = Inr rs'"
    using assms by (auto simp: topological_sort_def bindr_Inr_iff)
  have len: "length rs' = length ns" and nth: "\<forall>i < length ns. lookup_name res_name rs (ns ! i) = Inr (rs' ! i)"
    using map_res_InrD[OF m] by auto
  have "map res_name rs' = ns"
    using len nth lookup_name_InrD by (intro nth_equalityI) fastforce+
  moreover have "set rs' \<subseteq> set rs"
    using len nth lookup_name_InrD by (fastforce simp: in_set_conv_nth)
  ultimately show ?thesis using ns by blast
qed

text \<open>
  C2.  For resources with distinct class names whose dependencies are all registered, the
  sort either returns a permutation of them in which every resource comes after the ones it
  depends on, or raises \<open>CycleError\<close>, and it raises exactly when the dependencies have a cycle.
\<close>

theorem topological_sort_correct:
  assumes "distinct (map res_name rs)" and "closed_deps rs"
  shows "case topological_sort rs of
      Inr rs' \<Rightarrow> distinct rs' \<and> set rs' = set rs \<and>
        (\<forall>r \<in> set rs. \<forall>s \<in> set rs. res_name s \<in> set (res_depends_on r) \<longrightarrow> before s r rs')
    | Inl e \<Rightarrow> exc_class e = CycleError \<and> \<not> (\<exists>rank. ranked (dep_graph rs) rank)"
proof (cases "static_order (dep_graph rs)")
  case (Inl e)
  then show ?thesis
    using sorter.order_error[OF Inl] sorter.order_iff_ranked[OF wf_dep_graph, of rs]
    by (simp add: topological_sort_def)
next
  case (Inr ns)
  have cg: "closed_graph (dep_graph rs)" using closed_dep_graph assms by blast
  have setns: "set ns = res_name ` set rs"
    using sorter.order_closed(1)[OF wf_dep_graph cg Inr] dep_graph_keys[of rs] by simp
  have inj: "inj_on res_name (set rs)" using assms(1) by (simp add: distinct_map)
  define obj where "obj n = (THE r. r \<in> set rs \<and> res_name r = n)" for n
  have obj: "obj (res_name r) = r" if "r \<in> set rs" for r
    unfolding obj_def using that inj by (auto dest: inj_onD)
  have "map_res (lookup_name res_name rs) ns = Inr (map obj ns)"
    using setns obj lookup_name_Inr[OF assms(1)] by (intro map_res_Inr) auto
  then have ts: "topological_sort rs = Inr (map obj ns)" by (simp add: topological_sort_def Inr)
  have dn: "distinct ns" using sorter.order_distinct[OF wf_dep_graph Inr] .
  have inj': "inj_on obj (set ns)" using obj setns by (auto intro!: inj_onI)
  have bef: "before s r (map obj ns)"
    if "r \<in> set rs" "s \<in> set rs" "res_name s \<in> set (res_depends_on r)" for r s
  proof -
    have "(res_name r, res_depends_on r) \<in> set (dep_graph rs)"
      using that(1) by (auto simp: dep_graph_distinct[OF assms(1)])
    from sorter.order_deps[OF wf_dep_graph Inr this that(3)]
    have b: "before (res_name s) (res_name r) ns" .
    have "insert (res_name s) (set ns) = set ns" using before_in[OF b] by blast
    then show ?thesis using before_map_inj[OF _ b, of obj] inj' obj that by simp
  qed
  have "set (map obj ns) = set rs" using setns obj by (auto simp: image_image)
  then show ?thesis using ts dn inj' bef by (simp add: distinct_map)
qed

text \<open>
  Without the hypothesis on the names: the sort never returns two resources of one
  class, so of several registered instances of a class only one is set up, and it raises
  whenever a dependency is not registered.
\<close>

theorem topological_sort_keeps_one_per_class:
  "case topological_sort rs of
      Inr rs' \<Rightarrow> distinct (map res_name rs') \<and> set rs' \<subseteq> set rs \<and> res_name ` set rs' = res_name ` set rs \<and>
        (\<forall>(n, ds) \<in> set (dep_graph rs). set ds \<subseteq> res_name ` set rs)
    | Inl e \<Rightarrow> exc_class e \<in> {CycleError, KeyError}"
proof (cases "topological_sort rs")
  case (Inl e)
  have "map_res (lookup_name res_name rs) ns = Inl e \<Longrightarrow> exc_class e = KeyError" for ns
    by (induction ns) (auto simp: bindr_Inl_iff lookup_name_def split: option.splits)
  then show ?thesis
    using Inl sorter.order_error[of "dep_graph rs"]
    by (auto simp: topological_sort_def bindr_Inl_iff)
next
  case (Inr rs')
  then obtain ns where ns: "static_order (dep_graph rs) = Inr ns" "map res_name rs' = ns" "set rs' \<subseteq> set rs"
    using topological_sort_Inr by blast
  have nodes: "set ns = node_set (dep_graph rs)" using sorter.order_nodes[OF wf_dep_graph ns(1)] .
  have sub: "res_name ` set rs' \<subseteq> res_name ` set rs" using ns(3) by blast
  have "set (dkeys (dep_graph rs)) \<subseteq> node_set (dep_graph rs)" by (force simp: node_set_def)
  then have "res_name ` set rs \<subseteq> set ns" using nodes dep_graph_keys[of rs] by simp
  then have eq: "res_name ` set rs' = res_name ` set rs" using sub ns(2) by auto
  have "set ds \<subseteq> res_name ` set rs" if "(n, ds) \<in> set (dep_graph rs)" for n ds
  proof -
    have "set ds \<subseteq> set ns" using that nodes by (force simp: node_set_def)
    then show ?thesis using ns(2) eq by auto
  qed
  then show ?thesis
    using Inr ns eq sorter.order_distinct[OF wf_dep_graph ns(1)] by auto
qed

section \<open>Setting up, failing, restoring\<close>

text \<open>Where setting up a list stopped: at position \<open>i\<close>, with exception \<open>x\<close> and world \<open>w'\<close>.\<close>

definition stopped_at :: "('k, 'w) res_op \<Rightarrow> 'k resource list \<Rightarrow> 'k resource list \<Rightarrow> exc \<Rightarrow> 'w \<Rightarrow> nat \<Rightarrow> bool" where
  "stopped_at set_up rs rs' x w' i \<longleftrightarrow> i < length rs \<and> list_all res_applied (take i rs') \<and>
     \<not> res_applied (rs' ! i) \<and> drop (Suc i) rs' = drop (Suc i) rs \<and>
     (\<exists>v. set_up (res_state (rs ! i)) v = (Some x, res_state (rs' ! i), w'))"

lemma stopped_at_Cons:
  "res_applied r' \<Longrightarrow> stopped_at set_up rs rs' x w' i \<Longrightarrow> stopped_at set_up (r # rs) (r' # rs') x w' (Suc i)"
  by (simp add: stopped_at_def)

text \<open>
  Setting up stops at the first exception: the resources before it are applied, the
  failing one and those after it are left as they were but for the failing one's own state;
  without an exception every resource ends up applied.
\<close>

theorem apply_resources_prefix:
  "case apply_resources set_up rs w of (e, rs', w') \<Rightarrow>
     length rs' = length rs \<and> map res_name rs' = map res_name rs \<and>
     (case e of
        None \<Rightarrow> list_all res_applied rs'
      | Some x \<Rightarrow> \<exists>i. stopped_at set_up rs rs' x w' i)"
proof (induction rs arbitrary: w)
  case Nil
  then show ?case by simp
next
  case (Cons r rs)
  show ?case
  proof (cases "res_applied r")
    case True
    obtain e rs' w' where a: "apply_resources set_up rs w = (e, rs', w')"
      by (cases "apply_resources set_up rs w")
    show ?thesis using Cons[of w] True a
      by (cases e) (auto intro: stopped_at_Cons)
  next
    case False
    obtain e1 k w1 where s: "set_up (res_state r) w = (e1, k, w1)" by (cases "set_up (res_state r) w")
    show ?thesis
    proof (cases e1)
      case (Some x)
      then show ?thesis using False s by (auto simp: stopped_at_def intro!: exI[of _ 0])
    next
      case None
      obtain e rs' w' where a: "apply_resources set_up rs w1 = (e, rs', w')"
        by (cases "apply_resources set_up rs w1")
      show ?thesis
        using Cons[of w1] False s None a
          stopped_at_Cons[of "r\<lparr>res_applied := True, res_state := k\<rparr>" set_up rs rs' _ w' _ r]
        by (cases e) auto
    qed
  qed
qed

section \<open>What is there before is there afterwards\<close>

fun created_path :: "resource_kind \<Rightarrow> path option" where
  "created_path (OutputFolder k) = of_created k"
| "created_path (TemporaryFile k) = tf_created k"
| "created_path k = None"

text \<open>Where a resource may leave something: on the way to its folder, or in the directory of its file.\<close>

fun may_leave :: "resource_kind \<Rightarrow> path \<Rightarrow> bool" where
  "may_leave (OutputFolder k) q \<longleftrightarrow> (case of_path k of None \<Rightarrow> False | Some p \<Rightarrow> prefix q p)"
| "may_leave (TemporaryFile k) q \<longleftrightarrow> butlast q = tf_parent k"
| "may_leave k q \<longleftrightarrow> False"

text \<open>\<open>d'\<close> holds all that \<open>d\<close> does, and otherwise only paths in \<open>P\<close>.\<close>

definition grown :: "nat fs \<Rightarrow> (path \<Rightarrow> bool) \<Rightarrow> nat fs \<Rightarrow> bool" where
  "grown d P d' \<longleftrightarrow> (\<forall>q n. map_of d q = Some n \<longrightarrow> map_of d' q = Some n) \<and> (\<forall>q n. map_of d' q = Some n \<longrightarrow> map_of d q \<noteq> None \<or> P q)"

definition fresh_names :: "world \<Rightarrow> bool" where
  "fresh_names w \<longleftrightarrow> (\<forall>d p. map_of d (p @ [w_tmpname w d p]) = None)"

lemma grown_refl [simp]: "grown d P d"
  by (simp add: grown_def)

lemma grown_trans: "grown d P d1 \<Longrightarrow> grown d1 Q d2 \<Longrightarrow> grown d (\<lambda>q. P q \<or> Q q) d2"
  unfolding grown_def by (metis not_None_eq)

lemma grown_again: "grown d P d1 \<Longrightarrow> grown d1 P d2 \<Longrightarrow> grown d P d2"
  unfolding grown_def by (metis not_None_eq)

lemma grown_mono: "grown d P d' \<Longrightarrow> (\<And>q. P q \<Longrightarrow> Q q) \<Longrightarrow> grown d Q d'"
  unfolding grown_def by blast

lemma grown_new: "map_of d p = None \<Longrightarrow> P p \<Longrightarrow> grown d P (dset p n d)"
  by (auto simp: grown_def)

lemma mkdirs_grown: "mkdirs deny pre cs d = (e, d') \<Longrightarrow> grown d (\<lambda>q. prefix q (pre @ cs)) d'"
proof (induction deny pre cs d rule: mkdirs.induct)
  case (2 deny pre c cs d)
  have p: "prefix (pre @ [c]) (pre @ c # cs)" by simp
  show ?case
  proof (cases "map_of d (pre @ [c])")
    case None
    have "grown d (\<lambda>q. prefix q (pre @ c # cs)) (dset (pre @ [c]) Dir d)" by (rule grown_new[OF None]) (rule p)
    then show ?thesis using 2 None grown_again by (fastforce simp: Let_def split: if_splits)
  next
    case (Some n)
    then show ?thesis using 2 by (cases n) (auto simp: Let_def)
  qed
qed simp

definition step_kept :: "(path \<Rightarrow> bool) \<Rightarrow> world \<Rightarrow> path option \<Rightarrow> world \<Rightarrow> bool" where
  "step_kept P w made w' \<longleftrightarrow> (\<exists>d. w' = w\<lparr>w_fs := d\<rparr> \<and> grown (w_fs w) P d) \<and>
     (case made of None \<Rightarrow> True | Some p \<Rightarrow> p \<noteq> [] \<and> map_of (w_fs w) p = None)"

lemma step_kept_idle: "made = None \<Longrightarrow> step_kept P w made w"
  by (auto simp: step_kept_def intro: exI[of _ "w_fs w"])

lemma step_kept_grown:
  "grown (w_fs w) P d \<Longrightarrow> (case made of None \<Rightarrow> True | Some p \<Rightarrow> p \<noteq> [] \<and> map_of (w_fs w) p = None) \<Longrightarrow>
    step_kept P w made (w\<lparr>w_fs := d\<rparr>)"
  by (auto simp: step_kept_def)

lemma folder_setup_kept:
  assumes "folder_setup k w = (e, k', w')" "of_created k = None"
  shows "step_kept (may_leave (OutputFolder k)) w (of_created k') w'"
proof (cases "of_path k")
  case None
  then show ?thesis using assms
    by (auto simp: folder_setup_def folder_creatable_def folder_create_def split: if_splits intro!: step_kept_idle)
next
  case (Some p)
  obtain x d where m: "makedirs (w_deny w) p (w_fs w) = (x, d)" by fastforce
  have g: "grown (w_fs w) (may_leave (OutputFolder k)) d"
    using mkdirs_grown[OF m[unfolded makedirs_def]] Some by (simp add: grown_def)
  have n: "\<not> path_exists (w_fs w) p \<Longrightarrow> p \<noteq> [] \<and> map_of (w_fs w) p = None"
    by (auto simp: path_exists_def map_of_eq_None_iff)
  have "w' = w \<and> of_created k' = None \<or> w' = w\<lparr>w_fs := d\<rparr> \<and> of_created k' = None \<or>
      w' = w\<lparr>w_fs := d\<rparr> \<and> of_created k' = Some p \<and> \<not> path_exists (w_fs w) p"
    using assms Some m
    by (auto simp: folder_setup_def folder_creatable_def folder_create_def split: if_splits bool.splits option.splits prod.splits)
  then show ?thesis using n step_kept_grown[OF g] by (elim disjE) (auto intro: step_kept_idle simp del: may_leave.simps)
qed

lemma temp_setup_kept:
  assumes "temp_setup k w = (e, k', w')" "tf_created k = None" "fresh_names w"
  shows "step_kept (may_leave (TemporaryFile k)) w (tf_created k') w'"
proof -
  let ?p = "tf_parent k @ [w_tmpname w (w_fs w) (tf_parent k)]"
  have n: "map_of (w_fs w) ?p = None" using assms(3) by (simp add: fresh_names_def)
  have g: "grown (w_fs w) (may_leave (TemporaryFile k)) (write_file ?p s (w_fs w))" for s
    unfolding write_file_def by (rule grown_new[OF n]) simp
  have "w' = w \<and> tf_created k' = None \<or> (\<exists>s. w' = w\<lparr>w_fs := write_file ?p s (w_fs w)\<rparr> \<and> tf_created k' \<in> {None, Some ?p})"
    using assms(1,2) by (auto simp: temp_setup_def temp_create_def Let_def split: if_splits)
  then show ?thesis using n step_kept_grown[OF g] by (elim disjE) (auto intro: step_kept_idle simp del: may_leave.simps)
qed

lemma kind_setup_kept:
  assumes "kind_setup k w = (e, k', w')" "created_path k = None" "fresh_names w"
  shows "step_kept (may_leave k) w (created_path k') w'"
proof (cases k)
  case (OutputFolder f)
  then show ?thesis using assms folder_setup_kept[of f w]
    by (cases "folder_setup f w") (auto simp: lift_kind_def simp del: may_leave.simps)
next
  case (TemporaryFile f)
  then show ?thesis using assms temp_setup_kept[of f w]
    by (cases "temp_setup f w") (auto simp: lift_kind_def simp del: may_leave.simps)
qed (use assms in \<open>auto simp: lift_kind_def numactl_setup_def tool_setup_def Let_def split: if_splits sum.splits intro!: step_kept_idle\<close>)

definition made_after :: "nat fs \<Rightarrow> resource_kind resource list \<Rightarrow> bool" where
  "made_after d rs \<longleftrightarrow> (\<forall>r \<in> set rs. res_applied r \<longrightarrow>
     (case created_path (res_state r) of None \<Rightarrow> True | Some p \<Rightarrow> p \<noteq> [] \<and> map_of d p = None))"

lemma apply_resources_kept:
  assumes "\<forall>r \<in> set rs. \<not> res_applied r \<and> created_path (res_state r) = None" "fresh_names w"
    "apply_resources kind_setup rs w = (e, rs', w')"
  shows "(\<exists>d. w' = w\<lparr>w_fs := d\<rparr> \<and> grown (w_fs w) (\<lambda>q. \<exists>r \<in> set rs. may_leave (res_state r) q) d) \<and> made_after (w_fs w) rs'"
  using assms
proof (induction rs arbitrary: w e rs' w')
  case Nil
  then show ?case by (auto simp: made_after_def intro: exI[of _ "w_fs w"])
next
  case (Cons r rs)
  obtain x k w1 where s: "kind_setup (res_state r) w = (x, k, w1)" using prod_cases3 by blast
  have "step_kept (may_leave (res_state r)) w (created_path k) w1"
    using kind_setup_kept[OF s] Cons.prems(1,2) by simp
  then obtain d1 where d1: "w1 = w\<lparr>w_fs := d1\<rparr>" "grown (w_fs w) (may_leave (res_state r)) d1"
    and k: "case created_path k of None \<Rightarrow> True | Some p \<Rightarrow> p \<noteq> [] \<and> map_of (w_fs w) p = None"
    unfolding step_kept_def by blast
  show ?case
  proof (cases x)
    case (Some e1)
    then have "w' = w1" "rs' = r\<lparr>res_state := k\<rparr> # rs" using Cons.prems(1,3) s by auto
    then show ?thesis using Cons.prems(1) d1 grown_mono[OF d1(2)] by (auto simp: made_after_def)
  next
    case None
    obtain e2 rs2 w2 where a: "apply_resources kind_setup rs w1 = (e2, rs2, w2)" using prod_cases3 by blast
    have out: "w' = w2" "rs' = r\<lparr>res_applied := True, res_state := k\<rparr> # rs2" using Cons.prems(1,3) s None a by auto
    have "fresh_names w1" using Cons.prems(2) d1(1) by (simp add: fresh_names_def)
    from Cons.IH[OF _ this a] Cons.prems(1) obtain d2 where
      d2: "w2 = w1\<lparr>w_fs := d2\<rparr>" "grown d1 (\<lambda>q. \<exists>r \<in> set rs. may_leave (res_state r) q) d2" "made_after d1 rs2"
      using d1(1) by auto
    have "made_after (w_fs w) rs2"
      using d2(3) d1(2) unfolding made_after_def grown_def by (fastforce split: option.splits)
    moreover have "grown (w_fs w) (\<lambda>q. \<exists>r \<in> set (r # rs). may_leave (res_state r) q) d2"
      by (rule grown_mono[OF grown_trans[OF d1(2) d2(2)]]) auto
    ultimately show ?thesis using out d1(1) d2(1) k by (auto simp: made_after_def)
  qed
qed

lemma kind_teardown_kept:
  assumes "wf_fs d0" "grown d0 P (w_fs w)"
    "case created_path k of None \<Rightarrow> True | Some p \<Rightarrow> p \<noteq> [] \<and> map_of d0 p = None"
  shows "\<exists>k' d. kind_teardown k w = (None, k', w\<lparr>w_fs := d\<rparr>) \<and> grown d0 P d"
proof -
  have same: "\<exists>k' d. (None :: exc option, k, w) = (None, k', w\<lparr>w_fs := d\<rparr>) \<and> grown d0 P d"
    using assms(2) by (intro exI[of _ k] exI[of _ "w_fs w"]) simp
  have below: "map_of d0 q = None" if "prefix p q" "p \<noteq> []" "map_of d0 p = None" for p q
  proof -
    have "\<not> path_exists d0 p" using that(2,3) by (auto simp: path_exists_def map_of_eq_None_iff)
    from no_entry_below[OF assms(1) this that(1)] show ?thesis by (simp add: map_of_eq_None_iff)
  qed
  have rm: "map_of (rmtree p d) q = (if prefix p q then None else map_of d q)" for p q and d :: "nat fs"
    unfolding rmtree_def by (induction d) auto
  show ?thesis
  proof (cases k)
    case (OutputFolder f)
    have "grown d0 P (rmtree p (w_fs w))" if "of_created f = Some p" for p
      using assms(2,3) that below[of p] OutputFolder unfolding grown_def rm by auto
    then show ?thesis using OutputFolder same
      by (auto simp: lift_kind_def folder_teardown_def split: option.splits)
  next
    case (TemporaryFile f)
    have "grown d0 P (remove_file p (w_fs w))" if "tf_created f = Some p" for p
      using assms(2,3) that TemporaryFile unfolding grown_def remove_file_def by auto
    then show ?thesis using TemporaryFile same
      by (auto simp: lift_kind_def temp_teardown_def split: option.splits)
  qed (use same in auto)
qed

lemma teardown_seq_kept:
  "wf_fs d0 \<Longrightarrow> grown d0 P (w_fs w) \<Longrightarrow> made_after d0 rs \<Longrightarrow>
    \<exists>rs' d. teardown_seq kind_teardown rs w = (None, rs', w\<lparr>w_fs := d\<rparr>) \<and> grown d0 P d"
proof (induction rs arbitrary: w)
  case Nil
  then show ?case by (intro exI[of _ "[]"] exI[of _ "w_fs w"]) simp
next
  case (Cons r rs)
  have m: "made_after d0 rs" using Cons.prems(3) by (simp add: made_after_def)
  show ?case
  proof (cases "res_applied r")
    case True
    then have "case created_path (res_state r) of None \<Rightarrow> True | Some p \<Rightarrow> p \<noteq> [] \<and> map_of d0 p = None"
      using Cons.prems(3) by (simp add: made_after_def)
    from kind_teardown_kept[OF Cons.prems(1,2) this] obtain k d where
      d: "kind_teardown (res_state r) w = (None, k, w\<lparr>w_fs := d\<rparr>)" "grown d0 P d" by blast
    from Cons.IH[OF Cons.prems(1) _ m, of "w\<lparr>w_fs := d\<rparr>"] d True show ?thesis by auto
  next
    case False
    from Cons.IH[OF Cons.prems(1,2) m] obtain rs' d where
      "teardown_seq kind_teardown rs w = (None, rs', w\<lparr>w_fs := d\<rparr>)" "grown d0 P d" by blast
    then show ?thesis using False by auto
  qed
qed

text \<open>
  C1.  Applying the resources of a recipe, whether every setup succeeds or one raises in the
  middle, and then restoring them ends without an exception and the manager forgets the
  recipe.  Whatever happens, all files and directories that were there are unchanged, and
  what is left over are at most directories on the way to an output folder and files in the
  directory of a temporary file: a full disk leaves a half-written one.  Nothing at all is
  left, the world is the one from before, when the resources are ready: a folder's parent
  exists, a temporary file fits on the disk and is deleted by its teardown, and no two
  are in each other's way.
\<close>

theorem apply_restore_leaves_no_trace:
  assumes "topological_sort (dget (local_resources m) (Some i) []) = Inr rs"
    and "dget (local_resources m) (Some i) [] \<noteq> []"
    and "wf_fs (w_fs w)" "fresh_names w"
    and "\<forall>r \<in> set rs. \<not> res_applied r \<and> created_path (res_state r) = None"
    and "apply_all kind_setup (Some i) False m w = (e, m', w')"
  shows "\<exists>m'' d. restore_all kind_teardown (Some i) False m' w' = (None, m'', w\<lparr>w_fs := d\<rparr>) \<and>
    Some i \<notin> set (dkeys (local_resources m'')) \<and>
    grown (w_fs w) (\<lambda>q. \<exists>r \<in> set rs. may_leave (res_state r) q) d \<and>
    (all_ready kind_setup kind_ready rs w \<longrightarrow> d = w_fs w)"
proof -
  let ?P = "\<lambda>q. \<exists>r \<in> set rs. may_leave (res_state r) q"
  obtain e1 rs' w1 where a: "apply_resources kind_setup rs w = (e1, rs', w1)" using prod_cases3 by blast
  obtain r0 rs0 where l: "dget (local_resources m) (Some i) [] = r0 # rs0"
    using assms(2) by (meson neq_Nil_conv)
  have m': "m' = m\<lparr>local_resources := dset (Some i) rs' (local_resources m)\<rparr>" and w': "w' = w1"
    using assms(1,6) a l by (auto simp: apply_all_def)
  obtain d1 where d1: "w1 = w\<lparr>w_fs := d1\<rparr>" "grown (w_fs w) ?P d1" "made_after (w_fs w) rs'"
    using apply_resources_kept[OF assms(5,4) a] by blast
  then have "made_after (w_fs w) (rev rs')" by (simp add: made_after_def)
  from teardown_seq_kept[OF assms(3) _ this, of ?P w1] d1 obtain rs'' d where
    t: "teardown_seq kind_teardown (rev rs') w1 = (None, rs'', w\<lparr>w_fs := d\<rparr>)" "grown (w_fs w) ?P d" by auto
  have "d = w_fs w" if "all_ready kind_setup kind_ready rs w"
  proof -
    from kinds.apply_then_teardown[OF that a] t(1) have "w\<lparr>w_fs := d\<rparr> = w" by auto
    then show ?thesis by (cases w) simp
  qed
  then show ?thesis
    using t by (auto simp: restore_all_def restore_local_def restore_local_from_id_def m' w' dget_def)
qed

text \<open>A folder, and a temporary file inside it that depends on it, registered in the wrong order.\<close>

definition longer_name :: "nat fs \<Rightarrow> path \<Rightarrow> string" where
  "longer_name d p = replicate (Suc (sum_list (map (\<lambda>q. length (last q)) (dkeys d)))) CHR ''t''"

definition demo_world :: world where
  "demo_world = \<lparr>w_fs = [], w_deny = (\<lambda>_. False), w_space = 4096, w_tmpname = longer_name,
     w_tool = (\<lambda>_. Inr (0, ''numactl 2.0''))\<rparr>"

definition demo_folder :: "resource_kind resource" where
  "demo_folder = new_resource ''OutputFolder'' [] (OutputFolder (new_output_folder [''out''] False False))"

definition demo_file :: "nat \<Rightarrow> resource_kind resource" where
  "demo_file n = new_resource ''TemporaryFile'' [''OutputFolder'']
     (TemporaryFile (new_temporary_file [''out''] n True))"

definition demo_manager :: "nat \<Rightarrow> resource_kind manager" where
  "demo_manager n = register demo_folder (Some 7) False (register (demo_file n) (Some 7) False new_manager)"

definition demo_applied :: "nat \<Rightarrow> exc option \<times> resource_kind manager \<times> world" where
  "demo_applied n = apply_all kind_setup (Some 7) False (demo_manager n) demo_world"

lemma demo_sorted:
  "topological_sort (dget (local_resources (demo_manager n)) (Some 7) []) = Inr [demo_folder, demo_file n]"
proof -
  have "dget (local_resources (demo_manager n)) (Some 7) [] = [demo_file n, demo_folder]"
    by (simp add: demo_manager_def register_def new_manager_def dget_def)
  moreover have "dep_graph [demo_file n, demo_folder] = [(''TemporaryFile'', [''OutputFolder'']), (''OutputFolder'', [])]"
    by (simp add: dep_graph_def demo_file_def demo_folder_def new_resource_def dupdate_def)
  moreover have "static_order [(''TemporaryFile'', [''OutputFolder'']), (''OutputFolder'', [])] = Inr [''OutputFolder'', ''TemporaryFile'']"
    by code_simp
  ultimately show ?thesis
    by (simp add: topological_sort_def bindr_def lookup_name_def demo_file_def demo_folder_def new_resource_def dupdate_def)
qed

lemma demo_names: "fresh_names demo_world"
proof -
  have "map_of d (p @ [longer_name d p]) = None" for d p
  proof (rule ccontr)
    assume "map_of d (p @ [longer_name d p]) \<noteq> None"
    then have "p @ [longer_name d p] \<in> set (dkeys d)" by (auto dest: map_of_key)
    then have "length (longer_name d p) \<in> set (map (\<lambda>q. length (last q)) (dkeys d))" by force
    from member_le_sum_list[OF this] show False by (simp add: longer_name_def)
  qed
  then show ?thesis by (simp add: fresh_names_def demo_world_def)
qed

text \<open>With 64 bytes everything goes well; a file of 8192 bytes does not fit on the disk of 4096.\<close>

theorem apply_restore_leaves_no_trace_witness:
  "(\<exists>m''. restore_all kind_teardown (Some 7) False (fst (snd (demo_applied 64))) (snd (snd (demo_applied 64)))
      = (None, m'', demo_world) \<and> Some 7 \<notin> set (dkeys (local_resources m''))) \<and>
   (\<exists>m'' d. restore_all kind_teardown (Some 7) False (fst (snd (demo_applied 8192))) (snd (snd (demo_applied 8192)))
      = (None, m'', demo_world\<lparr>w_fs := d\<rparr>) \<and> Some 7 \<notin> set (dkeys (local_resources m'')) \<and> fst (demo_applied 8192) \<noteq> None)"
proof -
  have r: "all_ready kind_setup kind_ready [demo_folder, demo_file 64] demo_world"
    by (simp add: demo_folder_def demo_file_def demo_world_def new_resource_def new_output_folder_def longer_name_def
        new_temporary_file_def lift_kind_def folder_setup_def folder_creatable_def folder_create_def
        makedirs_def path_exists_def is_dir_def wf_fs_def temp_setup_def temp_create_def Let_def)
  have ne: "dget (local_resources (demo_manager n)) (Some 7) [] \<noteq> []" for n
    by (simp add: demo_manager_def register_def new_manager_def dget_def)
  have w: "wf_fs (w_fs demo_world)" by (simp add: demo_world_def)
  have f: "\<forall>r \<in> set [demo_folder, demo_file n]. \<not> res_applied r \<and> created_path (res_state r) = None" for n
    by (simp add: demo_folder_def demo_file_def new_resource_def new_output_folder_def new_temporary_file_def)
  have a: "apply_all kind_setup (Some 7) False (demo_manager n) demo_world =
      (fst (demo_applied n), fst (snd (demo_applied n)), snd (snd (demo_applied n)))" for n
    by (simp add: demo_applied_def)
  have "fst (apply_resources kind_setup [demo_folder, demo_file 8192] demo_world) \<noteq> None"
    by (simp add: demo_folder_def demo_file_def demo_world_def new_resource_def new_output_folder_def longer_name_def
        new_temporary_file_def lift_kind_def folder_setup_def folder_creatable_def folder_create_def
        makedirs_def path_exists_def is_dir_def temp_setup_def temp_create_def Let_def)
  then have x: "fst (demo_applied 8192) \<noteq> None"
    using demo_sorted[of 8192] ne[of 8192]
    by (auto simp: demo_applied_def apply_all_def split: list.splits prod.splits)
  note t = apply_restore_leaves_no_trace[OF demo_sorted ne w demo_names f a]
  have same: "demo_world\<lparr>w_fs := w_fs demo_world\<rparr> = demo_world" by simp
  obtain m1 d1 where d1: "restore_all kind_teardown (Some 7) False (fst (snd (demo_applied 64))) (snd (snd (demo_applied 64)))
      = (None, m1, demo_world\<lparr>w_fs := d1\<rparr>)" "Some 7 \<notin> set (dkeys (local_resources m1))"
    "all_ready kind_setup kind_ready [demo_folder, demo_file 64] demo_world \<longrightarrow> d1 = w_fs demo_world"
    using t[of 64] by blast
  have "d1 = w_fs demo_world" using d1(3) r by (rule mp)
  then have "\<exists>m''. restore_all kind_teardown (Some 7) False (fst (snd (demo_applied 64))) (snd (snd (demo_applied 64)))
      = (None, m'', demo_world) \<and> Some 7 \<notin> set (dkeys (local_resources m''))"
    using d1(1,2) unfolding \<open>d1 = w_fs demo_world\<close> same by blast
  moreover have "\<exists>m'' d. restore_all kind_teardown (Some 7) False (fst (snd (demo_applied 8192))) (snd (snd (demo_applied 8192)))
      = (None, m'', demo_world\<lparr>w_fs := d\<rparr>) \<and> Some 7 \<notin> set (dkeys (local_resources m'')) \<and> fst (demo_applied 8192) \<noteq> None"
    using t[of 8192] x by blast
  ultimately show ?thesis by blast
qed

theorem topological_sort_correct_witness:
  "case topological_sort [demo_file 1, demo_folder] of
      Inr rs' \<Rightarrow> distinct rs' \<and> set rs' = set [demo_file 1, demo_folder] \<and>
        (\<forall>r \<in> set [demo_file 1, demo_folder]. \<forall>s \<in> set [demo_file 1, demo_folder].
          res_name s \<in> set (res_depends_on r) \<longrightarrow> before s r rs')
    | Inl e \<Rightarrow> exc_class e = CycleError \<and> \<not> (\<exists>rank. ranked (dep_graph [demo_file 1, demo_folder]) rank)"
proof (rule topological_sort_correct)
  show "distinct (map res_name [demo_file 1, demo_folder])" by code_simp
  show "closed_deps [demo_file 1, demo_folder]" by code_simp
qed

theorem topological_sort_keeps_one_per_class_witness:
  "topological_sort [demo_file 1, demo_file 2, demo_folder] = Inr [demo_folder, demo_file 2] \<and>
   distinct (map res_name [demo_folder, demo_file 2])"
proof -
  have t: "topological_sort [demo_file 1, demo_file 2, demo_folder] = Inr [demo_folder, demo_file 2]"
    by code_simp
  show ?thesis
    using topological_sort_keeps_one_per_class[of "[demo_file 1, demo_file 2, demo_folder]"] t by simp
qed

end
