(* ===== verification/Hugepages.thy ===== *)
theory Hugepages
  imports Py_String
begin

text \<open>
  \<open>src/core/resources/hugepages.py\<close>: the page sizes a NUMA node supports, the choice of a
  fallback size, and the manager that collects the requests of all benchmarks, allocates
  each size once for the largest request that the kernel grants, and gives the pages back
  when the last requestor releases them.  All sizes are in KiB.

  Requests are objects that two dictionaries share (by requestor, and by node, size and
  requestor), so they live in a store and the dictionaries hold addresses.  The kernel is
  the environment: what a read returns, which writes fail, and how many pages a write to
  \<open>nr_hugepages\<close> really yields.  An error text is the datatype \<open>hp_error\<close> with the values
  that the text shows.
\<close>

section \<open>Supported sizes\<close>

definition strip_suffix :: "string \<Rightarrow> string \<Rightarrow> string option" where
  "strip_suffix suf s = (if suffix suf s then Some (take (length s - length suf) s) else None)"

definition parse_digits :: "string \<Rightarrow> nat option" where
  "parse_digits s = (if s \<noteq> [] \<and> list_all is_digit s then Some (digits_val s) else None)"

text \<open>The patterns \<open>^node(\d+)$\<close> and \<open>^hugepages-(\d+)kB$\<close>.\<close>

definition match_node :: "string \<Rightarrow> nat option" where
  "match_node s = (if prefix ''node'' s then parse_digits (drop 4 s) else None)"

definition match_size :: "string \<Rightarrow> nat option" where
  "match_size s = (if prefix ''hugepages-'' s
     then (case strip_suffix ''kB'' (drop 10 s) of None \<Rightarrow> None | Some t \<Rightarrow> parse_digits t)
     else None)"

text \<open>
  The listing of the NUMA directory with, for every entry, the listing of its \<open>hugepages\<close>
  directory; \<open>None\<close> where a directory does not exist.
\<close>

type_synonym numa_listing = "(string \<times> string list option) list option"

definition get_supported_hugepage_sizes :: "numa_listing \<Rightarrow> (nat, nat list) dict" where
  "get_supported_hugepage_sizes l = (case l of
       None \<Rightarrow> []
     | Some entries \<Rightarrow> foldl (\<lambda>d (name, sub). case match_node name of
           None \<Rightarrow> d
         | Some n \<Rightarrow> (case sub of
             None \<Rightarrow> d
           | Some names \<Rightarrow> dset n (rev (sort (List.map_filter match_size names))) d)) [] entries)"

section \<open>Choosing a page size\<close>

datatype hp_error =
    NodePathMissing nat
  | SizePathMissing nat nat
  | NotWriteable nat nat
  | ReadFailed nat nat
  | WriteFailed nat nat
  | AllocFailed nat nat nat nat
  | FreeUnreadable nat nat
  | NoSuitableSize nat nat "nat list"
  | NotEnabled nat
  | NoPreallocated nat nat nat

datatype hp_exc = MemoryErr "hp_error option" | AssertErr string | KeyErr | ZeroDivErr

type_synonym 'a hres = "hp_exc + 'a"

type_synonym validity = "nat \<Rightarrow> nat \<Rightarrow> nat \<Rightarrow> bool hres"

fun find_fallback :: "validity \<Rightarrow> nat \<Rightarrow> nat \<Rightarrow> nat \<Rightarrow> nat list \<Rightarrow> nat option hres" where
  "find_fallback valid node size_kb count [] = Inr None"
| "find_fallback valid node size_kb count (a # as) =
     (if a < size_kb \<and> a = 0 then Inl ZeroDivErr
      else if a < size_kb \<and> size_kb mod a = 0
      then (case valid node a (count * (size_kb div a)) of
          Inl e \<Rightarrow> Inl e
        | Inr True \<Rightarrow> Inr (Some a)
        | Inr False \<Rightarrow> find_fallback valid node size_kb count as)
      else find_fallback valid node size_kb count as)"

definition adjust_size :: "bool \<Rightarrow> (nat, nat list) dict \<Rightarrow> validity \<Rightarrow> nat \<Rightarrow> nat \<Rightarrow> nat \<Rightarrow> (nat \<times> nat) hres" where
  "adjust_size disable_resize avail valid node size_kb count =
     (let sizes = dget avail node [] in
      case (if size_kb \<in> set sizes then valid node size_kb count else Inr False) of
        Inl e \<Rightarrow> Inl e
      | Inr True \<Rightarrow> Inr (size_kb, count)
      | Inr False \<Rightarrow>
          (case (if disable_resize then Inr None else find_fallback valid node size_kb count sizes) of
             Inl e \<Rightarrow> Inl e
           | Inr None \<Rightarrow> Inl (MemoryErr (Some (if sizes = [] then NotEnabled node
                                               else NoSuitableSize node size_kb sizes)))
           | Inr (Some f) \<Rightarrow> Inr (f, count * (size_kb div f))))"

definition always_valid :: validity where
  "always_valid node size_kb count = Inr True"

definition adjust_to_available_size :: "bool \<Rightarrow> (nat, nat list) dict \<Rightarrow> nat \<Rightarrow> nat \<Rightarrow> nat \<Rightarrow> (nat \<times> nat) hres" where
  "adjust_to_available_size dr avail node size_kb count = adjust_size dr avail always_valid node size_kb count"

text \<open>\<open>free node size\<close> is the content of \<open>free_hugepages\<close>, \<open>None\<close> when it cannot be read.\<close>

definition has_enough_free_pages :: "(nat \<Rightarrow> nat \<Rightarrow> nat option) \<Rightarrow> validity" where
  "has_enough_free_pages free node size_kb count = (case free node size_kb of
       None \<Rightarrow> Inl (MemoryErr (Some (FreeUnreadable node size_kb)))
     | Some n \<Rightarrow> Inr (count \<le> n))"

definition adjust_to_available_free_size ::
    "bool \<Rightarrow> (nat, nat list) dict \<Rightarrow> (nat \<Rightarrow> nat \<Rightarrow> nat option) \<Rightarrow> nat \<Rightarrow> nat \<Rightarrow> nat \<Rightarrow> (nat \<times> nat) hres" where
  "adjust_to_available_free_size dr avail free node size_kb count =
     adjust_size dr avail (has_enough_free_pages free) node size_kb count"

section \<open>The kernel's counters\<close>

record hp_sys =
  hs_node_exists :: "nat \<Rightarrow> bool"
  hs_count :: "(nat \<times> nat, nat) dict"
  hs_writable :: "nat \<Rightarrow> nat \<Rightarrow> bool"
  hs_read_ok :: "nat \<Rightarrow> nat \<Rightarrow> bool"
  hs_write_ok :: "nat \<Rightarrow> nat \<Rightarrow> nat \<Rightarrow> bool"
  hs_grant :: "nat \<Rightarrow> nat \<Rightarrow> nat \<Rightarrow> nat \<Rightarrow> nat"

definition read_allocated_hugepage_count :: "nat \<Rightarrow> nat \<Rightarrow> hp_sys \<Rightarrow> hp_error + nat" where
  "read_allocated_hugepage_count node size_kb sy = (case map_of (hs_count sy) (node, size_kb) of
       None \<Rightarrow> Inl (ReadFailed node size_kb)
     | Some n \<Rightarrow> if hs_read_ok sy node size_kb then Inr n else Inl (ReadFailed node size_kb))"

definition write_hugepage_info :: "nat \<Rightarrow> nat \<Rightarrow> nat \<Rightarrow> hp_sys \<Rightarrow> hp_error option \<times> hp_sys" where
  "write_hugepage_info node size_kb page_count sy = (case map_of (hs_count sy) (node, size_kb) of
       None \<Rightarrow> (Some (WriteFailed node size_kb), sy)
     | Some cur \<Rightarrow> if hs_write_ok sy node size_kb page_count
         then (None, sy\<lparr>hs_count := dset (node, size_kb) (hs_grant sy node size_kb cur page_count) (hs_count sy)\<rparr>)
         else (Some (WriteFailed node size_kb), sy))"

definition allocate_huge_page :: "nat \<Rightarrow> nat \<Rightarrow> nat \<Rightarrow> nat \<Rightarrow> hp_sys \<Rightarrow> hp_error option \<times> hp_sys" where
  "allocate_huge_page node size_kb initial_count added_count sy =
     (let count = initial_count + added_count in
      case write_hugepage_info node size_kb count sy of
        (Some e, sy') \<Rightarrow> (Some e, sy')
      | (None, sy') \<Rightarrow>
          (case read_allocated_hugepage_count node size_kb sy' of
             Inl e \<Rightarrow> (Some e, sy')
           | Inr n \<Rightarrow> (if n = count then None
                       else Some (AllocFailed node size_kb initial_count added_count), sy')))"

section \<open>The manager's state\<close>

datatype alloc_state = READY | FAILED | SUCCESS

record hp_request =
  rq_node :: nat
  rq_size :: nat
  rq_count :: nat
  rq_error :: "hp_error option"
  rq_orig_size :: "nat option"
  rq_state :: alloc_state

record size_entry =
  initial_count :: nat
  allocated_count :: nat
  requests :: "(nat, nat) dict"

record hp_manager =
  hp_avail :: "(nat, nat list) dict"
  alloc_done :: bool
  hp_store :: "hp_request list"
  hp_nodes :: "(nat, (nat, size_entry) dict) dict"
  all_requests :: "(nat, nat list) dict"

definition new_hp_manager :: hp_manager where
  "new_hp_manager = \<lparr>hp_avail = [], alloc_done = False, hp_store = [], hp_nodes = [], all_requests = []\<rparr>"

definition empty_entry :: size_entry where
  "empty_entry = \<lparr>initial_count = 0, allocated_count = 0, requests = []\<rparr>"

definition get_available_page_sizes :: "numa_listing \<Rightarrow> hp_manager \<Rightarrow> hp_manager" where
  "get_available_page_sizes l m =
     (if hp_avail m = [] then m\<lparr>hp_avail := get_supported_hugepage_sizes l\<rparr> else m)"

definition get_entry :: "hp_manager \<Rightarrow> nat \<Rightarrow> nat \<Rightarrow> size_entry" where
  "get_entry m node size_kb = dget (dget (hp_nodes m) node []) size_kb empty_entry"

definition put_entry :: "nat \<Rightarrow> nat \<Rightarrow> size_entry \<Rightarrow> hp_manager \<Rightarrow> hp_manager" where
  "put_entry node size_kb e m =
     m\<lparr>hp_nodes := dset node (dset size_kb e (dget (hp_nodes m) node [])) (hp_nodes m)\<rparr>"

text \<open>Registering one adjusted request: a new object under a new address.\<close>

definition add_request :: "nat \<Rightarrow> nat \<Rightarrow> nat \<Rightarrow> nat \<Rightarrow> nat \<Rightarrow> hp_manager \<Rightarrow> hp_manager" where
  "add_request rid node size_kb adj_size adj_count m =
     (let a = length (hp_store m);
          req = \<lparr>rq_node = node, rq_size = adj_size, rq_count = adj_count, rq_error = None,
                 rq_orig_size = (if adj_size \<noteq> size_kb then Some size_kb else None), rq_state = READY\<rparr>;
          e = get_entry m node adj_size;
          m' = put_entry node adj_size (e\<lparr>requests := dset rid a (requests e)\<rparr>) m
      in m'\<lparr>hp_store := hp_store m @ [req],
            all_requests := dset rid (dget (all_requests m) rid [] @ [a]) (all_requests m)\<rparr>)"

fun request_sizes :: "bool \<Rightarrow> nat \<Rightarrow> nat \<Rightarrow> (nat \<times> nat) list \<Rightarrow> hp_manager \<Rightarrow> hp_exc option \<times> hp_manager" where
  "request_sizes dr rid node [] m = (None, m)"
| "request_sizes dr rid node ((size_kb, count) # rest) m =
     (case adjust_to_available_size dr (hp_avail m) node size_kb count of
        Inl e \<Rightarrow> (Some e, m)
      | Inr (s, c) \<Rightarrow> request_sizes dr rid node rest (add_request rid node size_kb s c m))"

fun request_nodes :: "bool \<Rightarrow> nat \<Rightarrow> (nat \<times> (nat \<times> nat) list) list \<Rightarrow> hp_manager \<Rightarrow> hp_exc option \<times> hp_manager" where
  "request_nodes dr rid [] m = (None, m)"
| "request_nodes dr rid ((node, sizes) # rest) m =
     (let m1 = (if node \<in> set (dkeys (hp_nodes m)) then m else m\<lparr>hp_nodes := dset node [] (hp_nodes m)\<rparr>) in
      case request_sizes dr rid node sizes m1 of
        (Some e, m2) \<Rightarrow> (Some e, m2)
      | (None, m2) \<Rightarrow> request_nodes dr rid rest m2)"

definition update_alloc_status :: "bool \<Rightarrow> nat \<Rightarrow> (nat \<times> (nat \<times> nat) list) list \<Rightarrow> hp_manager \<Rightarrow>
    hp_exc option \<times> hp_manager" where
  "update_alloc_status dr rid info m =
     (if alloc_done m then (Some (AssertErr ''requesting an allocation after allocation stage completed''), m)
      else request_nodes dr rid info m)"

definition request_allocation :: "bool \<Rightarrow> numa_listing \<Rightarrow> nat \<Rightarrow> (nat \<times> (nat \<times> nat) list) list \<Rightarrow>
    hp_manager \<Rightarrow> hp_exc option \<times> hp_manager" where
  "request_allocation dr l rid info m = update_alloc_status dr rid info (get_available_page_sizes l m)"

section \<open>The allocation stage\<close>

definition set_outcome :: "alloc_state \<Rightarrow> hp_error option \<Rightarrow> hp_request \<Rightarrow> hp_request" where
  "set_outcome st err r = r\<lparr>rq_state := st, rq_error := (if err = None then rq_error r else err)\<rparr>"

definition mark :: "alloc_state \<Rightarrow> hp_error option \<Rightarrow> (hp_request \<Rightarrow> bool) \<Rightarrow> nat list \<Rightarrow>
    hp_request list \<Rightarrow> hp_request list" where
  "mark st err flt addrs store = foldl (\<lambda>s a.
     if flt (s ! a) then s[a := set_outcome st err (s ! a)] else s) store addrs"

definition entry_addrs :: "hp_manager \<Rightarrow> nat \<Rightarrow> nat \<Rightarrow> nat list" where
  "entry_addrs m node size_kb = map snd (requests (get_entry m node size_kb))"

definition set_request_state :: "nat \<Rightarrow> nat option \<Rightarrow> alloc_state \<Rightarrow> hp_error option \<Rightarrow>
    (hp_request \<Rightarrow> bool) \<Rightarrow> hp_manager \<Rightarrow> hp_manager" where
  "set_request_state node size_kb st err flt m =
     (let sizes = (case size_kb of Some s \<Rightarrow> [s] | None \<Rightarrow> dkeys (dget (hp_nodes m) node []))
      in m\<lparr>hp_store := mark st err flt (concat (map (entry_addrs m node) sizes)) (hp_store m)\<rparr>)"

abbreviation any_request :: "hp_request \<Rightarrow> bool" where
  "any_request \<equiv> (\<lambda>_. True)"

definition preverify_size :: "hp_sys \<Rightarrow> nat \<Rightarrow> hp_manager \<Rightarrow> nat \<Rightarrow> hp_manager" where
  "preverify_size sy node m size_kb =
     (if (node, size_kb) \<notin> set (dkeys (hs_count sy))
      then set_request_state node (Some size_kb) FAILED (Some (SizePathMissing node size_kb)) any_request m
      else if \<not> hs_writable sy node size_kb
      then set_request_state node (Some size_kb) FAILED (Some (NotWriteable node size_kb)) any_request m
      else m)"

definition preverify_node :: "hp_sys \<Rightarrow> hp_manager \<Rightarrow> nat \<Rightarrow> hp_manager" where
  "preverify_node sy m node =
     (if \<not> hs_node_exists sy node
      then set_request_state node None FAILED (Some (NodePathMissing node)) any_request m
      else foldl (preverify_size sy node) m (dkeys (dget (hp_nodes m) node [])))"

definition preverify :: "hp_sys \<Rightarrow> hp_manager \<Rightarrow> hp_manager" where
  "preverify sy m = foldl (preverify_node sy) m (dkeys (hp_nodes m))"

text \<open>The pairs of node and size in the order of the nested loops.\<close>

definition all_pairs :: "hp_manager \<Rightarrow> (nat \<times> nat) list" where
  "all_pairs m = concat (map (\<lambda>(node, sizes). map (\<lambda>(s, _). (node, s)) sizes) (hp_nodes m))"

definition read_setting :: "hp_sys \<Rightarrow> hp_manager \<Rightarrow> nat \<times> nat \<Rightarrow> hp_manager" where
  "read_setting sy m = (\<lambda>(node, size_kb). case read_allocated_hugepage_count node size_kb sy of
       Inl e \<Rightarrow> set_request_state node (Some size_kb) FAILED (Some e) any_request m
     | Inr n \<Rightarrow> put_entry node size_kb ((get_entry m node size_kb)\<lparr>initial_count := n\<rparr>) m)"

definition get_hugepage_settings :: "hp_sys \<Rightarrow> hp_manager \<Rightarrow> hp_manager" where
  "get_hugepage_settings sy m = foldl (read_setting sy) m (all_pairs m)"

text \<open>The distinct page counts of the requests that are still ready, largest first.\<close>

definition ready_counts :: "hp_manager \<Rightarrow> nat \<Rightarrow> nat \<Rightarrow> nat list" where
  "ready_counts m node size_kb =
     rev (sort (remdups (map rq_count (filter (\<lambda>r. rq_state r = READY)
       (map (\<lambda>a. hp_store m ! a) (entry_addrs m node size_kb))))))"

fun try_counts :: "nat \<Rightarrow> nat \<Rightarrow> nat list \<Rightarrow> hp_manager \<times> hp_sys \<Rightarrow> hp_manager \<times> hp_sys" where
  "try_counts node size_kb [] (m, sy) = (m, sy)"
| "try_counts node size_kb (c # cs) (m, sy) =
     (let e = get_entry m node size_kb in
      case allocate_huge_page node size_kb (initial_count e) c sy of
        (Some err, sy') \<Rightarrow> try_counts node size_kb cs
          (set_request_state node (Some size_kb) FAILED (Some err) (\<lambda>r. rq_count r = c) m, sy')
      | (None, sy') \<Rightarrow>
          (set_request_state node (Some size_kb) SUCCESS None (\<lambda>r. rq_count r \<le> c)
             (put_entry node size_kb (e\<lparr>allocated_count := initial_count e + c\<rparr>) m), sy'))"

definition allocate_pair :: "hp_manager \<times> hp_sys \<Rightarrow> nat \<times> nat \<Rightarrow> hp_manager \<times> hp_sys" where
  "allocate_pair ms = (\<lambda>(node, size_kb).
     try_counts node size_kb (ready_counts (fst ms) node size_kb) ms)"

definition allocate :: "hp_manager \<Rightarrow> hp_sys \<Rightarrow> hp_manager \<times> hp_sys" where
  "allocate m sy =
     (let m' = get_hugepage_settings sy (preverify sy m)
      in foldl allocate_pair (m', sy) (all_pairs m'))"

section \<open>Acquire and release\<close>

definition acquire :: "nat \<Rightarrow> hp_manager \<Rightarrow> hp_sys \<Rightarrow> hp_exc option \<times> hp_manager \<times> hp_sys" where
  "acquire rid m sy =
     (let (m1, sy1) = (if alloc_done m then (m, sy)
                       else (let (m', sy') = allocate m sy in (m'\<lparr>alloc_done := True\<rparr>, sy')))
      in case map_of (all_requests m1) rid of
           None \<Rightarrow> (Some (AssertErr ''acquire() called without calling request_allocation''), m1, sy1)
         | Some addrs \<Rightarrow>
             (let reqs = map (\<lambda>a. hp_store m1 ! a) addrs in
              if list_all (\<lambda>r. rq_state r = SUCCESS) reqs then (None, m1, sy1)
              else (case filter (\<lambda>r. rq_state r = FAILED) reqs of
                  [] \<Rightarrow> (None, m1, sy1)
                | r # _ \<Rightarrow> (Some (MemoryErr (rq_error r)), m1, sy1))))"

fun release_loop :: "nat \<Rightarrow> nat list \<Rightarrow> hp_manager \<Rightarrow> hp_sys \<Rightarrow> hp_exc option \<times> hp_manager \<times> hp_sys" where
  "release_loop rid [] m sy = (None, m, sy)"
| "release_loop rid (a # as) m sy =
     (let r = hp_store m ! a; node = rq_node r; size_kb = rq_size r; e = get_entry m node size_kb in
      if rid \<notin> set (dkeys (requests e)) then (Some KeyErr, m, sy)
      else let e' = e\<lparr>requests := ddel rid (requests e)\<rparr>;
               m' = put_entry node size_kb e' m;
               sy' = (if requests e' = [] \<and> allocated_count e' > initial_count e'
                      then snd (write_hugepage_info node size_kb (initial_count e') sy) else sy)
           in release_loop rid as m' sy')"

definition release_pages :: "nat \<Rightarrow> hp_manager \<Rightarrow> hp_sys \<Rightarrow> hp_exc option \<times> hp_manager \<times> hp_sys" where
  "release_pages rid m sy =
     (if \<not> alloc_done m
      then (Some (AssertErr ''releasing a huge page allocation before allocation stage completed''), m, sy)
      else case map_of (all_requests m) rid of
        None \<Rightarrow> (Some (AssertErr ''release() called twice for the same requestor''), m, sy)
      | Some addrs \<Rightarrow>
          (case release_loop rid addrs m sy of
             (Some e, m', sy') \<Rightarrow> (Some e, m', sy')
           | (None, m', sy') \<Rightarrow> (None, m'\<lparr>all_requests := ddel rid (all_requests m')\<rparr>, sy')))"

definition hp_get_page_size :: "nat \<Rightarrow> hp_manager \<Rightarrow> nat hres" where
  "hp_get_page_size rid m = (case map_of (all_requests m) rid of
       Some (a # _) \<Rightarrow> Inr (rq_size (hp_store m ! a) * 1024)
     | _ \<Rightarrow> Inl KeyErr)"

section \<open>Pages that are already there\<close>

definition resolve_request :: "bool \<Rightarrow> (nat, nat list) dict \<Rightarrow> (nat \<Rightarrow> nat \<Rightarrow> nat option) \<Rightarrow>
    nat \<Rightarrow> nat \<Rightarrow> nat \<Rightarrow> hp_request hres" where
  "resolve_request dr avail free node size_kb count =
     (case adjust_to_available_free_size dr avail free node size_kb count of
        Inl (MemoryErr _) \<Rightarrow> Inl (MemoryErr (Some (NoPreallocated node size_kb count)))
      | Inl e \<Rightarrow> Inl e
      | Inr (s, c) \<Rightarrow> Inr \<lparr>rq_node = node, rq_size = s, rq_count = c, rq_error = None,
          rq_orig_size = (if s \<noteq> size_kb then Some size_kb else None), rq_state = SUCCESS\<rparr>)"

fun prealloc_sizes :: "bool \<Rightarrow> (nat, nat list) dict \<Rightarrow> (nat \<Rightarrow> nat \<Rightarrow> nat option) \<Rightarrow> nat \<Rightarrow>
    (nat \<times> nat) list \<Rightarrow> hp_request list hres" where
  "prealloc_sizes dr avail free node [] = Inr []"
| "prealloc_sizes dr avail free node ((s, c) # rest) =
     (case resolve_request dr avail free node s c of
        Inl e \<Rightarrow> Inl e
      | Inr r \<Rightarrow> (case prealloc_sizes dr avail free node rest of
          Inl e \<Rightarrow> Inl e | Inr rs \<Rightarrow> Inr (r # rs)))"

fun prealloc_setup :: "bool \<Rightarrow> (nat, nat list) dict \<Rightarrow> (nat \<Rightarrow> nat \<Rightarrow> nat option) \<Rightarrow>
    (nat \<times> (nat \<times> nat) list) list \<Rightarrow> hp_request list hres" where
  "prealloc_setup dr avail free [] = Inr []"
| "prealloc_setup dr avail free ((node, sizes) # rest) =
     (case prealloc_sizes dr avail free node sizes of
        Inl e \<Rightarrow> Inl e
      | Inr rs \<Rightarrow> (case prealloc_setup dr avail free rest of
          Inl e \<Rightarrow> Inl e | Inr rs' \<Rightarrow> Inr (rs @ rs')))"

text \<open>Which implementation \<open>Hugepage(...)\<close> returns.\<close>

datatype hugepage_impl = HugepageNoOp | HugepageImpl | PreallocatedHugepageImpl

definition Hugepage :: "bool \<Rightarrow> bool \<Rightarrow> hugepage_impl" where
  "Hugepage dev_mode is_root =
     (if dev_mode then HugepageNoOp else if is_root then HugepageImpl else PreallocatedHugepageImpl)"

section \<open>Lemmas on the store and the entries\<close>


lemma set_outcome_sel [simp]:
  "rq_node (set_outcome st err r) = rq_node r" "rq_size (set_outcome st err r) = rq_size r"
  "rq_count (set_outcome st err r) = rq_count r" "rq_state (set_outcome st err r) = st"
  by (simp_all add: set_outcome_def)

lemma set_outcome_idem [simp]: "set_outcome st err (set_outcome st err r) = set_outcome st err r"
  by (simp add: set_outcome_def)

lemma length_mark [simp]: "length (mark st err flt addrs store) = length store"
  unfolding mark_def by (induction addrs arbitrary: store) auto

lemma mark_simps [simp]:
  "mark st err flt [] store = store"
  "mark st err flt (a # as) store =
     mark st err flt as (if flt (store ! a) then store[a := set_outcome st err (store ! a)] else store)"
  by (simp_all add: mark_def)

text \<open>A filter that does not look at the outcome.\<close>

definition oblivious :: "(hp_request \<Rightarrow> bool) \<Rightarrow> bool" where
  "oblivious flt \<longleftrightarrow> (\<forall>st err r. flt (set_outcome st err r) = flt r)"

lemma obliviousD [simp]: "oblivious flt \<Longrightarrow> flt (set_outcome st err r) = flt r"
  by (simp add: oblivious_def)

lemma oblivious_cases [simp]:
  "oblivious any_request" "oblivious (\<lambda>r. rq_count r = c)" "oblivious (\<lambda>r. rq_count r \<le> c)"
  by (simp_all add: oblivious_def)

lemma mark_nth:
  assumes "oblivious flt"
  shows "a < length store \<Longrightarrow> mark st err flt addrs store ! a =
    (if a \<in> set addrs \<and> flt (store ! a) then set_outcome st err (store ! a) else store ! a)"
proof (induction addrs arbitrary: store)
  case (Cons b addrs)
  then show ?case by (cases "b = a") (auto simp: assms)
qed simp

lemma mark_nth_other: "a \<notin> set addrs \<Longrightarrow> mark st err flt addrs store ! a = store ! a"
  by (induction addrs arbitrary: store) auto

lemma get_put_entry [simp]:
  "get_entry (put_entry n s e m) n' s' = (if n' = n \<and> s' = s then e else get_entry m n' s')"
  by (auto simp: get_entry_def put_entry_def dget_def)

lemma put_entry_sel [simp]:
  "hp_store (put_entry n s e m) = hp_store m" "all_requests (put_entry n s e m) = all_requests m"
  "alloc_done (put_entry n s e m) = alloc_done m" "hp_avail (put_entry n s e m) = hp_avail m"
  by (simp_all add: put_entry_def)

lemma entry_addrs_put [simp]:
  "entry_addrs (put_entry n s e m) n' s' =
     (if n' = n \<and> s' = s then map snd (requests e) else entry_addrs m n' s')"
  by (simp add: entry_addrs_def)

lemma set_request_state_sel [simp]:
  "get_entry (set_request_state n so st err flt m) n' s' = get_entry m n' s'"
  "entry_addrs (set_request_state n so st err flt m) n' s' = entry_addrs m n' s'"
  "all_requests (set_request_state n so st err flt m) = all_requests m"
  "alloc_done (set_request_state n so st err flt m) = alloc_done m"
  "hp_nodes (set_request_state n so st err flt m) = hp_nodes m"
  "length (hp_store (set_request_state n so st err flt m)) = length (hp_store m)"
  by (simp_all add: set_request_state_def get_entry_def entry_addrs_def)

text \<open>
  The requests registered for a node and size, and the invariant that ties the two
  dictionaries together: a request is registered under the node and size that it holds.
\<close>

definition entry_reqs :: "hp_manager \<Rightarrow> nat \<Rightarrow> nat \<Rightarrow> hp_request list" where
  "entry_reqs m n s = map (\<lambda>a. hp_store m ! a) (entry_addrs m n s)"

definition hp_ok :: "hp_manager \<Rightarrow> bool" where
  "hp_ok m \<longleftrightarrow> (\<forall>n s. \<forall>a \<in> set (entry_addrs m n s).
     a < length (hp_store m) \<and> rq_node (hp_store m ! a) = n \<and> rq_size (hp_store m ! a) = s)"

lemma hp_okD:
  "hp_ok m \<Longrightarrow> a \<in> set (entry_addrs m n s) \<Longrightarrow>
     a < length (hp_store m) \<and> rq_node (hp_store m ! a) = n \<and> rq_size (hp_store m ! a) = s"
  by (simp add: hp_ok_def)

lemma set_state_nth:
  assumes "a < length (hp_store m)" "oblivious flt"
  shows "hp_store (set_request_state n so st err flt m) ! a =
    (if a \<in> set (concat (map (entry_addrs m n)
         (case so of Some s \<Rightarrow> [s] | None \<Rightarrow> dkeys (dget (hp_nodes m) n []))))
       \<and> flt (hp_store m ! a)
     then set_outcome st err (hp_store m ! a) else hp_store m ! a)"
  using assms by (simp add: set_request_state_def mark_nth)

lemma hp_ok_set_state:
  assumes "hp_ok m" "oblivious flt"
  shows "hp_ok (set_request_state n so st err flt m)"
  unfolding hp_ok_def
proof (intro allI ballI)
  fix n' s' a assume "a \<in> set (entry_addrs (set_request_state n so st err flt m) n' s')"
  hence "a \<in> set (entry_addrs m n' s')" by simp
  from hp_okD[OF assms(1) this]
  show "a < length (hp_store (set_request_state n so st err flt m)) \<and>
      rq_node (hp_store (set_request_state n so st err flt m) ! a) = n' \<and>
      rq_size (hp_store (set_request_state n so st err flt m) ! a) = s'"
    by (simp add: set_state_nth[OF _ assms(2)])
qed

lemma entry_reqs_set_state:
  assumes "hp_ok m" "oblivious flt"
  shows "entry_reqs (set_request_state n (Some s) st err flt m) n' s' =
    (if n' = n \<and> s' = s then map (\<lambda>r. if flt r then set_outcome st err r else r) (entry_reqs m n s)
     else entry_reqs m n' s')"
proof (cases "n' = n \<and> s' = s")
  case True
  then show ?thesis
    using hp_okD[OF assms(1)] by (auto simp: entry_reqs_def set_state_nth[OF _ assms(2)])
next
  case False
  have "hp_store (set_request_state n (Some s) st err flt m) ! a = hp_store m ! a"
    if "a \<in> set (entry_addrs m n' s')" for a
  proof -
    have "a \<notin> set (entry_addrs m n s)"
    proof
      assume "a \<in> set (entry_addrs m n s)"
      from hp_okD[OF assms(1) this] hp_okD[OF assms(1) that] False show False by auto
    qed
    thus ?thesis by (simp add: set_request_state_def mark_nth_other)
  qed
  with False show ?thesis by (auto simp: entry_reqs_def)
qed

lemma entry_reqs_put:
  "requests e = requests (get_entry m n s) \<Longrightarrow> entry_reqs (put_entry n s e m) n' s' = entry_reqs m n' s'"
  by (simp add: entry_reqs_def entry_addrs_def)

lemma hp_ok_put:
  "hp_ok m \<Longrightarrow> set (map snd (requests e)) \<subseteq> set (entry_addrs m n s) \<Longrightarrow> hp_ok (put_entry n s e m)"
  unfolding hp_ok_def by (auto 0 3 simp: subset_iff split: if_splits)


section \<open>What the allocation stage establishes\<close>

definition pair_frame :: "nat \<times> nat \<Rightarrow> hp_manager \<times> hp_sys \<Rightarrow> hp_manager \<times> hp_sys \<Rightarrow> bool" where
  "pair_frame p ms ms' \<longleftrightarrow> all_requests (fst ms') = all_requests (fst ms) \<and>
     alloc_done (fst ms') = alloc_done (fst ms) \<and>
     (\<forall>n s. entry_addrs (fst ms') n s = entry_addrs (fst ms) n s) \<and>
     (\<forall>n s. (n, s) \<noteq> p \<longrightarrow> get_entry (fst ms') n s = get_entry (fst ms) n s \<and>
        entry_reqs (fst ms') n s = entry_reqs (fst ms) n s \<and>
        map_of (hs_count (snd ms')) (n, s) = map_of (hs_count (snd ms)) (n, s))"

lemma pair_frame_refl: "pair_frame p ms ms"
  by (simp add: pair_frame_def)

lemma pair_frame_trans: "pair_frame p a b \<Longrightarrow> pair_frame p b c \<Longrightarrow> pair_frame p a c"
  by (simp add: pair_frame_def)

text \<open>
  An entry is settled when no request waits any more, every granted request is covered by
  the pages that were added, and the kernel holds the count on record if one was granted.
\<close>

definition settled :: "hp_manager \<times> hp_sys \<Rightarrow> nat \<Rightarrow> nat \<Rightarrow> bool" where
  "settled ms n s \<longleftrightarrow> (let e = get_entry (fst ms) n s in
     \<forall>r \<in> set (entry_reqs (fst ms) n s). rq_state r \<noteq> READY \<and>
       (rq_state r = SUCCESS \<longrightarrow> initial_count e + rq_count r \<le> allocated_count e \<and>
          map_of (hs_count (snd ms)) (n, s) = Some (allocated_count e)))"

lemma write_other: "write_hugepage_info n s c sy = (x, sy') \<Longrightarrow> (n', s') \<noteq> (n, s) \<Longrightarrow>
    map_of (hs_count sy') (n', s') = map_of (hs_count sy) (n', s')"
  by (auto simp: write_hugepage_info_def split: option.splits if_splits)

lemma allocate_other: "allocate_huge_page n s i c sy = (x, sy') \<Longrightarrow> (n', s') \<noteq> (n, s) \<Longrightarrow>
    map_of (hs_count sy') (n', s') = map_of (hs_count sy) (n', s')"
  by (auto simp: allocate_huge_page_def Let_def split: prod.splits option.splits sum.splits
      dest: write_other)

lemma allocate_ok: "allocate_huge_page n s i c sy = (None, sy') \<Longrightarrow>
    map_of (hs_count sy') (n, s) = Some (i + c)"
  by (auto simp: allocate_huge_page_def read_allocated_hugepage_count_def Let_def
      split: prod.splits option.splits sum.splits if_splits)

lemma fail_frame:
  assumes "hp_ok m" "oblivious flt" "allocate_huge_page n s i c sy = (x, sy')"
  shows "pair_frame (n, s) (m, sy) (set_request_state n (Some s) st err flt m, sy')"
  using allocate_other[OF assms(3)]
  by (auto simp: pair_frame_def entry_reqs_set_state[OF assms(1,2)])

lemma success_frame:
  assumes "hp_ok m" "allocate_huge_page n s i c sy = (x, sy')"
  shows "pair_frame (n, s) (m, sy) (set_request_state n (Some s) SUCCESS None (\<lambda>r. rq_count r \<le> c)
    (put_entry n s ((get_entry m n s)\<lparr>allocated_count := i + c\<rparr>) m), sy')"
proof -
  have ok: "hp_ok (put_entry n s ((get_entry m n s)\<lparr>allocated_count := i + c\<rparr>) m)"
    by (intro hp_ok_put) (auto simp: assms(1) entry_addrs_def)
  show ?thesis
    using allocate_other[OF assms(2)]
    by (auto simp: pair_frame_def entry_reqs_set_state[OF ok] entry_reqs_put entry_addrs_def)
qed

lemma hp_ok_success:
  "hp_ok m \<Longrightarrow> hp_ok (set_request_state n (Some s) SUCCESS None (\<lambda>r. rq_count r \<le> c)
    (put_entry n s ((get_entry m n s)\<lparr>allocated_count := k\<rparr>) m))"
  by (intro hp_ok_set_state hp_ok_put) (auto simp: entry_addrs_def)

lemma try_counts_settles:
  assumes "hp_ok m" "sorted_wrt (\<ge>) cs"
    "\<forall>r \<in> set (entry_reqs m n s). rq_state r \<noteq> SUCCESS \<and> (rq_state r = READY \<longrightarrow> rq_count r \<in> set cs)"
    "try_counts n s cs (m, sy) = ms'"
  shows "hp_ok (fst ms') \<and> pair_frame (n, s) (m, sy) ms' \<and> settled ms' n s"
  using assms
proof (induction cs arbitrary: m sy)
  case Nil
  then show ?case by (auto simp: pair_frame_refl settled_def Let_def)
next
  case (Cons c cs)
  define e where "e = get_entry m n s"
  obtain x sy1 where a: "allocate_huge_page n s (initial_count e) c sy = (x, sy1)" by fastforce
  show ?case
  proof (cases x)
    case (Some err)
    define m1 where "m1 = set_request_state n (Some s) FAILED (Some err) (\<lambda>r. rq_count r = c) m"
    have ok1: "hp_ok m1" unfolding m1_def by (rule hp_ok_set_state) (simp_all add: Cons.prems)
    have f: "pair_frame (n, s) (m, sy) (m1, sy1)"
      unfolding m1_def using Cons.prems(1) a by (intro fail_frame) auto
    have r1: "entry_reqs m1 n s = map (\<lambda>r. if rq_count r = c then set_outcome FAILED (Some err) r else r)
        (entry_reqs m n s)"
      unfolding m1_def by (subst entry_reqs_set_state) (simp_all add: Cons.prems)
    have "try_counts n s cs (m1, sy1) = ms'"
      using Cons.prems(4) a Some by (simp add: Let_def e_def m1_def)
    moreover have "\<forall>r \<in> set (entry_reqs m1 n s). rq_state r \<noteq> SUCCESS \<and> (rq_state r = READY \<longrightarrow> rq_count r \<in> set cs)"
      using Cons.prems(3) by (auto simp: r1)
    ultimately show ?thesis
      using Cons.IH[OF ok1, of sy1] Cons.prems(2) pair_frame_trans[OF f] by simp
  next
    case None
    define e' where "e' = e\<lparr>allocated_count := initial_count e + c\<rparr>"
    have ms': "ms' = (set_request_state n (Some s) SUCCESS None (\<lambda>r. rq_count r \<le> c) (put_entry n s e' m), sy1)"
      using Cons.prems(4) a None by (simp add: Let_def e_def e'_def)
    have okp: "hp_ok (put_entry n s e' m)"
      unfolding e'_def e_def by (intro hp_ok_put) (auto simp: Cons.prems(1) entry_addrs_def)
    have r1: "entry_reqs (fst ms') n s = map (\<lambda>r. if rq_count r \<le> c then set_outcome SUCCESS None r else r)
        (entry_reqs m n s)"
      unfolding ms' fst_conv
      by (subst entry_reqs_set_state[OF okp]) (simp_all add: entry_reqs_put e'_def e_def)
    have "pair_frame (n, s) (m, sy) ms'"
      unfolding ms' e'_def e_def using success_frame[OF Cons.prems(1) a[unfolded e_def]] by simp
    moreover have "hp_ok (fst ms')"
      unfolding ms' e'_def e_def fst_conv by (rule hp_ok_success[OF Cons.prems(1)])
    moreover have "settled ms' n s"
    proof -
      have "rq_state r \<noteq> READY \<and> (rq_state r = SUCCESS \<longrightarrow> rq_count r \<le> c)"
        if r: "r \<in> set (entry_reqs (fst ms') n s)" for r
        using r Cons.prems(2,3) by (auto simp: r1 split: if_splits)
      moreover have "get_entry (fst ms') n s = e'" by (simp add: ms')
      moreover have "map_of (hs_count (snd ms')) (n, s) = Some (initial_count e + c)"
        using allocate_ok[of n s _ _ sy sy1] a None by (simp add: ms')
      ultimately show ?thesis by (auto simp: settled_def Let_def e'_def)
    qed
    ultimately show ?thesis by blast
  qed
qed

lemma allocate_pair_settles:
  assumes "hp_ok m" "(\<forall>r \<in> set (entry_reqs m n s). rq_state r \<noteq> SUCCESS) \<or> settled (m, sy) n s"
    "allocate_pair (m, sy) (n, s) = ms'"
  shows "hp_ok (fst ms') \<and> pair_frame (n, s) (m, sy) ms' \<and> settled ms' n s"
proof (cases "\<forall>r \<in> set (entry_reqs m n s). rq_state r \<noteq> SUCCESS")
  case True
  have "sorted_wrt (\<ge>) (ready_counts m n s)"
    by (simp add: ready_counts_def sorted_wrt_rev)
  moreover have "\<forall>r \<in> set (entry_reqs m n s). rq_state r \<noteq> SUCCESS \<and>
      (rq_state r = READY \<longrightarrow> rq_count r \<in> set (ready_counts m n s))"
    using True by (auto simp: ready_counts_def entry_reqs_def)
  ultimately show ?thesis
    using try_counts_settles[OF assms(1)] assms(3) by (simp add: allocate_pair_def)
next
  case False
  with assms(2) have st: "settled (m, sy) n s" by simp
  have none: "filter (\<lambda>r. rq_state r = READY) (map (\<lambda>a. hp_store m ! a) (entry_addrs m n s)) = []"
    using st by (auto simp: settled_def Let_def entry_reqs_def filter_empty_conv)
  have "ready_counts m n s = []"
    unfolding ready_counts_def none by simp
  with assms(1,3) st show ?thesis by (auto simp: allocate_pair_def pair_frame_refl)
qed

lemma settled_frame:
  "pair_frame p ms ms' \<Longrightarrow> (n, s) \<noteq> p \<Longrightarrow> settled ms' n s \<longleftrightarrow> settled ms n s"
  by (simp add: pair_frame_def settled_def Let_def)

definition pending_or_settled :: "hp_manager \<times> hp_sys \<Rightarrow> bool" where
  "pending_or_settled ms \<longleftrightarrow> hp_ok (fst ms) \<and> (\<forall>n s.
     (\<forall>r \<in> set (entry_reqs (fst ms) n s). rq_state r \<noteq> SUCCESS) \<or> settled ms n s)"

lemma allocate_pair_step:
  assumes "pending_or_settled ms"
  shows "pending_or_settled (allocate_pair ms p) \<and> settled (allocate_pair ms p) (fst p) (snd p) \<and>
    pair_frame p ms (allocate_pair ms p)"
proof -
  obtain m sy n s where p: "ms = (m, sy)" "p = (n, s)" by (cases ms, cases p)
  have st: "hp_ok (fst (allocate_pair ms p)) \<and> pair_frame (n, s) ms (allocate_pair ms p) \<and> settled (allocate_pair ms p) n s"
    using allocate_pair_settles[of m n s sy] assms by (simp add: p pending_or_settled_def)
  have "(\<forall>r \<in> set (entry_reqs (fst (allocate_pair ms p)) n' s'). rq_state r \<noteq> SUCCESS) \<or>
      settled (allocate_pair ms p) n' s'" for n' s'
  proof (cases "(n', s') = (n, s)")
    case False
    have "entry_reqs (fst (allocate_pair ms p)) n' s' = entry_reqs (fst ms) n' s'"
      using st False by (simp add: pair_frame_def)
    moreover have "settled (allocate_pair ms p) n' s' \<longleftrightarrow> settled ms n' s'"
      using st False by (intro settled_frame[of "(n, s)"]) simp_all
    ultimately show ?thesis using assms by (simp add: pending_or_settled_def)
  qed (use st in simp)
  with st p show ?thesis by (simp add: pending_or_settled_def)
qed

lemma allocate_pairs_settle:
  assumes "pending_or_settled ms"
  shows "pending_or_settled (foldl allocate_pair ms ps) \<and>
    (\<forall>n s. (n, s) \<in> set ps \<or> settled ms n s \<longrightarrow> settled (foldl allocate_pair ms ps) n s) \<and>
    all_requests (fst (foldl allocate_pair ms ps)) = all_requests (fst ms) \<and>
    (\<forall>n s. entry_addrs (fst (foldl allocate_pair ms ps)) n s = entry_addrs (fst ms) n s)"
  using assms
proof (induction ps arbitrary: ms)
  case (Cons p ps)
  note step = allocate_pair_step[OF Cons.prems, of p]
  have "settled (allocate_pair ms p) n s" if "(n, s) = p \<or> settled ms n s" for n s
    using step that settled_frame[of p ms "allocate_pair ms p" n s] by (metis fst_conv snd_conv)
  with Cons.IH[of "allocate_pair ms p"] step show ?case
    by (simp add: pair_frame_def)
qed simp

lemma in_all_pairs:
  assumes "entry_addrs m n s \<noteq> []"
  shows "(n, s) \<in> set (all_pairs m)"
proof -
  have "requests (get_entry m n s) \<noteq> []" using assms by (simp add: entry_addrs_def)
  then obtain sizes e where "map_of (hp_nodes m) n = Some sizes" "map_of sizes s = Some e"
    by (auto simp: get_entry_def dget_def empty_entry_def split: option.splits)
  hence "(n, sizes) \<in> set (hp_nodes m)" "(s, e) \<in> set sizes" by (auto dest: map_of_SomeD)
  thus ?thesis by (force simp: all_pairs_def)
qed

text \<open>The checks before the allocation only ever fail requests.\<close>

definition untouched :: "hp_manager \<Rightarrow> hp_manager \<Rightarrow> bool" where
  "untouched m m' \<longleftrightarrow> all_requests m' = all_requests m \<and> length (hp_store m') = length (hp_store m) \<and>
     (\<forall>n s. requests (get_entry m' n s) = requests (get_entry m n s)) \<and>
     (\<forall>a < length (hp_store m). hp_store m' ! a = hp_store m ! a \<or>
        (\<exists>err. hp_store m' ! a = set_outcome FAILED err (hp_store m ! a)))"

lemma untouched_refl: "untouched m m"
  by (simp add: untouched_def)

lemma set_outcome_twice: "\<exists>e. set_outcome st e2 (set_outcome st e1 r) = set_outcome st e r"
  by (cases e2) (auto simp: set_outcome_def)

lemma untouched_trans: "untouched m1 m2 \<Longrightarrow> untouched m2 m3 \<Longrightarrow> untouched m1 m3"
  unfolding untouched_def by (metis set_outcome_twice)

lemma untouched_fail: "untouched m (set_request_state n so FAILED err any_request m)"
  by (auto simp: untouched_def set_state_nth simp del: concat_eq_concat_iff)

lemma untouched_put: "requests e = requests (get_entry m n s) \<Longrightarrow> untouched m (put_entry n s e m)"
  by (auto simp: untouched_def)

lemma untouched_foldl: "(\<And>m x. untouched m (f m x)) \<Longrightarrow> untouched m (foldl f m xs)"
proof (induction xs arbitrary: m)
  case (Cons x xs)
  then show ?case using untouched_trans by (metis foldl_Cons)
qed (simp add: untouched_refl)

lemma untouched_preverify: "untouched m (preverify sy m)"
  unfolding preverify_def
proof (rule untouched_foldl)
  fix m n
  show "untouched m (preverify_node sy m n)"
    unfolding preverify_node_def preverify_size_def
    by (auto intro!: untouched_fail untouched_foldl untouched_refl)
qed

lemma untouched_settings: "untouched m (get_hugepage_settings sy m)"
  unfolding get_hugepage_settings_def read_setting_def
  by (rule untouched_foldl) (auto intro!: untouched_fail untouched_put split: sum.splits)

lemma untouched_addrs: "untouched m m' \<Longrightarrow> entry_addrs m' n s = entry_addrs m n s"
  by (simp add: untouched_def entry_addrs_def)

lemma untouched_ok:
  assumes "untouched m m'" "hp_ok m"
  shows "hp_ok m'"
  unfolding hp_ok_def
proof (intro allI ballI)
  fix n s a assume "a \<in> set (entry_addrs m' n s)"
  hence a: "a < length (hp_store m)" "rq_node (hp_store m ! a) = n" "rq_size (hp_store m ! a) = s"
    using hp_okD[OF assms(2)] by (simp_all add: untouched_addrs[OF assms(1)])
  moreover have "rq_node (hp_store m' ! a) = rq_node (hp_store m ! a) \<and>
      rq_size (hp_store m' ! a) = rq_size (hp_store m ! a)"
    using assms(1) a(1) by (auto simp: untouched_def)
  ultimately show "a < length (hp_store m') \<and> rq_node (hp_store m' ! a) = n \<and> rq_size (hp_store m' ! a) = s"
    using assms(1) by (simp add: untouched_def)
qed

definition waiting :: "hp_manager \<Rightarrow> bool" where
  "waiting m \<longleftrightarrow> (\<forall>r \<in> set (hp_store m). rq_state r = READY)"

lemma allocate_settles:
  assumes "hp_ok m" "waiting m"
  shows "settled (allocate m sy) n s \<and> hp_ok (fst (allocate m sy)) \<and>
    all_requests (fst (allocate m sy)) = all_requests m \<and>
    entry_addrs (fst (allocate m sy)) n s = entry_addrs m n s"
proof -
  define m' where "m' = get_hugepage_settings sy (preverify sy m)"
  have u: "untouched m m'"
    unfolding m'_def by (rule untouched_trans[OF untouched_preverify untouched_settings])
  have ok: "hp_ok m'" by (rule untouched_ok[OF u assms(1)])
  have no: "rq_state r \<noteq> SUCCESS" if r: "r \<in> set (entry_reqs m' n s)" for r n s
  proof -
    obtain a where a: "a \<in> set (entry_addrs m n s)" "r = hp_store m' ! a"
      using r by (auto simp: entry_reqs_def untouched_addrs[OF u])
    with hp_okD[OF assms(1) a(1)] u assms(2) show ?thesis by (auto simp: untouched_def waiting_def)
  qed
  hence ps: "pending_or_settled (m', sy)" using ok by (simp add: pending_or_settled_def)
  have ar: "all_requests m' = all_requests m" using u by (simp add: untouched_def)
  have "(n, s) \<in> set (all_pairs m') \<or> settled (m', sy) n s"
  proof (cases "entry_addrs m' n s = []")
    case True
    thus ?thesis by (simp add: settled_def entry_reqs_def)
  qed (use in_all_pairs in simp)
  moreover have "allocate m sy = foldl allocate_pair (m', sy) (all_pairs m')"
    by (simp add: allocate_def m'_def Let_def)
  ultimately show ?thesis
    using allocate_pairs_settle[OF ps, of "all_pairs m'"] ar
    by (auto simp: pending_or_settled_def untouched_addrs[OF u])
qed

section \<open>Reachable request tables\<close>

text \<open>The managers that calls of \<open>request_allocation\<close> build, failed calls included.\<close>

inductive requested :: "hp_manager \<Rightarrow> bool" where
  requested_new: "requested new_hp_manager"
| requested_more: "requested m \<Longrightarrow> requested (snd (request_allocation dr l rid info m))"

definition req_pair :: "hp_manager \<Rightarrow> nat \<Rightarrow> nat \<times> nat" where
  "req_pair m a = (rq_node (hp_store m ! a), rq_size (hp_store m ! a))"

definition addrs_of :: "hp_manager \<Rightarrow> nat \<Rightarrow> nat list" where
  "addrs_of m rid = dget (all_requests m) rid []"

definition tables_ok :: "hp_manager \<Rightarrow> bool" where
  "tables_ok m \<longleftrightarrow>
     (\<forall>rid a. a \<in> set (addrs_of m rid) \<longrightarrow> a < length (hp_store m)) \<and>
     (\<forall>n s rid a. map_of (requests (get_entry m n s)) rid = Some a \<longrightarrow>
        a \<in> set (addrs_of m rid) \<and> req_pair m a = (n, s)) \<and>
     (\<forall>rid a. a \<in> set (addrs_of m rid) \<longrightarrow>
        rid \<in> set (dkeys (requests (get_entry m (fst (req_pair m a)) (snd (req_pair m a)))))) \<and>
     (\<forall>n s. wf_dict (requests (get_entry m n s)))"

definition requesting :: "hp_manager \<Rightarrow> bool" where
  "requesting m \<longleftrightarrow> tables_ok m \<and> waiting m \<and> \<not> alloc_done m"

lemma tables_hp_ok: "tables_ok m \<Longrightarrow> hp_ok m"
  unfolding hp_ok_def entry_addrs_def
proof (intro allI ballI)
  fix n s a assume t: "tables_ok m" and a: "a \<in> set (map snd (requests (get_entry m n s)))"
  then obtain rid where "(rid, a) \<in> set (requests (get_entry m n s))" by auto
  moreover have "wf_dict (requests (get_entry m n s))" using t by (simp add: tables_ok_def)
  ultimately have "map_of (requests (get_entry m n s)) rid = Some a" by simp
  with t have "a \<in> set (addrs_of m rid) \<and> req_pair m a = (n, s)" by (simp add: tables_ok_def)
  with t show "a < length (hp_store m) \<and> rq_node (hp_store m ! a) = n \<and> rq_size (hp_store m ! a) = s"
    by (auto simp: tables_ok_def req_pair_def)
qed

lemma add_request_sel:
  "hp_store (add_request rid n sz s c m) = hp_store m @
     [\<lparr>rq_node = n, rq_size = s, rq_count = c, rq_error = None,
       rq_orig_size = (if s \<noteq> sz then Some sz else None), rq_state = READY\<rparr>]"
  "addrs_of (add_request rid n sz s c m) rid' =
     (if rid' = rid then addrs_of m rid @ [length (hp_store m)] else addrs_of m rid')"
  "get_entry (add_request rid n sz s c m) n' s' =
     (if n' = n \<and> s' = s then (get_entry m n s)\<lparr>requests := dset rid (length (hp_store m)) (requests (get_entry m n s))\<rparr>
      else get_entry m n' s')"
  "alloc_done (add_request rid n sz s c m) = alloc_done m"
  "hp_avail (add_request rid n sz s c m) = hp_avail m"
  by (auto simp: add_request_def Let_def addrs_of_def dget_def get_entry_def put_entry_def)

lemma requesting_add:
  assumes "requesting m"
  shows "requesting (add_request rid n sz s c m)"
proof -
  let ?m = "add_request rid n sz s c m"
  have t: "tables_ok m" using assms by (simp add: requesting_def)
  have old: "req_pair ?m a = req_pair m a" if "a < length (hp_store m)" for a
    using that by (simp add: req_pair_def add_request_sel nth_append)
  have new: "req_pair ?m (length (hp_store m)) = (n, s)"
    by (simp add: req_pair_def add_request_sel)
  have lt: "a < length (hp_store m)" if "a \<in> set (addrs_of m rid')" for a rid'
    using t that by (auto simp: tables_ok_def)
  have 1: "a < length (hp_store ?m)" if "a \<in> set (addrs_of ?m rid')" for a rid'
    using that lt by (auto simp: add_request_sel split: if_splits intro: less_SucI)
  have 2: "a \<in> set (addrs_of ?m rid') \<and> req_pair ?m a = (n', s')"
    if "map_of (requests (get_entry ?m n' s')) rid' = Some a" for n' s' rid' a
  proof (cases "a = length (hp_store m) \<and> rid' = rid \<and> n' = n \<and> s' = s")
    case True
    thus ?thesis by (simp add: add_request_sel new)
  next
    case False
    hence "map_of (requests (get_entry m n' s')) rid' = Some a"
      using that by (auto simp: add_request_sel split: if_splits)
    hence "a \<in> set (addrs_of m rid')" "req_pair m a = (n', s')" using t by (auto simp: tables_ok_def)
    with lt old show ?thesis by (auto simp: add_request_sel)
  qed
  have 3: "rid' \<in> set (dkeys (requests (get_entry ?m (fst (req_pair ?m a)) (snd (req_pair ?m a)))))"
    if "a \<in> set (addrs_of ?m rid')" for rid' a
  proof (cases "a \<in> set (addrs_of m rid')")
    case True
    hence "rid' \<in> set (dkeys (requests (get_entry m (fst (req_pair m a)) (snd (req_pair m a)))))"
      using t by (auto simp: tables_ok_def)
    thus ?thesis unfolding old[OF lt[OF True]] by (auto simp: add_request_sel)
  next
    case False
    hence "rid' = rid" "a = length (hp_store m)" using that by (auto simp: add_request_sel split: if_splits)
    thus ?thesis by (simp add: new add_request_sel)
  qed
  have 4: "wf_dict (requests (get_entry ?m n' s'))" for n' s'
    using t by (auto simp: tables_ok_def add_request_sel)
  have "tables_ok ?m" unfolding tables_ok_def using 1 2 3 4 by blast
  with assms show ?thesis by (simp add: requesting_def waiting_def add_request_sel)
qed

lemma requesting_node: "requesting m \<Longrightarrow> n \<notin> set (dkeys (hp_nodes m)) \<Longrightarrow>
    requesting (m\<lparr>hp_nodes := dset n [] (hp_nodes m)\<rparr>)"
proof -
  assume "n \<notin> set (dkeys (hp_nodes m))"
  hence "map_of (hp_nodes m) n = None" by (simp add: map_of_eq_None_iff)
  hence "get_entry (m\<lparr>hp_nodes := dset n [] (hp_nodes m)\<rparr>) n' s' = get_entry m n' s'" for n' s'
    by (simp add: get_entry_def dget_def)
  moreover assume "requesting m"
  ultimately show ?thesis by (simp add: requesting_def tables_ok_def waiting_def req_pair_def addrs_of_def)
qed

lemma requesting_sizes: "requesting m \<Longrightarrow> requesting (snd (request_sizes dr rid n sizes m))"
  by (induction dr rid n sizes m rule: request_sizes.induct)
     (auto simp: requesting_add split: sum.splits)

lemma requesting_nodes: "requesting m \<Longrightarrow> requesting (snd (request_nodes dr rid info m))"
proof (induction dr rid info m rule: request_nodes.induct)
  case (2 dr rid n sizes rest m)
  let ?m1 = "if n \<in> set (dkeys (hp_nodes m)) then m else m\<lparr>hp_nodes := dset n [] (hp_nodes m)\<rparr>"
  have r1: "requesting ?m1" using 2(2) requesting_node by simp
  obtain x m2 where x: "request_sizes dr rid n sizes ?m1 = (x, m2)" by fastforce
  with requesting_sizes[OF r1, of dr rid n sizes] have r2: "requesting m2" by simp
  show ?case
  proof (cases x)
    case None
    with 2(1)[OF refl, of x m2] r2 x show ?thesis by (simp add: Let_def)
  next
    case (Some e)
    with x r2 show ?thesis by (simp add: Let_def)
  qed
qed simp

lemma requested_requesting: "requested m \<Longrightarrow> requesting m"
proof (induction rule: requested.induct)
  case requested_new
  show ?case
    by (simp add: requesting_def tables_ok_def new_hp_manager_def addrs_of_def waiting_def
        get_entry_def empty_entry_def)
next
  case (requested_more m dr l rid info)
  have "requesting (get_available_page_sizes l m)"
    using requested_more.IH
    by (simp add: get_available_page_sizes_def requesting_def tables_ok_def waiting_def
        addrs_of_def req_pair_def get_entry_def)
  from requesting_nodes[OF this] this show ?case
    by (simp add: request_allocation_def update_alloc_status_def)
qed

section \<open>The life of the manager\<close>

definition same_tables :: "hp_manager \<Rightarrow> hp_manager \<Rightarrow> bool" where
  "same_tables m m' \<longleftrightarrow> all_requests m' = all_requests m \<and> length (hp_store m') = length (hp_store m) \<and>
     (\<forall>n s. requests (get_entry m' n s) = requests (get_entry m n s)) \<and>
     (\<forall>a < length (hp_store m). req_pair m' a = req_pair m a)"

lemma same_tables_refl: "same_tables m m"
  by (simp add: same_tables_def)

lemma same_tables_trans: "same_tables a b \<Longrightarrow> same_tables b c \<Longrightarrow> same_tables a c"
  by (simp add: same_tables_def)

lemma same_tables_put: "requests e = requests (get_entry m n s) \<Longrightarrow> same_tables m (put_entry n s e m)"
  by (simp add: same_tables_def req_pair_def)

lemma same_tables_set_state: "oblivious flt \<Longrightarrow> same_tables m (set_request_state n so st err flt m)"
  by (simp add: same_tables_def req_pair_def set_state_nth)

lemma same_tables_untouched: "untouched m m' \<Longrightarrow> same_tables m m'"
  by (auto simp: same_tables_def untouched_def req_pair_def)

lemma same_tables_try: "same_tables m (fst (try_counts n s cs (m, sy)))"
proof (induction cs arbitrary: m sy)
  case (Cons c cs)
  obtain x sy1 where a: "allocate_huge_page n s (initial_count (get_entry m n s)) c sy = (x, sy1)" by fastforce
  show ?case
  proof (cases x)
    case None
    with a show ?thesis
      by (auto simp: Let_def intro!: same_tables_trans[OF same_tables_put same_tables_set_state])
  next
    case (Some err)
    with a Cons.IH same_tables_trans[OF same_tables_set_state Cons.IH] show ?thesis
      by (simp add: Let_def)
  qed
qed (simp add: same_tables_refl)

lemma same_tables_pairs: "same_tables (fst ms) (fst (foldl allocate_pair ms ps))"
proof (induction ps arbitrary: ms)
  case (Cons p ps)
  have "same_tables (fst ms) (fst (allocate_pair ms p))"
    using same_tables_try[of "fst ms" _ _ _ "snd ms"] by (cases p) (simp add: allocate_pair_def)
  from same_tables_trans[OF this Cons.IH] show ?case by simp
qed (simp add: same_tables_refl)

lemma same_tables_allocate: "same_tables m (fst (allocate m sy))"
proof -
  have "same_tables m (get_hugepage_settings sy (preverify sy m))"
    by (rule same_tables_untouched[OF untouched_trans[OF untouched_preverify untouched_settings]])
  moreover have "same_tables (get_hugepage_settings sy (preverify sy m)) (fst (allocate m sy))"
    using same_tables_pairs[of "(get_hugepage_settings sy (preverify sy m), sy)"]
    by (simp add: allocate_def Let_def)
  ultimately show ?thesis by (rule same_tables_trans)
qed

text \<open>No requestor has two requests that ended up on the same node and size.\<close>

definition no_collision :: "hp_manager \<Rightarrow> bool" where
  "no_collision m \<longleftrightarrow> (\<forall>rid. distinct (map (req_pair m) (addrs_of m rid)))"

lemma same_tables_addrs: "same_tables m m' \<Longrightarrow> addrs_of m' rid = addrs_of m rid"
  by (simp add: same_tables_def addrs_of_def)

lemma same_tables_ok:
  assumes s: "same_tables m m'" and t: "tables_ok m"
  shows "tables_ok m'"
proof -
  have p: "req_pair m' a = req_pair m a" if "a \<in> set (addrs_of m rid)" for a rid
    using s t that by (auto simp: tables_ok_def same_tables_def)
  have r: "requests (get_entry m' n k) = requests (get_entry m n k)" for n k
    using s by (simp add: same_tables_def)
  have l: "length (hp_store m') = length (hp_store m)" using s by (simp add: same_tables_def)
  show ?thesis
    unfolding tables_ok_def same_tables_addrs[OF s] r l
  proof (intro conjI allI impI)
    fix n k rid a assume "map_of (requests (get_entry m n k)) rid = Some a"
    with t have "a \<in> set (addrs_of m rid) \<and> req_pair m a = (n, k)" by (simp add: tables_ok_def)
    thus "a \<in> set (addrs_of m rid)" "req_pair m' a = (n, k)" by (auto simp: p)
  next
    fix rid a assume "a \<in> set (addrs_of m rid)"
    with t show "a < length (hp_store m)"
      "rid \<in> set (dkeys (requests (get_entry m (fst (req_pair m' a)) (snd (req_pair m' a)))))"
      by (simp_all add: p tables_ok_def)
  qed (use t in \<open>simp add: tables_ok_def\<close>)
qed

lemma same_tables_no_collision:
  assumes s: "same_tables m m'" and t: "tables_ok m" and c: "no_collision m"
  shows "no_collision m'"
proof -
  have p: "req_pair m' a = req_pair m a" if "a \<in> set (addrs_of m rid)" for a rid
    using s t that by (auto simp: tables_ok_def same_tables_def)
  have "map (req_pair m') (addrs_of m rid) = map (req_pair m) (addrs_of m rid)" for rid
    by (rule map_cong) (simp_all add: p)
  with c show ?thesis unfolding no_collision_def same_tables_addrs[OF s] by (metis (no_types))
qed

lemma registered_entry:
  assumes "tables_ok m" "no_collision m" "a \<in> set (addrs_of m rid)" "req_pair m a = (n, s)"
  shows "map_of (requests (get_entry m n s)) rid = Some a"
proof -
  have "rid \<in> set (dkeys (requests (get_entry m n s)))"
    using assms(1,3,4) by (metis tables_ok_def fst_conv snd_conv)
  then obtain b where b: "map_of (requests (get_entry m n s)) rid = Some b"
    using map_of_in_keys by fastforce
  with assms(1) have "b \<in> set (addrs_of m rid)" "req_pair m b = (n, s)"
    by (auto simp: tables_ok_def)
  moreover have "inj_on (req_pair m) (set (addrs_of m rid))"
    using assms(2) by (simp add: no_collision_def distinct_map)
  ultimately have "b = a" using assms(3,4) inj_onD[of "req_pair m" _ b a] by metis
  with b show ?thesis by simp
qed

lemma release_loop_effect:
  assumes "distinct (map (req_pair m) as)"
    "\<forall>a \<in> set as. rid \<in> set (dkeys (requests (get_entry m (fst (req_pair m a)) (snd (req_pair m a)))))"
    "release_loop rid as m sy = (r, m', sy')"
  shows "r = None \<and> hp_store m' = hp_store m \<and> all_requests m' = all_requests m \<and> alloc_done m' = alloc_done m \<and>
    (\<forall>n s. get_entry m' n s = (if (n, s) \<in> req_pair m ` set as
       then (get_entry m n s)\<lparr>requests := ddel rid (requests (get_entry m n s))\<rparr> else get_entry m n s)) \<and>
    (\<forall>n s. map_of (hs_count sy') (n, s) =
       (let e = get_entry m n s in
        if (n, s) \<in> req_pair m ` set as \<and> ddel rid (requests e) = [] \<and> initial_count e < allocated_count e
        then map_of (hs_count (snd (write_hugepage_info n s (initial_count e) sy))) (n, s)
        else map_of (hs_count sy) (n, s)))"
  using assms
proof (induction as arbitrary: m sy)
  case (Cons a as)
  obtain n s where p: "req_pair m a = (n, s)" by fastforce
  hence ns: "rq_node (hp_store m ! a) = n" "rq_size (hp_store m ! a) = s" by (auto simp: req_pair_def)
  define e where "e = get_entry m n s"
  define e' where "e' = e\<lparr>requests := ddel rid (requests e)\<rparr>"
  define m1 where "m1 = put_entry n s e' m"
  define sy1 where "sy1 = (if requests e' = [] \<and> allocated_count e' > initial_count e'
    then snd (write_hugepage_info n s (initial_count e') sy) else sy)"
  have rid: "rid \<in> set (dkeys (requests e))" using Cons.prems(2) p by (simp add: e_def)
  hence rl: "release_loop rid as m1 sy1 = (r, m', sy')"
    using Cons.prems(3) unfolding release_loop.simps Let_def ns e_def[symmetric] e'_def[symmetric]
      m1_def[symmetric] sy1_def[symmetric] by simp
  have rp: "req_pair m1 = req_pair m" by (simp add: m1_def req_pair_def fun_eq_iff)
  have fresh: "(n, s) \<notin> req_pair m ` set as" using Cons.prems(1) p by auto
  have g1: "get_entry m1 n' s' = (if n' = n \<and> s' = s then e' else get_entry m n' s')" for n' s'
    by (simp add: m1_def)
  have d1: "distinct (map (req_pair m1) as)" using Cons.prems(1) by (simp add: rp)
  have k1: "\<forall>b \<in> set as. rid \<in> set (dkeys (requests (get_entry m1 (fst (req_pair m1 b)) (snd (req_pair m1 b)))))"
  proof
    fix b assume b: "b \<in> set as"
    hence "req_pair m b \<noteq> (n, s)" using fresh by (metis image_eqI)
    thus "rid \<in> set (dkeys (requests (get_entry m1 (fst (req_pair m1 b)) (snd (req_pair m1 b)))))"
      using Cons.prems(2) b by (auto simp: rp g1 prod_eq_iff)
  qed
  have sy1: "map_of (hs_count sy1) (n', s') = map_of (hs_count sy) (n', s')" if "(n', s') \<noteq> (n, s)" for n' s'
    using write_other[of n s "initial_count e'" sy _ _ n' s'] that
    by (cases "write_hugepage_info n s (initial_count e') sy") (auto simp: sy1_def)
  have w1: "map_of (hs_count (snd (write_hugepage_info n' s' c sy1))) (n', s') =
      map_of (hs_count (snd (write_hugepage_info n' s' c sy))) (n', s')" if "(n', s') \<noteq> (n, s)" for n' s' c
  proof -
    have "hs_write_ok sy1 = hs_write_ok sy" "hs_grant sy1 = hs_grant sy"
      by (auto simp: sy1_def write_hugepage_info_def split: option.splits)
    with sy1[OF that] show ?thesis by (simp add: write_hugepage_info_def split: option.splits)
  qed
  note IH = Cons.IH[OF d1 k1 rl]
  have ent: "get_entry m' n' s' = (if (n', s') \<in> req_pair m ` set (a # as)
       then (get_entry m n' s')\<lparr>requests := ddel rid (requests (get_entry m n' s'))\<rparr> else get_entry m n' s')" for n' s'
    using IH fresh p by (auto simp: rp g1 e'_def e_def)
  have cnt: "map_of (hs_count sy') (n', s') = (let e = get_entry m n' s' in
        if (n', s') \<in> req_pair m ` set (a # as) \<and> ddel rid (requests e) = [] \<and> initial_count e < allocated_count e
        then map_of (hs_count (snd (write_hugepage_info n' s' (initial_count e) sy))) (n', s')
        else map_of (hs_count sy) (n', s'))" for n' s'
  proof (cases "(n', s') = (n, s)")
    case True
    have "map_of (hs_count sy') (n, s) = map_of (hs_count sy1) (n, s)"
      using IH fresh by (simp add: rp Let_def)
    with True p show ?thesis by (auto simp: sy1_def Let_def e'_def e_def)
  next
    case False
    hence "get_entry m1 n' s' = get_entry m n' s'" "(n', s') \<in> req_pair m ` set (a # as) \<longleftrightarrow> (n', s') \<in> req_pair m ` set as"
      using p by (auto simp: g1)
    with IH False show ?thesis by (simp add: rp Let_def w1 sy1)
  qed
  from IH ent cnt show ?case by (simp add: m1_def)
qed simp

lemma release_pages_effect:
  assumes t: "tables_ok m" and c: "no_collision m" and d: "alloc_done m"
    and k: "rid \<in> set (dkeys (all_requests m))"
    and rel: "release_pages rid m sy = (r, m', sy')"
  shows "r = None \<and> hp_store m' = hp_store m \<and> alloc_done m' \<and>
    all_requests m' = ddel rid (all_requests m) \<and>
    (\<forall>n s. get_entry m' n s = (get_entry m n s)\<lparr>requests := ddel rid (requests (get_entry m n s))\<rparr>) \<and>
    (\<forall>n s. map_of (hs_count sy') (n, s) =
       (let e = get_entry m n s in
        if rid \<in> set (dkeys (requests e)) \<and> ddel rid (requests e) = [] \<and> initial_count e < allocated_count e
        then map_of (hs_count (snd (write_hugepage_info n s (initial_count e) sy))) (n, s)
        else map_of (hs_count sy) (n, s)))"
proof -
  obtain as where as: "map_of (all_requests m) rid = Some as" using map_of_in_keys k by fastforce
  hence ad: "addrs_of m rid = as" by (simp add: addrs_of_def dget_def)
  obtain r1 m1 where rl: "release_loop rid as m sy = (r1, m1, sy')"
    using rel d as by (auto split: prod.splits option.splits simp: release_pages_def)
  have dis: "distinct (map (req_pair m) as)" using c ad by (auto simp: no_collision_def)
  have reg: "\<forall>a \<in> set as. rid \<in> set (dkeys (requests (get_entry m (fst (req_pair m a)) (snd (req_pair m a)))))"
    using t ad by (auto simp: tables_ok_def)
  have img: "(n, s) \<in> req_pair m ` set as \<longleftrightarrow> rid \<in> set (dkeys (requests (get_entry m n s)))" for n s
  proof
    assume "(n, s) \<in> req_pair m ` set as"
    then obtain a where "a \<in> set as" "req_pair m a = (n, s)" by auto
    with reg show "rid \<in> set (dkeys (requests (get_entry m n s)))" by (metis fst_conv snd_conv)
  next
    assume "rid \<in> set (dkeys (requests (get_entry m n s)))"
    then obtain a where "map_of (requests (get_entry m n s)) rid = Some a" using map_of_in_keys by fastforce
    hence "a \<in> set as \<and> req_pair m a = (n, s)" using t ad by (auto simp: tables_ok_def)
    thus "(n, s) \<in> req_pair m ` set as" by force
  qed
  have nop: "(get_entry m n s)\<lparr>requests := ddel rid (requests (get_entry m n s))\<rparr> = get_entry m n s"
    if "rid \<notin> set (dkeys (requests (get_entry m n s)))" for n s
    using that by (simp add: ddel_new)
  note eff = release_loop_effect[OF dis reg rl, unfolded img]
  hence rm: "r = None" "m' = m1\<lparr>all_requests := ddel rid (all_requests m1)\<rparr>"
    using rel d as rl by (auto simp: release_pages_def)
  have ge: "get_entry m' n s = get_entry m1 n s" for n s by (simp add: rm get_entry_def)
  show ?thesis
    using eff d nop unfolding ge by (simp add: rm(1) rm(2))
qed

text \<open>
  States of the manager and the kernel that the interface can reach, when no two requests of one
  requestor end up on the same node and size.  Others may change the kernel's counters at any
  time.
\<close>

inductive hp_reach :: "hp_manager \<Rightarrow> hp_sys \<Rightarrow> bool" where
  reach_start: "requested m \<Longrightarrow> no_collision m \<Longrightarrow> hp_reach m sy"
| reach_acquire: "hp_reach m sy \<Longrightarrow> acquire rid m sy = (r, m', sy') \<Longrightarrow> hp_reach m' sy'"
| reach_release: "hp_reach m sy \<Longrightarrow> release_pages rid m sy = (r, m', sy') \<Longrightarrow> hp_reach m' sy'"
| reach_kernel: "hp_reach m sy \<Longrightarrow> hp_reach m sy'"

lemma acquire_manager:
  "acquire rid m sy = (r, m', sy') \<Longrightarrow>
   (m', sy') = (if alloc_done m then (m, sy) else ((fst (allocate m sy))\<lparr>alloc_done := True\<rparr>, snd (allocate m sy)))"
  by (auto simp: acquire_def Let_def split: prod.splits option.splits list.splits if_splits)

lemma same_tables_done: "same_tables m m' \<Longrightarrow> same_tables m (m'\<lparr>alloc_done := b\<rparr>)"
  by (simp add: same_tables_def get_entry_def req_pair_def)

lemma acquire_same_tables: "acquire rid m sy = (r, m', sy') \<Longrightarrow> same_tables m m'"
  using acquire_manager[of rid m sy r m' sy'] same_tables_done[OF same_tables_allocate[of m sy], of True]
  by (auto simp: same_tables_refl split: if_splits)

lemma release_tables:
  assumes t: "tables_ok m" and c: "no_collision m" and rel: "release_pages rid m sy = (r, m', sy')"
  shows "tables_ok m' \<and> no_collision m' \<and> alloc_done m' = alloc_done m \<and> (hp_store m' = hp_store m)"
proof (cases "alloc_done m \<and> rid \<in> set (dkeys (all_requests m))")
  case False
  hence "m' = m"
    using rel by (auto simp: release_pages_def split: option.splits prod.splits if_splits dest: map_of_SomeD)
      (force dest: map_of_SomeD)+
  with t c show ?thesis by simp
next
  case True
  have e: "hp_store m' = hp_store m" "alloc_done m'" "all_requests m' = ddel rid (all_requests m)"
      "\<And>n s. requests (get_entry m' n s) = ddel rid (requests (get_entry m n s))"
    using release_pages_effect[OF t c _ _ rel] True by auto
  have ad: "addrs_of m' q = (if q = rid then [] else addrs_of m q)" for q
    by (simp add: addrs_of_def e dget_def)
  have rp: "req_pair m' = req_pair m" by (simp add: req_pair_def e fun_eq_iff)
  have "tables_ok m'"
    using t unfolding tables_ok_def ad rp e by auto
  moreover have "no_collision m'" using c by (simp add: no_collision_def ad rp)
  ultimately show ?thesis using True e by simp
qed

lemma hp_reach_tables:
  "hp_reach m sy \<Longrightarrow> tables_ok m \<and> no_collision m \<and> (\<not> alloc_done m \<longrightarrow> waiting m)"
proof (induction rule: hp_reach.induct)
  case (reach_start m sy)
  with requested_requesting[of m] show ?case by (simp add: requesting_def)
next
  case (reach_acquire m sy rid r m' sy')
  have s: "same_tables m m'" by (rule acquire_same_tables[OF reach_acquire.hyps(2)])
  have "alloc_done m'" using acquire_manager[OF reach_acquire.hyps(2)] by (auto split: if_splits)
  with same_tables_ok[OF s] same_tables_no_collision[OF s] reach_acquire.IH show ?case by simp
next
  case (reach_release m sy rid r m' sy')
  with release_tables[of m rid sy r m' sy'] show ?case by (simp add: waiting_def)
qed simp

section \<open>Properties\<close>

lemma find_fallback_Some:
  assumes "find_fallback valid n s c as = Inr (Some f)"
  shows "f \<in> set as \<and> f < s \<and> f dvd s \<and> valid n f (c * (s div f)) = Inr True \<and>
    (sorted_wrt (\<ge>) as \<longrightarrow> (\<forall>t \<in> set as. f < t \<and> t < s \<and> t dvd s \<longrightarrow> valid n t (c * (s div t)) = Inr False))"
  using assms
proof (induction as)
  case (Cons a as)
  show ?case
  proof (cases "a < s \<and> s mod a = 0")
    case False
    hence "find_fallback valid n s c as = Inr (Some f)" using Cons.prems by (simp split: if_splits)
    note IH = Cons.IH[OF this]
    have "valid n t (c * (s div t)) = Inr False"
      if "sorted_wrt (\<ge>) (a # as)" "t \<in> set (a # as)" "f < t" "t < s" "t dvd s" for t
      using that IH False by (auto simp: mod_eq_0_iff_dvd)
    with IH show ?thesis by simp
  next
    case True
    hence nz: "a \<noteq> 0" by auto
    show ?thesis
    proof (cases "valid n a (c * (s div a)) = Inr True")
      case v: True
      hence "f = a" using Cons.prems True nz by simp
      with v True show ?thesis by (auto simp: mod_eq_0_iff_dvd)
    next
      case v: False
      hence vf: "valid n a (c * (s div a)) = Inr False"
        using Cons.prems True nz by (simp split: sum.splits bool.splits)
      hence "find_fallback valid n s c as = Inr (Some f)" using Cons.prems True nz by simp
      note IH = Cons.IH[OF this]
      have "valid n t (c * (s div t)) = Inr False"
        if "sorted_wrt (\<ge>) (a # as)" "t \<in> set (a # as)" "f < t" "t < s" "t dvd s" for t
        using that IH vf by auto
      with IH show ?thesis by simp
    qed
  qed
qed simp

text \<open>
  C3.  A page size that the resolver chooses is one the node offers and that passes the
  validity check, it divides the requested size and never exceeds it, the total memory
  stays exactly what was requested, and with sizes listed largest first every better
  candidate was refused.
\<close>

theorem adjust_size_sound:
  assumes "adjust_size dr avail valid n s c = Inr (s', c')"
  shows "s' \<in> set (dget avail n []) \<and> valid n s' c' = Inr True \<and> s' dvd s \<and> s' \<le> s \<and>
    s' * c' = s * c \<and> (dr \<longrightarrow> s' = s) \<and>
    (sorted_wrt (\<ge>) (dget avail n []) \<longrightarrow>
      (\<forall>t \<in> set (dget avail n []). s' < t \<and> t \<le> s \<and> t dvd s \<longrightarrow> valid n t (c * (s div t)) = Inr False))"
proof (cases "s \<in> set (dget avail n []) \<and> valid n s c = Inr True")
  case True
  with assms have "s' = s" "c' = c" by (simp_all add: adjust_size_def)
  with True show ?thesis by auto
next
  case False
  hence no: "s \<in> set (dget avail n []) \<longrightarrow> valid n s c = Inr False"
    using assms by (auto simp: adjust_size_def Let_def split: sum.splits bool.splits)
  hence "(if s \<in> set (dget avail n []) then valid n s c else Inr False) = Inr False" by simp
  then obtain f where f: "find_fallback valid n s c (dget avail n []) = Inr (Some f)" "\<not> dr"
      "s' = f" "c' = c * (s div f)"
    using assms by (simp add: adjust_size_def Let_def split: sum.splits option.splits if_splits)
  note ff = find_fallback_Some[OF f(1)]
  have "f * (c * (s div f)) = s * c" using ff by (metis dvd_mult_div_cancel mult.left_commute mult.commute)
  moreover have "valid n t (c * (s div t)) = Inr False"
    if "sorted_wrt (\<ge>) (dget avail n [])" "t \<in> set (dget avail n [])" "f < t" "t \<le> s" "t dvd s" for t
  proof (cases "t = s")
    case True
    with no that show ?thesis by (cases "s = 0") auto
  next
    case False
    with ff that show ?thesis by auto
  qed
  ultimately show ?thesis using ff f by auto
qed

theorem adjust_size_sound_witness:
  "6 * (4::nat) = 12 * 2 \<and> has_enough_free_pages (\<lambda>_ k. Some (if k = 6 then 5 else 0)) 0 8 3 = Inr False"
proof -
  have "adjust_size False [(0::nat, [12, 6, 4::nat])]
      (has_enough_free_pages (\<lambda>_ k. Some (if k = 6 then 5 else 0))) 0 12 2 = Inr (6, 4)"
    by (simp add: adjust_size_def has_enough_free_pages_def)
  from adjust_size_sound[OF this] show ?thesis by (simp add: has_enough_free_pages_def)
qed

lemma find_fallback_always:
  "0 \<notin> set as \<Longrightarrow> find_fallback always_valid n s c as =
     Inr (find (\<lambda>a. a < s \<and> a dvd s) as)"
  by (induction as) (auto simp: always_valid_def dvd_eq_mod_eq_0)

text \<open>
  Without a look at the free pages, resizing fails exactly when the requested size is
  not offered and either resizing is switched off or no smaller size divides it; the error
  says whether the node offers any huge pages at all.
\<close>

theorem adjust_to_available_size_error:
  assumes "0 \<notin> set (dget avail n [])"
  shows "(s \<notin> set (dget avail n []) \<and> (dr \<or> (\<forall>t \<in> set (dget avail n []). t < s \<longrightarrow> \<not> t dvd s)))
    \<longleftrightarrow> adjust_to_available_size dr avail n s c = Inl (MemoryErr (Some
      (if dget avail n [] = [] then NotEnabled n else NoSuitableSize n s (dget avail n []))))"
proof -
  have eq: "adjust_to_available_size dr avail n s c =
     (if s \<in> set (dget avail n []) then Inr (s, c)
      else (case (if dr then None else find (\<lambda>a. a < s \<and> a dvd s) (dget avail n [])) of
          None \<Rightarrow> Inl (MemoryErr (Some (if dget avail n [] = [] then NotEnabled n else NoSuitableSize n s (dget avail n []))))
        | Some f \<Rightarrow> Inr (f, c * (s div f))))"
    by (simp add: adjust_to_available_size_def adjust_size_def Let_def find_fallback_always[OF assms]
        always_valid_def split: option.splits)
  show ?thesis
    unfolding eq by (auto simp: find_None_iff split: option.splits) (metis find_Some_iff nth_mem)
qed

theorem adjust_to_available_size_error_witness:
  "adjust_to_available_size False [(0, [4, 3])] 0 7 1 = Inl (MemoryErr (Some (NoSuitableSize 0 7 [4, 3])))"
  using adjust_to_available_size_error[of "[(0, [4, 3])]" 0 7 False 1] by (simp add: dvd_eq_mod_eq_0)


text \<open>After the allocation no request is undecided, and the kernel has what was granted.\<close>

lemma allocated_requests:
  assumes "tables_ok m" "no_collision m" "waiting m" "allocate m sy = (ma, sa)" "a \<in> set (addrs_of m rid)"
  shows "rq_state (hp_store ma ! a) \<noteq> READY \<and>
      (rq_state (hp_store ma ! a) = SUCCESS \<longrightarrow>
        (\<exists>k. map_of (hs_count sa) (req_pair m a) = Some k \<and>
          initial_count (get_entry ma (fst (req_pair m a)) (snd (req_pair m a))) + rq_count (hp_store ma ! a) \<le> k))"
proof -
  have st: "settled (ma, sa) n s" "entry_addrs ma n s = entry_addrs m n s" for n s
    using allocate_settles[OF tables_hp_ok[OF assms(1)] assms(3), of sy n s] assms(4) by simp_all
  obtain n s where p: "req_pair m a = (n, s)" by fastforce
  have "map_of (requests (get_entry m n s)) rid = Some a"
    using registered_entry[OF assms(1,2) assms(5) p] .
  hence "a \<in> set (entry_addrs m n s)" by (force simp: entry_addrs_def dest: map_of_SomeD)
  hence "a \<in> set (entry_addrs ma n s)" by (simp only: st(2))
  hence "hp_store ma ! a \<in> set (entry_reqs ma n s)" by (simp add: entry_reqs_def)
  with st(1)[of n s] p show ?thesis by (auto simp: settled_def Let_def)
qed

lemma acquire_requests [simp]: "addrs_of (m\<lparr>alloc_done := b\<rparr>) rid = addrs_of m rid"
  by (simp add: addrs_of_def)

lemma hp_reach_decided:
  "hp_reach m sy \<Longrightarrow> alloc_done m \<Longrightarrow> a \<in> set (addrs_of m rid) \<Longrightarrow> rq_state (hp_store m ! a) \<noteq> READY"
proof (induction arbitrary: a rid rule: hp_reach.induct)
  case (reach_start m sy)
  with requested_requesting[of m] show ?case by (simp add: requesting_def)
next
  case (reach_acquire m sy q r m' sy')
  note am = acquire_manager[OF reach_acquire.hyps(2)]
  show ?case
  proof (cases "alloc_done m")
    case True
    with am reach_acquire show ?thesis by simp
  next
    case False
    obtain ma sa where al: "allocate m sy = (ma, sa)" by fastforce
    have "a \<in> set (addrs_of m rid)"
      using reach_acquire.prems(2) same_tables_addrs[OF acquire_same_tables[OF reach_acquire.hyps(2)]] by simp
    moreover have "tables_ok m" "no_collision m" "waiting m" using hp_reach_tables[OF reach_acquire.hyps(1)] False by auto
    ultimately have "rq_state (hp_store ma ! a) \<noteq> READY" using allocated_requests[OF _ _ _ al] by blast
    then show ?thesis using am False al by simp
  qed
next
  case (reach_release m sy q r m' sy')
  have t: "tables_ok m" "no_collision m" using hp_reach_tables[OF reach_release.hyps(1)] by auto
  note rt = release_tables[OF t reach_release.hyps(2)]
  have "a \<in> set (addrs_of m rid)"
  proof (cases "q \<in> set (dkeys (all_requests m))")
    case True
    with release_pages_effect[OF t _ True reach_release.hyps(2)] rt reach_release.prems
    have "all_requests m' = ddel q (all_requests m)" by simp
    with reach_release.prems(2) show ?thesis by (auto simp: addrs_of_def dget_def split: if_splits)
  next
    case False
    then have "m' = m" using reach_release.hyps(2)
      by (auto simp: release_pages_def split: option.splits prod.splits if_splits dest: map_of_SomeD)
        (force dest: map_of_SomeD)+
    with reach_release.prems(2) show ?thesis by simp
  qed
  with rt reach_release show ?case by simp
next
  case (reach_kernel m sy sy')
  then show ?case by simp
qed

text \<open>Where every request is decided, the caller gets the error of its first failed one, or none.\<close>

lemma acquire_answers:
  assumes "acquire rid m sy = (r, m', sy')" "rid \<in> set (dkeys (all_requests m'))"
    "\<forall>a \<in> set (addrs_of m' rid). rq_state (hp_store m' ! a) \<noteq> READY"
  shows "(r = None \<longleftrightarrow> (\<forall>a \<in> set (addrs_of m' rid). rq_state (hp_store m' ! a) = SUCCESS)) \<and>
    (r \<noteq> None \<longrightarrow> (\<exists>a \<in> set (addrs_of m' rid). rq_state (hp_store m' ! a) = FAILED \<and>
        r = Some (MemoryErr (rq_error (hp_store m' ! a)))))"
proof -
  obtain as where as: "map_of (all_requests m') rid = Some as" using map_of_in_keys assms(2) by fastforce
  hence ad: "addrs_of m' rid = as" by (simp add: addrs_of_def dget_def)
  have acq: "r = (if list_all (\<lambda>r. rq_state r = SUCCESS) (map (\<lambda>a. hp_store m' ! a) as) then None
      else (case filter (\<lambda>r. rq_state r = FAILED) (map (\<lambda>a. hp_store m' ! a) as) of
          [] \<Rightarrow> None | r # _ \<Rightarrow> Some (MemoryErr (rq_error r))))"
    using assms(1) as by (auto simp: acquire_def Let_def split: list.splits if_splits prod.splits option.splits)
  show ?thesis
  proof (cases "\<forall>a \<in> set as. rq_state (hp_store m' ! a) = SUCCESS")
    case True
    hence "r = None" using acq by (simp add: list_all_iff)
    with True show ?thesis by (simp add: ad)
  next
    case False
    then obtain b where b: "b \<in> set as" "rq_state (hp_store m' ! b) \<noteq> SUCCESS" by auto
    with assms(3) have "rq_state (hp_store m' ! b) = FAILED"
      unfolding ad by (cases "rq_state (hp_store m' ! b)") auto
    then obtain x xs where x: "filter (\<lambda>r. rq_state r = FAILED) (map (\<lambda>a. hp_store m' ! a) as) = x # xs"
      using b(1) by (cases "filter (\<lambda>r. rq_state r = FAILED) (map (\<lambda>a. hp_store m' ! a) as)")
        (auto simp: filter_empty_conv)
    hence "x \<in> set (filter (\<lambda>r. rq_state r = FAILED) (map (\<lambda>a. hp_store m' ! a) as))" by simp
    then obtain a where a: "a \<in> set as" "x = hp_store m' ! a" "rq_state x = FAILED" by auto
    have "r = Some (MemoryErr (rq_error x))"
      using acq x False by (simp add: list_all_iff)
    with a False show ?thesis by (auto simp: ad)
  qed
qed



text \<open>A kernel that grants what it is asked for, up to a limit, and one demonstration table.\<close>

definition demo_hp_sys :: "nat \<Rightarrow> hp_sys" where
  "demo_hp_sys limit = \<lparr>hs_node_exists = (\<lambda>n. n = 0), hs_count = [((0, 2), 1), ((0, 4), 0)],
     hs_writable = (\<lambda>_ _. True), hs_read_ok = (\<lambda>_ _. True), hs_write_ok = (\<lambda>_ _ _. True),
     hs_grant = (\<lambda>_ _ _ c. min c limit)\<rparr>"

definition demo_listing :: numa_listing where
  "demo_listing = Some [(''node0'', Some [''hugepages-2kB'', ''hugepages-4kB''])]"

definition demo_hp_table :: hp_manager where
  "demo_hp_table = snd (request_allocation False demo_listing 8 [(0, [(6, 1)])]
     (snd (request_allocation False demo_listing 7 [(0, [(4, 1), (2, 2)])] new_hp_manager)))"

lemma demo_requested: "requested demo_hp_table"
  unfolding demo_hp_table_def by (intro requested.intros)

lemma demo_hp_table_requests:
  "all_requests demo_hp_table = [(7, [0, 1]), (8, [2])]"
  "map (req_pair demo_hp_table) [0, 1] = [(0, 4), (0, 2)]" "map (req_pair demo_hp_table) [2] = [(0, 2)]"
  by code_simp+

lemma demo_hp_no_collision: "no_collision demo_hp_table"
  by (auto simp: no_collision_def addrs_of_def demo_hp_table_requests dget_def
      demo_hp_table_requests(2)[simplified])

lemma demo_acquire: "fst (acquire 7 demo_hp_table (demo_hp_sys 4)) = None"
  by code_simp



text \<open>The kernel accepts a write of this count and obeys it.\<close>

definition obeys_write :: "hp_sys \<Rightarrow> nat \<Rightarrow> nat \<Rightarrow> nat \<Rightarrow> bool" where
  "obeys_write sy n s c \<longleftrightarrow> (\<exists>cur. map_of (hs_count sy) (n, s) = Some cur \<and> hs_write_ok sy n s c \<and> hs_grant sy n s cur c = c)"


lemma kernel_write [simp]:
  "hs_write_ok (snd (write_hugepage_info n s c sy)) = hs_write_ok sy"
  "hs_grant (snd (write_hugepage_info n s c sy)) = hs_grant sy"
  by (auto simp: write_hugepage_info_def split: option.splits)

lemma kernel_allocate_page [simp]:
  "hs_write_ok (snd (allocate_huge_page n s i c sy)) = hs_write_ok sy"
  "hs_grant (snd (allocate_huge_page n s i c sy)) = hs_grant sy"
proof -
  obtain x sy1 where w: "write_hugepage_info n s (i + c) sy = (x, sy1)" by fastforce
  with kernel_write[of n s "i + c" sy] have "hs_write_ok sy1 = hs_write_ok sy" "hs_grant sy1 = hs_grant sy"
    by simp_all
  with w show "hs_write_ok (snd (allocate_huge_page n s i c sy)) = hs_write_ok sy"
    "hs_grant (snd (allocate_huge_page n s i c sy)) = hs_grant sy"
    by (auto simp: allocate_huge_page_def Let_def split: option.splits sum.splits)
qed

lemma kernel_try:
  "hs_write_ok (snd (try_counts n s cs (m, sy))) = hs_write_ok sy \<and>
   hs_grant (snd (try_counts n s cs (m, sy))) = hs_grant sy"
proof (induction cs arbitrary: m sy)
  case (Cons c cs)
  obtain x sy1 where a: "allocate_huge_page n s (initial_count (get_entry m n s)) c sy = (x, sy1)" by fastforce
  with kernel_allocate_page[of n s "initial_count (get_entry m n s)" c sy]
  have "hs_write_ok sy1 = hs_write_ok sy" "hs_grant sy1 = hs_grant sy" by simp_all
  with a Cons.IH show ?case by (cases x) (simp_all add: Let_def)
qed simp

lemma kernel_pairs:
  "hs_write_ok (snd (foldl allocate_pair ms ps)) = hs_write_ok (snd ms) \<and>
   hs_grant (snd (foldl allocate_pair ms ps)) = hs_grant (snd ms)"
proof (induction ps arbitrary: ms)
  case (Cons p ps)
  have "hs_write_ok (snd (allocate_pair ms p)) = hs_write_ok (snd ms) \<and>
      hs_grant (snd (allocate_pair ms p)) = hs_grant (snd ms)"
    using kernel_try[of _ _ _ "fst ms" "snd ms"] by (cases p) (simp add: allocate_pair_def)
  with Cons.IH[of "allocate_pair ms p"] show ?case by simp
qed simp

lemma kernel_acquire:
  "hs_write_ok (snd (snd (acquire rid m sy))) = hs_write_ok sy \<and>
   hs_grant (snd (snd (acquire rid m sy))) = hs_grant sy"
proof -
  obtain r m' sy' where a: "acquire rid m sy = (r, m', sy')" by (metis prod_cases3)
  have "hs_write_ok (snd (allocate m sy)) = hs_write_ok sy \<and> hs_grant (snd (allocate m sy)) = hs_grant sy"
    using kernel_pairs[of "(get_hugepage_settings sy (preverify sy m), sy)"] by (simp add: allocate_def Let_def)
  with acquire_manager[OF a] a show ?thesis by (auto split: if_splits)
qed

definition demo_acquired :: "hp_manager \<times> hp_sys" where
  "demo_acquired = snd (acquire 7 demo_hp_table (demo_hp_sys 9))"


definition collision_table :: hp_manager where
  "collision_table = snd (request_allocation False (Some [(''node0'', Some [''hugepages-2kB''])]) 7
     [(0, [(4, 1), (6, 1)])] new_hp_manager)"

text \<open>
  Two requests of one requestor that are resized to the same page size overwrite each
  other in the table of the size: the first one is never allocated, \<open>acquire\<close> returns
  normally although it is still waiting, and the release fails with a \<open>KeyError\<close>.
\<close>

theorem resized_requests_collide:
  "requested collision_table \<and> \<not> no_collision collision_table \<and>
   (case acquire 7 collision_table (demo_hp_sys 9) of (r, m, sy) \<Rightarrow>
      r = None \<and> rq_state (hp_store m ! 0) = READY \<and> fst (release_pages 7 m sy) = Some KeyErr)"
proof -
  have "requested collision_table"
    unfolding collision_table_def by (intro requested.intros)
  moreover have "map (req_pair collision_table) (addrs_of collision_table 7) = [(0, 2), (0, 2)]"
    by code_simp
  hence "\<not> no_collision collision_table" unfolding no_collision_def by (metis distinct_length_2_or_more)
  moreover have "case acquire 7 collision_table (demo_hp_sys 9) of (r, m, sy) \<Rightarrow>
      r = None \<and> rq_state (hp_store m ! 0) = READY \<and> fst (release_pages 7 m sy) = Some KeyErr"
    by code_simp
  ultimately show ?thesis by simp
qed

end
