(* ===== verification/Py_Value.thy ===== *)
theory Py_Value
  imports Py_String
begin

text \<open>
  The values that the code keeps in its dictionaries and exchanges as JSON, and
  \<open>src/lib/utility/misc.py\<close>: flattening nested dictionaries to keys with dots, the way
  back, and the retry decorator.  Dictionary keys are strings here; float values are
  rational numbers.
\<close>

datatype pv =
    PNone
  | PBool bool
  | PInt int
  | PFloat rat
  | PStr string
  | PList "pv list"
  | PDict "(string \<times> pv) list"

type_synonym pdict = "(string, pv) dict"

fun truthy :: "pv \<Rightarrow> bool" where
  "truthy PNone \<longleftrightarrow> False"
| "truthy (PBool b) \<longleftrightarrow> b"
| "truthy (PInt i) \<longleftrightarrow> i \<noteq> 0"
| "truthy (PFloat q) \<longleftrightarrow> q \<noteq> 0"
| "truthy (PStr s) \<longleftrightarrow> s \<noteq> []"
| "truthy (PList vs) \<longleftrightarrow> vs \<noteq> []"
| "truthy (PDict d) \<longleftrightarrow> d \<noteq> []"

fun is_pdict :: "pv \<Rightarrow> bool" where
  "is_pdict (PDict d) \<longleftrightarrow> True"
| "is_pdict v \<longleftrightarrow> False"

text \<open>\<open>int(q)\<close> of a float cuts towards zero.\<close>

definition trunc :: "rat \<Rightarrow> int" where
  "trunc q = (if q < 0 then \<lceil>q\<rceil> else \<lfloor>q\<rfloor>)"

lemma trunc_of_int [simp]: "trunc (of_int i) = i"
  by (simp add: trunc_def)

lemma trunc_div: "0 \<le> i \<Longrightarrow> 0 < d \<Longrightarrow> trunc (of_int i / of_int d) = i div d"
  by (simp add: trunc_def floor_divide_of_int_eq divide_less_0_iff)

section \<open>Flattening\<close>

definition sub_key :: "char \<Rightarrow> string \<Rightarrow> string \<Rightarrow> string" where
  "sub_key sep parent k = (if parent = [] then k else parent @ sep # k)"

text \<open>
  The loop over the entries of a dictionary and the loop over the elements of a list, each
  with the dictionary that is being filled.
\<close>

fun flatten_loop :: "bool \<Rightarrow> char \<Rightarrow> string \<Rightarrow> (string \<times> pv) list \<Rightarrow> pdict \<Rightarrow> pdict"
  and flatten_list :: "bool \<Rightarrow> char \<Rightarrow> string \<Rightarrow> nat \<Rightarrow> pv list \<Rightarrow> pdict \<Rightarrow> pdict" where
  "flatten_loop ul sep p [] items = items"
| "flatten_loop ul sep p ((k, v) # d) items =
     flatten_loop ul sep p d
       (case v of
          PDict d' \<Rightarrow> dupdate items (flatten_loop ul sep (sub_key sep p k) d' [])
        | PList vs \<Rightarrow> (if ul then flatten_list ul sep (sub_key sep p k) 0 vs items
                       else dset (sub_key sep p k) v items)
        | _ \<Rightarrow> dset (sub_key sep p k) v items)"
| "flatten_list ul sep nk i [] items = items"
| "flatten_list ul sep nk i (x # xs) items =
     flatten_list ul sep nk (Suc i) xs
       (case x of
          PDict d' \<Rightarrow> dupdate items (flatten_loop ul sep (nk @ sep # nat_str i) d' [])
        | _ \<Rightarrow> dset (nk @ sep # nat_str i) x items)"

definition flatten_dict :: "bool \<Rightarrow> char \<Rightarrow> string \<Rightarrow> pdict \<Rightarrow> pdict" where
  "flatten_dict unroll_lists sep parent_key d = flatten_loop unroll_lists sep parent_key d []"

fun create_dict_path :: "pdict \<Rightarrow> string list \<Rightarrow> pv \<Rightarrow> pdict" where
  "create_dict_path dest [] v = dest"
| "create_dict_path dest [k] v = dset k v dest"
| "create_dict_path dest (k # k' # ks) v =
     dset k (PDict (create_dict_path
       (case map_of dest k of Some (PDict d) \<Rightarrow> d | _ \<Rightarrow> []) (k' # ks) v)) dest"

definition unflatten_step :: "char \<Rightarrow> pdict \<Rightarrow> string \<times> pv \<Rightarrow> pdict" where
  "unflatten_step sep result = (\<lambda>(key, v).
     if sep \<notin> set key then dset key v result else create_dict_path result (split_on sep key) v)"

definition unflatten_dict :: "char \<Rightarrow> pdict \<Rightarrow> pdict" where
  "unflatten_dict sep d = foldl (unflatten_step sep) [] d"

section \<open>Retrying\<close>

text \<open>
  \<open>func\<close> acts on a state; its result counts when it is true in the sense of Python.  The
  sleep between two calls has no effect on the state.
\<close>

fun retry_loop :: "nat \<Rightarrow> ('s \<Rightarrow> pv \<times> 's) \<Rightarrow> 's \<Rightarrow> pv \<times> 's" where
  "retry_loop 0 func s = (PNone, s)"
| "retry_loop (Suc n) func s =
     (case func s of (result, s') \<Rightarrow> if truthy result then (result, s') else retry_loop n func s')"

definition retry :: "nat \<Rightarrow> ('s \<Rightarrow> pv \<times> 's) \<Rightarrow> 's \<Rightarrow> pv \<times> 's" where
  "retry retry_count func s = retry_loop (retry_count + 1) func s"

section \<open>Flattening and unflattening are inverse on plain trees\<close>

text \<open>
  A plain tree: distinct, non-empty keys without the separator on every level, no empty
  inner dictionary, and lists only where they are not unrolled.
\<close>

fun plain_value :: "bool \<Rightarrow> char \<Rightarrow> pv \<Rightarrow> bool" where
  "plain_value ul sep (PDict d) \<longleftrightarrow> d \<noteq> [] \<and> wf_dict d \<and>
     (\<forall>kv \<in> set d. fst kv \<noteq> [] \<and> sep \<notin> set (fst kv) \<and> plain_value ul sep (snd kv))"
| "plain_value ul sep (PList vs) \<longleftrightarrow> \<not> ul"
| "plain_value ul sep v \<longleftrightarrow> True"

definition plain_tree :: "bool \<Rightarrow> char \<Rightarrow> pdict \<Rightarrow> bool" where
  "plain_tree ul sep d \<longleftrightarrow> d = [] \<or> plain_value ul sep (PDict d)"

text \<open>The paths of a tree with their leaves, in order.\<close>

fun value_paths :: "pv \<Rightarrow> (string list \<times> pv) list" where
  "value_paths (PDict d) = concat (map (\<lambda>kv. map (\<lambda>(p, v). (fst kv # p, v)) (value_paths (snd kv))) d)"
| "value_paths v = [([], v)]"

abbreviation dict_paths :: "pdict \<Rightarrow> (string list \<times> pv) list" where
  "dict_paths d \<equiv> value_paths (PDict d)"

lemma leaf_paths: "\<not> is_pdict v \<Longrightarrow> value_paths v = [([], v)]"
  by (cases v) auto

lemma value_paths_ne: "plain_value ul sep v \<Longrightarrow> value_paths v \<noteq> []"
proof (induction ul sep v rule: plain_value.induct)
  case (1 ul sep d)
  then obtain kv d' where "d = kv # d'" by (cases d) auto
  with 1 show ?case by auto
qed simp_all

lemma value_paths_distinct: "plain_value ul sep v \<Longrightarrow> distinct (map fst (value_paths v))"
proof (induction ul sep v rule: plain_value.induct)
  case (1 ul sep d)
  hence w: "wf_dict d" by simp
  have each: "distinct (map fst (value_paths (snd kv)))" if "kv \<in> set d" for kv
    using 1 that by auto
  from w each show ?case
  proof (induction d)
    case (Cons kv d)
    have "distinct (map fst (map (\<lambda>(p, v). (fst kv # p, v)) (value_paths (snd kv))))"
      using Cons.prems(2)[of kv] by (simp add: case_prod_unfold comp_def distinct_map inj_on_def)
    moreover have "set (map fst (map (\<lambda>(p, v). (fst kv # p, v)) (value_paths (snd kv)))) \<inter>
        set (map fst (dict_paths d)) = {}"
      using Cons.prems(1) by (auto simp: image_iff) 
    moreover have "distinct (map fst (dict_paths d))" using Cons by simp
    ultimately show ?case by simp
  qed simp
qed simp_all


definition good_path :: "char \<Rightarrow> string list \<Rightarrow> bool" where
  "good_path sep q \<longleftrightarrow> (\<forall>k \<in> set q. k \<noteq> [] \<and> sep \<notin> set k)"

definition path_key :: "char \<Rightarrow> string \<Rightarrow> string list \<Rightarrow> string" where
  "path_key sep p q = (if p = [] then join [sep] q else p @ sep # join [sep] q)"

lemma value_paths_good: "plain_value ul sep v \<Longrightarrow> (q, w) \<in> set (value_paths v) \<Longrightarrow> good_path sep q"
proof (induction ul sep v arbitrary: q w rule: plain_value.induct)
  case (1 ul sep d)
  then show ?case by (fastforce simp: good_path_def)
qed (simp_all add: good_path_def)

lemma path_key_inj:
  "good_path sep q \<Longrightarrow> good_path sep q' \<Longrightarrow> q \<noteq> [] \<Longrightarrow> q' \<noteq> [] \<Longrightarrow>
   path_key sep p q = path_key sep p q' \<Longrightarrow> q = q'"
proof -
  assume g: "good_path sep q" "good_path sep q'" "q \<noteq> []" "q' \<noteq> []"
  assume "path_key sep p q = path_key sep p q'"
  hence "join [sep] q = join [sep] q'" by (simp add: path_key_def split: if_splits)
  hence "split_on sep (join [sep] q) = split_on sep (join [sep] q')" by (rule arg_cong)
  with g show "q = q'" by (simp add: split_join good_path_def)
qed

lemma path_key_Cons:
  "k \<noteq> [] \<Longrightarrow> q \<noteq> [] \<Longrightarrow> path_key sep p (k # q) = path_key sep (sub_key sep p k) q"
  by (simp add: path_key_def sub_key_def join_Cons)

lemma path_key_single: "path_key sep p [k] = sub_key sep p k"
  by (simp add: path_key_def sub_key_def)

lemma dict_paths_ne: "(q, w) \<in> set (dict_paths d) \<Longrightarrow> q \<noteq> []"
  by auto

definition flat_items :: "char \<Rightarrow> string \<Rightarrow> pdict \<Rightarrow> pdict" where
  "flat_items sep p d = map (\<lambda>(q, v). (path_key sep p q, v)) (dict_paths d)"

lemma flat_items_distinct: "plain_value ul sep (PDict d) \<Longrightarrow> wf_dict (flat_items sep p d)"
proof -
  assume pl: "plain_value ul sep (PDict d)"
  have "map fst (flat_items sep p d) = map (path_key sep p) (map fst (dict_paths d))"
    by (simp add: flat_items_def case_prod_unfold)
  moreover have "inj_on (path_key sep p) (set (map fst (dict_paths d)))"
  proof (rule inj_onI)
    fix x y assume "x \<in> set (map fst (dict_paths d))" "y \<in> set (map fst (dict_paths d))"
      and e: "path_key sep p x = path_key sep p y"
    then obtain v w where xv: "(x, v) \<in> set (dict_paths d)" and yw: "(y, w) \<in> set (dict_paths d)"
      by (metis (no_types, lifting) imageE list.set_map prod.collapse)
    from path_key_inj[OF value_paths_good[OF pl xv] value_paths_good[OF pl yw] dict_paths_ne[OF xv] dict_paths_ne[OF yw] e]
    show "x = y" .
  qed
  ultimately show ?thesis using value_paths_distinct[OF pl] by (metis distinct_map)
qed

lemma flat_items_Cons:
  assumes "fst kv \<noteq> []"
  shows "flat_items sep p (kv # d) =
    (case snd kv of PDict d' \<Rightarrow> flat_items sep (sub_key sep p (fst kv)) d'
       | _ \<Rightarrow> [(sub_key sep p (fst kv), snd kv)]) @ flat_items sep p d"
proof -
  obtain k v where kv: "kv = (k, v)" by (cases kv)
  show ?thesis
  proof (cases "is_pdict v")
    case False
    with leaf_paths[OF this] kv show ?thesis
      by (cases v) (auto simp: flat_items_def path_key_single)
  next
    case True
    then obtain d' where d': "v = PDict d'" by (cases v) auto
    have "map (\<lambda>(q, v). (path_key sep p q, v)) (map (\<lambda>(q, v). (k # q, v)) (dict_paths d')) =
        flat_items sep (sub_key sep p k) d'"
      unfolding flat_items_def map_map
    proof (rule map_cong)
      fix x assume "x \<in> set (dict_paths d')"
      moreover obtain q w where x: "x = (q, w)" by (cases x)
      ultimately have "q \<noteq> []" by (metis dict_paths_ne)
      with assms kv x show "((\<lambda>(q, v). (path_key sep p q, v)) \<circ> (\<lambda>(q, v). (k # q, v))) x =
          (\<lambda>(q, v). (path_key sep (sub_key sep p k) q, v)) x"
        by (simp add: path_key_Cons)
    qed simp
    with kv d' show ?thesis by (simp add: flat_items_def)
  qed
qed

lemma flatten_loop_plain:
  assumes "plain_value ul sep v" "v = PDict d"
  shows "flatten_loop ul sep p d [] = flat_items sep p d"
  using assms
proof (induction ul sep v arbitrary: d p rule: plain_value.induct)
  case (1 ul sep d0)
  hence w: "wf_dict d" and c: "\<forall>kv \<in> set d. fst kv \<noteq> [] \<and> plain_value ul sep (snd kv)"
    and IH: "\<And>kv d' p. kv \<in> set d \<Longrightarrow> snd kv = PDict d' \<Longrightarrow> flatten_loop ul sep p d' [] = flat_items sep p d'"
    by auto
  have dis: "wf_dict (flat_items sep p d)" using 1 flat_items_distinct[of ul sep d p] by simp
  have "flatten_loop ul sep p e items = items @ flat_items sep p e"
    if "set e \<subseteq> set d" "wf_dict (items @ flat_items sep p e)" for e items
    using that
  proof (induction e arbitrary: items)
    case Nil
    then show ?case by (simp add: flat_items_def)
  next
    case (Cons kv e)
    obtain k v where kv: "kv = (k, v)" by (cases kv)
    have k: "k \<noteq> []" "plain_value ul sep v" using c Cons.prems(1) kv by auto
    show ?case
    proof (cases v)
      case (PDict d')
      have fi: "flat_items sep p (kv # e) = flat_items sep (sub_key sep p k) d' @ flat_items sep p e"
        using flat_items_Cons[of kv sep p e] k kv PDict by simp
      have sub: "flatten_loop ul sep (sub_key sep p k) d' [] = flat_items sep (sub_key sep p k) d'"
        using IH[of kv d'] Cons.prems(1) kv PDict by simp
      have w1: "wf_dict ((items @ flat_items sep (sub_key sep p k) d') @ flat_items sep p e)"
        using Cons.prems(2) fi by simp
      hence "dupdate items (flat_items sep (sub_key sep p k) d') = items @ flat_items sep (sub_key sep p k) d'"
        by (intro dupdate_append_new) auto
      with Cons.IH[OF _ w1] Cons.prems(1) kv PDict sub fi show ?thesis by simp
    next
      case (PList vs)
      hence "\<not> ul" using k by simp
      have fi: "flat_items sep p (kv # e) = (sub_key sep p k, v) # flat_items sep p e"
        using flat_items_Cons[of kv sep p e] k kv PList by simp
      have w1: "wf_dict ((items @ [(sub_key sep p k, v)]) @ flat_items sep p e)"
        using Cons.prems(2) fi by simp
      hence "dset (sub_key sep p k) v items = items @ [(sub_key sep p k, v)]"
        by (intro dset_new) auto
      with Cons.IH[OF _ w1] Cons.prems(1) kv PList \<open>\<not> ul\<close> fi show ?thesis by simp
    qed (use Cons.IH[of "items @ [(sub_key sep p k, v)]"] Cons.prems flat_items_Cons[of kv sep p e] k kv
         dset_new[of "sub_key sep p k" items v] in \<open>auto simp: Cons.IH\<close>)
  qed
  from this[of d "[]"] dis show ?case by simp
qed simp_all

definition insert_paths :: "(string list \<times> pv) list \<Rightarrow> pdict \<Rightarrow> pdict" where
  "insert_paths ps dest = foldl (\<lambda>r (q, v). create_dict_path r q v) dest ps"

lemma insert_paths_simps [simp]:
  "insert_paths [] dest = dest"
  "insert_paths ((q, v) # ps) dest = insert_paths ps (create_dict_path dest q v)"
  "insert_paths (ps @ ps') dest = insert_paths ps' (insert_paths ps dest)"
  by (simp_all add: insert_paths_def)

lemma dset_last: "k \<notin> fst ` set d \<Longrightarrow> dset k v (d @ [(k, w)]) = d @ [(k, v)]"
  by (induction d) auto

lemma map_of_last: "k \<notin> fst ` set d \<Longrightarrow> ([k \<mapsto> w] ++ map_of d) k = Some w"
  by (induction d) (auto simp: map_add_def)

lemma insert_below:
  assumes "k \<notin> fst ` set dest" "\<forall>(q, v) \<in> set ps. q \<noteq> []"
  shows "insert_paths (map (\<lambda>(q, v). (k # q, v)) ps) (dest @ [(k, PDict e)]) =
    dest @ [(k, PDict (insert_paths ps e))]"
  using assms(2)
proof (induction ps arbitrary: e)
  case (Cons qv ps)
  then obtain k' q v where "qv = (k' # q, v)" by (cases qv) (auto simp: neq_Nil_conv)
  with Cons assms(1) show ?case by (simp add: map_of_last dset_last)
qed simp

lemma insert_subtree:
  assumes "k \<notin> fst ` set dest" "\<forall>(q, v) \<in> set ps. q \<noteq> []" "ps \<noteq> []"
  shows "insert_paths (map (\<lambda>(q, v). (k # q, v)) ps) dest = dest @ [(k, PDict (insert_paths ps []))]"
proof -
  obtain k' q v ps' where ps: "ps = (k' # q, v) # ps'"
    using assms(2,3) by (cases ps) (auto simp: neq_Nil_conv)
  have "map_of dest k = None" using assms(1) by (simp add: map_of_eq_None_iff)
  with insert_below[of k dest ps' "create_dict_path [] (k' # q) v"] assms ps show ?thesis
    by (simp add: dset_new)
qed

lemma insert_plain:
  assumes "plain_value ul sep v" "v = PDict d"
  shows "insert_paths (dict_paths d) [] = d"
  using assms
proof (induction ul sep v arbitrary: d rule: plain_value.induct)
  case (1 ul sep d0)
  hence w: "wf_dict d" and c: "\<forall>kv \<in> set d. plain_value ul sep (snd kv)"
    and IH: "\<And>kv d'. kv \<in> set d \<Longrightarrow> snd kv = PDict d' \<Longrightarrow> insert_paths (dict_paths d') [] = d'"
    by auto
  have "insert_paths (dict_paths e) dest = dest @ e"
    if "set e \<subseteq> set d" "wf_dict (dest @ e)" for e dest
    using that
  proof (induction e arbitrary: dest)
    case (Cons kv e)
    obtain k v where kv: "kv = (k, v)" by (cases kv)
    have k: "k \<notin> fst ` set dest" using Cons.prems(2) kv by simp
    have split: "dict_paths (kv # e) = map (\<lambda>(q, v). (k # q, v)) (value_paths v) @ dict_paths e"
      by (simp add: kv)
    have step: "insert_paths (map (\<lambda>(q, v). (k # q, v)) (value_paths v)) dest = dest @ [(k, v)]"
    proof (cases "is_pdict v")
      case True
      then obtain d' where d': "v = PDict d'" by (cases v) auto
      have "value_paths v \<noteq> []" using value_paths_ne c Cons.prems(1) kv by fastforce
      moreover have "insert_paths (value_paths v) [] = d'" using IH[of kv d'] d' Cons.prems(1) kv by simp
      moreover have "\<forall>(q, v) \<in> set (value_paths v). q \<noteq> []" using d' dict_paths_ne by blast
      ultimately show ?thesis using insert_subtree[of k dest "value_paths v"] k d' by simp
    next
      case False
      with k show ?thesis by (simp add: leaf_paths dset_new)
    qed
    have "wf_dict ((dest @ [kv]) @ e)" using Cons.prems(2) by simp
    from Cons.IH[OF _ this] Cons.prems(1) show ?case
      unfolding split insert_paths_simps step by (simp add: kv)
  qed simp
  from this[of d "[]"] w show ?case by simp
qed simp_all

lemma unflatten_step_path:
  assumes "good_path sep q" "q \<noteq> []"
  shows "unflatten_step sep r (path_key sep [] q, v) = create_dict_path r q v"
proof (cases q)
  case (Cons k ks)
  show ?thesis
  proof (cases ks)
    case Nil
    with Cons assms show ?thesis by (simp add: unflatten_step_def path_key_def good_path_def)
  next
    case (Cons k' ks')
    have "sep \<in> set (join [sep] q)" using Cons \<open>q = k # ks\<close> by (simp add: join_Cons)
    with assms show ?thesis by (simp add: unflatten_step_def path_key_def split_join good_path_def)
  qed
qed (use assms in simp)

text \<open>
  C6.  Unflattening undoes flattening, order of the keys included, for every tree with
  non-empty keys that do not contain the separator and without empty inner dictionaries.
\<close>

theorem unflatten_flatten:
  assumes "plain_tree ul sep d"
  shows "unflatten_dict sep (flatten_dict ul sep [] d) = d"
proof (cases "d = []")
  case False
  hence pl: "plain_value ul sep (PDict d)" using assms by (simp add: plain_tree_def)
  have good: "good_path sep q \<and> q \<noteq> []" if "(q, v) \<in> set (dict_paths d)" for q v
    using value_paths_good[OF pl that] dict_paths_ne[OF that] by simp
  have fold: "foldl (unflatten_step sep) r (map (\<lambda>(q, v). (path_key sep [] q, v)) ps) = insert_paths ps r"
    if "\<forall>(q, v) \<in> set ps. good_path sep q \<and> q \<noteq> []" for ps r
    using that by (induction ps arbitrary: r) (auto simp: unflatten_step_path)
  have all: "\<forall>(q, v) \<in> set (dict_paths d). good_path sep q \<and> q \<noteq> []" using good by blast
  have "flatten_dict ul sep [] d = map (\<lambda>(q, v). (path_key sep [] q, v)) (dict_paths d)"
    unfolding flatten_dict_def flatten_loop_plain[OF pl refl] flat_items_def ..
  thus ?thesis
    unfolding unflatten_dict_def using fold[OF all, of "[]"] insert_plain[OF pl refl] by simp
qed (simp add: unflatten_dict_def flatten_dict_def)

theorem unflatten_flatten_witness:
  "unflatten_dict CHR ''.'' (flatten_dict False CHR ''.'' []
     [(''a'', PInt 1), (''b'', PDict [(''c'', PList [PInt 2]), (''d'', PDict [(''e'', PNone)])])]) =
   [(''a'', PInt 1), (''b'', PDict [(''c'', PList [PInt 2]), (''d'', PDict [(''e'', PNone)])])]"
  by (rule unflatten_flatten) (simp add: plain_tree_def)

text \<open>What the conditions exclude: two entries that flatten to one key, and an empty key.\<close>

lemma flatten_collision:
  "flatten_dict True CHR ''.'' [] [(''a.b'', PInt 1), (''a'', PDict [(''b'', PInt 2)])] = [(''a.b'', PInt 2)]"
  "flatten_dict True CHR ''.'' [] [(''x'', PInt 1), ([], PDict [(''x'', PInt 2)])] = [(''x'', PInt 2)]"
  by (simp_all add: flatten_dict_def sub_key_def)

section \<open>Retrying\<close>

primrec states :: "('s \<Rightarrow> pv \<times> 's) \<Rightarrow> 's \<Rightarrow> nat \<Rightarrow> 's" where
  "states func s 0 = s"
| "states func s (Suc n) = snd (func (states func s n))"

lemma states_shift: "states func (snd (func s)) n = states func s (Suc n)"
  by (induction n) simp_all

lemma find_map: "find P (map f xs) = map_option f (find (P \<circ> f) xs)"
  by (induction xs) auto

lemma retry_loop_spec:
  "retry_loop n func s =
     (case find (\<lambda>i. truthy (fst (func (states func s i)))) [0..<n] of
        Some i \<Rightarrow> (fst (func (states func s i)), states func s (Suc i))
      | None \<Rightarrow> (PNone, states func s n))"
proof (induction n arbitrary: s)
  case (Suc n)
  obtain r s' where f: "func s = (r, s')" by fastforce
  have sh: "states func s' i = states func s (Suc i)" for i
    using states_shift[of func s i] f by simp
  have up: "[0..<Suc n] = 0 # map Suc [0..<n]" by (simp add: map_Suc_upt upt_conv_Cons del: upt_Suc)
  have s0: "states func s (Suc 0) = s'" by (simp add: f)
  show ?case
  proof (cases "truthy r")
    case True
    thus ?thesis unfolding up by (simp add: f)
  next
    case False
    with Suc[of s'] show ?thesis
      unfolding up by (simp add: f find_map comp_def sh del: states.simps(2) split: option.splits)
  qed
qed simp


text \<open>
  The decorator calls the function until a result is true in the sense of Python, at
  most one time more than \<open>retry_count\<close>; it returns that first result and the state after
  exactly these calls, and \<open>None\<close> when there is none.  A result such as 0 or an empty list
  is not \<open>None\<close> and is retried all the same.
\<close>

theorem retry_spec:
  "retry c func s =
     (case find (\<lambda>i. truthy (fst (func (states func s i)))) [0..<c + 1] of
        Some i \<Rightarrow> (fst (func (states func s i)), states func s (Suc i))
      | None \<Rightarrow> (PNone, states func s (c + 1)))"
  unfolding retry_def by (rule retry_loop_spec)

lemma retry_zero_is_retried: "retry 2 (\<lambda>n. (PInt 0, Suc n)) 0 = (PNone, 3)"
  by (simp add: retry_def numeral_2_eq_2)

end
