(* ===== verification/Data_Registry.thy ===== *)
theory Data_Registry
  imports Py_Value
begin

text \<open>
  \<open>src/core/datatypes.py\<close> and the configuration class of
  \<open>src/core/benchspec/benchspec.py\<close>: key/value stores that inherit from a parent, and the
  benchmark configuration that scales some of its values down in quick mode.

  Registries are objects that refer to their parent, so they live in a heap and are named
  by their address; an update of a parent is seen by its children.  Values are immutable
  here, which is what the deep copy of \<open>_set\<close> achieves in the code.
\<close>

section \<open>A contract for key/value stores\<close>

locale kv_store =
  fixes put :: "'k \<Rightarrow> 'v \<Rightarrow> 's \<Rightarrow> 's"
    and get :: "'s \<Rightarrow> 'k \<Rightarrow> 'v option"
    and valid :: "'s \<Rightarrow> bool"
  assumes get_put_same: "valid s \<Longrightarrow> get (put k v s) k = Some v"
    and get_put_other: "valid s \<Longrightarrow> k' \<noteq> k \<Longrightarrow> get (put k v s) k' = get s k'"
    and valid_put: "valid s \<Longrightarrow> valid (put k v s)"
begin

definition put_all :: "('k \<times> 'v) list \<Rightarrow> 's \<Rightarrow> 's" where
  "put_all kvs s = foldl (\<lambda>s (k, v). put k v s) s kvs"

lemma put_all_simps [simp]:
  "put_all [] s = s" "put_all ((k, v) # kvs) s = put_all kvs (put k v s)"
  by (simp_all add: put_all_def)

lemma valid_put_all: "valid s \<Longrightarrow> valid (put_all kvs s)"
  by (induction kvs arbitrary: s) (auto simp: valid_put)

lemma get_put: "valid s \<Longrightarrow> get (put k v s) = (get s)(k \<mapsto> v)"
  by (auto simp: fun_eq_iff get_put_same get_put_other)

lemma get_put_all: "valid s \<Longrightarrow> wf_dict kvs \<Longrightarrow> get (put_all kvs s) = get s ++ map_of kvs"
proof (induction kvs arbitrary: s)
  case (Cons kv kvs)
  obtain k v where kv: "kv = (k, v)" by (cases kv)
  with Cons.prems have k: "map_of kvs k = None" by (simp add: map_of_eq_None_iff)
  have "get (put_all (kv # kvs) s) = get (put k v s) ++ map_of kvs"
    using Cons.IH[of "put k v s"] Cons.prems kv valid_put by simp
  also have "\<dots> = get s ++ map_of (kv # kvs)"
    using Cons.prems(1) k kv by (auto simp: get_put fun_eq_iff map_add_def split: option.splits)
  finally show ?case .
qed simp

lemma put_put_same: "valid s \<Longrightarrow> get (put k v (put k w s)) = get (put k v s)"
  by (simp add: get_put valid_put)

end

interpretation pydict: kv_store dset map_of "\<lambda>_. True"
  by unfold_locales auto

section \<open>Registries\<close>

record registry =
  reg_data :: pdict
  reg_parent :: "nat option"

type_synonym reg_heap = "registry list"

definition alloc_registry :: "nat option \<Rightarrow> reg_heap \<Rightarrow> nat \<times> reg_heap" where
  "alloc_registry p h = (length h, h @ [\<lparr>reg_data = [], reg_parent = p\<rparr>])"

text \<open>\<open>ASCTDataRegistry._set\<close>, which \<open>__setattr__\<close> and \<open>__setitem__\<close> call.\<close>

definition reg_put :: "nat \<Rightarrow> string \<Rightarrow> pv \<Rightarrow> reg_heap \<Rightarrow> reg_heap" where
  "reg_put a k v h = h[a := (h ! a)\<lparr>reg_data := dset k v (reg_data (h ! a))\<rparr>]"

definition update_with_dict :: "nat \<Rightarrow> pdict \<Rightarrow> reg_heap \<Rightarrow> reg_heap" where
  "update_with_dict a kvs h = foldl (\<lambda>h (k, v). reg_put a k v h) h kvs"

definition new_registry :: "pdict \<Rightarrow> reg_heap \<Rightarrow> nat \<times> reg_heap" where
  "new_registry kvs h = (case alloc_registry None h of (a, h') \<Rightarrow> (a, update_with_dict a kvs h'))"

definition new_from :: "nat \<Rightarrow> pdict \<Rightarrow> reg_heap \<Rightarrow> nat \<times> reg_heap" where
  "new_from other updates h =
     (case alloc_registry (Some other) h of (a, h') \<Rightarrow> (a, update_with_dict a updates h'))"

text \<open>
  Looking a key up along the parents.  A parent is allocated before its children; the test
  for it makes the recursion end, and the invariant below shows that it never fails.
\<close>

function reg_lookup :: "reg_heap \<Rightarrow> nat \<Rightarrow> string \<Rightarrow> pv option" where
  "reg_lookup h a k = (case map_of (reg_data (h ! a)) k of
       Some v \<Rightarrow> Some v
     | None \<Rightarrow> (case reg_parent (h ! a) of
         None \<Rightarrow> None
       | Some p \<Rightarrow> if p < a then reg_lookup h p k else None))"
  by pat_completeness auto
termination by (relation "measure (\<lambda>(h, a, k). a)") auto

declare reg_lookup.simps [simp del]

definition reg_getattr :: "reg_heap \<Rightarrow> nat \<Rightarrow> string \<Rightarrow> pv" where
  "reg_getattr h a k = (case reg_lookup h a k of None \<Rightarrow> PNone | Some v \<Rightarrow> v)"

definition reg_getitem :: "reg_heap \<Rightarrow> nat \<Rightarrow> string \<Rightarrow> pv res" where
  "reg_getitem h a k = (case reg_lookup h a k of None \<Rightarrow> Inl (Exc KeyError k) | Some v \<Rightarrow> Inr v)"

definition reg_contains :: "reg_heap \<Rightarrow> nat \<Rightarrow> string \<Rightarrow> bool" where
  "reg_contains h a k \<longleftrightarrow> reg_lookup h a k \<noteq> None"

function reg_get_dict :: "reg_heap \<Rightarrow> nat \<Rightarrow> pdict" where
  "reg_get_dict h a =
     dupdate (case reg_parent (h ! a) of
         None \<Rightarrow> []
       | Some p \<Rightarrow> if p < a then dupdate [] (reg_get_dict h p) else []) (reg_data (h ! a))"
  by pat_completeness auto
termination by (relation "measure (\<lambda>(h, a). a)") auto

declare reg_get_dict.simps [simp del]

definition reg_heap_ok :: "reg_heap \<Rightarrow> bool" where
  "reg_heap_ok h \<longleftrightarrow> (\<forall>a < length h. wf_dict (reg_data (h ! a)) \<and>
     (\<forall>p. reg_parent (h ! a) = Some p \<longrightarrow> p < a))"

definition reg_at :: "nat \<Rightarrow> reg_heap \<Rightarrow> bool" where
  "reg_at a h \<longleftrightarrow> reg_heap_ok h \<and> a < length h"

section \<open>The benchmark configuration\<close>

fun as_number :: "pv \<Rightarrow> rat option" where
  "as_number (PInt i) = Some (of_int i)"
| "as_number (PFloat q) = Some q"
| "as_number (PBool b) = Some (if b then 1 else 0)"
| "as_number v = None"

definition not_a_number :: "'a res" where
  "not_a_number = Inl (Exc TypeError ''unsupported operand type(s)'')"

definition adjusted_iter_count :: "bool \<Rightarrow> pv \<Rightarrow> pv res" where
  "adjusted_iter_count quick v = (if \<not> quick then Inr v else case as_number v of
       None \<Rightarrow> not_a_number | Some q \<Rightarrow> Inr (PInt (max 1 (trunc (q / 1000)))))"

definition adjusted_time_delay :: "bool \<Rightarrow> pv \<Rightarrow> pv" where
  "adjusted_time_delay quick v = (if quick then PInt 0 else v)"

definition adjusted_number_of_runs :: "bool \<Rightarrow> pv \<Rightarrow> pv" where
  "adjusted_number_of_runs quick v = (if quick then PInt 1 else v)"

definition adjusted_duration :: "bool \<Rightarrow> pv \<Rightarrow> pv res" where
  "adjusted_duration quick v = (if \<not> quick then Inr v else case as_number v of
       None \<Rightarrow> not_a_number | Some q \<Rightarrow> Inr (PFloat (max (2 / 1000) (q / 100))))"

text \<open>
  The product of a line count below \<open>2^53\<close> and the float 0.1, truncated, is the quotient
  by ten.  The result has the type of the line size.
\<close>

fun scale_line :: "pv \<Rightarrow> int \<Rightarrow> pv" where
  "scale_line (PFloat q) n = PFloat (q * of_int n)"
| "scale_line (PBool b) n = PInt (if b then n else 0)"
| "scale_line (PInt i) n = PInt (i * n)"
| "scale_line v n = v"

definition adjusted_size :: "bool \<Rightarrow> pv \<Rightarrow> pv \<Rightarrow> pv res" where
  "adjusted_size quick line v = (if \<not> quick then Inr v else
     case (as_number v, as_number line) of
       (Some q, Some l) \<Rightarrow>
         if l = 0 then Inl (Exc ZeroDivisionError ''division by zero'')
         else Inr (scale_line line (max (trunc (of_int \<lfloor>q / l\<rfloor> / 10)) 1))
     | _ \<Rightarrow> not_a_number)"

definition adjusted_value :: "bool \<Rightarrow> pv \<Rightarrow> string \<Rightarrow> pv \<Rightarrow> (pv \<times> bool) res" where
  "adjusted_value quick line name v =
     (if prefix ''_'' name then Inr (v, False)
      else if name = ''iteration'' then bindr (adjusted_iter_count quick v) (\<lambda>w. Inr (w, False))
      else if name = ''duration'' then bindr (adjusted_duration quick v) (\<lambda>w. Inr (w, False))
      else if name = ''time_delay'' then Inr (adjusted_time_delay quick v, False)
      else if name = ''data_size'' then bindr (adjusted_size quick line v) (\<lambda>w. Inr (w, True))
      else if name = ''number_of_runs'' then Inr (adjusted_number_of_runs quick v, False)
      else Inr (v, False))"

definition config_set :: "bool \<Rightarrow> nat \<Rightarrow> string \<Rightarrow> pv \<Rightarrow> reg_heap \<Rightarrow> exc option \<times> reg_heap" where
  "config_set quick a name v h =
     (if v = PNone then (None, h)
      else case adjusted_value quick (reg_getattr h a ''_cache_line_size'') name v of
        Inl e \<Rightarrow> (Some e, h)
      | Inr (w, keep_original) \<Rightarrow>
          (None, if keep_original then reg_put a (name @ ''_orig'') v (reg_put a name w h)
                 else reg_put a name w h))"

fun config_update :: "bool \<Rightarrow> nat \<Rightarrow> pdict \<Rightarrow> reg_heap \<Rightarrow> exc option \<times> reg_heap" where
  "config_update quick a [] h = (None, h)"
| "config_update quick a ((k, v) # kvs) h =
     (case config_set quick a k v h of
        (Some e, h') \<Rightarrow> (Some e, h')
      | (None, h') \<Rightarrow> config_update quick a kvs h')"

definition CACHE_LINE_SIZE_DEFAULT :: int where
  "CACHE_LINE_SIZE_DEFAULT = 64"

definition new_config :: "bool \<Rightarrow> pdict \<Rightarrow> reg_heap \<Rightarrow> exc option \<times> nat \<times> reg_heap" where
  "new_config quick kvs h =
     (case alloc_registry None h of (a, h1) \<Rightarrow>
      case config_update quick a ((''_cache_line_size'', PInt CACHE_LINE_SIZE_DEFAULT) # kvs) h1 of
        (r, h2) \<Rightarrow> (r, a, h2))"

text \<open>\<open>ASCTBenchmarkConfig.new_from\<close>: the constructor runs before the parent is set.\<close>

definition config_new_from :: "bool \<Rightarrow> nat \<Rightarrow> pdict \<Rightarrow> reg_heap \<Rightarrow> exc option \<times> nat \<times> reg_heap" where
  "config_new_from quick other updates h =
     (case new_config quick [] h of
        (Some e, a, h1) \<Rightarrow> (Some e, a, h1)
      | (None, a, h1) \<Rightarrow>
          (case config_update quick a updates (h1[a := (h1 ! a)\<lparr>reg_parent := Some other\<rparr>]) of
             (r, h2) \<Rightarrow> (r, a, h2)))"

section \<open>Lemmas\<close>

lemma reg_put_beyond: "\<not> a < length h \<Longrightarrow> reg_put a k v h = h"
  by (simp add: reg_put_def linorder_not_less list_update_beyond)

lemma reg_put_parent [simp]: "reg_parent (reg_put a k v h ! b) = reg_parent (h ! b)"
proof (cases "a < length h")
  case True
  then show ?thesis by (cases "b = a") (simp_all add: reg_put_def)
qed (simp add: reg_put_beyond)

lemma reg_put_sel [simp]:
  "length (reg_put a k v h) = length h"
  "b \<noteq> a \<Longrightarrow> reg_put a k v h ! b = h ! b"
  "a < length h \<Longrightarrow> reg_data (reg_put a k v h ! a) = dset k v (reg_data (h ! a))"
  by (simp_all add: reg_put_def)

lemma reg_heap_ok_put: "reg_heap_ok h \<Longrightarrow> reg_heap_ok (reg_put a k v h)"
  unfolding reg_heap_ok_def
proof (intro allI impI)
  fix b assume ok: "\<forall>a<length h. wf_dict (reg_data (h ! a)) \<and> (\<forall>p. reg_parent (h ! a) = Some p \<longrightarrow> p < a)"
    and b: "b < length (reg_put a k v h)"
  have "wf_dict (reg_data (reg_put a k v h ! b))"
    using ok b by (cases "b = a") auto
  with ok b show "wf_dict (reg_data (reg_put a k v h ! b)) \<and> (\<forall>p. reg_parent (reg_put a k v h ! b) = Some p \<longrightarrow> p < b)"
    by simp
qed

lemma reg_lookup_own:
  "map_of (reg_data (h ! a)) k = Some v \<Longrightarrow> reg_lookup h a k = Some v"
  by (subst reg_lookup.simps) simp

lemma reg_lookup_put_same: "a < length h \<Longrightarrow> reg_lookup (reg_put a k v h) a k = Some v"
  by (intro reg_lookup_own) simp

lemma reg_lookup_put_other: "k' \<noteq> k \<Longrightarrow> reg_lookup (reg_put a k v h) b k' = reg_lookup h b k'"
proof (induction b rule: less_induct)
  case (less b)
  have "map_of (reg_data (reg_put a k v h ! b)) k' = map_of (reg_data (h ! b)) k'"
    using less.prems by (cases "b = a"; cases "a < length h") (simp_all add: reg_put_beyond)
  with less show ?case
    by (simp add: reg_lookup.simps[of _ b] split: option.splits)
qed

lemma reg_lookup_put_below: "b < a \<Longrightarrow> reg_lookup (reg_put a k v h) b k' = reg_lookup h b k'"
proof (induction b rule: less_induct)
  case (less b)
  then show ?case
    by (simp add: reg_lookup.simps[of _ b] split: option.splits)
qed

interpretation own: kv_store "reg_put a" "\<lambda>h. reg_lookup h a" "reg_at a" for a
  by unfold_locales
     (auto simp: reg_at_def reg_lookup_put_same reg_lookup_put_other reg_heap_ok_put)

lemma update_with_dict_put_all: "update_with_dict a = own.put_all a"
  by (simp add: fun_eq_iff update_with_dict_def own.put_all_def)

lemma update_with_dict_simps [simp]:
  "update_with_dict a [] h = h"
  "update_with_dict a ((k, v) # kvs) h = update_with_dict a kvs (reg_put a k v h)"
  by (simp_all add: update_with_dict_def)

lemma update_with_dict_frame:
  "length (update_with_dict a kvs h) = length h \<and>
   (\<forall>b k. b < a \<longrightarrow> reg_lookup (update_with_dict a kvs h) b k = reg_lookup h b k) \<and>
   (\<forall>b. reg_parent (update_with_dict a kvs h ! b) = reg_parent (h ! b)) \<and>
   (reg_heap_ok h \<longrightarrow> reg_heap_ok (update_with_dict a kvs h))"
proof (induction kvs arbitrary: h)
  case (Cons kv kvs)
  obtain k v where "kv = (k, v)" by (cases kv)
  with Cons[of "reg_put a k v h"] show ?case by (auto simp: reg_lookup_put_below reg_heap_ok_put)
qed simp

lemma update_with_dict_data:
  "a < length h \<Longrightarrow> wf_dict kvs \<Longrightarrow>
   map_of (reg_data (update_with_dict a kvs h ! a)) = map_of (reg_data (h ! a)) ++ map_of kvs"
proof (induction kvs arbitrary: h)
  case (Cons kv kvs)
  obtain k v where kv: "kv = (k, v)" by (cases kv)
  hence k: "map_of kvs k = None" using Cons.prems(2) by (simp add: map_of_eq_None_iff)
  show ?case using Cons.IH[of "reg_put a k v h"] Cons.prems kv k
    by (auto simp: fun_eq_iff map_add_def split: option.splits)
qed simp

lemma reg_lookup_append: "a < length h \<Longrightarrow> reg_lookup (h @ h') a k = reg_lookup h a k"
proof (induction a rule: less_induct)
  case (less a)
  then show ?case
    by (simp add: reg_lookup.simps[of _ a] nth_append split: option.splits)
qed

lemma alloc_ok:
  "reg_heap_ok h \<Longrightarrow> (\<And>p. q = Some p \<Longrightarrow> p < length h) \<Longrightarrow> reg_heap_ok (snd (alloc_registry q h))"
  by (auto simp: reg_heap_ok_def alloc_registry_def nth_append less_Suc_eq)

text \<open>
  C7.  A registry made from another one sees its own values first and the values of the
  other one otherwise, now and after later assignments to the other one; making it changes
  no existing registry and keeps the heap well-formed.
\<close>

theorem new_from_inherits:
  assumes "reg_at p h" "wf_dict ups" "new_from p ups h = (a, h')"
  shows "reg_at a h' \<and> reg_at p h' \<and>
    reg_lookup h' a k = (case map_of ups k of Some v \<Rightarrow> Some v | None \<Rightarrow> reg_lookup h p k) \<and>
    (b < length h \<longrightarrow> reg_lookup h' b k = reg_lookup h b k) \<and>
    reg_lookup (reg_put p k v h') a k = (case map_of ups k of Some w \<Rightarrow> Some w | None \<Rightarrow> Some v)"
proof -
  define h0 where "h0 = h @ [\<lparr>reg_data = [], reg_parent = Some p\<rparr>]"
  have a: "a = length h" and h': "h' = update_with_dict a ups h0"
    using assms(3) by (auto simp: new_from_def alloc_registry_def h0_def)
  have p: "p < length h" "reg_heap_ok h" using assms(1) by (auto simp: reg_at_def)
  have ok0: "reg_heap_ok h0" using alloc_ok[of h "Some p"] p by (simp add: alloc_registry_def h0_def)
  note fr = update_with_dict_frame[of a ups h0]
  have h0a: "h0 ! a = \<lparr>reg_data = [], reg_parent = Some p\<rparr>" "length h0 = Suc a"
    by (simp_all add: h0_def a)
  have par: "reg_parent (h' ! a) = Some p" using fr h' h0a by simp
  have own: "map_of (reg_data (h' ! a)) = map_of ups"
    using update_with_dict_data[of a h0 ups] h' h0a assms(2) by simp
  have low: "reg_lookup h' b k = reg_lookup h b k" if "b < length h" for b k
    using fr that a h' by (simp add: h0_def reg_lookup_append)
  have pa: "p < a" using p a by simp
  have child: "reg_lookup h'' a k = (case map_of ups k of Some v \<Rightarrow> Some v | None \<Rightarrow> reg_lookup h'' p k)"
    if "reg_parent (h'' ! a) = Some p" "map_of (reg_data (h'' ! a)) = map_of ups" for h''
    using that pa by (subst reg_lookup.simps) (simp split: option.splits)
  have len: "length h' = Suc a" using fr h' h0a by simp
  have "reg_lookup (reg_put p k v h') a k = (case map_of ups k of Some w \<Rightarrow> Some w | None \<Rightarrow> Some v)"
    using child[of "reg_put p k v h'"] par own pa len by (simp add: reg_lookup_put_same split: option.splits)
  moreover have "reg_heap_ok h'" using fr ok0 h' by simp
  ultimately show ?thesis
    using child[OF par own] low[of p] low[of b] p pa len by (auto simp: reg_at_def split: option.splits)
qed

theorem new_from_inherits_witness:
  "reg_lookup (snd (new_from 0 [(''y'', PInt 5)] (snd (new_registry [(''x'', PInt 1)] [])))) 1 ''x'' = Some (PInt 1)"
proof -
  have ok: "reg_at 0 (snd (new_registry [(''x'', PInt 1)] []))"
    by (simp add: reg_at_def reg_heap_ok_def new_registry_def alloc_registry_def reg_put_def)
  have l: "reg_lookup (snd (new_registry [(''x'', PInt 1)] [])) 0 ''x'' = Some (PInt 1)"
    by (simp add: new_registry_def alloc_registry_def reg_put_def reg_lookup.simps)
  obtain a h' where n: "new_from 0 [(''y'', PInt 5)] (snd (new_registry [(''x'', PInt 1)] [])) = (a, h')"
    by fastforce
  have "a = 1" using n by (auto simp: new_from_def alloc_registry_def new_registry_def reg_put_def)
  with new_from_inherits[OF ok _ n, of "''x''"] l n show ?thesis by simp
qed

text \<open>
  The dictionary of a registry is well-formed and agrees with the lookups, inherited
  keys included.
\<close>

theorem get_dict_agrees:
  assumes "reg_at a h"
  shows "wf_dict (reg_get_dict h a) \<and> map_of (reg_get_dict h a) = reg_lookup h a"
  using assms
proof (induction a rule: less_induct)
  case (less a)
  have w: "wf_dict (reg_data (h ! a))" using less.prems by (auto simp: reg_at_def reg_heap_ok_def)
  show ?case
  proof (cases "reg_parent (h ! a)")
    case None
    with w show ?thesis
      by (auto simp: reg_get_dict.simps[of h a] reg_lookup.simps[of h a] map_of_dupdate fun_eq_iff
          split: option.splits)
  next
    case (Some p)
    have p: "p < a" using less.prems Some by (auto simp: reg_at_def reg_heap_ok_def)
    with less.IH[OF p] less.prems have IH: "wf_dict (reg_get_dict h p)" "map_of (reg_get_dict h p) = reg_lookup h p"
      by (auto simp: reg_at_def)
    have "map_of (reg_get_dict h a) k = reg_lookup h a k" for k
      using Some p w IH
      by (simp add: reg_get_dict.simps[of h a] reg_lookup.simps[of h a] map_of_dupdate map_add_def
          split: option.splits)
    moreover have "wf_dict (reg_get_dict h a)"
      using Some p by (simp add: reg_get_dict.simps[of h a])
    ultimately show ?thesis by (simp add: fun_eq_iff)
  qed
qed

theorem get_dict_agrees_witness:
  "map_of (reg_get_dict [\<lparr>reg_data = [(''x'', PInt 1)], reg_parent = None\<rparr>] 0) ''x'' = Some (PInt 1)"
proof -
  have "reg_at 0 [\<lparr>reg_data = [(''x'', PInt 1)], reg_parent = None\<rparr>]"
    by (simp add: reg_at_def reg_heap_ok_def)
  from get_dict_agrees[OF this] show ?thesis by (simp add: reg_lookup.simps)
qed

section \<open>Quick mode\<close>

lemma div_ten_le: "0 \<le> (q::int) \<Longrightarrow> q div 10 \<le> q"
  by presburger

lemma adjusted_size_int:
  assumes "0 < l" "0 \<le> s"
  shows "adjusted_size True (PInt l) (PInt s) = Inr (PInt (l * max (s div l div 10) 1))"
proof -
  have "trunc (of_int (s div l) / 10) = s div l div 10"
    using trunc_div[of "s div l" 10] assms by (simp add: pos_imp_zdiv_nonneg_iff)
  with assms show ?thesis by (simp add: adjusted_size_def floor_divide_of_int_eq)
qed

text \<open>
  C8.  In quick mode a data size is cut to about a tenth: a positive whole number of cache
  lines, not above the requested size unless that is less than a line; the requested size
  stays available under the name with the suffix.
\<close>

theorem quick_mode_data_size:
  assumes "reg_at a h" "reg_getattr h a ''_cache_line_size'' = PInt l" "0 < l" "0 \<le> s"
  shows "fst (config_set True a ''data_size'' (PInt s) h) = None \<and>
    reg_lookup (snd (config_set True a ''data_size'' (PInt s) h)) a ''data_size_orig'' = Some (PInt s) \<and>
    (\<exists>n. reg_lookup (snd (config_set True a ''data_size'' (PInt s) h)) a ''data_size'' = Some (PInt (l * n)) \<and>
       l \<le> l * n \<and> l * n \<le> max l s \<and> (10 * l \<le> s \<longrightarrow> 10 * (l * n) \<le> s \<and> s < 10 * (l * n) + 10 * l))"
proof -
  define n where "n = max (s div l div 10) 1"
  have c: "config_set True a ''data_size'' (PInt s) h =
      (None, reg_put a ''data_size_orig'' (PInt s) (reg_put a ''data_size'' (PInt (l * n)) h))"
    using assms by (simp add: config_set_def adjusted_value_def adjusted_size_int n_def)
  have len: "a < length h" using assms(1) by (simp add: reg_at_def)
  have q: "s div l div 10 = s div (10 * l)" using assms(3) by (simp add: zdiv_zmult2_eq mult.commute)
  have lo: "1 \<le> n" by (simp add: n_def)
  have hi: "l * n \<le> max l s"
  proof (cases "s div l div 10 \<le> 1")
    case False
    have "l * (s div l) \<le> s" using assms(3) by (metis mult.commute pos_mod_sign div_mult_mod_eq le_add_same_cancel1)
    moreover have "0 \<le> s div l" using assms by (simp add: pos_imp_zdiv_nonneg_iff)
    hence "s div l div 10 \<le> s div l" using div_ten_le by blast
    ultimately have "l * (s div l div 10) \<le> s" using assms(3) by (meson mult_left_mono order_trans less_imp_le)
    with False show ?thesis by (simp add: n_def max_def)
  qed (simp add: n_def max_def)
  have ten: "10 * (l * n) \<le> s \<and> s < 10 * (l * n) + 10 * l" if "10 * l \<le> s"
  proof -
    have "1 \<le> s div (10 * l)" using that assms(3) by (simp add: pos_imp_zdiv_pos_iff int_one_le_iff_zero_less)
    hence "n = s div (10 * l)" by (simp add: n_def q)
    moreover have "(10 * l) * (s div (10 * l)) + s mod (10 * l) = s" by simp
    moreover have "0 \<le> s mod (10 * l)" "s mod (10 * l) < 10 * l" using assms(3) by simp_all
    ultimately show ?thesis by (simp add: mult.assoc)
  qed
  show ?thesis
    unfolding c using len lo hi ten assms(3)
    by (auto simp: reg_lookup_put_same reg_lookup_put_other intro!: exI[of _ n])
qed

lemma config_base:
  "reg_at 0 (snd (snd (new_config quick [] []))) \<and>
   reg_getattr (snd (snd (new_config quick [] []))) 0 ''_cache_line_size'' = PInt 64"
  by (simp add: new_config_def alloc_registry_def config_set_def adjusted_value_def reg_put_def
      reg_at_def reg_heap_ok_def reg_getattr_def reg_lookup.simps CACHE_LINE_SIZE_DEFAULT_def)

theorem quick_mode_data_size_witness:
  "fst (config_set True 0 ''data_size'' (PInt 10000) (snd (snd (new_config True [] [])))) = None"
  using quick_mode_data_size[of 0 _ 64 10000] config_base by simp

lemma config_update_spec:
  assumes "reg_at a h" "wf_dict kvs" "k \<noteq> ''data_size_orig''"
  shows "fst (config_update False a kvs h) = None \<and> reg_at a (snd (config_update False a kvs h)) \<and>
    reg_lookup (snd (config_update False a kvs h)) a k =
      (case map_of kvs k of Some v \<Rightarrow> if v = PNone then reg_lookup h a k else Some v
                          | None \<Rightarrow> reg_lookup h a k)"
  using assms(1,2)
proof (induction kvs arbitrary: h)
  case (Cons nv kvs)
  obtain n v where nv: "nv = (n, v)" by (cases nv)
  with Cons.prems have fresh: "map_of kvs n = None" by (simp add: map_of_eq_None_iff)
  define h1 where "h1 = snd (config_set False a n v h)"
  have st: "config_set False a n v h = (None, h1)"
    by (simp add: h1_def config_set_def adjusted_value_def adjusted_iter_count_def adjusted_duration_def
        adjusted_size_def)
  have at: "reg_at a h1"
    using Cons.prems own.valid_put
    by (simp add: h1_def config_set_def adjusted_value_def adjusted_iter_count_def adjusted_duration_def
        adjusted_size_def)
  have lk: "reg_lookup h1 a k = (if k = n \<and> v \<noteq> PNone then Some v else reg_lookup h a k)"
    using Cons.prems(1) assms(3)
    by (simp add: h1_def config_set_def adjusted_value_def adjusted_iter_count_def adjusted_duration_def
        adjusted_size_def adjusted_time_delay_def adjusted_number_of_runs_def reg_lookup_put_other
        reg_lookup_put_same reg_at_def)
  have "k = n \<Longrightarrow> map_of kvs k = None" using fresh by simp
  with Cons.IH[OF at] Cons.prems(2) st lk show ?case
    by (cases "map_of kvs k"; cases "k = n") (simp_all add: nv)
qed simp

text \<open>
  Outside quick mode nothing is scaled: after an update every named value that is not
  \<open>None\<close> reads back as it was given and every other key is as before.
\<close>

theorem config_update_stores_values:
  assumes "reg_at a h" "wf_dict kvs" "k \<noteq> ''data_size_orig''"
  shows "fst (config_update False a kvs h) = None \<and> reg_at a (snd (config_update False a kvs h)) \<and>
    reg_lookup (snd (config_update False a kvs h)) a k =
      (case map_of kvs k of Some v \<Rightarrow> if v = PNone then reg_lookup h a k else Some v
                          | None \<Rightarrow> reg_lookup h a k)"
  using assms by (rule config_update_spec)

theorem config_update_stores_values_witness:
  "reg_lookup (snd (config_update False 0 [(''iterations'', PInt 400), (''x'', PNone)]
     (snd (snd (new_config False [] []))))) 0 ''iterations'' = Some (PInt 400)"
  using config_update_stores_values[of 0 _ "[(''iterations'', PInt 400), (''x'', PNone)]" "''iterations''"]
    config_base by simp

text \<open>
  Quick mode scales a value named \<open>iteration\<close>, the name that no configuration uses; the
  field \<open>iterations\<close> of the benchmarks is stored unscaled.
\<close>

theorem quick_mode_keeps_iterations:
  "config_set True a ''iterations'' (PInt n) h = (None, reg_put a ''iterations'' (PInt n) h) \<and>
   config_set True a ''iteration'' (PInt 400000) h = (None, reg_put a ''iteration'' (PInt 400) h)"
  by (simp add: config_set_def adjusted_value_def adjusted_iter_count_def trunc_def)

end
