(* ===== verification/Config_Schema.thy ===== *)
theory Config_Schema
  imports Py_Value
begin

text \<open>
  \<open>src/core/recipes/configuration/schema.py\<close> and the two parsers of
  \<open>src/lib/utility/format.py\<close> it uses: the conversions of user-supplied configuration
  values, the catalogue of fields, and the schemas that the recipes build from it.

  A conversion may raise, and one of them may also run forever (a range with a step that is
  not positive), so a conversion yields \<open>pv res option\<close> with \<open>None\<close> for not returning.
  Numbers in strings are ASCII; decimal fractions are exact rational numbers.  The numeric
  type of lists is \<open>int\<close>, the only one that a field of the catalogue uses.
\<close>

definition value_error :: "string \<Rightarrow> 'a res" where
  "value_error m = Inl (Exc ValueError m)"

definition type_error :: "string \<Rightarrow> 'a res" where
  "type_error m = Inl (Exc TypeError m)"

section \<open>Sizes and times\<close>

text \<open>\<open>Decimal(s)\<close> and \<open>float(s)\<close> on the strings that the patterns let through.\<close>

definition decimal_value :: "string \<Rightarrow> string \<Rightarrow> rat" where
  "decimal_value ip fp = of_nat (digits_val ip) + of_nat (digits_val fp) / 10 ^ length fp"

text \<open>
  \<open>unsigned_number s\<close>: the longest prefix of digits with an optional fraction, as the
  patterns \<open>\d+(?:\.\d*)?|\.\d+\<close> read it, with the rest of the string.
\<close>

definition unsigned_number :: "string \<Rightarrow> (rat \<times> string) option" where
  "unsigned_number s =
     (let ip = takeWhile is_digit s; r = dropWhile is_digit s in
      case r of
        c # r' \<Rightarrow>
          if c = CHR ''.'' \<and> (ip \<noteq> [] \<or> takeWhile is_digit r' \<noteq> [])
          then Some (decimal_value ip (takeWhile is_digit r'), dropWhile is_digit r')
          else if ip = [] then None else Some (decimal_value ip [], r)
      | [] \<Rightarrow> if ip = [] then None else Some (decimal_value ip [], []))"

definition signed_number :: "string \<Rightarrow> (rat \<times> string) option" where
  "signed_number s = (case s of
       c # r \<Rightarrow>
         if c = CHR ''-'' then (case unsigned_number r of None \<Rightarrow> None | Some (q, t) \<Rightarrow> Some (- q, t))
         else if c = CHR ''+'' then unsigned_number r
         else unsigned_number s
     | [] \<Rightarrow> None)"

definition is_letter :: "char \<Rightarrow> bool" where
  "is_letter c \<longleftrightarrow> (let n = (of_char (lower_char c) :: nat) in 97 \<le> n \<and> n \<le> 122)"

definition DECIMAL_units :: "(string, nat) dict" where
  "DECIMAL_units = [(''b'', 0), ('''', 0), (''k'', 1), (''kb'', 1), (''m'', 2), (''mb'', 2), (''g'', 3), (''gb'', 3)]"

definition BINARY_units :: "(string, nat) dict" where
  "BINARY_units = [(''kib'', 1), (''mib'', 2), (''gib'', 3)]"

definition round_half_up :: "rat \<Rightarrow> int" where
  "round_half_up q = (if q < 0 then - \<lfloor>- q + 1 / 2\<rfloor> else \<lfloor>q + 1 / 2\<rfloor>)"

definition unit_multiplier :: "string \<Rightarrow> nat option" where
  "unit_multiplier u = (case map_of DECIMAL_units u of
       Some n \<Rightarrow> Some (1000 ^ n)
     | None \<Rightarrow> (case map_of BINARY_units u of Some n \<Rightarrow> Some (1024 ^ n) | None \<Rightarrow> None))"

definition str_memsize :: "string \<Rightarrow> int res" where
  "str_memsize s = (case signed_number s of
       None \<Rightarrow> value_error (''Invalid size string: '' @ s)
     | Some (q, u) \<Rightarrow>
         if \<not> list_all is_letter u then value_error (''Invalid size string: '' @ s)
         else (let u' = lower (if u = [] then ''b'' else u) in
           case unit_multiplier u' of
             None \<Rightarrow> value_error (''Unknown unit '' @ u' @ '' in '' @ s)
           | Some m \<Rightarrow> Inr (round_half_up (q * of_nat m))))"

text \<open>
  \<open>(\d+(?:\.\d+)?)([smh]?)$\<close>: a fraction needs a digit after the point, and \<open>$\<close> also
  matches before a final newline.
\<close>

definition time_number :: "string \<Rightarrow> (rat \<times> string) option" where
  "time_number s =
     (let ip = takeWhile is_digit s; r = dropWhile is_digit s in
      if ip = [] then None
      else case r of
        c # r' \<Rightarrow> if c = CHR ''.'' \<and> takeWhile is_digit r' \<noteq> []
                  then Some (decimal_value ip (takeWhile is_digit r'), dropWhile is_digit r')
                  else Some (decimal_value ip [], r)
      | [] \<Rightarrow> Some (decimal_value ip [], []))"

definition TIME_UNITS_SECONDS :: "(string, nat) dict" where
  "TIME_UNITS_SECONDS = [(''s'', 1), (''m'', 60), (''h'', 3600)]"

definition str_time :: "string \<Rightarrow> rat res" where
  "str_time s = (case time_number s of
       None \<Rightarrow> value_error (''Invalid time format: '' @ s)
     | Some (q, r) \<Rightarrow>
         (let u = (if r \<noteq> [] \<and> last r = CHR 0x0A then butlast r else r);
              u' = lower (if u = [] then ''s'' else u) in
          case map_of TIME_UNITS_SECONDS u' of
            None \<Rightarrow> value_error (''Invalid time format: '' @ s)
          | Some k \<Rightarrow> Inr (q * of_nat k)))"

section \<open>Scalar conversions\<close>

fun to_int :: "pv \<Rightarrow> int res" where
  "to_int (PInt i) = Inr i"
| "to_int (PBool b) = Inr (if b then 1 else 0)"
| "to_int (PFloat q) = Inr (trunc q)"
| "to_int (PStr s) = int_of_str s"
| "to_int v = type_error ''int() argument must be a string or a number''"

fun to_float :: "pv \<Rightarrow> rat res" where
  "to_float (PInt i) = Inr (of_int i)"
| "to_float (PBool b) = Inr (if b then 1 else 0)"
| "to_float (PFloat q) = Inr q"
| "to_float v = type_error ''float() argument must be a string or a number''"

text \<open>\<open>str(v)\<close>; the text of floats and containers is the parameter \<open>repr\<close>.\<close>

fun py_str :: "(pv \<Rightarrow> string) \<Rightarrow> pv \<Rightarrow> string" where
  "py_str repr (PStr s) = s"
| "py_str repr (PInt i) = int_str i"
| "py_str repr (PBool b) = (if b then ''True'' else ''False'')"
| "py_str repr PNone = ''None''"
| "py_str repr v = repr v"

fun mem_size_conv :: "pv \<Rightarrow> pv res" where
  "mem_size_conv PNone = Inr PNone"
| "mem_size_conv (PStr s) = map_sum id PInt (str_memsize s)"
| "mem_size_conv v = map_sum id PInt (to_int v)"

fun duration_conv :: "pv \<Rightarrow> pv res" where
  "duration_conv (PStr s) = map_sum id PFloat (str_time s)"
| "duration_conv v = map_sum id PFloat (to_float v)"

fun boolean_conv :: "pv \<Rightarrow> pv res" where
  "boolean_conv (PStr s) =
     (if lower s \<in> set [''1'', ''true'', ''yes''] then Inr (PBool True)
      else if lower s \<in> set [''0'', ''false'', ''no''] then Inr (PBool False)
      else value_error (''Invalid boolean string: '' @ s))"
| "boolean_conv v = Inr (PBool (truthy v))"

definition optional_int_conv :: "pv \<Rightarrow> pv res" where
  "optional_int_conv v = (if v = PNone then Inr PNone else map_sum id PInt (to_int v))"

definition str_list_conv :: "(pv \<Rightarrow> string) \<Rightarrow> pv \<Rightarrow> pv res" where
  "str_list_conv repr v = Inr (PList (map PStr (case v of
       PStr s \<Rightarrow> filter (\<lambda>x. x \<noteq> []) (split_on CHR '','' s)
     | PList vs \<Rightarrow> map (py_str repr) vs
     | _ \<Rightarrow> [py_str repr v])))"

section \<open>Lists of numbers\<close>

record list_options =
  accept_ranges :: bool
  unique_items :: bool
  separator :: char
  min_value :: "int option"
  max_value :: "int option"
  optional_items :: bool

definition none_tokens :: "string list" where
  "none_tokens = ['''', ''none'', ''default'', ''null'', ''nil'', ''~'']"

text \<open>\<open>while start <= end: result.append(start); start += step\<close>\<close>

partial_function (option) range_loop :: "int \<Rightarrow> int \<Rightarrow> int \<Rightarrow> pv list \<Rightarrow> pv list option" where
  "range_loop start end step result =
     (if start \<le> end then range_loop (start + step) end step (result @ [PInt start]) else Some result)"

declare range_loop.simps [code]

definition range_part :: "string \<Rightarrow> pv list \<Rightarrow> pv list res option" where
  "range_part part result =
     (let (start, end) = split_once CHR ''-'' part;
          (end', step) = (if CHR '':'' \<in> set end
            then (let (e, s) = split_once CHR '':'' end in (e, int_of_str s)) else (end, Inr 1)) in
      case bindr step (\<lambda>st. bindr (int_of_str start) (\<lambda>a. bindr (int_of_str end') (\<lambda>b. Inr (st, a, b)))) of
        Inl e \<Rightarrow> Some (Inl e)
      | Inr (st, a, b) \<Rightarrow> map_option Inr (range_loop a b st result))"

definition list_part :: "list_options \<Rightarrow> string \<Rightarrow> pv list \<Rightarrow> pv list res option" where
  "list_part opts raw result =
     (let part = strip raw in
      if optional_items opts \<and> lower part \<in> set none_tokens then Some (Inr (result @ [PNone]))
      else if accept_ranges opts \<and> CHR ''-'' \<in> set part then range_part part result
      else Some (bindr (int_of_str part) (\<lambda>i. Inr (result @ [PInt i]))))"

fun list_parts :: "list_options \<Rightarrow> string list \<Rightarrow> pv list \<Rightarrow> pv list res option" where
  "list_parts opts [] result = Some (Inr result)"
| "list_parts opts (p # ps) result = (case list_part opts p result of
       None \<Rightarrow> None
     | Some (Inl e) \<Rightarrow> Some (Inl e)
     | Some (Inr r) \<Rightarrow> list_parts opts ps r)"

definition list_item :: "list_options \<Rightarrow> pv \<Rightarrow> pv res" where
  "list_item opts item =
     (if optional_items opts \<and> (item = PNone \<or>
           (case item of PStr s \<Rightarrow> lower (strip s) \<in> set none_tokens | _ \<Rightarrow> False))
      then Inr PNone else map_sum id PInt (to_int item))"

definition in_bounds :: "list_options \<Rightarrow> pv \<Rightarrow> bool" where
  "in_bounds opts item = (case item of
       PInt i \<Rightarrow> (case min_value opts of None \<Rightarrow> True | Some m \<Rightarrow> m \<le> i) \<and>
                 (case max_value opts of None \<Rightarrow> True | Some m \<Rightarrow> i \<le> m)
     | _ \<Rightarrow> True)"

fun keep_first :: "'a list \<Rightarrow> 'a list \<Rightarrow> 'a list" where
  "keep_first seen [] = []"
| "keep_first seen (x # xs) =
     (if x \<in> set seen then keep_first seen xs else x # keep_first (x # seen) xs)"

definition finish_list :: "list_options \<Rightarrow> pv list \<Rightarrow> pv" where
  "finish_list opts result =
     (let kept = filter (in_bounds opts) result
      in PList (if unique_items opts then keep_first [] kept else kept))"

definition num_list_conv :: "list_options \<Rightarrow> pv \<Rightarrow> pv res option" where
  "num_list_conv opts v =
     (if v = PNone \<and> optional_items opts then Some (Inr (finish_list opts [PNone]))
      else case v of
        PStr s \<Rightarrow>
          if s = [] then Some (Inr (PList (if optional_items opts then [PNone] else [])))
          else map_option (map_sum id (finish_list opts)) (list_parts opts (split_on (separator opts) s) [])
      | PList vs \<Rightarrow> Some (map_sum id (finish_list opts) (map_res (list_item opts) vs))
      | _ \<Rightarrow> Some (map_sum id (\<lambda>i. finish_list opts [PInt i]) (to_int v)))"

definition default_options :: list_options where
  "default_options = \<lparr>accept_ranges = True, unique_items = False, separator = CHR '','',
     min_value = None, max_value = None, optional_items = False\<rparr>"

definition int_list_conv :: "pv \<Rightarrow> pv res option" where
  "int_list_conv = num_list_conv default_options"

definition natural_int_list_conv :: "pv \<Rightarrow> pv res option" where
  "natural_int_list_conv = num_list_conv (default_options\<lparr>min_value := Some 1\<rparr>)"

definition whole_int_list_conv :: "pv \<Rightarrow> pv res option" where
  "whole_int_list_conv = num_list_conv (default_options\<lparr>min_value := Some 0\<rparr>)"

definition whole_int_or_default_list_conv :: "pv \<Rightarrow> pv res option" where
  "whole_int_or_default_list_conv =
     num_list_conv (default_options\<lparr>min_value := Some 0, optional_items := True\<rparr>)"

definition optional_int_list_conv :: "pv \<Rightarrow> pv res option" where
  "optional_int_list_conv v = (if v = PNone then Some (Inr (PList [])) else int_list_conv v)"

section \<open>Fields and schemas\<close>

datatype conv =
    ConvStr | ConvInt | ConvMemSize | ConvDuration | ConvBoolean | ConvOptionalInt
  | ConvIntList | ConvNaturalIntList | ConvWholeIntOrDefaultList | ConvOptionalIntList
  | ConvStrList

fun apply_conv :: "(pv \<Rightarrow> string) \<Rightarrow> conv \<Rightarrow> pv \<Rightarrow> pv res option" where
  "apply_conv repr ConvStr v = Some (Inr (PStr (py_str repr v)))"
| "apply_conv repr ConvInt v = Some (map_sum id PInt (to_int v))"
| "apply_conv repr ConvMemSize v = Some (mem_size_conv v)"
| "apply_conv repr ConvDuration v = Some (duration_conv v)"
| "apply_conv repr ConvBoolean v = Some (boolean_conv v)"
| "apply_conv repr ConvOptionalInt v = Some (optional_int_conv v)"
| "apply_conv repr ConvIntList v = int_list_conv v"
| "apply_conv repr ConvNaturalIntList v = natural_int_list_conv v"
| "apply_conv repr ConvWholeIntOrDefaultList v = whole_int_or_default_list_conv v"
| "apply_conv repr ConvOptionalIntList v = optional_int_list_conv v"
| "apply_conv repr ConvStrList v = Some (str_list_conv repr v)"

record cfg_descr =
  cd_name :: string
  cd_descr :: string
  cd_conv :: conv
  cd_path :: "string list"

text \<open>The constructor splits a dotted name into the path and keeps its last component.\<close>

definition cfg :: "string \<Rightarrow> string \<Rightarrow> conv \<Rightarrow> cfg_descr" where
  "cfg name descr c = \<lparr>cd_name = last (split_on CHR ''.'' name), cd_descr = descr, cd_conv = c,
     cd_path = split_on CHR ''.'' name\<rparr>"

record cfg_updates =
  up_unknown :: "string list"
  up_name :: "string option"
  up_path :: "(string + string list) option"
  up_descr :: "string option"
  up_conv :: "conv option"

definition descr_new_from :: "cfg_descr \<Rightarrow> cfg_updates \<Rightarrow> cfg_descr res" where
  "descr_new_from d u =
     (if up_unknown u \<noteq> []
      then type_error (''Unknown UserConfigDescr field override(s): '' @ join '', '' (up_unknown u))
      else if up_name u \<noteq> None \<and> up_path u \<noteq> None
      then value_error ''Only one of 'name' or 'path' can be overridden''
      else Inr (cfg (case up_path u of
            Some (Inl s) \<Rightarrow> s
          | Some (Inr parts) \<Rightarrow> join ''.'' parts
          | None \<Rightarrow> (case up_name u of Some n \<Rightarrow> n | None \<Rightarrow> join ''.'' (cd_path d)))
        (case up_descr u of Some t \<Rightarrow> t | None \<Rightarrow> cd_descr d)
        (case up_conv u of Some c \<Rightarrow> c | None \<Rightarrow> cd_conv d)))"

text \<open>The user configuration of a recipe: a tree whose leaves are the fields.\<close>

datatype cfg_tree = CfgField cfg_descr | CfgGroup "(string \<times> cfg_tree) list"

fun cfg_insert :: "(string, cfg_tree) dict \<Rightarrow> string list \<Rightarrow> cfg_descr \<Rightarrow> (string, cfg_tree) dict" where
  "cfg_insert dest [] d = dest"
| "cfg_insert dest [k] d = dset k (CfgField d) dest"
| "cfg_insert dest (k # k' # ks) d =
     dset k (CfgGroup (cfg_insert
       (case map_of dest k of Some (CfgGroup g) \<Rightarrow> g | _ \<Rightarrow> []) (k' # ks) d)) dest"

definition create_user_config :: "cfg_descr list \<Rightarrow> (string, cfg_tree) dict" where
  "create_user_config settings = foldl (\<lambda>d c. cfg_insert d (cd_path c) c) [] settings"

definition field :: "string \<Rightarrow> string \<Rightarrow> conv \<Rightarrow> string \<times> cfg_descr" where
  "field name descr c = (name, cfg name descr c)"

definition USER_CFG_FIELDS :: "(string, cfg_descr) dict" where
  "USER_CFG_FIELDS = [
     field ''duration'' ''Benchmark duration in seconds'' ConvDuration,
     field ''iterations'' ''Number of iterations for the benchmark'' ConvInt,
     field ''number_of_runs'' ''Number of runs per sweep point'' ConvInt,
     field ''data_size'' ''Payload size'' ConvMemSize,
     field ''cycle_base'' ''Use cycle-based time measurement'' ConvBoolean,
     field ''workload_cmd'' ''Command to run custom workload'' ConvStr,
     field ''injected_nops'' ''Nops to slow down BW benchmark'' ConvIntList,
     field ''phase'' ''Choice of loading/bandwidth/both'' ConvStr,
     field ''bw_cpu_blocklist'' ''CPUs not to run bandwidth benchmarks'' ConvIntList,
     field ''latency_cpu_id'' ''CPU ID for latency thread'' ConvInt,
     field ''all_cpus'' ''Measure all CPU pairs'' ConvBoolean,
     field ''hist_bins'' ''Number of latency histogram bins'' ConvInt,
     field ''heatmap_vmax'' ''Max value (ns) for heatmap colorscale'' ConvInt,
     field ''blocksize'' ''Block size for I/O operations'' ConvMemSize,
     field ''iodepth'' ''I/O depth for operations'' ConvInt,
     field ''numjobs'' ''Number of I/O jobs'' ConvInt,
     field ''rw_pattern'' ''Read/Write pattern'' ConvStr,
     field ''rwmixread'' ''Read/Write mix (percentage of reads)'' ConvInt,
     field ''filesize'' ''Size of the files to use'' ConvMemSize,
     field ''filenames'' ''List of filenames to use'' ConvStrList,
     field ''direct'' ''Direct I/O flag'' ConvBoolean,
     field ''create_temp_file'' ''Flag to create a temporary file for the benchmark'' ConvBoolean,
     field ''request_size_sweep_steps'' ''List of request sizes to sweep'' ConvIntList,
     field ''iodepth_sweep_steps'' ''List of IODepth to sweep'' ConvIntList,
     field ''process_count_sweep_steps'' ''List of process counts to sweep'' ConvIntList,
     field ''access_pattern_sweep_steps'' ''List of access patterns to sweep'' ConvStrList,
     field ''detect'' ''Detect CMN configuration, must run at least once on a system'' ConvBoolean,
     field ''diagram'' ''Display CMN diagram, requires --detect to have been run at least once'' ConvBoolean,
     field ''server_host'' ''iperf3 server hostname or IP address'' ConvStr,
     field ''port'' ''iperf3 TCP/UDP port'' ConvInt,
     field ''protocol_sweep_steps'' ''Protocols to sweep, for example tcp,udp'' ConvStrList,
     field ''duration_sweep_steps'' ''Run durations in seconds to sweep, for example 3,10'' ConvNaturalIntList,
     field ''message_size_sweep_steps'' ''Message sizes in bytes to sweep, for example 1200,131072'' ConvNaturalIntList,
     field ''window_sweep_steps'' ''TCP socket window sizes to sweep, for example 256K,1M'' ConvStrList,
     field ''bandwidth_target_bps_sweep_steps'' ''Bandwidth targets in bits per second to sweep, for example default,1000000'' ConvWholeIntOrDefaultList,
     field ''client_affinities'' ''CPU affinities for iperf3 client sweep'' ConvOptionalIntList,
     field ''server_affinity'' ''CPU affinity for local iperf3 server'' ConvOptionalInt,
     field ''secure_access'' ''Assume CMN Secure registers are accessible when dumping CMN registers'' ConvBoolean]"

definition user_cfg_schema :: "string list \<Rightarrow> (string, cfg_updates) dict \<Rightarrow> cfg_descr list res" where
  "user_cfg_schema names overrides =
     (case filter (\<lambda>n. map_of USER_CFG_FIELDS n = None) names of
        m # ms \<Rightarrow> value_error (''Unknown user config field(s): '' @ join '', '' (m # ms))
      | [] \<Rightarrow> (case filter (\<lambda>n. n \<notin> set names) (dkeys overrides) of
          m # ms \<Rightarrow> value_error (''Override field(s) not present in this schema: '' @ join '', '' (m # ms))
        | [] \<Rightarrow> map_res (\<lambda>n. case map_of USER_CFG_FIELDS n of
              None \<Rightarrow> Inl (Exc KeyError n)
            | Some d \<Rightarrow> (case map_of overrides n of None \<Rightarrow> Inr d | Some u \<Rightarrow> descr_new_from d u)) names))"

text \<open>The schemas of the recipes: the names of the fields, and the schema built from them.\<close>

definition schema_of :: "string list \<Rightarrow> cfg_descr list" where
  "schema_of names = (case user_cfg_schema names [] of Inr ds \<Rightarrow> ds | Inl e \<Rightarrow> [])"

definition MEMORY_COMMON_USER_CFG :: "string list" where
  "MEMORY_COMMON_USER_CFG =
    [''duration'', ''data_size'', ''cycle_base'']"

definition MEMORY_ITERATIONS_USER_CFG :: "string list" where
  "MEMORY_ITERATIONS_USER_CFG =
    [''iterations'', ''data_size'', ''cycle_base'']"

definition MEMORY_SWEEP_USER_CFG :: "string list" where
  "MEMORY_SWEEP_USER_CFG =
    [''cycle_base'']"

definition LOADED_LATENCY_USER_CFG :: "string list" where
  "LOADED_LATENCY_USER_CFG =
    [''duration'', ''data_size'', ''workload_cmd'', ''injected_nops'', ''phase'',
     ''bw_cpu_blocklist'', ''latency_cpu_id'', ''cycle_base'']"

definition C2C_USER_CFG :: "string list" where
  "C2C_USER_CFG =
    [''iterations'', ''all_cpus'', ''hist_bins'', ''heatmap_vmax'', ''cycle_base'']"

definition STORAGE_REQUEST_SIZE_USER_CFG :: "string list" where
  "STORAGE_REQUEST_SIZE_USER_CFG =
    [''duration'', ''iodepth'', ''numjobs'', ''rw_pattern'', ''rwmixread'', ''filesize'',
     ''filenames'', ''request_size_sweep_steps'', ''direct'', ''create_temp_file'']"

definition STORAGE_IO_DEPTH_USER_CFG :: "string list" where
  "STORAGE_IO_DEPTH_USER_CFG =
    [''duration'', ''blocksize'', ''numjobs'', ''rw_pattern'', ''rwmixread'', ''filesize'',
     ''filenames'', ''iodepth_sweep_steps'', ''direct'', ''create_temp_file'']"

definition STORAGE_PROCESS_COUNT_USER_CFG :: "string list" where
  "STORAGE_PROCESS_COUNT_USER_CFG =
    [''duration'', ''blocksize'', ''iodepth'', ''rw_pattern'', ''rwmixread'', ''filesize'',
     ''filenames'', ''process_count_sweep_steps'', ''direct'', ''create_temp_file'']"

definition STORAGE_ACCESS_PATTERN_USER_CFG :: "string list" where
  "STORAGE_ACCESS_PATTERN_USER_CFG =
    [''duration'', ''blocksize'', ''iodepth'', ''numjobs'', ''rwmixread'', ''filesize'',
     ''filenames'', ''access_pattern_sweep_steps'', ''direct'', ''create_temp_file'']"

definition IPERF3_TCP_SWEEP_USER_CFG :: "string list" where
  "IPERF3_TCP_SWEEP_USER_CFG =
    [''server_host'', ''port'', ''duration_sweep_steps'', ''message_size_sweep_steps'',
     ''window_sweep_steps'', ''bandwidth_target_bps_sweep_steps'', ''client_affinities'',
     ''server_affinity'']"

definition IPERF3_UDP_SWEEP_USER_CFG :: "string list" where
  "IPERF3_UDP_SWEEP_USER_CFG =
    [''server_host'', ''port'', ''duration_sweep_steps'', ''message_size_sweep_steps'',
     ''window_sweep_steps'', ''bandwidth_target_bps_sweep_steps'', ''client_affinities'',
     ''server_affinity'']"

definition REPORT_CMN_USER_CFG :: "string list" where
  "REPORT_CMN_USER_CFG =
    [''detect'', ''diagram'', ''secure_access'']"

section \<open>Ranges\<close>

lemma range_loop_diverges:
  assumes "st \<le> 0" "a \<le> b"
  shows "range_loop a b st res = None"
proof -
  have "st \<le> 0 \<longrightarrow> a \<le> b \<longrightarrow> False" if "range_loop a b st res = Some r" for r
    using that
    by (rule range_loop.raw_induct[where P = "\<lambda>a b st res r. st \<le> 0 \<longrightarrow> a \<le> b \<longrightarrow> False", rotated])
       (force split: if_splits)
  with assms show ?thesis by (cases "range_loop a b st res") auto
qed

lemma range_loop_end: "b < a \<Longrightarrow> range_loop a b st res = Some res"
  by (subst range_loop.simps) simp

lemma range_loop_result:
  assumes "0 < st"
  shows "range_loop a b st res =
    Some (res @ map (\<lambda>i. PInt (a + int i * st)) [0..<(if a \<le> b then nat ((b - a) div st) + 1 else 0)])"
proof (induction "nat (b - a + 1)" arbitrary: a res rule: less_induct)
  case less
  show ?case
  proof (cases "a \<le> b")
    case False
    thus ?thesis by (simp add: range_loop_end)
  next
    case True
    have IH: "range_loop (a + st) b st (res @ [PInt a]) = Some ((res @ [PInt a]) @
        map (\<lambda>i. PInt (a + st + int i * st)) [0..<(if a + st \<le> b then nat ((b - (a + st)) div st) + 1 else 0)])"
      using less.hyps[of "a + st"] assms True by simp
    have n: "(if a + st \<le> b then nat ((b - (a + st)) div st) + 1 else 0) = nat ((b - a) div st)"
    proof (cases "a + st \<le> b")
      case t: True
      have "b - a = (b - (a + st)) + st" by simp
      hence "(b - a) div st = (b - (a + st)) div st + 1" using assms by (metis div_add_self2 less_irrefl)
      moreover have "0 \<le> (b - (a + st)) div st" using t assms by (simp add: pos_imp_zdiv_nonneg_iff)
      ultimately show ?thesis using t by simp
    next
      case f: False
      hence "(b - a) div st = 0" using True by (intro div_pos_pos_trivial) auto
      with f show ?thesis by simp
    qed
    have m: "map (\<lambda>i. PInt (a + int i * st)) [0..<Suc k] =
        PInt a # map (\<lambda>i. PInt (a + st + int i * st)) [0..<k]" for k
      by (simp add: upt_conv_Cons map_Suc_upt[symmetric] algebra_simps del: upt_Suc)
    have "range_loop a b st res = range_loop (a + st) b st (res @ [PInt a])"
      using True by (subst range_loop.simps) simp
    with IH True show ?thesis unfolding n by (simp add: m del: upt_Suc)
  qed
qed


lemma nat_str_no: "c \<in> set (nat_str n) \<Longrightarrow> is_digit c"
  using nat_str_digits by blast

lemma nat_str_chars [simp]:
  "CHR ''-'' \<notin> set (nat_str n)" "CHR '':'' \<notin> set (nat_str n)" "CHR '','' \<notin> set (nat_str n)"
  using nat_str_no[of _ n] by (fastforce simp: is_digit_def)+

lemma split_once_append: "c \<notin> set s \<Longrightarrow> split_once c (s @ c # t) = (s, t)"
proof -
  assume "c \<notin> set s"
  hence "takeWhile (\<lambda>x. x \<noteq> c) (s @ c # t) = s" "dropWhile (\<lambda>x. x \<noteq> c) (s @ c # t) = c # t"
    by (simp_all add: takeWhile_append dropWhile_append) 
  thus ?thesis by (simp add: split_once_def)
qed

lemma strip_between:
  assumes "s \<noteq> []" "\<not> is_space (hd s)" "\<not> is_space (last s)"
  shows "strip s = s"
  by (rule strip_id) (use assms in simp)

lemma nat_str_hd_last: "\<not> is_space (hd (nat_str n))" "\<not> is_space (last (nat_str n))"
  using nat_str_no[of _ n] is_digit_not_special by (metis hd_in_set last_in_set nat_str_ne)+

lemma strip_nat_str [simp]: "strip (nat_str n) = nat_str n"
  by (rule strip_between) (simp_all add: nat_str_hd_last)

text \<open>
  C9.  A range \<open>a-b:s\<close> in a list setting: with a positive step it yields exactly the
  numbers \<open>a, a + s, ...\<close> up to \<open>b\<close>; with step zero and \<open>a\<close> not above \<open>b\<close> the conversion
  never returns.
\<close>

theorem int_list_conv_range:
  "int_list_conv (PStr (nat_str a @ ''-'' @ nat_str b @ '':'' @ nat_str st)) =
    (if st = 0 \<and> a \<le> b then None
     else Some (Inr (PList (map (\<lambda>i. PInt (int (a + i * st))) [0..<(if a \<le> b then (b - a) div st + 1 else 0)]))))"
proof -
  let ?s = "nat_str a @ ''-'' @ nat_str b @ '':'' @ nat_str st"
  have nc: "CHR '','' \<notin> set ?s" by simp
  have st: "strip ?s = ?s" by (rule strip_between) (simp_all add: nat_str_hd_last hd_append)
  have s1: "split_once CHR ''-'' ?s = (nat_str a, nat_str b @ '':'' @ nat_str st)"
    using split_once_append[of "CHR ''-''" "nat_str a"] by simp
  have s2: "split_once CHR '':'' (nat_str b @ CHR '':'' # nat_str st) = (nat_str b, nat_str st)"
    using split_once_append[of "CHR '':''" "nat_str b"] by simp
  have part: "range_part ?s [] = map_option Inr (range_loop (int a) (int b) (int st) [])"
    unfolding range_part_def s1 by (simp add: s2)
  have "list_parts default_options [?s] [] = map_option Inr (range_loop (int a) (int b) (int st) [])"
  proof -
    have "list_part default_options ?s [] = range_part ?s []"
      unfolding list_part_def st Let_def by (simp add: default_options_def)
    with part show ?thesis by (cases "range_loop (int a) (int b) (int st) []") simp_all
  qed
  moreover have "split_on CHR '','' ?s = [?s]" by (rule split_on_nosep[OF nc])
  moreover have "?s \<noteq> []" by simp
  ultimately have c: "int_list_conv (PStr ?s) =
      map_option (\<lambda>r. Inr (PList r)) (range_loop (int a) (int b) (int st) [])"
    by (simp add: int_list_conv_def num_list_conv_def finish_list_def default_options_def in_bounds_def
        option.map_comp comp_def split: pv.splits)
  show ?thesis
  proof (cases "st = 0")
    case True
    thus ?thesis unfolding c
      using range_loop_diverges[of 0 "int a" "int b" "[]"] range_loop_end[of "int b" "int a"] by simp
  next
    case False
    hence "nat ((int b - int a) div int st) = (b - a) div st" if "a \<le> b"
      using that by (simp add: of_nat_diff[symmetric] nat_div_distrib del: of_nat_diff)
    with False show ?thesis unfolding c
      by (simp add: range_loop_result)
  qed
qed

lemma join_empty: "s \<noteq> [] \<Longrightarrow> join sep (s # ss) \<noteq> []"
  by (cases ss) simp_all

lemma list_part_nat: "list_part default_options (nat_str n) result = Some (Inr (result @ [PInt (int n)]))"
  by (simp add: list_part_def default_options_def)

lemma list_parts_nats:
  "list_parts default_options (map nat_str ns) result = Some (Inr (result @ map (\<lambda>n. PInt (int n)) ns))"
  by (induction ns arbitrary: result) (simp_all add: list_part_nat)

lemma split_nats: "ns \<noteq> [] \<Longrightarrow> split_on CHR '','' (join '','' (map nat_str ns)) = map nat_str ns"
  by (rule split_join) auto

lemma finish_default: "finish_list default_options r = PList r"
proof -
  have "in_bounds default_options = (\<lambda>_. True)"
    by (auto simp: fun_eq_iff in_bounds_def default_options_def split: pv.splits)
  thus ?thesis by (simp add: finish_list_def default_options_def)
qed

text \<open>
  A comma-separated list of numbers reads back as the list of these numbers.
\<close>

theorem int_list_conv_join:
  "int_list_conv (PStr (join '','' (map nat_str ns))) = Some (Inr (PList (map (\<lambda>n. PInt (int n)) ns)))"
proof (cases "ns = []")
  case False
  hence "join '','' (map nat_str ns) \<noteq> []" by (cases ns) (auto simp: join_empty)
  moreover have "list_parts default_options (split_on (separator default_options) (join '','' (map nat_str ns))) [] =
      Some (Inr (map (\<lambda>n. PInt (int n)) ns))"
    using split_nats[OF False] list_parts_nats[of ns "[]"] by (simp add: default_options_def)
  ultimately show ?thesis by (simp add: int_list_conv_def num_list_conv_def finish_default)
qed (simp add: int_list_conv_def num_list_conv_def default_options_def)

lemma takeWhile_digits: "\<not> is_digit (hd u) \<or> u = [] \<Longrightarrow> takeWhile is_digit (nat_str n @ u) = nat_str n"
  "\<not> is_digit (hd u) \<or> u = [] \<Longrightarrow> dropWhile is_digit (nat_str n @ u) = u"
  using nat_str_digits[of n] by (cases u; simp add: takeWhile_append dropWhile_append)+

lemma round_half_up_nat [simp]: "round_half_up (of_nat n) = int n"
proof -
  have "\<lfloor>(of_nat n :: rat) + 1 / 2\<rfloor> = int n" by (rule floor_unique) simp_all
  thus ?thesis by (simp add: round_half_up_def)
qed

text \<open>
  A natural number followed by a unit reads as that many units, for every decimal and
  binary unit in any mixture of cases, and without a unit as bytes.
\<close>

theorem str_memsize_units:
  assumes "list_all is_letter u"
  shows "str_memsize (nat_str n @ u) =
    (case unit_multiplier (lower (if u = [] then ''b'' else u)) of
       Some m \<Rightarrow> Inr (int (n * m))
     | None \<Rightarrow> Inl (Exc ValueError (''Unknown unit '' @ lower u @ '' in '' @ nat_str n @ u)))"
proof -
  have letter: "is_letter c \<Longrightarrow> \<not> is_digit c \<and> c \<noteq> CHR ''.''" for c
    by (auto simp: is_letter_def is_digit_def lower_char_def Let_def split: if_splits)
  have hd: "\<not> is_digit (hd u) \<or> u = []" using assms letter by (cases u) auto
  obtain c r where cr: "nat_str n = c # r" by (metis nat_str_ne neq_Nil_conv)
  hence c: "c \<noteq> CHR ''-''" "c \<noteq> CHR ''+''" using nat_str_no[of c n] is_digit_not_special[of c] by auto
  note td = takeWhile_digits[OF hd, of n]
  have un: "unsigned_number (nat_str n @ u) = Some (of_nat n, u)"
  proof (cases u)
    case Nil
    show ?thesis unfolding unsigned_number_def td Let_def
      by (simp add: Nil decimal_value_def digits_val_def[of "[]"])
  next
    case (Cons d v)
    hence "d \<noteq> CHR ''.''" using assms letter by auto
    with Cons show ?thesis unfolding unsigned_number_def td Let_def
      by (simp add: decimal_value_def digits_val_def[of "[]"])
  qed
  have sg: "signed_number (nat_str n @ u) = Some (of_nat n, u)"
    using un c by (simp add: signed_number_def cr)
  have r: "round_half_up (of_nat n * of_nat m) = int (n * m)" for m
    by (metis round_half_up_nat of_nat_mult)
  have nb: "unit_multiplier (lower ''b'') = Some 1"
    by code_simp
  show ?thesis
    unfolding str_memsize_def sg using assms r nb
    by (auto simp: value_error_def Let_def split: option.splits)
qed

theorem str_memsize_units_witness:
  "str_memsize (nat_str 3 @ ''KiB'') = Inr 3072 \<and> str_memsize (nat_str 3 @ ''MB'') = Inr 3000000 \<and>
   str_memsize (nat_str 3) = Inr 3"
proof -
  have lo: "lower ''KiB'' = ''kib''" "lower ''MB'' = ''mb''" "lower ''b'' = ''b''" by code_simp+
  have u: "unit_multiplier (lower ''KiB'') = Some 1024" "unit_multiplier (lower ''MB'') = Some 1000000"
    "unit_multiplier (lower ''b'') = Some 1"
    unfolding lo by (simp_all add: unit_multiplier_def DECIMAL_units_def BINARY_units_def)
  have l: "list_all is_letter ''KiB''" "list_all is_letter ''MB''" "list_all is_letter []"
    by code_simp+
  show ?thesis
    using str_memsize_units[OF l(1), of 3] str_memsize_units[OF l(2), of 3] str_memsize_units[OF l(3), of 3] u
    by simp
qed

definition num_items :: "list_options \<Rightarrow> pv list \<Rightarrow> bool" where
  "num_items opts xs \<longleftrightarrow> (\<forall>x \<in> set xs. (x = PNone \<and> optional_items opts) \<or> (\<exists>i. x = PInt i))"

lemma num_items_simps [simp]:
  "num_items opts []"
  "num_items opts (xs @ ys) \<longleftrightarrow> num_items opts xs \<and> num_items opts ys"
  "num_items opts [PInt i]" "num_items opts [PNone] \<longleftrightarrow> optional_items opts"
  "num_items opts (map (\<lambda>i. PInt (f i)) is)"
  by (auto simp: num_items_def)

lemma range_loop_num: "num_items opts res \<Longrightarrow> range_loop a b st res = Some r \<Longrightarrow> num_items opts r"
  using range_loop_result[of st a b res] range_loop_diverges[of st a b res] range_loop_end[of b a st res]
  by (cases "0 < st"; cases "a \<le> b") auto

lemma range_part_num: "num_items opts res \<Longrightarrow> range_part p res = Some (Inr r) \<Longrightarrow> num_items opts r"
  by (auto simp: range_part_def Let_def split: prod.splits sum.splits if_splits intro: range_loop_num)

lemma list_part_num: "num_items opts res \<Longrightarrow> list_part opts p res = Some (Inr r) \<Longrightarrow> num_items opts r"
  by (auto simp: list_part_def Let_def bindr_Inr_iff split: if_splits intro: range_part_num)

lemma list_parts_num: "num_items opts res \<Longrightarrow> list_parts opts ps res = Some (Inr r) \<Longrightarrow> num_items opts r"
  by (induction ps arbitrary: res) (auto split: option.splits sum.splits dest: list_part_num)

lemma list_items_num: "map_res (list_item opts) vs = Inr r \<Longrightarrow> num_items opts r"
proof (induction vs arbitrary: r)
  case (Cons v vs)
  then obtain y ys where y: "list_item opts v = Inr y" "map_res (list_item opts) vs = Inr ys" "r = y # ys"
    by (auto simp: bindr_Inr_iff)
  hence "num_items opts [y]"
    by (cases "to_int v") (auto simp: list_item_def num_items_def split: if_splits)
  with Cons.IH[OF y(2)] y(3) show ?case by (auto simp: num_items_def)
qed simp

lemma keep_first_spec:
  "set (keep_first seen xs) = set xs - set seen" "distinct (keep_first seen xs)"
  by (induction seen xs rule: keep_first.induct) auto

lemma finish_list_spec:
  assumes "num_items opts xs"
  shows "\<exists>ys. finish_list opts xs = PList ys \<and> set ys = set (filter (in_bounds opts) xs) \<and>
    (unique_items opts \<longrightarrow> distinct ys)"
  by (simp add: finish_list_def Let_def keep_first_spec)

lemma map_sum_Inr: "map_sum id f x = Inr y \<longleftrightarrow> (\<exists>z. x = Inr z \<and> y = f z)"
  by (cases x) auto

lemma num_list_conv_cases:
  assumes "num_list_conv opts v = Some (Inr r)"
  shows "(\<exists>xs. num_items opts xs \<and> r = finish_list opts xs) \<or>
    r = PList (if optional_items opts then [PNone] else [])"
proof (cases "v = PNone \<and> optional_items opts")
  case True
  hence "r = finish_list opts [PNone]" using assms by (simp add: num_list_conv_def)
  moreover have "num_items opts [PNone]" using True by simp
  ultimately show ?thesis by blast
next
  case False
  have one: "num_items opts [PInt i]" for i by simp
  have other: "\<exists>i. r = finish_list opts [PInt i]" if "\<nexists>s. v = PStr s" "\<nexists>l. v = PList l"
    using assms False that by (cases v) (auto simp: num_list_conv_def map_sum_Inr type_error_def)
  show ?thesis
  proof (cases v)
    case (PStr s)
    show ?thesis
    proof (cases "s = []")
      case True
      with PStr assms show ?thesis by (simp add: num_list_conv_def)
    next
      case ne: False
      with PStr assms obtain x where "list_parts opts (split_on (separator opts) s) [] = Some x"
          "map_sum id (finish_list opts) x = Inr r"
        by (auto simp: num_list_conv_def)
      then obtain xs where "list_parts opts (split_on (separator opts) s) [] = Some (Inr xs)" "r = finish_list opts xs"
        by (auto simp: map_sum_Inr)
      with list_parts_num[of opts "[]"] show ?thesis by auto
    qed
  next
    case (PList vs)
    with assms have "map_sum id (finish_list opts) (map_res (list_item opts) vs) = Inr r"
      by (simp add: num_list_conv_def)
    then obtain xs where "map_res (list_item opts) vs = Inr xs" "r = finish_list opts xs"
      by (auto simp: map_sum_Inr)
    with list_items_num show ?thesis by blast
  qed (use other one in blast)+
qed

text \<open>
  What a list setting yields, when it yields something, is a list of integers within
  the bounds of the setting, with \<open>None\<close> only where the setting allows it and without
  repetitions where it asks for that.
\<close>

theorem num_list_conv_items:
  assumes "num_list_conv opts v = Some (Inr r)"
  shows "\<exists>ys. r = PList ys \<and> (unique_items opts \<longrightarrow> distinct ys) \<and>
    (\<forall>y \<in> set ys. (y = PNone \<and> optional_items opts) \<or>
       (\<exists>i. y = PInt i \<and> (\<forall>m. min_value opts = Some m \<longrightarrow> m \<le> i) \<and> (\<forall>m. max_value opts = Some m \<longrightarrow> i \<le> m)))"
proof -
  from num_list_conv_cases[OF assms] show ?thesis
  proof
    assume "\<exists>xs. num_items opts xs \<and> r = finish_list opts xs"
    then obtain xs where xs: "num_items opts xs" "r = finish_list opts xs" by blast
    from finish_list_spec[OF xs(1)] obtain ys where
      ys: "r = PList ys" "set ys = set (filter (in_bounds opts) xs)" "unique_items opts \<longrightarrow> distinct ys"
      using xs(2) by auto
    have "(y = PNone \<and> optional_items opts) \<or>
       (\<exists>i. y = PInt i \<and> (\<forall>m. min_value opts = Some m \<longrightarrow> m \<le> i) \<and> (\<forall>m. max_value opts = Some m \<longrightarrow> i \<le> m))"
      if "y \<in> set ys" for y
    proof -
      have "y \<in> set xs" "in_bounds opts y" using that ys(2) by auto
      with xs(1) show ?thesis
        by (cases y; cases "min_value opts"; cases "max_value opts") (auto simp: num_items_def in_bounds_def)
    qed
    with ys show ?thesis by blast
  qed (auto split: if_splits)
qed

theorem num_list_conv_items_witness:
  "natural_int_list_conv (PStr ''0,3,7-9'') = Some (Inr (PList [PInt 3, PInt 7, PInt 8, PInt 9])) \<and>
   (\<exists>i j. PInt 3 = PInt i \<and> 1 \<le> i \<and> PInt 9 = PInt j \<and> 1 \<le> j)"
proof -
  have s: "split_on CHR '','' ''0,3,7-9'' = [''0'', ''3'', ''7-9'']" by code_simp
  have p: "int_of_str ''0'' = Inr 0" "int_of_str ''3'' = Inr 3" "int_of_str ''7'' = Inr 7" "int_of_str ''9'' = Inr 9"
    "strip ''0'' = ''0''" "strip ''3'' = ''3''" "strip ''7-9'' = ''7-9''" "split_once CHR ''-'' ''7-9'' = (''7'', ''9'')"
    by code_simp+
  have c: "natural_int_list_conv (PStr ''0,3,7-9'') = Some (Inr (PList [PInt 3, PInt 7, PInt 8, PInt 9]))"
    by (simp add: natural_int_list_conv_def num_list_conv_def default_options_def s list_part_def p
        range_part_def range_loop.simps finish_list_def in_bounds_def)
  with num_list_conv_items[of "default_options\<lparr>min_value := Some 1\<rparr>" "PStr ''0,3,7-9''"]
  show ?thesis by (simp add: natural_int_list_conv_def default_options_def)
qed

end
