(* ===== verification/Recipe_Registry.thy ===== *)
theory Recipe_Registry
  imports Config_Schema Graphlib "HOL-Library.Char_ord" "HOL-Library.List_Lexorder" "HOL-Library.Multiset"
begin

text \<open>
  \<open>src/core/recipes/configuration/defaults.py\<close>, \<open>metadata.py\<close> and \<open>registry.py\<close>: the default
  configurations, the table of all recipes with its check for duplicates, the filters by
  category and by keyword, the dependencies that a selection adds, and the orders in which
  the recipes run.

  Sets of strings are lists without repetitions; the order of their elements carries no
  meaning, and where the code shows an order it sorts.  Two facts of the machine decide
  which recipes exist: whether the IP register dumper and the sysreg driver are there.
\<close>

section \<open>Default configurations\<close>

definition BENCHMARK_BASE_DEFAULT_CONFIG :: pdict where
  "BENCHMARK_BASE_DEFAULT_CONFIG = [
     (''pmu_mode'', PBool False),
     (''duration'', PFloat (1 / 4)),
     (''iterations'', PInt 100000),
     (''data_size'', PNone),
     (''bw_delay'', PInt 0)]"

definition MEMORY_DEFAULT_CONFIG :: pdict where
  "MEMORY_DEFAULT_CONFIG = dict_of (BENCHMARK_BASE_DEFAULT_CONFIG @ [
     (''cycle_base'', PBool False)])"

definition C2C_DEFAULT_CONFIG :: pdict where
  "C2C_DEFAULT_CONFIG = dict_of (BENCHMARK_BASE_DEFAULT_CONFIG @ [
     (''iterations'', PInt 400),
     (''number_of_runs'', PInt 1),
     (''node_mask'', PNone),
     (''heatmap_vmax'', PInt 200),
     (''all_cpus'', PBool False),
     (''hist_bins'', PInt 10)])"

definition LOADED_LATENCY_DEFAULT_CONFIG :: pdict where
  "LOADED_LATENCY_DEFAULT_CONFIG = dict_of (MEMORY_DEFAULT_CONFIG @ [
     (''injected_nops'', PList [PInt 3000, PInt 900, PInt 500, PInt 180, PInt 100, PInt 80, PInt 70, PInt 50, PInt 40, PInt 30, PInt 20, PInt 10, PInt 0]),
     (''phase'', PStr ''both'')])"

definition STORAGE_BASE_DEFAULT_CONFIG :: pdict where
  "STORAGE_BASE_DEFAULT_CONFIG = dict_of (BENCHMARK_BASE_DEFAULT_CONFIG @ [
     (''duration'', PInt 60),
     (''blocksize'', PInt (4 * 1024)),
     (''ioengine'', PStr ''libaio''),
     (''alternative_ioengines'', PList [PStr ''io_uring'', PStr ''posixaio'']),
     (''iodepth'', PInt 16),
     (''numjobs'', PInt 4),
     (''rw_pattern'', PStr ''randread''),
     (''rwmixread'', PInt 70),
     (''filesize'', (case mem_size_conv (PStr ''1000MiB'') of Inr v \<Rightarrow> v | Inl e \<Rightarrow> PNone)),
     (''filenames'', PList []),
     (''create_temp_file'', PBool True),
     (''direct'', PBool True)])"

definition STORAGE_REQUEST_SIZE_DEFAULT_CONFIG :: pdict where
  "STORAGE_REQUEST_SIZE_DEFAULT_CONFIG = dict_of (STORAGE_BASE_DEFAULT_CONFIG @ [
     (''request_size_sweep_steps'', PList [PInt (4 * 1024), PInt (8 * 1024), PInt (16 * 1024), PInt (32 * 1024), PInt (64 * 1024), PInt (128 * 1024)])])"

definition STORAGE_IO_DEPTH_DEFAULT_CONFIG :: pdict where
  "STORAGE_IO_DEPTH_DEFAULT_CONFIG = dict_of (STORAGE_BASE_DEFAULT_CONFIG @ [
     (''iodepth_sweep_steps'', PList (map (\<lambda>i. PInt (2 ^ i)) [0..<8]))])"

definition STORAGE_PROCESS_COUNT_DEFAULT_CONFIG :: pdict where
  "STORAGE_PROCESS_COUNT_DEFAULT_CONFIG = dict_of (STORAGE_BASE_DEFAULT_CONFIG @ [
     (''process_count_sweep_steps'', PList [PInt 1, PInt 2, PInt 4, PInt 8, PInt 16])])"

definition STORAGE_ACCESS_PATTERN_DEFAULT_CONFIG :: pdict where
  "STORAGE_ACCESS_PATTERN_DEFAULT_CONFIG = dict_of (STORAGE_BASE_DEFAULT_CONFIG @ [
     (''access_pattern_sweep_steps'', PList [PStr ''read'', PStr ''write'', PStr ''randread'', PStr ''randwrite'', PStr ''rw'', PStr ''randrw''])])"

definition REPORT_CMN_DEFAULT_CONFIG :: pdict where
  "REPORT_CMN_DEFAULT_CONFIG = [
     (''detect'', PBool False),
     (''diagram'', PBool False),
     (''secure_access'', PBool False)]"

definition IPERF3_DEFAULT_CONFIG :: pdict where
  "IPERF3_DEFAULT_CONFIG = [
     (''server_host'', PNone),
     (''port'', PNone),
     (''client_affinities'', PList []),
     (''server_affinity'', PNone),
     (''duration_sweep_steps'', PList [PInt 10]),
     (''window_sweep_steps'', PList [PNone]),
     (''message_size_sweep_steps'', PList [PInt 1460]),
     (''bandwidth_target_bps_sweep_steps'', PList [PNone]),
     (''number_of_runs'', PInt 1)]"

definition IPERF3_SWEEP_DEFAULT_CONFIG :: pdict where
  "IPERF3_SWEEP_DEFAULT_CONFIG = dict_of (IPERF3_DEFAULT_CONFIG @ [
     (''port'', PInt 5202),
     (''message_size_sweep_steps'', PList [PInt 131072]),
     (''bandwidth_target_bps_sweep_steps'', PList [PNone])])"

section \<open>Recipe metadata\<close>

record recipe_metadata =
  rm_name :: string
  rm_short :: string
  rm_class :: string
  rm_description :: string
  rm_tags :: "string list"
  rm_user_config :: "(string, cfg_tree) dict"
  rm_default_config :: "pdict option"
  rm_category :: string
  rm_depends_on :: "string list"
  rm_visible :: bool

definition TAG_DEFAULT :: string where "TAG_DEFAULT = ''default''"
definition TAG_ALL :: string where "TAG_ALL = ''all''"
definition CHR_NEG_FILTER :: char where "CHR_NEG_FILTER = CHR ''^''"

definition add_tags :: "string list \<Rightarrow> recipe_metadata \<Rightarrow> recipe_metadata" where
  "add_tags ts r = r\<lparr>rm_tags := foldl (\<lambda>acc t. set_add t acc) (rm_tags r) ts\<rparr>"

text \<open>The constructor, with the fields of the user configuration given by name.\<close>

definition recipe :: "string \<Rightarrow> string \<Rightarrow> string \<Rightarrow> string \<Rightarrow> string list \<Rightarrow> string list \<Rightarrow>
    pdict option \<Rightarrow> string list \<Rightarrow> bool \<Rightarrow> recipe_metadata" where
  "recipe name short_name recipe_name descr tags user_fields default_config depends_on visible =
     add_tags [name, short_name, TAG_ALL]
       \<lparr>rm_name = name, rm_short = short_name, rm_class = recipe_name, rm_description = descr,
        rm_tags = tags, rm_user_config = create_user_config (schema_of user_fields),
        rm_default_config = default_config, rm_category = [], rm_depends_on = depends_on,
        rm_visible = visible\<rparr>"

definition set_default :: "recipe_metadata \<Rightarrow> recipe_metadata" where
  "set_default r = add_tags [TAG_DEFAULT] r"

definition set_category :: "string \<Rightarrow> recipe_metadata \<Rightarrow> recipe_metadata" where
  "set_category c r = (add_tags [c] r)\<lparr>rm_category := c\<rparr>"

definition is_default :: "recipe_metadata \<Rightarrow> bool" where
  "is_default r \<longleftrightarrow> TAG_DEFAULT \<in> set (rm_tags r)"

definition get_printable_tags :: "recipe_metadata \<Rightarrow> string list" where
  "get_printable_tags r =
     sort (filter (\<lambda>t. t \<notin> set [TAG_ALL, TAG_DEFAULT, rm_name r, rm_short r]) (rm_tags r))"

definition get_default_user_config :: "recipe_metadata \<Rightarrow> pdict res" where
  "get_default_user_config r = (case rm_default_config r of
       None \<Rightarrow> if rm_user_config r = [] then Inr []
               else Inl (Exc TypeError ''argument of type 'NoneType' is not iterable'')
     | Some d \<Rightarrow> Inr (List.map_filter (\<lambda>(k, _). map_option (Pair k) (map_of d k)) (rm_user_config r)))"

definition create_category :: "string \<Rightarrow> recipe_metadata list \<Rightarrow> recipe_metadata list" where
  "create_category name recipes = map (set_category name) recipes"

definition duplicate_error :: "string \<Rightarrow> string \<Rightarrow> exc" where
  "duplicate_error what v = Exc AssertionError (''Duplicate recipe '' @ what @ '' found: '' @ v)"

text \<open>The inner loop over one list, with the names seen so far and the result.\<close>

fun add_visible :: "recipe_metadata list \<Rightarrow> recipe_metadata list \<Rightarrow> recipe_metadata list res" where
  "add_visible [] acc = Inr acc"
| "add_visible (r # rs) acc =
     (if \<not> rm_visible r then add_visible rs acc
      else if rm_name r \<in> rm_name ` set acc then Inl (duplicate_error ''name'' (rm_name r))
      else if rm_short r \<in> rm_short ` set acc then Inl (duplicate_error ''short name'' (rm_short r))
      else if rm_class r \<in> rm_class ` set acc then Inl (duplicate_error ''class name'' (rm_class r))
      else add_visible rs (acc @ [r]))"

fun create_metadata_from :: "recipe_metadata list list \<Rightarrow> recipe_metadata list \<Rightarrow> recipe_metadata list res" where
  "create_metadata_from [] acc = Inr acc"
| "create_metadata_from (l # ls) acc = bindr (add_visible l acc) (create_metadata_from ls)"

definition create_metadata :: "recipe_metadata list list \<Rightarrow> recipe_metadata list res" where
  "create_metadata ls = create_metadata_from ls []"

definition report_recipes :: "bool \<Rightarrow> bool \<Rightarrow> recipe_metadata list" where
  "report_recipes ip_dump sysreg = create_category ''report'' [
    set_default (recipe ''system-info'' ''sysinfo'' ''SystemInfo''
      ''Output a report containing information about the hardware and software installed on the system.''
      [''system'', ''info'', ''sysreport''] [] None [] True),
    set_default (recipe ''cmn'' ''cmn'' ''CMN''
      ''Collect cmn configuration information''
      [''cmn'', ''interconnect'', ''registers''] REPORT_CMN_USER_CFG (Some REPORT_CMN_DEFAULT_CONFIG) [] True),
    set_default (recipe ''ucie'' ''ucie'' ''UCIe''
      ''Collect UCIe register information''
      [''ucie'', ''registers''] [] None [] ip_dump),
    set_default (recipe ''dms'' ''dms'' ''DMS''
      ''Collect DMS register information''
      [''dms'', ''registers''] [] None [] ip_dump),
    set_default (recipe ''pss'' ''pss'' ''PSS''
      ''Collect PSS register information''
      [''pss'', ''registers''] [] None [] ip_dump),
    recipe ''sysreg'' ''sysreg'' ''SysregInfo''
      ''Output a report containing information about the system register values''
      [''register'', ''sysreg''] [] None [] sysreg,
    set_default (recipe ''network-info'' ''netinfo'' ''NetworkInfo''
      ''Collect network device names, IP addresses and status data and report it in a structured format.''
      [''IP-address'', ''NIC'', ''IP'', ''network'', ''network-namespace''] [] None [] True)]"

definition memory_recipes :: "bool \<Rightarrow> bool \<Rightarrow> recipe_metadata list" where
  "memory_recipes ip_dump sysreg = create_category ''memory'' [
    set_default (recipe ''idle-latency'' ''il'' ''IdleLatency''
      ''Report a matrix of idle memory latency across NUMA nodes''
      [''latency'', ''uses-huge-pages''] MEMORY_COMMON_USER_CFG (Some MEMORY_DEFAULT_CONFIG) [''latency-sweep''] True),
    set_default (recipe ''peak-bandwidth'' ''pb'' ''PeakBandwidth''
      ''Report peak memory bandwidth''
      [''bandwidth''] MEMORY_ITERATIONS_USER_CFG (Some MEMORY_DEFAULT_CONFIG) [''latency-sweep''] True),
    set_default (recipe ''cross-numa-bandwidth'' ''cnb'' ''CrossNumaBandwidth''
      ''Report cross-NUMA node memory bandwidth''
      [''bandwidth''] MEMORY_ITERATIONS_USER_CFG (Some MEMORY_DEFAULT_CONFIG) [''latency-sweep''] True),
    set_default (recipe ''latency-sweep'' ''ls'' ''CycleLatencySweep''
      ''Sweep latency by datasize to map cache hierarchy and find optimal datasize for other benchmarks''
      [''latency'', ''sweep'', ''uses-huge-pages''] MEMORY_SWEEP_USER_CFG (Some MEMORY_DEFAULT_CONFIG) [] True),
    set_default (recipe ''bandwidth-sweep'' ''bs'' ''BandwidthSweep''
      ''Sweep bandwidth by datasize to map cache hierarchy''
      [''bandwidth'', ''sweep''] MEMORY_SWEEP_USER_CFG (Some MEMORY_DEFAULT_CONFIG) [''latency-sweep''] True),
    recipe ''loaded-latency'' ''ll'' ''LoadedLatency''
      ''Report loaded memory latency''
      [''latency'', ''uses-huge-pages'', ''long-runtime''] LOADED_LATENCY_USER_CFG (Some LOADED_LATENCY_DEFAULT_CONFIG) [''latency-sweep''] True,
    set_default (recipe ''c2c-latency'' ''ccl'' ''CoreToCoreLatency''
      ''Report core to core latency (Experimental feature)''
      [''latency'', ''long-runtime''] C2C_USER_CFG (Some C2C_DEFAULT_CONFIG) [''latency-sweep''] True)]"

definition network_recipes :: "bool \<Rightarrow> bool \<Rightarrow> recipe_metadata list" where
  "network_recipes ip_dump sysreg = create_category ''network'' [
    recipe ''iperf3-tcp-sweep'' ''ipts'' ''Iperf3TcpSweep''
      ''Run a TCP-only iperf3 sweep and report throughput plus CPU utilization.''
      [''network'', ''iperf3'', ''experimental'', ''tcp''] IPERF3_TCP_SWEEP_USER_CFG (Some IPERF3_SWEEP_DEFAULT_CONFIG) [''network-info''] True,
    recipe ''iperf3-udp-sweep'' ''ipus'' ''Iperf3UdpSweep''
      ''Run a UDP-only iperf3 sweep and report throughput plus CPU utilization.''
      [''network'', ''iperf3'', ''experimental'', ''udp''] IPERF3_UDP_SWEEP_USER_CFG (Some IPERF3_SWEEP_DEFAULT_CONFIG) [''network-info''] True]"

definition io_recipes :: "bool \<Rightarrow> bool \<Rightarrow> recipe_metadata list" where
  "io_recipes ip_dump sysreg = create_category ''io'' [
    recipe ''storage-request-size-sweep'' ''srss'' ''RequestSizeSweep''
      ''Sweep storage I/O request sizes to measure performance''
      [''storage'', ''dsweep''] STORAGE_REQUEST_SIZE_USER_CFG (Some STORAGE_REQUEST_SIZE_DEFAULT_CONFIG) [] True,
    recipe ''storage-io-depth-sweep'' ''sids'' ''IODepthSweep''
      ''Sweep storage I/O depths to measure performance''
      [''storage'', ''dsweep''] STORAGE_IO_DEPTH_USER_CFG (Some STORAGE_IO_DEPTH_DEFAULT_CONFIG) [] True,
    recipe ''storage-process-count-sweep'' ''spcs'' ''ProcessCountSweep''
      ''Sweep process count to measure performance''
      [''storage'', ''dsweep''] STORAGE_PROCESS_COUNT_USER_CFG (Some STORAGE_PROCESS_COUNT_DEFAULT_CONFIG) [] True,
    recipe ''storage-access-pattern-sweep'' ''saps'' ''AccessPatternSweep''
      ''Sweep storage I/O access patterns to measure performance''
      [''storage'', ''dsweep''] STORAGE_ACCESS_PATTERN_USER_CFG (Some STORAGE_ACCESS_PATTERN_DEFAULT_CONFIG) [] True]"

definition ASCT_RECIPE_METADATA :: "bool \<Rightarrow> bool \<Rightarrow> recipe_metadata list" where
  "ASCT_RECIPE_METADATA ip_dump sysreg =
     (case create_metadata [report_recipes ip_dump sysreg, memory_recipes ip_dump sysreg,
        network_recipes ip_dump sysreg, io_recipes ip_dump sysreg] of Inr ms \<Rightarrow> ms | Inl e \<Rightarrow> [])"

definition is_negative :: "string \<Rightarrow> bool" where
  "is_negative k \<longleftrightarrow> (case k of [] \<Rightarrow> False | c # _ \<Rightarrow> c = CHR_NEG_FILTER)"

definition get_recipe_metadata :: "recipe_metadata list \<Rightarrow> string list \<Rightarrow> recipe_metadata list" where
  "get_recipe_metadata all category =
     (if category = [] then all
      else let inc = filter (\<lambda>v. \<not> is_negative v) category;
               exc = map tl (filter is_negative category)
           in filter (\<lambda>r. rm_category r \<notin> set exc \<and> (inc \<noteq> [] \<longrightarrow> rm_category r \<in> set inc)) all)"

definition ASCT_RUN_RECIPE_METADATA :: "bool \<Rightarrow> bool \<Rightarrow> recipe_metadata list" where
  "ASCT_RUN_RECIPE_METADATA ip_dump sysreg = get_recipe_metadata (ASCT_RECIPE_METADATA ip_dump sysreg) [''^report'']"

definition ASCT_REPORT_RECIPE_METADATA :: "bool \<Rightarrow> bool \<Rightarrow> recipe_metadata list" where
  "ASCT_REPORT_RECIPE_METADATA ip_dump sysreg = get_recipe_metadata (ASCT_RECIPE_METADATA ip_dump sysreg) [''report'']"

definition by_name :: "recipe_metadata list \<Rightarrow> (string, recipe_metadata) dict" where
  "by_name ms = dict_of (map (\<lambda>m. (rm_name m, m)) ms)"

definition get_recipe_metadata_for_names :: "recipe_metadata list \<Rightarrow> string list \<Rightarrow> recipe_metadata list res" where
  "get_recipe_metadata_for_names all names = map_res (\<lambda>n. case map_of (by_name all) n of
       None \<Rightarrow> Inl (Exc KeyError n) | Some m \<Rightarrow> Inr m) names"

definition get_recipe :: "string \<Rightarrow> recipe_metadata list \<Rightarrow> recipe_metadata option" where
  "get_recipe name ms = find (\<lambda>r. name = rm_short r \<or> name = rm_name r) ms"

definition get_recipe_descr_as_dict :: "recipe_metadata list \<Rightarrow> (string, (string, string) dict) dict" where
  "get_recipe_descr_as_dict ms = foldl (\<lambda>d r.
     dset (rm_category r) (dset (rm_name r) (rm_description r) (dget d (rm_category r) [])) d) [] ms"

definition get_recipe_descr_as_list :: "recipe_metadata list \<Rightarrow> string list list" where
  "get_recipe_descr_as_list ms = map (\<lambda>r. [rm_category r, rm_name r, rm_description r]) ms"

definition get_all_tags :: "recipe_metadata list \<Rightarrow> string list" where
  "get_all_tags ms =
     (let names = concat (map (\<lambda>r. [rm_name r, rm_short r]) ms);
          others = foldl (\<lambda>acc t. set_add t acc) [] (concat (map get_printable_tags ms) @ [TAG_ALL, TAG_DEFAULT])
      in names @ map (Cons CHR_NEG_FILTER) names @ others @ map (Cons CHR_NEG_FILTER) others)"

section \<open>Selecting recipes by keywords\<close>

record filtered_benchmarks =
  positive_filter :: "string list"
  negative_filter :: "string list"
  filtered_list :: "string list"
  complete_list :: "string list"
  filtered_in :: "string list"
  filtered_out :: "string list"
  filtered_out_depends :: "(string \<times> string) list"
  added_dependencies :: "(string, string list) dict"
  cached_dependencies :: "(string, string list) dict"

definition intersects :: "string list \<Rightarrow> string list \<Rightarrow> bool" where
  "intersects xs ys \<longleftrightarrow> list_ex (\<lambda>x. x \<in> set ys) xs"

text \<open>The first dependency that a negative filter hits; the table knows every dependency.\<close>

fun removed_dependency :: "(string, recipe_metadata) dict \<Rightarrow> string list \<Rightarrow> string list \<Rightarrow> string option res" where
  "removed_dependency global neg [] = Inr None"
| "removed_dependency global neg (d # ds) = (case map_of global d of
       None \<Rightarrow> Inl (Exc KeyError d)
     | Some m \<Rightarrow> if intersects neg (rm_tags m) then Inr (Some d) else removed_dependency global neg ds)"

text \<open>For every added item: \<open>Inl\<close> removed by name, \<open>Inr\<close> the dependency that removes it.\<close>

fun removals :: "(string, recipe_metadata) dict \<Rightarrow> string list \<Rightarrow> recipe_metadata list \<Rightarrow>
    (string list \<times> (string \<times> string) list) res" where
  "removals global neg [] = Inr ([], [])"
| "removals global neg (m # ms) =
     (if intersects neg (rm_tags m)
      then bindr (removals global neg ms) (\<lambda>(rem, ind). Inr (rm_name m # rem, ind))
      else bindr (removed_dependency global neg (rm_depends_on m)) (\<lambda>d.
           bindr (removals global neg ms) (\<lambda>(rem, ind).
             Inr (rem, case d of None \<Rightarrow> ind | Some d' \<Rightarrow> (rm_name m, d') # ind))))"

fun reverse_dependencies :: "(string, recipe_metadata) dict \<Rightarrow> string list \<Rightarrow> (string, string list) dict \<Rightarrow>
    (string, string list) dict res" where
  "reverse_dependencies global [] rd = Inr rd"
| "reverse_dependencies global (b # bs) rd = (case map_of global b of
       None \<Rightarrow> Inl (Exc KeyError b)
     | Some m \<Rightarrow> reverse_dependencies global bs
         (foldl (\<lambda>r d. dset d (dget r d [] @ [b]) r) rd (rm_depends_on m)))"

definition resolve_added :: "(string, recipe_metadata) dict \<Rightarrow> string list \<Rightarrow> (string, string list) dict res" where
  "resolve_added global bs = bindr (reverse_dependencies global bs [])
     (\<lambda>rd. Inr (filter (\<lambda>(d, _). d \<notin> set bs) rd))"

definition keyword_filters :: "string list \<Rightarrow> string list \<times> string list" where
  "keyword_filters keywords =
     (let pos = remdups (filter (\<lambda>k. \<not> is_negative k) keywords);
          neg = remdups (map tl (filter is_negative keywords))
      in (if pos = [] then [TAG_DEFAULT] else pos, neg))"

definition get_filtered_recipes :: "recipe_metadata list \<Rightarrow> recipe_metadata list \<Rightarrow> string list \<Rightarrow> bool \<Rightarrow>
    filtered_benchmarks res" where
  "get_filtered_recipes global metadata keywords add_dependencies =
     (let (pos, neg) = keyword_filters keywords;
          global_by_name = by_name global;
          added = filter (\<lambda>m. intersects pos (rm_tags m)) (map snd (by_name metadata))
      in bindr (removals global_by_name neg added) (\<lambda>(removed, indirect).
         let items = filter (\<lambda>n. n \<notin> set removed \<and> n \<notin> fst ` set indirect) (map rm_name added);
             res = \<lparr>positive_filter = sort pos, negative_filter = sort neg, filtered_list = sort items,
               complete_list = sort items, filtered_in = sort (map rm_name added), filtered_out = sort removed,
               filtered_out_depends = indirect, added_dependencies = [], cached_dependencies = []\<rparr>
         in if add_dependencies
            then bindr (resolve_added global_by_name items) (\<lambda>deps.
                   Inr (res\<lparr>added_dependencies := deps, complete_list := sort (sort items @ dkeys deps)\<rparr>))
            else Inr res))"

section \<open>Orders and dependencies\<close>

definition resolve_dependencies :: "recipe_metadata list \<Rightarrow> string list \<Rightarrow> string list res" where
  "resolve_dependencies global names =
     bindr (get_recipe_metadata_for_names global names)
       (\<lambda>ms. static_order (dict_of (map (\<lambda>m. (rm_name m, rm_depends_on m)) ms)))"

text \<open>Grouping by category in order of first occurrence, each group sorted by priority.\<close>

definition get_recipes :: "recipe_metadata list \<Rightarrow> (string \<Rightarrow> nat) \<Rightarrow> string list \<Rightarrow> string list res" where
  "get_recipes global priority names =
     bindr (get_recipe_metadata_for_names global names) (\<lambda>ms.
       Inr (concat (map (\<lambda>(_, rs). sort_key priority (map rm_name rs))
         (foldl (\<lambda>d m. dset (rm_category m) (dget d (rm_category m) [] @ [m]) d) [] ms))))"

text \<open>
  \<open>restore\<close> stands for the two cache calls on one dependency: whether it is cached and
  could be restored, with the effect on the state of the output folder; it may raise.
\<close>

fun split_cached :: "(string \<Rightarrow> 's \<Rightarrow> bool res \<times> 's) \<Rightarrow> (string, string list) dict \<Rightarrow> 's \<Rightarrow>
    ((string, string list) dict \<times> (string, string list) dict) res \<times> 's" where
  "split_cached restore [] s = (Inr ([], []), s)"
| "split_cached restore ((bm, v) # rest) s =
     (case restore bm s of
        (Inl e, s1) \<Rightarrow> (Inl e, s1)
      | (Inr hit, s1) \<Rightarrow>
          (case split_cached restore rest s1 of
             (Inl e, s2) \<Rightarrow> (Inl e, s2)
           | (Inr (cached, open_deps), s2) \<Rightarrow>
               (Inr (if hit then ((bm, v) # cached, open_deps) else (cached, (bm, v) # open_deps)), s2)))"

definition remove_cached_dependencies :: "(string \<Rightarrow> 's \<Rightarrow> bool res \<times> 's) \<Rightarrow> filtered_benchmarks \<Rightarrow> 's \<Rightarrow>
    filtered_benchmarks res \<times> 's" where
  "remove_cached_dependencies restore fb s =
     (case split_cached restore (added_dependencies fb) s of
        (Inl e, s') \<Rightarrow> (Inl e, s')
      | (Inr (cached, open_deps), s') \<Rightarrow>
          (Inr (fb\<lparr>cached_dependencies := cached, added_dependencies := open_deps,
             complete_list := filter (\<lambda>bm. bm \<in> set (filtered_list fb) \<or> bm \<in> set (dkeys open_deps))
               (complete_list fb)\<rparr>), s'))"

definition get_dependents :: "recipe_metadata list \<Rightarrow> string \<Rightarrow> string list \<Rightarrow> string list res" where
  "get_dependents global dep bms =
     bindr (map_res (\<lambda>bm. if bm = dep then Inr (bm, False) else case map_of (by_name global) bm of
         None \<Rightarrow> Inl (Exc KeyError bm)
       | Some m \<Rightarrow> Inr (bm, dep \<in> set (rm_depends_on m))) bms)
       (\<lambda>bs. Inr (map fst (filter snd bs)))"

section \<open>The table\<close>

definition all_unique :: "recipe_metadata list \<Rightarrow> bool" where
  "all_unique ms \<longleftrightarrow> distinct (map rm_name ms) \<and> distinct (map rm_short ms) \<and> distinct (map rm_class ms)"

lemma add_visible_Inr:
  "all_unique acc \<Longrightarrow> add_visible rs acc = Inr ms \<longleftrightarrow> ms = acc @ filter rm_visible rs \<and> all_unique ms"
proof (induction rs arbitrary: acc)
  case (Cons r rs)
  show ?case
  proof (cases "rm_visible r \<and> (rm_name r \<in> rm_name ` set acc \<or> rm_short r \<in> rm_short ` set acc \<or>
      rm_class r \<in> rm_class ` set acc)")
    case True
    hence "\<not> all_unique (acc @ filter rm_visible (r # rs))" by (auto simp: all_unique_def)
    with True show ?thesis by auto
  next
    case False
    show ?thesis
    proof (cases "rm_visible r")
      case True
      with False Cons.prems have "all_unique (acc @ [r])" by (auto simp: all_unique_def)
      with Cons.IH[OF this] True False show ?thesis by auto
    qed (use Cons in simp)
  qed
qed auto

lemma add_visible_Inl: "add_visible rs acc = Inl e \<Longrightarrow> exc_class e = AssertionError"
  by (induction rs arbitrary: acc) (auto simp: duplicate_error_def split: if_splits)

lemma create_metadata_from_Inr:
  "all_unique acc \<Longrightarrow> create_metadata_from ls acc = Inr ms \<longleftrightarrow>
     ms = acc @ filter rm_visible (concat ls) \<and> all_unique ms"
proof (induction ls arbitrary: acc)
  case (Cons l ls)
  have pre: "all_unique (a @ b) \<Longrightarrow> all_unique a" for a b by (simp add: all_unique_def)
  have "create_metadata_from (l # ls) acc = Inr ms \<longleftrightarrow>
      all_unique (acc @ filter rm_visible l) \<and> create_metadata_from ls (acc @ filter rm_visible l) = Inr ms"
    by (simp add: bindr_Inr_iff add_visible_Inr[OF Cons.prems])
  also have "\<dots> \<longleftrightarrow> ms = acc @ filter rm_visible (concat (l # ls)) \<and> all_unique ms"
  proof (cases "all_unique (acc @ filter rm_visible l)")
    case True
    with Cons.IH[OF this] show ?thesis by simp
  next
    case False
    with pre[of "acc @ filter rm_visible l"] show ?thesis by auto
  qed
  finally show ?case .
qed auto

text \<open>
  The table of recipes is built exactly when the visible recipes have pairwise distinct
  names, short names and class names; it then holds the visible recipes in order, and the
  only other outcome is an \<open>AssertionError\<close>.
\<close>

theorem create_metadata_unique:
  "(case create_metadata ls of
      Inr ms \<Rightarrow> ms = filter rm_visible (concat ls) \<and> all_unique ms
    | Inl e \<Rightarrow> exc_class e = AssertionError \<and> \<not> all_unique (filter rm_visible (concat ls)))"
proof (cases "create_metadata ls")
  case (Inl e)
  have "create_metadata_from ls acc = Inl e \<Longrightarrow> exc_class e = AssertionError" for acc
    by (induction ls arbitrary: acc) (auto simp: bindr_Inl_iff dest: add_visible_Inl)
  hence a: "exc_class e = AssertionError" using Inl unfolding create_metadata_def by blast
  have "\<not> all_unique (filter rm_visible (concat ls))"
    using Inl create_metadata_from_Inr[of "[]" ls "filter rm_visible (concat ls)"]
    by (simp add: create_metadata_def all_unique_def[of "[]"])
  with a Inl show ?thesis by simp
next
  case (Inr ms)
  hence "ms = filter rm_visible (concat ls) \<and> all_unique ms"
    using create_metadata_from_Inr[of "[]" ls ms] by (auto simp: create_metadata_def all_unique_def[of "[]"])
  thus ?thesis unfolding Inr sum.case .
qed

lemma recipe_sel [simp]:
  "rm_name (recipe n sh c d ts u dc dep v) = n" "rm_short (recipe n sh c d ts u dc dep v) = sh"
  "rm_class (recipe n sh c d ts u dc dep v) = c" "rm_visible (recipe n sh c d ts u dc dep v) = v"
  "rm_depends_on (recipe n sh c d ts u dc dep v) = dep"
  by (simp_all add: recipe_def add_tags_def)

lemma set_default_sel [simp]:
  "rm_name (set_default r) = rm_name r" "rm_short (set_default r) = rm_short r"
  "rm_class (set_default r) = rm_class r" "rm_visible (set_default r) = rm_visible r"
  "rm_depends_on (set_default r) = rm_depends_on r"
  by (simp_all add: set_default_def add_tags_def)

lemma set_category_sel [simp]:
  "rm_name (set_category c r) = rm_name r" "rm_short (set_category c r) = rm_short r"
  "rm_class (set_category c r) = rm_class r" "rm_visible (set_category c r) = rm_visible r"
  "rm_depends_on (set_category c r) = rm_depends_on r" "rm_category (set_category c r) = c"
  by (simp_all add: set_category_def add_tags_def)

abbreviation all_recipes :: "bool \<Rightarrow> bool \<Rightarrow> recipe_metadata list" where
  "all_recipes ip sr \<equiv> concat [report_recipes ip sr, memory_recipes ip sr, network_recipes ip sr, io_recipes ip sr]"

lemmas recipe_tables = report_recipes_def memory_recipes_def network_recipes_def io_recipes_def create_category_def

lemma all_recipes_unique: "all_unique (all_recipes ip sr)"
  by (simp add: all_unique_def recipe_tables)

lemma all_unique_filter: "all_unique ms \<Longrightarrow> all_unique (filter P ms)"
  by (simp add: all_unique_def distinct_map_filter)

lemma metadata_table: "ASCT_RECIPE_METADATA ip sr = filter rm_visible (all_recipes ip sr)"
proof -
  have "create_metadata [report_recipes ip sr, memory_recipes ip sr, network_recipes ip sr, io_recipes ip sr] =
      Inr (filter rm_visible (all_recipes ip sr))"
    unfolding create_metadata_def
    using create_metadata_from_Inr[of "[]" "[report_recipes ip sr, memory_recipes ip sr, network_recipes ip sr, io_recipes ip sr]"]
      all_unique_filter[OF all_recipes_unique, of rm_visible ip sr]
    by (simp add: all_unique_def)
  thus ?thesis by (simp add: ASCT_RECIPE_METADATA_def)
qed

definition table_ok :: "recipe_metadata list \<Rightarrow> bool" where
  "table_ok ms \<longleftrightarrow> distinct (map rm_name ms) \<and>
     (\<forall>m \<in> set ms. distinct (rm_depends_on m) \<and>
        (\<forall>d \<in> set (rm_depends_on m). \<exists>m' \<in> set ms. rm_name m' = d \<and> rm_depends_on m' = []))"

lemma table_deps: "m \<in> set (all_recipes ip sr) \<Longrightarrow>
    rm_depends_on m \<in> {[], [''latency-sweep''], [''network-info'']}"
proof -
  have "\<forall>m \<in> set (all_recipes ip sr).
      rm_depends_on m = [] \<or> rm_depends_on m = [''latency-sweep''] \<or> rm_depends_on m = [''network-info'']"
    by (simp add: recipe_tables)
  thus "m \<in> set (all_recipes ip sr) \<Longrightarrow> rm_depends_on m \<in> {[], [''latency-sweep''], [''network-info'']}"
    by blast
qed

lemma table_targets:
  assumes "d = ''latency-sweep'' \<or> d = ''network-info''"
  shows "\<exists>m' \<in> set (ASCT_RECIPE_METADATA ip sr). rm_name m' = d \<and> rm_depends_on m' = []"
proof -
  have n: "\<exists>m \<in> set (report_recipes ip sr). rm_name m = ''network-info'' \<and> rm_visible m \<and> rm_depends_on m = []"
    by (simp add: recipe_tables)
  have l: "\<exists>m \<in> set (memory_recipes ip sr). rm_name m = ''latency-sweep'' \<and> rm_visible m \<and> rm_depends_on m = []"
    by (simp add: recipe_tables)
  have "set (report_recipes ip sr) \<union> set (memory_recipes ip sr) \<subseteq> set (all_recipes ip sr)" by auto
  with n l assms show ?thesis unfolding metadata_table by fastforce
qed

lemma metadata_table_ok: "table_ok (ASCT_RECIPE_METADATA ip sr)"
  unfolding table_ok_def
proof (intro conjI ballI)
  show "distinct (map rm_name (ASCT_RECIPE_METADATA ip sr))"
    using all_unique_filter[OF all_recipes_unique] by (simp add: metadata_table all_unique_def)
next
  fix m assume "m \<in> set (ASCT_RECIPE_METADATA ip sr)"
  hence d: "rm_depends_on m \<in> {[], [''latency-sweep''], [''network-info'']}"
    using table_deps[of m ip sr] unfolding metadata_table set_filter by blast
  thus "distinct (rm_depends_on m)" by auto
  fix d assume "d \<in> set (rm_depends_on m)"
  with d have "d = ''latency-sweep'' \<or> d = ''network-info''" by auto
  thus "\<exists>m' \<in> set (ASCT_RECIPE_METADATA ip sr). rm_name m' = d \<and> rm_depends_on m' = []"
    by (rule table_targets)
qed

section \<open>Selection\<close>

lemma by_name_distinct: "distinct (map rm_name ms) \<Longrightarrow> by_name ms = map (\<lambda>m. (rm_name m, m)) ms"
  by (simp add: by_name_def dict_of_wf comp_def)

lemma by_name_map_of:
  "distinct (map rm_name ms) \<Longrightarrow> map_of (by_name ms) n = Some m \<longleftrightarrow> m \<in> set ms \<and> rm_name m = n"
  by (auto simp: by_name_distinct comp_def)

lemma by_name_None: "distinct (map rm_name ms) \<Longrightarrow> map_of (by_name ms) n = None \<longleftrightarrow> n \<notin> rm_name ` set ms"
  by (auto simp: by_name_distinct map_of_eq_None_iff image_image)

lemma intersects_iff: "intersects xs ys \<longleftrightarrow> set xs \<inter> set ys \<noteq> {}"
  by (auto simp: intersects_def list_ex_iff)

text \<open>Two recipes of one table are related by name; \<open>hit\<close> says that a filter meets a recipe.\<close>

definition hit :: "string list \<Rightarrow> recipe_metadata \<Rightarrow> bool" where
  "hit keys m \<longleftrightarrow> set keys \<inter> set (rm_tags m) \<noteq> {}"

lemma intersects_hit: "intersects keys (rm_tags m) \<longleftrightarrow> hit keys m"
  by (simp add: intersects_iff hit_def)

definition dep_hit :: "recipe_metadata list \<Rightarrow> string list \<Rightarrow> recipe_metadata \<Rightarrow> bool" where
  "dep_hit global keys m \<longleftrightarrow> (\<exists>d \<in> set global. rm_name d \<in> set (rm_depends_on m) \<and> hit keys d)"

lemma removed_dependency_spec:
  assumes "distinct (map rm_name global)" "set ds \<subseteq> rm_name ` set global"
  shows "\<exists>r. removed_dependency (by_name global) neg ds = Inr r \<and>
    (r \<noteq> None \<longleftrightarrow> (\<exists>d \<in> set global. rm_name d \<in> set ds \<and> hit neg d)) \<and> (\<forall>d. r = Some d \<longrightarrow> d \<in> set ds)"
  using assms(2)
proof (induction ds)
  case (Cons n ds)
  then obtain m where m: "m \<in> set global" "rm_name m = n" by auto
  hence lk: "map_of (by_name global) n = Some m" using by_name_map_of[OF assms(1)] by simp
  have only: "d = m" if "d \<in> set global" "rm_name d = n" for d
    using that m assms(1) by (metis inj_onD distinct_map)
  obtain r where r: "removed_dependency (by_name global) neg ds = Inr r"
      "r \<noteq> None \<longleftrightarrow> (\<exists>d \<in> set global. rm_name d \<in> set ds \<and> hit neg d)" "\<forall>d. r = Some d \<longrightarrow> d \<in> set ds"
    using Cons by auto
  show ?case
  proof (cases "hit neg m")
    case True
    with m lk show ?thesis by (auto simp: intersects_iff hit_def)
  next
    case False
    hence "removed_dependency (by_name global) neg (n # ds) = Inr r"
      using lk r(1) by (simp add: intersects_iff hit_def)
    moreover have "(\<exists>d \<in> set global. rm_name d \<in> set (n # ds) \<and> hit neg d) \<longleftrightarrow>
        (\<exists>d \<in> set global. rm_name d \<in> set ds \<and> hit neg d)"
      using False only by auto
    ultimately show ?thesis using r(2,3) by auto
  qed
qed simp

lemma removals_spec:
  assumes "distinct (map rm_name global)" "\<forall>m \<in> set ms. set (rm_depends_on m) \<subseteq> rm_name ` set global"
  shows "\<exists>rem ind. removals (by_name global) neg ms = Inr (rem, ind) \<and>
    rem = map rm_name (filter (hit neg) ms) \<and>
    map fst ind = map rm_name (filter (\<lambda>m. \<not> hit neg m \<and> dep_hit global neg m) ms)"
  using assms(2)
proof (induction ms)
  case (Cons m ms)
  then obtain rem ind where IH: "removals (by_name global) neg ms = Inr (rem, ind)"
      "rem = map rm_name (filter (hit neg) ms)"
      "map fst ind = map rm_name (filter (\<lambda>m. \<not> hit neg m \<and> dep_hit global neg m) ms)"
    by auto
  obtain r where r: "removed_dependency (by_name global) neg (rm_depends_on m) = Inr r"
      "r \<noteq> None \<longleftrightarrow> dep_hit global neg m"
    using removed_dependency_spec[OF assms(1), of "rm_depends_on m" neg] Cons.prems
    by (auto simp: dep_hit_def)
  show ?case
    using IH r by (cases r) (auto simp: intersects_hit)
qed simp


lemma reverse_dependencies_spec:
  assumes "distinct (map rm_name global)" "set bs \<subseteq> rm_name ` set global" "wf_dict rd"
  shows "\<exists>rd'. reverse_dependencies (by_name global) bs rd = Inr rd' \<and> wf_dict rd' \<and>
    set (dkeys rd') = set (dkeys rd) \<union> (\<Union>m \<in> {m \<in> set global. rm_name m \<in> set bs}. set (rm_depends_on m))"
  using assms(2,3)
proof (induction bs arbitrary: rd)
  case (Cons n bs)
  then obtain m where m: "m \<in> set global" "rm_name m = n" by auto
  hence lk: "map_of (by_name global) n = Some m" using by_name_map_of[OF assms(1)] by simp
  have only: "d = m" if "d \<in> set global" "rm_name d = n" for d
    using that m assms(1) by (metis inj_onD distinct_map)
  have keys: "wf_dict r \<Longrightarrow> wf_dict (foldl (\<lambda>r d. dset d (dget r d [] @ [n]) r) r ds) \<and>
      fst ` set (foldl (\<lambda>r d. dset d (dget r d [] @ [n]) r) r ds) = fst ` set r \<union> set ds" for ds and r :: "(string, string list) dict"
    by (induction ds arbitrary: r) auto
  define r1 where "r1 = foldl (\<lambda>r d. dset d (dget r d [] @ [n]) r) rd (rm_depends_on m)"
  have k1: "wf_dict r1" "fst ` set r1 = fst ` set rd \<union> set (rm_depends_on m)"
    using keys[OF Cons.prems(2), of "rm_depends_on m"] by (simp_all add: r1_def)
  have step: "reverse_dependencies (by_name global) (n # bs) rd = reverse_dependencies (by_name global) bs r1"
    by (simp add: lk r1_def)
  have "set bs \<subseteq> rm_name ` set global" using Cons.prems(1) by simp
  from Cons.IH[OF this k1(1)] obtain rd' where rd': "reverse_dependencies (by_name global) bs r1 = Inr rd'"
      "wf_dict rd'" "set (dkeys rd') = set (dkeys r1) \<union>
         (\<Union>m \<in> {m \<in> set global. rm_name m \<in> set bs}. set (rm_depends_on m))"
    by blast
  have un: "(\<Union>m \<in> {m \<in> set global. rm_name m \<in> set (n # bs)}. set (rm_depends_on m)) =
      set (rm_depends_on m) \<union> (\<Union>m \<in> {m \<in> set global. rm_name m \<in> set bs}. set (rm_depends_on m))"
  proof -
    have "{m \<in> set global. rm_name m \<in> set (n # bs)} = insert m {m \<in> set global. rm_name m \<in> set bs}"
    proof (rule set_eqI)
      fix x
      show "x \<in> {m \<in> set global. rm_name m \<in> set (n # bs)} \<longleftrightarrow> x \<in> insert m {m \<in> set global. rm_name m \<in> set bs}"
        using only[of x] m by auto
    qed
    thus ?thesis by simp
  qed
  have "set (dkeys rd') = set (dkeys rd) \<union>
      (\<Union>m \<in> {m \<in> set global. rm_name m \<in> set (n # bs)}. set (rm_depends_on m))"
    unfolding un rd'(3) by (simp add: k1(2) Un_assoc)
  with rd'(1,2) show ?case unfolding step by blast
qed auto

definition selected :: "recipe_metadata list \<Rightarrow> string list \<Rightarrow> recipe_metadata \<Rightarrow> bool" where
  "selected global keywords m \<longleftrightarrow> (case keyword_filters keywords of (pos, neg) \<Rightarrow>
     hit pos m \<and> \<not> hit neg m \<and> \<not> dep_hit global neg m)"

lemma distinct_sort_names: "distinct (map rm_name ms) \<Longrightarrow> distinct (map rm_name (filter P ms))"
  by (simp add: distinct_map_filter)

text \<open>
  The keyword selection never fails on a table with distinct names and known
  dependencies.  It selects exactly the recipes that some positive keyword names (the
  default ones when there is none), that no negative keyword names, and none of whose
  dependencies a negative keyword names; the complete list adds exactly their direct
  dependencies; both lists are sorted and without repetitions.
\<close>

theorem get_filtered_recipes_spec:
  assumes "distinct (map rm_name global)" "distinct (map rm_name metadata)" "set metadata \<subseteq> set global"
    "\<forall>m \<in> set global. set (rm_depends_on m) \<subseteq> rm_name ` set global"
  shows "\<exists>fb. get_filtered_recipes global metadata keywords True = Inr fb \<and>
    set (filtered_list fb) = rm_name ` {m \<in> set metadata. selected global keywords m} \<and>
    set (complete_list fb) = set (filtered_list fb) \<union>
      (\<Union>m \<in> {m \<in> set metadata. selected global keywords m}. set (rm_depends_on m)) \<and>
    sorted (filtered_list fb) \<and> distinct (filtered_list fb) \<and>
    sorted (complete_list fb) \<and> distinct (complete_list fb)"
proof -
  obtain pos neg where kf: "keyword_filters keywords = (pos, neg)" by fastforce
  define added where "added = filter (hit pos) metadata"
  have ad: "filter (\<lambda>m. intersects pos (rm_tags m)) (map snd (by_name metadata)) = added"
    by (simp add: by_name_distinct[OF assms(2)] added_def intersects_hit comp_def)
  have sub: "\<forall>m \<in> set added. set (rm_depends_on m) \<subseteq> rm_name ` set global"
    using assms(3,4) by (auto simp: added_def)
  obtain ind where rm: "removals (by_name global) neg added = Inr (map rm_name (filter (hit neg) added), ind)"
      "map fst ind = map rm_name (filter (\<lambda>m. \<not> hit neg m \<and> dep_hit global neg m) added)"
    using removals_spec[OF assms(1) sub, of neg] by auto
  define items where "items = map rm_name (filter (selected global keywords) metadata)"
  have da: "distinct (map rm_name added)" using assms(2) by (simp add: added_def distinct_sort_names)
  have inj: "m = m'" if "m \<in> set added" "m' \<in> set added" "rm_name m = rm_name m'" for m m'
    using da that by (metis inj_onD distinct_map)
  have fsi: "fst ` set ind = rm_name ` {m \<in> set added. \<not> hit neg m \<and> dep_hit global neg m}"
    using arg_cong[OF rm(2), of set] by simp
  have it: "filter (\<lambda>n. n \<notin> set (map rm_name (filter (hit neg) added)) \<and> n \<notin> fst ` set ind) (map rm_name added) = items"
  proof -
    have "rm_name m \<notin> rm_name ` {m \<in> set added. hit neg m} \<and> rm_name m \<notin> fst ` set ind \<longleftrightarrow>
        \<not> hit neg m \<and> \<not> dep_hit global neg m" if "m \<in> set added" for m
      using that inj unfolding fsi by blast
    hence "filter (\<lambda>n. n \<notin> set (map rm_name (filter (hit neg) added)) \<and> n \<notin> fst ` set ind) (map rm_name added) =
        map rm_name (filter (\<lambda>m. \<not> hit neg m \<and> \<not> dep_hit global neg m) added)"
      unfolding filter_map comp_def by (intro arg_cong[where f = "map rm_name"] filter_cong) simp_all
    also have "\<dots> = items"
    proof -
      have "selected global keywords = (\<lambda>m. hit pos m \<and> \<not> hit neg m \<and> \<not> dep_hit global neg m)"
        by (simp add: fun_eq_iff selected_def kf)
      thus ?thesis by (simp add: items_def added_def)
    qed
    finally show ?thesis .
  qed
  have di: "distinct items" using assms(2) by (simp add: items_def distinct_sort_names)
  have si: "set items \<subseteq> rm_name ` set global" using assms(3) by (auto simp: items_def)
  obtain rd where rd: "reverse_dependencies (by_name global) items [] = Inr rd" "wf_dict rd"
      "set (dkeys rd) = (\<Union>m \<in> {m \<in> set global. rm_name m \<in> set items}. set (rm_depends_on m))"
    using reverse_dependencies_spec[OF assms(1) si, of "[]"] by auto
  define deps where "deps = filter (\<lambda>(d, _). d \<notin> set items) rd"
  have ra: "resolve_added (by_name global) items = Inr deps"
    using rd(1) by (simp add: resolve_added_def deps_def)
  have wd: "wf_dict deps" "set (dkeys deps) = set (dkeys rd) - set items"
    using rd(2) by (auto simp: deps_def distinct_map_filter case_prod_unfold intro: rev_image_eqI)
  have same: "{m \<in> set global. rm_name m \<in> set items} = {m \<in> set metadata. selected global keywords m}"
    using assms(1,3) by (auto simp: items_def) (metis inj_onD distinct_map subsetD)+
  obtain fb where fb: "get_filtered_recipes global metadata keywords True = Inr fb"
      "filtered_list fb = sort items" "complete_list fb = sort (sort items @ dkeys deps)"
    using ad rm(1) it ra by (simp add: get_filtered_recipes_def kf Let_def)
  have "set (complete_list fb) = set items \<union> (\<Union>m \<in> {m \<in> set metadata. selected global keywords m}. set (rm_depends_on m))"
    using wd(2) rd(3) unfolding fb(3) same by auto
  moreover have "set (filtered_list fb) = rm_name ` {m \<in> set metadata. selected global keywords m}"
    using fb(2) by (auto simp: items_def)
  moreover have "distinct (sort items @ dkeys deps)" using di wd by auto
  ultimately show ?thesis using fb di by (auto simp: items_def)
qed

lemma table_okD:
  assumes "table_ok ms"
  shows "distinct (map rm_name ms)" "\<forall>m \<in> set ms. set (rm_depends_on m) \<subseteq> rm_name ` set ms"
  using assms unfolding table_ok_def by (simp, fastforce)

lemma get_recipe_metadata_sub:
  "set (get_recipe_metadata all cats) \<subseteq> set all"
  "distinct (map rm_name all) \<Longrightarrow> distinct (map rm_name (get_recipe_metadata all cats))"
  by (auto simp: get_recipe_metadata_def Let_def distinct_map_filter)

lemma metadata_for_names:
  assumes "distinct (map rm_name ms)" "set names \<subseteq> rm_name ` set ms"
  shows "\<exists>rs. get_recipe_metadata_for_names ms names = Inr rs \<and> map rm_name rs = names \<and> set rs \<subseteq> set ms"
  using assms(2)
proof (induction names)
  case (Cons n names)
  then obtain m where m: "m \<in> set ms" "rm_name m = n" by auto
  hence "map_of (by_name ms) n = Some m" using by_name_map_of[OF assms(1)] by simp
  with Cons m show ?case by (auto simp: get_recipe_metadata_for_names_def)
qed (simp add: get_recipe_metadata_for_names_def)

text \<open>Every set of recipes that contains the dependencies of its members can be ordered.\<close>

lemma resolve_dependencies_closed:
  assumes t: "table_ok ms" and d: "distinct names" and sub: "set names \<subseteq> rm_name ` set ms"
    and cl: "\<forall>m \<in> set ms. rm_name m \<in> set names \<longrightarrow> set (rm_depends_on m) \<subseteq> set names"
  shows "\<exists>ns. resolve_dependencies ms names = Inr ns \<and> distinct ns \<and> set ns = set names \<and>
    (\<forall>m \<in> set ms. rm_name m \<in> set names \<longrightarrow> (\<forall>dep \<in> set (rm_depends_on m). before dep (rm_name m) ns))"
proof -
  note tD = table_okD[OF t]
  obtain rs where rs: "get_recipe_metadata_for_names ms names = Inr rs" "map rm_name rs = names" "set rs \<subseteq> set ms"
    using metadata_for_names[OF tD(1) sub] by blast
  define g where "g = map (\<lambda>m. (rm_name m, rm_depends_on m)) rs"
  have w: "wf_dict g" using rs(2) d by (simp add: g_def comp_def)
  have keys: "set (dkeys g) = set names" using rs(2) by (auto simp: g_def)
  have uniq: "m = m'" if "m \<in> set ms" "m' \<in> set ms" "rm_name m = rm_name m'" for m m'
    using tD(1) that by (metis inj_onD distinct_map)
  define r where "r n = (if \<exists>m \<in> set ms. rm_name m = n \<and> rm_depends_on m \<noteq> [] then 1 else 0 :: nat)" for n
  have rank: "ranked g r"
    unfolding ranked_def
  proof (clarify)
    fix n ds dep assume "(n, ds) \<in> set g" "dep \<in> set ds"
    then obtain m where m: "m \<in> set ms" "rm_name m = n" "dep \<in> set (rm_depends_on m)"
      using rs(3) by (auto simp: g_def)
    hence "r n = 1" by (auto simp: r_def)
    moreover obtain m' where "m' \<in> set ms" "rm_name m' = dep" "rm_depends_on m' = []"
      using t m unfolding table_ok_def by blast
    hence "r dep = 0" using uniq by (auto simp: r_def)
    ultimately show "r dep < r n" by simp
  qed
  obtain ns where ns: "static_order g = Inr ns" using sorter.order_total[OF w rank] by blast
  have "closed_graph g"
    unfolding closed_graph_def keys
  proof (clarify)
    fix n ds dep assume "(n, ds) \<in> set g" "dep \<in> set ds"
    then obtain m where "m \<in> set rs" "rm_name m = n" "dep \<in> set (rm_depends_on m)" by (auto simp: g_def)
    moreover have "rm_name m \<in> set names" if "m \<in> set rs" for m using that rs(2) by auto
    ultimately show "dep \<in> set names" using cl rs(3) by blast
  qed
  note oc = sorter.order_closed[OF w this ns]
  have "resolve_dependencies ms names = Inr ns"
    using rs(1) ns dict_of_wf[OF w] by (simp add: resolve_dependencies_def g_def)
  moreover have "before dep (rm_name m) ns"
    if m: "m \<in> set ms" "rm_name m \<in> set names" and dep: "dep \<in> set (rm_depends_on m)" for m dep
  proof -
    have "rm_name m \<in> set (map rm_name rs)" using m(2) rs(2) by simp
    then obtain m' where "m' \<in> set rs" "rm_name m' = rm_name m" by auto
    hence "m \<in> set rs" using uniq m(1) rs(3) by (metis subsetD)
    hence "(rm_name m, rm_depends_on m) \<in> set g" by (auto simp: g_def)
    from sorter.order_deps[OF w ns this dep] show ?thesis .
  qed
  ultimately show ?thesis using sorter.order_distinct[OF w ns] oc(1) keys by auto
qed

text \<open>
  C10.  On the shipped table every selection by category and keywords succeeds and its
  complete list can be put in a running order: a permutation of the list in which every
  recipe comes after all its dependencies.
\<close>

theorem selection_runs_in_order:
  "\<exists>fb ns. get_filtered_recipes (ASCT_RECIPE_METADATA ip sr)
      (get_recipe_metadata (ASCT_RECIPE_METADATA ip sr) cats) keywords True = Inr fb \<and>
    resolve_dependencies (ASCT_RECIPE_METADATA ip sr) (complete_list fb) = Inr ns \<and>
    distinct ns \<and> set ns = set (complete_list fb) \<and>
    (\<forall>m \<in> set (ASCT_RECIPE_METADATA ip sr). rm_name m \<in> set ns \<longrightarrow>
       (\<forall>d \<in> set (rm_depends_on m). before d (rm_name m) ns))"
proof -
  define G where "G = ASCT_RECIPE_METADATA ip sr"
  define M where "M = get_recipe_metadata G cats"
  have t: "table_ok G" by (simp add: G_def metadata_table_ok)
  note tD = table_okD[OF t]
  have M: "set M \<subseteq> set G" "distinct (map rm_name M)"
    using get_recipe_metadata_sub[of G cats] tD(1) by (auto simp: M_def)
  obtain fb where fb: "get_filtered_recipes G M keywords True = Inr fb"
      "set (filtered_list fb) = rm_name ` {m \<in> set M. selected G keywords m}"
      "set (complete_list fb) = set (filtered_list fb) \<union>
         (\<Union>m \<in> {m \<in> set M. selected G keywords m}. set (rm_depends_on m))"
      "distinct (complete_list fb)"
    using get_filtered_recipes_spec[OF tD(1) M(2,1) tD(2), of "keywords"] by blast
  have uniq: "m = m'" if "m \<in> set G" "m' \<in> set G" "rm_name m = rm_name m'" for m m'
    using tD(1) that by (metis inj_onD distinct_map)
  have sub: "set (complete_list fb) \<subseteq> rm_name ` set G"
    using fb(2,3) M(1) tD(2) by blast
  have "set (rm_depends_on m) \<subseteq> set (complete_list fb)"
    if m: "m \<in> set G" "rm_name m \<in> set (complete_list fb)" for m
  proof (cases "rm_depends_on m = []")
    case False
    have "rm_name m \<notin> (\<Union>m \<in> {m \<in> set M. selected G keywords m}. set (rm_depends_on m))"
    proof
      assume "rm_name m \<in> (\<Union>m \<in> {m \<in> set M. selected G keywords m}. set (rm_depends_on m))"
      then obtain m1 where "m1 \<in> set G" "rm_name m \<in> set (rm_depends_on m1)" using M(1) by blast
      then obtain m' where "m' \<in> set G" "rm_name m' = rm_name m" "rm_depends_on m' = []"
        using t unfolding table_ok_def by blast
      with uniq[OF m(1)] False show False by metis
    qed
    then obtain m1 where "m1 \<in> set M" "selected G keywords m1" "rm_name m1 = rm_name m"
      using m(2) fb(2,3) by auto
    moreover have "m1 = m" using calculation uniq m(1) M(1) by blast
    ultimately show ?thesis using fb(3) by blast
  qed simp
  then obtain ns where "resolve_dependencies G (complete_list fb) = Inr ns" "distinct ns"
      "set ns = set (complete_list fb)"
      "\<forall>m \<in> set G. rm_name m \<in> set (complete_list fb) \<longrightarrow> (\<forall>dep \<in> set (rm_depends_on m). before dep (rm_name m) ns)"
    using resolve_dependencies_closed[OF t fb(4) sub] by blast
  with fb(1) show ?thesis by (auto simp: G_def M_def)
qed


theorem selection_runs_in_order_witness:
  "\<exists>fb ns. get_filtered_recipes (ASCT_RECIPE_METADATA True False)
      (get_recipe_metadata (ASCT_RECIPE_METADATA True False) [''^report'']) [''il'', ''^storage''] True = Inr fb \<and>
    resolve_dependencies (ASCT_RECIPE_METADATA True False) (complete_list fb) = Inr ns \<and> distinct ns"
  using selection_runs_in_order[of True False "[''^report'']" "[''il'', ''^storage'']"] by blast

definition demo_recipes :: "recipe_metadata list" where
  "demo_recipes = [recipe ''base'' ''b'' ''Base'' ''the base'' [''x''] [] None [] True,
     recipe ''top'' ''t'' ''Top'' ''the top'' [''y''] [] None [''base''] True]"

lemma recipe_tags [simp]:
  "set (rm_tags (recipe n sh c d ts u dc dep v)) = set ts \<union> {n, sh, TAG_ALL}"
  by (auto simp: recipe_def add_tags_def)

theorem get_filtered_recipes_spec_witness:
  "\<exists>fb. get_filtered_recipes demo_recipes demo_recipes [''y'', ''^z''] True = Inr fb \<and>
     set (filtered_list fb) = {''top''} \<and> set (complete_list fb) = {''top'', ''base''}"
proof -
  have kf: "keyword_filters [''y'', ''^z''] = ([''y''], [''z''])"
    by (simp add: keyword_filters_def is_negative_def CHR_NEG_FILTER_def)
  have sel: "{m \<in> set demo_recipes. selected demo_recipes [''y'', ''^z''] m} = {demo_recipes ! 1}"
    by (auto simp: selected_def kf hit_def dep_hit_def demo_recipes_def TAG_ALL_def)
  have ok: "distinct (map rm_name demo_recipes)"
    "\<forall>m \<in> set demo_recipes. set (rm_depends_on m) \<subseteq> rm_name ` set demo_recipes"
    by (simp_all add: demo_recipes_def)
  from get_filtered_recipes_spec[OF ok(1) ok(1) subset_refl ok(2), of "[''y'', ''^z'']"]
  obtain fb where "get_filtered_recipes demo_recipes demo_recipes [''y'', ''^z''] True = Inr fb"
      "set (filtered_list fb) = rm_name ` {demo_recipes ! 1}"
      "set (complete_list fb) = set (filtered_list fb) \<union> set (rm_depends_on (demo_recipes ! 1))"
    unfolding sel by auto
  thus ?thesis by (auto simp: demo_recipes_def)
qed

lemma split_cached_parts:
  "split_cached restore ds s = (Inr (cached, open_deps), s') \<Longrightarrow>
   set ds = set cached \<union> set open_deps \<and> length ds = length cached + length open_deps"
  by (induction restore ds s arbitrary: cached open_deps s' rule: split_cached.induct)
     (auto split: prod.splits sum.splits if_splits)

text \<open>
  Taking the cached dependencies out of a selection splits the added dependencies into
  restored and open ones, keeps every selected benchmark, and leaves in the complete list
  exactly the selected benchmarks and the open dependencies.
\<close>

theorem remove_cached_dependencies_spec:
  assumes "set (complete_list fb) = set (filtered_list fb) \<union> fst ` set (added_dependencies fb)"
    "remove_cached_dependencies restore fb s = (Inr fb', s')"
  shows "filtered_list fb' = filtered_list fb \<and>
    set (added_dependencies fb) = set (cached_dependencies fb') \<union> set (added_dependencies fb') \<and>
    length (added_dependencies fb) = length (cached_dependencies fb') + length (added_dependencies fb') \<and>
    set (complete_list fb') = set (filtered_list fb') \<union> fst ` set (added_dependencies fb') \<and>
    (sorted (complete_list fb) \<longrightarrow> sorted (complete_list fb'))"
proof -
  obtain cached open_deps where sc: "split_cached restore (added_dependencies fb) s = (Inr (cached, open_deps), s')"
      "fb' = fb\<lparr>cached_dependencies := cached, added_dependencies := open_deps,
            complete_list := filter (\<lambda>bm. bm \<in> set (filtered_list fb) \<or> bm \<in> set (dkeys open_deps))
              (complete_list fb)\<rparr>"
    using assms(2) by (auto simp: remove_cached_dependencies_def split: prod.splits sum.splits)
  note parts = split_cached_parts[OF sc(1)]
  have "sorted (complete_list fb) \<longrightarrow> sorted (complete_list fb')"
    using sorted_filter[of id "complete_list fb"] by (simp add: sc(2))
  moreover have "set (complete_list fb') = set (filtered_list fb') \<union> fst ` set (added_dependencies fb')"
    using parts assms(1) by (auto simp: sc(2))
  ultimately show ?thesis using parts by (simp add: sc(2))
qed

definition demo_selection :: filtered_benchmarks where
  "demo_selection = \<lparr>positive_filter = [''y''], negative_filter = [], filtered_list = [''top''],
     complete_list = [''base'', ''top''], filtered_in = [''top''], filtered_out = [], filtered_out_depends = [],
     added_dependencies = [(''base'', [''top''])], cached_dependencies = []\<rparr>"

theorem remove_cached_dependencies_spec_witness:
  "\<exists>fb'. remove_cached_dependencies (\<lambda>n s. (Inr (n = ''base''), s)) demo_selection () = (Inr fb', ()) \<and>
    set (complete_list fb') = {''top''}"
proof -
  let ?fb = "demo_selection\<lparr>cached_dependencies := [(''base'', [''top''])], added_dependencies := [], complete_list := [''top'']\<rparr>"
  have r: "remove_cached_dependencies (\<lambda>n s. (Inr (n = ''base''), s)) demo_selection () = (Inr ?fb, ())"
    by (simp add: remove_cached_dependencies_def demo_selection_def)
  have c: "set (complete_list demo_selection) =
      set (filtered_list demo_selection) \<union> fst ` set (added_dependencies demo_selection)"
    by (auto simp: demo_selection_def)
  from remove_cached_dependencies_spec[OF c r] r show ?thesis by (auto simp: demo_selection_def)
qed

lemma recipe_config [simp]:
  "rm_user_config (recipe n sh c d ts u dc dep v) = create_user_config (schema_of u)"
  "rm_default_config (recipe n sh c d ts u dc dep v) = dc"
  "rm_user_config (set_default r) = rm_user_config r" "rm_default_config (set_default r) = rm_default_config r"
  "rm_user_config (set_category k r) = rm_user_config r" "rm_default_config (set_category k r) = rm_default_config r"
  by (simp_all add: recipe_def add_tags_def set_default_def set_category_def)

lemma no_user_fields: "create_user_config (schema_of []) = []"
  by (simp add: create_user_config_def schema_of_def user_cfg_schema_def)

text \<open>
  Every recipe of the shipped table has a default user configuration: only recipes
  without user settings come without defaults.
\<close>

theorem every_recipe_has_default_config:
  "list_all (\<lambda>r. case get_default_user_config r of Inr d \<Rightarrow> True | Inl e \<Rightarrow> False) (ASCT_RECIPE_METADATA ip sr)"
proof -
  have "\<forall>r \<in> set (all_recipes ip sr). rm_default_config r \<noteq> None \<or> rm_user_config r = []"
    by (simp add: recipe_tables no_user_fields)
  hence "\<forall>r \<in> set (ASCT_RECIPE_METADATA ip sr). rm_default_config r \<noteq> None \<or> rm_user_config r = []"
    unfolding metadata_table set_filter by blast
  thus ?thesis
    unfolding list_all_iff by (auto simp: get_default_user_config_def split: option.splits)
qed

section \<open>Running orders are permutations\<close>

lemma by_name_names: "map_of (by_name ms) n = Some m \<Longrightarrow> rm_name m = n"
proof -
  have "map_of (dupdate d xs) n = Some m \<Longrightarrow> map_of d n = Some m \<or> (n, m) \<in> set xs" for d xs :: "(string \<times> recipe_metadata) list"
  proof (induction xs arbitrary: d)
    case (Cons kv xs)
    obtain a b where "kv = (a, b)" by (cases kv)
    then show ?case using Cons.IH[of "dset a b d"] Cons.prems by (cases "n = a") auto
  qed simp
  from this[of "[]" "map (\<lambda>m. (rm_name m, m)) ms"]
  show "map_of (by_name ms) n = Some m \<Longrightarrow> ?thesis" by (auto simp: by_name_def)
qed

lemma names_of_metadata: "get_recipe_metadata_for_names all names = Inr ms \<Longrightarrow> map rm_name ms = names"
proof (induction names arbitrary: ms)
  case (Cons n names)
  then show ?case
    by (auto simp: get_recipe_metadata_for_names_def bindr_Inr_iff by_name_names split: option.splits)
qed (simp add: get_recipe_metadata_for_names_def)

definition group_by_category :: "recipe_metadata list \<Rightarrow> (string, recipe_metadata list) dict \<Rightarrow> (string, recipe_metadata list) dict" where
  "group_by_category ms d = foldl (\<lambda>d m. dset (rm_category m) (dget d (rm_category m) [] @ [m]) d) d ms"

lemma mset_dset_group: "mset (concat (map snd (dset k (dget d k [] @ [m]) d))) = add_mset m (mset (concat (map snd d)))"
proof (induction d)
  case (Cons kv d)
  then show ?case by (cases kv) (auto simp: dget_def)
qed (simp add: dget_def)

lemma mset_group: "mset (concat (map snd (group_by_category ms d))) = mset (concat (map snd d)) + mset ms"
  unfolding group_by_category_def by (induction ms arbitrary: d) (simp_all add: mset_dset_group)

lemma get_recipes_mset: "get_recipes table priority names = Inr bms \<Longrightarrow> mset bms = mset names"
proof -
  assume "get_recipes table priority names = Inr bms"
  then obtain ms where ms: "get_recipe_metadata_for_names table names = Inr ms"
    and b: "bms = concat (map (\<lambda>(_, rs). sort_key priority (map rm_name rs)) (group_by_category ms []))"
    by (auto simp: get_recipes_def bindr_Inr_iff group_by_category_def)
  have "mset (concat (map (\<lambda>(_, rs). sort_key priority (map rm_name rs)) d)) = image_mset rm_name (mset (concat (map snd d)))"
    for d :: "(string, recipe_metadata list) dict" by (induction d) auto
  with b have "mset bms = image_mset rm_name (mset ms)" using mset_group[of ms "[]"] by simp
  then show ?thesis using names_of_metadata[OF ms] by (metis mset_map)
qed

end
