(* ===== verification/Py_Json.thy ===== *)
theory Py_Json
  imports Py_Value
begin

text \<open>
  The JSON texts that \<open>json.dumps\<close> writes and \<open>json.loads\<close> reads, for the values of
  \<open>Py_Value\<close>.  Characters are code points below 256.  How a float is written and read
  (\<open>repr\<close> and \<open>float\<close>) is a parameter; everything else is written out as in the
  standard library: the separators, the escapes of a text, the order of the checks of the
  scanner, and that the last of two equal keys wins.
\<close>

section \<open>Writing\<close>

definition hex_digit :: "nat \<Rightarrow> char" where
  "hex_digit n = char_of (if n < 10 then 48 + n else 87 + n)"

definition json_esc :: "char \<Rightarrow> string" where
  "json_esc c = (let n = (of_char c :: nat) in
     if n = 34 then [CHR 0x5C, CHR 0x22]
     else if n = 92 then [CHR 0x5C, CHR 0x5C]
     else if n = 10 then [CHR 0x5C, CHR ''n'']
     else if n = 13 then [CHR 0x5C, CHR ''r'']
     else if n = 9 then [CHR 0x5C, CHR ''t'']
     else if n = 12 then [CHR 0x5C, CHR ''f'']
     else if n = 8 then [CHR 0x5C, CHR ''b'']
     else if 32 \<le> n \<and> n \<le> 126 then [c]
     else [CHR 0x5C, CHR ''u'', CHR ''0'', CHR ''0'', hex_digit (n div 16), hex_digit (n mod 16)])"

definition json_string :: "string \<Rightarrow> string" where
  "json_string s = CHR 0x22 # concat (map json_esc s) @ [CHR 0x22]"

fun json_dumps :: "(rat \<Rightarrow> string) \<Rightarrow> pv \<Rightarrow> string" where
  "json_dumps fr PNone = ''null''"
| "json_dumps fr (PBool b) = (if b then ''true'' else ''false'')"
| "json_dumps fr (PInt i) = int_str i"
| "json_dumps fr (PFloat q) = fr q"
| "json_dumps fr (PStr s) = json_string s"
| "json_dumps fr (PList vs) = CHR ''['' # join '', '' (map (json_dumps fr) vs) @ '']''"
| "json_dumps fr (PDict d) =
     CHR ''{'' # join '', '' (map (\<lambda>(k, v). json_string k @ '': '' @ json_dumps fr v) d) @ ''}''"

section \<open>Reading\<close>

definition skip_ws :: "string \<Rightarrow> string" where
  "skip_ws s = dropWhile (\<lambda>c. c = CHR '' '' \<or> c = CHR 0x09 \<or> c = CHR 0x0A \<or> c = CHR 0x0D) s"

definition hex_val :: "char \<Rightarrow> nat option" where
  "hex_val c = (let n = (of_char c :: nat) in
     if 48 \<le> n \<and> n \<le> 57 then Some (n - 48)
     else if 97 \<le> n \<and> n \<le> 102 then Some (n - 87)
     else if 65 \<le> n \<and> n \<le> 70 then Some (n - 55) else None)"

definition unescape :: "char \<Rightarrow> char option" where
  "unescape c = map_of [(CHR 0x22, CHR 0x22), (CHR 0x5C, CHR 0x5C), (CHR ''/'', CHR ''/''),
     (CHR ''b'', CHR 0x08), (CHR ''f'', CHR 0x0C), (CHR ''n'', CHR 0x0A), (CHR ''r'', CHR 0x0D),
     (CHR ''t'', CHR 0x09)] c"

text \<open>A \<open>u\<close> escape of four hexadecimal digits; code points from 256 on are outside the model.\<close>

definition code_point :: "char \<Rightarrow> char \<Rightarrow> char \<Rightarrow> char \<Rightarrow> char option" where
  "code_point a b c d = (case (hex_val a, hex_val b, hex_val c, hex_val d) of
     (Some w, Some x, Some y, Some z) \<Rightarrow>
       (let n = ((w * 16 + x) * 16 + y) * 16 + z in if n < 256 then Some (char_of n) else None)
   | _ \<Rightarrow> None)"

abbreviation push :: "char \<Rightarrow> (string \<times> 'a) option \<Rightarrow> (string \<times> 'a) option" where
  "push c m \<equiv> map_option (\<lambda>(t, r). (c # t, r)) m"

fun scan_string :: "string \<Rightarrow> (string \<times> string) option" where
  "scan_string [] = None"
| "scan_string (c # s) =
     (if c = CHR 0x22 then Some ([], s)
      else if c = CHR 0x5C then
        (case s of
           [] \<Rightarrow> None
         | e # r \<Rightarrow>
             if e = CHR ''u'' then
               (case r of
                  x1 # x2 # x3 # x4 # r' \<Rightarrow>
                    (case code_point x1 x2 x3 x4 of
                       Some u \<Rightarrow> push u (scan_string r') | None \<Rightarrow> None)
                | _ \<Rightarrow> None)
             else (case unescape e of Some u \<Rightarrow> push u (scan_string r) | None \<Rightarrow> None))
      else if (of_char c :: nat) < 32 then None
      else push c (scan_string s))"

text \<open>The parts of a number: digits without leading zeros, a fraction, an exponent.\<close>

definition int_part :: "string \<Rightarrow> (string \<times> string) option" where
  "int_part s = (case s of
     [] \<Rightarrow> None
   | c # r \<Rightarrow> if c = CHR ''0'' then Some ([c], r)
              else if is_digit c then Some (takeWhile is_digit s, dropWhile is_digit s) else None)"

definition frac_part :: "string \<Rightarrow> string \<times> string" where
  "frac_part s = (case s of
     [] \<Rightarrow> ([], s)
   | c # r \<Rightarrow> if c = CHR ''.'' \<and> takeWhile is_digit r \<noteq> []
              then (c # takeWhile is_digit r, dropWhile is_digit r) else ([], s))"

definition sign_part :: "string \<Rightarrow> string \<times> string" where
  "sign_part s = (case s of
     [] \<Rightarrow> ([], s) | c # r \<Rightarrow> if c = CHR ''-'' \<or> c = CHR ''+'' then ([c], r) else ([], s))"

definition exp_part :: "string \<Rightarrow> string \<times> string" where
  "exp_part s = (case s of
     [] \<Rightarrow> ([], s)
   | c # r \<Rightarrow> (let (sg, t) = sign_part r in
              if (c = CHR ''e'' \<or> c = CHR ''E'') \<and> takeWhile is_digit t \<noteq> []
              then (c # sg @ takeWhile is_digit t, dropWhile is_digit t) else ([], s)))"

definition neg_part :: "string \<Rightarrow> bool \<times> string" where
  "neg_part s = (case s of [] \<Rightarrow> (False, s) | c # r \<Rightarrow> if c = CHR ''-'' then (True, r) else (False, s))"

definition scan_number :: "(string \<Rightarrow> rat) \<Rightarrow> string \<Rightarrow> (pv \<times> string) option" where
  "scan_number fp s =
     (let (neg, t) = neg_part s
      in case int_part t of
           None \<Rightarrow> None
         | Some (i, t1) \<Rightarrow>
             (let (f, t2) = frac_part t1; (e, t3) = exp_part t2
              in if f @ e = [] then Some (PInt (if neg then - int (digits_val i) else int (digits_val i)), t1)
                 else Some (PFloat (fp ((if neg then ''-'' else []) @ i @ f @ e)), t3)))"

definition scan_literal :: "string \<Rightarrow> (pv \<times> string) option" where
  "scan_literal s = (if prefix ''null'' s then Some (PNone, drop 4 s)
     else if prefix ''true'' s then Some (PBool True, drop 4 s)
     else if prefix ''false'' s then Some (PBool False, drop 5 s) else None)"

text \<open>
  The scanner, one function per construct; every call reads at least one character, so
  the length of the text bounds the depth.
\<close>

fun scan_value :: "(string \<Rightarrow> rat) \<Rightarrow> nat \<Rightarrow> string \<Rightarrow> (pv \<times> string) option"
  and scan_items :: "(string \<Rightarrow> rat) \<Rightarrow> nat \<Rightarrow> string \<Rightarrow> (pv list \<times> string) option"
  and scan_pairs :: "(string \<Rightarrow> rat) \<Rightarrow> nat \<Rightarrow> string \<Rightarrow> ((string \<times> pv) list \<times> string) option" where
  "scan_value fp 0 s = None"
| "scan_value fp (Suc n) s = (case s of
     [] \<Rightarrow> None
   | c # r \<Rightarrow>
       if c = CHR 0x22 then map_option (\<lambda>(t, r'). (PStr t, r')) (scan_string r)
       else if c = CHR ''{'' then
         (case skip_ws r of
            [] \<Rightarrow> None
          | d # r' \<Rightarrow> if d = CHR ''}'' then Some (PDict [], r')
                      else if d = CHR 0x22 then map_option (\<lambda>(kvs, r''). (PDict (dict_of kvs), r'')) (scan_pairs fp n r')
                      else None)
       else if c = CHR ''['' then
         (case skip_ws r of
            [] \<Rightarrow> None
          | d # r' \<Rightarrow> if d = CHR '']'' then Some (PList [], r')
                      else map_option (\<lambda>(vs, r''). (PList vs, r'')) (scan_items fp n (d # r')))
       else (case scan_literal s of Some x \<Rightarrow> Some x | None \<Rightarrow> scan_number fp s))"
| "scan_items fp 0 s = None"
| "scan_items fp (Suc n) s = (case scan_value fp n s of
     None \<Rightarrow> None
   | Some (v, r) \<Rightarrow>
       (case skip_ws r of
          [] \<Rightarrow> None
        | d # r' \<Rightarrow> if d = CHR '']'' then Some ([v], r')
                    else if d = CHR '','' then map_option (\<lambda>(vs, r''). (v # vs, r'')) (scan_items fp n (skip_ws r'))
                    else None))"
| "scan_pairs fp 0 s = None"
| "scan_pairs fp (Suc n) s = (case scan_string s of
     None \<Rightarrow> None
   | Some (k, r) \<Rightarrow>
       (case skip_ws r of
          [] \<Rightarrow> None
        | d # r1 \<Rightarrow> if d \<noteq> CHR '':'' then None
           else (case scan_value fp n (skip_ws r1) of
             None \<Rightarrow> None
           | Some (v, r2) \<Rightarrow>
               (case skip_ws r2 of
                  [] \<Rightarrow> None
                | e # r3 \<Rightarrow> if e = CHR ''}'' then Some ([(k, v)], r3)
                            else if e = CHR '','' then
                              (case skip_ws r3 of
                                 [] \<Rightarrow> None
                               | g # r4 \<Rightarrow> if g = CHR 0x22
                                           then map_option (\<lambda>(kvs, r5). ((k, v) # kvs, r5)) (scan_pairs fp n r4)
                                           else None)
                            else None))))"

definition json_loads :: "(string \<Rightarrow> rat) \<Rightarrow> string \<Rightarrow> pv res" where
  "json_loads fp s = (case scan_value fp (2 * length s + 2) (skip_ws s) of
     None \<Rightarrow> Inl (Exc JSONDecodeError ''Expecting value'')
   | Some (v, r) \<Rightarrow> if skip_ws r = [] then Inr v else Inl (Exc JSONDecodeError ''Extra data''))"

declare scan_value.simps [simp del] scan_items.simps [simp del] scan_pairs.simps [simp del]


section \<open>Reading back what was written\<close>

lemma hex_val_digit [simp]: "n < 16 \<Longrightarrow> hex_val (hex_digit n) = Some n"
  by (auto simp: hex_val_def hex_digit_def of_char_of)

lemma code_point_byte:
  "code_point CHR ''0'' CHR ''0'' (hex_digit (of_char c div 16)) (hex_digit (of_char c mod 16)) = Some c"
proof -
  have z: "hex_val CHR ''0'' = Some 0" by (simp add: hex_val_def)
  have lt: "(of_char c :: nat) < 256" by simp
  hence "(of_char c :: nat) div 16 < 16" by linarith
  then have "hex_val (hex_digit (of_char c div 16)) = Some (of_char c div 16)"
    "hex_val (hex_digit (of_char c mod 16)) = Some (of_char c mod 16)" by simp_all
  moreover have "(of_char c :: nat) div 16 * 16 + of_char c mod 16 = of_char c" by simp
  ultimately show ?thesis using lt by (simp only: code_point_def z) (simp add: Let_def)
qed

lemma special_chars:
  "char_of (34 :: nat) = CHR 0x22" "char_of (92 :: nat) = CHR 0x5C" "char_of (10 :: nat) = CHR 0x0A"
  "char_of (13 :: nat) = CHR 0x0D" "char_of (9 :: nat) = CHR 0x09" "char_of (12 :: nat) = CHR 0x0C"
  "char_of (8 :: nat) = CHR 0x08"
  by code_simp+

lemma scan_string_esc: "scan_string (json_esc c @ t) = push c (scan_string t)"
proof -
  have c: "char_of (of_char c :: nat) = c" by simp
  consider "(of_char c :: nat) \<in> {34, 92, 10, 13, 9, 12, 8}"
    | "(of_char c :: nat) \<notin> {34, 92, 10, 13, 9, 12, 8}" "32 \<le> (of_char c :: nat)" "(of_char c :: nat) \<le> 126"
    | "(of_char c :: nat) \<notin> {34, 92, 10, 13, 9, 12, 8}" "\<not> (32 \<le> (of_char c :: nat) \<and> (of_char c :: nat) \<le> 126)"
    by blast
  then show ?thesis
  proof cases
    case 1
    then have "c \<in> char_of ` {34 :: nat, 92, 10, 13, 9, 12, 8}" using c by (metis image_eqI)
    then have "c \<in> {CHR 0x22, CHR 0x5C, CHR 0x0A, CHR 0x0D, CHR 0x09, CHR 0x0C, CHR 0x08}"
      by (simp add: special_chars)
    then show ?thesis by (auto simp: json_esc_def unescape_def)
  next
    case 2
    then have "c \<noteq> CHR 0x22" "c \<noteq> CHR 0x5C" by auto
    with 2 show ?thesis by (simp add: json_esc_def Let_def)
  next
    case 3
    then have "json_esc c = [CHR 0x5C, CHR ''u'', CHR ''0'', CHR ''0'', hex_digit (of_char c div 16), hex_digit (of_char c mod 16)]"
      by (auto simp: json_esc_def Let_def)
    then show ?thesis by (simp add: code_point_byte)
  qed
qed

lemma scan_string_body: "scan_string (concat (map json_esc s) @ CHR 0x22 # r) = Some (s, r)"
  by (induction s) (simp_all add: scan_string_esc)

section \<open>Numbers\<close>

definition after_number :: "string \<Rightarrow> bool" where
  "after_number r \<longleftrightarrow> (case r of [] \<Rightarrow> True
     | c # _ \<Rightarrow> \<not> is_digit c \<and> c \<noteq> CHR ''.'' \<and> c \<noteq> CHR ''e'' \<and> c \<noteq> CHR ''E'')"

definition digits :: "string \<Rightarrow> bool" where
  "digits s \<longleftrightarrow> s \<noteq> [] \<and> (\<forall>c \<in> set s. is_digit c)"

definition no_digit :: "string \<Rightarrow> bool" where
  "no_digit r \<longleftrightarrow> (case r of [] \<Rightarrow> True | c # _ \<Rightarrow> \<not> is_digit c)"

lemma take_digits:
  assumes "\<forall>c \<in> set s. is_digit c" "no_digit r"
  shows "takeWhile is_digit (s @ r) = s" "dropWhile is_digit (s @ r) = r"
  using assms by (induction s) (auto simp: no_digit_def split: list.splits)

lemma nat_str_head: "nat_str n = c # r \<Longrightarrow> c = CHR ''0'' \<Longrightarrow> r = []"
proof (induction n arbitrary: r rule: nat_str.induct)
  case (1 n)
  show ?case
  proof (cases "n < 10")
    case True
    then show ?thesis using 1 by (simp add: nat_str.simps[of n])
  next
    case False
    then have s: "nat_str n = nat_str (n div 10) @ [digit_char (n mod 10)]" by (simp add: nat_str.simps[of n])
    obtain r' where r: "nat_str (n div 10) = c # r'" using 1(2) s by (cases "nat_str (n div 10)") auto
    with 1(1)[OF False r 1(3)] have "nat_str (n div 10) = ''0''" using 1(3) by simp
    then have "digits_val (nat_str (n div 10)) = 0" by (simp add: digits_val_def digit_val_def)
    then show ?thesis using False by simp
  qed
qed

lemma int_part_nat: "no_digit r \<Longrightarrow> int_part (nat_str n @ r) = Some (nat_str n, r)"
proof -
  assume r: "no_digit r"
  obtain c t where s: "nat_str n = c # t" by (metis nat_str_ne neq_Nil_conv)
  have d: "\<forall>c \<in> set (nat_str n). is_digit c" by (rule nat_str_digits)
  show ?thesis
  proof (cases "c = CHR ''0''")
    case True
    then show ?thesis using nat_str_head[OF s True] s by (simp add: int_part_def)
  next
    case False
    then show ?thesis using take_digits[OF d r] d by (simp add: int_part_def s)
  qed
qed

lemma int_part_sign: "int_part (CHR ''-'' # s) = None"
  by (simp add: int_part_def is_digit_def)

lemma after_number_parts: "after_number r \<Longrightarrow> frac_part r = ([], r)" "after_number r \<Longrightarrow> exp_part r = ([], r)"
  by (auto simp: after_number_def frac_part_def exp_part_def split: list.splits prod.splits)

lemma after_number_no_digit: "after_number r \<Longrightarrow> no_digit r"
  by (auto simp: after_number_def no_digit_def split: list.splits)

lemma digit_not_sign: "is_digit c \<Longrightarrow> c \<noteq> CHR ''-'' \<and> c \<noteq> CHR ''+''"
  by (auto simp: is_digit_def)

lemma nat_str_not_sign: "nat_str n @ s \<noteq> CHR ''-'' # t" 
  using nat_str_digits[of n] digit_not_sign by (cases "nat_str n") auto

lemma number_sign [simp]:
  "neg_part (nat_str n @ s) = (False, nat_str n @ s)" "neg_part (CHR ''-'' # s) = (True, s)"
  using nat_str_not_sign[of n s] by (auto simp: neg_part_def split: list.splits)

lemma scan_number_int: "after_number r \<Longrightarrow> scan_number fp (int_str i @ r) = Some (PInt i, r)"
  by (auto simp: scan_number_def int_str_def int_part_nat number_sign after_number_no_digit after_number_parts
      simp del: append_assoc split: prod.splits)

text \<open>The texts of floats: an integer with a fraction or an exponent, or both.\<close>

definition frac_text :: "string \<Rightarrow> bool" where
  "frac_text f \<longleftrightarrow> f = [] \<or> hd f = CHR ''.'' \<and> digits (tl f)"

definition exp_text :: "string \<Rightarrow> bool" where
  "exp_text e \<longleftrightarrow> e = [] \<or> (\<exists>sg \<in> {[], ''-'', ''+''}. \<exists>ds. e = CHR ''e'' # sg @ ds \<and> digits ds)"

definition float_text :: "string \<Rightarrow> bool" where
  "float_text s \<longleftrightarrow> (\<exists>sg \<in> {[], ''-''}. \<exists>n f e. s = sg @ nat_str n @ f @ e \<and> frac_text f \<and> exp_text e \<and> f @ e \<noteq> [])"

lemma no_digit_exp: "exp_text e \<Longrightarrow> after_number r \<Longrightarrow> no_digit (e @ r)"
  by (auto simp: exp_text_def no_digit_def after_number_def is_digit_def split: list.splits)

lemma no_digit_frac: "frac_text f \<Longrightarrow> exp_text e \<Longrightarrow> after_number r \<Longrightarrow> no_digit (f @ e @ r)"
  using no_digit_exp[of e r] by (cases f) (auto simp: frac_text_def no_digit_def is_digit_def)

lemma frac_part_text: "frac_text f \<Longrightarrow> exp_text e \<Longrightarrow> after_number r \<Longrightarrow> frac_part (f @ e @ r) = (f, e @ r)"
proof (cases f)
  case Nil
  assume "exp_text e" "after_number r"
  then show ?thesis using Nil
    by (auto simp: exp_text_def frac_part_def after_number_def split: list.splits)
next
  case (Cons c ds)
  assume f: "frac_text f" and e: "exp_text e" "after_number r"
  have d: "c = CHR ''.''" "ds \<noteq> []" "\<forall>c \<in> set ds. is_digit c" using f Cons by (auto simp: frac_text_def digits_def)
  show ?thesis using take_digits[OF d(3) no_digit_exp[OF e]] d Cons by (simp add: frac_part_def)
qed

lemma sign_part_text: "digits ds \<Longrightarrow> sg \<in> {[], ''-'', ''+''} \<Longrightarrow> sign_part (sg @ ds @ r) = (sg, ds @ r)"
  using digit_not_sign by (cases ds) (auto simp: sign_part_def digits_def)

lemma exp_part_text: "exp_text e \<Longrightarrow> after_number r \<Longrightarrow> exp_part (e @ r) = (e, r)"
proof -
  assume e: "exp_text e" and r: "after_number r"
  show ?thesis
  proof (cases "e = []")
    case True
    then show ?thesis using r by (simp add: after_number_parts)
  next
    case False
    then obtain sg ds where s: "sg \<in> {[], ''-'', ''+''}" "e = CHR ''e'' # sg @ ds" "digits ds"
      using e unfolding exp_text_def by blast
    then have d: "ds \<noteq> []" "\<forall>c \<in> set ds. is_digit c" by (auto simp: digits_def)
    show ?thesis using sign_part_text[OF s(3,1), of r] take_digits[OF d(2) after_number_no_digit[OF r]] s(2) d(1)
      by (simp add: exp_part_def)
  qed
qed

lemma scan_number_float:
  assumes "float_text s" "after_number r"
  shows "scan_number fp (s @ r) = Some (PFloat (fp s), r)"
proof -
  from assms(1) obtain sg n f e where s: "sg \<in> {[], ''-''}" "s = sg @ nat_str n @ f @ e"
    and t: "frac_text f" "exp_text e" "f @ e \<noteq> []" unfolding float_text_def by blast
  have "int_part (nat_str n @ f @ e @ r) = Some (nat_str n, f @ e @ r)"
    by (rule int_part_nat) (rule no_digit_frac[OF t(1,2) assms(2)])
  with s t show ?thesis
    by (auto simp: scan_number_def frac_part_text[OF t(1,2) assms(2)] exp_part_text[OF t(2) assms(2)])
qed


section \<open>The depth bound\<close>

lemma scan_string_shorter: "scan_string s = Some (t, r) \<Longrightarrow> length r < length s"
proof (induction s arbitrary: t r rule: scan_string.induct)
  case (2 c s)
  then show ?case
    by (auto split: if_splits list.splits option.splits) (fastforce dest: less_SucI)+
qed simp

lemma drop_digits_le: "length (dropWhile P s) \<le> length s"
  by (rule length_dropWhile_le)

lemma int_part_shorter: "int_part s = Some (i, r) \<Longrightarrow> length r < length s"
  using drop_digits_le[of is_digit "tl s"]
  by (cases s) (auto simp: int_part_def split: if_splits)

lemma frac_part_le: "frac_part s = (f, r) \<Longrightarrow> length r \<le> length s"
  using drop_digits_le[of is_digit "tl s"]
  by (cases s) (auto simp: frac_part_def split: if_splits)

lemma sign_part_le: "sign_part s = (f, r) \<Longrightarrow> length r \<le> length s"
  by (cases s) (auto simp: sign_part_def split: if_splits)

lemma exp_part_le: "exp_part s = (e, r) \<Longrightarrow> length r \<le> length s"
  using sign_part_le[of "tl s"] drop_digits_le[of is_digit "snd (sign_part (tl s))"]
  by (cases s; cases "sign_part (tl s)") (fastforce simp: exp_part_def split: if_splits)+

lemma neg_part_le: "neg_part s = (b, r) \<Longrightarrow> length r \<le> length s"
  by (cases s) (auto simp: neg_part_def split: if_splits)

lemma scan_number_shorter: "scan_number fp s = Some (v, r) \<Longrightarrow> length r < length s"
  using neg_part_le[of s] int_part_shorter[of "snd (neg_part s)"] frac_part_le exp_part_le
  by (auto simp: scan_number_def split: prod.splits option.splits if_splits)
    (metis le_less_trans less_le_trans)+

lemma scan_literal_shorter: "scan_literal s = Some (v, r) \<Longrightarrow> length r < length s"
  by (auto simp: scan_literal_def prefix_def split: if_splits)

lemma skip_ws_le: "length (skip_ws s) \<le> length s"
  unfolding skip_ws_def by (rule length_dropWhile_le)

lemma skip_ws_Cons: "skip_ws s = c # r \<Longrightarrow> length r < length s"
  using skip_ws_le[of s] by simp

lemma scan_value_cases:
  assumes v: "scan_value fp (Suc n) s = Some (v, r)"
  obtains (str) t where "scan_string (tl s) = Some (t, r)" "s \<noteq> []" "hd s \<noteq> CHR 0x00"
  | (none) c where "skip_ws (tl s) = c # r" "s \<noteq> []" "hd s \<noteq> CHR 0x00" "c \<noteq> CHR 0x00"
  | (pairs) c t kvs where "skip_ws (tl s) = c # t" "scan_pairs fp n t = Some (kvs, r)" "s \<noteq> []" "hd s \<noteq> CHR 0x00" "c \<noteq> CHR 0x00"
  | (items) c t vs where "skip_ws (tl s) = c # t" "scan_items fp n (c # t) = Some (vs, r)" "s \<noteq> []" "hd s \<noteq> CHR 0x00"
  | (literal) "scan_literal s = Some (v, r)" | (number) "scan_number fp s = Some (v, r)"
proof (cases s)
  case Nil
  then show thesis using v by (simp add: scan_value.simps)
next
  case (Cons c w)
  consider "c = CHR 0x22" | "c = CHR ''{''" | "c = CHR ''[''" | "c \<notin> {CHR 0x22, CHR ''{'', CHR ''[''}" by blast
  then show thesis
  proof cases
    case 1
    then show thesis using v Cons str by (auto simp: scan_value.simps)
  next
    case 2
    then obtain d w' where d: "skip_ws w = d # w'" using v Cons
      by (auto simp: scan_value.simps split: list.splits)
    show thesis
    proof (cases "d = CHR ''}''")
      case True
      then show thesis using v Cons 2 d none[of d] by (simp add: scan_value.simps)
    next
      case False
      then have "d = CHR 0x22" "\<exists>kvs. scan_pairs fp n w' = Some (kvs, r)"
        using v Cons 2 d by (auto simp: scan_value.simps split: if_splits)
      then show thesis using Cons 2 d pairs[of d w'] by auto
    qed
  next
    case 3
    then obtain d w' where d: "skip_ws w = d # w'" using v Cons
      by (auto simp: scan_value.simps split: list.splits)
    show thesis
    proof (cases "d = CHR '']''")
      case True
      then show thesis using v Cons 3 d none[of d] by (simp add: scan_value.simps)
    next
      case False
      then have "\<exists>vs. scan_items fp n (d # w') = Some (vs, r)"
        using v Cons 3 d by (auto simp: scan_value.simps)
      then show thesis using Cons 3 d items[of d w'] by auto
    qed
  next
    case 4
    then show thesis using v Cons literal number by (auto simp: scan_value.simps split: option.splits)
  qed
qed

lemma scan_items_cases:
  assumes "scan_items fp (Suc n) s = Some (vs, r)"
  obtains v t c where "scan_value fp n s = Some (v, t)" "skip_ws t = c # r" "c \<noteq> CHR 0x00"
  | v t c u ws where "scan_value fp n s = Some (v, t)" "skip_ws t = c # u" "scan_items fp n (skip_ws u) = Some (ws, r)"
      "c \<noteq> CHR 0x00"
  using assms by (auto simp: scan_items.simps split: list.splits if_splits option.splits)

lemma scan_pairs_cases:
  assumes "scan_pairs fp (Suc n) s = Some (kvs, r)"
  obtains k t d t1 v t2 c where "scan_string s = Some (k, t)" "skip_ws t = d # t1"
      "scan_value fp n (skip_ws t1) = Some (v, t2)" "skip_ws t2 = c # r" "d \<noteq> CHR 0x00" "c \<noteq> CHR 0x00"
  | k t d t1 v t2 c t3 g t4 ws where "scan_string s = Some (k, t)" "skip_ws t = d # t1"
      "scan_value fp n (skip_ws t1) = Some (v, t2)" "skip_ws t2 = c # t3" "skip_ws t3 = g # t4"
      "scan_pairs fp n t4 = Some (ws, r)" "d \<noteq> CHR 0x00" "c \<noteq> CHR 0x00" "g \<noteq> CHR 0x00"
  using assms by (auto simp: scan_pairs.simps split: list.splits if_splits option.splits)

lemma scan_shorter:
  "(\<forall>s v r. scan_value fp n s = Some (v, r) \<longrightarrow> length r < length s) \<and>
   (\<forall>s v r. scan_items fp n s = Some (v, r) \<longrightarrow> length r < length s) \<and>
   (\<forall>s v r. scan_pairs fp n s = Some (v, r) \<longrightarrow> length r < length s)"
proof (induction n)
  case (Suc n)
  note IH = Suc[THEN conjunct1, rule_format] Suc[THEN conjunct2, THEN conjunct1, rule_format]
    Suc[THEN conjunct2, THEN conjunct2, rule_format]
  have tl: "s \<noteq> [] \<Longrightarrow> length (tl s) < length s" for s :: string by (cases s) auto
  note ws = skip_ws_Cons skip_ws_le
  have "length r < length s" if "scan_value fp (Suc n) s = Some (v, r)" for s v r
    using that
  proof (cases rule: scan_value_cases)
    case (items c t vs)
    then show ?thesis using IH(2)[OF items(2)] ws(1)[OF items(1)] tl[of s] by simp
  next
    case (pairs c t kvs)
    then show ?thesis using IH(3)[OF pairs(2)] ws(1)[OF pairs(1)] tl[of s] by simp
  next
    case (none c)
    then show ?thesis using ws(1)[OF none(1)] tl[of s] by simp
  next
    case (str t)
    then show ?thesis using scan_string_shorter[OF str(1)] tl[of s] by simp
  qed (simp_all add: scan_literal_shorter scan_number_shorter)
  moreover have "length r < length s" if "scan_items fp (Suc n) s = Some (v, r)" for s v r
    using that
  proof (cases rule: scan_items_cases)
    case (1 v t c)
    show ?thesis using IH(1)[OF 1(1)] ws(1)[OF 1(2)] by simp
  next
    case (2 v t c u ws)
    show ?thesis using IH(1)[OF 2(1)] skip_ws_Cons[OF 2(2)] IH(2)[OF 2(3)] skip_ws_le[of u] by simp
  qed
  moreover have "length r < length s" if "scan_pairs fp (Suc n) s = Some (v, r)" for s v r
    using that
  proof (cases rule: scan_pairs_cases)
    case (1 k t d t1 v t2 c)
    show ?thesis using scan_string_shorter[OF 1(1)] skip_ws_Cons[OF 1(2)] IH(1)[OF 1(3)]
      skip_ws_le[of t1] skip_ws_Cons[OF 1(4)] by simp
  next
    case (2 k t d t1 v t2 c t3 g t4 ws)
    show ?thesis using scan_string_shorter[OF 2(1)] skip_ws_Cons[OF 2(2)] IH(1)[OF 2(3)]
      skip_ws_le[of t1] skip_ws_Cons[OF 2(4)] skip_ws_Cons[OF 2(5)] IH(3)[OF 2(6)] by simp
  qed
  ultimately show ?case by blast
qed (simp add: scan_value.simps scan_items.simps scan_pairs.simps)

text \<open>Beyond the bound a larger depth changes nothing.\<close>

lemma scan_enough:
  "(\<forall>s. 2 * length s < n \<longrightarrow> scan_value fp (Suc n) s = scan_value fp n s) \<and>
   (\<forall>s. 2 * length s + 1 < n \<longrightarrow> scan_items fp (Suc n) s = scan_items fp n s) \<and>
   (\<forall>s. 2 * length s < n \<longrightarrow> scan_pairs fp (Suc n) s = scan_pairs fp n s)"
proof (induction n)
  case (Suc n)
  note IH = Suc[THEN conjunct1, rule_format] Suc[THEN conjunct2, THEN conjunct1, rule_format]
    Suc[THEN conjunct2, THEN conjunct2, rule_format]
  note short = scan_shorter[of fp n, THEN conjunct1, rule_format]
  have "scan_value fp (Suc (Suc n)) s = scan_value fp (Suc n) s" if len: "2 * length s < Suc n" for s
  proof (cases s)
    case (Cons c t)
    have p: "scan_pairs fp (Suc n) u = scan_pairs fp n u" if "skip_ws t = d # u" for d u
      using skip_ws_Cons[OF that] len Cons by (intro IH) simp
    have i: "scan_items fp (Suc n) (d # u) = scan_items fp n (d # u)" if "skip_ws t = d # u" for d u
      using skip_ws_Cons[OF that] len Cons by (intro IH) simp
    show ?thesis unfolding Cons
      by (rule trans[OF scan_value.simps(2) trans[OF _ scan_value.simps(2)[symmetric]]])
        (simp add: p i split: list.split)
  qed (simp add: scan_value.simps)
  moreover have "scan_items fp (Suc (Suc n)) s = scan_items fp (Suc n) s" if len: "2 * length s + 1 < Suc n" for s
  proof -
    have v: "scan_value fp (Suc n) s = scan_value fp n s" using len by (intro IH) simp
    have i: "scan_items fp (Suc n) (skip_ws u') = scan_items fp n (skip_ws u')"
      if "scan_value fp n s = Some (v, u)" "skip_ws u = d # u'" for v u d u'
      using skip_ws_Cons[OF that(2)] short[OF that(1)] skip_ws_le[of u'] len by (intro IH) simp
    show ?thesis
      by (rule trans[OF scan_items.simps(2) trans[OF _ scan_items.simps(2)[symmetric]]])
        (simp add: v i split: list.split option.split)
  qed
  moreover have "scan_pairs fp (Suc (Suc n)) s = scan_pairs fp (Suc n) s" if len: "2 * length s < Suc n" for s
  proof -
    have v: "scan_value fp (Suc n) (skip_ws t1) = scan_value fp n (skip_ws t1)"
      if "scan_string s = Some (k, t)" "skip_ws t = d # t1" for k t d t1
      using scan_string_shorter[OF that(1)] skip_ws_Cons[OF that(2)] skip_ws_le[of t1] len by (intro IH) simp
    have p: "scan_pairs fp (Suc n) t4 = scan_pairs fp n t4"
      if "scan_string s = Some (k, t)" "skip_ws t = d # t1" "scan_value fp n (skip_ws t1) = Some (w, t2)"
        "skip_ws t2 = e # t3" "skip_ws t3 = g # t4" for k t d t1 w t2 e t3 g t4
      using scan_string_shorter[OF that(1)] skip_ws_Cons[OF that(2)] skip_ws_le[of t1] short[OF that(3)]
        skip_ws_Cons[OF that(4)] skip_ws_Cons[OF that(5)] len by (intro IH) simp
    show ?thesis
      by (rule trans[OF scan_pairs.simps(2) trans[OF _ scan_pairs.simps(2)[symmetric]]])
        (simp add: v p split: list.split option.split)
  qed
  ultimately show ?case by blast
qed simp

lemma json_loads_depth:
  "2 * length s < n \<Longrightarrow> scan_value fp n (skip_ws s) = scan_value fp (2 * length s + 2) (skip_ws s)"
proof (induction n)
  case (Suc n)
  have l: "2 * length (skip_ws s) \<le> 2 * length s" using skip_ws_le[of s] by simp
  show ?case
  proof (cases "2 * length s < n")
    case True
    then show ?thesis using Suc l scan_enough[of n fp] by simp
  next
    case False
    then have "n = 2 * length s" using Suc.prems by simp
    then show ?thesis using l scan_enough[of "Suc n" fp] by simp
  qed
qed simp

section \<open>Values\<close>

text \<open>
  The values that survive: dictionaries without repeated keys, and floats whose text reads
  back as the float.
\<close>

fun json_ok :: "(rat \<Rightarrow> string) \<Rightarrow> (string \<Rightarrow> rat) \<Rightarrow> pv \<Rightarrow> bool" where
  "json_ok fr fp (PFloat q) \<longleftrightarrow> float_text (fr q) \<and> fp (fr q) = q"
| "json_ok fr fp (PList vs) \<longleftrightarrow> (\<forall>v \<in> set vs. json_ok fr fp v)"
| "json_ok fr fp (PDict d) \<longleftrightarrow> wf_dict d \<and> (\<forall>kv \<in> set d. json_ok fr fp (snd kv))"
| "json_ok fr fp v \<longleftrightarrow> True"

text \<open>The first character of a text tells which construct it is.\<close>

definition value_head :: "char \<Rightarrow> bool" where
  "value_head c \<longleftrightarrow> c \<in> {CHR 0x22, CHR ''['', CHR ''{'', CHR ''n'', CHR ''t'', CHR ''f'', CHR ''-''} \<or> is_digit c"

lemma number_head: "s = [] \<or> value_head (hd (nat_str n @ s))"
  using nat_str_digits[of n] by (cases "nat_str n") (auto simp: value_head_def)

lemma nat_str_cons: "\<exists>c t. nat_str n = c # t \<and> is_digit c"
  using nat_str_digits[of n] by (cases "nat_str n") auto

lemma float_head: "float_text s \<Longrightarrow> \<exists>c t. s = c # t \<and> (c = CHR ''-'' \<or> is_digit c)"
proof -
  assume "float_text s"
  then obtain sg n r where "sg \<in> {[], ''-''}" "s = sg @ nat_str n @ r" unfolding float_text_def by blast
  then show ?thesis using nat_str_cons[of n] by auto
qed

lemma int_head: "\<exists>c t. int_str i = c # t \<and> (c = CHR ''-'' \<or> is_digit c)"
  using nat_str_cons[of "nat i"] nat_str_cons[of "nat (- i)"] by (auto simp: int_str_def)

lemma dumps_head: "json_ok fr fp v \<Longrightarrow> \<exists>c t. json_dumps fr v = c # t \<and> value_head c"
proof (cases v)
  case (PInt i)
  then show ?thesis using int_head[of i] by (auto simp: value_head_def)
next
  case (PFloat q)
  assume "json_ok fr fp v"
  then show ?thesis using PFloat float_head[of "fr q"] by (auto simp: value_head_def)
qed (auto simp: value_head_def json_string_def)

lemma head_not_ws: "value_head c \<Longrightarrow> skip_ws (c # t) = c # t"
  by (auto simp: value_head_def skip_ws_def is_digit_def)

lemma head_not_bracket: "value_head c \<Longrightarrow> c \<noteq> CHR '']''"
  by (auto simp: value_head_def is_digit_def)

lemma skip_ws_simps [simp]:
  "skip_ws [] = []" "skip_ws (CHR '' '' # s) = skip_ws s" "skip_ws (CHR '','' # s) = CHR '','' # s"
  "skip_ws (CHR '']'' # s) = CHR '']'' # s" "skip_ws (CHR ''}'' # s) = CHR ''}'' # s"
  "skip_ws (CHR '':'' # s) = CHR '':'' # s" "skip_ws (CHR 0x22 # s) = CHR 0x22 # s"
  by (simp_all add: skip_ws_def)

lemma skip_ws_dumps [simp]: "json_ok fr fp v \<Longrightarrow> skip_ws (json_dumps fr v @ r) = json_dumps fr v @ r"
  using dumps_head[of fr fp v] head_not_ws by force

lemma after_number_simps [simp]:
  "after_number (CHR '','' # s)" "after_number (CHR '']'' # s)" "after_number (CHR ''}'' # s)" "after_number []"
  by (simp_all add: after_number_def is_digit_def)

lemma scan_value_number:
  assumes "s = c # t" "c = CHR ''-'' \<or> is_digit c" "scan_number fp (s @ r) = x"
  shows "scan_value fp (Suc n) (s @ r) = x"
proof -
  have "c \<notin> {CHR 0x22, CHR ''{'', CHR ''['', CHR ''n'', CHR ''t'', CHR ''f''}"
    using assms(2) by (auto simp: is_digit_def)
  then show ?thesis using assms by (auto simp: scan_value.simps scan_literal_def)
qed

abbreviation pair_text :: "(rat \<Rightarrow> string) \<Rightarrow> string \<times> pv \<Rightarrow> string" where
  "pair_text fr \<equiv> (\<lambda>(k, v). json_string k @ '': '' @ json_dumps fr v)"

definition reads_back :: "(rat \<Rightarrow> string) \<Rightarrow> (string \<Rightarrow> rat) \<Rightarrow> pv \<Rightarrow> bool" where
  "reads_back fr fp v \<longleftrightarrow> (\<forall>n r. after_number r \<longrightarrow> length (json_dumps fr v) < n \<longrightarrow>
     scan_value fp n (json_dumps fr v @ r) = Some (v, r))"

lemma scan_items_text:
  assumes "vs \<noteq> []" "\<forall>v \<in> set vs. json_ok fr fp v \<and> reads_back fr fp v"
    "length (join '', '' (map (json_dumps fr) vs)) + 1 < n"
  shows "scan_items fp n (join '', '' (map (json_dumps fr) vs) @ CHR '']'' # r) = Some (vs, r)"
  using assms
proof (induction vs arbitrary: n)
  case (Cons v vs)
  obtain m where n: "n = Suc m" using Cons.prems(3) by (cases n) auto
  have v: "reads_back fr fp v" "json_ok fr fp v" using Cons.prems by auto
  show ?case
  proof (cases "vs = []")
    case True
    then show ?thesis using v Cons.prems(3) n by (simp add: scan_items.simps reads_back_def)
  next
    case False
    then have j: "join '', '' (map (json_dumps fr) (v # vs)) =
        json_dumps fr v @ '', '' @ join '', '' (map (json_dumps fr) vs)" by (simp add: join_Cons)
    have ws: "skip_ws (join '', '' (map (json_dumps fr) vs) @ x) = join '', '' (map (json_dumps fr) vs) @ x" for x
      using False Cons.prems(2) by (cases vs; cases "tl vs") auto
    have "scan_items fp m (join '', '' (map (json_dumps fr) vs) @ CHR '']'' # r) = Some (vs, r)"
      using Cons.IH False Cons.prems j n by simp
    then show ?thesis using v Cons.prems(3) n j
      by (simp add: scan_items.simps reads_back_def ws)
  qed
qed simp

lemma scan_pairs_text:
  assumes "d \<noteq> []" "\<forall>kv \<in> set d. json_ok fr fp (snd kv) \<and> reads_back fr fp (snd kv)"
    "length (join '', '' (map (pair_text fr) d)) < n"
  shows "scan_pairs fp n (tl (join '', '' (map (pair_text fr) d)) @ CHR ''}'' # r) = Some (d, r)"
  using assms
proof (induction d arbitrary: n)
  case (Cons kv d)
  obtain k v where kv: "kv = (k, v)" by fastforce
  obtain m where n: "n = Suc m" using Cons.prems(3) by (cases n) auto
  have v: "reads_back fr fp v" "json_ok fr fp v" using Cons.prems kv by auto
  show ?case
  proof (cases "d = []")
    case True
    then show ?thesis using v Cons.prems(3) n kv
      by (simp add: scan_pairs.simps reads_back_def json_string_def scan_string_body)
  next
    case False
    then have j: "join '', '' (map (pair_text fr) (kv # d)) =
        pair_text fr kv @ '', '' @ join '', '' (map (pair_text fr) d)" by (simp add: join_Cons)
    obtain u where u: "join '', '' (map (pair_text fr) d) = CHR 0x22 # u"
      using False by (cases d; cases "tl d") (auto simp: json_string_def)
    have "scan_pairs fp m (tl (join '', '' (map (pair_text fr) d)) @ CHR ''}'' # r) = Some (d, r)"
      using Cons.IH False Cons.prems j n by simp
    then show ?thesis using v Cons.prems(3) n j u kv
      by (simp add: scan_pairs.simps reads_back_def json_string_def scan_string_body)
  qed
qed simp

lemma json_reads_back: "json_ok fr fp v \<Longrightarrow> reads_back fr fp v"
proof (induction fr v rule: json_dumps.induct)
  case (6 fr vs)
  show ?case unfolding reads_back_def
  proof (intro allI impI)
    fix n r assume len: "length (json_dumps fr (PList vs)) < n"
    then obtain m where n: "n = Suc m" by (cases n) auto
    show "scan_value fp n (json_dumps fr (PList vs) @ r) = Some (PList vs, r)"
    proof (cases vs)
      case Nil
      then show ?thesis by (simp add: n scan_value.simps)
    next
      case (Cons v vs')
      obtain c t where c: "join '', '' (map (json_dumps fr) vs) = c # t" "value_head c"
        using dumps_head[of fr fp v] 6 Cons by (cases vs') auto
      have "scan_items fp m (join '', '' (map (json_dumps fr) vs) @ CHR '']'' # r) = Some (vs, r)"
        using 6 len n Cons by (intro scan_items_text) auto
      then show ?thesis using c head_not_ws[OF c(2)] head_not_bracket[OF c(2)]
        by (simp add: n scan_value.simps)
    qed
  qed
next
  case (7 fr d)
  show ?case unfolding reads_back_def
  proof (intro allI impI)
    fix n r assume len: "length (json_dumps fr (PDict d)) < n"
    then obtain m where n: "n = Suc m" by (cases n) auto
    have rb: "\<forall>kv \<in> set d. json_ok fr fp (snd kv) \<and> reads_back fr fp (snd kv)"
      using 7 by fastforce
    show "scan_value fp n (json_dumps fr (PDict d) @ r) = Some (PDict d, r)"
    proof (cases d)
      case Nil
      then show ?thesis by (simp add: n scan_value.simps)
    next
      case (Cons kv d')
      obtain u where u: "join '', '' (map (pair_text fr) d) = CHR 0x22 # u"
        using Cons by (cases kv; cases d') (auto simp: json_string_def)
      have "scan_pairs fp m (tl (join '', '' (map (pair_text fr) d)) @ CHR ''}'' # r) = Some (d, r)"
        using rb len n Cons by (intro scan_pairs_text) auto
      then show ?thesis using u 7(2) by (simp add: n scan_value.simps dict_of_wf)
    qed
  qed
next
  case (3 fr i)
  then show ?case using int_head[of i] scan_value_number scan_number_int
    unfolding reads_back_def by (metis gr0_conv_Suc json_dumps.simps(3) less_nat_zero_code neq0_conv)
next
  case (4 fr q)
  then show ?case using float_head[of "fr q"] scan_value_number scan_number_float
    unfolding reads_back_def by (metis gr0_conv_Suc json_dumps.simps(4) json_ok.simps(1) less_nat_zero_code neq0_conv)
next
  case (5 fr s)
  show ?case unfolding reads_back_def
    by (auto simp: json_string_def scan_value.simps scan_string_body gr0_conv_Suc dest!: less_imp_Suc_add)
qed (auto simp: reads_back_def scan_value.simps scan_literal_def dest!: less_imp_Suc_add)

theorem json_loads_dumps:
  assumes "json_ok fr fp v"
  shows "json_loads fp (json_dumps fr v) = Inr v"
proof -
  have "after_number [] \<and> length (json_dumps fr v) < 2 * length (json_dumps fr v) + 2" by simp
  with json_reads_back[OF assms]
  have "scan_value fp (2 * length (json_dumps fr v) + 2) (json_dumps fr v @ []) = Some (v, [])"
    unfolding reads_back_def by blast
  then show ?thesis using skip_ws_dumps[OF assms, of "[]"] by (simp add: json_loads_def)
qed

section \<open>A text that was read has no zero byte\<close>

text \<open>What a scanner takes off the front of a text.\<close>

definition taken :: "string \<Rightarrow> string \<Rightarrow> bool" where
  "taken s r \<longleftrightarrow> (\<exists>u. s = u @ r \<and> CHR 0x00 \<notin> set u)"

lemma taken_refl [simp]: "taken s s"
  by (simp add: taken_def)

lemma taken_Cons: "c \<noteq> CHR 0x00 \<Longrightarrow> taken s r \<Longrightarrow> taken (c # s) r"
  unfolding taken_def by (metis append_Cons set_ConsD)

lemma taken_trans [trans]: "taken s t \<Longrightarrow> taken t r \<Longrightarrow> taken s r"
  unfolding taken_def by (metis Un_iff append.assoc set_append)

lemma taken_dropWhile: "(\<And>c. P c \<Longrightarrow> c \<noteq> CHR 0x00) \<Longrightarrow> taken s (dropWhile P s)"
  unfolding taken_def by (metis set_takeWhileD takeWhile_dropWhile_id)

lemma taken_skip_ws: "taken s (skip_ws s)"
  unfolding skip_ws_def by (rule taken_dropWhile) auto

lemma taken_ws_Cons: "skip_ws s = c # r \<Longrightarrow> c \<noteq> CHR 0x00 \<Longrightarrow> taken s r"
  using taken_skip_ws[of s] taken_trans taken_Cons taken_refl by metis

lemma taken_digits: "taken s (dropWhile is_digit s)"
  by (rule taken_dropWhile) (auto simp: is_digit_def)

lemma hex_val_not_nul: "hex_val c = Some n \<Longrightarrow> c \<noteq> CHR 0x00"
  by (auto simp: hex_val_def)

lemma code_point_hex: "code_point a b c d = Some u \<Longrightarrow> CHR 0x00 \<notin> {a, b, c, d}"
  by (auto simp: code_point_def split: option.splits dest: hex_val_not_nul)

lemma unescape_not_nul: "unescape c = Some u \<Longrightarrow> c \<noteq> CHR 0x00"
  by (auto simp: unescape_def)

lemma scan_string_taken: "scan_string s = Some (t, r) \<Longrightarrow> taken s r"
proof (induction s arbitrary: t r rule: scan_string.induct)
  case (2 c s)
  consider "c = CHR 0x22" | e w where "c = CHR 0x5C" "s = e # w" | "c \<noteq> CHR 0x22" "c \<noteq> CHR 0x5C" "\<not> (of_char c :: nat) < 32"
    using 2(4) by (cases s) (auto split: if_splits)
  then show ?case
  proof cases
    case 1
    then show ?thesis using 2(4) by (auto intro: taken_Cons)
  next
    case (2 e w)
    show ?thesis
    proof (cases "e = CHR ''u''")
      case True
      then obtain x1 x2 x3 x4 w' u where w: "w = x1 # x2 # x3 # x4 # w'" "code_point x1 x2 x3 x4 = Some u"
        "\<exists>t'. scan_string w' = Some (t', r)"
        using 2 \<open>scan_string (c # s) = Some (t, r)\<close> by (auto split: list.splits option.splits)
      have "taken w' r" using w 2 "2.IH"(1) True by auto
      then show ?thesis using code_point_hex[OF w(2)] w(1) 2 True by (auto intro!: taken_Cons)
    next
      case False
      then obtain u where u: "unescape e = Some u" "\<exists>t'. scan_string w = Some (t', r)"
        using 2 \<open>scan_string (c # s) = Some (t, r)\<close> by (auto split: option.splits)
      have "taken w r" using u 2 "2.IH"(2) False by auto
      then show ?thesis using unescape_not_nul[OF u(1)] 2 by (auto intro!: taken_Cons)
    qed
  next
    case 3
    then have "taken s r" using "2.IH"(3) 2(4) by auto
    then show ?thesis using 3 by (auto intro!: taken_Cons)
  qed
qed simp

lemma int_part_taken: "int_part s = Some (i, r) \<Longrightarrow> taken s r"
  using taken_digits[of s] by (cases s) (auto simp: int_part_def split: if_splits intro: taken_Cons)

lemma frac_part_taken: "frac_part s = (f, r) \<Longrightarrow> taken s r"
  using taken_digits[of "tl s"] by (cases s) (auto simp: frac_part_def split: if_splits intro: taken_Cons)

lemma sign_part_taken: "sign_part s = (f, r) \<Longrightarrow> taken s r"
  by (cases s) (auto simp: sign_part_def split: if_splits intro: taken_Cons)

lemma exp_part_taken: "exp_part s = (e, r) \<Longrightarrow> taken s r"
  using taken_trans[OF sign_part_taken taken_digits, of "tl s"]
  by (cases s; cases "sign_part (tl s)") (auto simp: exp_part_def split: if_splits intro: taken_Cons)

lemma neg_part_taken: "neg_part s = (b, r) \<Longrightarrow> taken s r"
  by (cases s) (auto simp: neg_part_def split: if_splits intro: taken_Cons)

lemma scan_number_taken: "scan_number fp s = Some (v, r) \<Longrightarrow> taken s r"
  using neg_part_taken[of s] int_part_taken[of "snd (neg_part s)"] frac_part_taken exp_part_taken
  by (auto simp: scan_number_def split: prod.splits option.splits if_splits) (metis taken_trans)+

lemma scan_literal_taken: "scan_literal s = Some (v, r) \<Longrightarrow> taken s r"
  by (auto simp: scan_literal_def prefix_def split: if_splits intro!: taken_Cons)

lemma scan_taken:
  "(\<forall>s v r. scan_value fp n s = Some (v, r) \<longrightarrow> taken s r) \<and>
   (\<forall>s v r. scan_items fp n s = Some (v, r) \<longrightarrow> taken s r) \<and>
   (\<forall>s v r. scan_pairs fp n s = Some (v, r) \<longrightarrow> taken s r)"
proof (induction n)
  case (Suc n)
  note IH = Suc[THEN conjunct1, rule_format] Suc[THEN conjunct2, THEN conjunct1, rule_format]
    Suc[THEN conjunct2, THEN conjunct2, rule_format]
  have tl: "s \<noteq> [] \<Longrightarrow> hd s \<noteq> CHR 0x00 \<Longrightarrow> taken s (tl s)" for s
    using taken_Cons[of "hd s" "tl s" "tl s"] by simp
  have "taken s r" if "scan_value fp (Suc n) s = Some (v, r)" for s v r
    using that
  proof (cases rule: scan_value_cases)
    case (str t)
    show ?thesis using taken_trans[OF tl[OF str(2,3)] scan_string_taken[OF str(1)]] .
  next
    case (none c)
    show ?thesis using taken_trans[OF tl[OF none(2,3)] taken_ws_Cons[OF none(1,4)]] .
  next
    case (pairs c t kvs)
    show ?thesis using taken_trans[OF taken_trans[OF tl[OF pairs(3,4)] taken_ws_Cons[OF pairs(1,5)]] IH(3)[OF pairs(2)]] .
  next
    case (items c t vs)
    show ?thesis using taken_trans[OF tl[OF items(3,4)] taken_trans[OF taken_skip_ws IH(2)[OF items(2)[folded items(1)]]]] .
  qed (simp_all add: scan_literal_taken scan_number_taken)
  moreover have "taken s r" if "scan_items fp (Suc n) s = Some (v, r)" for s v r
    using that
  proof (cases rule: scan_items_cases)
    case (1 v t c)
    show ?thesis using taken_trans[OF IH(1)[OF 1(1)] taken_ws_Cons[OF 1(2,3)]] .
  next
    case (2 v t c u ws)
    show ?thesis using taken_trans[OF taken_trans[OF IH(1)[OF 2(1)] taken_ws_Cons[OF 2(2,4)]]
          taken_trans[OF taken_skip_ws IH(2)[OF 2(3)]]] .
  qed
  moreover have "taken s r" if "scan_pairs fp (Suc n) s = Some (v, r)" for s v r
    using that
  proof (cases rule: scan_pairs_cases)
    case (1 k t d t1 v t2 c)
    have "taken s t1" using taken_trans[OF scan_string_taken[OF 1(1)] taken_ws_Cons[OF 1(2,5)]] .
    also have "taken t1 t2" using taken_trans[OF taken_skip_ws IH(1)[OF 1(3)]] .
    also have "taken t2 r" using taken_ws_Cons[OF 1(4,6)] .
    finally show ?thesis .
  next
    case (2 k t d t1 v t2 c t3 g t4 ws)
    have "taken s t1" using taken_trans[OF scan_string_taken[OF 2(1)] taken_ws_Cons[OF 2(2,7)]] .
    also have "taken t1 t2" using taken_trans[OF taken_skip_ws IH(1)[OF 2(3)]] .
    also have "taken t2 t3" using taken_ws_Cons[OF 2(4,8)] .
    also have "taken t3 t4" using taken_ws_Cons[OF 2(5,9)] .
    also have "taken t4 r" using IH(3)[OF 2(6)] .
    finally show ?thesis .
  qed
  ultimately show ?case by blast
qed (simp add: scan_value.simps scan_items.simps scan_pairs.simps)

lemma json_loads_no_nul: "json_loads fp s = Inr v \<Longrightarrow> CHR 0x00 \<notin> set s"
proof -
  assume "json_loads fp s = Inr v"
  then obtain r where r: "scan_value fp (2 * length s + 2) (skip_ws s) = Some (v, r)" "skip_ws r = []"
    by (auto simp: json_loads_def split: option.splits if_splits)
  have "taken s r" using taken_trans[OF taken_skip_ws] scan_taken r(1) by blast
  then have "taken s []" using taken_trans[OF _ taken_skip_ws[of r]] r(2) by simp
  then show ?thesis by (simp add: taken_def)
qed

lemma json_dumps_no_nul: "json_ok fr fp v \<Longrightarrow> CHR 0x00 \<notin> set (json_dumps fr v)"
  by (rule json_loads_no_nul) (rule json_loads_dumps)

end
