(* ===== verification/File_Utils.thy ===== *)
theory File_Utils
  imports File_System Py_Json "HOL-Library.Char_ord" "HOL-Library.List_Lexorder"
begin

text \<open>
  \<open>src/lib/utility/files.py\<close>: writing output files, reading JSON files and the digest of a
  set of files.  What the machine decides is a record of parameters: which paths it refuses
  to write, read or create, how it writes and reads a float, and the digest function.  A
  file holds a text.
\<close>

record platform =
  cannot_write :: "path \<Rightarrow> bool"
  torn_write :: "path \<Rightarrow> string \<Rightarrow> nat option"
  cannot_read :: "path \<Rightarrow> bool"
  cannot_mkdir :: "path \<Rightarrow> bool"
  float_repr :: "rat \<Rightarrow> string"
  float_parse :: "string \<Rightarrow> rat"
  sha256 :: "string \<Rightarrow> string"

type_synonym files = "string fs"

abbreviation dumps :: "platform \<Rightarrow> pv \<Rightarrow> string" where
  "dumps pl v \<equiv> json_dumps (float_repr pl) v"

abbreviation loads :: "platform \<Rightarrow> string \<Rightarrow> pv res" where
  "loads pl s \<equiv> json_loads (float_parse pl) s"

abbreviation jsonable :: "platform \<Rightarrow> pv \<Rightarrow> bool" where
  "jsonable pl v \<equiv> json_ok (float_repr pl) (float_parse pl) v"

text \<open>\<open>open(p, "w")\<close> fails on a directory, below a path that is none, and where it is refused;
  a write that fails later (a full disk) leaves the part of the text that was written, of a length
  that \<open>torn_write\<close> decides.  Every such error ends the program with status 1.\<close>

definition write_to_file :: "platform \<Rightarrow> files \<Rightarrow> path \<Rightarrow> string \<Rightarrow> exc option \<times> files" where
  "write_to_file pl d p data =
     (if cannot_write pl p \<or> is_dir d p \<or> \<not> is_dir d (butlast p)
      then (Some (Exc SystemExit ''1''), d)
      else case torn_write pl p data of
          Some n \<Rightarrow> (Some (Exc SystemExit ''1''), write_file p (take n data) d)
        | None \<Rightarrow> (None, write_file p data d))"

definition open_read :: "platform \<Rightarrow> files \<Rightarrow> path \<Rightarrow> string res" where
  "open_read pl d p = (if cannot_read pl p then Inl (Exc PermissionError ''permission denied'') else read_file d p)"

text \<open>\<open>PNone\<close> is Python's \<open>None\<close>: no file, no JSON, or the JSON text \<open>null\<close>.\<close>

definition read_json_file :: "platform \<Rightarrow> files \<Rightarrow> path \<Rightarrow> pv" where
  "read_json_file pl d p = (case bindr (open_read pl d p) (loads pl) of Inl e \<Rightarrow> PNone | Inr v \<Rightarrow> v)"

fun read_json_stdout :: "platform \<Rightarrow> pv \<Rightarrow> pv" where
  "read_json_stdout pl (PStr s) = (case loads pl s of Inl e \<Rightarrow> PNone | Inr v \<Rightarrow> v)"
| "read_json_stdout pl v = PNone"

text \<open>What the digest of saved files is taken of: names and contents, each closed by a zero byte.\<close>

definition NUL :: char where "NUL = CHR 0x00"

definition file_frames :: "(string \<times> string) list \<Rightarrow> string" where
  "file_frames kvs = concat (map (\<lambda>(k, v). k @ [NUL] @ v @ [NUL]) kvs)"

definition hash_saved_recipe_files :: "platform \<Rightarrow> (string, string) dict \<Rightarrow> string" where
  "hash_saved_recipe_files pl file_payloads = sha256 pl (file_frames (sort_key fst file_payloads))"

section \<open>Lemmas\<close>

lemma write_to_file_None:
  "write_to_file pl d p data = (None, d') \<longleftrightarrow>
     \<not> cannot_write pl p \<and> torn_write pl p data = None \<and> \<not> is_dir d p \<and> is_dir d (butlast p) \<and> d' = write_file p data d"
  by (auto simp: write_to_file_def split: option.splits)

lemma write_to_file_exit:
  "write_to_file pl d p data = (Some e, d') \<Longrightarrow> e = Exc SystemExit ''1'' \<and> (d' = d \<or> (\<exists>n. d' = write_file p (take n data) d))"
  by (auto simp: write_to_file_def split: if_splits option.splits)

lemma is_dir_write_file: "p \<noteq> q \<Longrightarrow> is_dir (write_file p c d) q = is_dir d q"
  by (simp add: write_file_def is_dir_dset)

lemma holds_file_is_file: "p \<noteq> [] \<Longrightarrow> holds_file d p \<longleftrightarrow> is_file d p"
  by (simp add: holds_file_def is_file_def)

lemma is_file_write_file [simp]: "p \<noteq> [] \<Longrightarrow> q \<noteq> [] \<Longrightarrow> is_file (write_file p c d) q \<longleftrightarrow> q = p \<or> is_file d q"
  by (simp flip: holds_file_is_file)

lemma open_read_write:
  "open_read pl (write_file p c d) q =
     (if q = p \<and> \<not> cannot_read pl q then Inr c else open_read pl d q)"
  by (auto simp: open_read_def files.fetch_store)

text \<open>A text without the separator can be split off.\<close>

lemma split_at_sep:
  assumes "s @ c # t = s' @ c # t'" "c \<notin> set s" "c \<notin> set s'"
  shows "s = s' \<and> t = t'"
  using assms
proof (induction s arbitrary: s')
  case (Cons x s)
  then show ?case by (cases s') auto
next
  case Nil
  then show ?case by (cases s') auto
qed

definition nul_free :: "(string \<times> string) list \<Rightarrow> bool" where
  "nul_free kvs \<longleftrightarrow> (\<forall>(k, v) \<in> set kvs. NUL \<notin> set k \<and> NUL \<notin> set v)"

lemma file_frames_simps [simp]:
  "file_frames [] = []" "file_frames ((k, v) # kvs) = k @ NUL # v @ NUL # file_frames kvs"
  by (simp_all add: file_frames_def)

lemma file_frames_inj:
  "file_frames kvs = file_frames kvs' \<Longrightarrow> nul_free kvs \<Longrightarrow> nul_free kvs' \<Longrightarrow> kvs = kvs'"
proof (induction kvs arbitrary: kvs')
  case Nil
  then show ?case by (cases kvs') auto
next
  case (Cons kv kvs)
  obtain k v where kv: "kv = (k, v)" by (cases kv)
  show ?case
  proof (cases kvs')
    case Nil
    then show ?thesis using Cons.prems(1) kv by simp
  next
    case (Cons kv' kvs'')
    obtain k' v' where kv': "kv' = (k', v')" by (cases kv')
    have n: "NUL \<notin> set k" "NUL \<notin> set v" "NUL \<notin> set k'" "NUL \<notin> set v'" "nul_free kvs" "nul_free kvs''"
      using Cons.prems kv kv' Cons by (auto simp: nul_free_def)
    have "k @ NUL # (v @ NUL # file_frames kvs) = k' @ NUL # (v' @ NUL # file_frames kvs'')"
      using Cons.prems(1) kv kv' Cons by simp
    from split_at_sep[OF this n(1,3)] have "k = k'" and r: "v @ NUL # file_frames kvs = v' @ NUL # file_frames kvs''"
      by auto
    with split_at_sep[OF r n(2,4)] Cons.IH[of kvs''] n(5,6) kv kv' Cons show ?thesis by simp
  qed
qed

text \<open>Equal digests mean equal files, unless they are two texts with the same digest.\<close>

definition sha256_collision :: "platform \<Rightarrow> string \<Rightarrow> string \<Rightarrow> bool" where
  "sha256_collision pl x y \<longleftrightarrow> x \<noteq> y \<and> sha256 pl x = sha256 pl y"

lemma hash_files_inj:
  assumes "hash_saved_recipe_files pl kvs = hash_saved_recipe_files pl kvs'" "nul_free kvs" "nul_free kvs'"
  shows "sort_key fst kvs = sort_key fst kvs' \<or>
    sha256_collision pl (file_frames (sort_key fst kvs)) (file_frames (sort_key fst kvs'))"
  using assms file_frames_inj[of "sort_key fst kvs" "sort_key fst kvs'"]
  by (auto simp: hash_saved_recipe_files_def sha256_collision_def nul_free_def)

lemma wf_sort_key [simp]: "wf_dict (sort_key f kvs) = wf_dict kvs"
  by (simp add: distinct_map)

lemma map_of_sort_key: "wf_dict kvs \<Longrightarrow> map_of (sort_key f kvs) = map_of kvs"
proof (rule ext, rule option.expand)
  fix k assume w: "wf_dict kvs"
  show "(map_of (sort_key f kvs) k = None) = (map_of kvs k = None)" by (simp add: map_of_eq_None_iff)
  show "the (map_of (sort_key f kvs) k) = the (map_of kvs k)"
    if ne: "map_of (sort_key f kvs) k \<noteq> None"
  proof -
    obtain v where "map_of (sort_key f kvs) k = Some v" using ne by auto
    moreover from this have "map_of kvs k = Some v" using w by (auto dest: map_of_SomeD)
    ultimately show ?thesis by simp
  qed
qed

end
