(* ===== verification/Recipe_Base.thy ===== *)
theory Recipe_Base
  imports Data_Registry Recipe_Registry File_Utils
begin

text \<open>
  \<open>src/core/recipes/recipe_base.py\<close>: the recipe objects.  \<open>'df\<close> is the type of pandas data
  frames; \<open>to_dict\<close> and \<open>from_dict\<close> are the conversions of pandas (or the overrides of
  \<open>get_raw_results\<close>) and parameters of the operations that use them.  The configuration is
  an object in the heap of registries.
\<close>

record 'df recipe_obj =
  rb_name :: string
  rb_desc :: string
  rb_category :: string
  rb_tags :: "string list"
  rb_depends_on :: "string list"
  rb_default_config :: "pdict option"
  rb_results_desc :: string
  rb_priority :: int
  rb_cfg :: "nat option"
  rb_result :: "(pv \<times> 'df) option"
  rb_benchmark_binary :: pv
  rb_result_metadata :: pdict
  rb_loaded_raw_result :: pv
  rb_from_saved_output :: bool

definition new_recipe_base :: "recipe_metadata \<Rightarrow> string \<Rightarrow> 'df recipe_obj" where
  "new_recipe_base metadata results_desc =
     \<lparr>rb_name = rm_name metadata, rb_desc = rm_description metadata, rb_category = rm_category metadata,
      rb_tags = rm_tags metadata, rb_depends_on = rm_depends_on metadata,
      rb_default_config = rm_default_config metadata, rb_results_desc = results_desc,
      rb_priority = 100, rb_cfg = None, rb_result = None, rb_benchmark_binary = PNone,
      rb_result_metadata = [], rb_loaded_raw_result = PNone, rb_from_saved_output = False\<rparr>"

definition recipe_lt :: "'df recipe_obj \<Rightarrow> 'df recipe_obj \<Rightarrow> bool" where
  "recipe_lt a b \<longleftrightarrow> rb_priority a < rb_priority b"

text \<open>A truth value counts as an integer.\<close>

fun set_priority :: "pv \<Rightarrow> 'df recipe_obj \<Rightarrow> 'df recipe_obj res" where
  "set_priority (PInt i) r =
     (if i < 0 then Inl (Exc ValueError ''Priority must be a non-negative integer'')
      else Inr (r\<lparr>rb_priority := i\<rparr>))"
| "set_priority (PBool b) r = Inr (r\<lparr>rb_priority := (if b then 1 else 0)\<rparr>)"
| "set_priority v r = Inl (Exc TypeError ''Priority must be an integer'')"

section \<open>Configuration\<close>

definition create_default_config :: "bool \<Rightarrow> 'df recipe_obj \<Rightarrow> reg_heap \<Rightarrow> exc option \<times> nat \<times> reg_heap" where
  "create_default_config quick r h =
     (case new_config quick [] h of
        (Some e, a, h1) \<Rightarrow> (Some e, a, h1)
      | (None, a, h1) \<Rightarrow>
          (case config_update quick a (case rb_default_config r of None \<Rightarrow> [] | Some d \<Rightarrow> d) h1 of
             (x, h2) \<Rightarrow> (x, a, h2)))"

text \<open>The configuration is assigned before it is updated, so an error leaves it there.\<close>

definition initialize_config :: "bool \<Rightarrow> pdict \<Rightarrow> pdict \<Rightarrow> 'df recipe_obj \<Rightarrow> reg_heap \<Rightarrow>
    exc option \<times> 'df recipe_obj \<times> reg_heap" where
  "initialize_config quick extra_user_config kwargs r h =
     (case create_default_config quick r h of
        (Some e, a, h1) \<Rightarrow> (Some e, r, h1)
      | (None, a, h1) \<Rightarrow>
          (case config_update quick a extra_user_config h1 of
             (Some e, h2) \<Rightarrow> (Some e, r\<lparr>rb_cfg := Some a\<rparr>, h2)
           | (None, h2) \<Rightarrow>
               (case config_update quick a kwargs h2 of
                  (x, h3) \<Rightarrow> (x, r\<lparr>rb_cfg := Some a\<rparr>, h3))))"

section \<open>Saving\<close>

definition RESERVED_METADATA :: "string list" where
  "RESERVED_METADATA = [''name'', ''description'', ''result_desc'', ''benchmark_binary'', ''config'']"

definition saved_metadata :: "pdict \<Rightarrow> pv \<Rightarrow> 'df recipe_obj \<Rightarrow> pdict" where
  "saved_metadata config result_desc r = dupdate [
     (''name'', PStr (rb_name r)),
     (''description'', PStr (rb_desc r)),
     (''result_desc'', result_desc),
     (''benchmark_binary'', rb_benchmark_binary r),
     (''config'', PDict config)] (rb_result_metadata r)"

definition serialize :: "('df \<Rightarrow> pv) \<Rightarrow> reg_heap \<Rightarrow> 'df recipe_obj \<Rightarrow> pdict option res" where
  "serialize to_dict h r = (case rb_result r of
       None \<Rightarrow> Inr None
     | Some (desc, df) \<Rightarrow>
         (case rb_cfg r of
            None \<Rightarrow> Inl (Exc AttributeError ''NoneType has no attribute get_dict'')
          | Some a \<Rightarrow> Inr (Some [
              (''raw_result'', to_dict df),
              (''metadata'', PDict (saved_metadata (reg_get_dict h a) desc r))])))"

section \<open>Loading\<close>

definition pget :: "pdict \<Rightarrow> string \<Rightarrow> pv" where
  "pget d k = dget d k PNone"

text \<open>An object that is not a dictionary and is used as one has no attribute \<open>get\<close>.\<close>

definition deserialize_metadata :: "bool \<Rightarrow> pv \<Rightarrow> 'df recipe_obj \<Rightarrow> reg_heap \<Rightarrow>
    pdict res \<times> 'df recipe_obj \<times> reg_heap" where
  "deserialize_metadata quick data r h =
     (let metadata = (case data of PDict d \<Rightarrow> dget d ''metadata'' (PDict []) | _ \<Rightarrow> PDict []) in
      if \<not> truthy metadata
      then (Inr [], r\<lparr>rb_benchmark_binary := PNone, rb_result_metadata := [], rb_cfg := None\<rparr>, h)
      else case metadata of
        PDict md \<Rightarrow>
          (let r1 = r\<lparr>rb_benchmark_binary := pget md ''benchmark_binary''\<rparr>;
               rest = filter (\<lambda>(k, v). k \<notin> set RESERVED_METADATA) md in
           case pget md ''config'' of
             PDict saved_config \<Rightarrow>
               (case new_config quick [] h of
                  (Some e, a, h1) \<Rightarrow> (Inl e, r1, h1)
                | (None, a, h1) \<Rightarrow>
                    (case config_update quick a saved_config h1 of
                       (Some e, h2) \<Rightarrow> (Inl e, r1, h2)
                     | (None, h2) \<Rightarrow> (Inr md, r1\<lparr>rb_cfg := Some a, rb_result_metadata := rest\<rparr>, h2)))
           | _ \<Rightarrow> (Inr md, r1\<lparr>rb_cfg := None, rb_result_metadata := rest\<rparr>, h))
      | _ \<Rightarrow> (Inl (Exc AttributeError ''get''), r, h))"

text \<open>The payload of the current format, of the old format without the two keys, or a text.\<close>

definition deserialize_payload :: "platform \<Rightarrow> bool \<Rightarrow> pv \<Rightarrow> 'df recipe_obj \<Rightarrow> reg_heap \<Rightarrow>
    (pdict \<times> pv) res \<times> 'df recipe_obj \<times> reg_heap" where
  "deserialize_payload pl quick data r h =
     (if \<not> truthy data then
        (case deserialize_metadata quick (PDict []) r h of
           (m, r1, h1) \<Rightarrow> (bindr m (\<lambda>md. Inr (md, PNone)), r1, h1))
      else case data of
        PDict d \<Rightarrow>
          (case deserialize_metadata quick data r h of
             (m, r1, h1) \<Rightarrow>
               (bindr m (\<lambda>md. Inr (md,
                  case dget d ''raw_result'' data of
                    PStr s \<Rightarrow> (case loads pl s of Inl e \<Rightarrow> PStr s | Inr v \<Rightarrow> v)
                  | raw \<Rightarrow> raw)), r1, h1))
      | _ \<Rightarrow>
          (case deserialize_metadata quick (PDict []) r h of
             (m, r1, h1) \<Rightarrow> (bindr m (\<lambda>md. Inr (md, data)), r1, h1)))"

definition deserialized_result_desc :: "pdict \<Rightarrow> 'df recipe_obj \<Rightarrow> pv" where
  "deserialized_result_desc metadata r =
     (let saved_result_desc = dget metadata ''result_desc'' (PStr []) in
      if truthy saved_result_desc then saved_result_desc
      else if rb_results_desc r \<noteq> [] then PStr (rb_results_desc r)
      else dget metadata ''description'' (PStr []))"

definition deserialize :: "platform \<Rightarrow> (pv \<Rightarrow> 'df res) \<Rightarrow> bool \<Rightarrow> pv \<Rightarrow> 'df recipe_obj \<Rightarrow> reg_heap \<Rightarrow>
    exc option \<times> 'df recipe_obj \<times> reg_heap" where
  "deserialize pl from_dict quick data r h =
     (case deserialize_payload pl quick data r h of
        (Inl e, r1, h1) \<Rightarrow> (Some e, r1, h1)
      | (Inr (metadata, raw_result), r1, h1) \<Rightarrow>
          (let r2 = r1\<lparr>rb_loaded_raw_result := raw_result\<rparr> in
           if raw_result = PNone then (None, r2, h1)
           else case from_dict raw_result of
             Inl e \<Rightarrow> (Some e, r2, h1)
           | Inr df \<Rightarrow> (None, r2\<lparr>rb_result := Some (deserialized_result_desc metadata r2, df)\<rparr>, h1)))"

definition get_diff_data :: "'df recipe_obj \<Rightarrow> pv res" where
  "get_diff_data r = (if rb_loaded_raw_result r = PNone
     then Inl (Exc RuntimeError (''result data was not loaded for '' @ rb_name r))
     else Inr (rb_loaded_raw_result r))"

end
