(* ===== verification/Saved_Results.thy ===== *)
theory Saved_Results
  imports Recipe_Base "HOL-Library.Product_Lexorder"
begin

text \<open>
  Saved results: \<open>src/lib/output_metadata/fields.py\<close>, the functions of
  \<open>src/core/cmd/helpers/run_helpers.py\<close> that write the files of a benchmark, and
  \<open>src/lib/run/result_loader.py\<close>, which validates and reads them.  A benchmark's directory
  holds \<open>data.json\<close>, \<open>metadata.json\<close>, \<open>summary.json\<close> and \<open>.hash\<close>, the digest of the others.
\<close>

section \<open>Descriptions of the fields\<close>

text \<open>The table is the file \<open>fields.json\<close>, a parameter: recipe, field path, attributes.\<close>

abbreviation sub_dict :: "pdict \<Rightarrow> string \<Rightarrow> pdict" where
  "sub_dict d k \<equiv> (case map_of d k of Some (PDict e) \<Rightarrow> e | _ \<Rightarrow> [])"

definition get_recipe_field_metadata :: "pdict \<Rightarrow> string \<Rightarrow> pdict" where
  "get_recipe_field_metadata fields_json recipe_name = sub_dict fields_json recipe_name"

definition get_field_metadata_for_recipes :: "pdict \<Rightarrow> string list \<Rightarrow> pdict" where
  "get_field_metadata_for_recipes fields_json recipe_names =
     dict_of (concat (map (\<lambda>n. case map_of fields_json n of Some v \<Rightarrow> [(n, v)] | None \<Rightarrow> []) recipe_names))"

definition get_field_metadata :: "pdict \<Rightarrow> string \<Rightarrow> string \<Rightarrow> pdict" where
  "get_field_metadata fields_json recipe_name field_path =
     sub_dict (get_recipe_field_metadata fields_json recipe_name) field_path"

definition label_or :: "string \<Rightarrow> pdict \<Rightarrow> string" where
  "label_or missing d = (case map_of d ''label'' of
     Some (PStr s) \<Rightarrow> if s = [] then missing else s | _ \<Rightarrow> missing)"

definition get_field_label :: "pdict \<Rightarrow> string \<Rightarrow> string \<Rightarrow> string" where
  "get_field_label fields_json recipe_name field_path =
     label_or (field_path @ '' [missing label]'') (get_field_metadata fields_json recipe_name field_path)"

definition field_string :: "pdict \<Rightarrow> string \<Rightarrow> string \<Rightarrow> string \<Rightarrow> nat \<Rightarrow> string \<Rightarrow> string" where
  "field_string fields_json recipe_name field_path value label_width indent =
     indent @ ljust label_width (get_field_label fields_json recipe_name field_path @ '':'') @ '' '' @ value"

definition get_section_metadata :: "pdict \<Rightarrow> string \<Rightarrow> string \<Rightarrow> pdict" where
  "get_section_metadata fields_json recipe_name section_name =
     sub_dict (sub_dict (sub_dict fields_json recipe_name) ''sections'') section_name"

definition get_section_label :: "pdict \<Rightarrow> string \<Rightarrow> string \<Rightarrow> string" where
  "get_section_label fields_json recipe_name section_name =
     label_or (section_name @ '' [missing section label]'') (get_section_metadata fields_json recipe_name section_name)"

definition section_string :: "pdict \<Rightarrow> string \<Rightarrow> string \<Rightarrow> string \<Rightarrow> string \<Rightarrow> string" where
  "section_string fields_json recipe_name section_name pre suf =
     pre @ get_section_label fields_json recipe_name section_name @ suf"

section \<open>The files of a benchmark\<close>

definition recipe_raw_dir :: "path \<Rightarrow> string \<Rightarrow> path" where
  "recipe_raw_dir output_dir recipe_name = output_dir @ [''raw'', recipe_name]"

definition data_json_path :: "path \<Rightarrow> string \<Rightarrow> path" where
  "data_json_path output_dir recipe_name = recipe_raw_dir output_dir recipe_name @ [''data.json'']"

definition summary_json_path :: "path \<Rightarrow> string \<Rightarrow> path" where
  "summary_json_path output_dir recipe_name = recipe_raw_dir output_dir recipe_name @ [''summary.json'']"

definition metadata_json_path :: "path \<Rightarrow> string \<Rightarrow> path" where
  "metadata_json_path output_dir recipe_name = recipe_raw_dir output_dir recipe_name @ [''metadata.json'']"

definition hash_path :: "path \<Rightarrow> string \<Rightarrow> path" where
  "hash_path output_dir recipe_name = recipe_raw_dir output_dir recipe_name @ [''.hash'']"

section \<open>Writing\<close>

fun write_all :: "platform \<Rightarrow> files \<Rightarrow> (path \<times> string) list \<Rightarrow> exc option \<times> files" where
  "write_all pl d [] = (None, d)"
| "write_all pl d ((p, s) # ps) =
     (case write_to_file pl d p s of (Some e, d') \<Rightarrow> (Some e, d') | (None, d') \<Rightarrow> write_all pl d' ps)"

text \<open>The position of a recipe in the table of all recipes, the last place for others.\<close>

definition output_rank :: "string list \<Rightarrow> string \<Rightarrow> nat \<times> string" where
  "output_rank order recipe_name =
     (case find (\<lambda>i. order ! i = recipe_name) (rev [0..<length order]) of
        Some i \<Rightarrow> i | None \<Rightarrow> length order, recipe_name)"

definition sort_for_output :: "string list \<Rightarrow> (string, 'a) dict \<Rightarrow> (string, 'a) dict" where
  "sort_for_output order data = sort_key (\<lambda>(k, v). output_rank order k) data"

definition write_fields_metadata_file :: "platform \<Rightarrow> string list \<Rightarrow> pdict \<Rightarrow> path \<Rightarrow> string list \<Rightarrow> files \<Rightarrow>
    exc option \<times> files" where
  "write_fields_metadata_file pl order fields_json output_dir recipe_names d =
     (let raw_dir = output_dir @ [''raw''];
          entries = (if is_dir d raw_dir then filter (\<lambda>e. is_dir d (raw_dir @ [e])) (listdir d raw_dir) else []);
          saved_recipe_names = remdups (''system-info'' # recipe_names @ entries);
          ordered_recipe_names = sort_key (output_rank order) saved_recipe_names
      in write_to_file pl d (output_dir @ [''asct-fields.json''])
           (dumps pl (PDict (get_field_metadata_for_recipes fields_json ordered_recipe_names))))"

definition split_summary :: "pv \<Rightarrow> pv \<times> pv" where
  "split_summary raw_result = (case raw_result of
     PDict d \<Rightarrow> (case map_of d ''summary'' of
         Some s \<Rightarrow> (PDict (filter (\<lambda>(k, v). k \<noteq> ''summary'') d), s)
       | None \<Rightarrow> (raw_result, PNone))
   | _ \<Rightarrow> (raw_result, PNone))"

definition saved_payloads :: "platform \<Rightarrow> pdict \<Rightarrow> (string, string) dict" where
  "saved_payloads pl data =
     (let metadata = dget data ''metadata'' (PDict []);
          (raw_result, summary) = split_summary (dget data ''raw_result'' (PDict []))
      in [(''data.json'', dumps pl raw_result)] @
         (if truthy metadata then [(''metadata.json'', dumps pl metadata)] else []) @
         (if summary \<noteq> PNone then [(''summary.json'', dumps pl summary)] else []))"

definition save_data :: "platform \<Rightarrow> string list \<Rightarrow> pdict \<Rightarrow> path \<Rightarrow> string \<Rightarrow> pdict \<Rightarrow> files \<Rightarrow>
    exc option \<times> files" where
  "save_data pl order fields_json output_dir name data d =
     (let recipe_dir = recipe_raw_dir output_dir name; file_payloads = saved_payloads pl data in
      case makedirs (cannot_mkdir pl) recipe_dir d of
        (Some e, d1) \<Rightarrow> (Some e, d1)
      | (None, d1) \<Rightarrow>
          (case write_all pl d1 (map (\<lambda>(f, s). (recipe_dir @ [f], s)) file_payloads @
                  [(recipe_dir @ [''.hash''], hash_saved_recipe_files pl file_payloads)]) of
             (Some e, d2) \<Rightarrow> (Some e, d2)
           | (None, d2) \<Rightarrow> write_fields_metadata_file pl order fields_json output_dir [name] d2))"

definition save_benchmark_result :: "platform \<Rightarrow> string list \<Rightarrow> pdict \<Rightarrow> ('df \<Rightarrow> pv) \<Rightarrow> reg_heap \<Rightarrow> path \<Rightarrow>
    string \<Rightarrow> 'df recipe_obj \<Rightarrow> files \<Rightarrow> exc option \<times> files" where
  "save_benchmark_result pl order fields_json to_dict h output_dir name r d =
     (case serialize to_dict h r of
        Inl e \<Rightarrow> (Some e, d)
      | Inr None \<Rightarrow> (None, d)
      | Inr (Some data) \<Rightarrow> save_data pl order fields_json output_dir name data d)"

section \<open>Validating and reading\<close>

text \<open>The files that are there, in the order of the check, with their contents.\<close>

fun read_present :: "platform \<Rightarrow> files \<Rightarrow> (string \<times> path) list \<Rightarrow> (string, string) dict res" where
  "read_present pl d [] = Inr []"
| "read_present pl d ((f, p) # ps) =
     (if is_file d p
      then bindr (open_read pl d p) (\<lambda>s. bindr (read_present pl d ps) (\<lambda>kvs. Inr ((f, s) # kvs)))
      else read_present pl d ps)"

definition checked_files :: "path \<Rightarrow> string \<Rightarrow> (string \<times> path) list" where
  "checked_files output_dir recipe_name =
     [(''data.json'', data_json_path output_dir recipe_name),
      (''summary.json'', summary_json_path output_dir recipe_name),
      (''metadata.json'', metadata_json_path output_dir recipe_name)]"

definition has_valid_saved_recipe :: "platform \<Rightarrow> files \<Rightarrow> path \<Rightarrow> string \<Rightarrow> bool" where
  "has_valid_saved_recipe pl d output_dir recipe_name =
     (if \<not> is_file d (data_json_path output_dir recipe_name) \<or> \<not> is_file d (hash_path output_dir recipe_name)
      then False
      else case bindr (read_present pl d (checked_files output_dir recipe_name)) (\<lambda>file_payloads.
             bindr (open_read pl d (hash_path output_dir recipe_name)) (\<lambda>expected.
               Inr (hash_saved_recipe_files pl file_payloads = strip expected))) of
        Inl e \<Rightarrow> False
      | Inr ok \<Rightarrow> ok)"

record serialized_recipe_data =
  sr_raw_result :: pv
  sr_metadata :: pdict
  sr_summary :: pv

definition payload_for_deserialize :: "serialized_recipe_data \<Rightarrow> string option \<Rightarrow> string option \<Rightarrow> pdict res" where
  "payload_for_deserialize sd name description =
     (let metadata = (if sr_metadata sd = [] \<and> (name \<noteq> None \<or> description \<noteq> None)
                      then [(''name'', case name of None \<Rightarrow> PNone | Some s \<Rightarrow> PStr s),
                            (''description'', case description of None \<Rightarrow> PNone | Some s \<Rightarrow> PStr s)]
                      else sr_metadata sd);
          add_metadata = (\<lambda>payload. payload @ (if metadata = [] then [] else [(''metadata'', PDict metadata)]))
      in if sr_raw_result sd \<noteq> PNone then
           (if sr_summary sd = PNone then Inr (add_metadata [(''raw_result'', sr_raw_result sd)])
            else case sr_raw_result sd of
              PDict raw \<Rightarrow> Inr (add_metadata [(''raw_result'', PDict (dset ''summary'' (sr_summary sd) raw))])
            | _ \<Rightarrow> Inl (Exc RuntimeError ''Saved summary requires object-shaped data.json''))
         else if sr_summary sd \<noteq> PNone then Inl (Exc RuntimeError ''Saved summary requires data.json'')
         else Inr (add_metadata []))"

definition read_if_present :: "platform \<Rightarrow> files \<Rightarrow> path \<Rightarrow> pv" where
  "read_if_present pl d p = (if is_file d p then read_json_file pl d p else PNone)"

definition read_saved_recipe_artifacts :: "platform \<Rightarrow> files \<Rightarrow> path \<Rightarrow> string \<Rightarrow> bool \<Rightarrow> serialized_recipe_data res" where
  "read_saved_recipe_artifacts pl d output_dir recipe_name require_hash =
     (if require_hash \<and> \<not> has_valid_saved_recipe pl d output_dir recipe_name
      then Inl (Exc RuntimeError (''Saved results for '' @ recipe_name @ '' are missing or failed validation''))
      else let data_path = data_json_path output_dir recipe_name;
               metadata_path = metadata_json_path output_dir recipe_name;
               summary_path = summary_json_path output_dir recipe_name;
               data = read_if_present pl d data_path;
               metadata = read_if_present pl d metadata_path;
               summary = read_if_present pl d summary_path in
           if is_file d data_path \<and> data = PNone then Inl (Exc RuntimeError ''Unable to read saved raw data'')
           else if is_file d metadata_path \<and> metadata = PNone then Inl (Exc RuntimeError ''Unable to read saved metadata'')
           else if is_file d summary_path \<and> summary = PNone then Inl (Exc RuntimeError ''Unable to read saved summary data'')
           else if data = PNone \<and> metadata = PNone \<and> summary = PNone
             then Inl (Exc RuntimeError (''No saved results found for '' @ recipe_name))
           else case metadata of
             PNone \<Rightarrow> Inr \<lparr>sr_raw_result = data, sr_metadata = [], sr_summary = summary\<rparr>
           | PDict md \<Rightarrow> Inr \<lparr>sr_raw_result = data, sr_metadata = md, sr_summary = summary\<rparr>
           | _ \<Rightarrow> Inl (Exc TypeError ''Saved metadata must be an object''))"

section \<open>Recreating recipes\<close>

text \<open>The classes that \<open>asct.core.recipes.impl\<close> exports.\<close>

definition RECIPE_CLASSES :: "string list" where
  "RECIPE_CLASSES = [''CMN'', ''DMS'', ''PSS'', ''AccessPatternSweep'', ''BandwidthSweep'',
     ''CoreToCoreLatency'', ''CrossNumaBandwidth'', ''CycleLatencySweep'', ''IODepthSweep'',
     ''IdleLatency'', ''Iperf3TcpSweep'', ''Iperf3UdpSweep'', ''LoadedLatency'', ''NetworkInfo'',
     ''PeakBandwidth'', ''ProcessCountSweep'', ''RequestSizeSweep'', ''SysregInfo'', ''SystemInfo'', ''UCIe'']"

definition create_recipe :: "recipe_metadata list \<Rightarrow> (string \<Rightarrow> string) \<Rightarrow> string \<Rightarrow> 'df recipe_obj res" where
  "create_recipe table results_desc recipe_name = (case get_recipe recipe_name table of
     None \<Rightarrow> Inl (Exc RuntimeError (''Unknown benchmark '' @ recipe_name @ '' in saved run output''))
   | Some recipe_meta \<Rightarrow>
       if recipe_name = ''system-info'' then Inr (new_recipe_base recipe_meta (results_desc ''SystemInfo''))
       else if rm_class recipe_meta \<in> set RECIPE_CLASSES
       then Inr (new_recipe_base recipe_meta (results_desc (rm_class recipe_meta)))
       else Inl (Exc RuntimeError (''Recipe class '' @ rm_class recipe_meta @ '' was not found'')))"

definition recreate_recipe :: "platform \<Rightarrow> (pv \<Rightarrow> 'df res) \<Rightarrow> bool \<Rightarrow> recipe_metadata list \<Rightarrow> (string \<Rightarrow> string) \<Rightarrow>
    string \<Rightarrow> serialized_recipe_data \<Rightarrow> reg_heap \<Rightarrow> 'df recipe_obj res \<times> reg_heap" where
  "recreate_recipe pl from_dict quick table results_desc recipe_name sd h =
     (case create_recipe table results_desc recipe_name of
        Inl e \<Rightarrow> (Inl e, h)
      | Inr r \<Rightarrow>
          (case payload_for_deserialize sd (Some (rb_name r)) (Some (rb_desc r)) of
             Inl e \<Rightarrow> (Inl e, h)
           | Inr payload \<Rightarrow>
               (case deserialize pl from_dict quick (PDict payload) r h of
                  (Some e, r', h') \<Rightarrow> (Inl e, h')
                | (None, r', h') \<Rightarrow> (Inr r', h'))))"

definition load_saved_recipe :: "platform \<Rightarrow> (pv \<Rightarrow> 'df res) \<Rightarrow> bool \<Rightarrow> recipe_metadata list \<Rightarrow> (string \<Rightarrow> string) \<Rightarrow>
    files \<Rightarrow> path \<Rightarrow> string \<Rightarrow> bool \<Rightarrow> reg_heap \<Rightarrow> 'df recipe_obj res \<times> reg_heap" where
  "load_saved_recipe pl from_dict quick table results_desc d output_dir recipe_name require_hash h =
     (case read_saved_recipe_artifacts pl d output_dir recipe_name require_hash of
        Inl e \<Rightarrow> (Inl e, h)
      | Inr sd \<Rightarrow>
          (case recreate_recipe pl from_dict quick table results_desc recipe_name sd h of
             (res, h') \<Rightarrow> (map_sum id (\<lambda>r. r\<lparr>rb_from_saved_output := True\<rparr>) res, h')))"

section \<open>What the writing functions leave behind\<close>

lemma mkdirs_same_files: "holds_file (snd (mkdirs deny pre cs d)) q = holds_file d q"
proof (induction deny pre cs d rule: mkdirs.induct)
  case (2 deny pre c cs d)
  have "holds_file (dset (pre @ [c]) Dir d) q = holds_file d q" if "map_of d (pre @ [c]) = None"
    using that by (auto simp: holds_file_def)
  with 2 show ?case
    by (cases "map_of d (pre @ [c])") (auto simp: Let_def split: fnode.splits)
qed simp

lemma makedirs_holds_file: "makedirs deny p d = (x, d') \<Longrightarrow> holds_file d' q = holds_file d q"
  using mkdirs_same_files[of deny "[]" p d q] by (simp add: makedirs_def)

lemma write_all_store: "write_all pl d ps = (None, d') \<Longrightarrow> d' = files.store_all ps d"
proof (induction ps arbitrary: d)
  case (Cons x ps)
  then show ?case
    by (cases x) (auto simp: files.store_all_def write_to_file_None split: prod.splits option.splits)
qed (simp add: files.store_all_def)

lemma write_fields_store:
  assumes "write_fields_metadata_file pl order fj out names d = (None, d')"
  shows "\<exists>s. d' = write_file (out @ [''asct-fields.json'']) s d"
  using assms by (auto simp: write_fields_metadata_file_def Let_def write_to_file_None)

definition saved_files :: "platform \<Rightarrow> path \<Rightarrow> string \<Rightarrow> pdict \<Rightarrow> (path \<times> string) list" where
  "saved_files pl out name data =
     map (\<lambda>(f, s). (recipe_raw_dir out name @ [f], s)) (saved_payloads pl data) @
     [(recipe_raw_dir out name @ [''.hash''], hash_saved_recipe_files pl (saved_payloads pl data))]"

lemma saved_payloads_keys:
  "dkeys (saved_payloads pl data) \<in> {[''data.json''], [''data.json'', ''metadata.json''],
     [''data.json'', ''summary.json''], [''data.json'', ''metadata.json'', ''summary.json'']}"
  by (auto simp: saved_payloads_def Let_def split: prod.splits)

lemma saved_files_distinct: "distinct (map fst (saved_files pl out name data))"
proof -
  have inj: "distinct ks \<Longrightarrow> distinct (map (\<lambda>f. recipe_raw_dir out name @ [f]) ks)" for ks
    by (simp add: distinct_map inj_on_def)
  have "distinct (dkeys (saved_payloads pl data) @ [''.hash''])"
    using saved_payloads_keys[of pl data] by (elim insertE) auto
  from inj[OF this] show ?thesis by (simp add: saved_files_def comp_def case_prod_beta)
qed

text \<open>After a successful save: the files written, and every other file as before.\<close>

lemma save_data_effect:
  assumes "save_data pl order fj out name data d = (None, d')"
  obtains d1 s where "\<And>q. holds_file d1 q = holds_file d q"
    "d' = write_file (out @ [''asct-fields.json'']) s (files.store_all (saved_files pl out name data) d1)"
proof -
  obtain x d1 where m: "makedirs (cannot_mkdir pl) (recipe_raw_dir out name) d = (x, d1)" by fastforce
  have x: "x = None" using assms m by (auto simp: save_data_def Let_def split: option.splits)
  obtain y d2 where w: "write_all pl d1 (saved_files pl out name data) = (y, d2)" by fastforce
  have y: "y = None" using assms m w x by (auto simp: save_data_def Let_def saved_files_def split: option.splits)
  have f: "write_fields_metadata_file pl order fj out [name] d2 = (None, d')"
    using assms m w x y by (auto simp: save_data_def Let_def saved_files_def)
  from write_fields_store[OF f] write_all_store[of pl d1 _ d2] w y that[of d1] makedirs_holds_file[OF m]
  show thesis by blast
qed

lemma raw_dir_not_fields: "recipe_raw_dir out name @ [f] \<noteq> out @ [''asct-fields.json'']"
  by (simp add: recipe_raw_dir_def)

lemma raw_dir_ne [simp]: "recipe_raw_dir out name \<noteq> out"
  by (simp add: recipe_raw_dir_def)

lemma save_data_reads:
  assumes "save_data pl order fj out name data d = (None, d')"
  shows "holds_file d' (recipe_raw_dir out name @ [f]) \<longleftrightarrow>
      f \<in> fst ` set (saved_payloads pl data) \<or> f = ''.hash'' \<or> holds_file d (recipe_raw_dir out name @ [f])"
    and "map_of (saved_payloads pl data) f = Some s \<Longrightarrow> f \<noteq> ''.hash'' \<Longrightarrow> read_file d' (recipe_raw_dir out name @ [f]) = Inr s"
    and "read_file d' (recipe_raw_dir out name @ [''.hash'']) = Inr (hash_saved_recipe_files pl (saved_payloads pl data))"
proof -
  obtain d1 s0 where d1: "\<And>q. holds_file d1 q = holds_file d q"
    and d': "d' = write_file (out @ [''asct-fields.json'']) s0 (files.store_all (saved_files pl out name data) d1)"
    using save_data_effect[OF assms] by blast
  let ?p = "\<lambda>f. recipe_raw_dir out name @ [f]"
  have ks: "fst ` set (saved_files pl out name data) = ?p ` (fst ` set (saved_payloads pl data) \<union> {''.hash''})"
    by (force simp: saved_files_def)
  show "holds_file d' (?p f) \<longleftrightarrow>
      f \<in> fst ` set (saved_payloads pl data) \<or> f = ''.hash'' \<or> holds_file d (?p f)"
    using raw_dir_not_fields[of out name f] ks by (auto simp: d' d1)
  have rd: "read_file d' (?p f) = Inr s'" if "map_of (saved_files pl out name data) (?p f) = Some s'" for f s'
    using that raw_dir_not_fields[of out name f]
    by (simp add: d' files.fetch_store files.fetch_store_all[OF saved_files_distinct])
  have mo: "map_of (saved_files pl out name data) (?p f) = (if f = ''.hash'' \<and> map_of (saved_payloads pl data) f = None
      then Some (hash_saved_recipe_files pl (saved_payloads pl data)) else map_of (saved_payloads pl data) f)" for f
  proof -
    have "map_of (map (\<lambda>(f, s). (?p f, s)) kvs) (?p f) = map_of kvs f" for kvs :: "(string, string) dict"
      by (induction kvs) auto
    then show ?thesis by (auto simp: saved_files_def map_add_def split: option.splits)
  qed
  show "map_of (saved_payloads pl data) f = Some s \<Longrightarrow> f \<noteq> ''.hash'' \<Longrightarrow> read_file d' (?p f) = Inr s"
    using rd[of f s] mo[of f] by simp
  have "''.hash'' \<notin> fst ` set (saved_payloads pl data)"
    using saved_payloads_keys[of pl data] by (auto simp flip: set_map)
  then have "map_of (saved_payloads pl data) ''.hash'' = None" by (simp add: map_of_eq_None_iff)
  then show "read_file d' (?p ''.hash'') = Inr (hash_saved_recipe_files pl (saved_payloads pl data))"
    using rd[of "''.hash''"] mo[of "''.hash''"] by simp
qed

section \<open>Validation\<close>

definition readable_dir :: "platform \<Rightarrow> path \<Rightarrow> string \<Rightarrow> bool" where
  "readable_dir pl out name \<longleftrightarrow> (\<forall>f. \<not> cannot_read pl (recipe_raw_dir out name @ [f]))"

definition hex_digest :: "platform \<Rightarrow> bool" where
  "hex_digest pl \<longleftrightarrow> (\<forall>x. strip (sha256 pl x) = sha256 pl x)"

lemmas path_defs = data_json_path_def summary_json_path_def metadata_json_path_def hash_path_def

lemma is_file_raw: "is_file d (recipe_raw_dir out name @ [f]) \<longleftrightarrow> holds_file d (recipe_raw_dir out name @ [f])"
  by (simp add: holds_file_is_file)

lemma open_read_raw:
  "readable_dir pl out name \<Longrightarrow> open_read pl d (recipe_raw_dir out name @ [f]) = read_file d (recipe_raw_dir out name @ [f])"
  by (simp add: open_read_def readable_dir_def)

lemma holds_file_read: "holds_file d p \<Longrightarrow> \<exists>c. read_file d p = Inr c"
  by (simp add: files.holds_iff)

text \<open>The order in which the check reads the files does not matter for the digest.\<close>

lemma file_name_order: "''data.json'' < ''metadata.json''" "''metadata.json'' < ''summary.json''" "''data.json'' < ''summary.json''"
  by code_simp+

lemma sort_files:
  "sort_key fst [(''data.json'', x), (''summary.json'', y), (''metadata.json'', z)] =
     [(''data.json'', x), (''metadata.json'', z), (''summary.json'', y)]"
  "sort_key fst [(''data.json'', x), (''metadata.json'', z), (''summary.json'', y)] =
     [(''data.json'', x), (''metadata.json'', z), (''summary.json'', y)]"
  "sort_key fst [(''data.json'', x), (''metadata.json'', z)] = [(''data.json'', x), (''metadata.json'', z)]"
  using file_name_order by (simp_all add: less_le_not_le)

text \<open>The saved files that are there, in the order of the check.\<close>

definition present_files :: "files \<Rightarrow> path \<Rightarrow> string \<Rightarrow> (string, string) dict" where
  "present_files d out name = concat (map (\<lambda>f. case read_file d (recipe_raw_dir out name @ [f]) of
     Inr s \<Rightarrow> [(f, s)] | Inl e \<Rightarrow> []) [''data.json'', ''summary.json'', ''metadata.json''])"

lemma read_present_files:
  "readable_dir pl out name \<Longrightarrow> read_present pl d (checked_files out name) = Inr (present_files d out name)"
proof -
  assume r: "readable_dir pl out name"
  have "read_present pl d (map (\<lambda>f. (f, recipe_raw_dir out name @ [f])) fs) =
      Inr (concat (map (\<lambda>f. case read_file d (recipe_raw_dir out name @ [f]) of
        Inr s \<Rightarrow> [(f, s)] | Inl e \<Rightarrow> []) fs))" for fs
    by (induction fs) (auto simp: is_file_raw files.holds_iff open_read_raw[OF r] split: sum.splits)
  from this[of "[''data.json'', ''summary.json'', ''metadata.json'']"] show ?thesis
    by (simp add: checked_files_def path_defs present_files_def)
qed

lemma has_valid_iff:
  assumes "readable_dir pl out name"
  shows "has_valid_saved_recipe pl d out name \<longleftrightarrow> ''data.json'' \<in> fst ` set (present_files d out name) \<and>
    (\<exists>h. read_file d (hash_path out name) = Inr h \<and> hash_saved_recipe_files pl (present_files d out name) = strip h)"
proof -
  have dj: "''data.json'' \<in> fst ` set (present_files d out name) \<longleftrightarrow> holds_file d (data_json_path out name)"
    by (cases "read_file d (data_json_path out name)")
      (auto simp: present_files_def path_defs files.holds_iff split: sum.splits)
  show ?thesis
    unfolding has_valid_saved_recipe_def dj read_present_files[OF assms]
    by (auto simp: path_defs is_file_raw files.holds_iff open_read_raw[OF assms] split: sum.splits)
qed

text \<open>What \<open>serialize\<close> gives always has the two keys and metadata that is not empty.\<close>

abbreviation payload_of :: "pv \<Rightarrow> pdict \<Rightarrow> pdict" where
  "payload_of raw md \<equiv> [(''raw_result'', raw), (''metadata'', PDict md)]"

lemma saved_payloads_of:
  "md \<noteq> [] \<Longrightarrow> saved_payloads pl (payload_of raw md) =
     [(''data.json'', dumps pl (fst (split_summary raw))), (''metadata.json'', dumps pl (PDict md))] @
     (if snd (split_summary raw) = PNone then [] else [(''summary.json'', dumps pl (snd (split_summary raw)))])"
  by (simp add: saved_payloads_def Let_def case_prod_beta)

definition no_stale_summary :: "files \<Rightarrow> path \<Rightarrow> string \<Rightarrow> pv \<Rightarrow> bool" where
  "no_stale_summary d out name raw \<longleftrightarrow>
     snd (split_summary raw) \<noteq> PNone \<or> \<not> holds_file d (summary_json_path out name)"

lemma read_after_save:
  assumes "save_data pl order fj out name (payload_of raw md) d = (None, d')" "md \<noteq> []"
  shows "read_file d' (data_json_path out name) = Inr (dumps pl (fst (split_summary raw)))"
    "read_file d' (metadata_json_path out name) = Inr (dumps pl (PDict md))"
    "snd (split_summary raw) \<noteq> PNone \<Longrightarrow>
       read_file d' (summary_json_path out name) = Inr (dumps pl (snd (split_summary raw)))"
    "snd (split_summary raw) = PNone \<Longrightarrow>
       holds_file d' (summary_json_path out name) = holds_file d (summary_json_path out name)"
    "read_file d' (hash_path out name) = Inr (hash_saved_recipe_files pl (saved_payloads pl (payload_of raw md)))"
  using save_data_reads(1,2)[OF assms(1)] save_data_reads(3)[OF assms(1)]
  by (simp_all add: path_defs saved_payloads_of[OF assms(2)])

lemma present_after_save:
  assumes "save_data pl order fj out name (payload_of raw md) d = (None, d')" "md \<noteq> []"
    "no_stale_summary d out name raw"
  shows "sort_key fst (present_files d' out name) = sort_key fst (saved_payloads pl (payload_of raw md))"
proof (cases "snd (split_summary raw) = PNone")
  case True
  then have "\<not> holds_file d' (summary_json_path out name)"
    using read_after_save(4)[OF assms(1,2)] assms(3) by (simp add: no_stale_summary_def)
  then have "\<exists>e. read_file d' (summary_json_path out name) = Inl e"
    by (cases "read_file d' (summary_json_path out name)") (auto simp: files.holds_iff)
  then show ?thesis using read_after_save(1,2)[OF assms(1,2)] True
    by (auto simp: present_files_def saved_payloads_of[OF assms(2)] path_defs simp del: sort_key_simps)
next
  case False
  then show ?thesis using read_after_save(1,2)[OF assms(1,2)] read_after_save(3)[OF assms(1,2) False]
    by (simp add: present_files_def saved_payloads_of[OF assms(2)] path_defs sort_files del: sort_key_simps)
qed

lemma valid_after_save:
  assumes "save_data pl order fj out name (payload_of raw md) d = (None, d')" "md \<noteq> []"
    "no_stale_summary d out name raw" "readable_dir pl out name" "hex_digest pl"
  shows "has_valid_saved_recipe pl d' out name"
proof -
  have "''data.json'' \<in> fst ` set (present_files d' out name)"
    using read_after_save(1)[OF assms(1,2)] by (simp add: present_files_def path_defs)
  then show ?thesis
    using read_after_save(5)[OF assms(1,2)] present_after_save[OF assms(1-3)] assms(5)
    by (simp add: has_valid_iff[OF assms(4)] hash_saved_recipe_files_def hex_digest_def)
qed

section \<open>Reading back\<close>

lemma read_if_present_raw:
  assumes "readable_dir pl out name"
  shows "read_if_present pl d (recipe_raw_dir out name @ [f]) =
    (case read_file d (recipe_raw_dir out name @ [f]) of
       Inl e \<Rightarrow> PNone | Inr s \<Rightarrow> (case loads pl s of Inl e \<Rightarrow> PNone | Inr v \<Rightarrow> v))"
  using holds_file_read[of d "recipe_raw_dir out name @ [f]"]
  by (auto simp: read_if_present_def read_json_file_def is_file_raw open_read_raw[OF assms] files.holds_iff
      split: sum.splits)

lemma split_summary_ok: "jsonable pl raw \<Longrightarrow> jsonable pl (fst (split_summary raw)) \<and> jsonable pl (snd (split_summary raw))"
  by (fastforce simp: split_summary_def distinct_map_filter split: pv.splits option.splits dest!: map_of_SomeD)

lemma split_summary_None: "fst (split_summary raw) = PNone \<longleftrightarrow> raw = PNone"
  by (auto simp: split_summary_def split: pv.splits option.splits)

lemma artifacts_after_save:
  assumes "save_data pl order fj out name (payload_of raw md) d = (None, d')" "md \<noteq> []"
    "no_stale_summary d out name raw" "readable_dir pl out name" "hex_digest pl"
    "jsonable pl raw" "jsonable pl (PDict md)" "raw \<noteq> PNone"
  shows "read_saved_recipe_artifacts pl d' out name require_hash =
    Inr \<lparr>sr_raw_result = fst (split_summary raw), sr_metadata = md, sr_summary = snd (split_summary raw)\<rparr>"
proof -
  note rd = read_after_save[OF assms(1,2)] and ok = split_summary_ok[OF assms(6)]
  have d: "read_if_present pl d' (data_json_path out name) = fst (split_summary raw)"
    using rd(1) ok by (simp add: path_defs read_if_present_raw[OF assms(4)] json_loads_dumps)
  have m: "read_if_present pl d' (metadata_json_path out name) = PDict md"
    using rd(2) json_loads_dumps[OF assms(7)]
    by (simp add: path_defs read_if_present_raw[OF assms(4)] del: json_dumps.simps)
  have s: "read_if_present pl d' (summary_json_path out name) = snd (split_summary raw) \<and>
      (snd (split_summary raw) = PNone \<longrightarrow> \<not> is_file d' (summary_json_path out name))"
  proof (cases "snd (split_summary raw) = PNone")
    case True
    then show ?thesis using rd(4) assms(3)
      by (simp add: no_stale_summary_def read_if_present_def path_defs is_file_raw)
  next
    case False
    then show ?thesis using rd(3) ok
      by (simp add: path_defs read_if_present_raw[OF assms(4)] json_loads_dumps)
  qed
  show ?thesis
    using valid_after_save[OF assms(1-5)] d m s assms(8)
    by (auto simp: read_saved_recipe_artifacts_def Let_def split_summary_None)
qed

text \<open>Loading joins the summary with the data again, at the end of the dictionary.\<close>

definition rejoin_summary :: "pdict \<Rightarrow> pdict" where
  "rejoin_summary raw = (case map_of raw ''summary'' of
     Some s \<Rightarrow> filter (\<lambda>(k, v). k \<noteq> ''summary'') raw @ [(''summary'', s)] | None \<Rightarrow> raw)"

lemma map_of_filter_key: "map_of (filter (\<lambda>(k, v). k \<noteq> x) d) y = (if y = x then None else map_of d y)"
  by (induction d) auto

lemma map_of_rejoin: "map_of (rejoin_summary raw) = map_of raw"
  by (auto simp: rejoin_summary_def fun_eq_iff map_add_def map_of_filter_key split: option.splits)

lemma payload_after_save:
  assumes "md \<noteq> []" "map_of raw ''summary'' \<noteq> Some PNone"
  shows "payload_for_deserialize \<lparr>sr_raw_result = fst (split_summary (PDict raw)), sr_metadata = md,
      sr_summary = snd (split_summary (PDict raw))\<rparr> nm ds = Inr (payload_of (PDict (rejoin_summary raw)) md)"
proof (cases "map_of raw ''summary''")
  case None
  then show ?thesis using assms by (simp add: payload_for_deserialize_def split_summary_def rejoin_summary_def)
next
  case (Some s)
  have "''summary'' \<notin> fst ` set (filter (\<lambda>(k, v). k \<noteq> ''summary'') raw)" by auto
  then show ?thesis using assms Some
    by (simp add: payload_for_deserialize_def split_summary_def rejoin_summary_def dset_new)
qed

lemma new_config_plain:
  assumes "reg_heap_ok h"
  obtains h1 where "new_config False [] h = (None, length h, h1)" "reg_at (length h) h1"
proof -
  have at: "reg_at (length h) (snd (alloc_registry None h))"
    using alloc_ok[OF assms, of None] by (simp add: reg_at_def alloc_registry_def)
  have "reg_at (length h) (reg_put (length h) ''_cache_line_size'' (PInt CACHE_LINE_SIZE_DEFAULT) (snd (alloc_registry None h)))"
    using own.valid_put[OF at] .
  then show thesis using that
    by (simp add: new_config_def alloc_registry_def config_set_def adjusted_value_def)
qed

lemma saved_metadata_append:
  assumes "wf_dict (rb_result_metadata r)" "set (dkeys (rb_result_metadata r)) \<inter> set RESERVED_METADATA = {}"
  shows "saved_metadata config desc r = [(''name'', PStr (rb_name r)), (''description'', PStr (rb_desc r)),
     (''result_desc'', desc), (''benchmark_binary'', rb_benchmark_binary r), (''config'', PDict config)] @
     rb_result_metadata r"
  unfolding saved_metadata_def using assms
  by (intro dupdate_append_new) (auto simp: RESERVED_METADATA_def)

lemma filter_own_metadata:
  assumes "set (dkeys md) \<inter> set RESERVED_METADATA = {}"
  shows "filter (\<lambda>(k, v). k \<notin> set RESERVED_METADATA) md = md"
  using assms by (force simp: filter_id_conv)

text \<open>A saved recipe is restored: the fields of the object after loading a payload.\<close>

lemma deserialize_payload_of:
  assumes "wf_dict (rb_result_metadata r)" "set (dkeys (rb_result_metadata r)) \<inter> set RESERVED_METADATA = {}"
    "wf_dict config" "truthy desc" "from_dict (PDict raw) = Inr df'" "reg_heap_ok h2"
  obtains r' h' b where
    "deserialize pl from_dict False (PDict (payload_of (PDict raw) (saved_metadata config desc r))) r0 h2 = (None, r', h')"
    "rb_result r' = Some (desc, df')" "rb_loaded_raw_result r' = PDict raw"
    "rb_benchmark_binary r' = rb_benchmark_binary r" "rb_result_metadata r' = rb_result_metadata r"
    "rb_cfg r' = Some b" "\<And>k v. map_of config k = Some v \<Longrightarrow> v \<noteq> PNone \<Longrightarrow> k \<noteq> ''data_size_orig'' \<Longrightarrow> reg_lookup h' b k = Some v"
proof -
  note md = saved_metadata_append[OF assms(1,2), of config desc]
  obtain h1 where h1: "new_config False [] h2 = (None, length h2, h1)" "reg_at (length h2) h1"
    using new_config_plain[OF assms(6)] by blast
  obtain h' where u: "config_update False (length h2) config h1 = (None, h')"
    using config_update_spec[OF h1(2) assms(3), of "[]"] by (metis list.distinct(1) prod.collapse)
  have lk: "reg_lookup h' (length h2) k = Some v"
    if "map_of config k = Some v" "v \<noteq> PNone" "k \<noteq> ''data_size_orig''" for k v
    using config_update_spec[OF h1(2) assms(3) that(3)] u that by simp
  have "deserialize_metadata False (PDict (payload_of (PDict raw) (saved_metadata config desc r))) r0 h2 =
      (Inr (saved_metadata config desc r), r0\<lparr>rb_benchmark_binary := rb_benchmark_binary r, rb_cfg := Some (length h2),
         rb_result_metadata := rb_result_metadata r\<rparr>, h')"
    using h1 u filter_own_metadata[OF assms(2)]
    by (simp add: deserialize_metadata_def Let_def md pget_def RESERVED_METADATA_def)
  then have "deserialize pl from_dict False (PDict (payload_of (PDict raw) (saved_metadata config desc r))) r0 h2 =
      (None, r0\<lparr>rb_benchmark_binary := rb_benchmark_binary r, rb_cfg := Some (length h2),
         rb_result_metadata := rb_result_metadata r, rb_loaded_raw_result := PDict raw,
         rb_result := Some (desc, df')\<rparr>, h')"
    using assms(4,5)
    by (simp add: deserialize_def deserialize_payload_def deserialized_result_desc_def md Let_def)
  from that[OF this] lk show thesis by simp
qed

definition demo_platform :: platform where
  "demo_platform = \<lparr>cannot_write = \<lambda>p. False, torn_write = \<lambda>p s. None, cannot_read = \<lambda>p. False, cannot_mkdir = \<lambda>p. False,
     float_repr = \<lambda>q. ''0.5'', float_parse = \<lambda>s. 1 / 2, sha256 = \<lambda>s. nat_str (length s)\<rparr>"

definition demo_table :: "recipe_metadata list" where
  "demo_table = [recipe ''cmn'' ''c'' ''CMN'' ''mesh'' [] [] (Some [(''detect'', PBool True)]) [] True]"

definition demo_recipe :: "pv recipe_obj" where
  "demo_recipe = (new_recipe_base (hd demo_table) ''Mesh'')\<lparr>rb_cfg := Some 0,
     rb_result := Some (PStr ''Mesh'', PDict [(''x'', PFloat (1 / 2)), (''summary'', PList [PInt (-3)])])\<rparr>"

definition demo_heap :: reg_heap where
  "demo_heap = [\<lparr>reg_data = [(''detect'', PBool True)], reg_parent = None\<rparr>]"

definition demo_saved :: "exc option \<times> files" where
  "demo_saved = save_benchmark_result demo_platform [''cmn''] [] id demo_heap [] ''cmn'' demo_recipe []"

text \<open>
  C11.  Outside quick mode, saving a benchmark and loading it again gives the same recipe back: its
  raw results (as a dictionary), the description of its result, its binary, its own metadata and
  every configuration value that is not \<open>None\<close>.  This is for recipes that inherit \<open>deserialize\<close>
  from the base class and can rebuild their data from the saved dictionary, whose results and
  metadata are JSON values that come back as they were written (keys that are strings, no summary
  that is null), for a save that succeeds into a directory that can be read.  What the directory held
  before does not matter unless it held a summary and the new results have none:
  \<open>stale_summary_fails_validation\<close> shows that such results are rejected.
\<close>

theorem save_load_roundtrip:
  fixes r r0 :: "'df recipe_obj" and df df' :: 'df
  assumes "rb_result r = Some (desc, df)" "truthy desc" "rb_cfg r = Some a" "to_dict df = PDict raw"
    and "wf_dict (rb_result_metadata r)" "set (dkeys (rb_result_metadata r)) \<inter> set RESERVED_METADATA = {}"
    and "jsonable pl (PDict raw)" "jsonable pl (PDict (saved_metadata (reg_get_dict h a) desc r))"
    and "map_of raw ''summary'' \<noteq> Some PNone"
    and "save_benchmark_result pl order fj to_dict h out name r d = (None, d')"
    and "no_stale_summary d out name (PDict raw)" "readable_dir pl out name" "hex_digest pl"
    and "create_recipe table results_desc name = Inr r0" "from_dict (PDict (rejoin_summary raw)) = Inr df'"
    and "reg_heap_ok h2"
  shows "\<exists>r' h' b. load_saved_recipe pl from_dict False table results_desc d' out name True h2 = (Inr r', h') \<and>
    rb_result r' = Some (desc, df') \<and> get_diff_data r' = Inr (PDict (rejoin_summary raw)) \<and>
    map_of (rejoin_summary raw) = map_of raw \<and>
    rb_benchmark_binary r' = rb_benchmark_binary r \<and> rb_result_metadata r' = rb_result_metadata r \<and>
    rb_from_saved_output r' \<and> rb_cfg r' = Some b \<and>
    (\<forall>k v. map_of (reg_get_dict h a) k = Some v \<and> v \<noteq> PNone \<and> k \<noteq> ''data_size_orig'' \<longrightarrow> reg_lookup h' b k = Some v)"
proof -
  let ?md = "saved_metadata (reg_get_dict h a) desc r"
  note md = saved_metadata_append[OF assms(5,6), of "reg_get_dict h a" desc]
  have sv: "save_data pl order fj out name (payload_of (PDict raw) ?md) d = (None, d')"
    using assms(1,3,4,10) by (simp add: save_benchmark_result_def serialize_def)
  have ne: "?md \<noteq> []" by (simp add: md)
  have cfg: "wf_dict (reg_get_dict h a)" using assms(8) by (simp add: md)
  obtain r' h' b where d: "deserialize pl from_dict False (PDict (payload_of (PDict (rejoin_summary raw)) ?md)) r0 h2 = (None, r', h')"
    and r': "rb_result r' = Some (desc, df')" "rb_loaded_raw_result r' = PDict (rejoin_summary raw)"
      "rb_benchmark_binary r' = rb_benchmark_binary r" "rb_result_metadata r' = rb_result_metadata r" "rb_cfg r' = Some b"
      "\<And>k v. map_of (reg_get_dict h a) k = Some v \<Longrightarrow> v \<noteq> PNone \<Longrightarrow> k \<noteq> ''data_size_orig'' \<Longrightarrow> reg_lookup h' b k = Some v"
    using deserialize_payload_of[where raw = "rejoin_summary raw" and from_dict = from_dict and df' = df',
        OF assms(5,6) cfg assms(2,15,16)] by blast
  have "load_saved_recipe pl from_dict False table results_desc d' out name True h2 =
      (Inr (r'\<lparr>rb_from_saved_output := True\<rparr>), h')"
    using d assms(14) payload_after_save[OF ne assms(9)]
    by (simp add: load_saved_recipe_def recreate_recipe_def artifacts_after_save[OF sv ne assms(11,12,13,7,8)])
  with r' show ?thesis by (auto simp: get_diff_data_def map_of_rejoin)
qed


lemma demo_saved_ok: "fst demo_saved = None"
  by code_simp

lemma demo_create: "create_recipe demo_table (\<lambda>c. []) ''cmn'' = Inr (new_recipe_base (hd demo_table) [])"
  by (simp add: create_recipe_def get_recipe_def demo_table_def recipe_def add_tags_def RECIPE_CLASSES_def)

theorem save_load_roundtrip_witness:
  "\<exists>r' h' b. load_saved_recipe demo_platform Inr False demo_table (\<lambda>c. []) (snd demo_saved) [] ''cmn'' True [] = (Inr r', h') \<and>
     rb_result r' = Some (PStr ''Mesh'', PDict [(''x'', PFloat (1 / 2)), (''summary'', PList [PInt (-3)])]) \<and>
     rb_cfg r' = Some b \<and> reg_lookup h' b ''detect'' = Some (PBool True)"
proof -
  let ?raw = "[(''x'', PFloat (1 / 2)), (''summary'', PList [PInt (-3)])]"
  have g: "reg_get_dict demo_heap 0 = [(''detect'', PBool True)]" by (simp add: demo_heap_def reg_get_dict.simps)
  have m: "rb_result demo_recipe = Some (PStr ''Mesh'', PDict ?raw)" "rb_cfg demo_recipe = Some 0"
    "rb_result_metadata demo_recipe = []" "rb_benchmark_binary demo_recipe = PNone"
    by (simp_all add: demo_recipe_def new_recipe_base_def)
  have z: "nat_str 0 = ''0''" by code_simp
  have "float_text ''0.5''" unfolding float_text_def
    by (intro bexI[of _ "[]"] exI[of _ 0] exI[of _ "''.5''"] exI[of _ "[]"])
      (simp_all add: z frac_text_def exp_text_def digits_def is_digit_def)
  then have ok: "jsonable demo_platform (PDict ?raw)"
    "jsonable demo_platform (PDict (saved_metadata (reg_get_dict demo_heap 0) (PStr ''Mesh'') demo_recipe))"
    by (simp_all add: demo_platform_def saved_metadata_def m g)
  have s: "save_benchmark_result demo_platform [''cmn''] [] id demo_heap [] ''cmn'' demo_recipe [] = (None, snd demo_saved)"
    using demo_saved_ok by (metis demo_saved_def prod.collapse)
  have rest: "no_stale_summary [] [] ''cmn'' (PDict ?raw)" "readable_dir demo_platform [] ''cmn''" "hex_digest demo_platform"
    "reg_heap_ok []"
    by (auto simp: no_stale_summary_def split_summary_def readable_dir_def hex_digest_def demo_platform_def reg_heap_ok_def)
  show ?thesis
    using save_load_roundtrip[OF m(1) _ m(2) _ _ _ ok _ s rest(1-3) demo_create _ rest(4), of Inr] m g
    by (fastforce simp: rejoin_summary_def)
qed

section \<open>What the digest protects\<close>

lemma map_of_present:
  assumes "f \<in> {''data.json'', ''summary.json'', ''metadata.json''}"
  shows "map_of (present_files d out name) f =
     (case read_file d (recipe_raw_dir out name @ [f]) of Inr s \<Rightarrow> Some s | Inl e \<Rightarrow> None)"
proof -
  have "map_of (concat (map (\<lambda>f. case r f of Inr s \<Rightarrow> [(f, s)] | Inl e \<Rightarrow> []) fs)) f =
      (if f \<in> set fs then (case r f of Inr s \<Rightarrow> Some s | Inl e \<Rightarrow> None) else None)"
    for r :: "string \<Rightarrow> string res" and fs
    by (induction fs) (auto split: sum.splits)
  from this[of "\<lambda>f. read_file d (recipe_raw_dir out name @ [f])" "[''data.json'', ''summary.json'', ''metadata.json'']"]
  show ?thesis using assms unfolding present_files_def by auto
qed

lemma wf_present: "wf_dict (present_files d out name)"
  by (auto simp: present_files_def split: sum.splits)

lemma present_keys: "(f, s) \<in> set (present_files d out name) \<Longrightarrow>
    f \<in> {''data.json'', ''summary.json'', ''metadata.json''} \<and> read_file d (recipe_raw_dir out name @ [f]) = Inr s"
  by (auto simp: present_files_def split: sum.splits)

lemma wf_saved_payloads: "wf_dict (saved_payloads pl data)"
  using saved_payloads_keys[of pl data] by (elim insertE) auto

text \<open>Reading the files of a directory through the list of its files.\<close>

lemma read_if_present_map_of:
  assumes "readable_dir pl out name" "f \<in> {''data.json'', ''summary.json'', ''metadata.json''}"
  shows "read_if_present pl d (recipe_raw_dir out name @ [f]) =
    (case map_of (present_files d out name) f of
       None \<Rightarrow> PNone | Some s \<Rightarrow> (case loads pl s of Inl e \<Rightarrow> PNone | Inr v \<Rightarrow> v))"
  unfolding read_if_present_raw[OF assms(1)] map_of_present[OF assms(2)] by (auto split: sum.splits)

lemma is_file_map_of:
  "f \<in> {''data.json'', ''summary.json'', ''metadata.json''} \<Longrightarrow>
   is_file d (recipe_raw_dir out name @ [f]) \<longleftrightarrow> map_of (present_files d out name) f \<noteq> None"
  by (auto simp: map_of_present is_file_raw files.holds_iff split: sum.splits)

lemma artifacts_read:
  assumes "read_saved_recipe_artifacts pl d out name req = Inr sd"
  shows "(is_file d (data_json_path out name) \<longrightarrow> read_if_present pl d (data_json_path out name) \<noteq> PNone) \<and>
    (is_file d (metadata_json_path out name) \<longrightarrow> read_if_present pl d (metadata_json_path out name) \<noteq> PNone) \<and>
    (is_file d (summary_json_path out name) \<longrightarrow> read_if_present pl d (summary_json_path out name) \<noteq> PNone)"
  using assms unfolding read_saved_recipe_artifacts_def Let_def by (simp split: if_split_asm)

lemma strip_hash: "hex_digest pl \<Longrightarrow> strip (hash_saved_recipe_files pl kvs) = hash_saved_recipe_files pl kvs"
  by (simp add: hex_digest_def hash_saved_recipe_files_def)

text \<open>Files that were read successfully have no zero byte.\<close>

lemma artifacts_nul_free:
  assumes "readable_dir pl out name" "read_saved_recipe_artifacts pl d out name req = Inr sd"
  shows "nul_free (present_files d out name)"
proof -
  have "CHR 0x00 \<notin> set s" if "(f, s) \<in> set (present_files d out name)" for f s
  proof -
    have f: "f \<in> {''data.json'', ''summary.json'', ''metadata.json''}" "map_of (present_files d out name) f = Some s"
      using present_keys[OF that] that wf_present by auto
    have "read_if_present pl d (recipe_raw_dir out name @ [f]) \<noteq> PNone"
      using f(1) is_file_map_of[OF f(1), of d out name] f(2) artifacts_read[OF assms(2), unfolded path_defs]
      by auto
    then show ?thesis
      using f json_loads_no_nul[of "float_parse pl" s]
      by (auto simp: read_if_present_map_of[OF assms(1) f(1)] split: sum.splits)
  qed
  moreover have "CHR 0x00 \<notin> set ''data.json''" "CHR 0x00 \<notin> set ''summary.json''" "CHR 0x00 \<notin> set ''metadata.json''"
    by simp_all
  ultimately show ?thesis unfolding nul_free_def NUL_def using present_keys by blast
qed

lemma saved_nul_free:
  assumes "md \<noteq> []" "jsonable pl raw" "jsonable pl (PDict md)"
  shows "nul_free (saved_payloads pl (payload_of raw md))"
  using json_dumps_no_nul[OF assms(3)] split_summary_ok[OF assms(2)] json_dumps_no_nul
  by (auto simp: saved_payloads_of[OF assms(1)] nul_free_def NUL_def)

definition demo_payload :: pdict where
  "demo_payload = payload_of (PDict [(''x'', PFloat (1 / 2)), (''summary'', PList [PInt (-3)])]) [(''name'', PStr ''cmn'')]"

definition demo_files :: "exc option \<times> files" where
  "demo_files = save_data demo_platform [''cmn''] [] [] ''cmn'' demo_payload []"

lemma demo_files_ok: "fst demo_files = None"
  by code_simp

lemma demo_machine: "readable_dir demo_platform out name" "hex_digest demo_platform"
  by (auto simp: readable_dir_def hex_digest_def demo_platform_def)

lemma demo_float: "float_text ''0.5''"
proof -
  have z: "nat_str 0 = ''0''" by code_simp
  show ?thesis unfolding float_text_def
    by (intro bexI[of _ "[]"] exI[of _ 0] exI[of _ "''.5''"] exI[of _ "[]"])
      (simp_all add: z frac_text_def exp_text_def digits_def is_digit_def)
qed

text \<open>The same directory with an old summary, and results without one.\<close>

definition demo_old_files :: files where
  "demo_old_files = [([''raw''], Dir), ([''raw'', ''cmn''], Dir), ([''raw'', ''cmn'', ''summary.json''], File ''[1]'')]"

definition demo_new_payload :: pdict where
  "demo_new_payload = payload_of (PDict [(''x'', PInt 1)]) [(''name'', PStr ''cmn'')]"

definition demo_stale_files :: "exc option \<times> files" where
  "demo_stale_files = save_data demo_platform [''cmn''] [] [] ''cmn'' demo_new_payload demo_old_files"

lemma demo_stale_ok: "fst demo_stale_files = None"
  by code_simp

lemma demo_no_collision:
  "\<not> sha256_collision demo_platform (file_frames (sort_key fst (present_files (snd demo_stale_files) [] ''cmn'')))
     (file_frames (sort_key fst (saved_payloads demo_platform demo_new_payload)))"
  by code_simp

text \<open>
  C12.  Validated results are the results that were saved: whatever happened to the other
  files of the directory since, if the digest file is as the save left it and reading the
  results with validation succeeds, then it yields exactly the saved results, metadata and
  summary, or the digest function has been given two different texts with one digest.
\<close>

theorem validated_results_unchanged:
  assumes "save_data pl order fj out name (payload_of raw md) d = (None, d')"
    and "md \<noteq> []" "raw \<noteq> PNone" "jsonable pl raw" "jsonable pl (PDict md)"
    and "readable_dir pl out name" "hex_digest pl"
    and "read_file d2 (hash_path out name) = read_file d' (hash_path out name)"
    and "read_saved_recipe_artifacts pl d2 out name True = Inr sd"
  shows "sd = \<lparr>sr_raw_result = fst (split_summary raw), sr_metadata = md, sr_summary = snd (split_summary raw)\<rparr> \<or>
    sha256_collision pl (file_frames (sort_key fst (present_files d2 out name)))
      (file_frames (sort_key fst (saved_payloads pl (payload_of raw md))))"
proof -
  let ?P = "saved_payloads pl (payload_of raw md)"
  have "has_valid_saved_recipe pl d2 out name"
    using assms(9) by (auto simp: read_saved_recipe_artifacts_def split: if_splits)
  then have "hash_saved_recipe_files pl (present_files d2 out name) = hash_saved_recipe_files pl ?P"
    using assms(8) read_after_save(5)[OF assms(1,2)] strip_hash[OF assms(7)]
    by (simp add: has_valid_iff[OF assms(6)])
  from hash_files_inj[OF this artifacts_nul_free[OF assms(6,9)] saved_nul_free[OF assms(2,4,5)]]
  show ?thesis
  proof
    assume "sort_key fst (present_files d2 out name) = sort_key fst ?P"
    then have P: "map_of (present_files d2 out name) = map_of ?P"
      by (metis map_of_sort_key wf_present wf_saved_payloads)
    note ok = split_summary_ok[OF assms(4)]
    have "read_if_present pl d2 (data_json_path out name) = fst (split_summary raw)"
      using ok by (simp add: path_defs read_if_present_map_of[OF assms(6)] P saved_payloads_of[OF assms(2)] json_loads_dumps)
    moreover have "read_if_present pl d2 (metadata_json_path out name) = PDict md"
      using json_loads_dumps[OF assms(5)]
      by (simp add: path_defs read_if_present_map_of[OF assms(6)] P saved_payloads_of[OF assms(2)] del: json_dumps.simps)
    moreover have "read_if_present pl d2 (summary_json_path out name) = snd (split_summary raw)"
      using ok by (simp add: path_defs read_if_present_map_of[OF assms(6)] P saved_payloads_of[OF assms(2)] json_loads_dumps)
    ultimately show ?thesis
      using assms(9) by (auto simp: read_saved_recipe_artifacts_def Let_def split: if_splits)
  qed simp
qed

theorem validated_results_unchanged_witness:
  "\<exists>sd. read_saved_recipe_artifacts demo_platform (snd demo_files) [] ''cmn'' True = Inr sd \<and>
     sr_raw_result sd = PDict [(''x'', PFloat (1 / 2))] \<and> sr_summary sd = PList [PInt (-3)]"
proof -
  let ?raw = "PDict [(''x'', PFloat (1 / 2)), (''summary'', PList [PInt (-3)])]" and ?md = "[(''name'', PStr ''cmn'')]"
  have sv: "save_data demo_platform [''cmn''] [] [] ''cmn'' (payload_of ?raw ?md) [] = (None, snd demo_files)"
    using demo_files_ok by (metis demo_files_def demo_payload_def prod.collapse)
  have md: "?md \<noteq> []" and ne: "?raw \<noteq> PNone" and st: "no_stale_summary [] [] ''cmn'' ?raw"
    by (simp_all add: no_stale_summary_def split_summary_def)
  have ok: "jsonable demo_platform ?raw" "jsonable demo_platform (PDict ?md)"
    using demo_float by (simp_all add: demo_platform_def)
  obtain sd where sd: "read_saved_recipe_artifacts demo_platform (snd demo_files) [] ''cmn'' True = Inr sd"
    using artifacts_after_save[OF sv md st demo_machine ok ne] by blast
  from validated_results_unchanged[OF sv md ne ok demo_machine refl sd] present_after_save[OF sv md st]
  have "sr_raw_result sd = fst (split_summary ?raw)" "sr_summary sd = snd (split_summary ?raw)"
    by (auto simp: sha256_collision_def)
  with sd show ?thesis by (auto simp: split_summary_def)
qed

text \<open>
  Saving over a directory with a summary, when the new results have none, leaves the old
  summary in place although the digest does not cover it: the results that were just saved
  do not validate.
\<close>

theorem stale_summary_fails_validation:
  assumes "save_data pl order fj out name (payload_of raw md) d = (None, d')"
    and "md \<noteq> []" "snd (split_summary raw) = PNone" "is_file d (summary_json_path out name)"
    and "readable_dir pl out name" "hex_digest pl"
  shows "has_valid_saved_recipe pl d' out name \<longrightarrow>
    sha256_collision pl (file_frames (sort_key fst (present_files d' out name)))
      (file_frames (sort_key fst (saved_payloads pl (payload_of raw md))))"
proof
  assume "has_valid_saved_recipe pl d' out name"
  then have h: "hash_saved_recipe_files pl (present_files d' out name) =
      hash_saved_recipe_files pl (saved_payloads pl (payload_of raw md))"
    using read_after_save(5)[OF assms(1,2)] strip_hash[OF assms(6)] by (simp add: has_valid_iff[OF assms(5)])
  have "holds_file d' (summary_json_path out name)"
    using read_after_save(4)[OF assms(1,2,3)] assms(4) by (simp add: path_defs is_file_raw)
  then obtain s where "read_file d' (summary_json_path out name) = Inr s" by (auto simp: files.holds_iff)
  then have "present_files d' out name = [(''data.json'', dumps pl (fst (split_summary raw))),
      (''summary.json'', s), (''metadata.json'', dumps pl (PDict md))]"
    using read_after_save(1,2)[OF assms(1,2)] by (simp add: present_files_def path_defs)
  then have "length (file_frames (sort_key fst (present_files d' out name))) >
      length (file_frames (sort_key fst (saved_payloads pl (payload_of raw md))))"
    using assms(3) by (simp add: saved_payloads_of[OF assms(2)] sort_files del: sort_key_simps)
  then have "file_frames (sort_key fst (present_files d' out name)) \<noteq>
      file_frames (sort_key fst (saved_payloads pl (payload_of raw md)))" by force
  then show "sha256_collision pl (file_frames (sort_key fst (present_files d' out name)))
      (file_frames (sort_key fst (saved_payloads pl (payload_of raw md))))"
    using h by (simp add: sha256_collision_def hash_saved_recipe_files_def)
qed

theorem stale_summary_fails_validation_witness:
  "fst demo_stale_files = None \<and> \<not> has_valid_saved_recipe demo_platform (snd demo_stale_files) [] ''cmn''"
proof -
  have sv: "save_data demo_platform [''cmn''] [] [] ''cmn'' (payload_of (PDict [(''x'', PInt 1)]) [(''name'', PStr ''cmn'')])
      demo_old_files = (None, snd demo_stale_files)"
    using demo_stale_ok by (metis demo_stale_files_def demo_new_payload_def prod.collapse)
  have s: "is_file demo_old_files (summary_json_path [] ''cmn'')"
    by (simp add: demo_old_files_def is_file_def path_defs recipe_raw_dir_def)
  from stale_summary_fails_validation[OF sv _ _ s demo_machine] demo_no_collision demo_stale_ok
  show ?thesis by (auto simp: split_summary_def demo_new_payload_def)
qed

end
