(* ===== verification/User_Config.thy ===== *)
theory User_Config
  imports Recipe_Registry
begin

text \<open>
  The user's settings, from \<open>src/lib/run/run_helper.py\<close>: a nested dictionary per benchmark
  is walked with an explicit stack, every leaf is converted as the recipe's schema says, and
  the values that differ from the defaults are collected.  \<open>repr\<close> is how Python writes a
  value that is not a text.  A conversion that never returns makes the result \<open>None\<close>.
\<close>

section \<open>One value\<close>

definition value_err :: "string \<Rightarrow> exc" where
  "value_err m = Exc ValueError m"

definition path_text :: "string list \<Rightarrow> string" where
  "path_text path = join ''.'' path"

text \<open>Testing membership in a field, which is no container, is a \<open>TypeError\<close>.\<close>

fun walk_descr :: "string \<Rightarrow> cfg_tree \<Rightarrow> string list \<Rightarrow> cfg_tree res" where
  "walk_descr msg t [] = Inr t"
| "walk_descr msg (CfgGroup g) (k # ks) = (case map_of g k of
     None \<Rightarrow> Inl (value_err msg) | Some t \<Rightarrow> walk_descr msg t ks)"
| "walk_descr msg (CfgField c) (k # ks) = Inl (Exc TypeError ''argument of type 'UserConfigDescr' is not iterable'')"

definition convert_user_config_leaf :: "(pv \<Rightarrow> string) \<Rightarrow> (string, cfg_tree) dict \<Rightarrow> string list \<Rightarrow> pv \<Rightarrow> string \<Rightarrow>
    pv res option" where
  "convert_user_config_leaf repr settings_descr path top_value source_str =
     (let invalid = ''Invalid config path: '' @ path_text path @ '' in '' @ source_str in
      case walk_descr invalid (CfgGroup settings_descr) (tl path) of
        Inl e \<Rightarrow> Some (Inl e)
      | Inr (CfgGroup g) \<Rightarrow> Some (Inl (value_err invalid))
      | Inr (CfgField c) \<Rightarrow>
          (case apply_conv repr (cd_conv c) top_value of
             None \<Rightarrow> None
           | Some (Inr w) \<Rightarrow> Some (Inr w)
           | Some (Inl e) \<Rightarrow> Some (Inl (if caught [ValueError, TypeError] e
               then value_err (''Incorrect format for user config path '' @ path_text path @ '' in '' @ source_str @ '': '' @ exc_msg e)
               else e))))"

text \<open>Python's equality: numbers compare by value, dictionaries without order.\<close>

fun num_value :: "pv \<Rightarrow> rat option" where
  "num_value (PBool b) = Some (if b then 1 else 0)"
| "num_value (PInt i) = Some (of_int i)"
| "num_value (PFloat q) = Some q"
| "num_value v = None"

fun py_eq :: "pv \<Rightarrow> pv \<Rightarrow> bool" where
  "py_eq (PList xs) (PList ys) \<longleftrightarrow> list_all2 py_eq xs ys"
| "py_eq (PDict d) (PDict e) \<longleftrightarrow> length d = length e \<and>
     list_all (\<lambda>(k, v). case map_of e k of None \<Rightarrow> False | Some w \<Rightarrow> py_eq v w) d"
| "py_eq (PStr s) (PStr t) \<longleftrightarrow> s = t"
| "py_eq PNone PNone \<longleftrightarrow> True"
| "py_eq v w \<longleftrightarrow> num_value v \<noteq> None \<and> num_value v = num_value w"

text \<open>Following the path into the defaults; \<open>in\<close> and \<open>[]\<close> as for each type of value.\<close>

fun walk_default :: "pv \<Rightarrow> string list \<Rightarrow> pv option res" where
  "walk_default v [] = Inr (Some v)"
| "walk_default (PDict d) (k # ks) = (case map_of d k of None \<Rightarrow> Inr None | Some v \<Rightarrow> walk_default v ks)"
| "walk_default (PList vs) (k # ks) =
     (if PStr k \<in> set vs then Inl (Exc TypeError ''list indices must be integers or slices, not str'') else Inr None)"
| "walk_default (PStr s) (k # ks) =
     (if infix_of k s then Inl (Exc TypeError ''string indices must be integers'') else Inr None)"
| "walk_default v (k # ks) = Inl (Exc TypeError ''argument is not iterable'')"

definition is_non_default_user_config_value :: "pdict \<Rightarrow> string list \<Rightarrow> pv \<Rightarrow> bool res" where
  "is_non_default_user_config_value defaults path conv_value =
     (case map_of defaults (path ! 1) of
        None \<Rightarrow> Inr True
      | Some v \<Rightarrow> bindr (walk_default v (drop 2 path)) (\<lambda>d. case d of
          None \<Rightarrow> Inr True | Some default_value \<Rightarrow> Inr (\<not> py_eq conv_value default_value)))"

section \<open>The walk over one benchmark's settings\<close>

record conv_context =
  cc_repr :: "pv \<Rightarrow> string"
  cc_descr :: "(string, cfg_tree) dict"
  cc_defaults :: pdict
  cc_source :: string
  cc_just_check :: bool

text \<open>The warnings so far and the dictionary that is being filled.\<close>

type_synonym conv_state = "string list \<times> pdict"

definition handle_config_error :: "bool \<Rightarrow> string \<Rightarrow> conv_state \<Rightarrow> conv_state res" where
  "handle_config_error just_check message st =
     (if just_check then Inl (value_err message)
      else Inr (fst st @ [message @ '', setting ignored''], snd st))"

definition conv_leaf_step :: "conv_context \<Rightarrow> string list \<Rightarrow> pv \<Rightarrow> conv_state \<Rightarrow> conv_state res option" where
  "conv_leaf_step cx path v st =
     (case convert_user_config_leaf (cc_repr cx) (cc_descr cx) path v (cc_source cx) of
        None \<Rightarrow> None
      | Some (Inl e) \<Rightarrow> Some (if caught [ValueError, TypeError] e
          then handle_config_error (cc_just_check cx) (exc_msg e) st else Inl e)
      | Some (Inr conv_value) \<Rightarrow>
          Some (if cc_just_check cx then Inr st
            else bindr (is_non_default_user_config_value (cc_defaults cx) path conv_value) (\<lambda>nd.
              Inr (if nd then (fst st, create_dict_path (snd st) path conv_value) else st))))"

lemma size_dict_entries: "sum_list (map (\<lambda>(k, w). Suc (size w)) d) < Suc (size (PDict d))"
  by (induction d) auto

text \<open>The top of the stack is the head of the list; the entries of a dictionary are pushed in order.\<close>

function conv_stack :: "conv_context \<Rightarrow> (string list \<times> pv) list \<Rightarrow> conv_state \<Rightarrow> conv_state res option" where
  "conv_stack cx [] st = Some (Inr st)"
| "conv_stack cx ((path, v) # stack) st =
     (case v of
        PDict d \<Rightarrow> conv_stack cx (rev (map (\<lambda>(k, w). (path @ [k], w)) d) @ stack) st
      | _ \<Rightarrow> (case conv_leaf_step cx path v st of
               None \<Rightarrow> None
             | Some (Inl e) \<Rightarrow> Some (Inl e)
             | Some (Inr st') \<Rightarrow> conv_stack cx stack st'))"
  by pat_completeness auto

termination
proof (relation "measure (\<lambda>(cx, stack, st). sum_list (map (\<lambda>(p, v). Suc (size v)) stack))", goal_cases)
  case (8 cx path v stack st d)
  have "(\<lambda>(p, v). Suc (size v)) \<circ> (\<lambda>(k, w). (path @ [k], w :: pv)) = (\<lambda>(k, w). Suc (size w))"
    by (auto simp: fun_eq_iff)
  then have "sum_list (map (\<lambda>(p, v). Suc (size v)) (rev (map (\<lambda>(k, w). (path @ [k], w)) d))) =
      sum_list (map (\<lambda>(k, w). Suc (size w)) d)"
    by (simp add: sum_list_rev flip: rev_map)
  then show ?case using 8 size_dict_entries[of d] by simp
qed auto

section \<open>All settings\<close>

text \<open>A setting is named by the full or the short name of a benchmark.\<close>

fun get_conv_user_config :: "(pv \<Rightarrow> string) \<Rightarrow> pdict \<Rightarrow> string list \<Rightarrow> string \<Rightarrow> recipe_metadata list \<Rightarrow> bool \<Rightarrow>
    conv_state \<Rightarrow> conv_state res option" where
  "get_conv_user_config repr [] requested source_str table just_check st = Some (Inr st)"
| "get_conv_user_config repr ((requested_name, benchmark_settings) # settings) requested source_str table just_check st =
     (case (case get_recipe requested_name table of
          None \<Rightarrow> Some (handle_config_error just_check
            (''Unknown benchmark '' @ requested_name @ '' in '' @ source_str) st)
        | Some rcp \<Rightarrow>
            if rm_name rcp \<notin> set requested \<and> \<not> just_check
            then Some (handle_config_error just_check
              (''Benchmark '' @ rm_name rcp @ '' in '' @ source_str @ '' was not requested'') st)
            else case get_default_user_config rcp of
              Inl e \<Rightarrow> Some (Inl e)
            | Inr defaults \<Rightarrow>
                if rm_user_config rcp = [] then Some (Inr st)
                else conv_stack \<lparr>cc_repr = repr, cc_descr = rm_user_config rcp, cc_defaults = defaults,
                       cc_source = source_str, cc_just_check = just_check\<rparr> [([rm_name rcp], benchmark_settings)] st)
      of None \<Rightarrow> None
       | Some (Inl e) \<Rightarrow> Some (Inl e)
       | Some (Inr st') \<Rightarrow> get_conv_user_config repr settings requested source_str table just_check st')"

section \<open>The walk as a recursion over the leaves\<close>

text \<open>The leaves of a tree in the order in which the stack yields them: the last entry first.\<close>

fun leaves_of :: "string list \<Rightarrow> pv \<Rightarrow> (string list \<times> pv) list" where
  "leaves_of path (PDict d) = concat (rev (map (\<lambda>(k, w). leaves_of (path @ [k]) w) d))"
| "leaves_of path v = [(path, v)]"

fun conv_leaves :: "conv_context \<Rightarrow> (string list \<times> pv) list \<Rightarrow> conv_state \<Rightarrow> conv_state res option" where
  "conv_leaves cx [] st = Some (Inr st)"
| "conv_leaves cx ((path, v) # ls) st = (case conv_leaf_step cx path v st of
     None \<Rightarrow> None | Some (Inl e) \<Rightarrow> Some (Inl e) | Some (Inr st') \<Rightarrow> conv_leaves cx ls st')"

declare conv_stack.simps [simp del]

lemma conv_stack_leaves:
  "conv_stack cx stack st = conv_leaves cx (concat (map (\<lambda>(p, v). leaves_of p v) stack)) st"
proof (induction cx stack st rule: conv_stack.induct)
  case (1 cx st)
  then show ?case by (simp add: conv_stack.simps)
next
  case (2 cx path v stack st)
  show ?case
  proof (cases "is_pdict v")
    case True
    then obtain d where d: "v = PDict d" by (cases v) auto
    have "concat (map (\<lambda>(p, v). leaves_of p v) (rev (map (\<lambda>(k, w). (path @ [k], w)) d))) = leaves_of path (PDict d)"
      by (simp add: rev_map comp_def case_prod_unfold)
    then show ?thesis using 2(7)[OF d] by (simp add: d conv_stack.simps)
  next
    case False
    then have l: "leaves_of path v = [(path, v)]" by (cases v) auto
    have s: "conv_stack cx ((path, v) # stack) st = (case conv_leaf_step cx path v st of
        None \<Rightarrow> None | Some (Inl e) \<Rightarrow> Some (Inl e) | Some (Inr st') \<Rightarrow> conv_stack cx stack st')"
      using False by (cases v) (auto simp: conv_stack.simps)
    show ?thesis
    proof (cases "conv_leaf_step cx path v st")
      case (Some x)
      have "conv_stack cx stack st' = conv_leaves cx (concat (map (\<lambda>(p, v). leaves_of p v) stack)) st'"
        if "x = Inr st'" for st'
        using 2 False Some that by (cases v) auto
      then show ?thesis using Some s l by (cases x) auto
    qed (simp add: s l)
  qed
qed

section \<open>What is collected and what is reported\<close>

definition accepted_leaves :: "conv_context \<Rightarrow> (string list \<times> pv) list \<Rightarrow> (string list \<times> pv) list" where
  "accepted_leaves cx ls = List.map_filter (\<lambda>(p, v).
     case convert_user_config_leaf (cc_repr cx) (cc_descr cx) p v (cc_source cx) of
       Some (Inr w) \<Rightarrow> if is_non_default_user_config_value (cc_defaults cx) p w = Inr True then Some (p, w) else None
     | _ \<Rightarrow> None) ls"

definition rejected_leaves :: "conv_context \<Rightarrow> (string list \<times> pv) list \<Rightarrow> string list" where
  "rejected_leaves cx ls = List.map_filter (\<lambda>(p, v).
     case convert_user_config_leaf (cc_repr cx) (cc_descr cx) p v (cc_source cx) of
       Some (Inl e) \<Rightarrow> Some (exc_msg e @ '', setting ignored'') | _ \<Rightarrow> None) ls"

lemma map_filter_Cons: "List.map_filter f (x # xs) = (case f x of None \<Rightarrow> [] | Some y \<Rightarrow> [y]) @ List.map_filter f xs"
  by (simp add: List.map_filter_def split: option.splits)

lemma leaves_cases [simp]:
  "accepted_leaves cx [] = []" "rejected_leaves cx [] = []"
  by (simp_all add: accepted_leaves_def rejected_leaves_def List.map_filter_def)

lemma conv_leaf_step_run:
  assumes "\<not> cc_just_check cx" "conv_leaf_step cx p v st = Some (Inr st')"
  shows "st' = (fst st @ rejected_leaves cx [(p, v)], insert_paths (accepted_leaves cx [(p, v)]) (snd st))"
  using assms
  by (auto simp: conv_leaf_step_def handle_config_error_def accepted_leaves_def rejected_leaves_def map_filter_Cons
      List.map_filter_def bindr_Inr_iff split: option.splits sum.splits if_splits)

lemma insert_paths_append: "insert_paths (xs @ ys) d = insert_paths ys (insert_paths xs d)"
  by (induction xs arbitrary: d) auto

lemma conv_leaves_run:
  assumes "\<not> cc_just_check cx" "conv_leaves cx ls st = Some (Inr st')"
  shows "st' = (fst st @ rejected_leaves cx ls, insert_paths (accepted_leaves cx ls) (snd st))"
  using assms(2)
proof (induction ls arbitrary: st)
  case (Cons l ls)
  obtain p v where l: "l = (p, v)" by fastforce
  from Cons.prems obtain st1 where st1: "conv_leaf_step cx p v st = Some (Inr st1)" "conv_leaves cx ls st1 = Some (Inr st')"
    by (auto simp: l split: option.splits sum.splits)
  have "rejected_leaves cx (l # ls) = rejected_leaves cx [l] @ rejected_leaves cx ls"
    "accepted_leaves cx (l # ls) = accepted_leaves cx [l] @ accepted_leaves cx ls"
    by (simp_all add: rejected_leaves_def accepted_leaves_def map_filter_Cons List.map_filter_def)
  with conv_leaf_step_run[OF assms(1) st1(1)] Cons.IH[OF st1(2)] l show ?case
    by (simp add: insert_paths_append)
qed simp

text \<open>
  The walk with its stack collects exactly the leaves of the settings, last entry
  first: a leaf whose value converts and differs from the default is entered at its path, a
  leaf with an unknown path or a wrong value is reported and ignored, and nothing else
  changes.
\<close>

theorem conv_stack_collects_leaves:
  assumes "\<not> cc_just_check cx" "conv_stack cx [([name], v)] (ws, dest) = Some (Inr (ws', dest'))"
  shows "dest' = insert_paths (accepted_leaves cx (leaves_of [name] v)) dest \<and>
    ws' = ws @ rejected_leaves cx (leaves_of [name] v)"
  using conv_leaves_run[OF assms(1), of "leaves_of [name] v" "(ws, dest)"] assms(2)
  by (simp add: conv_stack_leaves)

lemma conv_step_check:
  assumes "\<not> cc_just_check cx" "conv_leaf_step cx p v st = Some (Inr st')"
  shows "conv_leaf_step (cx\<lparr>cc_just_check := True\<rparr>) p v st0 =
    (if fst st' = fst st then Some (Inr st0) else conv_leaf_step (cx\<lparr>cc_just_check := True\<rparr>) p v st0) \<and>
    (fst st' \<noteq> fst st \<longrightarrow> (\<exists>e. conv_leaf_step (cx\<lparr>cc_just_check := True\<rparr>) p v st0 = Some (Inl e))) \<and>
    (\<exists>w. fst st' = fst st @ w)"
  using assms
  by (auto simp: conv_leaf_step_def handle_config_error_def bindr_Inr_iff split: option.splits sum.splits if_splits)

lemma conv_leaves_check:
  assumes "\<not> cc_just_check cx" "conv_leaves cx ls st = Some (Inr st')"
  shows "(conv_leaves (cx\<lparr>cc_just_check := True\<rparr>) ls st0 = Some (Inr st0) \<longleftrightarrow> fst st' = fst st) \<and>
    (\<exists>x. conv_leaves (cx\<lparr>cc_just_check := True\<rparr>) ls st0 = Some x \<and> (x = Inr st0 \<or> (\<exists>e. x = Inl e))) \<and>
    (\<exists>w. fst st' = fst st @ w)"
  using assms(2)
proof (induction ls arbitrary: st)
  case (Cons l ls)
  obtain p v where l: "l = (p, v)" by fastforce
  from Cons.prems obtain st1 where st1: "conv_leaf_step cx p v st = Some (Inr st1)" "conv_leaves cx ls st1 = Some (Inr st')"
    by (auto simp: l split: option.splits sum.splits)
  note IH = Cons.IH[OF st1(2)] and step = conv_step_check[OF assms(1) st1(1), of st0]
  obtain w1 w2 where w: "fst st1 = fst st @ w1" "fst st' = fst st1 @ w2" using IH step by blast
  show ?case
  proof (cases "fst st1 = fst st")
    case True
    then show ?thesis using IH step l by simp
  next
    case False
    then obtain e where "conv_leaf_step (cx\<lparr>cc_just_check := True\<rparr>) p v st0 = Some (Inl e)" using step by blast
    then show ?thesis using w False l by auto
  qed
qed simp

text \<open>Strings for which the recipe and its defaults are there: the two modes go the same way.\<close>

lemma get_conv_check:
  assumes "\<And>r. r \<in> set table \<Longrightarrow> rm_name r \<in> set requested"
    and "get_conv_user_config repr settings requested src table False st = Some (Inr st')"
  shows "(get_conv_user_config repr settings requested src table True st0 = Some (Inr st0) \<longleftrightarrow> fst st' = fst st) \<and>
    (\<exists>w. fst st' = fst st @ w)"
  using assms(2)
proof (induction settings arbitrary: st)
  case (Cons s settings)
  obtain n b where s: "s = (n, b)" by fastforce
  show ?case
  proof (cases "get_recipe n table")
    case None
    with Cons.prems s have "get_conv_user_config repr settings requested src table False
        (fst st @ [(''Unknown benchmark '' @ n @ '' in '' @ src) @ '', setting ignored''], snd st) = Some (Inr st')"
      by (simp add: handle_config_error_def)
    from Cons.IH[OF this] have "\<exists>w. fst st' = fst st @ w \<and> w \<noteq> []" by auto
    then show ?thesis using None s by (auto simp: handle_config_error_def)
  next
    case (Some r)
    then have "r \<in> set table" unfolding get_recipe_def by (auto simp: find_Some_iff)
    then have req: "rm_name r \<in> set requested" by (rule assms(1))
    obtain d where d: "get_default_user_config r = Inr d"
      using Cons.prems s Some req by (auto split: sum.splits)
    show ?thesis
    proof (cases "rm_user_config r = []")
      case True
      then show ?thesis using Cons.IH[of st] Cons.prems s Some req d by simp
    next
      case False
      let ?cx = "\<lparr>cc_repr = repr, cc_descr = rm_user_config r, cc_defaults = d, cc_source = src, cc_just_check = False\<rparr>"
      obtain st1 where st1: "conv_stack ?cx [([rm_name r], b)] st = Some (Inr st1)"
        and rest: "get_conv_user_config repr settings requested src table False st1 = Some (Inr st')"
        using Cons.prems s Some req d False by (auto split: option.splits sum.splits)
      have chk: "(conv_stack (?cx\<lparr>cc_just_check := True\<rparr>) [([rm_name r], b)] st0 = Some (Inr st0) \<longleftrightarrow> fst st1 = fst st) \<and>
          (\<exists>x. conv_stack (?cx\<lparr>cc_just_check := True\<rparr>) [([rm_name r], b)] st0 = Some x \<and> (x = Inr st0 \<or> (\<exists>e. x = Inl e))) \<and>
          (\<exists>w. fst st1 = fst st @ w)"
        using conv_leaves_check[of ?cx] st1 by (simp add: conv_stack_leaves)
      note IH = Cons.IH[OF rest]
      obtain w1 w2 where w: "fst st1 = fst st @ w1" "fst st' = fst st1 @ w2" using IH chk by blast
      show ?thesis
      proof (cases "fst st1 = fst st")
        case True
        then show ?thesis using IH chk s Some req d False by simp
      next
        case no: False
        then obtain e where "conv_stack (?cx\<lparr>cc_just_check := True\<rparr>) [([rm_name r], b)] st0 = Some (Inl e)"
          using chk by blast
        then show ?thesis using w no s Some req d False by auto
      qed
    qed
  qed
qed simp

text \<open>
  The check of a configuration (\<open>just_check\<close>) accepts exactly the settings that a run of
  all benchmarks takes over without a warning.
\<close>

theorem just_check_iff_no_warning:
  assumes "\<And>r. r \<in> set table \<Longrightarrow> rm_name r \<in> set requested"
    and "get_conv_user_config repr settings requested src table False ([], dest) = Some (Inr (ws, dest'))"
  shows "get_conv_user_config repr settings requested src table True ([], []) = Some (Inr ([], [])) \<longleftrightarrow> ws = []"
  using get_conv_check[OF assms] by simp

definition demo_config_table :: "recipe_metadata list" where
  "demo_config_table = [recipe ''latency-sweep'' ''ls'' ''LatencySweep'' ''demo'' [] [''iterations'', ''data_size'']
     (Some [(''iterations'', PInt 400), (''data_size'', PNone)]) [] True]"

abbreviation demo_cx :: "bool \<Rightarrow> conv_context" where
  "demo_cx check \<equiv> \<lparr>cc_repr = \<lambda>v. [], cc_descr = rm_user_config (hd demo_config_table),
     cc_defaults = [(''iterations'', PInt 400), (''data_size'', PNone)], cc_source = ''file'', cc_just_check = check\<rparr>"

definition demo_settings :: pv where
  "demo_settings = PDict [(''iterations'', PStr ''400''), (''data_size'', PStr ''2kib''), (''size'', PInt 1)]"

lemma demo_settings_run:
  "conv_stack (demo_cx False) [([''latency-sweep''], demo_settings)] ([], []) =
     Some (Inr ([''Invalid config path: latency-sweep.size in file, setting ignored''],
       [(''latency-sweep'', PDict [(''data_size'', PInt 2048)])]))"
  by code_simp

theorem conv_stack_collects_leaves_witness:
  "[(''latency-sweep'', PDict [(''data_size'', PInt 2048)])] =
     insert_paths (accepted_leaves (demo_cx False) (leaves_of [''latency-sweep''] demo_settings)) []"
  using conv_stack_collects_leaves[OF _ demo_settings_run] by simp

lemma demo_config_run:
  "get_conv_user_config (\<lambda>v. []) [(''ls'', demo_settings)] [''latency-sweep''] ''file'' demo_config_table False ([], []) =
     Some (Inr ([''Invalid config path: latency-sweep.size in file, setting ignored''],
       [(''latency-sweep'', PDict [(''data_size'', PInt 2048)])]))"
  by code_simp

theorem just_check_iff_no_warning_witness:
  "get_conv_user_config (\<lambda>v. []) [(''ls'', demo_settings)] [''latency-sweep''] ''file'' demo_config_table True ([], []) \<noteq>
     Some (Inr ([], []))"
  using just_check_iff_no_warning[OF _ demo_config_run]
  by (simp add: demo_config_table_def recipe_def add_tags_def)

end
