(* ===== verification/Sys_Diff.thy ===== *)
theory Sys_Diff
  imports Saved_Results User_Config
begin

text \<open>
  Comparing runs, \<open>src/lib/sysdiff\<close> and \<open>src/core/cmd/diff.py\<close>: the comparators and rules,
  the adapters and the loader that bring saved runs of several versions into one flat form,
  the differences, and the checks of the command line.  Tables and plots are left out.
  Version numbers belong to the package \<open>packaging\<close> and are parameters.
\<close>

section \<open>Comparators\<close>

text \<open>The keys that \<open>diff_rules.py\<close> adds to \<open>Comparator.ignore_keys\<close>.\<close>

definition IGNORE_KEYS :: "string list" where
  "IGNORE_KEYS = [''cmd_arguments.func'', ''cmd_arguments.output_dir'', ''cmd_arguments.output_dir_path'', ''run_id'',
     ''system-info.result.sys_hw.numa_nodes.*'', ''timestamp'', ''collected_time'', ''benchmark_binary'',
     ''cmd_arguments.log_file'', ''metadata.name'', ''metadata.config'', ''top_latencies.latencies.*'',
     ''data.MEMBIND_NODE.*'', ''data.LATENCY.*'', ''data.CPUA.*'', ''data.CPUB.*'', ''data.CPUA_NODE.*'',
     ''data.CPUB_NODE.*'']"

definition add_ignore_key :: "string \<Rightarrow> string list \<Rightarrow> string list" where
  "add_ignore_key key keys = List.insert key keys"

definition should_ignore :: "string list \<Rightarrow> string \<Rightarrow> bool" where
  "should_ignore keys path \<longleftrightarrow> path \<in> set keys \<or> list_ex (\<lambda>k. k \<in> set keys) (split_on CHR ''.'' path) \<or>
     list_ex (\<lambda>key. (suffix ''*'' key \<and> infix_of (butlast key) path) \<or> prefix (key @ ''.'') path) keys"

datatype comparator = Comparator | NumericTolerance "rat option" "rat option" | IgnoreNode

text \<open>\<open>float(a)\<close>, where \<open>read_float\<close> reads a text; other values raise \<open>TypeError\<close>.\<close>

fun diff_float :: "(string \<Rightarrow> rat option) \<Rightarrow> pv \<Rightarrow> rat option" where
  "diff_float read_float (PStr s) = read_float s"
| "diff_float read_float v = num_value v"

definition within_tolerance :: "rat option \<Rightarrow> rat option \<Rightarrow> rat \<Rightarrow> rat \<Rightarrow> bool" where
  "within_tolerance abs_tolerance percent_tolerance fa fb =
     (if fa = fb then True
      else let diff = \<bar>fb - fa\<bar> in
        if (case abs_tolerance of Some t \<Rightarrow> diff \<le> t | None \<Rightarrow> False) then True
        else case percent_tolerance of
            Some t \<Rightarrow> let denom = (if fa \<noteq> 0 then \<bar>fa\<bar> else if fb \<noteq> 0 then \<bar>fb\<bar> else 1) in diff / denom * 100 \<le> t
          | None \<Rightarrow> False)"

fun compare_values :: "(string \<Rightarrow> rat option) \<Rightarrow> string list \<Rightarrow> comparator \<Rightarrow> pv \<Rightarrow> pv \<Rightarrow> string \<Rightarrow> bool" where
  "compare_values read_float keys Comparator a b path = (if should_ignore keys path then True else py_eq a b)"
| "compare_values read_float keys (NumericTolerance abs_tolerance percent_tolerance) a b path =
     (if should_ignore keys path then True
      else case (diff_float read_float a, diff_float read_float b) of
          (Some fa, Some fb) \<Rightarrow> within_tolerance abs_tolerance percent_tolerance fa fb
        | _ \<Rightarrow> py_eq a b)"
| "compare_values read_float keys IgnoreNode a b path = True"

section \<open>Rules\<close>

record diff_rule =
  ru_path :: string
  ru_comparator :: comparator

type_synonym rule_base = "(string, diff_rule) dict"

definition new_rule_base :: "diff_rule list \<Rightarrow> rule_base" where
  "new_rule_base rules = dict_of (map (\<lambda>r. (ru_path r, r)) rules)"

definition get_rule :: "rule_base \<Rightarrow> string \<Rightarrow> diff_rule" where
  "get_rule rules path = (case map_of rules path of
     Some r \<Rightarrow> r
   | None \<Rightarrow> (case find (\<lambda>(key, r). suffix ''.*'' key \<and> prefix (take (length key - 2) key) path) rules of
       Some (key, r) \<Rightarrow> r
     | None \<Rightarrow> \<lparr>ru_path = path, ru_comparator = Comparator\<rparr>))"

text \<open>No recipe has rules of its own yet.\<close>

definition RECIPE_RULES :: "(string, rule_base) dict" where
  "RECIPE_RULES = []"

definition get_rules :: "string \<Rightarrow> rule_base" where
  "get_rules name = dget RECIPE_RULES name (new_rule_base [])"

datatype recipe_display = RecipeDisplay | SweepDisplay | RawResultDisplay

definition RECIPE_DISPLAYS :: "(string, recipe_display) dict" where
  "RECIPE_DISPLAYS = [(''latency-sweep'', SweepDisplay), (''bandwidth-sweep'', SweepDisplay), (''loaded-latency'', RawResultDisplay)]"

definition get_display :: "string \<Rightarrow> recipe_display" where
  "get_display name = dget RECIPE_DISPLAYS name RecipeDisplay"

fun filter_graph_data :: "recipe_display \<Rightarrow> pv \<Rightarrow> pv" where
  "filter_graph_data RecipeDisplay data = data"
| "filter_graph_data SweepDisplay data = (case data of PDict d \<Rightarrow> dget d ''sweep_data'' data | _ \<Rightarrow> data)"
| "filter_graph_data RawResultDisplay data = (case data of PDict d \<Rightarrow> dget d ''raw_result'' data | _ \<Rightarrow> data)"

section \<open>Differences\<close>

record change =
  ch_path :: string
  ch_baseline :: pv
  ch_other :: pv

definition DIFF_MISSING :: pv where
  "DIFF_MISSING = PStr ''<missing>''"

record diff_context =
  dc_read_float :: "string \<Rightarrow> rat option"
  dc_ignore_keys :: "string list"

definition apply_rule :: "diff_context \<Rightarrow> diff_rule \<Rightarrow> pv \<Rightarrow> pv \<Rightarrow> string \<Rightarrow> change list" where
  "apply_rule dc rule baseline other path =
     (if compare_values (dc_read_float dc) (dc_ignore_keys dc) (ru_comparator rule) baseline other path then []
      else [\<lparr>ch_path = path, ch_baseline = baseline, ch_other = other\<rparr>])"

definition get_differences :: "diff_context \<Rightarrow> rule_base \<Rightarrow> pv \<Rightarrow> pv \<Rightarrow> change list res" where
  "get_differences dc rules a b = (case (a, b) of
     (PDict da, PDict db) \<Rightarrow> Inr (concat (map (\<lambda>k.
         apply_rule dc (get_rule rules k) (dget da k DIFF_MISSING) (dget db k DIFF_MISSING) k)
       (sort (remdups (dkeys da @ dkeys db)))))
   | _ \<Rightarrow> Inl (Exc TypeError ''Top-level structures must be dictionaries.''))"

record loaded_run =
  lr_run_name :: string
  lr_recipes :: "(string, pv) dict"

definition lr_recipe :: "loaded_run \<Rightarrow> string \<Rightarrow> pv" where
  "lr_recipe run name = dget (lr_recipes run) name (PDict [])"

record run_changes =
  rc_run :: string
  rc_changes :: "change list"

definition diff_recipe :: "diff_context \<Rightarrow> loaded_run \<Rightarrow> loaded_run list \<Rightarrow> string \<Rightarrow> run_changes list res" where
  "diff_recipe dc baseline others name = map_res (\<lambda>run.
     bindr (get_differences dc (get_rules name) (lr_recipe baseline name) (lr_recipe run name)) (\<lambda>cs.
       Inr \<lparr>rc_run = lr_run_name run, rc_changes = cs\<rparr>)) others"

text \<open>The recipes of all runs are a set; their order here is the one of first appearance.\<close>

definition diff_all :: "diff_context \<Rightarrow> loaded_run \<Rightarrow> loaded_run list \<Rightarrow> (string, run_changes list) dict res" where
  "diff_all dc baseline others = map_res (\<lambda>name.
     bindr (diff_recipe dc baseline others name) (\<lambda>cs. Inr (name, cs)))
     (remdups (concat (map (\<lambda>r. dkeys (lr_recipes r)) (baseline # others))))"

record diff_summary =
  ds_total_recipes :: nat
  ds_changed_recipes :: nat
  ds_top_changed :: "(string \<times> nat) list"

definition compute_summary :: "(string, run_changes list) dict \<Rightarrow> diff_summary" where
  "compute_summary result =
     (let counts = map (\<lambda>(name, runs). (name, sum_list (map (\<lambda>r. length (rc_changes r)) runs))) result in
      \<lparr>ds_total_recipes = length counts,
       ds_changed_recipes = length (filter (\<lambda>(r, c). c \<noteq> 0) counts),
       ds_top_changed = sort_key (\<lambda>(r, c). - int c) (filter (\<lambda>(r, c). c \<noteq> 0) counts)\<rparr>)"

section \<open>The command line\<close>

record diff_args =
  da_run_dirs :: "string list"
  da_baseline :: string
  da_sort_by :: string

definition rstrip_slash :: "string \<Rightarrow> string" where
  "rstrip_slash s = rev (dropWhile (\<lambda>c. c = CHR ''/'') (rev s))"

text \<open>An option that was not given is the empty text here.\<close>

definition validate_args :: "diff_args \<Rightarrow> bool" where
  "validate_args args =
     (let comparison_runs = map rstrip_slash (da_run_dirs args) in
      if da_baseline args \<noteq> [] \<and> length comparison_runs < 1 then False
      else let comparison_runs = (if da_baseline args \<noteq> [] then rstrip_slash (da_baseline args) # comparison_runs else comparison_runs) in
        if length (remdups comparison_runs) < 2 then False
        else if da_sort_by args \<noteq> [] then
          (let sort_by = rstrip_slash (da_sort_by args) in
           if sort_by = hd comparison_runs then False else if sort_by \<notin> set comparison_runs then False else True)
        else True)"

text \<open>The directories to load, the reference first, and the lists of recipes to compare and to
  leave out.  A reference that is only slashes becomes an empty text, which counts as absent.\<close>

definition diff_run_list :: "diff_args \<Rightarrow> string list" where
  "diff_run_list args =
     (let reference = (if da_baseline args \<noteq> [] then Some (rstrip_slash (da_baseline args)) else None);
          compare_dirs = map rstrip_slash (da_run_dirs args);
          compare = filter (\<lambda>x. Some x \<noteq> reference) compare_dirs
      in case reference of Some (c # r) \<Rightarrow> (c # r) # compare | _ \<Rightarrow> compare)"

definition compare_benchmarks :: "string list \<Rightarrow> string list \<times> string list" where
  "compare_benchmarks benchmarks = (filter (\<lambda>x. \<not> prefix ''^'' x) benchmarks, map tl (filter (prefix ''^'') benchmarks))"

section \<open>Adapters\<close>

definition normalize_raw_entry :: "pv \<Rightarrow> pv" where
  "normalize_raw_entry entry = (case entry of PDict d \<Rightarrow> dget d ''raw_result'' entry | _ \<Rightarrow> entry)"

text \<open>\<open>a or b\<close>, with the text of \<open>b\<close>.\<close>

definition or_text :: "(pv \<Rightarrow> string) \<Rightarrow> pv \<Rightarrow> string \<Rightarrow> string" where
  "or_text repr v t = (if truthy v then py_str repr v else t)"

text \<open>The value of a key, \<open>None\<close> when it is missing.\<close>

definition field_entries :: "(pv \<Rightarrow> string) \<Rightarrow> string \<Rightarrow> pv \<Rightarrow> (string \<times> pv) list" where
  "field_entries repr pre fld = (case fld of
     PDict f \<Rightarrow> [(pre @ ''.'' @ or_text repr (pget f ''field_name'') (''field_'' @ py_str repr (pget f ''bit_range'')), pget f ''value'')]
   | _ \<Rightarrow> [])"

text \<open>The loop over the fields raises on a value that is not iterable; the keys of a dictionary
  and the characters of a text are skipped.\<close>

fun field_list :: "pv \<Rightarrow> pv list res" where
  "field_list (PList fs) = Inr fs"
| "field_list (PDict d) = Inr []"
| "field_list (PStr s) = Inr []"
| "field_list v = Inl (Exc TypeError ''object is not iterable'')"

definition register_entries :: "(pv \<Rightarrow> string) \<Rightarrow> pv \<Rightarrow> (string \<times> pv) list res" where
  "register_entries repr register = (case register of
     PDict r \<Rightarrow>
       (let instance' = pget r ''instance'';
            block = or_text repr (pget r ''block_name'') (''block_'' @ py_str repr (pget r ''block_address''));
            register_name = or_text repr (pget r ''reg_name'') (''reg_'' @ py_str repr (pget r ''offset''));
            pre = ''instance'' @ (if instance' = PNone then ''unknown'' else py_str repr instance') @ ''.'' @ block @ ''.'' @ register_name
        in bindr (field_list (dget r ''fields'' (PList []))) (\<lambda>fs.
             Inr ((pre @ ''.raw_value'', pget r ''value'') # concat (map (field_entries repr pre) fs))))
   | _ \<Rightarrow> Inr [])"

definition IP_REGISTER_RECIPES :: "string list" where
  "IP_REGISTER_RECIPES = [''ucie'', ''dms'', ''pss'']"

definition ip_register_data :: "(pv \<Rightarrow> string) \<Rightarrow> string \<Rightarrow> pv \<Rightarrow> pdict res" where
  "ip_register_data repr name raw_data_entry =
     (let registers = (case normalize_raw_entry raw_data_entry of PDict d \<Rightarrow> dget d name (PList []) | _ \<Rightarrow> PList [])
      in bindr (map_res (register_entries repr) (case registers of PList rs \<Rightarrow> rs | _ \<Rightarrow> [])) (\<lambda>es. Inr (dict_of (concat es))))"

definition base_normalize :: "(pv \<Rightarrow> string) \<Rightarrow> string \<Rightarrow> pv \<Rightarrow> pdict option res" where
  "base_normalize repr name raw_data_entry =
     (if name \<in> set IP_REGISTER_RECIPES then map_sum id Some (ip_register_data repr name raw_data_entry) else Inr None)"

definition LEGACY_DATA_PREFIX_RECIPES :: "string list" where
  "LEGACY_DATA_PREFIX_RECIPES = [''cmn'', ''ucie'', ''dms'', ''pss'']"

definition legacy_prefixed_data :: "string \<Rightarrow> pdict \<Rightarrow> pdict" where
  "legacy_prefixed_data name diff_section =
     (let pre = name @ ''.data.'' in
      dict_of (map (\<lambda>(key, v). (removeprefix (name @ ''.'') (removeprefix pre key), v))
        (filter (\<lambda>(key, v). prefix pre key) diff_section)))"

text \<open>The columns of a sweep become the columns of each level.\<close>

definition latency_sweep_column :: "pdict \<Rightarrow> string \<times> pv \<Rightarrow> pdict res" where
  "latency_sweep_column normalized = (\<lambda>(column_name, by_level). case by_level of
     PDict levels \<Rightarrow> foldl (\<lambda>acc (level_name, v). bindr acc (\<lambda>n. case dget n level_name (PDict []) of
         PDict row \<Rightarrow> Inr (dset level_name (PDict (dset column_name v row)) n)
       | _ \<Rightarrow> Inl (Exc TypeError ''object does not support item assignment''))) (Inr normalized) levels
   | _ \<Rightarrow> Inr (dset column_name by_level normalized))"

definition latency_sweep_data :: "pdict \<Rightarrow> pdict res" where
  "latency_sweep_data data = foldl (\<lambda>acc c. bindr acc (\<lambda>n. latency_sweep_column n c)) (Inr []) data"

datatype diff_adapter = LegacyV05RecipeDiffAdapter | CurrentRecipeDiffAdapter

fun adapter_normalize :: "(pv \<Rightarrow> string) \<Rightarrow> diff_adapter \<Rightarrow> string \<Rightarrow> pv \<Rightarrow> pdict \<Rightarrow> pdict option res" where
  "adapter_normalize repr CurrentRecipeDiffAdapter name raw_data_entry diff_section = base_normalize repr name raw_data_entry"
| "adapter_normalize repr LegacyV05RecipeDiffAdapter name raw_data_entry diff_section =
     (if diff_section \<noteq> [] \<and> name \<in> set LEGACY_DATA_PREFIX_RECIPES \<and> legacy_prefixed_data name diff_section \<noteq> []
      then Inr (Some (legacy_prefixed_data name diff_section))
      else if diff_section \<noteq> [] \<and> name \<in> {''latency-sweep'', ''bandwidth-sweep''} then
        (let pre = name @ ''.data.'';
             legacy_data = unflatten_dict CHR ''.'' (dict_of (map (\<lambda>(key, v). (removeprefix pre key, v))
               (filter (\<lambda>(key, v). prefix pre key) diff_section)))
         in bindr (if name = ''latency-sweep'' then latency_sweep_data legacy_data else Inr legacy_data) (\<lambda>data.
              Inr (Some (flatten_dict True CHR ''.'' [] data))))
      else base_normalize repr name raw_data_entry)"

record 'v version_specs =
  vs_parse :: "string \<Rightarrow> 'v option"
  vs_in_spec :: "string \<Rightarrow> 'v \<Rightarrow> bool"

definition VERSIONED_ADAPTERS :: "(string \<times> diff_adapter) list" where
  "VERSIONED_ADAPTERS = [(''>=0.5,<0.6'', LegacyV05RecipeDiffAdapter), (''>=0.6'', CurrentRecipeDiffAdapter)]"

definition get_recipe_diff_adapter :: "'v version_specs \<Rightarrow> 'v \<Rightarrow> diff_adapter res" where
  "get_recipe_diff_adapter vs version = (case find (\<lambda>(spec, a). vs_in_spec vs spec version) VERSIONED_ADAPTERS of
     Some (_, a) \<Rightarrow> Inr a | None \<Rightarrow> Inl (Exc RuntimeError ''No diff adapter is registered for this ASCT version''))"

section \<open>Loading a run\<close>

definition group_by_first_dot :: "pdict \<Rightarrow> pdict res" where
  "group_by_first_dot flat = foldl (\<lambda>acc (k, v). bindr acc (\<lambda>grouped.
     let (group, rest) = (if CHR ''.'' \<in> set k then split_once CHR ''.'' k else (k, [])) in
     if rest = [] then Inr (dset group v grouped)
     else case dget grouped group (PDict []) of
       PDict g \<Rightarrow> Inr (dset group (PDict (dset rest v g)) grouped)
     | _ \<Rightarrow> Inl (Exc TypeError ''object does not support item assignment''))) (Inr []) flat"

definition load_metadata :: "pdict \<Rightarrow> pv" where
  "load_metadata data =
     (let metadata_entry = dget data ''metadata'' (PDict []) in
      if truthy metadata_entry then metadata_entry
      else case pget data ''diff'' of
        PDict df \<Rightarrow> PDict (unflatten_dict CHR ''.'' (dict_of (map (\<lambda>(key, v). (removeprefix ''metadata.'' key, v))
          (filter (\<lambda>(key, v). prefix ''metadata.'' key) df))))
      | _ \<Rightarrow> metadata_entry)"

definition SUPPORTED_ASCT_VERSION_SPEC :: string where
  "SUPPORTED_ASCT_VERSION_SPEC = ''>=0.5.0''"

definition handle_asct_version :: "'v version_specs \<Rightarrow> pdict \<Rightarrow> ('v \<times> diff_adapter) res" where
  "handle_asct_version vs metadata =
     (let version_str = pget metadata ''version'' in
      if \<not> truthy version_str then Inl (Exc RuntimeError ''ASCT version is missing from the results and is not supported'')
      else case version_str of
        PStr s \<Rightarrow>
          (case vs_parse vs s of
             None \<Rightarrow> Inl (Exc RuntimeError (''ASCT version '' @ s @ '' results are not supported''))
           | Some v \<Rightarrow> if \<not> vs_in_spec vs SUPPORTED_ASCT_VERSION_SPEC v
               then Inl (Exc RuntimeError (''ASCT version '' @ s @ '' results are not supported''))
               else bindr (get_recipe_diff_adapter vs v) (\<lambda>a. Inr (v, a)))
      | _ \<Rightarrow> Inl (Exc TypeError ''expected string or bytes-like object''))"

definition LEGACY_STRING_ENCODED_SWEEPS :: "string list" where
  "LEGACY_STRING_ENCODED_SWEEPS = [''latency-sweep'', ''bandwidth-sweep'']"

definition normalize_legacy_raw_entry :: "platform \<Rightarrow> string \<Rightarrow> pv \<Rightarrow> pv" where
  "normalize_legacy_raw_entry pl name entry = (case normalize_raw_entry entry of
     PStr s \<Rightarrow> if name \<in> set LEGACY_STRING_ENCODED_SWEEPS
       then (case loads pl s of Inr v \<Rightarrow> v | Inl e \<Rightarrow> PStr s) else PStr s
   | v \<Rightarrow> v)"

text \<open>\<open>ast.literal_eval\<close> is a parameter: the value of a literal, or nothing where it raises.\<close>

definition make_metadata_diff_data :: "(string \<Rightarrow> pv option) \<Rightarrow> pdict \<Rightarrow> pdict" where
  "make_metadata_diff_data literal_eval metadata_entry =
     (let metadata_diff = filter (\<lambda>(k, v). k \<noteq> ''cmd_arguments'') metadata_entry in
      case pget metadata_entry ''cmd_arguments'' of
        PDict cmd_arguments \<Rightarrow>
          (let normalized = (case pget cmd_arguments ''update_config'' of
                 PStr u \<Rightarrow> (case literal_eval u of Some v \<Rightarrow> dset ''update_config'' v cmd_arguments | None \<Rightarrow> cmd_arguments)
               | _ \<Rightarrow> cmd_arguments)
           in dupdate metadata_diff (map (\<lambda>(k, v). (''cmd_arguments.'' @ k, v)) (flatten_dict True CHR ''.'' [] normalized)))
      | PNone \<Rightarrow> metadata_diff
      | v \<Rightarrow> dset ''cmd_arguments'' v metadata_diff)"

text \<open>
  Rebuilding a recipe and asking for its data belongs to the recipe's class; it is the
  parameter \<open>rebuild\<close>, which raises what the code catches.  The raw result of a saved
  recipe with a summary is an object.
\<close>

definition DIFF_LOAD_ERRORS :: "exc_class list" where
  "DIFF_LOAD_ERRORS = [OSError, RuntimeError, TypeError, ValueError]"

definition generate_recipe_diff_data :: "recipe_metadata list \<Rightarrow> (string \<Rightarrow> pv \<Rightarrow> pdict res) \<Rightarrow> string \<Rightarrow> pv \<Rightarrow> pdict res" where
  "generate_recipe_diff_data table rebuild name raw_data_entry =
     (if Recipe_Registry.get_recipe name table = None then Inr []
      else case rebuild name raw_data_entry of
        Inr d \<Rightarrow> Inr d | Inl e \<Rightarrow> if caught DIFF_LOAD_ERRORS e then Inr [] else Inl e)"

definition normalize_saved_summary_data :: "(string \<Rightarrow> pv \<Rightarrow> pdict res) \<Rightarrow> string \<Rightarrow> pdict \<Rightarrow> pv \<Rightarrow> pdict res" where
  "normalize_saved_summary_data gen name summary_entry raw_data_entry =
     (let flat = flatten_dict True CHR ''.'' [] summary_entry;
          combined = (case raw_data_entry of
            PDict e \<Rightarrow>
              (case map_of e ''raw_result'' of
                 Some r \<Rightarrow> (case (if truthy r then r else PDict []) of
                     PDict raw \<Rightarrow> Inr (Some (dset ''raw_result'' (PDict (dset ''summary'' (PDict summary_entry) raw)) e))
                   | _ \<Rightarrow> Inl (Exc TypeError ''cannot convert dictionary update sequence''))
               | None \<Rightarrow> Inr (Some (dset ''summary'' (PDict summary_entry) e)))
          | _ \<Rightarrow> Inr None)
      in bindr combined (\<lambda>c. case c of
           None \<Rightarrow> Inr flat
         | Some entry \<Rightarrow> bindr (gen name (PDict entry)) (\<lambda>rebuilt.
             Inr (if rebuilt \<noteq> [] then flatten_dict True CHR ''.'' [] rebuilt else flat))))"

text \<open>One directory below \<open>raw\<close>: what is there is merged over what the manifest has.\<close>

definition load_entry :: "platform \<Rightarrow> (string \<Rightarrow> pv \<Rightarrow> pdict res) \<Rightarrow> files \<Rightarrow> path \<Rightarrow> string \<Rightarrow> pdict \<times> pdict \<Rightarrow> (pdict \<times> pdict) res" where
  "load_entry pl gen d dir_path entry = (\<lambda>(raw_data, summary_data).
     case read_saved_recipe_artifacts pl d dir_path entry False of
       Inl e \<Rightarrow> if caught [RuntimeError] e then Inr (raw_data, summary_data) else Inl e
     | Inr artifacts \<Rightarrow>
         (let merged = (case pget raw_data entry of
                PDict x \<Rightarrow> if map_of x ''raw_result'' \<noteq> None then x else [] | _ \<Rightarrow> []);
              merged = (if sr_raw_result artifacts \<noteq> PNone then dset ''raw_result'' (sr_raw_result artifacts) merged else merged);
              merged = (if sr_metadata artifacts \<noteq> [] then dset ''metadata'' (PDict (sr_metadata artifacts)) merged else merged);
              raw_data' = (if sr_raw_result artifacts \<noteq> PNone \<or> sr_metadata artifacts \<noteq> []
                then dset entry (PDict merged) raw_data else raw_data)
          in case sr_summary artifacts of
               PNone \<Rightarrow> Inr (raw_data', summary_data)
             | PDict content \<Rightarrow> bindr (normalize_saved_summary_data gen entry content (pget raw_data' entry)) (\<lambda>s.
                 Inr (raw_data', dset entry (PDict s) summary_data))
             | content \<Rightarrow> Inr (raw_data', dset entry content summary_data)))"

fun load_entries :: "platform \<Rightarrow> (string \<Rightarrow> pv \<Rightarrow> pdict res) \<Rightarrow> files \<Rightarrow> path \<Rightarrow> string list \<Rightarrow> pdict \<times> pdict \<Rightarrow> (pdict \<times> pdict) res" where
  "load_entries pl gen d dir_path [] data = Inr data"
| "load_entries pl gen d dir_path (e # es) data =
     (if is_dir d (dir_path @ [''raw'', e])
      then bindr (load_entry pl gen d dir_path e data) (load_entries pl gen d dir_path es)
      else load_entries pl gen d dir_path es data)"

definition selected_recipe_names :: "string list \<Rightarrow> string list \<Rightarrow> pdict \<Rightarrow> pdict \<Rightarrow> string list" where
  "selected_recipe_names recipe_list recipe_exclude_list summary_data raw_data =
     (let names = sort (remdups (dkeys summary_data @ dkeys raw_data));
          names = (if recipe_list \<noteq> [] then filter (\<lambda>n. n \<in> set recipe_list) names else names)
      in if recipe_exclude_list \<noteq> [] then filter (\<lambda>n. n \<notin> set recipe_exclude_list) names else names)"

definition make_recipe_diff_data :: "(pv \<Rightarrow> string) \<Rightarrow> (string \<Rightarrow> pv \<Rightarrow> pdict res) \<Rightarrow> diff_adapter \<Rightarrow> string \<Rightarrow> pv \<Rightarrow> pdict \<Rightarrow> pv res" where
  "make_recipe_diff_data repr gen adapter name raw_data_entry diff_section =
     bindr (adapter_normalize repr adapter name raw_data_entry diff_section) (\<lambda>adapted. case adapted of
       Some x \<Rightarrow> Inr (PDict x)
     | None \<Rightarrow> bindr (gen name raw_data_entry) (\<lambda>g. Inr (PDict (flatten_dict True CHR ''.'' [] g))))"

record 'v diff_loader =
  dl_platform :: platform
  dl_versions :: "'v version_specs"
  dl_repr :: "pv \<Rightarrow> string"
  dl_literal_eval :: "string \<Rightarrow> pv option"
  dl_rebuild :: "string \<Rightarrow> pv \<Rightarrow> pdict res"
  dl_table :: "recipe_metadata list"

definition as_dict :: "pv \<Rightarrow> pdict" where
  "as_dict v = (case v of PDict d \<Rightarrow> d | _ \<Rightarrow> [])"

definition run_basename :: "path \<Rightarrow> string" where
  "run_basename p = (if p = [] then [] else last p)"

definition load_run :: "'v diff_loader \<Rightarrow> files \<Rightarrow> path \<Rightarrow> string list \<Rightarrow> string list \<Rightarrow> loaded_run res" where
  "load_run dl d dir_path recipe_list recipe_exclude_list =
     (let pl = dl_platform dl; gen = generate_recipe_diff_data (dl_table dl) (dl_rebuild dl) in
      case read_json_file pl d (dir_path @ [''asct.json'']) of
        PDict data \<Rightarrow>
          (if data = [] then Inl (Exc FileNotFoundError ''Invalid ASCT run output directory'')
           else if \<not> truthy (load_metadata data) then Inl (Exc RuntimeError ''Unsupported ASCT.json format'')
           else case load_metadata data of
             PDict metadata_entry \<Rightarrow>
               bindr (handle_asct_version (dl_versions dl) metadata_entry) (\<lambda>(version, adapter).
                 let diff_section = as_dict (dget data ''diff'' (PDict []));
                     raw_data = map (\<lambda>(n, e). (n, normalize_legacy_raw_entry pl n e)) (as_dict (dget data ''raw'' (PDict [])))
                 in bindr (if is_dir d (dir_path @ [''raw'']) then load_entries pl gen d dir_path (sort (listdir d (dir_path @ [''raw'']))) (raw_data, [])
                           else Inr (raw_data, [])) (\<lambda>(raw_data, summary_data).
                    bindr (map_res (\<lambda>n. bindr
                        (case map_of summary_data n of
                           Some s \<Rightarrow> Inr s
                         | None \<Rightarrow> make_recipe_diff_data (dl_repr dl) gen adapter n (pget raw_data n) diff_section) (\<lambda>x. Inr (n, x)))
                      (selected_recipe_names recipe_list recipe_exclude_list summary_data raw_data)) (\<lambda>recipes.
                    Inr \<lparr>lr_run_name = run_basename dir_path,
                         lr_recipes = dupdate [(''metadata'', PDict (make_metadata_diff_data (dl_literal_eval dl) metadata_entry))] recipes\<rparr>)))
           | _ \<Rightarrow> Inl (Exc AttributeError ''object has no attribute get''))
      | _ \<Rightarrow> Inl (Exc FileNotFoundError ''Invalid ASCT run output directory''))"

section \<open>What is reported\<close>

definition differ :: "diff_context \<Rightarrow> rule_base \<Rightarrow> pdict \<Rightarrow> pdict \<Rightarrow> string \<Rightarrow> bool" where
  "differ dc rules a b k \<longleftrightarrow> \<not> compare_values (dc_read_float dc) (dc_ignore_keys dc) (ru_comparator (get_rule rules k))
     (dget a k DIFF_MISSING) (dget b k DIFF_MISSING) k"

lemma get_differences_eq:
  "get_differences dc rules (PDict a) (PDict b) = Inr
     (map (\<lambda>k. \<lparr>ch_path = k, ch_baseline = dget a k DIFF_MISSING, ch_other = dget b k DIFF_MISSING\<rparr>)
       (filter (differ dc rules a b) (sort (remdups (dkeys a @ dkeys b)))))"
proof -
  have "concat (map (\<lambda>k. apply_rule dc (get_rule rules k) (dget a k DIFF_MISSING) (dget b k DIFF_MISSING) k) ks) =
     map (\<lambda>k. \<lparr>ch_path = k, ch_baseline = dget a k DIFF_MISSING, ch_other = dget b k DIFF_MISSING\<rparr>) (filter (differ dc rules a b) ks)" for ks
    by (induction ks) (auto simp: apply_rule_def differ_def)
  then show ?thesis by (simp add: get_differences_def)
qed

lemma get_rules_none: "get_rule (get_rules name) k = \<lparr>ru_path = k, ru_comparator = Comparator\<rparr>"
  by (simp add: get_rule_def get_rules_def RECIPE_RULES_def dget_def new_rule_base_def)

text \<open>
  C27.  The comparison of two flat results reports every difference and nothing else: in the
  order of the paths, once each, exactly the paths that one of them has, that are not to be
  ignored, and whose values differ, a missing one being the text for missing; with both
  values.
\<close>

theorem differences_exact:
  "\<exists>cs. get_differences dc (get_rules name) (PDict a) (PDict b) = Inr cs \<and>
    sorted (map ch_path cs) \<and> distinct (map ch_path cs) \<and>
    (\<forall>c. c \<in> set cs \<longleftrightarrow> ch_path c \<in> set (dkeys a) \<union> set (dkeys b) \<and> \<not> should_ignore (dc_ignore_keys dc) (ch_path c) \<and>
      ch_baseline c = dget a (ch_path c) DIFF_MISSING \<and> ch_other c = dget b (ch_path c) DIFF_MISSING \<and>
      \<not> py_eq (ch_baseline c) (ch_other c))"
proof -
  let ?ks = "sort (remdups (dkeys a @ dkeys b))"
  let ?f = "\<lambda>k. \<lparr>ch_path = k, ch_baseline = dget a k DIFF_MISSING, ch_other = dget b k DIFF_MISSING\<rparr>"
  have p: "map ch_path (map ?f ks) = ks" for ks by (induction ks) auto
  have d: "differ dc (get_rules name) a b k \<longleftrightarrow> \<not> should_ignore (dc_ignore_keys dc) k \<and>
      \<not> py_eq (dget a k DIFF_MISSING) (dget b k DIFF_MISSING)" for k
    by (simp add: differ_def get_rules_none)
  have m: "c \<in> set (map ?f (filter P ?ks)) \<longleftrightarrow> ch_path c \<in> set ?ks \<and> P (ch_path c) \<and>
      ch_baseline c = dget a (ch_path c) DIFF_MISSING \<and> ch_other c = dget b (ch_path c) DIFF_MISSING" for c :: change and P
    by (cases c) auto
  have k: "set ?ks = set (dkeys a) \<union> set (dkeys b)" by simp
  show ?thesis
    unfolding get_differences_eq
    by (rule exI, intro conjI, rule refl, simp only: p, rule sorted_filter[of id, simplified], simp, simp only: p, simp,
        unfold m k d, blast?) (metis (no_types))
qed

section \<open>Equal runs\<close>

text \<open>A value as JSON has it: the keys of a dictionary are distinct.\<close>

fun wf_value :: "pv \<Rightarrow> bool" where
  "wf_value (PDict d) \<longleftrightarrow> distinct (map fst d) \<and> list_all (\<lambda>kv. wf_value (snd kv)) d"
| "wf_value (PList vs) \<longleftrightarrow> list_all wf_value vs"
| "wf_value v \<longleftrightarrow> True"

lemma py_eq_refl: "wf_value v \<Longrightarrow> py_eq v v"
proof (induction v rule: wf_value.induct)
  case (1 d)
  have "(case map_of d k of None \<Rightarrow> False | Some w \<Rightarrow> py_eq v w)" if "(k, v) \<in> set d" for k v
    using 1 that by (auto simp: list_all_iff)
  then show ?case by (auto simp: list_all_iff)
next
  case (2 vs)
  then show ?case by (auto simp: list_all_iff list_all2_conv_all_nth)
qed auto

lemma compare_values_refl: "wf_value v \<Longrightarrow> compare_values rf keys c v v path"
  by (cases c) (auto simp: py_eq_refl within_tolerance_def split: option.split)

lemma wf_value_dget: "wf_value (PDict d) \<Longrightarrow> wf_value x \<Longrightarrow> wf_value (dget d k x)"
  by (auto simp: dget_def list_all_iff dest: map_of_SomeD split: option.split)

lemma get_differences_same: "wf_value (PDict a) \<Longrightarrow> get_differences dc rules (PDict a) (PDict a) = Inr []"
  by (simp add: get_differences_eq filter_empty_conv differ_def compare_values_refl wf_value_dget DIFF_MISSING_def del: wf_value.simps(1))

text \<open>
  Runs with the same results compare as equal: whatever rules and tolerances hold, the
  comparison succeeds, no recipe of any of the runs has a change, and the summary counts none.
\<close>

theorem equal_runs_no_changes:
  assumes "\<forall>r \<in> set others. lr_recipes r = lr_recipes run"
    and "\<forall>(name, v) \<in> set (lr_recipes run). is_pdict v \<and> wf_value v"
  shows "\<exists>result. diff_all dc run others = Inr result \<and> set (dkeys result) = set (dkeys (lr_recipes run)) \<and>
    (\<forall>(name, runs) \<in> set result. map rc_run runs = map lr_run_name others \<and> (\<forall>r \<in> set runs. rc_changes r = [])) \<and>
    ds_changed_recipes (compute_summary result) = 0 \<and> ds_top_changed (compute_summary result) = []"
proof -
  let ?names = "remdups (concat (map (\<lambda>r. dkeys (lr_recipes r)) (run # others)))"
  have names: "set ?names = set (dkeys (lr_recipes run))" using assms(1) by auto
  have same: "get_differences dc rules (lr_recipe run name) (lr_recipe r name) = Inr []" if "r \<in> set others" for r name rules
  proof -
    obtain a where "lr_recipe run name = PDict a" "wf_value (PDict a)"
    proof (cases "map_of (lr_recipes run) name")
      case None
      then show ?thesis using that by (simp add: lr_recipe_def dget_def)
    next
      case (Some v)
      then have "is_pdict v" "wf_value v" using assms(2) map_of_SomeD by fastforce+
      then show ?thesis using Some that by (cases v) (auto simp: lr_recipe_def dget_def)
    qed
    moreover have "lr_recipe r name = lr_recipe run name" using assms(1) that by (simp add: lr_recipe_def)
    ultimately show ?thesis using get_differences_same by simp
  qed
  let ?runs = "map (\<lambda>r. \<lparr>rc_run = lr_run_name r, rc_changes = []\<rparr>) others"
  have rec: "diff_recipe dc run others name = Inr ?runs" for name
    unfolding diff_recipe_def by (rule map_res_Inr) (simp add: same)
  have "diff_all dc run others = Inr (map (\<lambda>name. (name, ?runs)) ?names)"
    unfolding diff_all_def by (rule map_res_Inr) (simp add: rec)
  moreover have "sum_list (map (\<lambda>r. length (rc_changes r)) ?runs) = 0" by (induction others) auto
  ultimately show ?thesis
    using names by (auto simp: compute_summary_def Let_def comp_def filter_empty_conv case_prod_beta image_image)
qed

definition demo_results :: pdict where
  "demo_results = [(''bandwidth'', PFloat (5 / 2)), (''nodes.0'', PInt 4)]"

definition demo_run :: "string \<Rightarrow> loaded_run" where
  "demo_run name = \<lparr>lr_run_name = name, lr_recipes = [(''peak-bandwidth'', PDict demo_results)]\<rparr>"

definition demo_diff :: diff_context where
  "demo_diff = \<lparr>dc_read_float = \<lambda>s. None, dc_ignore_keys = IGNORE_KEYS\<rparr>"

theorem equal_runs_no_changes_witness:
  "\<exists>result. diff_all demo_diff (demo_run ''old'') [demo_run ''new''] = Inr result \<and>
    ds_top_changed (compute_summary result) = []"
proof -
  have "\<forall>r \<in> set [demo_run ''new'']. lr_recipes r = lr_recipes (demo_run ''old'')" by (simp add: demo_run_def)
  moreover have "\<forall>(name, v) \<in> set (lr_recipes (demo_run ''old'')). is_pdict v \<and> wf_value v"
    by (simp add: demo_run_def demo_results_def)
  ultimately show ?thesis using equal_runs_no_changes[of "[demo_run ''new'']" "demo_run ''old''" demo_diff] by blast
qed

text \<open>A pattern with a star is searched for anywhere in the path: \<open>data.LATENCY.*\<close> also hides
  the paths below \<open>metadata.LATENCY\<close>.\<close>

lemma ignored_anywhere: "should_ignore IGNORE_KEYS ''metadata.LATENCY.0''" "\<not> prefix ''data.LATENCY.'' ''metadata.LATENCY.0''"
proof -
  have "infix_of (butlast ''data.LATENCY.*'') ''metadata.LATENCY.0''"
    by (simp add: infix_of_def) (intro exI[of _ 4], simp)
  moreover have "suffix ''*'' ''data.LATENCY.*''" by (simp add: suffix_def)
  ultimately show "should_ignore IGNORE_KEYS ''metadata.LATENCY.0''"
    by (simp add: should_ignore_def IGNORE_KEYS_def)
qed simp

lemma ignored_by_any_part: "should_ignore IGNORE_KEYS ''config.timestamp.value''"
  by (simp add: should_ignore_def IGNORE_KEYS_def)

text \<open>A rule for \<open>a.*\<close> also applies to the path \<open>ab\<close>.\<close>

lemma rule_beyond_dot:
  "ru_comparator (get_rule (new_rule_base [\<lparr>ru_path = ''a.*'', ru_comparator = IgnoreNode\<rparr>]) ''ab'') = IgnoreNode"
  by code_simp

section \<open>What is compared\<close>

text \<open>
  A comparison that the command line check accepts has something to compare: the first
  directory is the given reference, or the first one named, at least one other directory
  differs from it, with a reference none of them is the reference again, and a column to sort
  by is one of the others.  (A reference that is nothing but slashes is accepted too.)
\<close>

theorem valid_args_compare_runs:
  assumes "validate_args args" "da_baseline args = [] \<or> rstrip_slash (da_baseline args) \<noteq> []"
  shows "\<exists>first others. diff_run_list args = first # others \<and>
    first = rstrip_slash (if da_baseline args \<noteq> [] then da_baseline args else hd (da_run_dirs args)) \<and>
    (\<exists>r \<in> set others. r \<noteq> first) \<and> (da_baseline args = [] \<or> first \<notin> set others) \<and>
    set (first # others) = rstrip_slash ` (set (da_run_dirs args) \<union> (if da_baseline args = [] then {} else {da_baseline args})) \<and>
    (da_sort_by args = [] \<or> rstrip_slash (da_sort_by args) \<in> set others)"
proof -
  let ?dirs = "map rstrip_slash (da_run_dirs args)"
  let ?runs = "if da_baseline args \<noteq> [] then rstrip_slash (da_baseline args) # ?dirs else ?dirs"
  have two: "\<not> length (remdups ?runs) < 2" and sb: "da_sort_by args = [] \<or>
      rstrip_slash (da_sort_by args) \<noteq> hd ?runs \<and> rstrip_slash (da_sort_by args) \<in> set ?runs"
    using assms(1) by (auto simp: validate_args_def Let_def split: if_splits)
  then have card: "2 \<le> card (set ?runs)" by (metis length_remdups_card_conv not_less)
  obtain x xs where runs: "?runs = x # xs" using card by (cases ?runs) auto
  have other: "\<exists>r \<in> set xs. r \<noteq> x"
  proof (rule ccontr)
    assume "\<not> ?thesis"
    then have "set ?runs \<subseteq> {x}" unfolding runs by auto
    then have "card (set ?runs) \<le> card {x}" by (rule card_mono[rotated]) simp
    with card show False by simp
  qed
  have l: "diff_run_list args = x # (if da_baseline args = [] then xs else filter (\<lambda>y. y \<noteq> x) xs)"
    using runs assms(2) by (cases "rstrip_slash (da_baseline args)")
      (auto simp: diff_run_list_def Let_def split: if_splits)
  have x: "x = rstrip_slash (if da_baseline args \<noteq> [] then da_baseline args else hd (da_run_dirs args))"
    using runs by (cases "da_run_dirs args") (auto split: if_splits)
  have o: "\<exists>others. diff_run_list args = x # others \<and> (\<exists>r \<in> set others. r \<noteq> x) \<and> set (x # others) = set ?runs \<and>
      (da_baseline args = [] \<or> x \<notin> set others) \<and> (\<forall>y \<in> set ?runs. y = x \<or> y \<in> set others)"
    unfolding l runs using other by auto
  have r: "set ?runs = rstrip_slash ` (set (da_run_dirs args) \<union> (if da_baseline args = [] then {} else {da_baseline args}))"
    by auto
  have h: "hd ?runs = x" unfolding runs by simp
  from o sb[unfolded h] show ?thesis unfolding x[symmetric] r[symmetric] by blast
qed

theorem valid_args_compare_runs_witness:
  "\<exists>others. diff_run_list \<lparr>da_run_dirs = [''new/'', ''old''], da_baseline = ''old/'', da_sort_by = ''new''\<rparr> = ''old'' # others \<and>
    ''new'' \<in> set others \<and> ''old'' \<notin> set others"
proof -
  let ?args = "\<lparr>da_run_dirs = [''new/'', ''old''], da_baseline = ''old/'', da_sort_by = ''new''\<rparr>"
  have v: "validate_args ?args" by (simp add: validate_args_def rstrip_slash_def)
  have b: "rstrip_slash (da_baseline ?args) = ''old''" by (simp add: rstrip_slash_def)
  have "rstrip_slash ''new'' = ''new''" by (simp add: rstrip_slash_def)
  with valid_args_compare_runs[OF v] b show ?thesis by (auto simp: rstrip_slash_def)
qed

end
