(* ===== verification/Run_Benchmarks.thy ===== *)
theory Run_Benchmarks
  imports Recipe_Registry
begin

text \<open>
  Running benchmarks, from \<open>src/lib/run/run_helper.py\<close>: the two stages of the set-up with the
  benchmarks that have to be skipped, the execution and the tear-down.  What a benchmark does
  in its methods is a record of functions on the state of the program; every one may raise,
  and the state tells whether the user asked to stop.
\<close>

record 's bench_methods =
  bm_setup :: "string \<Rightarrow> 's \<Rightarrow> exc option \<times> 's"
  bm_allocate :: "string \<Rightarrow> 's \<Rightarrow> exc option \<times> 's"
  bm_run :: "string \<Rightarrow> 's \<Rightarrow> exc option \<times> 's"
  bm_teardown :: "string \<Rightarrow> 's \<Rightarrow> exc option \<times> 's"
  bm_write_result :: "string \<Rightarrow> 's \<Rightarrow> exc option \<times> 's"
  bm_stop_requested :: "'s \<Rightarrow> bool"

definition SETUP_ERRORS :: "exc_class list" where
  "SETUP_ERRORS = [RuntimeError, ValueError, TypeError, OSError, KeyError, MemoryError, AttributeError]"

definition RUN_ERRORS :: "exc_class list" where
  "RUN_ERRORS = [RuntimeError, ValueError, TypeError, OSError, KeyError, AttributeError]"

definition interrupted :: exc where
  "interrupted = Exc SystemExit ''130''"

section \<open>Set-up\<close>

record 's setup_state =
  su_skipped :: "(string, string) dict"
  su_dependents :: "string list"
  su_world :: 's

definition DEPENDENCY_SKIPPED :: string where
  "DEPENDENCY_SKIPPED = ''A dependency of this benchmark was skipped''"

text \<open>Every dependent found so far that is not skipped yet is skipped.\<close>

definition skip_dependents :: "'s setup_state \<Rightarrow> 's setup_state" where
  "skip_dependents st = st\<lparr>su_skipped := foldl (\<lambda>d dep. dset dep DEPENDENCY_SKIPPED d) (su_skipped st)
     (filter (\<lambda>dep. dep \<notin> set (dkeys (su_skipped st))) (su_dependents st))\<rparr>"

definition setup_one :: "recipe_metadata list \<Rightarrow> string list \<Rightarrow> 's bench_methods \<Rightarrow> (string \<Rightarrow> 's \<Rightarrow> exc option \<times> 's) \<Rightarrow>
    string \<Rightarrow> 's setup_state \<Rightarrow> exc option \<times> 's setup_state" where
  "setup_one table names m act name st =
     (if bm_stop_requested m (su_world st) then (Some interrupted, st)
      else if name \<in> set (dkeys (su_skipped st)) then (None, st)
      else case act name (su_world st) of
        (None, w) \<Rightarrow> (None, skip_dependents (st\<lparr>su_world := w\<rparr>))
      | (Some e, w) \<Rightarrow>
          (let st1 = st\<lparr>su_world := w\<rparr> in
           if \<not> caught SETUP_ERRORS e then (Some e, st1)
           else if bm_stop_requested m w then (Some interrupted, st1)
           else let st2 = st1\<lparr>su_skipped := dset name (exc_msg e) (su_skipped st1)\<rparr> in
             case get_dependents table name names of
               Inl e' \<Rightarrow> (Some e', st2)
             | Inr found \<Rightarrow> (None, skip_dependents (st2\<lparr>su_dependents := foldl (\<lambda>ds d. set_add d ds) (su_dependents st2) found\<rparr>))))"

fun setup_stage :: "recipe_metadata list \<Rightarrow> string list \<Rightarrow> 's bench_methods \<Rightarrow> (string \<Rightarrow> 's \<Rightarrow> exc option \<times> 's) \<Rightarrow>
    string list \<Rightarrow> 's setup_state \<Rightarrow> exc option \<times> 's setup_state" where
  "setup_stage table names m act [] st = (None, st)"
| "setup_stage table names m act (n # ns) st =
     (case setup_one table names m act n st of
        (Some e, st') \<Rightarrow> (Some e, st')
      | (None, st') \<Rightarrow> setup_stage table names m act ns st')"

text \<open>The list of the benchmarks that go on, in order, and the skipped ones with the reason.\<close>

definition setup_benchmarks :: "recipe_metadata list \<Rightarrow> (string \<Rightarrow> nat) \<Rightarrow> 's bench_methods \<Rightarrow> string list \<Rightarrow> 's \<Rightarrow>
    (string list \<times> (string, string) dict) res \<times> 's" where
  "setup_benchmarks table priority m benchmark_names s =
     (case get_recipes table priority benchmark_names of
        Inl e \<Rightarrow> (Inl e, s)
      | Inr bms \<Rightarrow>
          (case setup_stage table bms m (bm_setup m) bms \<lparr>su_skipped = [], su_dependents = [], su_world = s\<rparr> of
             (Some e, st) \<Rightarrow> (Inl e, su_world st)
           | (None, st) \<Rightarrow>
               (case setup_stage table bms m (bm_allocate m) bms st of
                  (Some e, st') \<Rightarrow> (Inl e, su_world st')
                | (None, st') \<Rightarrow>
                    (Inr (filter (\<lambda>n. n \<notin> set (dkeys (su_skipped st'))) bms, su_skipped st'), su_world st'))))"

section \<open>Tear-down and execution\<close>

fun teardown_benchmarks :: "'s bench_methods \<Rightarrow> string list \<Rightarrow> 's \<Rightarrow> exc option \<times> 's" where
  "teardown_benchmarks m [] s = (None, s)"
| "teardown_benchmarks m (n # ns) s =
     (case bm_teardown m n s of
        (None, s') \<Rightarrow> teardown_benchmarks m ns s'
      | (Some e, s') \<Rightarrow> if caught RUN_ERRORS e then teardown_benchmarks m ns s' else (Some e, s'))"

record 's run_state =
  rs_completed :: "string list"
  rs_failed :: "(string, string) dict"
  rs_world :: 's

text \<open>One turn of the loop; \<open>completed_benchmarks\<close> is a dictionary of which only the names matter here.\<close>

definition run_one :: "'s bench_methods \<Rightarrow> string \<Rightarrow> 's run_state \<Rightarrow> exc option \<times> 's run_state" where
  "run_one m name st =
     (if bm_stop_requested m (rs_world st) then (Some interrupted, st)
      else case bm_run m name (rs_world st) of
        (Some e, w) \<Rightarrow>
          (let st1 = st\<lparr>rs_world := w\<rparr> in
           if \<not> caught RUN_ERRORS e then (Some e, st1)
           else if bm_stop_requested m w then (Some interrupted, st1)
           else (None, st1\<lparr>rs_failed := dset name (exc_msg e) (rs_failed st1)\<rparr>))
      | (None, w) \<Rightarrow>
          (let st1 = st\<lparr>rs_world := w, rs_completed := set_add name (rs_completed st)\<rparr> in
           case bm_write_result m name w of
             (x, w') \<Rightarrow> (x, st1\<lparr>rs_world := w'\<rparr>)))"

fun run_loop :: "'s bench_methods \<Rightarrow> string list \<Rightarrow> 's run_state \<Rightarrow> exc option \<times> 's run_state" where
  "run_loop m [] st = (None, st)"
| "run_loop m (n # ns) st = (case run_one m n st of
     (Some e, st') \<Rightarrow> (Some e, st') | (None, st') \<Rightarrow> run_loop m ns st')"

text \<open>The tear-down runs in \<open>finally\<close>; an exception of its own replaces the one of the loop.\<close>

definition execute_benchmarks :: "'s bench_methods \<Rightarrow> string list \<Rightarrow> 's run_state \<Rightarrow> exc option \<times> 's run_state" where
  "execute_benchmarks m priority_list st =
     (if priority_list = [] then (None, st)
      else case run_loop m priority_list st of
        (x, st1) \<Rightarrow>
          (case teardown_benchmarks m priority_list (rs_world st1) of
             (y, w) \<Rightarrow> (case y of Some e \<Rightarrow> Some e | None \<Rightarrow> x, st1\<lparr>rs_world := w\<rparr>)))"

section \<open>Which benchmarks are skipped\<close>

text \<open>\<open>n\<close> names \<open>d\<close> among its dependencies.\<close>

definition directly_depends :: "recipe_metadata list \<Rightarrow> string \<Rightarrow> string \<Rightarrow> bool" where
  "directly_depends table n d \<longleftrightarrow> n \<noteq> d \<and> (case map_of (by_name table) n of None \<Rightarrow> False | Some r \<Rightarrow> d \<in> set (rm_depends_on r))"

lemma get_dependents_set:
  "get_dependents table d bms = Inr ds \<Longrightarrow> set ds = {n \<in> set bms. directly_depends table n d}"
proof -
  assume a: "get_dependents table d bms = Inr ds"
  let ?f = "\<lambda>bm. if bm = d then Inr (bm, False) else case map_of (by_name table) bm of
         None \<Rightarrow> Inl (Exc KeyError bm) | Some r \<Rightarrow> Inr (bm, d \<in> set (rm_depends_on r))"
  from a obtain bs where bs: "map_res ?f bms = Inr bs" "ds = map fst (filter snd bs)"
    by (auto simp: get_dependents_def bindr_Inr_iff)
  have "map_res ?f bms = Inr bs \<Longrightarrow> bs = map (\<lambda>bm. (bm, directly_depends table bm d)) bms"
  proof (induction bms arbitrary: bs)
    case (Cons b bms)
    then show ?case by (auto simp: bindr_Inr_iff directly_depends_def split: if_splits option.splits)
  qed simp
  with bs show ?thesis by (auto simp: comp_def filter_map)
qed

lemma set_keys_skip_dependents:
  "set (dkeys (su_skipped (skip_dependents st))) = set (dkeys (su_skipped st)) \<union> set (su_dependents st)"
proof -
  have "set (dkeys (foldl (\<lambda>d dep. dset dep x d) d ds)) = set (dkeys d) \<union> set ds" for d :: "(string, string) dict" and x ds
    by (induction ds arbitrary: d) auto
  then show ?thesis by (auto simp: skip_dependents_def)
qed

lemma skip_dependents_sel [simp]:
  "su_dependents (skip_dependents st) = su_dependents st" "su_world (skip_dependents st) = su_world st"
  by (simp_all add: skip_dependents_def)

lemma set_foldl_set_add: "set (foldl (\<lambda>ds d. set_add d ds) xs ys) = set xs \<union> set ys"
  by (induction ys arbitrary: xs) auto

text \<open>
  The invariant: \<open>F\<close> are the benchmarks that failed themselves; skipped are exactly these and
  their direct dependents.
\<close>

definition skip_inv :: "recipe_metadata list \<Rightarrow> string list \<Rightarrow> string set \<Rightarrow> 's setup_state \<Rightarrow> bool" where
  "skip_inv table names F st \<longleftrightarrow>
     F \<subseteq> set names \<and>
     set (su_dependents st) = {n \<in> set names. \<exists>d \<in> F. directly_depends table n d} \<and>
     set (dkeys (su_skipped st)) = F \<union> set (su_dependents st)"

definition fails :: "(string \<Rightarrow> 's \<Rightarrow> exc option \<times> 's) \<Rightarrow> string \<Rightarrow> bool" where
  "fails act n \<longleftrightarrow> (\<exists>w w' e. act n w = (Some e, w') \<and> caught SETUP_ERRORS e)"

definition succeeds :: "(string \<Rightarrow> 's \<Rightarrow> exc option \<times> 's) \<Rightarrow> string \<Rightarrow> bool" where
  "succeeds act n \<longleftrightarrow> (\<exists>w w'. act n w = (None, w'))"

lemma setup_one_inv:
  assumes "setup_one table names m act n st = (None, st')" "skip_inv table names F st" "n \<in> set names"
  obtains F' where "skip_inv table names F' st'" "F \<subseteq> F'" "F' \<subseteq> insert n F" "\<And>x. x \<in> F' - F \<Longrightarrow> fails act x"
    "n \<notin> set (dkeys (su_skipped st')) \<Longrightarrow> succeeds act n"
proof (cases "n \<in> set (dkeys (su_skipped st))")
  case True
  then have "st' = st" using assms(1) by (auto simp: setup_one_def split: if_splits)
  then show ?thesis using that[of F] assms(2) True by auto
next
  case False
  obtain x w where act: "act n (su_world st) = (x, w)" by fastforce
  show ?thesis
  proof (cases x)
    case None
    then have st': "st' = skip_dependents (st\<lparr>su_world := w\<rparr>)"
      using assms(1) act False by (auto simp: setup_one_def split: if_splits)
    have "skip_inv table names F st'"
      using assms(2) set_keys_skip_dependents[of "st\<lparr>su_world := w\<rparr>"] by (auto simp: skip_inv_def st')
    moreover have "succeeds act n" using act None by (auto simp: succeeds_def)
    ultimately show ?thesis using that[of F] by blast
  next
    case (Some e)
    have c: "caught SETUP_ERRORS e" using assms(1) act False Some
      by (auto simp: setup_one_def Let_def split: if_splits)
    then obtain ds where ds: "get_dependents table n names = Inr ds"
      and st': "st' = skip_dependents (st\<lparr>su_world := w, su_skipped := dset n (exc_msg e) (su_skipped st),
          su_dependents := foldl (\<lambda>ds d. set_add d ds) (su_dependents st) ds\<rparr>)"
      using assms(1) act False Some by (auto simp: setup_one_def Let_def split: if_splits sum.splits)
    have dep: "set (su_dependents st') = {k \<in> set names. \<exists>d \<in> insert n F. directly_depends table k d}"
      using assms(2) get_dependents_set[OF ds] by (auto simp: st' set_foldl_set_add skip_inv_def)
    have "set (dkeys (su_skipped st')) = insert n F \<union> set (su_dependents st')"
      using assms(2) by (auto simp: st' set_keys_skip_dependents skip_inv_def set_foldl_set_add simp del: set_map)
        (auto simp: set_foldl_set_add)
    then have "skip_inv table names (insert n F) st'" using dep assms(2,3) by (auto simp: skip_inv_def)
    moreover have "fails act n" using act Some c by (auto simp: fails_def)
    moreover have "n \<in> set (dkeys (su_skipped st'))" using calculation(1) by (auto simp: skip_inv_def)
    ultimately show ?thesis using that[of "insert n F"] by auto
  qed
qed

lemma setup_stage_inv:
  assumes "setup_stage table names m act ns st = (None, st')" "skip_inv table names F st" "set ns \<subseteq> set names"
  shows "\<exists>F'. skip_inv table names F' st' \<and> F \<subseteq> F' \<and> (\<forall>x \<in> F' - F. fails act x) \<and>
    (\<forall>n \<in> set ns. n \<notin> set (dkeys (su_skipped st')) \<longrightarrow> succeeds act n)"
  using assms
proof (induction ns arbitrary: st F)
  case (Cons n ns)
  from Cons.prems(1) obtain st1 where one: "setup_one table names m act n st = (None, st1)"
    and rest: "setup_stage table names m act ns st1 = (None, st')"
    by (auto split: prod.splits option.splits)
  have "n \<in> set names" using Cons.prems(3) by simp
  from setup_one_inv[OF one Cons.prems(2) this] obtain F1 where F1: "skip_inv table names F1 st1" "F \<subseteq> F1"
    "\<And>x. x \<in> F1 - F \<Longrightarrow> fails act x" "n \<notin> set (dkeys (su_skipped st1)) \<Longrightarrow> succeeds act n"
    by metis
  obtain F2 where F2: "skip_inv table names F2 st'" "F1 \<subseteq> F2" "\<forall>x \<in> F2 - F1. fails act x"
    "\<forall>n \<in> set ns. n \<notin> set (dkeys (su_skipped st')) \<longrightarrow> succeeds act n"
    using Cons.IH[OF rest F1(1)] Cons.prems(3) by auto
  have sub: "set (dkeys (su_skipped st1)) \<subseteq> set (dkeys (su_skipped st'))"
    using F1(1) F2(1,2) unfolding skip_inv_def by blast
  have "\<forall>x \<in> set (n # ns). x \<notin> set (dkeys (su_skipped st')) \<longrightarrow> succeeds act x"
    using F1(4) F2(4) sub unfolding list.set by blast
  moreover have "\<forall>x \<in> F2 - F. fails act x" using F1(3) F2(3) by blast
  moreover have "F \<subseteq> F2" using F1(2) F2(2) by blast
  ultimately show ?case using F2(1) by blast
qed auto

text \<open>Three benchmarks: the first fails in its set-up, the second needs it; runs are counted.\<close>

definition demo_run_table :: "recipe_metadata list" where
  "demo_run_table = [recipe ''a'' ''a1'' ''A'' ''first'' [] [] None [] True,
     recipe ''b'' ''b1'' ''B'' ''second'' [] [] None [''a''] True, recipe ''c'' ''c1'' ''C'' ''third'' [] [] None [] True]"

definition demo_methods :: "nat bench_methods" where
  "demo_methods = \<lparr>bm_setup = \<lambda>n s. (if n = ''a'' then Some (Exc OSError ''no'') else None, s + 1),
     bm_allocate = \<lambda>n s. (None, s + 1), bm_run = \<lambda>n s. (if n = ''b'' then Some (Exc ValueError ''bad'') else None, s + 10),
     bm_teardown = \<lambda>n s. (Some (Exc OSError ''gone''), s + 100), bm_write_result = \<lambda>n s. (None, s + 1000),
     bm_stop_requested = \<lambda>s. False\<rparr>"

definition demo_start :: "nat run_state" where
  "demo_start = \<lparr>rs_completed = [], rs_failed = [], rs_world = 0\<rparr>"

lemma demo_setup:
  "setup_benchmarks demo_run_table (\<lambda>n. 0) demo_methods [''a'', ''b'', ''c''] 0 =
     (Inr ([''c''], [(''a'', ''no''), (''b'', DEPENDENCY_SKIPPED)]), 3)"
  by code_simp

text \<open>
  C15.  The set-up splits the benchmarks into those that run and those that are skipped:
  skipped are exactly the ones whose own set-up or allocation failed and their direct
  dependents, and every benchmark that runs has been set up and allocated.
\<close>

theorem setup_benchmarks_partition:
  assumes "setup_benchmarks table priority m names s = (Inr (runnable, skipped), s')"
  shows "\<exists>bms F. get_recipes table priority names = Inr bms \<and>
    runnable = filter (\<lambda>n. n \<notin> set (dkeys skipped)) bms \<and>
    set (dkeys skipped) = F \<union> {n \<in> set bms. \<exists>d \<in> F. directly_depends table n d} \<and>
    (\<forall>n \<in> F. n \<in> set bms \<and> (fails (bm_setup m) n \<or> fails (bm_allocate m) n)) \<and>
    (\<forall>n \<in> set runnable. succeeds (bm_setup m) n \<and> succeeds (bm_allocate m) n)"
proof -
  obtain bms where bms: "get_recipes table priority names = Inr bms"
    using assms by (auto simp: setup_benchmarks_def split: sum.splits)
  define st0 where "st0 = \<lparr>su_skipped = [], su_dependents = [], su_world = s\<rparr>"
  obtain x st1 where st1: "setup_stage table bms m (bm_setup m) bms st0 = (x, st1)" by (metis surj_pair)
  obtain y st2 where st2: "setup_stage table bms m (bm_allocate m) bms st1 = (y, st2)" by (metis surj_pair)
  have x: "x = None" using assms st1 by (cases x) (simp_all add: setup_benchmarks_def bms st0_def)
  have y: "y = None" using assms st1 st2 x by (cases y) (simp_all add: setup_benchmarks_def bms st0_def)
  have res: "runnable = filter (\<lambda>n. n \<notin> set (dkeys (su_skipped st2))) bms" "skipped = su_skipped st2"
    using assms st1 st2 x y by (auto simp: setup_benchmarks_def bms st0_def)
  note st = st1[unfolded x] st2[unfolded y]
  have "skip_inv table bms {} st0" by (simp add: skip_inv_def st0_def)
  from setup_stage_inv[OF st(1) this] obtain F1 where F1: "skip_inv table bms F1 st1" "\<forall>x \<in> F1. fails (bm_setup m) x"
    "\<forall>n \<in> set bms. n \<notin> set (dkeys (su_skipped st1)) \<longrightarrow> succeeds (bm_setup m) n" by auto
  from setup_stage_inv[OF st(2) F1(1)] obtain F2 where F2: "skip_inv table bms F2 st2" "F1 \<subseteq> F2"
    "\<forall>x \<in> F2 - F1. fails (bm_allocate m) x"
    "\<forall>n \<in> set bms. n \<notin> set (dkeys (su_skipped st2)) \<longrightarrow> succeeds (bm_allocate m) n" by auto
  have sub: "set (dkeys (su_skipped st1)) \<subseteq> set (dkeys (su_skipped st2))"
    using F1(1) F2(1,2) unfolding skip_inv_def by blast
  have "set (dkeys skipped) = F2 \<union> {n \<in> set bms. \<exists>d \<in> F2. directly_depends table n d}"
    using F2(1) res(2) unfolding skip_inv_def by simp
  moreover have "\<forall>n \<in> F2. n \<in> set bms \<and> (fails (bm_setup m) n \<or> fails (bm_allocate m) n)"
    using F1(2) F2(1,3) unfolding skip_inv_def by blast
  moreover have "\<forall>n \<in> set runnable. succeeds (bm_setup m) n \<and> succeeds (bm_allocate m) n"
    using F1(3) F2(4) sub res(1) by auto
  ultimately show ?thesis using bms res by blast
qed

theorem setup_benchmarks_partition_witness:
  "\<exists>bms F. get_recipes demo_run_table (\<lambda>n. 0) [''a'', ''b'', ''c''] = Inr bms \<and>
     {''a'', ''b''} = F \<union> {n \<in> set bms. \<exists>d \<in> F. directly_depends demo_run_table n d}"
  using setup_benchmarks_partition[OF demo_setup] by auto

section \<open>Execution\<close>

definition teardown_all :: "'s bench_methods \<Rightarrow> string list \<Rightarrow> 's \<Rightarrow> 's" where
  "teardown_all m ns s = foldl (\<lambda>s n. snd (bm_teardown m n s)) s ns"

definition orderly_teardown :: "'s bench_methods \<Rightarrow> string list \<Rightarrow> bool" where
  "orderly_teardown m ns \<longleftrightarrow> (\<forall>n \<in> set ns. \<forall>s. case fst (bm_teardown m n s) of None \<Rightarrow> True | Some e \<Rightarrow> caught RUN_ERRORS e)"

lemma teardown_benchmarks_all:
  "orderly_teardown m ns \<Longrightarrow> teardown_benchmarks m ns s = (None, teardown_all m ns s)"
proof (induction ns arbitrary: s)
  case (Cons n ns)
  have "case fst (bm_teardown m n s) of None \<Rightarrow> True | Some e \<Rightarrow> caught RUN_ERRORS e"
    using Cons.prems unfolding orderly_teardown_def by simp
  moreover have "orderly_teardown m ns" using Cons.prems by (simp add: orderly_teardown_def)
  ultimately show ?case using Cons.IH
    by (cases "bm_teardown m n s"; cases "fst (bm_teardown m n s)") (auto simp: teardown_all_def)
qed (simp add: teardown_all_def)

text \<open>
  C16.  Whatever happens in the loop, an interrupt or an unexpected exception included, the
  tear-down of every benchmark that was set up runs exactly once and in order, and the
  exception of the loop is passed on.
\<close>

theorem execute_always_tears_down:
  assumes "orderly_teardown m ns" "ns \<noteq> []"
  shows "execute_benchmarks m ns st =
    (fst (run_loop m ns st), (snd (run_loop m ns st))\<lparr>rs_world := teardown_all m ns (rs_world (snd (run_loop m ns st)))\<rparr>)"
  using assms by (simp add: execute_benchmarks_def teardown_benchmarks_all case_prod_beta)

theorem execute_always_tears_down_witness:
  "rs_world (snd (execute_benchmarks demo_methods [''b'', ''c''] demo_start)) = 1220"
proof -
  have "orderly_teardown demo_methods [''b'', ''c'']"
    by (simp add: orderly_teardown_def demo_methods_def caught_def RUN_ERRORS_def)
  from execute_always_tears_down[OF this, of demo_start]
  have "rs_world (snd (execute_benchmarks demo_methods [''b'', ''c''] demo_start)) =
      teardown_all demo_methods [''b'', ''c''] (rs_world (snd (run_loop demo_methods [''b'', ''c''] demo_start)))" by simp
  also have "\<dots> = 1220" by code_simp
  finally show ?thesis .
qed

lemma run_one_outcome:
  assumes "run_one m n st = (None, st')"
  shows "(rs_completed st' = set_add n (rs_completed st) \<and> rs_failed st' = rs_failed st \<and> succeeds (bm_run m) n \<and>
      succeeds (bm_write_result m) n) \<or>
    (rs_completed st' = rs_completed st \<and> (\<exists>msg. rs_failed st' = dset n msg (rs_failed st)) \<and> \<not> bm_stop_requested m (rs_world st'))"
proof -
  obtain x w where r: "bm_run m n (rs_world st) = (x, w)" by fastforce
  show ?thesis
  proof (cases x)
    case None
    then obtain w' where "bm_write_result m n w = (None, w')"
      using assms r by (auto simp: run_one_def Let_def split: if_splits prod.splits)
    then show ?thesis using assms r None by (auto simp: run_one_def Let_def succeeds_def split: if_splits)
  next
    case (Some e)
    then show ?thesis using assms r by (auto simp: run_one_def Let_def split: if_splits)
  qed
qed

lemma run_loop_outcome:
  assumes "distinct ns" "run_loop m ns st = (None, st')"
  shows "\<exists>C \<subseteq> set ns. set (rs_completed st') = set (rs_completed st) \<union> C \<and>
    set (dkeys (rs_failed st')) = set (dkeys (rs_failed st)) \<union> (set ns - C) \<and>
    (\<forall>n \<in> C. succeeds (bm_run m) n \<and> succeeds (bm_write_result m) n)"
  using assms
proof (induction ns arbitrary: st)
  case (Cons n ns)
  from Cons.prems(2) obtain st1 where one: "run_one m n st = (None, st1)" and rest: "run_loop m ns st1 = (None, st')"
    by (auto split: prod.splits option.splits)
  obtain C where C: "C \<subseteq> set ns" "set (rs_completed st') = set (rs_completed st1) \<union> C"
    "set (dkeys (rs_failed st')) = set (dkeys (rs_failed st1)) \<union> (set ns - C)"
    "\<forall>n \<in> C. succeeds (bm_run m) n \<and> succeeds (bm_write_result m) n"
    using Cons.IH[OF _ rest] Cons.prems(1) by auto
  from run_one_outcome[OF one] show ?case
  proof
    assume "rs_completed st1 = set_add n (rs_completed st) \<and> rs_failed st1 = rs_failed st \<and> succeeds (bm_run m) n \<and>
      succeeds (bm_write_result m) n"
    then show ?thesis using C Cons.prems(1) by (intro exI[of _ "insert n C"]) auto
  next
    assume a: "rs_completed st1 = rs_completed st \<and> (\<exists>msg. rs_failed st1 = dset n msg (rs_failed st)) \<and>
      \<not> bm_stop_requested m (rs_world st1)"
    then have "set (dkeys (rs_failed st1)) = insert n (set (dkeys (rs_failed st)))"
      unfolding set_map using set_keys_dset by metis
    moreover have "n \<notin> C" using C(1) Cons.prems(1) by auto
    ultimately show ?thesis using C a by (intro exI[of _ C]) (simp del: set_map, blast)
  qed
qed auto

text \<open>
  When the loop ends normally, every benchmark has either completed, with its method run
  and its result written, or is listed as failed, and none is both; benchmarks completed
  before the loop stay so.
\<close>

theorem execute_gives_every_outcome:
  assumes "distinct ns" "set ns \<inter> (set (rs_completed st) \<union> set (dkeys (rs_failed st))) = {}"
    and "run_loop m ns st = (None, st')"
  shows "(\<forall>n \<in> set ns. (n \<in> set (rs_completed st')) \<noteq> (n \<in> set (dkeys (rs_failed st')))) \<and>
    set (rs_completed st') \<union> set (dkeys (rs_failed st')) =
      set ns \<union> set (rs_completed st) \<union> set (dkeys (rs_failed st)) \<and>
    (\<forall>n \<in> set ns \<inter> set (rs_completed st'). succeeds (bm_run m) n \<and> succeeds (bm_write_result m) n) \<and>
    set (rs_completed st) \<subseteq> set (rs_completed st')"
proof -
  obtain C where C: "C \<subseteq> set ns" "set (rs_completed st') = set (rs_completed st) \<union> C"
    "set (dkeys (rs_failed st')) = set (dkeys (rs_failed st)) \<union> (set ns - C)"
    "\<forall>n \<in> C. succeeds (bm_run m) n \<and> succeeds (bm_write_result m) n"
    using run_loop_outcome[OF assms(1,3)] by blast
  show ?thesis unfolding C(2,3) using C(1,4) assms(2) by (intro conjI) blast+
qed

lemma demo_loop:
  "run_loop demo_methods [''b'', ''c''] demo_start =
     (None, \<lparr>rs_completed = [''c''], rs_failed = [(''b'', ''bad'')], rs_world = 1020\<rparr>)"
  by code_simp

theorem execute_gives_every_outcome_witness:
  "set (rs_completed (snd (run_loop demo_methods [''b'', ''c''] demo_start))) \<union>
     set (dkeys (rs_failed (snd (run_loop demo_methods [''b'', ''c''] demo_start)))) = {''b'', ''c''}"
  unfolding demo_loop using execute_gives_every_outcome[OF _ _ demo_loop] by (auto simp: demo_start_def)

section \<open>What every method leaves alone, a run leaves alone\<close>

text \<open>What every method of the benchmarks respects, the stages respect.\<close>

definition keeps_to :: "('s \<Rightarrow> 's \<Rightarrow> bool) \<Rightarrow> (string \<Rightarrow> 's \<Rightarrow> exc option \<times> 's) \<Rightarrow> bool" where
  "keeps_to R act \<longleftrightarrow> (\<forall>n s. R s (snd (act n s)))"

lemma setup_one_respects:
  assumes "keeps_to R act" "reflp R" "setup_one table names m act n st = (x, st')"
  shows "R (su_world st) (su_world st')"
proof -
  obtain y w where a: "act n (su_world st) = (y, w)" by fastforce
  have "su_world st' \<in> {su_world st, w}"
    using assms(3) a by (auto simp: setup_one_def Let_def split: if_splits option.splits sum.splits)
  moreover have "R (su_world st) w" using assms(1) a by (metis keeps_to_def snd_conv)
  ultimately show ?thesis using assms(2) by (auto dest: reflpD)
qed

lemma setup_stage_respects:
  assumes "keeps_to R act" "reflp R" "transp R"
  shows "setup_stage table names m act ns st = (x, st') \<Longrightarrow> R (su_world st) (su_world st')"
proof (induction ns arbitrary: st)
  case (Cons n ns)
  obtain y st1 where one: "setup_one table names m act n st = (y, st1)" by fastforce
  note r = setup_one_respects[OF assms(1,2) one]
  show ?case
  proof (cases y)
    case None
    then have "R (su_world st1) (su_world st')" using Cons one by simp
    with r show ?thesis using assms(3) by (auto dest: transpD)
  qed (use Cons.prems one r in simp)
qed (use assms(2) in \<open>auto dest: reflpD\<close>)

lemma setup_benchmarks_respects:
  assumes "keeps_to R (bm_setup m)" "keeps_to R (bm_allocate m)" "reflp R" "transp R"
    "setup_benchmarks table priority m names s = (x, s')"
  shows "R s s'"
proof (cases "get_recipes table priority names")
  case (Inl e)
  then show ?thesis using assms(3,5) by (auto simp: setup_benchmarks_def dest: reflpD)
next
  case (Inr bms)
  define st0 where "st0 = \<lparr>su_skipped = [], su_dependents = [], su_world = s\<rparr>"
  obtain y st1 where st1: "setup_stage table bms m (bm_setup m) bms st0 = (y, st1)" by fastforce
  obtain z st2 where st2: "setup_stage table bms m (bm_allocate m) bms st1 = (z, st2)" by fastforce
  have "R s (su_world st1)" "R (su_world st1) (su_world st2)"
    using setup_stage_respects[OF assms(1,3,4) st1] setup_stage_respects[OF assms(2-4) st2] by (simp_all add: st0_def)
  moreover have "s' \<in> {su_world st1, su_world st2}"
    using assms(5) Inr st1 st2 unfolding setup_benchmarks_def st0_def[symmetric] by (auto split: option.splits)
  ultimately show ?thesis using assms(4) by (auto dest: transpD)
qed

lemma run_one_respects:
  assumes "keeps_to R (bm_run m)" "keeps_to R (bm_write_result m)" "reflp R" "transp R" "run_one m n st = (x, st')"
  shows "R (rs_world st) (rs_world st')"
proof -
  obtain y w where r: "bm_run m n (rs_world st) = (y, w)" by fastforce
  obtain z w' where wr: "bm_write_result m n w = (z, w')" by fastforce
  have "rs_world st' \<in> {rs_world st, w, w'}"
    using assms(5) r wr by (auto simp: run_one_def Let_def split: if_splits option.splits)
  moreover have "R (rs_world st) w" "R w w'" using assms(1,2) r wr by (metis keeps_to_def snd_conv)+
  ultimately show ?thesis using assms(3,4) by (auto dest: reflpD transpD)
qed

lemma run_loop_respects:
  assumes "keeps_to R (bm_run m)" "keeps_to R (bm_write_result m)" "reflp R" "transp R"
  shows "run_loop m ns st = (x, st') \<Longrightarrow> R (rs_world st) (rs_world st')"
proof (induction ns arbitrary: st)
  case (Cons n ns)
  obtain y st1 where one: "run_one m n st = (y, st1)" by fastforce
  note r = run_one_respects[OF assms one]
  show ?case
  proof (cases y)
    case None
    then have "R (rs_world st1) (rs_world st')" using Cons one by simp
    with r show ?thesis using assms(4) by (auto dest: transpD)
  qed (use Cons.prems one r in simp)
qed (use assms(3) in \<open>auto dest: reflpD\<close>)

lemma teardown_respects:
  assumes "keeps_to R (bm_teardown m)" "reflp R" "transp R"
  shows "teardown_benchmarks m ns s = (x, s') \<Longrightarrow> R s s'"
proof (induction ns arbitrary: s)
  case (Cons n ns)
  obtain y s1 where t: "bm_teardown m n s = (y, s1)" by fastforce
  have r: "R s s1" using assms(1) t by (metis keeps_to_def snd_conv)
  have "s' = s1 \<or> teardown_benchmarks m ns s1 = (x, s')" using Cons.prems t by (auto split: option.splits if_splits)
  then show ?case using Cons.IH r assms(3) by (auto dest: transpD)
qed (use assms(2) in \<open>auto dest: reflpD\<close>)

lemma execute_respects:
  assumes "keeps_to R (bm_run m)" "keeps_to R (bm_write_result m)" "keeps_to R (bm_teardown m)" "reflp R" "transp R"
    "execute_benchmarks m ns st = (x, st')"
  shows "R (rs_world st) (rs_world st')"
proof (cases "ns = []")
  case False
  obtain y st1 where l: "run_loop m ns st = (y, st1)" by fastforce
  obtain z w where t: "teardown_benchmarks m ns (rs_world st1) = (z, w)" by fastforce
  have "rs_world st' = w" using assms(6) False l t by (auto simp: execute_benchmarks_def)
  then show ?thesis
    using run_loop_respects[OF assms(1,2,4,5) l] teardown_respects[OF assms(3-5) t] assms(5) by (auto dest: transpD)
qed (use assms(4,6) in \<open>auto simp: execute_benchmarks_def dest: reflpD\<close>)

end
