(* ===== verification/Resume.thy ===== *)
theory Resume
  imports Saved_Results User_Config Run_Benchmarks
begin

text \<open>
  The manifest of a run and resuming it: the header that
  \<open>src/core/cmd/helpers/run_helpers.py\<close> writes to \<open>asct.json\<close>, and
  \<open>src/core/cmd/resume.py\<close>, which reads it back, checks the version, the user and the
  hardware, and decides which benchmarks still have to run.  The class \<open>Version\<close> of the
  package \<open>packaging\<close> is a parameter, as are the run's identity and time.
\<close>

record 'v version_api =
  vp_parse :: "string \<Rightarrow> 'v option"
  vp_base_version :: "'v \<Rightarrow> string"
  vp_less :: "'v \<Rightarrow> 'v \<Rightarrow> bool"

section \<open>The header\<close>

record run_identity =
  ri_run_id :: string
  ri_timestamp :: rat
  ri_version :: string
  ri_is_sudo :: bool

definition make_run_metadata :: "(pv \<Rightarrow> string) \<Rightarrow> run_identity \<Rightarrow> pdict \<Rightarrow> pdict \<Rightarrow> string list option \<Rightarrow> pdict" where
  "make_run_metadata repr ident args user_config requested_benchmarks =
     (let cmd_arguments = flatten_dict True CHR ''.'' [] (dict_of (map (\<lambda>(k, v). (k, PStr (py_str repr v))) args));
          cmd_arguments' = (case requested_benchmarks of
              None \<Rightarrow> cmd_arguments
            | Some bs \<Rightarrow> dset ''benchmarks'' (PList (map PStr bs)) cmd_arguments)
      in [(''run_id'', PStr (ri_run_id ident)), (''timestamp'', PFloat (ri_timestamp ident)),
          (''version'', PStr (ri_version ident)), (''is_sudo'', PBool (ri_is_sudo ident)),
          (''cmd_arguments'', PDict cmd_arguments')] @
         (if user_config = [] then [] else [(''user_config'', PDict user_config)]))"

definition manifest_path :: "path \<Rightarrow> path" where
  "manifest_path output_dir = output_dir @ [''asct.json'']"

definition write_asct_json_header :: "platform \<Rightarrow> (pv \<Rightarrow> string) \<Rightarrow> run_identity \<Rightarrow> path \<Rightarrow> pdict \<Rightarrow> string list \<Rightarrow>
    pdict \<Rightarrow> files \<Rightarrow> exc option \<times> files" where
  "write_asct_json_header pl repr ident output_dir args requested_benchmarks user_config d =
     write_to_file pl d (manifest_path output_dir)
       (dumps pl (PDict [(''metadata'', PDict (make_run_metadata repr ident args user_config (Some requested_benchmarks)))]))"

section \<open>Parsing the manifest\<close>

definition MIN_RESUME_VERSION :: string where
  "MIN_RESUME_VERSION = ''0.6.0''"

fun parse_manifest_bool :: "string \<Rightarrow> string \<Rightarrow> bool res" where
  "parse_manifest_bool name v =
     (if v = ''True'' then Inr True else if v = ''False'' then Inr False
      else Inl (Exc ValueError (''metadata.cmd_arguments.'' @ name @ '' must be True or False'')))"

fun as_strings :: "pv list \<Rightarrow> string list option" where
  "as_strings [] = Some []"
| "as_strings (PStr s # vs) = map_option (Cons s) (as_strings vs)"
| "as_strings (v # vs) = None"

definition parse_manifest_benchmarks :: "pv \<Rightarrow> pv res" where
  "parse_manifest_benchmarks v = (case v of
     PList vs \<Rightarrow> (if as_strings vs = None
       then Inl (Exc TypeError ''metadata.cmd_arguments.benchmarks must be a list of strings'') else Inr v)
   | _ \<Rightarrow> Inl (Exc TypeError ''metadata.cmd_arguments.benchmarks must be a list''))"

datatype arg_parser = ParseStr | ParseNone | ParseLower | ParseBool

definition MANIFEST_CMD_ARGUMENT_PARSERS :: "(string \<times> arg_parser) list" where
  "MANIFEST_CMD_ARGUMENT_PARSERS = [
     (''log_level'', ParseStr), (''log_level_console'', ParseStr), (''log_level_file'', ParseStr),
     (''log_file'', ParseNone), (''format'', ParseLower), (''quiet'', ParseBool), (''no_cache'', ParseBool),
     (''clear_cache'', ParseBool), (''verbose'', ParseBool), (''no_progress_bar'', ParseBool),
     (''dev_mode'', ParseBool), (''quick_mode'', ParseBool)]"

fun run_arg_parser :: "arg_parser \<Rightarrow> string \<Rightarrow> string \<Rightarrow> pv res" where
  "run_arg_parser ParseStr name s = Inr (PStr s)"
| "run_arg_parser ParseNone name s = Inr (if s = ''None'' then PNone else PStr s)"
| "run_arg_parser ParseLower name s = Inr (PStr (lower s))"
| "run_arg_parser ParseBool name s = map_sum id PBool (parse_manifest_bool name s)"

fun parse_args_loop :: "pdict \<Rightarrow> (string \<times> arg_parser) list \<Rightarrow> pdict \<Rightarrow> pdict res" where
  "parse_args_loop cmd_arguments [] parsed = Inr parsed"
| "parse_args_loop cmd_arguments ((name, p) # ps) parsed =
     (case pget cmd_arguments name of
        PNone \<Rightarrow> parse_args_loop cmd_arguments ps parsed
      | PStr s \<Rightarrow> (case run_arg_parser p name s of
            Inl e \<Rightarrow> if caught [ValueError] e
              then Inl (Exc RuntimeError (''invalid metadata.cmd_arguments.'' @ name @ '' value '' @ s)) else Inl e
          | Inr v \<Rightarrow> parse_args_loop cmd_arguments ps (dset name v parsed))
      | _ \<Rightarrow> Inl (Exc TypeError (''metadata.cmd_arguments.'' @ name @ '' must be a string'')))"

definition parse_manifest_cmd_arguments :: "pv \<Rightarrow> pdict res" where
  "parse_manifest_cmd_arguments cmd_arguments = (case cmd_arguments of
     PDict d \<Rightarrow>
       (case pget d ''benchmarks'' of
          PNone \<Rightarrow> parse_args_loop d MANIFEST_CMD_ARGUMENT_PARSERS []
        | b \<Rightarrow> bindr (parse_manifest_benchmarks b) (\<lambda>bs.
            parse_args_loop d MANIFEST_CMD_ARGUMENT_PARSERS [(''benchmarks'', bs)]))
   | _ \<Rightarrow> Inl (Exc TypeError ''metadata.cmd_arguments must be an object''))"

definition read_manifest :: "platform \<Rightarrow> files \<Rightarrow> path \<Rightarrow> pdict res" where
  "read_manifest pl d output_dir = (case read_json_file pl d (manifest_path output_dir) of
     PNone \<Rightarrow> Inl (Exc RuntimeError ''missing or unreadable asct.json'')
   | PDict m \<Rightarrow> Inr m
   | _ \<Rightarrow> Inl (Exc TypeError ''asct.json must contain a JSON object''))"

definition get_manifest_version :: "pdict \<Rightarrow> pdict \<Rightarrow> pv res" where
  "get_manifest_version manifest metadata =
     (if pget metadata ''version'' \<noteq> PNone then Inr (pget metadata ''version'')
      else case pget manifest ''diff'' of
        PDict df \<Rightarrow>
          (if pget df ''metadata.version'' \<noteq> PNone then Inr (pget df ''metadata.version'')
           else case pget df ''metadata'' of
             PDict dm \<Rightarrow> if pget dm ''version'' \<noteq> PNone then Inr (pget dm ''version'')
                        else Inl (Exc TypeError ''metadata.version is missing'')
           | _ \<Rightarrow> Inl (Exc TypeError ''metadata.version is missing''))
      | _ \<Rightarrow> Inl (Exc TypeError ''metadata.version is missing''))"

record manifest_data =
  md_manifest :: pdict
  md_metadata :: pdict
  md_cmd_arguments :: pdict
  md_user_config :: pdict

definition read_manifest_data :: "platform \<Rightarrow> files \<Rightarrow> path \<Rightarrow> manifest_data res" where
  "read_manifest_data pl d output_dir =
     bindr (read_manifest pl d output_dir) (\<lambda>manifest.
       case dget manifest ''metadata'' (PDict []) of
         PDict metadata \<Rightarrow>
           (case dget metadata ''user_config'' (PDict []) of
              PDict user_config \<Rightarrow>
                bindr (parse_manifest_cmd_arguments (dget metadata ''cmd_arguments'' (PDict []))) (\<lambda>args.
                  Inr \<lparr>md_manifest = manifest, md_metadata = metadata, md_cmd_arguments = args, md_user_config = user_config\<rparr>)
            | _ \<Rightarrow> Inl (Exc TypeError ''metadata.user_config must be an object''))
       | _ \<Rightarrow> Inl (Exc TypeError ''metadata must be an object''))"

text \<open>The release part of the version decides; a version that is not a text is a \<open>TypeError\<close>.\<close>

definition check_manifest_version :: "'v version_api \<Rightarrow> pv \<Rightarrow> unit res" where
  "check_manifest_version vp version_str = (case version_str of
     PStr s \<Rightarrow>
       (case Option.bind (vp_parse vp s) (\<lambda>v. vp_parse vp (vp_base_version vp v)) of
          None \<Rightarrow> Inl (Exc RuntimeError (''unable to parse ASCT version '' @ s))
        | Some v \<Rightarrow> (case vp_parse vp MIN_RESUME_VERSION of
            None \<Rightarrow> Inl (Exc InvalidVersion MIN_RESUME_VERSION)
          | Some least \<Rightarrow> if vp_less vp v least
              then Inl (Exc RuntimeError (''ASCT version '' @ s @ '' is not supported for resume'')) else Inr ()))
   | _ \<Rightarrow> Inl (Exc TypeError ''expected string or bytes-like object''))"

definition read_run_manifest :: "platform \<Rightarrow> 'v version_api \<Rightarrow> files \<Rightarrow> path \<Rightarrow>
    (string list \<times> pdict \<times> pdict \<times> bool) res" where
  "read_run_manifest pl vp d output_dir =
     bindr (read_manifest_data pl d output_dir) (\<lambda>md.
     bindr (get_manifest_version (md_manifest md) (md_metadata md)) (\<lambda>version_str.
     bindr (check_manifest_version vp version_str) (\<lambda>_.
       case map_of (md_metadata md) ''is_sudo'' of
         None \<Rightarrow> Inl (Exc TypeError ''metadata.is_sudo is missing'')
       | Some (PBool manifest_is_sudo) \<Rightarrow>
           (case pget (md_cmd_arguments md) ''benchmarks'' of
              PList vs \<Rightarrow> (case as_strings vs of
                  Some (b # bs) \<Rightarrow> Inr (b # bs, md_user_config md, md_cmd_arguments md, manifest_is_sudo)
                | _ \<Rightarrow> Inl (Exc RuntimeError ''no requested benchmarks found in the manifest file''))
            | _ \<Rightarrow> Inl (Exc TypeError ''missing metadata.cmd_arguments.benchmarks list''))
       | _ \<Rightarrow> Inl (Exc TypeError ''metadata.is_sudo must be a boolean''))))"

definition verify_resume_manifest_sudo_status :: "bool \<Rightarrow> bool \<Rightarrow> unit res" where
  "verify_resume_manifest_sudo_status current_is_sudo manifest_is_sudo =
     (if current_is_sudo = manifest_is_sudo then Inr ()
      else Inl (Exc RuntimeError ''sudo status does not match the original run''))"

section \<open>What is left to run\<close>

definition get_resume_run_state :: "platform \<Rightarrow> 'v version_api \<Rightarrow> bool \<Rightarrow> files \<Rightarrow> path \<Rightarrow>
    (string list \<times> pdict \<times> string list) res" where
  "get_resume_run_state pl vp current_is_sudo d output_dir =
     bindr (read_run_manifest pl vp d output_dir) (\<lambda>(requested, user_config, _, manifest_is_sudo).
     bindr (verify_resume_manifest_sudo_status current_is_sudo manifest_is_sudo) (\<lambda>_.
       Inr (requested, user_config, filter (\<lambda>b. \<not> has_valid_saved_recipe pl d output_dir b) requested)))"

text \<open>The attributes of the parsed command line are a dictionary; an explicit format wins.
  No directory, or an empty text in its place, is \<open>None\<close> here.\<close>

definition merge_manifest_args :: "pdict \<Rightarrow> pdict \<Rightarrow> pdict" where
  "merge_manifest_args args manifest_args =
     (let format_override = pget args ''format'';
          args1 = foldl (\<lambda>a (name, v). if name = ''format'' \<and> format_override \<noteq> PNone then a else dset name v a)
            args manifest_args
      in if format_override \<noteq> PNone then dset ''format'' format_override args1
         else if pget args1 ''format'' = PNone then dset ''format'' (PStr ''stdout'') args1 else args1)"

definition load_asct_run_args :: "platform \<Rightarrow> 'v version_api \<Rightarrow> bool \<Rightarrow> files \<Rightarrow> path option \<Rightarrow> pdict \<Rightarrow>
    (pdict \<times> path) res" where
  "load_asct_run_args pl vp current_is_sudo d run_dir args = (case run_dir of
     None \<Rightarrow> Inl (Exc TypeError ''Resume requires a run_dir'')
   | Some dir \<Rightarrow>
       if \<not> is_dir d dir then Inl (Exc RuntimeError ''Specified run directory does not exist'')
       else bindr (read_run_manifest pl vp d dir) (\<lambda>(_, _, manifest_args, manifest_is_sudo).
         bindr (verify_resume_manifest_sudo_status current_is_sudo manifest_is_sudo) (\<lambda>_.
           Inr (merge_manifest_args args manifest_args, dir))))"

definition MISSING :: pv where
  "MISSING = PStr ''<missing>''"

fun first_difference :: "pdict \<Rightarrow> pdict \<Rightarrow> string list \<Rightarrow> string option" where
  "first_difference a b [] = None"
| "first_difference a b (k # ks) =
     (if py_eq (dget a k MISSING) (dget b k MISSING) then first_difference a b ks else Some k)"

text \<open>\<open>shown\<close> is the text of a value in a message.\<close>

definition check_hw_match :: "(pv \<Rightarrow> string) \<Rightarrow> bool \<Rightarrow> pdict \<Rightarrow> pdict \<Rightarrow> unit res" where
  "check_hw_match shown saved_ready current_sys_hw saved_sys_hw =
     (if \<not> saved_ready then Inl (Exc RuntimeError ''saved system-info results are missing or invalid'')
      else let current_hw = flatten_dict True CHR ''.'' [] current_sys_hw;
               saved_hw = flatten_dict True CHR ''.'' [] saved_sys_hw
           in case first_difference current_hw saved_hw (sort (remdups (dkeys current_hw @ dkeys saved_hw))) of
                None \<Rightarrow> Inr ()
              | Some key \<Rightarrow> Inl (Exc RuntimeError (''hardware changes detected after run: '' @ key @ '':'' @
                  shown (dget current_hw key MISSING) @ '' (was '' @ shown (dget saved_hw key MISSING) @ '')'')))"

text \<open>Loading what is there; what cannot be loaded is run again.  \<open>load\<close> is
  \<open>load_saved_recipe\<close> on the output directory.\<close>

definition RESTORE_ERRORS :: "exc_class list" where
  "RESTORE_ERRORS = [FileNotFoundError, OSError, RuntimeError, TypeError, ValueError]"

fun restore_completed :: "(string \<Rightarrow> 'h \<Rightarrow> 'r res \<times> 'h) \<Rightarrow> string list \<Rightarrow> string list \<Rightarrow> (string, 'r) dict \<Rightarrow> 'h \<Rightarrow>
    ((string, 'r) dict \<times> string list) res \<times> 'h" where
  "restore_completed load [] to_run completed h = (Inr (completed, to_run), h)"
| "restore_completed load (b # bs) to_run completed h =
     (if b \<in> set to_run then restore_completed load bs to_run completed h
      else case load b h of
        (Inr r, h') \<Rightarrow> restore_completed load bs to_run (dset b r completed) h'
      | (Inl e, h') \<Rightarrow> if caught RESTORE_ERRORS e then restore_completed load bs (to_run @ [b]) completed h'
                      else (Inl e, h'))"

section \<open>The manifest is read back\<close>

lemma flatten_flat: "\<forall>kv \<in> set d. \<exists>s. snd kv = PStr s \<Longrightarrow> flatten_dict True CHR ''.'' [] d = dict_of d"
proof -
  have "\<forall>kv \<in> set d. \<exists>s. snd kv = PStr s \<Longrightarrow> flatten_loop True CHR ''.'' [] d items = dupdate items d" for items
  proof (induction d arbitrary: items)
    case (Cons kv d)
    then obtain k s where "kv = (k, PStr s)" by (cases kv) auto
    with Cons show ?case by (simp add: sub_key_def)
  qed simp
  then show "\<forall>kv \<in> set d. \<exists>s. snd kv = PStr s \<Longrightarrow> ?thesis" by (simp add: flatten_dict_def)
qed

lemma as_strings_map [simp]: "as_strings (map PStr bs) = Some bs"
  by (induction bs) auto

text \<open>The command line arguments as the header stores them.\<close>

abbreviation arg_texts :: "(pv \<Rightarrow> string) \<Rightarrow> pdict \<Rightarrow> pdict" where
  "arg_texts repr args \<equiv> map (\<lambda>(k, v). (k, PStr (py_str repr v))) args"

lemma keys_arg_texts: "map fst (arg_texts repr args) = map fst args"
  by (simp add: comp_def case_prod_beta)

lemma wf_arg_texts: "wf_dict args \<Longrightarrow> wf_dict (arg_texts repr args)"
  by (simp only: keys_arg_texts)

definition stored_args :: "(pv \<Rightarrow> string) \<Rightarrow> pdict \<Rightarrow> string list \<Rightarrow> pdict" where
  "stored_args repr args bs = dset ''benchmarks'' (PList (map PStr bs)) (map (\<lambda>(k, v). (k, PStr (py_str repr v))) args)"

lemma make_run_metadata_flat:
  assumes "wf_dict args"
  shows "make_run_metadata repr ident args ucfg (Some bs) =
    [(''run_id'', PStr (ri_run_id ident)), (''timestamp'', PFloat (ri_timestamp ident)),
     (''version'', PStr (ri_version ident)), (''is_sudo'', PBool (ri_is_sudo ident)),
     (''cmd_arguments'', PDict (stored_args repr args bs))] @ (if ucfg = [] then [] else [(''user_config'', PDict ucfg)])"
proof -
  let ?d = "arg_texts repr args"
  have w: "dict_of ?d = ?d" using wf_arg_texts[OF assms] by (rule dict_of_wf)
  have "\<forall>kv \<in> set ?d. \<exists>s. snd kv = PStr s" by auto
  from flatten_flat[OF this] have "flatten_dict True CHR ''.'' [] ?d = ?d" unfolding w .
  then show ?thesis by (simp add: make_run_metadata_def w stored_args_def)
qed

text \<open>The values that an argument can have, per parser, so that its text reads back.\<close>

fun restorable :: "arg_parser \<Rightarrow> pv \<Rightarrow> bool" where
  "restorable ParseStr (PStr s) \<longleftrightarrow> True"
| "restorable ParseNone (PStr s) \<longleftrightarrow> s \<noteq> ''None''"
| "restorable ParseNone PNone \<longleftrightarrow> True"
| "restorable ParseLower (PStr s) \<longleftrightarrow> lower s = s"
| "restorable ParseBool (PBool b) \<longleftrightarrow> True"
| "restorable p v \<longleftrightarrow> False"

lemma run_arg_parser_restorable: "restorable p v \<Longrightarrow> run_arg_parser p name (py_str repr v) = Inr v"
  by (induction p v rule: restorable.induct) auto

definition restorable_args :: "(string \<times> arg_parser) list \<Rightarrow> pdict \<Rightarrow> bool" where
  "restorable_args ps args \<longleftrightarrow> list_all (\<lambda>(name, p). case map_of args name of None \<Rightarrow> True | Some v \<Rightarrow> restorable p v) ps"

lemma parse_args_loop_restores:
  assumes "wf_dict args" "restorable_args ps args"
    "distinct (map fst ps)" "''benchmarks'' \<notin> fst ` set ps"
  shows "\<exists>parsed'. parse_args_loop (stored_args repr args bs) ps parsed = Inr parsed' \<and>
    (\<forall>k. map_of parsed' k = (if k \<in> fst ` set ps \<and> map_of args k \<noteq> None then map_of args k else map_of parsed k))"
  using assms(2,3,4)
proof (induction ps arbitrary: parsed)
  case (Cons x ps)
  obtain name p where x: "x = (name, p)" by fastforce
  have look: "map_of (map (\<lambda>(k, v). (k, PStr (py_str repr v))) args) name = map_option (\<lambda>v. PStr (py_str repr v)) (map_of args name)"
    by (simp add: map_of_map)
  have g: "pget (stored_args repr args bs) name = (case map_of args name of None \<Rightarrow> PNone | Some v \<Rightarrow> PStr (py_str repr v))"
    using Cons.prems(3) x by (auto simp: pget_def dget_def stored_args_def look split: option.split)
  show ?case
  proof (cases "map_of args name")
    case None
    from Cons.IH[of parsed] Cons.prems x obtain parsed' where
      "parse_args_loop (stored_args repr args bs) ps parsed = Inr parsed'"
      "\<forall>k. map_of parsed' k = (if k \<in> fst ` set ps \<and> map_of args k \<noteq> None then map_of args k else map_of parsed k)"
      by (auto simp: restorable_args_def)
    then show ?thesis using None g x by (intro exI[of _ parsed']) auto
  next
    case (Some v)
    have "run_arg_parser p name (py_str repr v) = Inr v"
      using Cons.prems(1) x Some by (intro run_arg_parser_restorable) (simp add: restorable_args_def)
    moreover from Cons.IH[of "dset name v parsed"] Cons.prems x obtain parsed' where
      "parse_args_loop (stored_args repr args bs) ps (dset name v parsed) = Inr parsed'"
      "\<forall>k. map_of parsed' k = (if k \<in> fst ` set ps \<and> map_of args k \<noteq> None then map_of args k else map_of (dset name v parsed) k)"
      by (auto simp: restorable_args_def)
    ultimately show ?thesis using Some g x Cons.prems(2) by (intro exI[of _ parsed']) auto
  qed
qed auto

lemma parsers_distinct: "distinct (map fst MANIFEST_CMD_ARGUMENT_PARSERS)"
    "''benchmarks'' \<notin> fst ` set MANIFEST_CMD_ARGUMENT_PARSERS"
  by (simp_all add: MANIFEST_CMD_ARGUMENT_PARSERS_def)

lemma dset_entry: "(k, v) \<in> set (dset a b d) \<Longrightarrow> (k, v) = (a, b) \<or> (k, v) \<in> set d"
  by (induction d) (auto split: if_splits)

lemma stored_args_jsonable: "wf_dict args \<Longrightarrow> jsonable pl (PDict (stored_args repr args bs))"
proof -
  assume w: "wf_dict args"
  have "wf_dict (stored_args repr args bs)" unfolding stored_args_def by (rule wf_dset) (rule wf_arg_texts[OF w])
  moreover have "jsonable pl v" if "(k, v) \<in> set (stored_args repr args bs)" for k v
  proof -
    have "v = PList (map PStr bs) \<or> (\<exists>s. v = PStr s)"
      using dset_entry[OF that[unfolded stored_args_def]] by auto
    then show ?thesis by auto
  qed
  ultimately show ?thesis by auto
qed

definition manifest_text :: "platform \<Rightarrow> (pv \<Rightarrow> string) \<Rightarrow> run_identity \<Rightarrow> pdict \<Rightarrow> string list \<Rightarrow> pdict \<Rightarrow> string" where
  "manifest_text pl repr ident args bs ucfg =
     dumps pl (PDict [(''metadata'', PDict (make_run_metadata repr ident args ucfg (Some bs)))])"

text \<open>What has to hold so that a manifest can be read back: its parts are JSON and the version is not too old.\<close>

definition manifest_ok :: "platform \<Rightarrow> 'v version_api \<Rightarrow> run_identity \<Rightarrow> path \<Rightarrow> pdict \<Rightarrow> pdict \<Rightarrow> bool" where
  "manifest_ok pl vp ident out args ucfg \<longleftrightarrow> \<not> cannot_read pl (manifest_path out) \<and> wf_dict args \<and>
     jsonable pl (PFloat (ri_timestamp ident)) \<and> jsonable pl (PDict ucfg) \<and>
     check_manifest_version vp (PStr (ri_version ident)) = Inr () \<and> restorable_args MANIFEST_CMD_ARGUMENT_PARSERS args"

lemma manifest_reads_back:
  assumes "read_file d' (manifest_path out) = Inr (manifest_text pl repr ident args (b # bs) ucfg)"
    and "manifest_ok pl vp ident out args ucfg"
  shows "\<exists>parsed. read_run_manifest pl vp d' out = Inr (b # bs, ucfg, parsed, ri_is_sudo ident) \<and>
    map_of parsed ''benchmarks'' = Some (PList (map PStr (b # bs))) \<and>
    (\<forall>name p. (name, p) \<in> set MANIFEST_CMD_ARGUMENT_PARSERS \<longrightarrow> map_of parsed name = map_of args name)"
proof -
  let ?md = "make_run_metadata repr ident args ucfg (Some (b # bs))"
  have as: "\<not> cannot_read pl (manifest_path out)" "wf_dict args" "jsonable pl (PFloat (ri_timestamp ident))"
    "jsonable pl (PDict ucfg)" "check_manifest_version vp (PStr (ri_version ident)) = Inr ()"
    "restorable_args MANIFEST_CMD_ARGUMENT_PARSERS args"
    using assms(2) unfolding manifest_ok_def by blast+
  note md = make_run_metadata_flat[OF as(2), of repr ident ucfg "b # bs"]
  have ok: "jsonable pl (PDict [(''metadata'', PDict ?md)])"
    using as(3,4) stored_args_jsonable[OF as(2), of pl repr "b # bs"] by (simp add: md)
  have "read_json_file pl d' (manifest_path out) = PDict [(''metadata'', PDict ?md)]"
    using assms(1) as(1) json_loads_dumps[OF ok]
    by (simp add: read_json_file_def open_read_def manifest_text_def del: json_dumps.simps)
  then have m: "read_manifest pl d' out = Inr [(''metadata'', PDict ?md)]" by (simp add: read_manifest_def)
  obtain parsed where p: "parse_args_loop (stored_args repr args (b # bs)) MANIFEST_CMD_ARGUMENT_PARSERS
      [(''benchmarks'', PList (map PStr (b # bs)))] = Inr parsed"
    and lk: "\<And>k. map_of parsed k = (if k \<in> fst ` set MANIFEST_CMD_ARGUMENT_PARSERS \<and> map_of args k \<noteq> None
      then map_of args k else map_of [(''benchmarks'', PList (map PStr (b # bs)))] k)"
    using parse_args_loop_restores[OF as(2,6) parsers_distinct] by blast
  have a: "parse_manifest_cmd_arguments (PDict (stored_args repr args (b # bs))) = Inr parsed"
    using p by (simp add: parse_manifest_cmd_arguments_def stored_args_def pget_def dget_def parse_manifest_benchmarks_def)
  have bm: "map_of parsed ''benchmarks'' = Some (PList (map PStr (b # bs)))" using lk parsers_distinct(2) by simp
  have "read_run_manifest pl vp d' out = Inr (b # bs, ucfg, parsed, ri_is_sudo ident)"
    using as(5) a bm
    by (simp add: read_run_manifest_def read_manifest_data_def m md get_manifest_version_def pget_def dget_def)
  moreover have "map_of parsed name = map_of args name" if "(name, p) \<in> set MANIFEST_CMD_ARGUMENT_PARSERS" for name p
  proof -
    have "name \<in> fst ` set MANIFEST_CMD_ARGUMENT_PARSERS" using that by force
    then show ?thesis using lk[of name] parsers_distinct(2) by (cases "name = ''benchmarks''") auto
  qed
  ultimately show ?thesis using bm by blast
qed

lemma write_header_reads:
  "write_asct_json_header pl repr ident out args bs ucfg d = (None, d') \<Longrightarrow>
    read_file d' (manifest_path out) = Inr (manifest_text pl repr ident args bs ucfg)"
  by (simp add: write_asct_json_header_def write_to_file_None files.fetch_store manifest_text_def)

text \<open>
  C20.  What a run writes to its manifest, resuming reads back: the requested benchmarks, the
  user configuration, whether the run was one with sudo, and every argument of the command
  line that resuming restores, with the value it had.
\<close>

theorem manifest_roundtrip:
  assumes "write_asct_json_header pl repr ident out args (b # bs) ucfg d = (None, d')"
    and "manifest_ok pl vp ident out args ucfg"
  shows "\<exists>parsed. read_run_manifest pl vp d' out = Inr (b # bs, ucfg, parsed, ri_is_sudo ident) \<and>
    map_of parsed ''benchmarks'' = Some (PList (map PStr (b # bs))) \<and>
    (\<forall>name p. (name, p) \<in> set MANIFEST_CMD_ARGUMENT_PARSERS \<longrightarrow> map_of parsed name = map_of args name)"
  by (rule manifest_reads_back[OF write_header_reads[OF assms(1)] assms(2)])

definition demo_versions :: "string version_api" where
  "demo_versions = \<lparr>vp_parse = Some, vp_base_version = \<lambda>v. v, vp_less = \<lambda>v w. length v < length w\<rparr>"

definition demo_identity :: run_identity where
  "demo_identity = \<lparr>ri_run_id = ''id'', ri_timestamp = 1 / 2, ri_version = ''0.6.1'', ri_is_sudo = False\<rparr>"

definition demo_args :: pdict where
  "demo_args = [(''quiet'', PBool True), (''log_file'', PNone), (''force'', PInt 1)]"

definition demo_manifest :: "exc option \<times> files" where
  "demo_manifest = write_asct_json_header demo_platform (\<lambda>v. []) demo_identity [] demo_args [''c2c'', ''cmn'']
     [(''c2c'', PDict [(''iterations'', PInt 5)])] []"

lemma demo_manifest_ok: "fst demo_manifest = None"
  by code_simp

lemma demo_manifest_fits:
  "manifest_ok demo_platform demo_versions demo_identity [] demo_args [(''c2c'', PDict [(''iterations'', PInt 5)])]"
proof -
  have "jsonable demo_platform (PFloat (ri_timestamp demo_identity))"
    "jsonable demo_platform (PDict [(''c2c'', PDict [(''iterations'', PInt 5)])])"
    using demo_float by (simp_all add: demo_platform_def demo_identity_def)
  moreover have "check_manifest_version demo_versions (PStr (ri_version demo_identity)) = Inr ()"
    by (simp add: check_manifest_version_def demo_versions_def demo_identity_def MIN_RESUME_VERSION_def)
  moreover have "wf_dict demo_args" "restorable_args MANIFEST_CMD_ARGUMENT_PARSERS demo_args"
    by (simp_all add: demo_args_def restorable_args_def MANIFEST_CMD_ARGUMENT_PARSERS_def)
  ultimately show ?thesis by (simp add: manifest_ok_def demo_platform_def)
qed

theorem manifest_roundtrip_witness:
  "\<exists>parsed. read_run_manifest demo_platform demo_versions (snd demo_manifest) [] =
       Inr ([''c2c'', ''cmn''], [(''c2c'', PDict [(''iterations'', PInt 5)])], parsed, False) \<and>
     map_of parsed ''quiet'' = Some (PBool True)"
proof -
  have w: "write_asct_json_header demo_platform (\<lambda>v. []) demo_identity [] demo_args (''c2c'' # [''cmn''])
      [(''c2c'', PDict [(''iterations'', PInt 5)])] [] = (None, snd demo_manifest)"
    using demo_manifest_ok by (metis demo_manifest_def prod.collapse)
  have q: "(''quiet'', ParseBool) \<in> set MANIFEST_CMD_ARGUMENT_PARSERS"
    by (simp add: MANIFEST_CMD_ARGUMENT_PARSERS_def)
  from manifest_roundtrip[OF w demo_manifest_fits] q show ?thesis
    by (auto simp: demo_args_def demo_identity_def)
qed

section \<open>Which benchmarks run again\<close>

lemma restore_completed_spec:
  assumes "restore_completed load bs to_run completed h = (Inr (completed', to_run'), h')" "distinct bs"
    "set bs \<inter> set (dkeys completed) = {}"
  shows "set to_run \<subseteq> set to_run' \<and> set to_run' \<subseteq> set to_run \<union> set bs \<and>
    set (dkeys completed') = set (dkeys completed) \<union> (set bs - set to_run') \<and>
    (\<forall>b r. map_of completed' b = Some r \<longrightarrow> map_of completed b = Some r \<or> (\<exists>h1 h2. load b h1 = (Inr r, h2)))"
  using assms
proof (induction load bs to_run completed h rule: restore_completed.induct)
  case (2 load b bs to_run completed h)
  show ?case
  proof (cases "b \<in> set to_run")
    case True
    then have "set to_run \<subseteq> set to_run' \<and> set to_run' \<subseteq> set to_run \<union> set bs \<and>
        set (dkeys completed') = set (dkeys completed) \<union> (set bs - set to_run') \<and>
        (\<forall>b r. map_of completed' b = Some r \<longrightarrow> map_of completed b = Some r \<or> (\<exists>h1 h2. load b h1 = (Inr r, h2)))"
      using 2 by simp
    then show ?thesis using True by auto
  next
    case False
    obtain x h1 where l: "load b h = (x, h1)" by fastforce
    show ?thesis
    proof (cases x)
      case (Inr r)
      have d: "set bs \<inter> set (dkeys (dset b r completed)) = {}" using 2(5,6) by auto
      have IH: "set to_run \<subseteq> set to_run'" "set to_run' \<subseteq> set to_run \<union> set bs"
        "set (dkeys completed') = set (dkeys (dset b r completed)) \<union> (set bs - set to_run')"
        "\<forall>b' r'. map_of completed' b' = Some r' \<longrightarrow> map_of (dset b r completed) b' = Some r' \<or> (\<exists>h1 h2. load b' h1 = (Inr r', h2))"
        using 2(3)[OF False l[symmetric] Inr _ _ d] 2(4,5) False l Inr by auto
      have "b \<notin> set to_run'" using IH(2) False 2(5) by auto
      moreover have "set (dkeys (dset b r completed)) = insert b (set (dkeys completed))" by simp
      moreover have "map_of completed' b' = Some r' \<Longrightarrow> map_of completed b' = Some r' \<or> (\<exists>h1 h2. load b' h1 = (Inr r', h2))" for b' r'
        using IH(4) l Inr by (cases "b' = b") (auto split: if_splits)
      ultimately show ?thesis using IH(1-3) by auto
    next
      case (Inl e)
      then have c: "caught RESTORE_ERRORS e" using 2(4) False l by (auto split: if_splits)
      have IH: "set (to_run @ [b]) \<subseteq> set to_run'" "set to_run' \<subseteq> set (to_run @ [b]) \<union> set bs"
        "set (dkeys completed') = set (dkeys completed) \<union> (set bs - set to_run')"
        "\<forall>b' r'. map_of completed' b' = Some r' \<longrightarrow> map_of completed b' = Some r' \<or> (\<exists>h1 h2. load b' h1 = (Inr r', h2))"
        using 2(2)[OF False l[symmetric] Inl c] 2(4-6) False l Inl c by auto
      then show ?thesis by auto
    qed
  qed
qed auto

text \<open>
  Resuming loses no benchmark and runs none for nothing: every requested benchmark is
  either run again or restored, never both; a restored one had results whose digest was
  right, and its object is marked as loaded so that its files are not written again; one
  without valid results is always run again.
\<close>

theorem resume_partitions_requested:
  assumes "get_resume_run_state pl vp sudo d out = Inr (requested, user_config, to_run)" "distinct requested"
    and "restore_completed (\<lambda>b h. load_saved_recipe pl from_dict quick table results_desc d out b True h)
      requested to_run [] h = (Inr (completed, rerun), h')"
  shows "set requested = set rerun \<union> set (dkeys completed) \<and> set rerun \<inter> set (dkeys completed) = {} \<and>
    (\<forall>b r. map_of completed b = Some r \<longrightarrow> has_valid_saved_recipe pl d out b \<and> rb_from_saved_output r) \<and>
    (\<forall>b \<in> set requested. \<not> has_valid_saved_recipe pl d out b \<longrightarrow> b \<in> set rerun)"
proof -
  have tr: "to_run = filter (\<lambda>b. \<not> has_valid_saved_recipe pl d out b) requested"
    using assms(1) by (auto simp: get_resume_run_state_def bindr_Inr_iff)
  have sp: "set to_run \<subseteq> set rerun" "set rerun \<subseteq> set to_run \<union> set requested"
    "set (dkeys completed) = set requested - set rerun"
    "\<And>b r. map_of completed b = Some r \<Longrightarrow>
      \<exists>h1 h2. load_saved_recipe pl from_dict quick table results_desc d out b True h1 = (Inr r, h2)"
    using restore_completed_spec[OF assms(3,2)] by auto
  have "rb_from_saved_output r \<and> has_valid_saved_recipe pl d out b" if "map_of completed b = Some r" for b r
  proof -
    obtain h1 h2 where l: "load_saved_recipe pl from_dict quick table results_desc d out b True h1 = (Inr r, h2)"
      using sp(4)[OF \<open>map_of completed b = Some r\<close>] by blast
    then have "rb_from_saved_output r"
      by (auto simp: load_saved_recipe_def map_sum_Inr split: sum.splits prod.splits)
    moreover have "has_valid_saved_recipe pl d out b"
      using l by (auto simp: load_saved_recipe_def read_saved_recipe_artifacts_def split: if_splits)
    ultimately show ?thesis by blast
  qed
  then show ?thesis using sp(1-3) tr by auto
qed

definition demo_run_files :: files where
  "demo_run_files = snd (save_benchmark_result demo_platform [''cmn''] [] id demo_heap [] ''cmn'' demo_recipe (snd demo_manifest))"

lemma demo_run_state: "get_resume_run_state demo_platform demo_versions False demo_run_files [] =
    Inr ([''c2c'', ''cmn''], [(''c2c'', PDict [(''iterations'', PInt 5)])], [''c2c''])"
  by code_simp

lemma demo_restored: "map_sum id (\<lambda>(c, t). (dkeys c, t))
    (fst (restore_completed (\<lambda>b h. load_saved_recipe demo_platform Inr False demo_table (\<lambda>c. []) demo_run_files [] b True h)
      [''c2c'', ''cmn''] [''c2c''] [] [])) = Inr ([''cmn''], [''c2c''])"
  by code_simp

theorem resume_partitions_requested_witness:
  "\<exists>completed h'. restore_completed (\<lambda>b h. load_saved_recipe demo_platform Inr False demo_table (\<lambda>c. []) demo_run_files [] b True h)
      [''c2c'', ''cmn''] [''c2c''] [] [] = (Inr (completed, [''c2c'']), h') \<and> dkeys completed = [''cmn''] \<and>
    has_valid_saved_recipe demo_platform demo_run_files [] ''cmn''"
proof -
  let ?load = "\<lambda>b h. load_saved_recipe demo_platform Inr False demo_table (\<lambda>c. []) demo_run_files [] b True h"
  obtain completed h' where r: "restore_completed ?load [''c2c'', ''cmn''] [''c2c''] [] [] = (Inr (completed, [''c2c'']), h')"
    and k: "dkeys completed = [''cmn'']"
    using demo_restored
    by (cases "restore_completed ?load [''c2c'', ''cmn''] [''c2c''] [] []") (auto simp: map_sum_Inr)
  obtain c where c: "map_of completed ''cmn'' = Some c" using k by (cases completed) auto
  show ?thesis
    using resume_partitions_requested[OF demo_run_state _ r] c r k by auto
qed

section \<open>The machine must be the same\<close>

lemma first_difference_None: "first_difference a b ks = None \<longleftrightarrow> (\<forall>k \<in> set ks. py_eq (dget a k MISSING) (dget b k MISSING))"
  by (induction ks) auto

lemma first_difference_Some:
  "sorted ks \<Longrightarrow> first_difference a b ks = Some k \<Longrightarrow>
    k \<in> set ks \<and> \<not> py_eq (dget a k MISSING) (dget b k MISSING) \<and>
    (\<forall>j \<in> set ks. j < k \<longrightarrow> py_eq (dget a j MISSING) (dget b j MISSING))"
  by (induction ks) (auto split: if_splits)

text \<open>
  C21.  A run is resumed on the machine it began on, and on no other: the check of the
  hardware passes exactly when the saved description is ready and agrees with the current
  one on every value either of them has; otherwise, where it is ready, the error names the
  alphabetically first value that differs, with what it is now and what it was.
\<close>

theorem check_hw_match_complete:
  "let cur = flatten_dict True CHR ''.'' [] hw; sv = flatten_dict True CHR ''.'' [] saved_hw;
       differs = (\<lambda>k. k \<in> set (dkeys cur) \<union> set (dkeys sv) \<and> \<not> py_eq (dget cur k MISSING) (dget sv k MISSING))
   in (check_hw_match shown ready hw saved_hw = Inr () \<longleftrightarrow> ready \<and> (\<nexists>k. differs k)) \<and>
     (\<not> ready \<or> (\<nexists>k. differs k) \<or>
       (\<exists>k. differs k \<and> (\<forall>j. differs j \<longrightarrow> k \<le> j) \<and>
         check_hw_match shown ready hw saved_hw = Inl (Exc RuntimeError (''hardware changes detected after run: '' @ k @ '':'' @
           shown (dget cur k MISSING) @ '' (was '' @ shown (dget sv k MISSING) @ '')''))))"
proof -
  define cur sv where "cur = flatten_dict True CHR ''.'' [] hw" and "sv = flatten_dict True CHR ''.'' [] saved_hw"
  define ks where "ks = sort (remdups (dkeys cur @ dkeys sv))"
  have ks: "sorted ks" "set ks = set (dkeys cur) \<union> set (dkeys sv)" by (auto simp: ks_def)
  have c: "check_hw_match shown ready hw saved_hw =
      (if \<not> ready then Inl (Exc RuntimeError ''saved system-info results are missing or invalid'')
       else case first_difference cur sv ks of None \<Rightarrow> Inr ()
         | Some k \<Rightarrow> Inl (Exc RuntimeError (''hardware changes detected after run: '' @ k @ '':'' @
           shown (dget cur k MISSING) @ '' (was '' @ shown (dget sv k MISSING) @ '')'')))"
    by (simp only: check_hw_match_def cur_def sv_def ks_def Let_def)
  show ?thesis
  proof (cases "first_difference cur sv ks")
    case None
    then show ?thesis
      using first_difference_None[of cur sv ks] c ks(2) unfolding Let_def cur_def[symmetric] sv_def[symmetric] by auto
  next
    case (Some k)
    have s: "k \<in> set ks" "\<not> py_eq (dget cur k MISSING) (dget sv k MISSING)"
      "\<And>j. j \<in> set ks \<Longrightarrow> j < k \<Longrightarrow> py_eq (dget cur j MISSING) (dget sv j MISSING)"
      using first_difference_Some[OF ks(1) Some] by blast+
    have le: "k \<le> j" if "j \<in> set ks" "\<not> py_eq (dget cur j MISSING) (dget sv j MISSING)" for j
      using s(3)[OF that(1)] that(2) by (meson not_le)
    have e: "ready \<Longrightarrow> check_hw_match shown ready hw saved_hw = Inl (Exc RuntimeError (''hardware changes detected after run: '' @ k @ '':'' @
           shown (dget cur k MISSING) @ '' (was '' @ shown (dget sv k MISSING) @ '')''))"
      and n: "check_hw_match shown ready hw saved_hw \<noteq> Inr ()" using c Some by auto
    show ?thesis
      unfolding Let_def cur_def[symmetric] sv_def[symmetric] ks(2)[symmetric] using s(1,2) le e n by blast
  qed
qed

theorem check_hw_match_complete_witness:
  "check_hw_match (py_str (\<lambda>_. [])) True [(''cpu'', PDict [(''cores'', PInt 64), (''model'', PStr ''N1'')])]
      [(''cpu'', PDict [(''model'', PStr ''V2''), (''cores'', PInt 64)])] =
    Inl (Exc RuntimeError ''hardware changes detected after run: cpu.model:N1 (was V2)'') \<and>
   check_hw_match (py_str (\<lambda>_. [])) True [(''cpu'', PDict [(''cores'', PInt 64)])] [(''cpu'', PDict [(''cores'', PInt 64)])] = Inr ()"
proof
  show "check_hw_match (py_str (\<lambda>_. [])) True [(''cpu'', PDict [(''cores'', PInt 64), (''model'', PStr ''N1'')])]
      [(''cpu'', PDict [(''model'', PStr ''V2''), (''cores'', PInt 64)])] =
    Inl (Exc RuntimeError ''hardware changes detected after run: cpu.model:N1 (was V2)'')"
    by code_simp
  have f: "flatten_dict True CHR ''.'' [] [(''cpu'', PDict [(''cores'', PInt 64)])] = [(''cpu.cores'', PInt 64)]" by code_simp
  show "check_hw_match (py_str (\<lambda>_. [])) True [(''cpu'', PDict [(''cores'', PInt 64)])] [(''cpu'', PDict [(''cores'', PInt 64)])] = Inr ()"
    using check_hw_match_complete[of "[(''cpu'', PDict [(''cores'', PInt 64)])]" "[(''cpu'', PDict [(''cores'', PInt 64)])]" "py_str (\<lambda>_. [])" True]
    unfolding Let_def f by (simp add: dget_def)
qed

section \<open>The arguments of a resumed run\<close>

lemma override_lookup:
  "map_of (foldl (\<lambda>a (name, v). if name = ''format'' \<and> keep then a else dset name v a) args ms) k =
    (if k = ''format'' \<and> keep then map_of args k
     else case map_of (rev ms) k of None \<Rightarrow> map_of args k | Some v \<Rightarrow> Some v)"
  by (induction ms rule: rev_induct) (auto split: prod.splits option.splits)

lemma map_of_rev_wf: "wf_dict ms \<Longrightarrow> map_of (rev ms) k = map_of ms k"
  using map_of_eq_Some_iff[of ms k] map_of_eq_Some_iff[of "rev ms" k] by (metis distinct_rev not_None_eq rev_map set_rev)

lemma parse_args_loop_wf: "parse_args_loop d ps parsed = Inr p \<Longrightarrow> wf_dict parsed \<Longrightarrow> wf_dict p"
proof (induction d ps parsed rule: parse_args_loop.induct)
  case (2 d name p' ps parsed)
  then show ?case by (auto split: pv.splits sum.splits if_splits intro!: wf_dset)
qed simp

lemma parse_manifest_cmd_arguments_wf: "parse_manifest_cmd_arguments x = Inr p \<Longrightarrow> wf_dict p"
  unfolding parse_manifest_cmd_arguments_def
  by (auto split: pv.splits simp: bindr_Inr_iff elim!: parse_args_loop_wf)

lemma read_manifest_data_wf: "read_manifest_data pl d out = Inr md \<Longrightarrow> wf_dict (md_cmd_arguments md)"
proof -
  assume "read_manifest_data pl d out = Inr md"
  then obtain m where m: "(case dget m ''metadata'' (PDict []) of
         PDict metadata \<Rightarrow>
           (case dget metadata ''user_config'' (PDict []) of
              PDict user_config \<Rightarrow>
                bindr (parse_manifest_cmd_arguments (dget metadata ''cmd_arguments'' (PDict []))) (\<lambda>args.
                  Inr \<lparr>md_manifest = m, md_metadata = metadata, md_cmd_arguments = args, md_user_config = user_config\<rparr>)
            | _ \<Rightarrow> Inl (Exc TypeError ''metadata.user_config must be an object''))
       | _ \<Rightarrow> Inl (Exc TypeError ''metadata must be an object'')) = Inr md"
    unfolding read_manifest_data_def bindr_Inr_iff by blast
  then obtain metadata where d: "dget m ''metadata'' (PDict []) = PDict metadata"
    by (cases "dget m ''metadata'' (PDict [])") simp_all
  with m obtain ucfg where "dget metadata ''user_config'' (PDict []) = PDict ucfg"
    by (cases "dget metadata ''user_config'' (PDict [])") simp_all
  with m d obtain args where "parse_manifest_cmd_arguments (dget metadata ''cmd_arguments'' (PDict [])) = Inr args"
    "md_cmd_arguments md = args"
    by (auto simp: bindr_Inr_iff)
  then show ?thesis using parse_manifest_cmd_arguments_wf by blast
qed

lemma read_run_manifest_wf: 
  assumes "read_run_manifest pl vp d out = Inr (bs, ucfg, margs, sudo)"
  shows "wf_dict margs"
proof -
  from assms obtain md where m: "read_manifest_data pl d out = Inr md"
    and r: "(case map_of (md_metadata md) ''is_sudo'' of
         None \<Rightarrow> Inl (Exc TypeError ''metadata.is_sudo is missing'')
       | Some (PBool manifest_is_sudo) \<Rightarrow>
           (case pget (md_cmd_arguments md) ''benchmarks'' of
              PList vs \<Rightarrow> (case as_strings vs of
                  Some (b # bs) \<Rightarrow> Inr (b # bs, md_user_config md, md_cmd_arguments md, manifest_is_sudo)
                | _ \<Rightarrow> Inl (Exc RuntimeError ''no requested benchmarks found in the manifest file''))
            | _ \<Rightarrow> Inl (Exc TypeError ''missing metadata.cmd_arguments.benchmarks list''))
       | _ \<Rightarrow> Inl (Exc TypeError ''metadata.is_sudo must be a boolean'')) = Inr (bs, ucfg, margs, sudo)"
    unfolding read_run_manifest_def bindr_Inr_iff by blast
  from r obtain b where b: "map_of (md_metadata md) ''is_sudo'' = Some (PBool b)"
    by (cases "map_of (md_metadata md) ''is_sudo''"; simp; cases "the (map_of (md_metadata md) ''is_sudo'')"; simp)
  with r obtain vs where v: "pget (md_cmd_arguments md) ''benchmarks'' = PList vs"
    by (cases "pget (md_cmd_arguments md) ''benchmarks''") simp_all
  with r b obtain x xs where "as_strings vs = Some (x # xs)" by (auto split: option.splits list.splits)
  with r b v have "margs = md_cmd_arguments md" by simp
  then show ?thesis using read_manifest_data_wf[OF m] by simp
qed

text \<open>
  What the command line of a resume can say: of its own options only an explicit
  output format counts.  Every argument the manifest recorded replaces the one given now,
  those it did not record stay as given, and without a format in either the output goes to
  the terminal.
\<close>

theorem manifest_arguments_win:
  assumes "load_asct_run_args pl vp sudo d (Some dir) args = Inr (args', out)"
  shows "out = dir \<and> (\<exists>bs ucfg margs. read_run_manifest pl vp d dir = Inr (bs, ucfg, margs, sudo) \<and>
    (\<forall>k. k = ''format'' \<or> map_of args' k = (if map_of margs k = None then map_of args k else map_of margs k)) \<and>
    pget args' ''format'' = (if pget args ''format'' \<noteq> PNone then pget args ''format''
      else if map_of margs ''format'' \<noteq> None \<and> pget margs ''format'' \<noteq> PNone then pget margs ''format'' else PStr ''stdout''))"
proof -
  from assms obtain x where x: "read_run_manifest pl vp d dir = Inr x"
    and e: "(\<lambda>(_, _, manifest_args, manifest_is_sudo). bindr (verify_resume_manifest_sudo_status sudo manifest_is_sudo)
      (\<lambda>_. Inr (merge_manifest_args args manifest_args, dir))) x = Inr (args', out)"
    unfolding load_asct_run_args_def option.case bindr_Inr_iff[symmetric] by (metis (no_types, lifting) bindr_Inr_iff sum.distinct(1))
  obtain bs ucfg margs b where "x = (bs, ucfg, margs, b)" by (cases x)
  with x e have r: "read_run_manifest pl vp d dir = Inr (bs, ucfg, margs, sudo)" and o: "out = dir"
    and a: "args' = merge_manifest_args args margs"
    by (simp_all add: verify_resume_manifest_sudo_status_def split: if_splits)
  define keep where "keep \<longleftrightarrow> pget args ''format'' \<noteq> PNone"
  define args1 where "args1 = foldl (\<lambda>a (name, v). if name = ''format'' \<and> keep then a else dset name v a) args margs"
  have look: "map_of args1 k = (if k = ''format'' \<and> keep then map_of args k
      else if map_of margs k = None then map_of args k else map_of margs k)" for k
    unfolding args1_def override_lookup map_of_rev_wf[OF read_run_manifest_wf[OF r]] by (simp split: option.split)
  have a: "args' = (if keep then dset ''format'' (pget args ''format'') args1
      else if pget args1 ''format'' = PNone then dset ''format'' (PStr ''stdout'') args1 else args1)"
    unfolding a merge_manifest_args_def Let_def args1_def keep_def ..
  have "map_of args' k = (if map_of margs k = None then map_of args k else map_of margs k)" if "k \<noteq> ''format''" for k
    using that by (simp add: a look)
  moreover have "pget args' ''format'' = (if keep then pget args ''format''
      else if map_of margs ''format'' \<noteq> None \<and> pget margs ''format'' \<noteq> PNone then pget margs ''format'' else PStr ''stdout'')"
    using look[of "''format''"] by (auto simp: a pget_def dget_def keep_def split: option.splits if_splits)
  ultimately show ?thesis using r o unfolding keep_def by blast
qed

definition demo_manifest_args :: pdict where
  "demo_manifest_args = [(''benchmarks'', PList [PStr ''c2c'', PStr ''cmn'']), (''log_file'', PNone), (''quiet'', PBool True)]"

theorem manifest_arguments_win_witness:
  "\<exists>args'. load_asct_run_args demo_platform demo_versions False demo_run_files (Some []) [(''quiet'', PBool False)] = Inr (args', []) \<and>
    map_of args' ''quiet'' = Some (PBool True) \<and> pget args' ''format'' = PStr ''stdout''"
proof -
  have m: "read_run_manifest demo_platform demo_versions demo_run_files [] =
      Inr ([''c2c'', ''cmn''], [(''c2c'', PDict [(''iterations'', PInt 5)])], demo_manifest_args, False)"
    by code_simp
  have q: "map_of demo_manifest_args ''quiet'' = Some (PBool True)" "map_of demo_manifest_args ''format'' = None"
    by (simp_all add: demo_manifest_args_def)
  have "is_dir demo_run_files []" by code_simp
  then have "\<exists>args'. load_asct_run_args demo_platform demo_versions False demo_run_files (Some []) [(''quiet'', PBool False)] =
      Inr (args', [])"
    using m by (simp add: load_asct_run_args_def verify_resume_manifest_sudo_status_def Let_def)
  then obtain args' where l: "load_asct_run_args demo_platform demo_versions False demo_run_files (Some []) [(''quiet'', PBool False)] =
      Inr (args', [])" ..
  from manifest_arguments_win[OF l]
  have a: "\<forall>k. k = ''format'' \<or> map_of args' k = (if map_of demo_manifest_args k = None
      then map_of [(''quiet'', PBool False)] k else map_of demo_manifest_args k)"
    and f: "pget args' ''format'' = PStr ''stdout''"
    by (simp_all add: m q pget_def dget_def)
  show ?thesis using l f spec[OF a, of "''quiet''"] q by simp
qed

end
