(* ===== verification/Cache.thy ===== *)
theory Cache
  imports Recipe_Base "HOL-Library.Product_Lexorder"
begin

text \<open>
  \<open>src/core/cache.py\<close>: results kept in the user's cache directory.  Every recipe has one
  file and one fingerprint file whose name holds a digest of the size and the time of the
  first; two more files, named by digests of the machine's description, tell whether the
  cache belongs to this machine.  What the machine decides is a record of parameters.
\<close>

record cache_env =
  sudo_user :: "string option"
  user_var :: "string option"
  expanduser :: "string \<Rightarrow> path"
  access_write :: "path \<Rightarrow> bool"
  chown_error :: "path \<Rightarrow> exc option"
  os_stat :: "files \<Rightarrow> path \<Rightarrow> rat \<times> int"
  is_root :: bool
  cannot_remove :: "path \<Rightarrow> bool"

record cache =
  use_cache :: bool
  cache_valid :: bool
  asct_output_folder :: path
  is_cache_writeable :: bool

definition ASCT_CACHE_DIR :: path where
  "ASCT_CACHE_DIR = [''.cache'', ''arm'', ''asct'']"

definition home_directory :: "cache_env \<Rightarrow> path" where
  "home_directory env =
     expanduser env (CHR ''~'' # (case sudo_user env of Some u \<Rightarrow> u | None \<Rightarrow>
       (case user_var env of Some u \<Rightarrow> u | None \<Rightarrow> [])))"

definition cache_directory :: "cache_env \<Rightarrow> path" where
  "cache_directory env = home_directory env @ ASCT_CACHE_DIR"

definition get_cache_file_path :: "cache_env \<Rightarrow> string \<Rightarrow> path" where
  "get_cache_file_path env recipe_filename = cache_directory env @ [recipe_filename]"

definition is_cache_directory_writeable :: "cache_env \<Rightarrow> files \<Rightarrow> bool" where
  "is_cache_directory_writeable env d \<longleftrightarrow>
     is_dir d (cache_directory env) \<and> access_write env (cache_directory env)"

text \<open>\<open>except\<close> clauses: an exception of the listed classes is logged and forgotten.\<close>

definition swallow :: "exc_class list \<Rightarrow> exc option \<times> 's \<Rightarrow> exc option \<times> 's" where
  "swallow cs r = (case r of (Some e, s) \<Rightarrow> if caught cs e then (None, s) else (Some e, s) | (None, s) \<Rightarrow> (None, s))"

definition change_to_real_user_if_sudo :: "cache_env \<Rightarrow> path \<Rightarrow> exc option" where
  "change_to_real_user_if_sudo env p = (case sudo_user env of
     None \<Rightarrow> None | Some u \<Rightarrow> if u = [] then None else chown_error env p)"

text \<open>The directory is made before it is known whether it can be written.\<close>

definition make_cache_dir :: "platform \<Rightarrow> cache_env \<Rightarrow> files \<Rightarrow> exc option \<times> files" where
  "make_cache_dir pl env d = swallow [OSError, KeyError]
     (case makedirs (cannot_mkdir pl) (cache_directory env) d of
        (Some e, d1) \<Rightarrow> (Some e, d1)
      | (None, d1) \<Rightarrow> (change_to_real_user_if_sudo env (cache_directory env), d1))"

definition new_cache :: "platform \<Rightarrow> cache_env \<Rightarrow> bool \<Rightarrow> path \<Rightarrow> files \<Rightarrow> (exc option \<times> files) \<times> cache" where
  "new_cache pl env use output_folder d =
     (if use then
        (case make_cache_dir pl env d of
           (e, d1) \<Rightarrow> ((e, d1), \<lparr>use_cache = True, cache_valid = True, asct_output_folder = output_folder,
               is_cache_writeable = is_cache_directory_writeable env d1\<rparr>))
      else ((None, d), \<lparr>use_cache = False, cache_valid = True, asct_output_folder = output_folder,
               is_cache_writeable = False\<rparr>))"

definition create_asct_cache_dir :: "platform \<Rightarrow> cache_env \<Rightarrow> cache \<Rightarrow> files \<Rightarrow> exc option \<times> files" where
  "create_asct_cache_dir pl env c d =
     (if \<not> is_cache_writeable c then (None, d) else make_cache_dir pl env d)"

definition clear_asct_cache :: "platform \<Rightarrow> cache_env \<Rightarrow> cache \<Rightarrow> bool \<Rightarrow> files \<Rightarrow> exc option \<times> files" where
  "clear_asct_cache pl env c invalidate d =
     (let cache_dir = cache_directory env in
      if \<not> is_cache_writeable c then (None, d)
      else if invalidate \<and> path_exists d cache_dir \<and> listdir d cache_dir \<noteq> []
      then (if cannot_remove env cache_dir then (Some (Exc PermissionError ''rmtree''), d)
            else create_asct_cache_dir pl env c (rmtree cache_dir d))
      else (None, d))"

section \<open>Digests\<close>

text \<open>\<open>json.dumps(obj, sort_keys=True, separators=(",", ":"))\<close>\<close>

fun json_canonical :: "(rat \<Rightarrow> string) \<Rightarrow> pv \<Rightarrow> string" where
  "json_canonical fr (PList vs) = CHR ''['' # join '','' (map (json_canonical fr) vs) @ '']''"
| "json_canonical fr (PDict d) =
     CHR ''{'' # join '','' (map snd (sort_key fst (map (\<lambda>(k, v). (k, json_string k @ '':'' @ json_canonical fr v)) d))) @ ''}''"
| "json_canonical fr v = json_dumps fr v"

definition hash_dict :: "platform \<Rightarrow> pdict \<Rightarrow> string" where
  "hash_dict pl obj = sha256 pl (json_canonical (float_repr pl) (PDict obj))"

definition fingerprint :: "cache_env \<Rightarrow> files \<Rightarrow> path \<Rightarrow> pdict" where
  "fingerprint env d p = (case os_stat env d p of (mtime, sz) \<Rightarrow>
     [(''mtime'', PFloat mtime), (''size'', PInt sz)])"

definition file_fingerprint_hash :: "platform \<Rightarrow> cache_env \<Rightarrow> files \<Rightarrow> path \<Rightarrow> string res" where
  "file_fingerprint_hash pl env d p =
     (if path_exists d p then Inr (hash_dict pl (fingerprint env d p))
      else Inl (Exc FileNotFoundError ''stat''))"

section \<open>Recipes\<close>

definition write_to_cache :: "platform \<Rightarrow> cache_env \<Rightarrow> cache \<Rightarrow> pv \<Rightarrow> string \<Rightarrow> files \<Rightarrow> exc option \<times> files" where
  "write_to_cache pl env c recipe_data recipe_name d =
     (if \<not> is_cache_writeable c \<or> \<not> truthy recipe_data then (None, d)
      else swallow [OSError, ValueError, TypeError]
        (case write_to_file pl d (get_cache_file_path env recipe_name) (dumps pl recipe_data) of
           (Some e, d1) \<Rightarrow> (Some e, d1)
         | (None, d1) \<Rightarrow> (change_to_real_user_if_sudo env (get_cache_file_path env recipe_name), d1)))"

definition os_remove :: "cache_env \<Rightarrow> files \<Rightarrow> path \<Rightarrow> exc option \<times> files" where
  "os_remove env d p =
     (if \<not> path_exists d p then (Some (Exc FileNotFoundError ''remove''), d)
      else if is_dir d p \<or> cannot_remove env p then (Some (Exc PermissionError ''remove''), d)
      else (None, remove_file p d))"

fun remove_fingerprints :: "cache_env \<Rightarrow> string list \<Rightarrow> files \<Rightarrow> files" where
  "remove_fingerprints env [] d = d"
| "remove_fingerprints env (f # fs) d = remove_fingerprints env fs (snd (os_remove env d (get_cache_file_path env f)))"

definition clear_recipe_cache :: "cache_env \<Rightarrow> cache \<Rightarrow> string \<Rightarrow> files \<Rightarrow> files" where
  "clear_recipe_cache env c recipe_name d =
     (let cache_file = get_cache_file_path env recipe_name in
      if \<not> use_cache c \<or> \<not> is_cache_writeable c then d
      else case (if path_exists d cache_file then os_remove env d cache_file else (None, d)) of
        (Some e, d1) \<Rightarrow> d1
      | (None, d1) \<Rightarrow>
          if \<not> is_dir d1 (cache_directory env) then d1
          else remove_fingerprints env (filter (prefix (recipe_name @ ''.'')) (listdir d1 (cache_directory env))) d1)"

definition is_cache_available :: "platform \<Rightarrow> cache_env \<Rightarrow> cache \<Rightarrow> string \<Rightarrow> files \<Rightarrow> bool \<times> files" where
  "is_cache_available pl env c recipe_name d =
     (let cache_file = get_cache_file_path env recipe_name in
      if \<not> use_cache c then (False, d)
      else case file_fingerprint_hash pl env d cache_file of
        Inl e \<Rightarrow> (False, d)
      | Inr h \<Rightarrow>
          if path_exists d (get_cache_file_path env (recipe_name @ ''.'' @ h)) then (True, d)
          else (False, clear_recipe_cache env c recipe_name d))"

text \<open>\<open>cache_results\<close> of the recipe is a method of its class; the result is passed here.\<close>

definition cache_save :: "platform \<Rightarrow> cache_env \<Rightarrow> cache \<Rightarrow> string \<Rightarrow> pv \<Rightarrow> files \<Rightarrow> exc option \<times> files" where
  "cache_save pl env c name cache_data d =
     (if \<not> use_cache c \<or> \<not> is_cache_writeable c \<or> \<not> truthy cache_data then (None, d)
      else case write_to_cache pl env c cache_data name (clear_recipe_cache env c name d) of
        (Some e, d1) \<Rightarrow> (Some e, d1)
      | (None, d1) \<Rightarrow>
          (case file_fingerprint_hash pl env d1 (get_cache_file_path env name) of
             Inl e \<Rightarrow> (Some e, d1)
           | Inr h \<Rightarrow> write_to_cache pl env c (PStr h) (name @ ''.'' @ h) d1))"

fun restore_files :: "platform \<Rightarrow> cache_env \<Rightarrow> path \<Rightarrow> pdict \<Rightarrow> files \<Rightarrow> exc option \<times> files" where
  "restore_files pl env recipe_dir [] d = (None, d)"
| "restore_files pl env recipe_dir ((output_file, content) # kvs) d =
     (case write_to_file pl d (recipe_dir @ [output_file]) (dumps pl content) of
        (Some e, d1) \<Rightarrow> (Some e, d1)
      | (None, d1) \<Rightarrow>
          (case change_to_real_user_if_sudo env (recipe_dir @ [output_file]) of
             Some e \<Rightarrow> (Some e, d1)
           | None \<Rightarrow> restore_files pl env recipe_dir kvs d1))"

definition restore_to_output_folder :: "platform \<Rightarrow> cache_env \<Rightarrow> cache \<Rightarrow> string \<Rightarrow> files \<Rightarrow> bool res \<times> files" where
  "restore_to_output_folder pl env c recipe_name d =
     (if \<not> use_cache c then (Inr False, d)
      else let recipe_dir = asct_output_folder c @ [''raw'', recipe_name] in
        case (case makedirs (cannot_mkdir pl) recipe_dir d of
                (Some e, d1) \<Rightarrow> (Some e, d1)
              | (None, d1) \<Rightarrow>
                  (case read_json_file pl d (get_cache_file_path env recipe_name) of
                     PDict recipe_data \<Rightarrow> restore_files pl env recipe_dir recipe_data d1
                   | _ \<Rightarrow> (Some (Exc AttributeError ''items''), d1))) of
          (None, d2) \<Rightarrow> (Inr True, d2)
        | (Some e, d2) \<Rightarrow>
            (if caught [OSError, ValueError, TypeError, AttributeError] e then Inr False else Inl e, d2))"

definition recipe_cache_exists :: "cache_env \<Rightarrow> string \<Rightarrow> files \<Rightarrow> bool" where
  "recipe_cache_exists env recipe_name d \<longleftrightarrow> path_exists d (get_cache_file_path env recipe_name)"

definition read_from_cache :: "platform \<Rightarrow> cache_env \<Rightarrow> cache \<Rightarrow> string \<Rightarrow> files \<Rightarrow> pv" where
  "read_from_cache pl env c recipe_name d =
     (if \<not> use_cache c \<or> \<not> recipe_cache_exists env recipe_name d then PDict []
      else let data = read_json_file pl d (get_cache_file_path env recipe_name) in
           if truthy data then data else PDict [])"

section \<open>The machine\<close>

record system_info =
  si_memory :: pdict
  si_sys_hw :: pdict

definition is_asct_cache_valid :: "platform \<Rightarrow> cache_env \<Rightarrow> cache \<Rightarrow> system_info \<Rightarrow> files \<Rightarrow> bool \<times> cache" where
  "is_asct_cache_valid pl env c si d =
     (if is_root env \<and> \<not> path_exists d (get_cache_file_path env (hash_dict pl (si_memory si)))
      then (False, c\<lparr>cache_valid := False\<rparr>)
      else if \<not> path_exists d (get_cache_file_path env (hash_dict pl (si_sys_hw si)))
      then (False, c\<lparr>cache_valid := False\<rparr>)
      else (True, c))"

definition refresh_cache :: "platform \<Rightarrow> cache_env \<Rightarrow> cache \<Rightarrow> system_info \<Rightarrow> files \<Rightarrow> (exc option \<times> files) \<times> cache" where
  "refresh_cache pl env c si d =
     (if \<not> use_cache c then ((None, d), c)
      else case is_asct_cache_valid pl env c si d of
        (True, c1) \<Rightarrow> ((None, d), c1)
      | (False, c1) \<Rightarrow> (clear_asct_cache pl env c1 True d, c1))"

definition save_cache_validator :: "platform \<Rightarrow> cache_env \<Rightarrow> cache \<Rightarrow> system_info \<Rightarrow> files \<Rightarrow> exc option \<times> files" where
  "save_cache_validator pl env c si d =
     (if cache_valid c \<or> \<not> is_cache_writeable c \<or> \<not> use_cache c then (None, d)
      else case write_to_cache pl env c (PDict (si_memory si)) (hash_dict pl (si_memory si)) d of
        (Some e, d1) \<Rightarrow> (Some e, d1)
      | (None, d1) \<Rightarrow> write_to_cache pl env c (PDict (si_sys_hw si)) (hash_dict pl (si_sys_hw si)) d1)"

section \<open>Lemmas\<close>

text \<open>A cache that is on, can be written and read, and holds no directories.\<close>

definition cache_usable :: "platform \<Rightarrow> cache_env \<Rightarrow> cache \<Rightarrow> files \<Rightarrow> bool" where
  "cache_usable pl env c d \<longleftrightarrow> use_cache c \<and> is_cache_writeable c \<and> is_dir d (cache_directory env) \<and>
     (\<forall>e. let p = get_cache_file_path env e in
        \<not> is_dir d p \<and> \<not> cannot_remove env p \<and> \<not> cannot_write pl p \<and> (\<forall>s. torn_write pl p s = None) \<and> \<not> cannot_read pl p \<and>
        change_to_real_user_if_sudo env p = None)"

lemma cache_usableD:
  assumes "cache_usable pl env c d"
  shows "use_cache c" "is_cache_writeable c" "is_dir d (cache_directory env)"
    "\<not> is_dir d (get_cache_file_path env e)" "\<not> cannot_remove env (get_cache_file_path env e)"
    "\<not> cannot_write pl (get_cache_file_path env e)" "\<not> cannot_read pl (get_cache_file_path env e)"
    "torn_write pl (get_cache_file_path env e) s = None"
    "change_to_real_user_if_sudo env (get_cache_file_path env e) = None"
  using assms unfolding cache_usable_def Let_def by auto

lemma cache_path [simp]:
  "get_cache_file_path env e \<noteq> []" "butlast (get_cache_file_path env e) = cache_directory env"
  "last (get_cache_file_path env e) = e" "get_cache_file_path env e = get_cache_file_path env f \<longleftrightarrow> e = f"
  "get_cache_file_path env e \<noteq> cache_directory env" "cache_directory env \<noteq> get_cache_file_path env e"
  by (auto simp: get_cache_file_path_def)

lemma is_dir_remove_file [simp]: "\<not> is_dir d p \<Longrightarrow> is_dir (remove_file p d) q = is_dir d q"
  by (auto simp: is_dir_def remove_file_def)

lemma is_dir_write_new [simp]: "\<not> is_dir d p \<Longrightarrow> is_dir (write_file p s d) q = is_dir d q"
  by (cases "q = p") (auto simp: is_dir_def write_file_def)

lemma exists_remove_file [simp]: "p \<noteq> [] \<Longrightarrow> path_exists (remove_file p d) q \<longleftrightarrow> path_exists d q \<and> q \<noteq> p"
  by (auto simp: path_exists_def remove_file_def)

lemma exists_write_file [simp]: "path_exists (write_file p s d) q \<longleftrightarrow> q = p \<or> path_exists d q"
  by (simp add: write_file_def)

lemma listdir_iff: "e \<in> set (listdir d (cache_directory env)) \<longleftrightarrow> path_exists d (get_cache_file_path env e)"
proof
  assume "e \<in> set (listdir d (cache_directory env))"
  then obtain q where q: "q \<in> set (dkeys d)" "q \<noteq> []" "butlast q = cache_directory env" "e = last q"
    by (auto simp: listdir_def)
  have "q = get_cache_file_path env e"
    using append_butlast_last_id[OF q(2)] unfolding get_cache_file_path_def q(3)[symmetric] q(4) by (rule sym)
  with q(1) show "path_exists d (get_cache_file_path env e)" by (simp add: path_exists_def)
next
  assume "path_exists d (get_cache_file_path env e)"
  then have k: "get_cache_file_path env e \<in> set (dkeys d)" by (simp add: path_exists_def)
  show "e \<in> set (listdir d (cache_directory env))"
    unfolding listdir_def using image_eqI[of e last "get_cache_file_path env e"] k by auto
qed

text \<open>Removing a list of cache files leaves every other path as it was.\<close>

lemma remove_fingerprints_effect:
  assumes "\<And>e. \<not> is_dir d (get_cache_file_path env e)" "\<And>e. \<not> cannot_remove env (get_cache_file_path env e)"
  shows "is_dir (remove_fingerprints env fs d) q = is_dir d q \<and>
    (path_exists (remove_fingerprints env fs d) q \<longleftrightarrow> path_exists d q \<and> q \<notin> get_cache_file_path env ` set fs)"
  using assms(1)
proof (induction fs arbitrary: d)
  case (Cons f fs)
  let ?d = "snd (os_remove env d (get_cache_file_path env f))"
  have d: "is_dir ?d q = is_dir d q \<and> (path_exists ?d q \<longleftrightarrow> path_exists d q \<and> q \<noteq> get_cache_file_path env f)" for q
    using Cons.prems assms(2) by (auto simp: os_remove_def)
  with Cons.IH[of ?d] Cons.prems show ?case by auto
qed simp

definition own_entry :: "string \<Rightarrow> string \<Rightarrow> bool" where
  "own_entry name e \<longleftrightarrow> e = name \<or> prefix (name @ ''.'') e"

lemma clear_recipe_cache_effect:
  assumes "cache_usable pl env c d"
  shows "is_dir (clear_recipe_cache env c name d) q = is_dir d q"
    "path_exists (clear_recipe_cache env c name d) q \<longleftrightarrow>
       path_exists d q \<and> \<not> (\<exists>e. own_entry name e \<and> q = get_cache_file_path env e)"
proof -
  note u = cache_usableD[OF assms]
  let ?p = "get_cache_file_path env name"
  define d1 where "d1 = (if path_exists d ?p then remove_file ?p d else d)"
  have s: "(if path_exists d ?p then os_remove env d ?p else (None, d)) = (None, d1)"
    using u by (simp add: d1_def os_remove_def)
  have d1: "is_dir d1 q = is_dir d q \<and> (path_exists d1 q \<longleftrightarrow> path_exists d q \<and> q \<noteq> ?p)" for q
    using u(4)[of name] by (auto simp: d1_def)
  have "clear_recipe_cache env c name d =
      remove_fingerprints env (filter (prefix (name @ ''.'')) (listdir d1 (cache_directory env))) d1"
    using u(1,2,3) d1 by (simp only: clear_recipe_cache_def Let_def s) simp
  then show "is_dir (clear_recipe_cache env c name d) q = is_dir d q"
    "path_exists (clear_recipe_cache env c name d) q \<longleftrightarrow>
       path_exists d q \<and> \<not> (\<exists>e. own_entry name e \<and> q = get_cache_file_path env e)"
    using remove_fingerprints_effect[of d1 env] d1 u(4,5) by (auto simp: own_entry_def listdir_iff)
qed

lemma clear_keeps_usable: "cache_usable pl env c d \<Longrightarrow> cache_usable pl env c (clear_recipe_cache env c name d)"
  using clear_recipe_cache_effect(1)[of pl env c d name] unfolding cache_usable_def by simp

lemma write_to_cache_usable:
  assumes "cache_usable pl env c d" "truthy v"
  shows "write_to_cache pl env c v e d = (None, write_file (get_cache_file_path env e) (dumps pl v) d)"
  using cache_usableD[OF assms(1)] assms(2) by (simp add: write_to_cache_def write_to_file_def swallow_def)

lemma write_keeps_usable:
  "cache_usable pl env c d \<Longrightarrow> cache_usable pl env c (write_file (get_cache_file_path env e) s d)"
  using cache_usableD(4)[of pl env c d] unfolding cache_usable_def by simp

text \<open>What a save does, in one equation: the old files go, the data and its fingerprint come.\<close>

lemma cache_save_usable:
  fixes name :: string
  assumes "cache_usable pl env c d" "truthy v" "\<And>x. sha256 pl x \<noteq> []"
  defines "d1 \<equiv> write_file (get_cache_file_path env name) (dumps pl v) (clear_recipe_cache env c name d)"
  defines "h \<equiv> hash_dict pl (fingerprint env d1 (get_cache_file_path env name))"
  shows "cache_save pl env c name v d = (None, write_file (get_cache_file_path env (name @ ''.'' @ h)) (dumps pl (PStr h)) d1)"
proof -
  note u = cache_usableD[OF assms(1)]
  have w: "write_to_cache pl env c v name (clear_recipe_cache env c name d) = (None, d1)"
    using write_to_cache_usable[OF clear_keeps_usable[OF assms(1)] assms(2)] by (simp add: d1_def)
  have u1: "cache_usable pl env c d1"
    unfolding d1_def by (rule write_keeps_usable) (rule clear_keeps_usable[OF assms(1)])
  have h: "file_fingerprint_hash pl env d1 (get_cache_file_path env name) = Inr h"
    by (simp add: file_fingerprint_hash_def h_def d1_def)
  have "truthy (PStr h)" using assms(3) by (simp add: h_def hash_dict_def)
  then show ?thesis using u(1,2) assms(2) w h write_to_cache_usable[OF u1] by (simp add: cache_save_def)
qed

lemma prefix_dot: "prefix (name @ ''.'') (name @ ''.'' @ h)"
  by (simp add: prefix_def)

lemma own_entries [simp]: "own_entry name name" "own_entry name (name @ CHR ''.'' # h)"
  by (simp_all add: own_entry_def prefix_def)

text \<open>The time and size that the system reports for a file do not depend on other files.\<close>

definition stat_local :: "cache_env \<Rightarrow> path \<Rightarrow> bool" where
  "stat_local env p \<longleftrightarrow> (\<forall>q s d. q \<noteq> p \<longrightarrow> os_stat env (write_file q s d) p = os_stat env d p)"

text \<open>
  C13.  What is saved in the cache is available and reads back, and only as long as the file
  is not touched: in any later state with the same fingerprint files, the entry is used
  exactly when the digest of its time and size is the one at the time of the save;
  otherwise it is not used, and the file and its fingerprint are removed.
\<close>

theorem cache_detects_changes:
  assumes "cache_usable pl env c d" "truthy v" "jsonable pl v" "\<And>x. sha256 pl x \<noteq> []"
    and "stat_local env (get_cache_file_path env name)"
    and "cache_save pl env c name v d = (e, d')"
    and "cache_usable pl env c d2" "path_exists d2 (get_cache_file_path env name)"
    and "\<And>f. prefix (name @ ''.'') f \<Longrightarrow>
      path_exists d2 (get_cache_file_path env f) = path_exists d' (get_cache_file_path env f)"
  shows "e = None \<and> read_from_cache pl env c name d' = v \<and>
    (if hash_dict pl (fingerprint env d2 (get_cache_file_path env name)) =
        hash_dict pl (fingerprint env d' (get_cache_file_path env name))
     then is_cache_available pl env c name d2 = (True, d2)
     else fst (is_cache_available pl env c name d2) = False \<and>
       \<not> path_exists (snd (is_cache_available pl env c name d2)) (get_cache_file_path env name) \<and>
       (\<forall>h. \<not> path_exists (snd (is_cache_available pl env c name d2)) (get_cache_file_path env (name @ ''.'' @ h))))"
proof -
  let ?p = "get_cache_file_path env name"
  note u = cache_usableD[OF assms(1)] and u2 = cache_usableD[OF assms(7)]
  define d1 where "d1 = write_file ?p (dumps pl v) (clear_recipe_cache env c name d)"
  define h where "h = hash_dict pl (fingerprint env d1 ?p)"
  have d': "d' = write_file (get_cache_file_path env (name @ ''.'' @ h)) (dumps pl (PStr h)) d1" and e: "e = None"
    using cache_save_usable[OF assms(1,2,4), of name] assms(6) by (auto simp: d1_def h_def)
  have st: "fingerprint env d' ?p = fingerprint env d1 ?p"
    using assms(5) by (simp add: d' stat_local_def fingerprint_def)
  have ex: "path_exists d' (get_cache_file_path env (name @ ''.'' @ k)) \<longleftrightarrow> k = h" for k
    by (auto simp: d' d1_def clear_recipe_cache_effect(2)[OF assms(1)])
  have "read_json_file pl d' ?p = v"
    using u(7)[of name] assms(3)
    by (simp add: read_json_file_def open_read_def d' d1_def files.fetch_store json_loads_dumps)
  then have rd: "read_from_cache pl env c name d' = v"
    using u(1) assms(2) by (simp add: read_from_cache_def recipe_cache_exists_def d' d1_def Let_def)
  define h2 where "h2 = hash_dict pl (fingerprint env d2 ?p)"
  have f2: "file_fingerprint_hash pl env d2 ?p = Inr h2"
    using assms(8) by (simp add: file_fingerprint_hash_def h2_def)
  have av: "is_cache_available pl env c name d2 =
      (if h2 = h then (True, d2) else (False, clear_recipe_cache env c name d2))"
    using ex[of h2] assms(9)[OF prefix_dot] u2(1) by (simp add: is_cache_available_def f2)
  show ?thesis
    unfolding st h2_def[symmetric] h_def[symmetric] av
    using e rd by (auto simp: clear_recipe_cache_effect(2)[OF assms(7)])
qed

definition demo_cache_platform :: platform where
  "demo_cache_platform = \<lparr>cannot_write = \<lambda>p. False, torn_write = \<lambda>p s. None, cannot_read = \<lambda>p. False, cannot_mkdir = \<lambda>p. False,
     float_repr = \<lambda>q. ''0.5'', float_parse = \<lambda>s. 1 / 2, sha256 = \<lambda>s. CHR ''h'' # s\<rparr>"

definition demo_cache_env :: cache_env where
  "demo_cache_env = \<lparr>sudo_user = None, user_var = Some ''me'', expanduser = \<lambda>s. [''home''], access_write = \<lambda>p. True,
     chown_error = \<lambda>p. None,
     os_stat = \<lambda>d p. (1 / 2, case read_file d p of Inr s \<Rightarrow> int (length s) | Inl e \<Rightarrow> 0),
     is_root = False, cannot_remove = \<lambda>p. False\<rparr>"

definition demo_cache :: cache where
  "demo_cache = \<lparr>use_cache = True, cache_valid = True, asct_output_folder = [], is_cache_writeable = True\<rparr>"

definition demo_cache_files :: files where
  "demo_cache_files = snd (makedirs (\<lambda>p. False) [''home'', ''.cache'', ''arm'', ''asct''] [])"

definition demo_cached :: files where
  "demo_cached = snd (cache_save demo_cache_platform demo_cache_env demo_cache ''c2c'' (PDict [(''a'', PInt 7)]) demo_cache_files)"

definition demo_touched :: files where
  "demo_touched = write_file (get_cache_file_path demo_cache_env ''c2c'') ''{}'' demo_cached"

lemma demo_usable: "cache_usable demo_cache_platform demo_cache_env demo_cache demo_cache_files"
  by (simp add: cache_usable_def demo_cache_def demo_cache_platform_def demo_cache_env_def demo_cache_files_def
      cache_directory_def home_directory_def ASCT_CACHE_DIR_def makedirs_def is_dir_def get_cache_file_path_def
      change_to_real_user_if_sudo_def)

theorem cache_detects_changes_witness:
  "read_from_cache demo_cache_platform demo_cache_env demo_cache ''c2c'' demo_cached = PDict [(''a'', PInt 7)] \<and>
   fst (is_cache_available demo_cache_platform demo_cache_env demo_cache ''c2c'' demo_touched) = False"
proof -
  let ?pl = demo_cache_platform and ?env = demo_cache_env and ?c = demo_cache and ?v = "PDict [(''a'', PInt 7)]"
  let ?p = "get_cache_file_path ?env ''c2c''"
  have sv: "cache_save ?pl ?env ?c ''c2c'' ?v demo_cache_files =
      (fst (cache_save ?pl ?env ?c ''c2c'' ?v demo_cache_files), demo_cached)"
    by (simp add: demo_cached_def)
  have sha: "sha256 ?pl x \<noteq> []" for x by (simp add: demo_cache_platform_def)
  have u: "cache_usable ?pl ?env ?c demo_cached" "cache_usable ?pl ?env ?c demo_touched"
    unfolding demo_touched_def demo_cached_def
    using cache_save_usable[OF demo_usable _ sha, of ?v "''c2c''"] demo_usable
    by (simp_all add: write_keeps_usable clear_keeps_usable)
  have ex: "path_exists demo_touched ?p" by (simp add: demo_touched_def)
  have st: "stat_local ?env ?p" by (auto simp: stat_local_def demo_cache_env_def files.fetch_store)
  have same: "path_exists demo_touched (get_cache_file_path ?env f) = path_exists demo_cached (get_cache_file_path ?env f)"
    if "prefix (''c2c'' @ ''.'') f" for f
    using that by (auto simp: demo_touched_def)
  have ne: "hash_dict ?pl (fingerprint ?env demo_touched ?p) \<noteq> hash_dict ?pl (fingerprint ?env demo_cached ?p)"
    by code_simp
  have v: "truthy ?v" "jsonable ?pl ?v" by simp_all
  from cache_detects_changes[OF demo_usable v sha st sv u(2) ex same] ne
  show ?thesis by (auto split: if_splits)
qed

section \<open>The machine's files\<close>

lemma map_of_filter_prefix: "map_of (filter (\<lambda>(q, _). \<not> prefix p q) d) q = (if prefix p q then None else map_of d q)"
  by (induction d) auto

lemma is_dir_rmtree: "is_dir (rmtree p d) q \<longleftrightarrow> q = [] \<or> \<not> prefix p q \<and> is_dir d q"
  by (auto simp: is_dir_def rmtree_def map_of_filter_prefix)

lemma exists_rmtree: "path_exists (rmtree p d) q \<longleftrightarrow> q = [] \<or> \<not> prefix p q \<and> path_exists d q"
  by (force simp: path_exists_def rmtree_def)

lemma wf_fs_rmtree:
  assumes "wf_fs d"
  shows "wf_fs (rmtree p d)"
proof -
  have "\<not> prefix p (butlast q)" if "\<not> prefix p q" for q
    using that by (metis butlast_conv_take take_is_prefix prefix_order.trans)
  then show ?thesis using assms
    by (auto simp: wf_fs_def is_dir_rmtree rmtree_def[of p d] distinct_map_filter)
      (auto simp: is_dir_rmtree simp flip: rmtree_def)
qed

lemma emptied_cache_dir:
  assumes "wf_fs d" "cache_usable pl env c d" "\<not> cannot_remove env (cache_directory env)"
    "\<not> cannot_mkdir pl (cache_directory env)" "change_to_real_user_if_sudo env (cache_directory env) = None"
  shows "\<exists>d1. clear_asct_cache pl env c True d = (None, d1) \<and> wf_fs d1 \<and> cache_usable pl env c d1 \<and>
    (\<forall>f. \<not> path_exists d1 (get_cache_file_path env f))"
proof (cases "listdir d (cache_directory env) = []")
  case True
  then have "clear_asct_cache pl env c True d = (None, d)" by (simp add: clear_asct_cache_def Let_def)
  then show ?thesis using assms(1,2) True listdir_iff[of _ d env] by auto
next
  case False
  let ?C = "cache_directory env" and ?d = "rmtree (cache_directory env) d"
  note u = cache_usableD[OF assms(2)]
  have C: "?C \<noteq> []" by (simp add: cache_directory_def ASCT_CACHE_DIR_def)
  have "is_dir d (butlast ?C)" using wf_fsD[OF assms(1) is_dir_key[OF u(3) C]] by simp
  moreover have "0 < length ?C" "length (butlast ?C) = length ?C - 1" using C by auto
  then have "\<not> prefix ?C (butlast ?C)" using prefix_length_le[of ?C "butlast ?C"] by linarith
  ultimately have "is_dir ?d (butlast ?C)" by (simp add: is_dir_rmtree)
  moreover have "\<not> path_exists ?d ?C" using C by (simp add: exists_rmtree)
  ultimately have mk: "makedirs (cannot_mkdir pl) ?C ?d = (None, dset ?C Dir ?d)"
    using makedirs_one[OF wf_fs_rmtree[OF assms(1)] C] assms(4) by simp
  have pre: "prefix ?C (get_cache_file_path env f)" for f by (simp add: get_cache_file_path_def)
  have "clear_asct_cache pl env c True d = (None, dset ?C Dir ?d)"
    using u(2,3) False assms(3,5) mk is_dir_exists[OF u(3)]
    by (simp add: clear_asct_cache_def create_asct_cache_dir_def make_cache_dir_def swallow_def Let_def)
  moreover have "cache_usable pl env c (dset ?C Dir ?d)"
    using assms(2) pre unfolding cache_usable_def Let_def by (simp add: is_dir_rmtree)
  moreover have "wf_fs (dset ?C Dir ?d)"
    using wf_fs_Dir[OF wf_fs_rmtree[OF assms(1)] C] \<open>is_dir ?d (butlast ?C)\<close> by blast
  ultimately show ?thesis using pre by (simp add: exists_rmtree)
qed

lemma wf_fs_remove_file:
  assumes "wf_fs d" "\<not> is_dir d p"
  shows "wf_fs (remove_file p d)"
proof -
  have k: "set (dkeys (remove_file p d)) \<subseteq> set (dkeys d)" by (auto simp: remove_file_def)
  have "q \<noteq> [] \<and> is_dir (remove_file p d) (butlast q)" if "q \<in> set (dkeys (remove_file p d))" for q
    using subsetD[OF k that] wf_fsD[OF assms(1), of q] is_dir_remove_file[OF assms(2)] by simp
  then show ?thesis using assms(1) by (simp add: wf_fs_def remove_file_def)
qed

lemma wf_fs_os_remove: "wf_fs d \<Longrightarrow> wf_fs (snd (os_remove env d p))"
  by (simp add: os_remove_def wf_fs_remove_file)

lemma wf_fs_clear_recipe_cache: "wf_fs d \<Longrightarrow> wf_fs (clear_recipe_cache env c name d)"
proof -
  assume w: "wf_fs d"
  have r: "wf_fs d1 \<Longrightarrow> wf_fs (remove_fingerprints env fs d1)" for fs d1
    by (induction fs arbitrary: d1) (simp_all add: wf_fs_os_remove)
  have "wf_fs (snd (if path_exists d (get_cache_file_path env name) then os_remove env d (get_cache_file_path env name) else (None, d)))"
    using w wf_fs_os_remove by simp
  then show ?thesis using w r by (auto simp: clear_recipe_cache_def Let_def split: prod.splits option.splits)
qed

text \<open>The cache directory and everything in it can be read, written and removed.\<close>

definition cache_sound :: "platform \<Rightarrow> cache_env \<Rightarrow> cache \<Rightarrow> files \<Rightarrow> bool" where
  "cache_sound pl env c d \<longleftrightarrow> wf_fs d \<and> cache_usable pl env c d \<and> \<not> cannot_remove env (cache_directory env) \<and>
     \<not> cannot_mkdir pl (cache_directory env) \<and> change_to_real_user_if_sudo env (cache_directory env) = None \<and>
     (\<forall>x. sha256 pl x \<noteq> [])"

lemma cache_sound_flags: "cache_sound pl env (c\<lparr>cache_valid := b\<rparr>) d = cache_sound pl env c d"
  by (simp add: cache_sound_def cache_usable_def)

lemma cache_sound_write:
  "cache_sound pl env c d \<Longrightarrow> cache_sound pl env c (write_file (get_cache_file_path env f) s d)"
  unfolding cache_sound_def write_file_def[symmetric]
  using wf_fs_File[of d "get_cache_file_path env f" s] cache_usableD(3,4)[of pl env c d] write_keeps_usable[of pl env c d f s]
  by (simp add: write_file_def)

lemma cache_sound_clear:
  "cache_sound pl env c d \<Longrightarrow> cache_sound pl env c (clear_recipe_cache env c name d)"
  by (simp add: cache_sound_def wf_fs_clear_recipe_cache clear_keeps_usable)

definition in_cache :: "cache_env \<Rightarrow> files \<Rightarrow> string \<Rightarrow> bool" where
  "in_cache env d f \<longleftrightarrow> path_exists d (get_cache_file_path env f)"

lemma in_cache_write [simp]: "in_cache env (write_file (get_cache_file_path env g) s d) f \<longleftrightarrow> f = g \<or> in_cache env d f"
  by (simp add: in_cache_def)

lemma in_cache_clear:
  "cache_sound pl env c d \<Longrightarrow> in_cache env (clear_recipe_cache env c name d) f \<longleftrightarrow> in_cache env d f \<and> \<not> own_entry name f"
  by (auto simp: in_cache_def cache_sound_def clear_recipe_cache_effect(2))

lemma cache_save_sound:
  assumes "cache_sound pl env c d" "truthy v" "cache_save pl env c name v d = (e, d')"
  shows "e = None \<and> cache_sound pl env c d' \<and>
    (\<exists>h. \<forall>f. in_cache env d' f \<longleftrightarrow> f = name \<or> f = name @ ''.'' @ h \<or> in_cache env d f \<and> \<not> own_entry name f)"
proof -
  have u: "cache_usable pl env c d" "\<And>x. sha256 pl x \<noteq> []" using assms(1) by (simp_all add: cache_sound_def)
  from cache_save_usable[OF u(1) assms(2) u(2), of name] obtain h s s' where
    d': "d' = write_file (get_cache_file_path env (name @ ''.'' @ h)) s'
       (write_file (get_cache_file_path env name) s (clear_recipe_cache env c name d))" and e: "e = None"
    using assms(3) by auto
  have "cache_sound pl env c d'" unfolding d' by (intro cache_sound_write cache_sound_clear assms(1))
  moreover have "in_cache env d' f \<longleftrightarrow> f = name \<or> f = name @ ''.'' @ h \<or> in_cache env d f \<and> \<not> own_entry name f" for f
    by (auto simp: d' in_cache_clear[OF assms(1)])
  ultimately show ?thesis using e by blast
qed

lemma is_cache_available_sound:
  assumes "cache_sound pl env c d" "is_cache_available pl env c name d = (b, d')"
  shows "cache_sound pl env c d' \<and> ((\<forall>f. in_cache env d' f = in_cache env d f) \<or>
    (\<forall>f. in_cache env d' f \<longleftrightarrow> in_cache env d f \<and> \<not> own_entry name f))"
proof -
  have "d' = d \<or> d' = clear_recipe_cache env c name d"
    using assms(2) by (auto simp: is_cache_available_def Let_def split: if_splits sum.splits)
  then show ?thesis using assms(1) cache_sound_clear in_cache_clear by blast
qed

section \<open>The cache over many runs\<close>

text \<open>
  Machines are told apart by the digest of their hardware and, for the superuser, of their
  memory.  \<open>distinct_digests\<close>: of the machines \<open>M\<close> and the recipes \<open>N\<close> at hand, no digest of a
  memory is one of a hardware, and no name or name with a dot and more behind it is a digest
  or belongs to another recipe.
\<close>

definition hw_digest :: "platform \<Rightarrow> system_info \<Rightarrow> string" where
  "hw_digest pl s = hash_dict pl (si_sys_hw s)"

definition mem_digest :: "platform \<Rightarrow> system_info \<Rightarrow> string" where
  "mem_digest pl s = hash_dict pl (si_memory s)"

definition same_machine :: "platform \<Rightarrow> cache_env \<Rightarrow> system_info \<Rightarrow> system_info \<Rightarrow> bool" where
  "same_machine pl env s s' \<longleftrightarrow> hw_digest pl s = hw_digest pl s' \<and> (is_root env \<longrightarrow> mem_digest pl s = mem_digest pl s')"

definition distinct_digests :: "platform \<Rightarrow> system_info set \<Rightarrow> string set \<Rightarrow> bool" where
  "distinct_digests pl M N \<longleftrightarrow> (\<forall>s \<in> M. si_memory s \<noteq> [] \<and> si_sys_hw s \<noteq> []) \<and>
     (\<forall>s \<in> M. \<forall>s' \<in> M. mem_digest pl s \<noteq> hw_digest pl s') \<and>
     (\<forall>n \<in> N. (\<forall>x. \<not> own_entry n (sha256 pl x)) \<and> (\<forall>n' \<in> N. own_entry n n' \<longrightarrow> n = n'))"

text \<open>
  What happens to the cache: runs start on one machine or another, each with a new object for
  the cache, results are saved, and entries are checked before they are used.  The last two
  components of the state record the machine of the present run and, for every recipe, the
  machine on which its results were saved last.
\<close>

type_synonym cache_life = "cache \<times> files \<times> system_info option \<times> (string \<Rightarrow> system_info option)"

inductive cache_history :: "platform \<Rightarrow> cache_env \<Rightarrow> system_info set \<Rightarrow> string set \<Rightarrow> cache \<Rightarrow> files \<Rightarrow> cache_life \<Rightarrow> bool"
  for pl env M N c0 d0 where
  at_first: "cache_history pl env M N c0 d0 (c0, d0, None, \<lambda>n. None)"
| run_starts: "cache_history pl env M N c0 d0 (c, d, cur, saver) \<Longrightarrow> si \<in> M \<Longrightarrow>
    refresh_cache pl env c0 si d = ((None, d1), c1) \<Longrightarrow> save_cache_validator pl env c1 si d1 = (None, d2) \<Longrightarrow>
    cache_history pl env M N c0 d0 (c1, d2, Some si, saver)"
| result_saved: "cache_history pl env M N c0 d0 (c, d, Some si, saver) \<Longrightarrow> name \<in> N \<Longrightarrow> truthy v \<Longrightarrow>
    cache_save pl env c name v d = (e, d') \<Longrightarrow> cache_history pl env M N c0 d0 (c, d', Some si, saver(name \<mapsto> si))"
| entry_checked: "cache_history pl env M N c0 d0 (c, d, cur, saver) \<Longrightarrow> name \<in> N \<Longrightarrow>
    is_cache_available pl env c name d = (b, d') \<Longrightarrow> cache_history pl env M N c0 d0 (c, d', cur, saver)"

text \<open>The directory is empty, or its validators are those of one machine, which saved all that is in it.\<close>

definition owned :: "platform \<Rightarrow> cache_env \<Rightarrow> string set \<Rightarrow> files \<Rightarrow> (string \<Rightarrow> system_info option) \<Rightarrow> system_info \<Rightarrow> bool" where
  "owned pl env N d saver a \<longleftrightarrow> (\<forall>x. in_cache env d (sha256 pl x) \<longleftrightarrow> sha256 pl x \<in> {mem_digest pl a, hw_digest pl a}) \<and>
     (\<forall>n \<in> N. in_cache env d n \<longrightarrow> (\<exists>s. saver n = Some s \<and> same_machine pl env s a))"

definition history_inv :: "platform \<Rightarrow> cache_env \<Rightarrow> system_info set \<Rightarrow> string set \<Rightarrow> cache \<Rightarrow> cache_life \<Rightarrow> bool" where
  "history_inv pl env M N c0 st = (case st of (c, d, cur, saver) \<Rightarrow> cache_sound pl env c d \<and> (\<exists>b. c = c0\<lparr>cache_valid := b\<rparr>) \<and>
     (case cur of None \<Rightarrow> \<forall>f. \<not> in_cache env d f
      | Some si \<Rightarrow> \<exists>a \<in> M. owned pl env N d saver a \<and> same_machine pl env si a))"

lemma digests_are_sha: "\<exists>x. hw_digest pl s = sha256 pl x" "\<exists>x. mem_digest pl s = sha256 pl x"
  by (auto simp: hw_digest_def mem_digest_def hash_dict_def)

lemma name_no_digest:
  assumes "distinct_digests pl M N" "n \<in> N"
  shows "n \<noteq> hw_digest pl s" "n \<noteq> mem_digest pl s"
proof -
  have "n \<noteq> sha256 pl x" for x using assms own_entries(1)[of n] unfolding distinct_digests_def by metis
  then show "n \<noteq> hw_digest pl s" "n \<noteq> mem_digest pl s" using digests_are_sha by metis+
qed

lemma valid_iff: "fst (is_asct_cache_valid pl env c s d) \<longleftrightarrow>
    in_cache env d (hw_digest pl s) \<and> (is_root env \<longrightarrow> in_cache env d (mem_digest pl s))"
  by (auto simp: is_asct_cache_valid_def in_cache_def hw_digest_def mem_digest_def)

lemma owned_valid_iff:
  assumes "distinct_digests pl M N" "a \<in> M" "s \<in> M" "owned pl env N d saver a"
  shows "fst (is_asct_cache_valid pl env c s d) \<longleftrightarrow> same_machine pl env s a"
proof -
  have "in_cache env d (hw_digest pl s) \<longleftrightarrow> hw_digest pl s = hw_digest pl a"
    using assms digests_are_sha(1)[of pl s] unfolding owned_def distinct_digests_def by force
  moreover have "in_cache env d (mem_digest pl s) \<longleftrightarrow> mem_digest pl s = mem_digest pl a"
    using assms digests_are_sha(2)[of pl s] unfolding owned_def distinct_digests_def by force
  ultimately show ?thesis unfolding valid_iff same_machine_def by simp
qed

text \<open>An invalid cache is emptied and gets the validators of the machine at hand.\<close>

lemma invalid_cache_replaced:
  assumes "cache_sound pl env c d" "\<not> fst (is_asct_cache_valid pl env c si d)" "si_memory si \<noteq> []" "si_sys_hw si \<noteq> []"
    and "refresh_cache pl env c si d = ((e1, d1), c1)" "save_cache_validator pl env c1 si d1 = (e2, d2)"
  shows "c1 = c\<lparr>cache_valid := False\<rparr>" "e1 = None" "e2 = None" "cache_sound pl env c1 d2"
    "in_cache env d2 f \<longleftrightarrow> f \<in> {mem_digest pl si, hw_digest pl si}"
proof -
  note snd = assms(1)[unfolded cache_sound_def]
  show c1: "c1 = c\<lparr>cache_valid := False\<rparr>"
    using assms(2,5) cache_usableD(1)[of pl env c d] snd by (auto simp: refresh_cache_def is_asct_cache_valid_def split: if_splits)
  have "clear_asct_cache pl env (c\<lparr>cache_valid := False\<rparr>) True d = (e1, d1)"
    using assms(2,5) cache_usableD(1)[of pl env c d] snd by (auto simp: refresh_cache_def is_asct_cache_valid_def split: if_splits)
  then have r: "clear_asct_cache pl env c True d = (e1, d1)"
    by (auto simp: clear_asct_cache_def create_asct_cache_dir_def Let_def split: if_splits)
  from emptied_cache_dir[of d pl env c] snd r have
    e1: "e1 = None" and u: "wf_fs d1" "cache_usable pl env c d1" and none: "\<And>f. \<not> in_cache env d1 f"
    by (auto simp: in_cache_def)
  have s1: "cache_sound pl env c1 d1" using u snd unfolding cache_sound_def cache_usable_def c1 by simp
  then have u1: "cache_usable pl env c1 d1" by (simp add: cache_sound_def)
  have d2: "d2 = write_file (get_cache_file_path env (hw_digest pl si)) (dumps pl (PDict (si_sys_hw si)))
      (write_file (get_cache_file_path env (mem_digest pl si)) (dumps pl (PDict (si_memory si))) d1)" and e2: "e2 = None"
    using assms(3,4,6) cache_usableD(1,2)[OF u1] write_to_cache_usable[OF u1] write_to_cache_usable[OF write_keeps_usable[OF u1]]
    by (auto simp: save_cache_validator_def c1 hw_digest_def mem_digest_def simp del: json_dumps.simps)
  show "e1 = None" "e2 = None" by (rule e1, rule e2)
  show "cache_sound pl env c1 d2" unfolding d2 by (intro cache_sound_write s1)
  show "in_cache env d2 f \<longleftrightarrow> f \<in> {mem_digest pl si, hw_digest pl si}"
    using none[of f] by (auto simp: d2 simp del: json_dumps.simps)
qed

lemma valid_cache_kept:
  assumes "fst (is_asct_cache_valid pl env c si d)" "cache_valid c" "refresh_cache pl env c si d = ((e1, d1), c1)"
    "save_cache_validator pl env c1 si d1 = (e2, d2)"
  shows "c1 = c \<and> d2 = d"
proof -
  have "is_asct_cache_valid pl env c si d = (True, c)"
    using assms(1) by (auto simp: is_asct_cache_valid_def split: if_splits)
  then have "c1 = c" "d1 = d" using assms(3) by (auto simp: refresh_cache_def split: if_splits)
  then show ?thesis using assms(2,4) by (simp add: save_cache_validator_def)
qed

lemma same_machine_trans: "same_machine pl env s a \<Longrightarrow> same_machine pl env s' a \<Longrightarrow> same_machine pl env s s'"
  by (auto simp: same_machine_def)

lemma same_machine_refl [simp]: "same_machine pl env s s"
  by (simp add: same_machine_def)

lemma cache_history_inv:
  assumes "cache_sound pl env c0 d0" "cache_valid c0" "\<And>f. \<not> in_cache env d0 f" "distinct_digests pl M N"
  shows "cache_history pl env M N c0 d0 st \<Longrightarrow> history_inv pl env M N c0 st"
proof (induction rule: cache_history.induct)
  case at_first
  then show ?case using assms(1-3) by (auto simp: history_inv_def intro: exI[of _ True])
next
  case (run_starts c d cur saver si d1 c1 d2)
  have s0: "cache_sound pl env c0 d" using run_starts.IH by (auto simp: history_inv_def cache_sound_flags)
  have ne: "si_memory si \<noteq> []" "si_sys_hw si \<noteq> []" using assms(4) run_starts.hyps(2) by (auto simp: distinct_digests_def)
  show ?case
  proof (cases "fst (is_asct_cache_valid pl env c0 si d)")
    case False
    note r = invalid_cache_replaced[OF s0 False ne run_starts.hyps(3,4)]
    have "\<not> in_cache env d2 n" if "n \<in> N" for n
      using name_no_digest[OF assms(4) that] r(5)[of n] by simp
    then have "owned pl env N d2 saver si" using r(5) by (simp add: owned_def)
    then show ?thesis using r(1,4) run_starts.hyps(2) by (auto simp: history_inv_def)
  next
    case True
    have k: "c1 = c0" "d2 = d" using valid_cache_kept[OF True assms(2) run_starts.hyps(3,4)] by simp_all
    have "cur \<noteq> None" using True run_starts.IH by (cases cur) (auto simp: history_inv_def valid_iff)
    then obtain a where a: "a \<in> M" "owned pl env N d saver a" using run_starts.IH by (auto simp: history_inv_def)
    have "same_machine pl env si a" using owned_valid_iff[OF assms(4) a(1) run_starts.hyps(2) a(2)] True by simp
    then show ?thesis using a s0 assms(2) unfolding k history_inv_def by (auto intro: exI[of _ True])
  qed
next
  case (result_saved c d si saver name v e d')
  from result_saved.IH obtain a where s: "cache_sound pl env c d" and b: "\<exists>b. c = c0\<lparr>cache_valid := b\<rparr>"
    and a: "a \<in> M" "owned pl env N d saver a" "same_machine pl env si a" by (auto simp: history_inv_def)
  from cache_save_sound[OF s result_saved.hyps(3,4)] obtain h where s': "cache_sound pl env c d'"
    and h: "\<And>f. in_cache env d' f \<longleftrightarrow> f = name \<or> f = name @ ''.'' @ h \<or> in_cache env d f \<and> \<not> own_entry name f" by blast
  have sha: "\<not> own_entry name (sha256 pl x)" for x using assms(4) result_saved.hyps(2) by (auto simp: distinct_digests_def)
  have nm: "own_entry name n \<Longrightarrow> n = name" if "n \<in> N" for n
    using assms(4) result_saved.hyps(2) that by (auto simp: distinct_digests_def)
  have "in_cache env d' (sha256 pl x) = in_cache env d (sha256 pl x)" for x
    using h[of "sha256 pl x"] sha[of x] own_entries[of name] by (auto simp: eq_commute)
  moreover have "\<exists>s. (saver(name \<mapsto> si)) n = Some s \<and> same_machine pl env s a" if "n \<in> N" "in_cache env d' n" for n
    using h[of n] nm[OF that(1)] own_entries(2)[of name h] a(2,3) that unfolding owned_def by (cases "n = name") auto
  ultimately have "owned pl env N d' (saver(name \<mapsto> si)) a"
    using a(2) unfolding owned_def by simp
  then show ?case using s' b a(1,3) by (auto simp: history_inv_def)
next
  case (entry_checked c d cur saver name b d')
  from entry_checked.IH have s: "cache_sound pl env c d" and b: "\<exists>b. c = c0\<lparr>cache_valid := b\<rparr>" by (auto simp: history_inv_def)
  note ch = is_cache_available_sound[OF s entry_checked.hyps(3)]
  have sha: "\<not> own_entry name (sha256 pl x)" for x using assms(4) entry_checked.hyps(2) by (auto simp: distinct_digests_def)
  have o: "owned pl env N d' saver a" if "owned pl env N d saver a" for a
    using that ch sha unfolding owned_def by blast
  show ?case
  proof (cases cur)
    case None
    then show ?thesis using entry_checked.IH ch b by (auto simp: history_inv_def)
  next
    case (Some si)
    then show ?thesis using entry_checked.IH ch b o by (auto simp: history_inv_def)
  qed
qed


definition demo_system :: system_info where
  "demo_system = \<lparr>si_memory = [(''size'', PInt 8)], si_sys_hw = [(''cores'', PInt 4)]\<rparr>"

definition demo_larger :: system_info where
  "demo_larger = demo_system\<lparr>si_sys_hw := [(''cores'', PInt 64)]\<rparr>"

definition demo_start :: "system_info \<Rightarrow> files \<Rightarrow> (exc option \<times> exc option) \<times> cache \<times> files" where
  "demo_start si d = (case refresh_cache demo_cache_platform demo_cache_env demo_cache si d of
     ((e1, d1), c1) \<Rightarrow> (case save_cache_validator demo_cache_platform demo_cache_env c1 si d1 of
        (e2, d2) \<Rightarrow> ((e1, e2), c1, d2)))"

definition demo_first :: files where
  "demo_first = snd (snd (demo_start demo_system demo_cache_files))"

definition demo_stored :: "exc option \<times> files" where
  "demo_stored = cache_save demo_cache_platform demo_cache_env (fst (snd (demo_start demo_system demo_cache_files))) ''c2c''
     (PDict [(''a'', PInt 7)]) demo_first"

definition demo_moved :: files where
  "demo_moved = snd (snd (demo_start demo_larger (snd demo_stored)))"

lemma demo_started:
  "fst (demo_start demo_system demo_cache_files) = (None, None)"
  "fst (demo_start demo_larger (snd demo_stored)) = (None, None)"
  "in_cache demo_cache_env (snd demo_stored) ''c2c''"
  by code_simp+

lemma demo_start_step:
  assumes "cache_history demo_cache_platform demo_cache_env M N demo_cache d0 (c, d, cur, saver)" "si \<in> M"
    "fst (demo_start si d) = (None, None)"
  shows "cache_history demo_cache_platform demo_cache_env M N demo_cache d0
    (fst (snd (demo_start si d)), snd (snd (demo_start si d)), Some si, saver)"
  using run_starts[OF assms(1,2)] assms(3) by (auto simp: demo_start_def split: prod.splits)


text \<open>
  The handler for write errors in \<open>write_to_cache\<close> is never reached: \<open>write_to_file\<close> has
  already turned them into the end of the program.
\<close>

text \<open>
  A cache file that cannot be written does not cost the cache entry only: saving a
  recipe ends the program with status 1, although the cache is an optional copy.
\<close>

theorem unwritable_cache_file_exits:
  assumes "use_cache c" "is_cache_writeable c" "truthy v" "cannot_write pl (get_cache_file_path env name)"
  shows "cache_save pl env c name v d = (Some (Exc SystemExit ''1''), clear_recipe_cache env c name d)"
  using assms by (simp add: cache_save_def write_to_cache_def write_to_file_def swallow_def caught_def)

theorem unwritable_cache_file_exits_witness:
  "fst (cache_save (demo_cache_platform\<lparr>cannot_write := \<lambda>p. True\<rparr>) demo_cache_env demo_cache ''c2c'' (PInt 1) demo_cache_files) =
     Some (Exc SystemExit ''1'')"
  using unwritable_cache_file_exits[of demo_cache "PInt 1" "demo_cache_platform\<lparr>cannot_write := \<lambda>p. True\<rparr>" demo_cache_env "''c2c''"]
  by (simp add: demo_cache_def)

end
