(* ===== verification/Run_Command.thy ===== *)
theory Run_Command
  imports Resume Cache
begin

text \<open>
  The outputs of a run, from \<open>src/core/cmd/helpers/run_helpers.py\<close>, and what the commands
  \<open>run\<close> and \<open>resume\<close> make of the parts: every result is written as soon as it is there, so
  that a run that stops anywhere can be resumed.
\<close>

section \<open>Outputs\<close>

text \<open>The rows of the tables of skipped and of failed benchmarks, with their headings.\<close>

definition failure_entries :: "(string, string) dict \<Rightarrow> (string, string) dict \<Rightarrow> bool \<Rightarrow> (string \<times> string) list \<times> (string \<times> string) list" where
  "failure_entries skipped_benchmarks failed_benchmarks use_stdout =
     ((if skipped_benchmarks = [] then []
       else (if use_stdout then (''Skipped benchmark'', ''Reason'') else (''Skipped benchmarks'', [])) # skipped_benchmarks),
      (if failed_benchmarks = [] then []
       else (if use_stdout then (''Failed benchmark'', ''Failure'') else (''Failed benchmarks'', [])) # failed_benchmarks))"

text \<open>The lines of the log: a heading has no text after it, a row is aligned.\<close>

definition log_lines :: "(string \<times> string) list \<Rightarrow> string list" where
  "log_lines entries = (let max_length = foldl max 0 (map (\<lambda>e. length (fst e)) entries) in
     map (\<lambda>(name, failure). if failure \<noteq> [] then ljust max_length name @ '': '' @ failure else name) entries)"

text \<open>What a benchmark can print of its results.\<close>

record reports =
  rp_name :: string
  rp_category :: string
  rp_csv :: "string res"
  rp_json :: "string res"
  rp_dict :: "pv res"

definition report_path :: "path \<Rightarrow> string \<Rightarrow> path" where
  "report_path output_dir f = output_dir @ [f]"

fun output_csv :: "platform \<Rightarrow> path \<Rightarrow> (string, reports) dict \<Rightarrow> files \<Rightarrow> exc option \<times> files" where
  "output_csv pl output_dir [] d = (None, d)"
| "output_csv pl output_dir ((name, benchmark) # bs) d = (case rp_csv benchmark of
     Inl e \<Rightarrow> (Some e, d)
   | Inr csv \<Rightarrow> (case write_to_file pl d (report_path output_dir (name @ ''.csv'')) csv of
       (Some e, d') \<Rightarrow> (Some e, d')
     | (None, d') \<Rightarrow> output_csv pl output_dir bs d'))"

text \<open>The nested report: reports stand on the top level, all others under their category.\<close>

fun json_report :: "(string, reports) dict \<Rightarrow> pdict \<Rightarrow> pdict res" where
  "json_report [] out_dict = Inr out_dict"
| "json_report ((name, benchmark) # bs) out_dict = bindr (rp_dict benchmark) (\<lambda>v.
     if rp_category benchmark = ''report'' then json_report bs (dset name v out_dict)
     else case dget out_dict (rp_category benchmark) (PDict []) of
         PDict grp \<Rightarrow> json_report bs (dset (rp_category benchmark) (PDict (dset name v grp)) out_dict)
       | _ \<Rightarrow> Inl (Exc TypeError ''object does not support item assignment''))"

definition output_json :: "platform \<Rightarrow> path \<Rightarrow> (string, reports) dict \<Rightarrow> files \<Rightarrow> exc option \<times> files" where
  "output_json pl output_dir completed_benchmarks d = (case json_report completed_benchmarks [] of
     Inl e \<Rightarrow> (Some e, d)
   | Inr out_dict \<Rightarrow> write_to_file pl d (report_path output_dir ''report.json'') (dumps pl (PDict out_dict)))"

definition write_benchmark_output_file :: "platform \<Rightarrow> string \<Rightarrow> path \<Rightarrow> reports \<Rightarrow> files \<Rightarrow> exc option \<times> files" where
  "write_benchmark_output_file pl format output_dir benchmark d =
     (if format = ''csv'' then
        (case rp_csv benchmark of Inl e \<Rightarrow> (Some e, d)
         | Inr csv \<Rightarrow> write_to_file pl d (report_path output_dir (rp_name benchmark @ ''.csv'')) csv)
      else if format = ''json'' then
        (case rp_json benchmark of Inl e \<Rightarrow> (Some e, d)
         | Inr json \<Rightarrow> write_to_file pl d (report_path output_dir (rp_name benchmark @ ''.json'')) json)
      else (None, d))"

text \<open>Restored results are not saved again; new ones go to the cache, to the directory of raw
  results and to the output file.\<close>

definition write_benchmark_result :: "platform \<Rightarrow> cache_env \<Rightarrow> cache \<Rightarrow> string list \<Rightarrow> pdict \<Rightarrow> ('df \<Rightarrow> pv) \<Rightarrow> reg_heap \<Rightarrow>
    string \<Rightarrow> path \<Rightarrow> string \<Rightarrow> 'df recipe_obj \<Rightarrow> pv \<Rightarrow> reports \<Rightarrow> files \<Rightarrow> exc option \<times> files" where
  "write_benchmark_result pl env c order fields_json to_dict h format output_dir name r cache_results rp d =
     (if rb_from_saved_output r then write_benchmark_output_file pl format output_dir rp d
      else case cache_save pl env c name cache_results d of
        (Some e, d1) \<Rightarrow> (Some e, d1)
      | (None, d1) \<Rightarrow>
          (case save_benchmark_result pl order fields_json to_dict h output_dir name r d1 of
             (Some e, d2) \<Rightarrow> (Some e, d2)
           | (None, d2) \<Rightarrow> write_benchmark_output_file pl format output_dir rp d2))"

text \<open>The final output in the order of the recipe table; for the terminal only names and
  failures are modelled.\<close>

definition output_files :: "platform \<Rightarrow> string list \<Rightarrow> string \<Rightarrow> path \<Rightarrow> (string, reports) dict \<Rightarrow> (string, string) dict \<Rightarrow>
    (string, string) dict \<Rightarrow> files \<Rightarrow> exc option \<times> files" where
  "output_files pl order format output_dir completed skipped failed d =
     (let completed' = sort_for_output order completed in
      if format = ''csv'' then output_csv pl output_dir completed' d
      else if format = ''json'' then output_json pl output_dir completed' d
      else (None, d))"

definition output_diff :: "platform \<Rightarrow> string \<Rightarrow> path \<Rightarrow> string res \<Rightarrow> string res \<Rightarrow> files \<Rightarrow> exc option \<times> files" where
  "output_diff pl format output_dir csv json d =
     (if format = ''json'' then (case json of Inl e \<Rightarrow> (Some e, d) | Inr s \<Rightarrow> write_to_file pl d (report_path output_dir ''diff.json'') s)
      else if format = ''csv'' then (case csv of Inl e \<Rightarrow> (Some e, d) | Inr s \<Rightarrow> write_to_file pl d (report_path output_dir ''diff.csv'') s)
      else (None, d))"

section \<open>Saved results and other files\<close>

definition file_content :: "files \<Rightarrow> path \<Rightarrow> string option" where
  "file_content d p = (case read_file d p of Inr c \<Rightarrow> Some c | Inl e \<Rightarrow> None)"

text \<open>The files that the check of saved results reads.\<close>

definition saved_view :: "files \<Rightarrow> path \<Rightarrow> string \<Rightarrow> string option list" where
  "saved_view d out name = map (\<lambda>f. file_content d (recipe_raw_dir out name @ [f]))
     [''data.json'', ''summary.json'', ''metadata.json'', ''.hash'']"

lemma present_files_view:
  "present_files d out name = concat (map (\<lambda>f. case file_content d (recipe_raw_dir out name @ [f]) of
     Some s \<Rightarrow> [(f, s)] | None \<Rightarrow> []) [''data.json'', ''summary.json'', ''metadata.json''])"
  by (auto simp: present_files_def file_content_def split: sum.splits)

lemma has_valid_view:
  assumes "readable_dir pl out name" "saved_view d out name = saved_view d' out name"
  shows "has_valid_saved_recipe pl d out name = has_valid_saved_recipe pl d' out name"
proof -
  have p: "present_files d out name = present_files d' out name"
    using assms(2) by (simp add: present_files_view saved_view_def)
  have "file_content d (hash_path out name) = file_content d' (hash_path out name)"
    using assms(2) by (simp add: saved_view_def path_defs)
  then have "(\<exists>h. read_file d (hash_path out name) = Inr h \<and> P h) = (\<exists>h. read_file d' (hash_path out name) = Inr h \<and> P h)" for P
    by (auto simp: file_content_def split: sum.splits)
  then show ?thesis by (simp add: has_valid_iff[OF assms(1)] p)
qed

lemma mkdirs_content: "file_content (snd (mkdirs deny pre cs d)) q = file_content d q"
proof (induction deny pre cs d rule: mkdirs.induct)
  case (2 deny pre c cs d)
  have "file_content (dset (pre @ [c]) Dir d) q = file_content d q" if "map_of d (pre @ [c]) = None"
    using that by (auto simp: file_content_def read_file_def)
  with 2 show ?case
    by (cases "map_of d (pre @ [c])") (auto simp: Let_def split: fnode.splits)
qed simp

lemma write_file_content: "file_content (write_file p s d) q = (if q = p then Some s else file_content d q)"
  by (simp add: file_content_def files.fetch_store)

lemma write_all_content:
  "write_all pl d ps = (x, d') \<Longrightarrow> q \<notin> fst ` set ps \<Longrightarrow> file_content d' q = file_content d q"
proof (induction ps arbitrary: d)
  case (Cons a ps)
  then show ?case
    by (cases a) (auto simp: write_to_file_def write_file_content split: prod.splits option.splits if_splits)
qed simp

text \<open>Saving one benchmark touches no other file, even when it fails.\<close>

lemma save_data_content:
  assumes "save_data pl order fj out name data d = (x, d')" "\<And>f. q \<noteq> recipe_raw_dir out name @ [f]"
    "q \<noteq> out @ [''asct-fields.json'']"
  shows "file_content d' q = file_content d q"
proof -
  let ?ps = "map (\<lambda>(f, s). (recipe_raw_dir out name @ [f], s)) (saved_payloads pl data) @
     [(recipe_raw_dir out name @ [''.hash''], hash_saved_recipe_files pl (saved_payloads pl data))]"
  obtain y d1 where m: "makedirs (cannot_mkdir pl) (recipe_raw_dir out name) d = (y, d1)" by fastforce
  have c1: "file_content d1 q = file_content d q"
    using m mkdirs_content[of "cannot_mkdir pl" "[]" "recipe_raw_dir out name" d q] by (simp add: makedirs_def)
  obtain z d2 where w: "write_all pl d1 ?ps = (z, d2)" by fastforce
  have "q \<notin> fst ` set ?ps"
  proof
    assume "q \<in> fst ` set ?ps"
    then obtain f where "q = recipe_raw_dir out name @ [f]" by auto
    then show False using assms(2) by blast
  qed
  note c2 = write_all_content[OF w this]
  obtain u d3 where f: "write_fields_metadata_file pl order fj out [name] d2 = (u, d3)" by fastforce
  have c3: "file_content d3 q = file_content d2 q"
    using f assms(3) by (auto simp: write_fields_metadata_file_def Let_def write_to_file_def write_file_content split: if_splits option.splits)
  show ?thesis using assms(1) m w f c1 c2 c3 by (cases y; cases z) (auto simp: save_data_def Let_def)
qed

lemma save_data_other:
  assumes "save_data pl order fj out name data d = (x, d')" "b \<noteq> name"
  shows "saved_view d' out b = saved_view d out b"
proof -
  have "file_content d' (recipe_raw_dir out b @ [f]) = file_content d (recipe_raw_dir out b @ [f])" for f
    by (rule save_data_content[OF assms(1)]) (use assms(2) raw_dir_not_fields[of out b f] in \<open>auto simp: recipe_raw_dir_def\<close>)
  then show ?thesis by (simp add: saved_view_def)
qed

text \<open>The cache lies elsewhere: its files never are files of the saved results.\<close>

lemma not_in_cache: "recipe_raw_dir out b @ [f] \<noteq> get_cache_file_path env e"
  by (auto simp: recipe_raw_dir_def get_cache_file_path_def cache_directory_def ASCT_CACHE_DIR_def)

lemma os_remove_content: "q \<noteq> p \<Longrightarrow> file_content (snd (os_remove env d p)) q = file_content d q"
  by (simp add: os_remove_def file_content_def files.fetch_discard)

lemma remove_fingerprints_content:
  "(\<And>e. q \<noteq> get_cache_file_path env e) \<Longrightarrow> file_content (remove_fingerprints env es d) q = file_content d q"
  by (induction es arbitrary: d) (simp_all add: os_remove_content)

lemma clear_recipe_cache_content:
  "(\<And>e. q \<noteq> get_cache_file_path env e) \<Longrightarrow> file_content (clear_recipe_cache env c name d) q = file_content d q"
  using os_remove_content[of q "get_cache_file_path env name" env d]
  by (auto simp: clear_recipe_cache_def Let_def remove_fingerprints_content split: prod.splits option.splits)

lemma write_to_file_content: "write_to_file pl d p s = (x, d') \<Longrightarrow> q \<noteq> p \<Longrightarrow> file_content d' q = file_content d q"
  by (auto simp: write_to_file_def write_file_content split: if_splits option.splits)

lemma write_to_cache_content:
  "write_to_cache pl env c v name d = (x, d') \<Longrightarrow> q \<noteq> get_cache_file_path env name \<Longrightarrow> file_content d' q = file_content d q"
  by (auto simp: write_to_cache_def swallow_def write_to_file_content split: if_splits prod.splits option.splits)

lemma cache_save_content:
  assumes "cache_save pl env c name v d = (x, d')" "\<And>e. q \<noteq> get_cache_file_path env e"
  shows "file_content d' q = file_content d q"
  using assms by (auto simp: cache_save_def write_to_cache_content clear_recipe_cache_content
      split: if_splits prod.splits option.splits sum.splits)

lemma cache_save_view: "cache_save pl env c name v d = (x, d') \<Longrightarrow> saved_view d' out b = saved_view d out b"
  using cache_save_content[OF _ not_in_cache] by (simp add: saved_view_def)

lemma output_file_view: "write_benchmark_output_file pl format out rp d = (x, d') \<Longrightarrow> saved_view d' out b = saved_view d out b"
proof -
  assume "write_benchmark_output_file pl format out rp d = (x, d')"
  moreover have "recipe_raw_dir out b @ [f] \<noteq> report_path out g" for f g by (simp add: recipe_raw_dir_def report_path_def)
  ultimately have "file_content d' (recipe_raw_dir out b @ [f]) = file_content d (recipe_raw_dir out b @ [f])" for f
    using write_to_file_content[of pl d _ _ x d']
    by (auto simp: write_benchmark_output_file_def split: if_splits sum.splits)
  then show ?thesis by (simp add: saved_view_def)
qed

lemma run_one_completed: "run_one m n st = (x, st') \<Longrightarrow> set (rs_completed st') \<subseteq> insert n (set (rs_completed st))"
  by (auto simp: run_one_def Let_def split: if_splits prod.splits option.splits)

lemma run_loop_completed: "run_loop m ns st = (x, st') \<Longrightarrow> set (rs_completed st') \<subseteq> set (rs_completed st) \<union> set ns"
proof (induction ns arbitrary: st)
  case (Cons n ns)
  then show ?case using run_one_completed[of m n st]
    by (auto split: prod.splits option.splits)
qed simp

lemma run_one_grows: "run_one m n st = (x, st') \<Longrightarrow> set (rs_completed st) \<subseteq> set (rs_completed st')"
  by (auto simp: run_one_def Let_def split: if_splits prod.splits option.splits)

lemma run_loop_grows: "run_loop m ns st = (x, st') \<Longrightarrow> set (rs_completed st) \<subseteq> set (rs_completed st')"
proof (induction ns arbitrary: st)
  case (Cons n ns)
  obtain y st1 where "run_one m n st = (y, st1)" by fastforce
  with Cons run_one_grows[of m n st y st1] show ?case by (cases y) auto
qed simp

section \<open>The interface between running and saving\<close>

text \<open>The loop ended with the error of writing a result: that of the benchmark completed last.\<close>

definition write_failed :: "(string \<Rightarrow> 's \<Rightarrow> exc option \<times> 's) \<Rightarrow> string \<Rightarrow> exc option \<Rightarrow> 's run_state \<Rightarrow> bool" where
  "write_failed wr n x st \<longleftrightarrow> last (rs_completed st) = n \<and> (\<exists>w e. x = Some e \<and> wr n w = (Some e, rs_world st))"

text \<open>
  What the loop of a run relies on: a result that is fit and written without an error is
  valid then, writing one leaves what is seen of the others, and whether a result is valid or
  fit only depends on what is seen of it.
\<close>

locale result_store =
  fixes wr :: "string \<Rightarrow> 's \<Rightarrow> exc option \<times> 's"
    and view :: "'s \<Rightarrow> string \<Rightarrow> 'v"
    and valid :: "'s \<Rightarrow> string \<Rightarrow> bool"
    and fit :: "'s \<Rightarrow> string \<Rightarrow> bool"
    and placed :: bool
  assumes wr_valid: "placed \<Longrightarrow> fit s n \<Longrightarrow> wr n s = (None, s') \<Longrightarrow> valid s' n"
    and wr_other: "wr n s = (x, s') \<Longrightarrow> b \<noteq> n \<Longrightarrow> view s' b = view s b"
    and valid_view: "placed \<Longrightarrow> view s b = view s' b \<Longrightarrow> valid s b \<Longrightarrow> valid s' b"
    and fit_view: "view s b = view s' b \<Longrightarrow> fit s b \<Longrightarrow> fit s' b"
begin

definition leaves :: "(string \<Rightarrow> 's \<Rightarrow> exc option \<times> 's) \<Rightarrow> bool" where
  "leaves act \<longleftrightarrow> (\<forall>n s x s' b. act n s = (x, s') \<longrightarrow> view s' b = view s b)"

lemma run_one_view:
  assumes "leaves (bm_run m)" "bm_write_result m = wr" "run_one m n st = (x, st')" "b \<noteq> n \<or> n \<notin> set (rs_completed st')"
  shows "view (rs_world st') b = view (rs_world st) b"
proof -
  obtain y w where r: "bm_run m n (rs_world st) = (y, w)" by fastforce
  have v: "view w b = view (rs_world st) b" using assms(1) r by (simp add: leaves_def)
  obtain z w' where z: "wr n w = (z, w')" by fastforce
  have "rs_world st' \<in> {rs_world st, w} \<or> rs_world st' = w' \<and> n \<in> set (rs_completed st')"
    using assms(3)[unfolded run_one_def assms(2) r Let_def] z by (auto split: if_splits option.splits)
  then show ?thesis using v assms(4) wr_other[OF z, of b] by auto
qed

lemma run_one_valid:
  assumes "placed" "leaves (bm_run m)" "bm_write_result m = wr" "run_one m n st = (x, st')"
    "fit (rs_world st) n" "n \<notin> set (rs_completed st)"
  shows "set (rs_completed st') \<subseteq> insert n (set (rs_completed st)) \<and>
    (n \<in> set (rs_completed st') \<longrightarrow> valid (rs_world st') n \<or> write_failed wr n x st')"
proof -
  obtain y w where r: "bm_run m n (rs_world st) = (y, w)" by fastforce
  have "view (rs_world st) n = view w n" using assms(2) r by (simp add: leaves_def)
  then have f: "fit w n" using fit_view assms(5) by blast
  obtain z w' where z: "wr n w = (z, w')" by fastforce
  have "z = None \<Longrightarrow> valid w' n" using wr_valid[OF assms(1) f] z by simp
  moreover have "z = None \<or> (\<exists>w e. z = Some e \<and> wr n w = (Some e, w'))"
    using z by (cases z) (auto intro: exI[of _ w])
  ultimately have o: "valid w' n \<or> (\<exists>w e. z = Some e \<and> wr n w = (Some e, w'))" by blast
  have "rs_completed st' = rs_completed st \<or>
      x = z \<and> rs_world st' = w' \<and> rs_completed st' = set_add n (rs_completed st)"
    using assms(4)[unfolded run_one_def assms(3) r Let_def] z by (auto split: if_splits option.splits)
  then show ?thesis using o assms(6) by (elim disjE) (auto simp: write_failed_def set_add_def)
qed

lemma run_loop_valid:
  assumes "placed" "leaves (bm_run m)" "bm_write_result m = wr"
  shows "run_loop m ns st = (x, st') \<Longrightarrow> distinct ns \<Longrightarrow> set ns \<inter> set (rs_completed st) = {} \<Longrightarrow>
    \<forall>n \<in> set ns. fit (rs_world st) n \<Longrightarrow>
    (\<forall>b. b \<notin> set ns \<inter> set (rs_completed st') \<longrightarrow> view (rs_world st') b = view (rs_world st) b) \<and>
    (\<forall>n \<in> set ns \<inter> set (rs_completed st'). valid (rs_world st') n \<or> write_failed wr n x st')"
proof (induction ns arbitrary: st)
  case (Cons n ns)
  obtain y st1 where one: "run_one m n st = (y, st1)" by fastforce
  have n1: "set (rs_completed st1) \<subseteq> insert n (set (rs_completed st))"
    "n \<in> set (rs_completed st1) \<Longrightarrow> valid (rs_world st1) n \<or> write_failed wr n y st1"
    using run_one_valid[OF assms one] Cons.prems(3,4) by auto
  note v1 = run_one_view[OF assms(2,3) one]
  show ?case
  proof (cases y)
    case (Some e)
    then have "x = y" "st' = st1" using Cons.prems(1) one by auto
    have vv: "view (rs_world st1) b = view (rs_world st) b" if "b \<notin> set (n # ns) \<inter> set (rs_completed st1)" for b
      using v1[of b] that by auto
    have "set ns \<inter> set (rs_completed st1) = {}" using n1(1) Cons.prems(2,3) by auto
    then show ?thesis unfolding \<open>x = y\<close> \<open>st' = st1\<close> using n1(2) vv by auto
  next
    case None
    then have rest: "run_loop m ns st1 = (x, st')" using Cons.prems(1) one by simp
    have fit1: "\<forall>b \<in> set ns. fit (rs_world st1) b"
      using Cons.prems(2,4) v1 fit_view by (metis distinct.simps(2) list.set_intros(2))
    have d1: "distinct ns" "set ns \<inter> set (rs_completed st1) = {}" using Cons.prems(2,3) n1(1) by auto
    from Cons.IH[OF rest d1 fit1] have IH: "\<And>b. b \<notin> set ns \<inter> set (rs_completed st') \<Longrightarrow> view (rs_world st') b = view (rs_world st1) b"
      "\<And>b. b \<in> set ns \<inter> set (rs_completed st') \<Longrightarrow> valid (rs_world st') b \<or> write_failed wr b x st'"
      by blast+
    have nn: "n \<notin> set ns" using Cons.prems(2) by simp
    have sub: "set (rs_completed st1) \<subseteq> set (rs_completed st')" by (rule run_loop_grows[OF rest])
    have "valid (rs_world st') n" if "n \<in> set (rs_completed st')"
    proof -
      have "n \<in> set (rs_completed st1)"
        using that rest nn by (meson run_loop_completed subsetD UnE)
      then show ?thesis using n1(2) None valid_view[OF assms(1) IH(1)[symmetric]] nn by (auto simp: write_failed_def)
    qed
    moreover have "view (rs_world st') b = view (rs_world st) b" if "b \<notin> set (n # ns) \<inter> set (rs_completed st')" for b
    proof -
      have "b \<noteq> n \<or> n \<notin> set (rs_completed st1)" "b \<notin> set ns \<inter> set (rs_completed st')" using that sub by auto
      then show ?thesis using IH(1)[of b] v1[of b] by simp
    qed
    ultimately show ?thesis using IH(2) by auto
  qed
qed simp

end

section \<open>Writing results is such an interface\<close>

definition saved_fit :: "path \<Rightarrow> (string \<Rightarrow> 'df recipe_obj) \<Rightarrow> files \<Rightarrow> string \<Rightarrow> bool" where
  "saved_fit out recipe_of d n \<longleftrightarrow> file_content d (summary_json_path out n) = None \<and>
     \<not> rb_from_saved_output (recipe_of n) \<and> rb_result (recipe_of n) \<noteq> None"

definition results_placed :: "platform \<Rightarrow> path \<Rightarrow> bool" where
  "results_placed pl out \<longleftrightarrow> (\<forall>n. readable_dir pl out n) \<and> hex_digest pl"

text \<open>The writer of a run: all but the name and the disk is fixed.\<close>

definition run_writer :: "platform \<Rightarrow> cache_env \<Rightarrow> cache \<Rightarrow> string list \<Rightarrow> pdict \<Rightarrow> ('df \<Rightarrow> pv) \<Rightarrow> reg_heap \<Rightarrow> string \<Rightarrow> path \<Rightarrow>
    (string \<Rightarrow> 'df recipe_obj) \<Rightarrow> (string \<Rightarrow> pv) \<Rightarrow> (string \<Rightarrow> reports) \<Rightarrow> string \<Rightarrow> files \<Rightarrow> exc option \<times> files" where
  "run_writer pl env c order fj to_dict h format out recipe_of cache_of reports_of = (\<lambda>n.
     write_benchmark_result pl env c order fj to_dict h format out n (recipe_of n) (cache_of n) (reports_of n))"

lemma summary_view: "saved_view d out b = saved_view d' out b \<Longrightarrow>
    file_content d (summary_json_path out b) = file_content d' (summary_json_path out b)"
  by (simp add: saved_view_def path_defs)

lemma holds_content: "holds_file d p \<longleftrightarrow> file_content d p \<noteq> None"
  by (auto simp: file_content_def files.holds_iff split: sum.splits)

lemma dupdate_ne: "d \<noteq> [] \<Longrightarrow> dupdate d e \<noteq> []"
  using set_keys_dupdate[of d e] by (cases "dupdate d e = []") simp_all

lemma save_benchmark_result_valid:
  assumes "save_benchmark_result pl order fj to_dict h out n r d = (None, d')" "rb_result r \<noteq> None"
    "file_content d (summary_json_path out n) = None" "results_placed pl out"
  shows "has_valid_saved_recipe pl d' out n"
proof -
  obtain data where s: "serialize to_dict h r = Inr (Some data)" and sv: "save_data pl order fj out n data d = (None, d')"
    using assms(1,2) by (auto simp: save_benchmark_result_def serialize_def split: sum.splits option.splits)
  obtain raw md where data: "data = payload_of raw md" and "md \<noteq> []"
    using s by (auto simp: serialize_def saved_metadata_def dupdate_ne split: option.splits)
  moreover have "no_stale_summary d out n raw" using assms(3) by (simp add: no_stale_summary_def holds_content)
  ultimately show ?thesis using valid_after_save[OF sv[unfolded data]] assms(4) by (simp add: results_placed_def)
qed

lemma save_benchmark_result_other:
  "save_benchmark_result pl order fj to_dict h out n r d = (x, d') \<Longrightarrow> b \<noteq> n \<Longrightarrow> saved_view d' out b = saved_view d out b"
  by (auto simp: save_benchmark_result_def save_data_other split: sum.splits option.splits)

interpretation writer: result_store
  "run_writer pl env c order fj to_dict h format out recipe_of cache_of reports_of"
  "\<lambda>d. saved_view d out" "\<lambda>d. has_valid_saved_recipe pl d out" "saved_fit out recipe_of" "results_placed pl out"
  for pl env c order fj to_dict h format out recipe_of cache_of reports_of
proof unfold_locales
  fix s n s'
  assume p: "results_placed pl out" and f: "saved_fit out recipe_of s n"
    and w: "run_writer pl env c order fj to_dict h format out recipe_of cache_of reports_of n s = (None, s')"
  obtain d1 d2 where c1: "cache_save pl env c n (cache_of n) s = (None, d1)"
    and s2: "save_benchmark_result pl order fj to_dict h out n (recipe_of n) d1 = (None, d2)"
    and o: "write_benchmark_output_file pl format out (reports_of n) d2 = (None, s')"
    using w f by (auto simp: run_writer_def write_benchmark_result_def saved_fit_def split: prod.splits option.splits)
  have "file_content d1 (summary_json_path out n) = None"
    using summary_view[OF cache_save_view[OF c1]] f by (simp add: saved_fit_def)
  then have "has_valid_saved_recipe pl d2 out n"
    using save_benchmark_result_valid[OF s2 _ _ p] f by (simp add: saved_fit_def)
  then show "has_valid_saved_recipe pl s' out n"
    using has_valid_view output_file_view[OF o] p by (metis results_placed_def)
next
  fix n s x s' b
  assume "run_writer pl env c order fj to_dict h format out recipe_of cache_of reports_of n s = (x, s')" "b \<noteq> n"
  then show "saved_view s' out b = saved_view s out b"
    by (auto simp: run_writer_def write_benchmark_result_def split: if_splits prod.splits option.splits
        dest!: cache_save_view[of _ _ _ _ _ _ _ _ out b] save_benchmark_result_other[of _ _ _ _ _ out _ _ _ _ _ b]
          output_file_view[of _ _ _ _ _ _ _ b])
next
  fix s s' b
  assume "results_placed pl out" "saved_view s out b = saved_view s' out b" "has_valid_saved_recipe pl s out b"
  then show "has_valid_saved_recipe pl s' out b" using has_valid_view by (metis results_placed_def)
next
  fix s s' b
  assume "saved_view s out b = saved_view s' out b" "saved_fit out recipe_of s b"
  then show "saved_fit out recipe_of s' b" using summary_view by (metis saved_fit_def)
qed

section \<open>A run that stops anywhere can be resumed\<close>

definition leaves_results :: "path \<Rightarrow> (string \<Rightarrow> files \<Rightarrow> exc option \<times> files) \<Rightarrow> bool" where
  "leaves_results out act \<longleftrightarrow> (\<forall>n d x d' b. act n d = (x, d') \<longrightarrow> saved_view d' out b = saved_view d out b)"

lemma teardown_view:
  "leaves_results out (bm_teardown m) \<Longrightarrow> teardown_benchmarks m ns d = (x, d') \<Longrightarrow> saved_view d' out b = saved_view d out b"
proof (induction ns arbitrary: d)
  case (Cons n ns)
  obtain y d1 where "bm_teardown m n d = (y, d1)" by fastforce
  moreover from this have "saved_view d1 out b = saved_view d out b" using Cons.prems(1) by (simp add: leaves_results_def)
  ultimately show ?case using Cons by (cases y) (auto split: if_splits)
qed simp

lemma execute_results:
  assumes "bm_write_result m = run_writer pl env c order fj to_dict h format out recipe_of cache_of reports_of"
    and "leaves_results out (bm_run m)" "leaves_results out (bm_teardown m)" "results_placed pl out"
    and "distinct ns" "set ns \<inter> set (rs_completed st) = {}" "\<forall>n \<in> set ns. saved_fit out recipe_of (rs_world st) n"
    and "execute_benchmarks m ns st = (x, st')"
  shows "(\<forall>b. b \<notin> set ns \<inter> set (rs_completed st') \<longrightarrow>
      has_valid_saved_recipe pl (rs_world st') out b = has_valid_saved_recipe pl (rs_world st) out b) \<and>
    (\<forall>n \<in> set ns \<inter> set (rs_completed st'). has_valid_saved_recipe pl (rs_world st') out n \<or>
      last (rs_completed st') = n \<and> (\<exists>w w' e. bm_write_result m n w = (Some e, w') \<and>
        (\<forall>b. saved_view (rs_world st') out b = saved_view w' out b) \<and>
        (x = Some e \<or> x \<noteq> None \<and> x = fst (teardown_benchmarks m ns w'))))"
proof (cases "ns = []")
  case False
  obtain y st1 where l: "run_loop m ns st = (y, st1)" by fastforce
  obtain z w where t: "teardown_benchmarks m ns (rs_world st1) = (z, w)" by fastforce
  have st': "rs_world st' = w" "rs_completed st' = rs_completed st1" "x = (case z of None \<Rightarrow> y | Some e \<Rightarrow> Some e)"
    using assms(8) False l t by (auto simp: execute_benchmarks_def split: option.splits)
  have lv: "result_store.leaves (\<lambda>d. saved_view d out) (bm_run m)"
    using assms(2) by (simp add: writer.leaves_def leaves_results_def)
  note r = writer.run_loop_valid[OF assms(4) lv assms(1) l assms(5-7)]
  have rd: "readable_dir pl out b" for b using assms(4) by (simp add: results_placed_def)
  note tv = teardown_view[OF assms(3) t]
  have v: "has_valid_saved_recipe pl w out b = has_valid_saved_recipe pl (rs_world st1) out b" for b
    by (rule has_valid_view[OF rd tv])
  have "has_valid_saved_recipe pl (rs_world st1) out b = has_valid_saved_recipe pl (rs_world st) out b"
    if "b \<notin> set ns \<inter> set (rs_completed st1)" for b
    by (rule has_valid_view[OF rd]) (use r that in blast)
  moreover have "has_valid_saved_recipe pl w out n \<or> last (rs_completed st1) = n \<and>
      (\<exists>w1 w' e. bm_write_result m n w1 = (Some e, w') \<and> (\<forall>b. saved_view w out b = saved_view w' out b) \<and>
        (x = Some e \<or> x \<noteq> None \<and> x = fst (teardown_benchmarks m ns w')))"
    if "n \<in> set ns \<inter> set (rs_completed st1)" for n
  proof -
    have "has_valid_saved_recipe pl w out n \<or> write_failed (bm_write_result m) n y st1" using r that v[of n] assms(1) by auto
    moreover have "x = y \<or> x \<noteq> None \<and> x = fst (teardown_benchmarks m ns (rs_world st1))" using st'(3) t by (cases z) auto
    ultimately show ?thesis using tv unfolding write_failed_def by blast
  qed
  ultimately show ?thesis unfolding st'(1,2) v[symmetric] by (auto simp: v)
qed (use assms(8) in \<open>simp add: execute_benchmarks_def\<close>)

end
