(* ===== verification/Process_Mutex.thy ===== *)
theory Process_Mutex
  imports File_Utils
begin

text \<open>
  The application lock \<open>ProcessMutex\<close> of \<open>src/core/asct_env.py\<close>: a directory under
  \<open>/var/lock\<close> that every instance opens and locks with \<open>flock\<close>.  Several instances and
  the kernel's view of the lock are the state here: the open descriptors of each process,
  and the descriptor whose open file has the exclusive lock.
\<close>

section \<open>The system calls\<close>

record lock_world =
  lw_fs :: files
  lw_umask :: nat
  lw_fds :: "nat \<Rightarrow> nat list"
  lw_holder :: "(nat \<times> nat) option"

text \<open>A process gets its lowest free descriptor.\<close>

definition lowest_free :: "nat list \<Rightarrow> nat" where
  "lowest_free fds = hd (filter (\<lambda>n. n \<notin> set fds) [0..<Suc (length fds)])"

definition os_open :: "(path \<Rightarrow> bool) \<Rightarrow> nat \<Rightarrow> path \<Rightarrow> lock_world \<Rightarrow> nat res \<times> lock_world" where
  "os_open deny p path w =
     (if \<not> path_exists (lw_fs w) path then (Inl (Exc FileNotFoundError ''no such file''), w)
      else if deny path then (Inl (Exc PermissionError ''permission denied''), w)
      else let fd = lowest_free (lw_fds w p)
           in (Inr fd, w\<lparr>lw_fds := (lw_fds w)(p := fd # lw_fds w p)\<rparr>))"

text \<open>\<open>LOCK_EX | LOCK_NB\<close> on a descriptor of the process; a second open file is a second owner.\<close>

definition flock_nb :: "nat \<Rightarrow> nat \<Rightarrow> lock_world \<Rightarrow> exc option \<times> lock_world" where
  "flock_nb p fd w = (case lw_holder w of
     None \<Rightarrow> (None, w\<lparr>lw_holder := Some (p, fd)\<rparr>)
   | Some h \<Rightarrow> if h = (p, fd) then (None, w) else (Some (Exc OSError ''resource temporarily unavailable''), w))"

definition flock_un :: "nat \<Rightarrow> nat \<Rightarrow> lock_world \<Rightarrow> lock_world" where
  "flock_un p fd w = (if lw_holder w = Some (p, fd) then w\<lparr>lw_holder := None\<rparr> else w)"

text \<open>Closing the last descriptor of an open file gives up its lock.\<close>

definition os_close :: "nat \<Rightarrow> nat \<Rightarrow> lock_world \<Rightarrow> lock_world" where
  "os_close p fd w = flock_un p fd (w\<lparr>lw_fds := (lw_fds w)(p := remove1 fd (lw_fds w p))\<rparr>)"

definition process_end :: "nat \<Rightarrow> lock_world \<Rightarrow> lock_world" where
  "process_end p w = w\<lparr>lw_fds := (lw_fds w)(p := []),
     lw_holder := (if map_option fst (lw_holder w) = Some p then None else lw_holder w)\<rparr>"

section \<open>The lock object\<close>

record mutex =
  mx_name :: string
  mx_retry_count :: nat
  mx_handle :: "nat option"
  mx_error :: "string option"

definition new_mutex :: "string \<Rightarrow> nat \<Rightarrow> mutex" where
  "new_mutex name retry_count = \<lparr>mx_name = name, mx_retry_count = retry_count, mx_handle = None, mx_error = None\<rparr>"

definition lock_dir_path :: "mutex \<Rightarrow> path" where
  "lock_dir_path m = [''var'', ''lock'', mx_name m @ ''.lock'']"

text \<open>0o333; the directory ends up with the mode 0o444.\<close>

definition lock_dir_umask :: nat where
  "lock_dir_umask = 219"

definition prepare_lock :: "platform \<Rightarrow> mutex \<Rightarrow> lock_world \<Rightarrow> bool res \<times> mutex \<times> lock_world" where
  "prepare_lock pl m w =
     (let path = lock_dir_path m in
      if \<not> path_exists (lw_fs w) path then
        let old_umask = lw_umask w in
        (case makedirs (cannot_mkdir pl) path (lw_fs w) of
           (Some e, d) \<Rightarrow> (Inl e, m, w\<lparr>lw_umask := lock_dir_umask, lw_fs := d\<rparr>)
         | (None, d) \<Rightarrow> (Inr True, m, w\<lparr>lw_umask := old_umask, lw_fs := d\<rparr>))
      else if \<not> is_dir (lw_fs w) path then
        (Inr False, m\<lparr>mx_error := Some ''Lock object exists and is a file, please delete manually''\<rparr>, w)
      else (Inr True, m, w))"

definition attempt_lock :: "platform \<Rightarrow> nat \<Rightarrow> mutex \<Rightarrow> lock_world \<Rightarrow> pv \<times> lock_world" where
  "attempt_lock pl p m w = (case os_open (cannot_read pl) p (lock_dir_path m) w of
     (Inl e, w') \<Rightarrow> (PNone, w')
   | (Inr fd, w') \<Rightarrow>
       (case flock_nb p fd w' of
          (None, w'') \<Rightarrow> (PInt (int fd), w'')
        | (Some e, w'') \<Rightarrow> (PNone, if fd \<noteq> 0 then os_close p fd w'' else w'')))"

text \<open>The decorated function: between two attempts the process sleeps, and \<open>env i\<close> is what
  the other processes do meanwhile.\<close>

definition retried_attempt :: "platform \<Rightarrow> nat \<Rightarrow> mutex \<Rightarrow> (nat \<Rightarrow> lock_world \<Rightarrow> lock_world) \<Rightarrow>
    nat \<times> lock_world \<Rightarrow> pv \<times> nat \<times> lock_world" where
  "retried_attempt pl p m env = (\<lambda>(i, w). case attempt_lock pl p m w of
     (r, w') \<Rightarrow> (r, Suc i, if truthy r then w' else env i w'))"

definition handle_of :: "pv \<Rightarrow> nat option" where
  "handle_of v = (case v of PInt fd \<Rightarrow> Some (nat fd) | _ \<Rightarrow> None)"

definition mutex_enter :: "platform \<Rightarrow> nat \<Rightarrow> (nat \<Rightarrow> lock_world \<Rightarrow> lock_world) \<Rightarrow> mutex \<Rightarrow> lock_world \<Rightarrow>
    exc option \<times> mutex \<times> lock_world" where
  "mutex_enter pl p env m w = (case prepare_lock pl m w of
     (Inl e, m', w') \<Rightarrow> (Some e, m', w')
   | (Inr False, m', w') \<Rightarrow> (None, m', w')
   | (Inr True, m', w') \<Rightarrow>
       (case retry (mx_retry_count m') (retried_attempt pl p m' env) (0, w') of (r, _, w'') \<Rightarrow>
          let m'' = m'\<lparr>mx_handle := handle_of r\<rparr>
          in (None, if handle_of r = None
                then m''\<lparr>mx_error := Some ''Unable to acquire application lock, another instance of ASCT is running''\<rparr>
                else m'', w'')))"

definition mutex_exit :: "nat \<Rightarrow> mutex \<Rightarrow> lock_world \<Rightarrow> lock_world" where
  "mutex_exit p m w = (case mx_handle m of
     Some (Suc fd) \<Rightarrow> os_close p (Suc fd) (flock_un p (Suc fd) w)
   | _ \<Rightarrow> w)"

definition lock_successful :: "mutex \<Rightarrow> bool" where
  "lock_successful m \<longleftrightarrow> mx_handle m \<noteq> None"

section \<open>One attempt\<close>

lemma lowest_free: "lowest_free fds \<notin> set fds"
proof -
  have "\<exists>n < Suc (length fds). n \<notin> set fds"
  proof (rule ccontr)
    assume "\<not> ?thesis"
    then have "{..<Suc (length fds)} \<subseteq> set fds" by auto
    then have "Suc (length fds) \<le> card (set fds)" using card_mono[OF finite_set] by fastforce
    then show False using card_length[of fds] by linarith
  qed
  then have "filter (\<lambda>n. n \<notin> set fds) [0..<Suc (length fds)] \<noteq> []" by (auto simp: filter_empty_conv simp del: upt_Suc)
  then have "lowest_free fds \<in> set (filter (\<lambda>n. n \<notin> set fds) [0..<Suc (length fds)])"
    unfolding lowest_free_def by (rule hd_in_set)
  then show ?thesis unfolding set_filter by blast
qed

lemma lowest_free_zero: "0 \<notin> set fds \<Longrightarrow> lowest_free fds = 0"
  by (simp add: lowest_free_def upt_conv_Cons del: upt_Suc)

lemma lowest_free_pos: "0 \<in> set fds \<Longrightarrow> 0 < lowest_free fds"
  using lowest_free[of fds] by (metis gr0I)

lemma attempt_lock_cases:
  assumes "path_exists (lw_fs w) (lock_dir_path m)" "\<not> cannot_read pl (lock_dir_path m)" "0 \<in> set (lw_fds w p)"
    "\<And>h. lw_holder w = Some h \<Longrightarrow> fst h = p \<Longrightarrow> snd h \<in> set (lw_fds w p)"
  shows "lw_holder w = None \<Longrightarrow> attempt_lock pl p m w =
      (PInt (int (lowest_free (lw_fds w p))), w\<lparr>lw_fds := (lw_fds w)(p := lowest_free (lw_fds w p) # lw_fds w p),
        lw_holder := Some (p, lowest_free (lw_fds w p))\<rparr>)"
    and "lw_holder w \<noteq> None \<Longrightarrow> attempt_lock pl p m w = (PNone, w)"
  using assms lowest_free[of "lw_fds w p"] lowest_free_pos[OF assms(3)]
  by (auto simp: attempt_lock_def os_open_def Let_def flock_nb_def os_close_def flock_un_def split: option.splits)

section \<open>Several instances\<close>

datatype phase = Idle | Trying nat | Inside nat | Outside | Finished

record lock_system =
  sy_world :: lock_world
  sy_phase :: "nat \<Rightarrow> phase"

text \<open>
  What the instances do in any order: each prepares the directory, makes at most
  \<open>retry_count + 1\<close> attempts, runs inside or is turned away, leaves, and may end at any
  time, which closes its descriptors; it also opens and closes files of its own.
\<close>

inductive lock_step :: "platform \<Rightarrow> mutex \<Rightarrow> lock_system \<Rightarrow> lock_system \<Rightarrow> bool" for pl m where
  begins: "sy_phase s p = Idle \<Longrightarrow> prepare_lock pl m (sy_world s) = (Inr True, m', w) \<Longrightarrow>
    lock_step pl m s \<lparr>sy_world = w, sy_phase = (sy_phase s)(p := Trying (Suc (mx_retry_count m)))\<rparr>"
| refused: "sy_phase s p = Idle \<Longrightarrow> prepare_lock pl m (sy_world s) = (r, m', w) \<Longrightarrow> r \<noteq> Inr True \<Longrightarrow>
    lock_step pl m s \<lparr>sy_world = w, sy_phase = (sy_phase s)(p := Outside)\<rparr>"
| enters: "sy_phase s p = Trying (Suc n) \<Longrightarrow> attempt_lock pl p m (sy_world s) = (r, w) \<Longrightarrow> truthy r \<Longrightarrow>
    handle_of r = Some fd \<Longrightarrow> lock_step pl m s \<lparr>sy_world = w, sy_phase = (sy_phase s)(p := Inside fd)\<rparr>"
| retries: "sy_phase s p = Trying (Suc n) \<Longrightarrow> attempt_lock pl p m (sy_world s) = (r, w) \<Longrightarrow> \<not> truthy r \<Longrightarrow>
    lock_step pl m s \<lparr>sy_world = w, sy_phase = (sy_phase s)(p := Trying n)\<rparr>"
| gives_up: "sy_phase s p = Trying 0 \<Longrightarrow>
    lock_step pl m s \<lparr>sy_world = sy_world s, sy_phase = (sy_phase s)(p := Outside)\<rparr>"
| leaves: "sy_phase s p = Inside fd \<Longrightarrow>
    lock_step pl m s \<lparr>sy_world = mutex_exit p (m\<lparr>mx_handle := Some fd\<rparr>) (sy_world s), sy_phase = (sy_phase s)(p := Outside)\<rparr>"
| ends: "lock_step pl m s \<lparr>sy_world = process_end p (sy_world s), sy_phase = (sy_phase s)(p := Finished)\<rparr>"
| opens: "os_open (\<lambda>_. False) p [] (sy_world s) = (r, w) \<Longrightarrow> lock_step pl m s \<lparr>sy_world = w, sy_phase = sy_phase s\<rparr>"
| closes: "sy_phase s p \<noteq> Inside fd \<Longrightarrow> lock_step pl m s \<lparr>sy_world = os_close p fd (sy_world s), sy_phase = sy_phase s\<rparr>"

definition lock_start :: "lock_system \<Rightarrow> bool" where
  "lock_start s \<longleftrightarrow> lw_holder (sy_world s) = None \<and> (\<forall>p. sy_phase s p = Idle)"

inductive lock_reach :: "platform \<Rightarrow> mutex \<Rightarrow> lock_system \<Rightarrow> bool" for pl m where
  start: "lock_start s \<Longrightarrow> lock_reach pl m s"
| step: "lock_reach pl m s \<Longrightarrow> lock_step pl m s s' \<Longrightarrow> lock_reach pl m s'"

text \<open>The abstract lock: at most one owner, who gets it when it is free and gives it back.\<close>

inductive lock_spec :: "nat option \<Rightarrow> nat option \<Rightarrow> bool" where
  grant: "lock_spec None (Some p)"
| release: "lock_spec (Some p) None"

inductive_simps lock_spec_simps [simp]: "lock_spec None x" "lock_spec x None" "lock_spec (Some p) x"

definition owner :: "lock_system \<Rightarrow> nat option" where
  "owner s = (case lw_holder (sy_world s) of
     Some (p, fd) \<Rightarrow> if sy_phase s p = Inside fd then Some p else None | None \<Rightarrow> None)"

definition lock_inv :: "lock_system \<Rightarrow> bool" where
  "lock_inv s \<longleftrightarrow> (\<forall>p fd. lw_holder (sy_world s) = Some (p, fd) \<longrightarrow> fd \<in> set (lw_fds (sy_world s) p)) \<and>
     (\<forall>p fd. sy_phase s p = Inside fd \<longrightarrow> lw_holder (sy_world s) = Some (p, fd) \<and> fd \<noteq> 0)"

lemma prepare_lock_frame:
  "prepare_lock pl m w = (r, m', w') \<Longrightarrow> lw_holder w' = lw_holder w \<and> lw_fds w' = lw_fds w"
  by (auto simp: prepare_lock_def Let_def split: if_splits prod.splits option.splits)

lemma os_open_frame:
  "os_open deny p path w = (r, w') \<Longrightarrow> lw_holder w' = lw_holder w \<and>
    (\<forall>q. q = p \<or> lw_fds w' q = lw_fds w q) \<and> set (lw_fds w p) \<subseteq> set (lw_fds w' p)"
  by (auto simp: os_open_def Let_def split: if_splits)

lemma attempt_lock_got:
  assumes "attempt_lock pl p m w = (r, w')" "truthy r" "handle_of r = Some fd"
    "\<And>q f. lw_holder w = Some (q, f) \<Longrightarrow> f \<in> set (lw_fds w q)"
  shows "lw_holder w = None \<and> lw_holder w' = Some (p, fd) \<and> fd \<noteq> 0 \<and> fd \<in> set (lw_fds w' p)"
  using assms lowest_free[of "lw_fds w p"]
  by (auto simp: attempt_lock_def os_open_def Let_def flock_nb_def handle_of_def split: if_splits option.splits prod.splits)

lemma attempt_lock_missed:
  assumes "attempt_lock pl p m w = (r, w')" "\<not> truthy r"
    "\<And>q f. lw_holder w = Some (q, f) \<Longrightarrow> f \<in> set (lw_fds w q)"
  shows "(lw_holder w' = lw_holder w \<or> lw_holder w = None \<and> lw_holder w' = Some (p, 0)) \<and>
    (\<forall>q f. lw_holder w' = Some (q, f) \<longrightarrow> f \<in> set (lw_fds w' q))"
  using assms lowest_free[of "lw_fds w p"]
  by (auto simp: attempt_lock_def os_open_def Let_def flock_nb_def os_close_def flock_un_def split: if_splits option.splits prod.splits)

lemma os_close_frame:
  "lw_holder (os_close p fd w) = (if lw_holder w = Some (p, fd) then None else lw_holder w)"
  "lw_fds (os_close p fd w) = (lw_fds w)(p := remove1 fd (lw_fds w p))"
  by (auto simp: os_close_def flock_un_def)

lemma mutex_exit_frame:
  "fd \<noteq> 0 \<Longrightarrow> lw_holder (mutex_exit p (m\<lparr>mx_handle := Some fd\<rparr>) w) = (if lw_holder w = Some (p, fd) then None else lw_holder w)"
  "fd \<noteq> 0 \<Longrightarrow> lw_fds (mutex_exit p (m\<lparr>mx_handle := Some fd\<rparr>) w) = (lw_fds w)(p := remove1 fd (lw_fds w p))"
  by (cases fd; simp add: mutex_exit_def os_close_def flock_un_def)+

lemma lock_inv_step: "lock_step pl m s s' \<Longrightarrow> lock_inv s \<Longrightarrow> lock_inv s'"
proof (induction rule: lock_step.induct)
  case (begins s p m' w)
  then show ?case using prepare_lock_frame[OF begins(2)] by (auto simp: lock_inv_def)
next
  case (refused s p r m' w)
  then show ?case using prepare_lock_frame[OF refused(2)] by (auto simp: lock_inv_def)
next
  case (enters s p n r w fd)
  then show ?case using attempt_lock_got[OF enters(2-4)] by (auto simp: lock_inv_def)
next
  case (retries s p n r w)
  have inside: "\<And>q fd. sy_phase s q = Inside fd \<Longrightarrow> lw_holder (sy_world s) = Some (q, fd) \<and> fd \<noteq> 0"
    and own: "\<And>q f. lw_holder (sy_world s) = Some (q, f) \<Longrightarrow> f \<in> set (lw_fds (sy_world s) q)"
    using retries(4) by (auto simp: lock_inv_def)
  show ?case using attempt_lock_missed[OF retries(2,3) own] inside retries(1) by (fastforce simp: lock_inv_def)
next
  case (opens p s r w)
  then show ?case using os_open_frame[OF opens(1)] by (fastforce simp: lock_inv_def)
next
  case (leaves s p fd)
  then have h: "lw_holder (sy_world s) = Some (p, fd)" "fd \<noteq> 0"
    and inside: "\<And>q f. sy_phase s q = Inside f \<Longrightarrow> lw_holder (sy_world s) = Some (q, f)" by (auto simp: lock_inv_def)
  have "sy_phase s q \<noteq> Inside f" if "q \<noteq> p" for q f using inside[of q f] h that by auto
  with h show ?case by (auto simp: lock_inv_def mutex_exit_frame)
next
  case (closes s p fd)
  then show ?case by (auto simp: lock_inv_def os_close_frame)
qed (auto simp: lock_inv_def process_end_def)

lemma lock_inv_reach: "lock_reach pl m s \<Longrightarrow> lock_inv s"
  by (induction rule: lock_reach.induct) (auto simp: lock_inv_step, auto simp: lock_start_def lock_inv_def)

lemma owner_iff: "lock_inv s \<Longrightarrow> owner s = Some p \<longleftrightarrow> (\<exists>fd. sy_phase s p = Inside fd)"
proof -
  assume i: "lock_inv s"
  have "lw_holder (sy_world s) = Some (p, fd)" if "sy_phase s p = Inside fd" for fd using i that by (simp add: lock_inv_def)
  then show ?thesis by (auto simp: owner_def split: option.splits if_splits)
qed

lemma lock_step_one: "lock_step pl m s s' \<Longrightarrow> \<exists>p. \<forall>q. q = p \<or> sy_phase s' q = sy_phase s q"
  by (cases rule: lock_step.cases) auto

lemma owner_step:
  assumes "lock_step pl m s s'" "lock_inv s"
  shows "owner s' = owner s \<or> lock_spec (owner s) (owner s')"
proof -
  obtain p where p: "\<And>q. q \<noteq> p \<Longrightarrow> sy_phase s' q = sy_phase s q" using lock_step_one[OF assms(1)] by blast
  have "owner s' = Some q \<longleftrightarrow> owner s = Some q" if "q \<noteq> p" for q
    using p[OF that] owner_iff[OF assms(2)] owner_iff[OF lock_inv_step[OF assms]] by simp
  then show ?thesis by (cases "owner s"; cases "owner s'"; simp) (metis option.inject)
qed

text \<open>
  C22.  The lock implements mutual exclusion: however the steps of the instances interleave,
  with failing calls and instances that end at any time, what they do to the lock is what an
  abstract lock with at most one owner allows, and the instance that runs inside is that owner.
\<close>

theorem mutex_refines_lock:
  assumes "lock_reach pl m s" "lock_step pl m s s'"
  shows "(owner s' = owner s \<or> lock_spec (owner s) (owner s')) \<and>
    (\<forall>p. (\<exists>fd. sy_phase s' p = Inside fd) \<longleftrightarrow> owner s' = Some p)"
  using owner_step[OF assms(2) lock_inv_reach[OF assms(1)]]
    owner_iff[OF lock_inv_reach[OF lock_reach.step[OF assms]]] by blast

definition demo_lock_machine :: platform where
  "demo_lock_machine = \<lparr>cannot_write = \<lambda>p. False, torn_write = \<lambda>p s. None, cannot_read = \<lambda>p. False, cannot_mkdir = \<lambda>p. False,
     float_repr = \<lambda>r. [], float_parse = \<lambda>s. 0, sha256 = id\<rparr>"

abbreviation demo_mutex :: mutex where
  "demo_mutex \<equiv> new_mutex ''asct'' 1"

definition demo_lock_world :: lock_world where
  "demo_lock_world = \<lparr>lw_fs = [], lw_umask = 18, lw_fds = \<lambda>p. [2, 1, 0], lw_holder = None\<rparr>"

definition demo_prepared :: lock_world where
  "demo_prepared = snd (snd (prepare_lock demo_lock_machine demo_mutex demo_lock_world))"

definition demo_locked :: lock_world where
  "demo_locked = snd (attempt_lock demo_lock_machine 7 demo_mutex demo_prepared)"

lemma demo_prepare: "prepare_lock demo_lock_machine demo_mutex demo_lock_world = (Inr True, demo_mutex, demo_prepared)"
  by (simp add: demo_prepared_def prepare_lock_def Let_def demo_lock_world_def lock_dir_path_def new_mutex_def
      path_exists_def makedirs_def demo_lock_machine_def is_dir_def)

lemma demo_attempt: "attempt_lock demo_lock_machine 7 demo_mutex demo_prepared = (PInt 3, demo_locked)"
  by (simp add: demo_locked_def demo_prepared_def attempt_lock_def os_open_def flock_nb_def prepare_lock_def Let_def
      demo_lock_world_def lock_dir_path_def new_mutex_def path_exists_def makedirs_def demo_lock_machine_def
      lowest_free_def upt_conv_Cons)

theorem mutex_refines_lock_witness:
  "\<exists>s s'. lock_reach demo_lock_machine demo_mutex s \<and> lock_step demo_lock_machine demo_mutex s s' \<and>
    owner s = None \<and> owner s' = Some 7 \<and> lock_spec (owner s) (owner s')"
proof -
  define s0 where "s0 = \<lparr>sy_world = demo_lock_world, sy_phase = \<lambda>p. Idle\<rparr>"
  define s where "s = \<lparr>sy_world = demo_prepared, sy_phase = (\<lambda>p. Idle)(7 := Trying 2)\<rparr>"
  define s' where "s' = \<lparr>sy_world = demo_locked, sy_phase = (sy_phase s)(7 := Inside 3)\<rparr>"
  have "lock_start s0" by (simp add: lock_start_def s0_def demo_lock_world_def)
  moreover have "lock_step demo_lock_machine demo_mutex s0 s"
    using lock_step.begins[of s0 7 demo_lock_machine demo_mutex] demo_prepare
    by (simp add: s0_def s_def new_mutex_def numeral_2_eq_2)
  ultimately have r: "lock_reach demo_lock_machine demo_mutex s" by (meson lock_reach.intros)
  have st: "lock_step demo_lock_machine demo_mutex s s'"
    unfolding s'_def
    by (rule lock_step.enters[of s 7 "Suc 0" _ _ "PInt 3"])
      (use demo_attempt in \<open>simp_all add: s_def handle_of_def numeral_2_eq_2\<close>)
  have "owner s = None" using r lock_inv_reach owner_iff by (auto simp: owner_def s_def split: option.split)
  moreover have "owner s' = Some 7"
    using mutex_refines_lock[OF r st] by (auto simp: s'_def)
  ultimately show ?thesis using mutex_refines_lock[OF r st] r st by (intro exI[of _ s] exI[of _ s']) auto
qed

section \<open>Who waits gets the lock\<close>

text \<open>The world \<open>j\<close> sleeps after \<open>i\<close>, when the attempts in between change nothing.\<close>

fun env_from :: "(nat \<Rightarrow> lock_world \<Rightarrow> lock_world) \<Rightarrow> nat \<Rightarrow> nat \<Rightarrow> lock_world \<Rightarrow> lock_world" where
  "env_from env i 0 w = w"
| "env_from env i (Suc j) w = env_from env (Suc i) j (env i w)"

text \<open>What the others do leaves this process's descriptors and locks and the directory alone.\<close>

definition foreign_env :: "(nat \<Rightarrow> lock_world \<Rightarrow> lock_world) \<Rightarrow> nat \<Rightarrow> bool" where
  "foreign_env env p \<longleftrightarrow> (\<forall>i w. lw_fds (env i w) p = lw_fds w p \<and> lw_fs (env i w) = lw_fs w \<and>
     (\<forall>fd. (lw_holder (env i w) = Some (p, fd)) = (lw_holder w = Some (p, fd))))"

definition lock_ready :: "platform \<Rightarrow> mutex \<Rightarrow> nat \<Rightarrow> lock_world \<Rightarrow> bool" where
  "lock_ready pl m p w \<longleftrightarrow> path_exists (lw_fs w) (lock_dir_path m) \<and> \<not> cannot_read pl (lock_dir_path m) \<and>
     (\<forall>fd. lw_holder w \<noteq> Some (p, fd))"

lemma lock_ready_env: "foreign_env env p \<Longrightarrow> lock_ready pl m p w \<Longrightarrow> lock_ready pl m p (env i w)"
  by (simp add: foreign_env_def lock_ready_def)

lemma retry_loop_lock:
  assumes "foreign_env env p" "lock_ready pl m p w" "0 \<in> set (lw_fds w p)"
  shows "handle_of (fst (retry_loop n (retried_attempt pl p m env) (i, w))) \<noteq> None \<longleftrightarrow>
    (\<exists>j < n. lw_holder (env_from env i j w) = None)"
  using assms(2,3)
proof (induction n arbitrary: i w)
  case (Suc n)
  have own: "\<And>h. lw_holder w = Some h \<Longrightarrow> fst h = p \<Longrightarrow> snd h \<in> set (lw_fds w p)"
    using Suc.prems(1) by (auto simp: lock_ready_def)
  have at: "path_exists (lw_fs w) (lock_dir_path m)" "\<not> cannot_read pl (lock_dir_path m)"
    using Suc.prems(1) by (auto simp: lock_ready_def)
  have IH: "handle_of (fst (retry_loop n (retried_attempt pl p m env) (Suc i, env i w))) \<noteq> None \<longleftrightarrow>
      (\<exists>j < n. lw_holder (env_from env (Suc i) j (env i w)) = None)"
    using Suc.IH lock_ready_env[OF assms(1) Suc.prems(1)] Suc.prems(2) assms(1) by (simp add: foreign_env_def)
  show ?case
  proof (cases "lw_holder w = None")
    case True
    note a = attempt_lock_cases(1)[OF at Suc.prems(2) own True]
    have "lw_holder (env_from env i 0 w) = None" using True by simp
    then have "\<exists>j < Suc n. lw_holder (env_from env i j w) = None" by blast
    then show ?thesis using lowest_free_pos[OF Suc.prems(2)] by (simp add: retried_attempt_def a handle_of_def)
  next
    case False
    note a = attempt_lock_cases(2)[OF at Suc.prems(2) own False]
    have "(\<exists>j < Suc n. lw_holder (env_from env i j w) = None) \<longleftrightarrow> (\<exists>j < n. lw_holder (env_from env i (Suc j) w) = None)"
      using False by (auto simp: less_Suc_eq_0_disj)
    then show ?thesis using IH by (simp add: retried_attempt_def a)
  qed
qed (simp add: handle_of_def)

lemma mkdirs_makes: "mkdirs deny pre cs d = (None, d') \<Longrightarrow> cs \<noteq> [] \<Longrightarrow> is_dir d' (pre @ cs)"
proof (induction deny pre cs d rule: mkdirs.induct)
  case (2 deny pre c cs d)
  have *: "is_dir d' (pre @ [c])" if "cs = []"
    using 2(3) that by (auto simp: Let_def is_dir_def split: option.splits fnode.splits if_splits)
  show ?case
  proof (cases "cs = []")
    case False
    then show ?thesis using 2(3) 2(1)[OF refl] 2(2)[OF refl]
      by (auto simp: Let_def split: option.splits fnode.splits if_splits)
  qed (use * in simp)
qed simp

lemma makedirs_makes: "makedirs deny p d = (None, d') \<Longrightarrow> is_dir d' p"
  using mkdirs_makes[of deny "[]" p d d'] by (cases p) (auto simp: makedirs_def)

lemma prepare_lock_ready:
  assumes "prepare_lock pl m w = (Inr True, m', w')" 
  shows "m' = m \<and> path_exists (lw_fs w') (lock_dir_path m) \<and> lw_holder w' = lw_holder w \<and> lw_fds w' = lw_fds w"
  using assms by (auto simp: prepare_lock_def Let_def is_dir_exists dest!: makedirs_makes split: if_splits prod.splits option.splits)

text \<open>
  C23.  Whoever waits for the lock gets it when it becomes free: an instance whose standard
  input is open enters if and only if no one holds the lock at one of its
  \<open>retry_count + 1\<close> attempts, whatever the others do while it sleeps; otherwise it returns
  too, with an error to show.
\<close>

theorem waiting_gets_free_lock:
  assumes "prepare_lock pl m w = (Inr True, m', w')" "foreign_env env p"
    and "\<not> cannot_read pl (lock_dir_path m)" "\<forall>fd. lw_holder w \<noteq> Some (p, fd)" "0 \<in> set (lw_fds w p)" "mx_error m = None"
  shows "\<exists>m'' w''. mutex_enter pl p env m w = (None, m'', w'') \<and>
    (lock_successful m'' \<longleftrightarrow> (\<exists>j \<le> mx_retry_count m. lw_holder (env_from env 0 j w') = None)) \<and>
    (lock_successful m'' \<longleftrightarrow> mx_error m'' = None)"
proof -
  note r = prepare_lock_ready[OF assms(1)]
  have ready: "lock_ready pl m p w'" using r assms(3,4) by (simp add: lock_ready_def)
  obtain v i w'' where v: "retry (mx_retry_count m) (retried_attempt pl p m env) (0, w') = (v, i, w'')"
    using prod_cases3 by blast
  have "handle_of v \<noteq> None \<longleftrightarrow> (\<exists>j < Suc (mx_retry_count m). lw_holder (env_from env 0 j w') = None)"
    using retry_loop_lock[OF assms(2) ready, of "Suc (mx_retry_count m)" 0] r assms(5) v by (simp add: retry_def del: retry_loop.simps)
  then show ?thesis using assms(1,6) r v by (auto simp: mutex_enter_def lock_successful_def Let_def less_Suc_eq_le)
qed

text \<open>Another instance holds the lock and gives it back during the first sleep.\<close>

definition demo_busy :: lock_world where
  "demo_busy = demo_prepared\<lparr>lw_fds := (lw_fds demo_prepared)(8 := [3, 2, 1, 0]), lw_holder := Some (8, 3)\<rparr>"

definition demo_env :: "nat \<Rightarrow> lock_world \<Rightarrow> lock_world" where
  "demo_env i w = os_close 8 3 w"

lemma demo_dir: "is_dir (lw_fs demo_prepared) (lock_dir_path demo_mutex)"
  by (simp add: demo_prepared_def prepare_lock_def Let_def demo_lock_world_def lock_dir_path_def new_mutex_def
      path_exists_def makedirs_def demo_lock_machine_def is_dir_def)

theorem waiting_gets_free_lock_witness:
  "\<exists>m w. mutex_enter demo_lock_machine 7 demo_env demo_mutex demo_busy = (None, m, w) \<and> lock_successful m \<and>
    (\<exists>m w. mutex_enter demo_lock_machine 7 (\<lambda>i. id) demo_mutex demo_busy = (None, m, w) \<and> \<not> lock_successful m \<and> mx_error m \<noteq> None)"
proof -
  have pr: "prepare_lock demo_lock_machine demo_mutex demo_busy = (Inr True, demo_mutex, demo_busy)"
    using demo_dir is_dir_exists[OF demo_dir] by (simp add: prepare_lock_def Let_def demo_busy_def)
  have rest: "\<not> cannot_read demo_lock_machine (lock_dir_path demo_mutex)" "\<forall>fd. lw_holder demo_busy \<noteq> Some (7, fd)"
    "0 \<in> set (lw_fds demo_busy 7)" "mx_error demo_mutex = None"
    by (simp_all add: demo_lock_machine_def demo_busy_def demo_prepared_def new_mutex_def demo_lock_world_def
        prepare_lock_def Let_def split: prod.split option.split)
  have f: "foreign_env demo_env 7" "foreign_env (\<lambda>i. id) 7"
    by (auto simp: foreign_env_def demo_env_def os_close_def flock_un_def)
  have free: "lw_holder (env_from demo_env 0 1 demo_busy) = None"
    by (simp add: demo_env_def demo_busy_def os_close_def flock_un_def One_nat_def)
  have busy: "env_from (\<lambda>i. id) i j demo_busy = demo_busy" for i j by (induction j arbitrary: i) auto
  have "lw_holder demo_busy \<noteq> None" by (simp add: demo_busy_def)
  then have "\<not> (\<exists>j \<le> mx_retry_count demo_mutex. lw_holder (env_from (\<lambda>i. id) 0 j demo_busy) = None)" by (simp add: busy)
  moreover have "\<exists>j \<le> mx_retry_count demo_mutex. lw_holder (env_from demo_env 0 j demo_busy) = None"
    using free by (intro exI[of _ 1]) (simp add: new_mutex_def)
  ultimately show ?thesis
    using waiting_gets_free_lock[OF pr f(1) rest] waiting_gets_free_lock[OF pr f(2) rest] by auto
qed

section \<open>A closed standard input\<close>

lemma retry_loop_self_locked:
  assumes "foreign_env env p"
  shows "path_exists (lw_fs w) (lock_dir_path m) \<Longrightarrow> \<not> cannot_read pl (lock_dir_path m) \<Longrightarrow> 0 \<in> set (lw_fds w p) \<Longrightarrow>
    lw_holder w = Some (p, 0) \<Longrightarrow>
    \<exists>i' w'. retry_loop n (retried_attempt pl p m env) (i, w) = (PNone, i', w') \<and> lw_holder w' = Some (p, 0)"
proof (induction n arbitrary: i w)
  case (Suc n)
  have a: "attempt_lock pl p m w = (PNone, w)" by (rule attempt_lock_cases(2)) (use Suc.prems in auto)
  show ?case using Suc.IH[of "env i w" "Suc i"] Suc.prems assms by (auto simp: retried_attempt_def a foreign_env_def)
qed simp

text \<open>
  An instance whose descriptor 0 is free never enters, not even when nobody else runs: it
  takes the lock on descriptor 0, which counts as false, and from then on locks itself out;
  the message blames another instance.
\<close>

theorem stdin_closed_locks_itself_out:
  assumes "prepare_lock pl m w = (Inr True, m', w')" "foreign_env env p"
    and "\<not> cannot_read pl (lock_dir_path m)" "0 \<notin> set (lw_fds w p)" "lw_holder w = None"
  shows "\<exists>m'' w''. mutex_enter pl p env m w = (None, m'', w'') \<and> \<not> lock_successful m'' \<and> lw_holder w'' = Some (p, 0)"
proof -
  note r = prepare_lock_ready[OF assms(1)]
  define w1 where "w1 = w'\<lparr>lw_fds := (lw_fds w')(p := 0 # lw_fds w' p), lw_holder := Some (p, 0)\<rparr>"
  have a: "attempt_lock pl p m w' = (PInt 0, w1)"
    using assms(3-5) r by (simp add: attempt_lock_def os_open_def lowest_free_zero flock_nb_def w1_def)
  have e: "lw_fs (env i v) = lw_fs v" "lw_fds (env i v) p = lw_fds v p" "lw_holder v = Some (p, 0) \<Longrightarrow> lw_holder (env i v) = Some (p, 0)" for i v
    using assms(2) by (auto simp: foreign_env_def)
  obtain i' w'' where "retry_loop (mx_retry_count m) (retried_attempt pl p m env) (Suc 0, env 0 w1) = (PNone, i', w'')"
    "lw_holder w'' = Some (p, 0)"
    using retry_loop_self_locked[OF assms(2), of "env 0 w1" m pl "mx_retry_count m" "Suc 0"] assms(3) r e
    by (auto simp: w1_def)
  then show ?thesis using assms(1) r by (simp add: mutex_enter_def retry_def retried_attempt_def a handle_of_def lock_successful_def Let_def)
qed

end
