(* ===== verification/Commands.thy ===== *)
theory Commands
  imports Run_Command Process_Mutex
begin

text \<open>
  The commands \<open>run\<close>, \<open>resume\<close> and \<open>report\<close>: \<open>src/core/cmd/run.py\<close>, \<open>resume.py\<close> and
  \<open>report.py\<close>, which call the modelled parts in order.  What the machine and the recipes
  decide is a record of parameters; the state is the disk, and around the benchmarks the
  kernel's view of the application lock.
\<close>

section \<open>Arguments and parts\<close>

text \<open>The keywords are a list, or the one default text that \<open>argparse\<close> leaves unconverted.\<close>

record cmd_args =
  ca_keywords :: "string + string list"
  ca_config_file :: "(string \<times> path) option"
  ca_update_config :: pdict
  ca_dry_run :: bool
  ca_dev_mode :: bool
  ca_format :: string
  ca_output_dir :: path
  ca_vars :: pdict

record 'df parts =
  pt_platform :: platform
  pt_cache_env :: cache_env
  pt_repr :: "pv \<Rightarrow> string"
  pt_identity :: run_identity
  pt_global :: "recipe_metadata list"
  pt_table :: "recipe_metadata list"
  pt_priority :: "string \<Rightarrow> nat"
  pt_fields :: pdict
  pt_to_dict :: "'df \<Rightarrow> pv"
  pt_heap :: reg_heap
  pt_methods :: "pdict \<Rightarrow> files bench_methods"
  pt_recipe_of :: "string \<Rightarrow> 'df recipe_obj"
  pt_cache_of :: "string \<Rightarrow> pv"
  pt_reports_of :: "string \<Rightarrow> reports"
  pt_sysreport :: "files \<Rightarrow> system_info res \<times> files"

text \<open>The variables of a command that its output needs.\<close>

record cmd_locals =
  cl_requested :: "string list option"
  cl_completed :: "string list"
  cl_skipped :: "(string, string) dict"
  cl_failed :: "(string, string) dict"

definition no_locals :: cmd_locals where
  "no_locals = \<lparr>cl_requested = None, cl_completed = [], cl_skipped = [], cl_failed = []\<rparr>"

type_synonym cmd_result = "(exc option \<times> cmd_locals) \<times> files"

definition exit_with :: "string \<Rightarrow> exc" where
  "exit_with code = Exc SystemExit code"

definition keywords_of :: "string + string list \<Rightarrow> string list" where
  "keywords_of ks = (case ks of Inl s \<Rightarrow> [s] | Inr ss \<Rightarrow> ss)"

text \<open>The writer of results of one command.\<close>

definition part_writer :: "'df parts \<Rightarrow> cache \<Rightarrow> string \<Rightarrow> path \<Rightarrow> string \<Rightarrow> files \<Rightarrow> exc option \<times> files" where
  "part_writer P c format out = run_writer (pt_platform P) (pt_cache_env P) c (map rm_name (pt_global P)) (pt_fields P)
     (pt_to_dict P) (pt_heap P) format out (pt_recipe_of P) (pt_cache_of P) (pt_reports_of P)"

definition part_methods :: "'df parts \<Rightarrow> pdict \<Rightarrow> cache \<Rightarrow> string \<Rightarrow> path \<Rightarrow> files bench_methods" where
  "part_methods P user_config c format out = (pt_methods P user_config)\<lparr>bm_write_result := part_writer P c format out\<rparr>"

section \<open>User configuration\<close>

text \<open>The settings of a file, then those of the command line; \<open>None\<close> when a conversion does not end.\<close>

definition file_settings :: "'df parts \<Rightarrow> cmd_args \<Rightarrow> string list \<Rightarrow> files \<Rightarrow> conv_state \<Rightarrow> conv_state res option" where
  "file_settings P a names d st = (case ca_config_file a of
     None \<Rightarrow> Some (Inr st)
   | Some (source, p) \<Rightarrow>
       (let data = read_json_file (pt_platform P) d p in
        if \<not> truthy data then Some (Inr st)
        else case data of
          PDict settings \<Rightarrow> get_conv_user_config (pt_repr P) settings names source (pt_table P) False st
        | _ \<Rightarrow> Some (Inl (Exc AttributeError ''items''))))"

definition collect_user_config :: "'df parts \<Rightarrow> cmd_args \<Rightarrow> string list \<Rightarrow> files \<Rightarrow> pdict res option" where
  "collect_user_config P a names d = (case file_settings P a names d ([], []) of
     None \<Rightarrow> None
   | Some (Inl e) \<Rightarrow> Some (Inl e)
   | Some (Inr st) \<Rightarrow> map_option (map_sum id snd)
       (get_conv_user_config (pt_repr P) (ca_update_config a) names ''--update-config'' (pt_table P) False st))"

section \<open>Running what was requested\<close>

definition setup_and_execute :: "'df parts \<Rightarrow> files bench_methods \<Rightarrow> string list \<Rightarrow> cmd_locals \<Rightarrow> files \<Rightarrow> cmd_result" where
  "setup_and_execute P m names l d =
     (case setup_benchmarks (pt_global P) (pt_priority P) m names d of
        (Inl e, d1) \<Rightarrow> ((Some e, l), d1)
      | (Inr (priority_list, skipped), d1) \<Rightarrow>
          (case execute_benchmarks m priority_list \<lparr>rs_completed = cl_completed l, rs_failed = [], rs_world = d1\<rparr> of
             (x, st) \<Rightarrow> ((x, l\<lparr>cl_completed := rs_completed st, cl_skipped := skipped, cl_failed := rs_failed st\<rparr>),
               rs_world st)))"

definition run_requested :: "'df parts \<Rightarrow> cmd_args \<Rightarrow> pdict \<Rightarrow> cache \<Rightarrow> string list \<Rightarrow> files \<Rightarrow> cmd_result" where
  "run_requested P a user_config c requested d =
     (let l = no_locals\<lparr>cl_completed := [''system-info'']\<rparr> in
      case write_asct_json_header (pt_platform P) (pt_repr P) (pt_identity P) (ca_output_dir a) (ca_vars a) requested
             user_config d of
        (Some e, d1) \<Rightarrow> ((Some e, l), d1)
      | (None, d1) \<Rightarrow> setup_and_execute P (part_methods P user_config c (ca_format a) (ca_output_dir a)) requested
            (l\<lparr>cl_requested := Some requested\<rparr>) d1)"

definition restore_cached :: "'df parts \<Rightarrow> cache \<Rightarrow> string \<Rightarrow> files \<Rightarrow> bool res \<times> files" where
  "restore_cached P c bm d = (case is_cache_available (pt_platform P) (pt_cache_env P) c bm d of
     (False, d1) \<Rightarrow> (Inr False, d1)
   | (True, d1) \<Rightarrow> restore_to_output_folder (pt_platform P) (pt_cache_env P) c bm d1)"

definition run_selected :: "'df parts \<Rightarrow> cmd_args \<Rightarrow> pdict \<Rightarrow> cache \<Rightarrow> filtered_benchmarks \<Rightarrow> files \<Rightarrow> cmd_result" where
  "run_selected P a user_config c fb d =
     (let l = no_locals\<lparr>cl_completed := [''system-info'']\<rparr> in
      case resolve_dependencies (pt_global P) (complete_list fb) of
        Inl e \<Rightarrow> ((Some e, l), d)
      | Inr ordered \<Rightarrow>
          (case remove_cached_dependencies (restore_cached P c) (fb\<lparr>complete_list := ordered\<rparr>) d of
             (Inl e, d1) \<Rightarrow> ((Some e, l), d1)
           | (Inr fb', d1) \<Rightarrow> run_requested P a user_config c (complete_list fb') d1))"

definition SYSREPORT_ERRORS :: "exc_class list" where
  "SYSREPORT_ERRORS = [RuntimeError, ValueError, OSError, KeyError, TypeError]"

definition sysreport_failed :: "'df parts \<Rightarrow> cmd_args \<Rightarrow> pdict \<Rightarrow> string list \<Rightarrow> exc \<Rightarrow> files \<Rightarrow> cmd_result" where
  "sysreport_failed P a user_config names e d =
     (if \<not> caught SYSREPORT_ERRORS e then ((Some e, no_locals), d)
      else case write_asct_json_header (pt_platform P) (pt_repr P) (pt_identity P) (ca_output_dir a) (ca_vars a) names
             user_config d of
        (Some e', d1) \<Rightarrow> ((Some e', no_locals), d1)
      | (None, d1) \<Rightarrow> ((Some (exit_with ''1''), no_locals), d1))"

text \<open>The system report, the cache of this machine, and the first result, in one \<open>try\<close>.\<close>

definition gather_system_info :: "'df parts \<Rightarrow> cmd_args \<Rightarrow> cache \<Rightarrow> files \<Rightarrow> cache res \<times> files" where
  "gather_system_info P a c d = (case pt_sysreport P d of
     (Inl e, d1) \<Rightarrow> (Inl e, d1)
   | (Inr si, d1) \<Rightarrow>
       (case refresh_cache (pt_platform P) (pt_cache_env P) c si d1 of
          ((Some e, d2), c1) \<Rightarrow> (Inl e, d2)
        | ((None, d2), c1) \<Rightarrow>
            (case save_cache_validator (pt_platform P) (pt_cache_env P) c1 si d2 of
               (Some e, d3) \<Rightarrow> (Inl e, d3)
             | (None, d3) \<Rightarrow>
                 (case part_writer P c1 (ca_format a) (ca_output_dir a) ''system-info'' d3 of
                    (Some e, d4) \<Rightarrow> (Inl e, d4)
                  | (None, d4) \<Rightarrow> (Inr c1, d4)))))"

definition run_locked :: "'df parts \<Rightarrow> cmd_args \<Rightarrow> pdict \<Rightarrow> cache \<Rightarrow> filtered_benchmarks \<Rightarrow> files \<Rightarrow> cmd_result" where
  "run_locked P a user_config c fb d = (case gather_system_info P a c d of
     (Inl e, d1) \<Rightarrow> sysreport_failed P a user_config (complete_list fb) e d1
   | (Inr c1, d1) \<Rightarrow> run_selected P a user_config c1 fb d1)"

section \<open>The commands\<close>

text \<open>
  \<open>with get_execution_context(...)\<close>: without the lock the body does not run, and the lock is
  given up however the body ends.  \<open>others\<close> is what other processes do while this one waits.
\<close>

definition with_context :: "platform \<Rightarrow> nat \<Rightarrow> (nat \<Rightarrow> lock_world \<Rightarrow> lock_world) \<Rightarrow> bool \<Rightarrow> (files \<Rightarrow> cmd_result) \<Rightarrow>
    lock_world \<Rightarrow> (exc option \<times> cmd_locals) \<times> lock_world" where
  "with_context pl p others dev_mode body w =
     (if dev_mode then (case body (lw_fs w) of (r, d) \<Rightarrow> (r, w\<lparr>lw_fs := d\<rparr>))
      else case mutex_enter pl p others (new_mutex ''_asct_'' 5) w of
        (Some e, m, w1) \<Rightarrow> ((Some e, no_locals), w1)
      | (None, m, w1) \<Rightarrow>
          if \<not> lock_successful m then ((Some (exit_with ''1''), no_locals), mutex_exit p m w1)
          else (case body (lw_fs w1) of (r, d) \<Rightarrow> (r, mutex_exit p m (w1\<lparr>lw_fs := d\<rparr>))))"

definition final_output :: "'df parts \<Rightarrow> cmd_args \<Rightarrow> (exc option \<times> cmd_locals) \<times> lock_world \<Rightarrow>
    (exc option \<times> cmd_locals) \<times> lock_world" where
  "final_output P a r = (case r of
     ((Some e, l), w) \<Rightarrow> ((Some e, l), w)
   | ((None, l), w) \<Rightarrow>
       (case output_files (pt_platform P) (map rm_name (pt_global P)) (ca_format a) (ca_output_dir a)
               (map (\<lambda>n. (n, pt_reports_of P n)) (cl_completed l)) (cl_skipped l) (cl_failed l) (lw_fs w) of
          (x, d) \<Rightarrow> ((x, l), w\<lparr>lw_fs := d\<rparr>)))"

text \<open>What is decided before anything is changed.\<close>

definition run_prepare :: "'df parts \<Rightarrow> cmd_args \<Rightarrow> files \<Rightarrow> (filtered_benchmarks \<times> pdict) res option" where
  "run_prepare P a d = (case get_filtered_recipes (pt_global P) (pt_table P) (keywords_of (ca_keywords a)) True of
     Inl e \<Rightarrow> Some (Inl e)
   | Inr fb \<Rightarrow>
       if complete_list fb = [] then Some (Inl (exit_with ''1''))
       else case collect_user_config P a (complete_list fb) d of
         None \<Rightarrow> None
       | Some (Inl e) \<Rightarrow> Some (Inl e)
       | Some (Inr user_config) \<Rightarrow>
           if ca_dry_run a then Some (Inl (exit_with ''0'')) else Some (Inr (fb, user_config)))"

definition run_command :: "'df parts \<Rightarrow> nat \<Rightarrow> (nat \<Rightarrow> lock_world \<Rightarrow> lock_world) \<Rightarrow> cmd_args \<Rightarrow> cache \<Rightarrow> lock_world \<Rightarrow>
    ((exc option \<times> cmd_locals) \<times> lock_world) option" where
  "run_command P p others a c w = (case run_prepare P a (lw_fs w) of
     None \<Rightarrow> None
   | Some (Inl e) \<Rightarrow> Some ((Some e, no_locals), w)
   | Some (Inr (fb, user_config)) \<Rightarrow>
       Some (final_output P a (with_context (pt_platform P) p others (ca_dev_mode a) (run_locked P a user_config c fb) w)))"


text \<open>The command line option \<open>--detect\<close> is a setting of the mesh report.\<close>

definition detect_settings :: "bool \<Rightarrow> pdict \<Rightarrow> pdict res" where
  "detect_settings detect update_config =
     (if \<not> detect then Inr update_config
      else case dget update_config ''cmn'' (PDict []) of
        PDict cmn \<Rightarrow> Inr (dset ''cmn'' (PDict (dset ''detect'' (PStr ''true'') cmn)) update_config)
      | _ \<Rightarrow> Inl (Exc TypeError ''object does not support item assignment''))"

definition report_one :: "files bench_methods \<Rightarrow> string \<Rightarrow> files run_state \<Rightarrow> exc option \<times> files run_state" where
  "report_one m name st = (case bm_run m name (rs_world st) of
     (Some e, w) \<Rightarrow>
       (if \<not> caught RUN_ERRORS e then (Some e, st\<lparr>rs_world := w\<rparr>)
        else (None, st\<lparr>rs_world := w, rs_failed := dset name (exc_msg e) (rs_failed st)\<rparr>))
   | (None, w) \<Rightarrow>
       (case bm_write_result m name w of
          (x, w') \<Rightarrow> (x, st\<lparr>rs_world := w', rs_completed := set_add name (rs_completed st)\<rparr>)))"

fun report_loop :: "files bench_methods \<Rightarrow> string list \<Rightarrow> files run_state \<Rightarrow> exc option \<times> files run_state" where
  "report_loop m [] st = (None, st)"
| "report_loop m (n # ns) st = (case report_one m n st of
     (Some e, st') \<Rightarrow> (Some e, st')
   | (None, st') \<Rightarrow> report_loop m ns st')"

text \<open>Here the tear-down is no \<open>finally\<close>.\<close>

definition report_benchmarks :: "files bench_methods \<Rightarrow> string list \<Rightarrow> files run_state \<Rightarrow> exc option \<times> files run_state" where
  "report_benchmarks m priority_list st = (case report_loop m priority_list st of
     (Some e, st1) \<Rightarrow> (Some e, st1)
   | (None, st1) \<Rightarrow> (case teardown_benchmarks m priority_list (rs_world st1) of
       (y, w) \<Rightarrow> (y, st1\<lparr>rs_world := w\<rparr>)))"

definition report_selected :: "'df parts \<Rightarrow> cmd_args \<Rightarrow> pdict \<Rightarrow> cache \<Rightarrow> filtered_benchmarks \<Rightarrow> files \<Rightarrow> cmd_result" where
  "report_selected P a user_config c fb d =
     (case write_asct_json_header (pt_platform P) (pt_repr P) (pt_identity P) (ca_output_dir a) (ca_vars a) []
             user_config d of
        (Some e, d1) \<Rightarrow> ((Some e, no_locals), d1)
      | (None, d1) \<Rightarrow>
          (case resolve_dependencies (pt_global P) (complete_list fb) of
             Inl e \<Rightarrow> ((Some e, no_locals), d1)
           | Inr ordered \<Rightarrow>
               (case remove_cached_dependencies (restore_cached P c) (fb\<lparr>complete_list := ordered\<rparr>) d1 of
                  (Inl e, d2) \<Rightarrow> ((Some e, no_locals), d2)
                | (Inr fb', d2) \<Rightarrow>
                    (let m = part_methods P user_config c (ca_format a) (ca_output_dir a) in
                     case setup_benchmarks (pt_global P) (pt_priority P) m (complete_list fb') d2 of
                       (Inl e, d3) \<Rightarrow> ((Some e, no_locals), d3)
                     | (Inr (priority_list, skipped), d3) \<Rightarrow>
                         (case report_benchmarks m priority_list \<lparr>rs_completed = [], rs_failed = [], rs_world = d3\<rparr> of
                            (x, st) \<Rightarrow> ((x, \<lparr>cl_requested = Some [], cl_completed = rs_completed st,
                                cl_skipped = skipped, cl_failed = rs_failed st\<rparr>), rs_world st))))))"

definition report_command :: "'df parts \<Rightarrow> cmd_args \<Rightarrow> bool \<Rightarrow> cache \<Rightarrow> lock_world \<Rightarrow>
    ((exc option \<times> cmd_locals) \<times> lock_world) option" where
  "report_command P a detect c w =
     (case get_filtered_recipes (pt_global P) (pt_table P) (keywords_of (ca_keywords a)) True of
        Inl e \<Rightarrow> Some ((Some e, no_locals), w)
      | Inr fb \<Rightarrow>
          if ca_dry_run a then Some ((Some (exit_with ''0''), no_locals), w)
          else if complete_list fb = [] then Some ((Some (exit_with ''1''), no_locals), w)
          else (case detect_settings detect (ca_update_config a) of
            Inl e \<Rightarrow> Some ((Some e, no_locals), w)
          | Inr settings \<Rightarrow>
              (case collect_user_config P (a\<lparr>ca_update_config := settings\<rparr>) (complete_list fb) (lw_fs w) of
                 None \<Rightarrow> None
               | Some (Inl e) \<Rightarrow> Some ((Some e, no_locals), w)
               | Some (Inr user_config) \<Rightarrow>
                   (case report_selected P a user_config c fb (lw_fs w) of
                      (r, d) \<Rightarrow> Some (final_output P a (r, w\<lparr>lw_fs := d\<rparr>))))))"

section \<open>Resuming\<close>

record ('df, 'v) resume_parts =
  rz_versions :: "'v version_api"
  rz_is_sudo :: bool
  rz_load :: "files \<Rightarrow> path \<Rightarrow> string \<Rightarrow> reg_heap \<Rightarrow> 'df recipe_obj res \<times> reg_heap"
  rz_saved_hw :: "'df recipe_obj \<Rightarrow> bool \<times> pdict"
  rz_shown :: "pv \<Rightarrow> string"
  rz_current_hw :: "files \<Rightarrow> pdict res \<times> files"

definition HW_ERRORS :: "exc_class list" where
  "HW_ERRORS = [FileNotFoundError, OSError, RuntimeError, TypeError, ValueError, KeyError]"

definition fail_or_exit :: "exc_class list \<Rightarrow> exc \<Rightarrow> exc" where
  "fail_or_exit cs e = (if caught cs e then exit_with ''1'' else e)"

definition match_hardware :: "('df, 'v) resume_parts \<Rightarrow> path \<Rightarrow> files \<Rightarrow> reg_heap res \<times> files" where
  "match_hardware R out d = (case rz_current_hw R d of
     (Inl e, d1) \<Rightarrow> (Inl e, d1)
   | (Inr hw, d1) \<Rightarrow>
       (case rz_load R d1 out ''system-info'' [] of
          (Inl e, h) \<Rightarrow> (Inl e, d1)
        | (Inr r, h) \<Rightarrow> (case rz_saved_hw R r of
            (ready, saved) \<Rightarrow> (map_sum id (\<lambda>_. h) (check_hw_match (rz_shown R) ready hw saved), d1))))"

definition resume_command :: "'df parts \<Rightarrow> ('df, 'v) resume_parts \<Rightarrow> nat \<Rightarrow> (nat \<Rightarrow> lock_world \<Rightarrow> lock_world) \<Rightarrow> cmd_args \<Rightarrow>
    cache \<Rightarrow> lock_world \<Rightarrow> (exc option \<times> cmd_locals) \<times> lock_world" where
  "resume_command P R p others a c w =
     (let out = ca_output_dir a in
      case get_resume_run_state (pt_platform P) (rz_versions R) (rz_is_sudo R) (lw_fs w) out of
        Inl e \<Rightarrow> ((Some (fail_or_exit [RuntimeError, TypeError] e), no_locals), w)
      | Inr (requested, user_config, to_run) \<Rightarrow>
          (case match_hardware R out (lw_fs w) of
             (Inl e, d1) \<Rightarrow> ((Some (fail_or_exit HW_ERRORS e), no_locals), w\<lparr>lw_fs := d1\<rparr>)
           | (Inr h, d1) \<Rightarrow>
               (case restore_completed (rz_load R d1 out) requested to_run [] h of
                  (Inl e, h') \<Rightarrow> ((Some e, no_locals), w\<lparr>lw_fs := d1\<rparr>)
                | (Inr (completed, rerun), h') \<Rightarrow>
                    final_output P a (with_context (pt_platform P) p others (ca_dev_mode a)
                      (setup_and_execute P (part_methods P user_config c (ca_format a) out) rerun
                        \<lparr>cl_requested = Some requested, cl_completed = set_add ''system-info'' (dkeys completed),
                         cl_skipped = [], cl_failed = []\<rparr>) (w\<lparr>lw_fs := d1\<rparr>)))))"

section \<open>What the writer leaves alone\<close>

definition same_file :: "path \<Rightarrow> files \<Rightarrow> files \<Rightarrow> bool" where
  "same_file q d d' \<longleftrightarrow> file_content d' q = file_content d q"

definition same_results :: "path \<Rightarrow> files \<Rightarrow> files \<Rightarrow> bool" where
  "same_results out d d' \<longleftrightarrow> (\<forall>b. saved_view d' out b = saved_view d out b)"

lemma same_preorders [simp]: "reflp (same_file q)" "transp (same_file q)" "reflp (same_results out)" "transp (same_results out)"
  by (auto simp: reflp_def transp_def same_file_def same_results_def)

text \<open>The output directory is not the cache, and no benchmark is called \<open>asct\<close> like the manifest.\<close>

definition separate_output :: "'df parts \<Rightarrow> path \<Rightarrow> bool" where
  "separate_output P out \<longleftrightarrow> out \<noteq> cache_directory (pt_cache_env P) \<and> (\<forall>n. rp_name (pt_reports_of P n) \<noteq> ''asct'')"

text \<open>The methods of the benchmarks neither touch saved results nor the manifest.\<close>

definition careful :: "path \<Rightarrow> files bench_methods \<Rightarrow> bool" where
  "careful out m \<longleftrightarrow> (\<forall>act \<in> {bm_setup m, bm_allocate m, bm_run m, bm_teardown m}.
     keeps_to (same_results out) act \<and> keeps_to (same_file (manifest_path out)) act)"

lemma leaves_results_iff: "leaves_results out act \<longleftrightarrow> keeps_to (same_results out) act"
proof
  assume "leaves_results out act"
  then show "keeps_to (same_results out) act" unfolding leaves_results_def keeps_to_def same_results_def by (metis prod.collapse)
next
  assume "keeps_to (same_results out) act"
  then show "leaves_results out act" unfolding leaves_results_def keeps_to_def same_results_def by (metis snd_conv)
qed

lemma save_benchmark_result_manifest:
  "save_benchmark_result pl order fj to_dict h out n r d = (x, d') \<Longrightarrow>
    file_content d' (manifest_path out) = file_content d (manifest_path out)"
proof -
  have "manifest_path out \<noteq> recipe_raw_dir out n @ [f]" for f by (simp add: manifest_path_def recipe_raw_dir_def)
  moreover have "manifest_path out \<noteq> out @ [''asct-fields.json'']" by (simp add: manifest_path_def)
  ultimately show "save_benchmark_result pl order fj to_dict h out n r d = (x, d') \<Longrightarrow> ?thesis"
    by (auto simp: save_benchmark_result_def save_data_content split: sum.splits option.splits)
qed

lemma output_file_manifest:
  assumes "write_benchmark_output_file pl format out rp d = (x, d')" "rp_name rp \<noteq> ''asct''"
  shows "file_content d' (manifest_path out) = file_content d (manifest_path out)"
proof -
  have "''asct.json'' = rp_name rp @ ''.json'' \<longleftrightarrow> ''asct'' @ ''.json'' = rp_name rp @ ''.json''" by simp
  then have "''asct.json'' \<noteq> rp_name rp @ ''.json''" unfolding append_same_eq using assms(2) by metis
  moreover have "''asct.json'' \<noteq> rp_name rp @ ''.csv''"
  proof
    assume "''asct.json'' = rp_name rp @ ''.csv''"
    then have "last ''asct.json'' = last (rp_name rp @ ''.csv'')" by simp
    then show False by simp
  qed
  ultimately have "manifest_path out \<noteq> report_path out (rp_name rp @ ''.csv'')" "manifest_path out \<noteq> report_path out (rp_name rp @ ''.json'')"
    by (simp_all add: manifest_path_def report_path_def)
  then show ?thesis using assms(1) write_to_file_content[of pl d _ _ x d']
    by (auto simp: write_benchmark_output_file_def split: if_splits sum.splits)
qed

lemma writer_keeps_manifest:
  assumes "separate_output P out"
  shows "keeps_to (same_file (manifest_path out)) (part_writer P c format out)"
proof -
  have "same_file (manifest_path out) d (snd (part_writer P c format out n d))" for n d
  proof -
    have c: "manifest_path out \<noteq> get_cache_file_path (pt_cache_env P) e" for e
      using assms by (auto simp: separate_output_def manifest_path_def get_cache_file_path_def)
    have r: "rp_name (pt_reports_of P n) \<noteq> ''asct''" using assms by (simp add: separate_output_def)
    define wr where "wr = write_benchmark_output_file (pt_platform P) format out (pt_reports_of P n)"
    have o: "file_content (snd (wr e)) (manifest_path out) = file_content e (manifest_path out)" for e
      unfolding wr_def by (rule output_file_manifest[OF prod.collapse[symmetric] r])
    obtain x d1 where c1: "cache_save (pt_platform P) (pt_cache_env P) c n (pt_cache_of P n) d = (x, d1)" by fastforce
    obtain y d2 where s2: "save_benchmark_result (pt_platform P) (map rm_name (pt_global P)) (pt_fields P) (pt_to_dict P)
        (pt_heap P) out n (pt_recipe_of P n) d1 = (y, d2)" by fastforce
    have "snd (part_writer P c format out n d) \<in> {snd (wr d), d1, d2, snd (wr d2)}"
      using c1 s2 by (simp add: part_writer_def run_writer_def write_benchmark_result_def wr_def split: option.split)
    moreover have "file_content d1 (manifest_path out) = file_content d (manifest_path out)" by (rule cache_save_content[OF c1 c])
    moreover have "file_content d2 (manifest_path out) = file_content d1 (manifest_path out)" by (rule save_benchmark_result_manifest[OF s2])
    ultimately show ?thesis using o[of d] o[of d2] unfolding same_file_def by (elim insertE emptyE) simp_all
  qed
  then show ?thesis by (simp add: keeps_to_def)
qed

lemma header_view:
  "write_asct_json_header pl repr ident out args bs ucfg d = (x, d') \<Longrightarrow> saved_view d' out b = saved_view d out b"
proof -
  assume "write_asct_json_header pl repr ident out args bs ucfg d = (x, d')"
  moreover have "recipe_raw_dir out b @ [f] \<noteq> manifest_path out" for f by (simp add: manifest_path_def recipe_raw_dir_def)
  ultimately have "file_content d' (recipe_raw_dir out b @ [f]) = file_content d (recipe_raw_dir out b @ [f])" for f
    by (simp add: write_asct_json_header_def write_to_file_content)
  then show ?thesis by (simp add: saved_view_def)
qed

section \<open>A run that stops anywhere can be resumed\<close>

lemma setup_and_execute_manifest:
  assumes "careful out (pt_methods P ucfg)" "separate_output P out"
    "setup_and_execute P (part_methods P ucfg c format out) names l d = (r, d')"
  shows "file_content d' (manifest_path out) = file_content d (manifest_path out)"
proof -
  let ?m = "part_methods P ucfg c format out" and ?R = "same_file (manifest_path out)"
  have k: "keeps_to ?R (bm_setup ?m)" "keeps_to ?R (bm_allocate ?m)" "keeps_to ?R (bm_run ?m)" "keeps_to ?R (bm_teardown ?m)"
    using assms(1) by (simp_all add: careful_def part_methods_def)
  have w: "keeps_to ?R (bm_write_result ?m)" using writer_keeps_manifest[OF assms(2)] by (simp add: part_methods_def)
  obtain y d1 where s: "setup_benchmarks (pt_global P) (pt_priority P) ?m names d = (y, d1)" by fastforce
  have r1: "?R d d1" by (rule setup_benchmarks_respects[OF k(1,2) _ _ s]) simp_all
  show ?thesis
  proof (cases y)
    case (Inr z)
    obtain ns skipped where z: "z = (ns, skipped)" by fastforce
    obtain x st where e: "execute_benchmarks ?m ns \<lparr>rs_completed = cl_completed l, rs_failed = [], rs_world = d1\<rparr> = (x, st)"
      by fastforce
    have "?R d1 (rs_world st)" using execute_respects[OF k(3) w k(4) _ _ e] by simp
    then show ?thesis using assms(3) s Inr z e r1 by (simp add: setup_and_execute_def same_file_def)
  qed (use assms(3) s r1 in \<open>simp add: setup_and_execute_def same_file_def\<close>)
qed

text \<open>
  The run ended while the result of the benchmark that completed last was written: writing it
  raised \<open>e\<close>, the results on the disk are as this left them, and \<open>e\<close> is the exception of the
  run unless a tear-down raised another one.
\<close>

definition stopped_writing :: "files bench_methods \<Rightarrow> path \<Rightarrow> string \<Rightarrow> exc option \<Rightarrow> string list \<Rightarrow> files \<Rightarrow> bool" where
  "stopped_writing m out n x completed d' \<longleftrightarrow> last completed = n \<and>
     (\<exists>w w' e ns. bm_write_result m n w = (Some e, w') \<and> same_results out w' d' \<and>
        (x = Some e \<or> x \<noteq> None \<and> x = fst (teardown_benchmarks m ns w')))"

lemma setup_and_execute_results:
  assumes "careful out (pt_methods P ucfg)" "results_placed (pt_platform P) out"
    "distinct names" "set names \<inter> set (cl_completed l) = {}" "\<forall>n \<in> set names. saved_fit out (pt_recipe_of P) d n"
    "setup_and_execute P (part_methods P ucfg c format out) names l d = ((x, l'), d')"
  shows "cl_requested l' = cl_requested l \<and> (\<forall>n \<in> set names.
    if n \<in> set (cl_completed l')
    then has_valid_saved_recipe (pt_platform P) d' out n \<or>
      stopped_writing (part_methods P ucfg c format out) out n x (cl_completed l') d'
    else has_valid_saved_recipe (pt_platform P) d' out n = has_valid_saved_recipe (pt_platform P) d out n)"
proof -
  let ?m = "part_methods P ucfg c format out" and ?R = "same_results out" and ?V = "\<lambda>d. has_valid_saved_recipe (pt_platform P) d out"
  have k: "keeps_to ?R (bm_setup ?m)" "keeps_to ?R (bm_allocate ?m)" "keeps_to ?R (bm_run ?m)" "keeps_to ?R (bm_teardown ?m)"
    using assms(1) by (simp_all add: careful_def part_methods_def)
  obtain y d1 where s: "setup_benchmarks (pt_global P) (pt_priority P) ?m names d = (y, d1)" by fastforce
  have "?R d d1" by (rule setup_benchmarks_respects[OF k(1,2) _ _ s]) simp_all
  then have r1: "saved_view d1 out b = saved_view d out b" for b by (simp add: same_results_def)
  have v1: "?V d1 n = ?V d n" for n
    using has_valid_view[OF _ r1] assms(2) by (simp add: results_placed_def)
  show ?thesis
  proof (cases y)
    case (Inl e)
    then have "d' = d1" "l' = l" using assms(6) s by (auto simp: setup_and_execute_def)
    then show ?thesis using v1 assms(4) by auto
  next
    case (Inr z)
    obtain ns skipped where z: "z = (ns, skipped)" by fastforce
    let ?st = "\<lparr>rs_completed = cl_completed l, rs_failed = [], rs_world = d1\<rparr>"
    obtain x' st where e: "execute_benchmarks ?m ns ?st = (x', st)" by fastforce
    have l': "x' = x" "d' = rs_world st" "cl_completed l' = rs_completed st" "cl_requested l' = cl_requested l"
      using assms(6) s Inr z e by (auto simp: setup_and_execute_def)
    obtain bms where b: "get_recipes (pt_global P) (pt_priority P) names = Inr bms"
      and ns: "ns = filter (\<lambda>n. n \<notin> set (dkeys skipped)) bms"
      using s[unfolded Inr z] by (auto simp: setup_benchmarks_def split: sum.splits prod.splits option.splits)
    have "distinct bms" "set bms = set names"
      using get_recipes_mset[OF b] assms(3) by (metis mset_eq_imp_distinct_iff, metis mset_eq_setD)
    then have d: "distinct ns" "set ns \<subseteq> set names" by (auto simp: ns)
    have w: "bm_write_result ?m = part_writer P c format out" by (simp add: part_methods_def)
    have f: "\<forall>n \<in> set ns. saved_fit out (pt_recipe_of P) (rs_world ?st) n"
      using assms(5) d(2) r1 summary_view[OF r1] by (auto simp: saved_fit_def)
    have dj: "set ns \<inter> set (rs_completed ?st) = {}" using d(2) assms(4) by auto
    have lr: "leaves_results out (bm_run ?m)" "leaves_results out (bm_teardown ?m)" using k(3,4) by (simp_all add: leaves_results_iff)
    note ex = execute_results[OF w[unfolded part_writer_def] lr assms(2) d(1) dj f e]
    have c: "set (rs_completed st) \<subseteq> set (cl_completed l) \<union> set ns"
    proof (cases "ns = []")
      case False
      obtain q st1 where q: "run_loop ?m ns ?st = (q, st1)" by fastforce
      then have "rs_completed st = rs_completed st1" using e False by (auto simp: execute_benchmarks_def split: prod.splits)
      then show ?thesis using run_loop_completed[OF q] by simp
    qed (use e in \<open>auto simp: execute_benchmarks_def\<close>)
    have "stopped_writing ?m out n x' (rs_completed st) (rs_world st)"
      if "n \<in> set ns \<inter> set (rs_completed st)" "\<not> ?V (rs_world st) n" for n
    proof -
      from ex that have "last (rs_completed st) = n \<and> (\<exists>w w' e. bm_write_result ?m n w = (Some e, w') \<and>
        (\<forall>b. saved_view (rs_world st) out b = saved_view w' out b) \<and>
        (x' = Some e \<or> x' \<noteq> None \<and> x' = fst (teardown_benchmarks ?m ns w')))" by blast
      then show ?thesis unfolding stopped_writing_def same_results_def by blast
    qed
    then show ?thesis unfolding l'(1)[symmetric] l'(2-4) using ex v1 c assms(4) d(2) by (auto split: if_splits)
  qed
qed

text \<open>
  C17.  A run can be stopped at any point, by a signal, a failing benchmark or a full disk:
  once its manifest is written, resuming it finds the same requested benchmarks and the same
  user configuration, and runs again exactly those that have not completed and had no valid
  results before.  What has completed is not run again, with one exception: when the run ended
  because writing the result of the benchmark that completed last failed, that one may be.
  The methods of the benchmarks must neither touch saved results nor the manifest, and the
  output directory is not the cache's and holds no summary of an earlier run.
\<close>

theorem stopped_run_can_be_resumed:
  assumes "careful (ca_output_dir a) (pt_methods P user_config)" "separate_output P (ca_output_dir a)"
    and "results_placed (pt_platform P) (ca_output_dir a)"
    and "manifest_ok (pt_platform P) vp (pt_identity P) (ca_output_dir a) (ca_vars a) user_config"
    and "distinct requested" "''system-info'' \<notin> set requested" "requested \<noteq> []"
    and "\<forall>n \<in> set requested. saved_fit (ca_output_dir a) (pt_recipe_of P) d n"
    and "run_requested P a user_config c requested d = ((x, l), d')" "cl_requested l \<noteq> None"
  shows "\<exists>to_run. get_resume_run_state (pt_platform P) vp (ri_is_sudo (pt_identity P)) d' (ca_output_dir a) =
      Inr (requested, user_config, to_run) \<and>
    (\<forall>n \<in> set requested.
      if n \<in> set (cl_completed l)
      then n \<notin> set to_run \<or> stopped_writing (part_methods P user_config c (ca_format a) (ca_output_dir a))
        (ca_output_dir a) n x (cl_completed l) d'
      else n \<in> set to_run \<longleftrightarrow> \<not> has_valid_saved_recipe (pt_platform P) d (ca_output_dir a) n)"
proof -
  let ?out = "ca_output_dir a" and ?pl = "pt_platform P" and ?m = "part_methods P user_config c (ca_format a) (ca_output_dir a)"
  let ?l = "no_locals\<lparr>cl_completed := [''system-info''], cl_requested := Some requested\<rparr>"
  obtain z d1 where h: "write_asct_json_header ?pl (pt_repr P) (pt_identity P) ?out (ca_vars a) requested user_config d = (z, d1)"
    by fastforce
  have z: "z = None" using assms(9,10) h by (cases z) (auto simp: run_requested_def no_locals_def)
  have se: "setup_and_execute P ?m requested ?l d1 = ((x, l), d')"
    using assms(9) h z by (simp add: run_requested_def no_locals_def)
  note hv = header_view[OF h]
  have fit: "\<forall>n \<in> set requested. saved_fit ?out (pt_recipe_of P) d1 n"
    using assms(8) summary_view[OF hv] by (simp add: saved_fit_def)
  have v: "has_valid_saved_recipe ?pl d1 ?out n = has_valid_saved_recipe ?pl d ?out n" for n
    using has_valid_view[OF _ hv] assms(3) by (simp add: results_placed_def)
  have dj: "set requested \<inter> set (cl_completed ?l) = {}" using assms(6) by simp
  note r = setup_and_execute_results[OF assms(1,3,5) dj fit se]
  obtain b bs where rq: "requested = b # bs" using assms(7) by (cases requested) auto
  have "file_content d' (manifest_path ?out) = Some (manifest_text ?pl (pt_repr P) (pt_identity P) (ca_vars a) requested user_config)"
    using setup_and_execute_manifest[OF assms(1,2) se] write_header_reads[OF h[unfolded z]] by (simp add: file_content_def)
  then have "read_file d' (manifest_path ?out) = Inr (manifest_text ?pl (pt_repr P) (pt_identity P) (ca_vars a) (b # bs) user_config)"
    by (simp add: file_content_def rq split: sum.splits)
  from manifest_reads_back[OF this assms(4)]
  have "get_resume_run_state ?pl vp (ri_is_sudo (pt_identity P)) d' ?out =
      Inr (requested, user_config, filter (\<lambda>b. \<not> has_valid_saved_recipe ?pl d' ?out b) requested)"
    by (auto simp: get_resume_run_state_def verify_resume_manifest_sudo_status_def rq)
  then show ?thesis using r v by (auto split: if_splits)
qed


definition demo_cmd_parts :: "pv parts" where
  "demo_cmd_parts = \<lparr>pt_platform = demo_platform, pt_cache_env = demo_cache_env, pt_repr = \<lambda>v. [],
     pt_identity = demo_identity, pt_global = [hd demo_table, recipe ''c2c'' ''l'' ''CoreToCoreLatency'' ''cores'' [] [] None [] True],
     pt_table = [], pt_priority = \<lambda>n. 0, pt_fields = [], pt_to_dict = id, pt_heap = demo_heap,
     pt_methods = \<lambda>u. \<lparr>bm_setup = \<lambda>n d. (None, d), bm_allocate = \<lambda>n d. (None, d),
       bm_run = \<lambda>n d. (if n = ''cmn'' then None else Some (Exc RuntimeError ''bad''), d), bm_teardown = \<lambda>n d. (None, d),
       bm_write_result = \<lambda>n d. (None, d), bm_stop_requested = \<lambda>d. False\<rparr>,
     pt_recipe_of = \<lambda>n. demo_recipe, pt_cache_of = \<lambda>n. PNone,
     pt_reports_of = \<lambda>n. \<lparr>rp_name = n @ ''1'', rp_category = ''memory'', rp_csv = Inr [], rp_json = Inr [], rp_dict = Inr PNone\<rparr>,
     pt_sysreport = \<lambda>d. (Inr \<lparr>si_memory = [], si_sys_hw = []\<rparr>, d)\<rparr>"

definition demo_cmd_args :: cmd_args where
  "demo_cmd_args = \<lparr>ca_keywords = Inl ''all'', ca_config_file = None, ca_update_config = [], ca_dry_run = False,
     ca_dev_mode = False, ca_format = ''stdout'', ca_output_dir = [], ca_vars = demo_args\<rparr>"

definition demo_no_cache :: cache where
  "demo_no_cache = \<lparr>use_cache = False, cache_valid = False, asct_output_folder = [], is_cache_writeable = False\<rparr>"

lemma demo_run_locals:
  "fst (run_requested demo_cmd_parts demo_cmd_args [(''c2c'', PDict [(''iterations'', PInt 5)])] demo_no_cache [''cmn'', ''c2c''] []) =
     (None, \<lparr>cl_requested = Some [''cmn'', ''c2c''], cl_completed = [''system-info'', ''cmn''], cl_skipped = [], cl_failed = [(''c2c'', ''bad'')]\<rparr>)"
  by code_simp

text \<open>In the example the second benchmark fails: only it is run when the run is resumed.\<close>

theorem stopped_run_can_be_resumed_witness:
  "\<exists>l d' to_run. run_requested demo_cmd_parts demo_cmd_args [(''c2c'', PDict [(''iterations'', PInt 5)])] demo_no_cache
      [''cmn'', ''c2c''] [] = ((None, l), d') \<and>
    get_resume_run_state demo_platform demo_versions False d' [] =
      Inr ([''cmn'', ''c2c''], [(''c2c'', PDict [(''iterations'', PInt 5)])], to_run) \<and>
    ''cmn'' \<notin> set to_run \<and> ''c2c'' \<in> set to_run"
proof -
  let ?u = "[(''c2c'', PDict [(''iterations'', PInt 5)])]"
  let ?r = "run_requested demo_cmd_parts demo_cmd_args ?u demo_no_cache [''cmn'', ''c2c''] []"
  obtain l d' where r: "?r = ((None, l), d')" and l: "cl_requested l = Some [''cmn'', ''c2c'']" "cl_completed l = [''system-info'', ''cmn'']"
    using demo_run_locals by (cases ?r) auto
  have a: "careful (ca_output_dir demo_cmd_args) (pt_methods demo_cmd_parts ?u)"
    by (simp add: careful_def demo_cmd_parts_def keeps_to_def same_results_def same_file_def)
  have "last n = CHR ''t''" if "n = ''asct''" for n using that by simp
  then have s: "separate_output demo_cmd_parts (ca_output_dir demo_cmd_args)"
    by (auto simp: separate_output_def demo_cmd_parts_def demo_cmd_args_def cache_directory_def ASCT_CACHE_DIR_def)
  have p: "results_placed (pt_platform demo_cmd_parts) (ca_output_dir demo_cmd_args)"
    using demo_machine by (simp add: results_placed_def demo_cmd_parts_def demo_cmd_args_def)
  have m: "manifest_ok (pt_platform demo_cmd_parts) demo_versions (pt_identity demo_cmd_parts) (ca_output_dir demo_cmd_args)
      (ca_vars demo_cmd_args) ?u"
    using demo_manifest_fits by (simp add: demo_cmd_parts_def demo_cmd_args_def)
  have f: "\<forall>n \<in> set [''cmn'', ''c2c'']. saved_fit (ca_output_dir demo_cmd_args) (pt_recipe_of demo_cmd_parts) [] n"
    by (simp add: saved_fit_def demo_cmd_parts_def demo_recipe_def new_recipe_base_def file_content_def read_file_def)
  have nv: "\<not> has_valid_saved_recipe demo_platform [] [] ''c2c''" by code_simp
  have d: "distinct [''cmn'', ''c2c'']" "''system-info'' \<notin> set [''cmn'', ''c2c'']" "[''cmn'', ''c2c''] \<noteq> []" "cl_requested l \<noteq> None"
    using l by simp_all
  from stopped_run_can_be_resumed[OF a s p m d(1-3) f r d(4)] nv r l show ?thesis
    by (auto simp: stopped_writing_def demo_cmd_parts_def demo_cmd_args_def demo_identity_def)
qed

section \<open>The lock around a command\<close>

lemma retry_loop_frame:
  assumes "foreign_env env p"
  shows "lock_ready pl m p w \<Longrightarrow> 0 \<in> set (lw_fds w p) \<Longrightarrow> retry_loop n (retried_attempt pl p m env) (i, w) = (v, i', w') \<Longrightarrow>
    lw_fs w' = lw_fs w \<and>
    (case handle_of v of
       None \<Rightarrow> lw_fds w' p = lw_fds w p \<and> (\<forall>fd. lw_holder w' \<noteq> Some (p, fd))
     | Some fd \<Rightarrow> fd \<noteq> 0 \<and> lw_fds w' p = fd # lw_fds w p \<and> lw_holder w' = Some (p, fd))"
proof (induction n arbitrary: i w)
  case (Suc n)
  have own: "\<And>h. lw_holder w = Some h \<Longrightarrow> fst h = p \<Longrightarrow> snd h \<in> set (lw_fds w p)"
    using Suc.prems(1) by (auto simp: lock_ready_def)
  have at: "path_exists (lw_fs w) (lock_dir_path m)" "\<not> cannot_read pl (lock_dir_path m)"
    using Suc.prems(1) by (auto simp: lock_ready_def)
  show ?case
  proof (cases "lw_holder w = None")
    case True
    note a = attempt_lock_cases(1)[OF at Suc.prems(2) own True]
    have "truthy (PInt (int (lowest_free (lw_fds w p))))" using lowest_free_pos[OF Suc.prems(2)] by simp
    then show ?thesis using Suc.prems(3) lowest_free_pos[OF Suc.prems(2)]
      by (auto simp: retried_attempt_def a handle_of_def)
  next
    case False
    note a = attempt_lock_cases(2)[OF at Suc.prems(2) own False]
    have e: "lw_fds (env i w) p = lw_fds w p" "lw_fs (env i w) = lw_fs w" using assms by (simp_all add: foreign_env_def)
    have "retry_loop n (retried_attempt pl p m env) (Suc i, env i w) = (v, i', w')"
      using Suc.prems(3) by (simp add: retried_attempt_def a)
    from Suc.IH[OF lock_ready_env[OF assms Suc.prems(1)] _ this] Suc.prems(2) show ?thesis by (cases "handle_of v") (simp_all add: e)
  qed
qed (auto simp: handle_of_def lock_ready_def)

lemma mutex_enter_frame:
  assumes "foreign_env env p" "\<not> cannot_read pl (lock_dir_path m)" "\<forall>fd. lw_holder w \<noteq> Some (p, fd)"
    "0 \<in> set (lw_fds w p)" "mx_handle m = None" "mutex_enter pl p env m w = (e, m', w')"
  shows "case mx_handle m' of
       None \<Rightarrow> lw_fds w' p = lw_fds w p \<and> (\<forall>fd. lw_holder w' \<noteq> Some (p, fd))
     | Some fd \<Rightarrow> e = None \<and> fd \<noteq> 0 \<and> lw_fds w' p = fd # lw_fds w p \<and> lw_holder w' = Some (p, fd)"
proof -
  obtain r m1 w1 where pr: "prepare_lock pl m w = (r, m1, w1)" using prod_cases3 by blast
  have f: "lw_holder w1 = lw_holder w" "lw_fds w1 = lw_fds w" using prepare_lock_frame[OF pr] by simp_all
  have h: "mx_handle m1 = None" using pr assms(5) by (auto simp: prepare_lock_def Let_def split: if_splits prod.splits option.splits)
  show ?thesis
  proof (cases "r = Inr True")
    case True
    note rd = prepare_lock_ready[OF pr[unfolded True]]
    obtain v i w2 where v: "retry (mx_retry_count m) (retried_attempt pl p m env) (0, w1) = (v, i, w2)"
      using prod_cases3 by blast
    have lr: "lock_ready pl m p w1" using rd assms(2,3) by (simp add: lock_ready_def)
    have "0 \<in> set (lw_fds w1 p)" using assms(4) f by simp
    from retry_loop_frame[OF assms(1) lr this v[unfolded retry_def]]
    have "case handle_of v of
       None \<Rightarrow> lw_fds w2 p = lw_fds w1 p \<and> (\<forall>fd. lw_holder w2 \<noteq> Some (p, fd))
     | Some fd \<Rightarrow> fd \<noteq> 0 \<and> lw_fds w2 p = fd # lw_fds w1 p \<and> lw_holder w2 = Some (p, fd)" by blast
    moreover have "mx_handle m' = handle_of v" "w' = w2" "e = None"
      using assms(6) pr v rd True by (auto simp: mutex_enter_def Let_def)
    ultimately show ?thesis using f by (cases "handle_of v") simp_all
  next
    case False
    then have "mx_handle m' = None \<and> w' = w1"
      using assms(6) pr h by (cases r) (auto simp: mutex_enter_def split: bool.splits)
    then show ?thesis using f assms(3) by simp
  qed
qed

text \<open>
  C18.  A command runs its benchmarks only while it holds the application lock, and gives the
  lock back however it ends.  Let \<open>w1\<close> be the world that entering the lock leaves: without a
  handle the body does not run, the command ends with an exception and nothing is changed
  after \<open>w1\<close>; with a handle this process is the owner in \<open>w1\<close>, and the body runs exactly
  there.  Afterwards the process has its old descriptors and no lock.  In developer mode the
  body runs without touching the lock.  Standard input is open (descriptor 0 is not free),
  and while this process waits the others change neither the disk nor its descriptors.
\<close>

theorem command_runs_under_lock:
  assumes "foreign_env others p" "\<not> cannot_read pl (lock_dir_path (new_mutex ''_asct_'' 5))"
    and "\<forall>fd. lw_holder w \<noteq> Some (p, fd)" "0 \<in> set (lw_fds w p)"
    and "mutex_enter pl p others (new_mutex ''_asct_'' 5) w = (e, m, w1)"
    and "with_context pl p others dev_mode body w = (r, w')"
  shows "lw_fds w' p = lw_fds w p \<and> (\<forall>fd. lw_holder w' \<noteq> Some (p, fd)) \<and>
    (if dev_mode then body (lw_fs w) = (r, lw_fs w') \<and> w' = w\<lparr>lw_fs := lw_fs w'\<rparr>
     else case mx_handle m of
       None \<Rightarrow> w' = w1 \<and> (\<exists>e'. r = (Some e', no_locals))
     | Some fd \<Rightarrow> lw_holder w1 = Some (p, fd) \<and> body (lw_fs w1) = (r, lw_fs w'))"
proof (cases dev_mode)
  case True
  then show ?thesis using assms(3,6) by (auto simp: with_context_def split: prod.splits)
next
  case no_dev: False
  have "mx_handle (new_mutex ''_asct_'' 5) = None" by (simp add: new_mutex_def)
  note fr = mutex_enter_frame[OF assms(1-4) this assms(5)]
  show ?thesis
  proof (cases "mx_handle m")
    case None
    then have "w' = w1 \<and> (\<exists>e. r = (Some e, no_locals))"
      using assms(5,6) no_dev by (cases e) (auto simp: with_context_def lock_successful_def mutex_exit_def)
    then show ?thesis using fr None no_dev by auto
  next
    case (Some fd)
    then obtain fd' where fd: "fd = Suc fd'" using fr by (cases fd) auto
    obtain r' d where b: "body (lw_fs w1) = (r', d)" by fastforce
    have "e = None" using fr Some by simp
    then have r: "r = r'" "w' = mutex_exit p m (w1\<lparr>lw_fs := d\<rparr>)"
      using assms(5,6) no_dev b Some by (auto simp: with_context_def lock_successful_def)
    have x: "mutex_exit p m w2 = os_close p fd (flock_un p fd w2)" for w2 using Some fd by (simp add: mutex_exit_def)
    have "lw_fds w' p = lw_fds w p" "lw_fs w' = d" "\<forall>f. lw_holder w' \<noteq> Some (p, f)"
      using fr Some unfolding r(2) x by (auto simp: os_close_def flock_un_def)
    moreover have "lw_holder w1 = Some (p, fd)" using fr Some by simp
    ultimately show ?thesis using b r(1) Some no_dev by simp
  qed
qed

text \<open>
  In the example nobody holds the lock, so the body runs; where another process holds it all
  the time, the body does not.
\<close>

definition lock_demo_body :: "files \<Rightarrow> cmd_result" where
  "lock_demo_body d = ((None, no_locals), [])"

lemma lock_demo_runs:
  "mx_handle (fst (snd (mutex_enter demo_lock_machine 7 (\<lambda>i. id) (new_mutex ''_asct_'' 5) demo_lock_world))) = Some 3"
  "mx_handle (fst (snd (mutex_enter demo_lock_machine 7 (\<lambda>i. id) (new_mutex ''_asct_'' 5)
     (demo_lock_world\<lparr>lw_holder := Some (8, 3)\<rparr>)))) = None"
  by code_simp+

theorem command_runs_under_lock_witness:
  "(\<exists>r w'. with_context demo_lock_machine 7 (\<lambda>i. id) False lock_demo_body demo_lock_world = (r, w') \<and>
    lw_fds w' 7 = [2, 1, 0] \<and> lw_holder w' \<noteq> Some (7, 3) \<and> lw_fs w' = [] \<and> r = (None, no_locals)) \<and>
   (\<exists>r w'. with_context demo_lock_machine 7 (\<lambda>i. id) False lock_demo_body (demo_lock_world\<lparr>lw_holder := Some (8, 3)\<rparr>) = (r, w') \<and>
    lw_fds w' 7 = [2, 1, 0] \<and> fst r \<noteq> None)"
proof
  let ?en = "mutex_enter demo_lock_machine 7 (\<lambda>i. id) (new_mutex ''_asct_'' 5)"
  let ?run = "with_context demo_lock_machine 7 (\<lambda>i. id) False lock_demo_body"
  let ?taken = "demo_lock_world\<lparr>lw_holder := Some (8, 3)\<rparr>"
  have h: "foreign_env (\<lambda>i. id) 7" "\<not> cannot_read demo_lock_machine (lock_dir_path (new_mutex ''_asct_'' 5))"
    "\<forall>fd. lw_holder demo_lock_world \<noteq> Some (7, fd)" "0 \<in> set (lw_fds demo_lock_world 7)" "lw_fds demo_lock_world 7 = [2, 1, 0]"
    by (simp_all add: foreign_env_def demo_lock_machine_def demo_lock_world_def)
  have h2: "\<forall>fd. lw_holder ?taken \<noteq> Some (7, fd)" "0 \<in> set (lw_fds ?taken 7)" "lw_fds ?taken 7 = [2, 1, 0]" using h by simp_all
  obtain e m w1 where en: "?en demo_lock_world = (e, m, w1)" using prod_cases3 by blast
  obtain r w' where r: "?run demo_lock_world = (r, w')" by fastforce
  from command_runs_under_lock[OF h(1-4) en r] lock_demo_runs(1) en r h(5)
  show "\<exists>r w'. ?run demo_lock_world = (r, w') \<and>
    lw_fds w' 7 = [2, 1, 0] \<and> lw_holder w' \<noteq> Some (7, 3) \<and> lw_fs w' = [] \<and> r = (None, no_locals)"
    by (auto simp: lock_demo_body_def)
  obtain e2 m2 w2 where en2: "?en ?taken = (e2, m2, w2)" using prod_cases3 by blast
  obtain r2 w2' where r2: "?run ?taken = (r2, w2')" by fastforce
  from command_runs_under_lock[OF h(1,2) h2(1,2) en2 r2] lock_demo_runs(2) en2 r2 h2(3)
  show "\<exists>r w'. ?run ?taken = (r, w') \<and> lw_fds w' 7 = [2, 1, 0] \<and> fst r \<noteq> None" by auto
qed


section \<open>Resuming accounts for every benchmark\<close>

lemma setup_and_execute_accounts:
  assumes "setup_and_execute P m names l d = ((None, l'), d')"
  shows "(distinct names \<longrightarrow> set names \<subseteq> set (cl_completed l') \<union> set (dkeys (cl_skipped l')) \<union> set (dkeys (cl_failed l'))) \<and>
    set (cl_completed l) \<subseteq> set (cl_completed l') \<and> cl_requested l' = cl_requested l"
proof -
  obtain ns skipped d1 where s: "setup_benchmarks (pt_global P) (pt_priority P) m names d = (Inr (ns, skipped), d1)"
    using assms(1) by (auto simp: setup_and_execute_def split: prod.splits sum.splits)
  let ?st = "\<lparr>rs_completed = cl_completed l, rs_failed = [], rs_world = d1\<rparr>"
  obtain st where e: "execute_benchmarks m ns ?st = (None, st)"
    and l': "l' = l\<lparr>cl_completed := rs_completed st, cl_skipped := skipped, cl_failed := rs_failed st\<rparr>"
    using assms(1) s by (auto simp: setup_and_execute_def split: prod.splits)
  obtain bms where b: "get_recipes (pt_global P) (pt_priority P) names = Inr bms"
    and ns: "ns = filter (\<lambda>n. n \<notin> set (dkeys skipped)) bms"
    using s by (auto simp: setup_benchmarks_def split: sum.splits prod.splits option.splits)
  have m: "distinct bms \<longleftrightarrow> distinct names" "set bms = set names"
    using get_recipes_mset[OF b] by (metis mset_eq_imp_distinct_iff, metis mset_eq_setD)
  have "set (cl_completed l) \<subseteq> set (rs_completed st) \<and> (distinct names \<longrightarrow> set ns \<subseteq> set (rs_completed st) \<union> set (dkeys (rs_failed st)))"
  proof (cases "ns = []")
    case False
    obtain q st1 where q: "run_loop m ns ?st = (q, st1)" by fastforce
    obtain y w where "teardown_benchmarks m ns (rs_world st1) = (y, w)" by fastforce
    then have st1: "q = None" "rs_completed st = rs_completed st1" "rs_failed st = rs_failed st1"
      using e q False by (auto simp: execute_benchmarks_def split: option.splits)
    have "distinct names \<Longrightarrow> distinct ns" using m(1) by (simp add: ns)
    then show ?thesis
      using run_loop_outcome[OF _ q[unfolded st1(1)]] run_loop_grows[OF q] unfolding st1(2,3) by fastforce
  qed (use e in \<open>auto simp: execute_benchmarks_def\<close>)
  then show ?thesis using m(2) by (auto simp: l' ns)
qed

lemma restore_completed_distinct:
  "restore_completed load bs to_run completed h = (Inr (completed', to_run'), h') \<Longrightarrow> distinct to_run \<Longrightarrow> distinct to_run'"
  by (induction load bs to_run completed h rule: restore_completed.induct) (auto split: if_splits prod.splits sum.splits)

lemma final_output_None: "final_output P a r = ((None, l), w) \<Longrightarrow> \<exists>w0. r = ((None, l), w0)"
  by (cases r; cases "fst (fst r)") (auto simp: final_output_def split: prod.splits)

lemma with_context_None:
  "with_context pl p others dev body w = ((None, l), w') \<Longrightarrow> \<exists>d d'. body d = ((None, l), d')"
  by (auto simp: with_context_def split: if_splits prod.splits option.splits)

text \<open>
  C19.  A resume that ends normally accounts for every benchmark that was requested: it is
  restored or has completed, was skipped, or has failed; nothing that was requested is lost.
\<close>

theorem resume_accounts_for_all:
  assumes "resume_command P R p others a c w = ((None, l), w')"
  shows "\<exists>requested user_config to_run.
    get_resume_run_state (pt_platform P) (rz_versions R) (rz_is_sudo R) (lw_fs w) (ca_output_dir a) =
      Inr (requested, user_config, to_run) \<and> cl_requested l = Some requested \<and> ''system-info'' \<in> set (cl_completed l) \<and>
    (distinct requested \<longrightarrow>
      set requested \<subseteq> set (cl_completed l) \<union> set (dkeys (cl_skipped l)) \<union> set (dkeys (cl_failed l)))"
proof -
  let ?out = "ca_output_dir a"
  obtain requested ucfg to_run where
    g: "get_resume_run_state (pt_platform P) (rz_versions R) (rz_is_sudo R) (lw_fs w) ?out = Inr (requested, ucfg, to_run)"
    using assms by (auto simp: resume_command_def Let_def split: sum.splits)
  obtain h d1 where m: "match_hardware R ?out (lw_fs w) = (Inr h, d1)"
    using assms g by (auto simp: resume_command_def Let_def split: sum.splits prod.splits)
  obtain completed rerun h' where rc: "restore_completed (rz_load R d1 ?out) requested to_run [] h = (Inr (completed, rerun), h')"
    using assms g m by (auto simp: resume_command_def Let_def split: sum.splits prod.splits)
  let ?l = "\<lparr>cl_requested = Some requested, cl_completed = set_add ''system-info'' (dkeys completed), cl_skipped = [], cl_failed = []\<rparr>"
  have "final_output P a (with_context (pt_platform P) p others (ca_dev_mode a)
      (setup_and_execute P (part_methods P ucfg c (ca_format a) ?out) rerun ?l) (w\<lparr>lw_fs := d1\<rparr>)) = ((None, l), w')"
    using assms g m rc by (simp add: resume_command_def Let_def)
  then obtain w0 where "with_context (pt_platform P) p others (ca_dev_mode a)
      (setup_and_execute P (part_methods P ucfg c (ca_format a) ?out) rerun ?l) (w\<lparr>lw_fs := d1\<rparr>) = ((None, l), w0)"
    using final_output_None by blast
  then obtain d d' where b: "setup_and_execute P (part_methods P ucfg c (ca_format a) ?out) rerun ?l d = ((None, l), d')"
    using with_context_None by blast
  note ac = setup_and_execute_accounts[OF b]
  have tr: "to_run = filter (\<lambda>b. \<not> has_valid_saved_recipe (pt_platform P) (lw_fs w) ?out b) requested"
    using g by (auto simp: get_resume_run_state_def bindr_Inr_iff)
  have "set requested \<subseteq> set (cl_completed l) \<union> set (dkeys (cl_skipped l)) \<union> set (dkeys (cl_failed l))" if "distinct requested"
  proof -
    have "distinct rerun" using restore_completed_distinct[OF rc] that tr by simp
    moreover have "set (dkeys completed) = set requested - set rerun" using restore_completed_spec[OF rc that] by simp
    ultimately show ?thesis using ac by auto
  qed
  then show ?thesis using g ac by auto
qed

definition demo_resume_parts :: "(pv, string) resume_parts" where
  "demo_resume_parts = \<lparr>rz_versions = demo_versions, rz_is_sudo = False,
     rz_load = \<lambda>d out b h. (if b = ''system-info'' then (Inr demo_recipe, h)
       else load_saved_recipe demo_platform Inr False demo_table (\<lambda>c. []) d out b True h),
     rz_saved_hw = \<lambda>r. (True, [(''cores'', PInt 64)]), rz_shown = (\<lambda>v. []),
     rz_current_hw = \<lambda>d. (Inr [(''cores'', PInt 64)], d)\<rparr>"

definition demo_resume_world :: lock_world where
  "demo_resume_world = \<lparr>lw_fs = demo_run_files, lw_umask = 18, lw_fds = \<lambda>p. [2, 1, 0], lw_holder = None\<rparr>"

lemma demo_resume: "fst (resume_command demo_cmd_parts demo_resume_parts 7 (\<lambda>i. id) (demo_cmd_args\<lparr>ca_dev_mode := True\<rparr>)
    demo_no_cache demo_resume_world) =
  (None, \<lparr>cl_requested = Some [''c2c'', ''cmn''], cl_completed = [''cmn'', ''system-info''], cl_skipped = [], cl_failed = [(''c2c'', ''bad'')]\<rparr>)"
  by code_simp

theorem resume_accounts_for_all_witness:
  "\<exists>l w'. resume_command demo_cmd_parts demo_resume_parts 7 (\<lambda>i. id) (demo_cmd_args\<lparr>ca_dev_mode := True\<rparr>)
      demo_no_cache demo_resume_world = ((None, l), w') \<and>
    cl_failed l = [(''c2c'', ''bad'')] \<and> {''c2c'', ''cmn''} \<subseteq> set (cl_completed l) \<union> set (dkeys (cl_skipped l)) \<union> {''c2c''}"
proof -
  let ?r = "resume_command demo_cmd_parts demo_resume_parts 7 (\<lambda>i. id) (demo_cmd_args\<lparr>ca_dev_mode := True\<rparr>) demo_no_cache demo_resume_world"
  obtain l w' where r: "?r = ((None, l), w')" and l: "cl_requested l = Some [''c2c'', ''cmn'']" "cl_failed l = [(''c2c'', ''bad'')]"
    using demo_resume by (cases ?r) auto
  from resume_accounts_for_all[OF r] l
  have "distinct [''c2c'', ''cmn''] \<Longrightarrow> set [''c2c'', ''cmn''] \<subseteq> set (cl_completed l) \<union> set (dkeys (cl_skipped l)) \<union> set (dkeys (cl_failed l))"
    by auto
  then show ?thesis using r l(2) by (intro exI[of _ l] exI[of _ w']) simp
qed

section \<open>Reports\<close>

text \<open>Where nobody asks to stop, the loop of the reports is the loop of the runs.\<close>

lemma report_loop_is_run_loop:
  assumes "\<And>s. \<not> bm_stop_requested m s"
  shows "report_loop m ns st = run_loop m ns st"
proof -
  have "report_one m n st = run_one m n st" for n st
    using assms by (auto simp: report_one_def run_one_def Let_def split: prod.splits option.splits)
  then show ?thesis by (induction ns arbitrary: st) (auto split: prod.splits option.splits)
qed

text \<open>But a result that cannot be written keeps a report from tearing down what a run tears down.\<close>

lemma report_write_error_skips_teardown:
  assumes "report_loop m ns st = (Some e, st')" "\<And>s. \<not> bm_stop_requested m s" "orderly_teardown m ns" "ns \<noteq> []"
  shows "report_benchmarks m ns st = (Some e, st')"
    and "execute_benchmarks m ns st = (Some e, st'\<lparr>rs_world := teardown_all m ns (rs_world st')\<rparr>)"
  using assms(1,3,4) report_loop_is_run_loop[OF assms(2), of ns st]
  by (simp_all add: report_benchmarks_def execute_benchmarks_def teardown_benchmarks_all)

end
