(* ===== verification/Process_Control.thy ===== *)
theory Process_Control
  imports Py_Value
begin

text \<open>
  The processes that benchmarks start: \<open>ProcessWatcher\<close> of \<open>src/core/asct_env.py\<close>, which
  stops them all when the user interrupts the program, and the runners of
  \<open>src/core/benchrunner.py\<close>.  Locks are reentrant or held for a whole critical section, so
  a critical section is one step here.
\<close>

section \<open>Processes\<close>

text \<open>The clock, and for every process when it ends as things stand.\<close>

record proc_world =
  pw_now :: rat
  pw_ends :: "nat \<Rightarrow> rat option"

text \<open>How processes take signals: \<open>sigint_delay\<close> is the time to end after \<open>SIGINT\<close>, none when
  it is ignored; the rest says which calls fail.\<close>

record os_api =
  sigint_delay :: "nat \<Rightarrow> rat option"
  signal_fails :: "nat \<Rightarrow> exc option"
  wait_fails :: "nat \<Rightarrow> exc option"
  kill_fails :: "nat \<Rightarrow> exc option"

definition poll_ended :: "nat \<Rightarrow> proc_world \<Rightarrow> bool" where
  "poll_ended p w = (case pw_ends w p of None \<Rightarrow> False | Some t \<Rightarrow> t \<le> pw_now w)"

definition end_by :: "nat \<Rightarrow> rat \<Rightarrow> proc_world \<Rightarrow> proc_world" where
  "end_by p t w = w\<lparr>pw_ends := (pw_ends w)(p := Some (case pw_ends w p of None \<Rightarrow> t | Some t' \<Rightarrow> min t' t))\<rparr>"

definition send_sigint :: "os_api \<Rightarrow> nat \<Rightarrow> proc_world \<Rightarrow> exc option \<times> proc_world" where
  "send_sigint os p w = (case signal_fails os p of
     Some e \<Rightarrow> (Some e, w)
   | None \<Rightarrow> (None, case sigint_delay os p of None \<Rightarrow> w | Some d \<Rightarrow> end_by p (pw_now w + max 0 d) w))"

definition kill_process :: "os_api \<Rightarrow> nat \<Rightarrow> proc_world \<Rightarrow> exc option \<times> proc_world" where
  "kill_process os p w = (case kill_fails os p of
     Some e \<Rightarrow> (Some e, w) | None \<Rightarrow> (None, end_by p (pw_now w) w))"

text \<open>\<open>wait\<close> returns when the process has ended, or raises \<open>TimeoutExpired\<close> after the time-out.\<close>

definition wait_process :: "os_api \<Rightarrow> nat \<Rightarrow> rat \<Rightarrow> proc_world \<Rightarrow> exc option \<times> proc_world" where
  "wait_process os p timeout w = (case wait_fails os p of
     Some e \<Rightarrow> (Some e, w)
   | None \<Rightarrow> (case pw_ends w p of
       Some t \<Rightarrow> if t \<le> pw_now w + timeout then (None, w\<lparr>pw_now := max (pw_now w) t\<rparr>)
         else (Some (Exc SubprocessError ''timed out''), w\<lparr>pw_now := pw_now w + timeout\<rparr>)
     | None \<Rightarrow> (Some (Exc SubprocessError ''timed out''), w\<lparr>pw_now := pw_now w + timeout\<rparr>)))"

section \<open>The watcher\<close>

record watcher =
  wt_processes :: "nat list"
  wt_handler_installed :: bool
  wt_stop_requested :: bool

definition new_watcher :: watcher where
  "new_watcher = \<lparr>wt_processes = [], wt_handler_installed = False, wt_stop_requested = False\<rparr>"

definition watcher_initialize :: "watcher \<Rightarrow> watcher" where
  "watcher_initialize wt = (if wt_handler_installed wt then wt else wt\<lparr>wt_handler_installed := True\<rparr>)"

definition system_exit :: exc where
  "system_exit = Exc SystemExit ''130''"

definition watcher_enter :: "watcher \<Rightarrow> exc option" where
  "watcher_enter wt = (if wt_stop_requested wt then Some system_exit else None)"

definition watcher_register :: "nat \<Rightarrow> watcher \<Rightarrow> watcher" where
  "watcher_register p wt = wt\<lparr>wt_processes := List.insert p (wt_processes wt)\<rparr>"

definition watcher_unregister :: "nat option \<Rightarrow> watcher \<Rightarrow> watcher" where
  "watcher_unregister process wt = (case process of
     None \<Rightarrow> wt | Some p \<Rightarrow> wt\<lparr>wt_processes := removeAll p (wt_processes wt)\<rparr>)"

text \<open>The errors of these calls are logged, whatever they are among the caught ones.\<close>

definition SIGNAL_ERRORS :: "exc_class list" where
  "SIGNAL_ERRORS = [OSError, SubprocessError, ValueError]"

definition logged :: "exc option \<times> 'w \<Rightarrow> exc option \<times> 'w" where
  "logged = (\<lambda>(x, w). (case x of Some e \<Rightarrow> if caught SIGNAL_ERRORS e then None else Some e | None \<Rightarrow> None, w))"

fun interrupt_all :: "os_api \<Rightarrow> nat list \<Rightarrow> proc_world \<Rightarrow> exc option \<times> proc_world" where
  "interrupt_all os [] w = (None, w)"
| "interrupt_all os (p # ps) w =
     (if poll_ended p w then interrupt_all os ps w
      else case logged (send_sigint os p w) of
        (Some e, w') \<Rightarrow> (Some e, w') | (None, w') \<Rightarrow> interrupt_all os ps w')"

definition SIGINT_DEADLINE_SEC :: rat where
  "SIGINT_DEADLINE_SEC = 5"

fun await_all :: "os_api \<Rightarrow> rat \<Rightarrow> nat list \<Rightarrow> watcher \<Rightarrow> proc_world \<Rightarrow> exc option \<times> watcher \<times> proc_world" where
  "await_all os deadline [] wt w = (None, wt, w)"
| "await_all os deadline (p # ps) wt w =
     (if poll_ended p w then await_all os deadline ps (watcher_unregister (Some p) wt) w
      else case (if 0 < deadline - pw_now w then logged (wait_process os p (deadline - pw_now w) w) else (None, w)) of
        (Some e, w1) \<Rightarrow> (Some e, wt, w1)
      | (None, w1) \<Rightarrow>
          (case (if poll_ended p w1 then (None, w1) else logged (kill_process os p w1)) of
             (Some e, w2) \<Rightarrow> (Some e, wt, w2)
           | (None, w2) \<Rightarrow> await_all os deadline ps (watcher_unregister (Some p) wt) w2))"

definition stop_registered_processes :: "os_api \<Rightarrow> watcher \<Rightarrow> proc_world \<Rightarrow> exc option \<times> watcher \<times> proc_world" where
  "stop_registered_processes os wt w = (case interrupt_all os (wt_processes wt) w of
     (Some e, w') \<Rightarrow> (Some e, wt, w')
   | (None, w') \<Rightarrow> await_all os (pw_now w' + SIGINT_DEADLINE_SEC) (wt_processes wt) wt w')"

text \<open>The handler; \<open>tracker\<close> is what stopping the progress display raises.  The time that this takes
  to join the drawing thread is not on the clock.\<close>

definition handle_sigint :: "os_api \<Rightarrow> exc option \<Rightarrow> watcher \<Rightarrow> proc_world \<Rightarrow> exc \<times> watcher \<times> proc_world" where
  "handle_sigint os tracker wt w =
     (let wt' = wt\<lparr>wt_stop_requested := True, wt_handler_installed := False\<rparr> in
      case tracker of
        Some e \<Rightarrow> if caught [RuntimeError, OSError, ValueError] e
          then (case stop_registered_processes os wt' w of
              (Some e', wt'', w') \<Rightarrow> (e', wt'', w') | (None, wt'', w') \<Rightarrow> (system_exit, wt'', w'))
          else (e, wt', w)
      | None \<Rightarrow> (case stop_registered_processes os wt' w of
              (Some e', wt'', w') \<Rightarrow> (e', wt'', w') | (None, wt'', w') \<Rightarrow> (system_exit, wt'', w')))"

section \<open>Interrupting stops every process\<close>

text \<open>The failing calls raise what the code expects.\<close>

definition expected_failures :: "os_api \<Rightarrow> bool" where
  "expected_failures os \<longleftrightarrow> (\<forall>p e. signal_fails os p = Some e \<or> wait_fails os p = Some e \<or> kill_fails os p = Some e \<longrightarrow>
     caught SIGNAL_ERRORS e)"

lemma timed_out_caught: "caught SIGNAL_ERRORS (Exc SubprocessError ''timed out'')"
  by (simp add: caught_def SIGNAL_ERRORS_def)

lemma end_by_ended: "poll_ended q w \<Longrightarrow> poll_ended q (end_by p t w)"
  by (auto simp: poll_ended_def end_by_def split: option.splits)

lemma send_sigint_ok:
  assumes "expected_failures os" "logged (send_sigint os p w) = (x, w')"
  shows "x = None \<and> pw_now w' = pw_now w \<and> (\<forall>q. poll_ended q w \<longrightarrow> poll_ended q w')"
  using assms by (auto simp: logged_def send_sigint_def expected_failures_def end_by_ended split: option.splits)
    (auto simp: end_by_def)

lemma interrupt_all_ok:
  "expected_failures os \<Longrightarrow> interrupt_all os ps w = (x, w') \<Longrightarrow>
    x = None \<and> pw_now w' = pw_now w \<and> (\<forall>q. poll_ended q w \<longrightarrow> poll_ended q w')"
proof (induction ps arbitrary: w)
  case (Cons p ps)
  show ?case
  proof (cases "poll_ended p w")
    case False
    obtain y w1 where s: "logged (send_sigint os p w) = (y, w1)" by fastforce
    with send_sigint_ok[OF Cons.prems(1) s] Cons.IH[OF Cons.prems(1), of w1] Cons.prems(2) False show ?thesis by auto
  qed (use Cons in auto)
qed simp

lemma wait_process_ok:
  assumes "expected_failures os" "0 < timeout" "logged (wait_process os p timeout w) = (x, w')"
  shows "x = None \<and> pw_now w \<le> pw_now w' \<and> pw_now w' \<le> pw_now w + timeout \<and> pw_ends w' = pw_ends w"
  using assms timed_out_caught
  by (auto simp: logged_def wait_process_def expected_failures_def split: option.splits if_splits)

lemma kill_process_ok:
  assumes "expected_failures os" "logged (kill_process os p w) = (x, w')"
  shows "x = None \<and> pw_now w' = pw_now w \<and> (\<forall>q. poll_ended q w \<longrightarrow> poll_ended q w') \<and>
    (kill_fails os p = None \<longrightarrow> poll_ended p w')"
  using assms by (auto simp: logged_def kill_process_def expected_failures_def end_by_ended split: option.splits)
    (auto simp: poll_ended_def end_by_def split: option.splits)

lemma ended_later: "poll_ended q w \<Longrightarrow> pw_ends w' = pw_ends w \<Longrightarrow> pw_now w \<le> pw_now w' \<Longrightarrow> poll_ended q w'"
  by (auto simp: poll_ended_def split: option.splits)

lemma await_all_ok:
  assumes "expected_failures os"
  shows "await_all os deadline ps wt w = (x, wt', w') \<Longrightarrow>
    x = None \<and> wt' = wt\<lparr>wt_processes := filter (\<lambda>p. p \<notin> set ps) (wt_processes wt)\<rparr> \<and>
    pw_now w \<le> pw_now w' \<and> pw_now w' \<le> max (pw_now w) deadline \<and>
    (\<forall>q. poll_ended q w \<longrightarrow> poll_ended q w') \<and>
    (\<forall>p \<in> set ps. poll_ended p w' \<or> kill_fails os p \<noteq> None)"
proof (induction ps arbitrary: wt w)
  case (Cons p ps)
  let ?wt = "watcher_unregister (Some p) wt"
  have f: "?wt\<lparr>wt_processes := filter (\<lambda>q. q \<notin> set ps) (wt_processes ?wt)\<rparr> =
      wt\<lparr>wt_processes := filter (\<lambda>q. q \<notin> set (p # ps)) (wt_processes wt)\<rparr>"
    by (cases wt) (auto simp: watcher_unregister_def removeAll_filter_not_eq intro: filter_cong)
  show ?case
  proof (cases "poll_ended p w")
    case True
    then show ?thesis using Cons.IH[of ?wt w] Cons.prems f by auto
  next
    case False
    let ?m = "if 0 < deadline - pw_now w then logged (wait_process os p (deadline - pw_now w) w) else (None, w)"
    obtain y1 w1 where w1: "?m = (y1, w1)" by fastforce
    have t1: "y1 = None" "pw_now w \<le> pw_now w1" "pw_now w1 \<le> max (pw_now w) deadline" "pw_ends w1 = pw_ends w"
      using w1 wait_process_ok[OF assms, of "deadline - pw_now w" p w y1 w1] by (auto split: if_splits)
    let ?k = "if poll_ended p w1 then (None, w1) else logged (kill_process os p w1)"
    obtain y2 w2 where w2: "?k = (y2, w2)" by fastforce
    have t2: "y2 = None" "pw_now w2 = pw_now w1" "\<And>q. poll_ended q w1 \<Longrightarrow> poll_ended q w2" "poll_ended p w2 \<or> kill_fails os p \<noteq> None"
      using w2 kill_process_ok[OF assms, of p w1 y2 w2] by (auto split: if_splits)
    note l = ended_later[OF _ t1(4,2)]
    have "await_all os deadline ps ?wt w2 = (x, wt', w')" using Cons.prems False w1 w2 by (simp add: t1(1) t2(1))
    from Cons.IH[OF this] f t1 t2 l show ?thesis by auto
  qed
qed simp

text \<open>
  C24.  An interrupt stops the program and what it started: the handler ends with the exit
  code 130, at most five seconds later, every registered process has ended unless it could not
  even be killed, none is left registered, and nothing new can be started or set up.
\<close>

theorem interrupt_stops_every_process:
  assumes "expected_failures os" "tracker = None \<or> caught [RuntimeError, OSError, ValueError] (the tracker)"
  shows "\<exists>wt' w'. handle_sigint os tracker wt w = (system_exit, wt', w') \<and>
    pw_now w \<le> pw_now w' \<and> pw_now w' \<le> pw_now w + SIGINT_DEADLINE_SEC \<and>
    (\<forall>p \<in> set (wt_processes wt). poll_ended p w' \<or> kill_fails os p \<noteq> None) \<and>
    wt_processes wt' = [] \<and> watcher_enter wt' = Some system_exit"
proof -
  let ?wt = "wt\<lparr>wt_stop_requested := True, wt_handler_installed := False\<rparr>"
  obtain y1 w1 where i: "interrupt_all os (wt_processes wt) w = (y1, w1)" by fastforce
  note i' = interrupt_all_ok[OF assms(1) i]
  obtain y2 wt' w' where a: "await_all os (pw_now w1 + SIGINT_DEADLINE_SEC) (wt_processes wt) ?wt w1 = (y2, wt', w')"
    using prod_cases3 by blast
  note a' = await_all_ok[OF assms(1) a]
  have s: "stop_registered_processes os ?wt w = (None, wt', w')" using i i' a a' by (simp add: stop_registered_processes_def)
  have "handle_sigint os tracker wt w = (system_exit, wt', w')"
    using assms(2) s by (auto simp: handle_sigint_def Let_def split: option.split)
  then show ?thesis using a' i' by (auto simp: SIGINT_DEADLINE_SEC_def watcher_enter_def filter_empty_conv)
qed

text \<open>One process ends on \<open>SIGINT\<close>, one ignores it, one cannot be killed.\<close>

definition demo_os :: os_api where
  "demo_os = \<lparr>sigint_delay = (\<lambda>p. if p = 1 then Some 2 else None), signal_fails = (\<lambda>p. None), wait_fails = (\<lambda>p. None),
     kill_fails = (\<lambda>p. if p = 3 then Some (Exc PermissionError []) else None)\<rparr>"

definition demo_watcher :: watcher where
  "demo_watcher = watcher_register 3 (watcher_register 2 (watcher_register 1 (watcher_initialize new_watcher)))"

theorem interrupt_stops_every_process_witness:
  "\<exists>wt' w'. handle_sigint demo_os None demo_watcher \<lparr>pw_now = 0, pw_ends = \<lambda>p. None\<rparr> = (system_exit, wt', w') \<and>
    poll_ended 1 w' \<and> poll_ended 2 w' \<and> pw_now w' \<le> 5"
proof -
  have e: "expected_failures demo_os"
    by (auto simp: expected_failures_def demo_os_def caught_def SIGNAL_ERRORS_def split: if_splits)
  have m: "set (wt_processes demo_watcher) = {1, 2, 3}"
    by (auto simp: demo_watcher_def watcher_register_def watcher_initialize_def new_watcher_def)
  show ?thesis
    using interrupt_stops_every_process[OF e, of None demo_watcher "\<lparr>pw_now = 0, pw_ends = \<lambda>p. None\<rparr>"] m
    by (auto simp: demo_os_def SIGINT_DEADLINE_SEC_def)
qed

section \<open>Runners\<close>

text \<open>
  A command is executed by starting a process, which raises what the program's start raises,
  and registering it; no process is started once a stop was requested.
\<close>

record runner =
  rn_env :: "(string, string) dict"
  rn_stdout :: "string option"
  rn_stderr :: "string option"
  rn_retcode :: "int option"
  rn_cwd :: "string option"
  rn_current_proc :: "nat option"

definition new_runner :: "(string, string) dict \<Rightarrow> string option \<Rightarrow> runner" where
  "new_runner environ cwd = \<lparr>rn_env = environ, rn_stdout = None, rn_stderr = None, rn_retcode = None,
     rn_cwd = cwd, rn_current_proc = None\<rparr>"

definition update_env :: "(string, string) dict \<Rightarrow> runner \<Rightarrow> runner" where
  "update_env env r = r\<lparr>rn_env := dupdate (rn_env r) env\<rparr>"

text \<open>What the operating system makes of a command in an environment and a directory: an
  error, or a process with its output, error output and exit code, and the error that reading
  them raises (an output that is no text in the locale's encoding).\<close>

record launch =
  la_pid :: nat
  la_stdout :: string
  la_stderr :: string
  la_code :: int
  la_communicate :: "exc option"

type_synonym launcher = "string list \<Rightarrow> (string, string) dict \<Rightarrow> string option \<Rightarrow> launch res"

definition execute_command :: "launcher \<Rightarrow> string list \<Rightarrow> runner \<Rightarrow> watcher \<Rightarrow> launch res \<times> runner \<times> watcher" where
  "execute_command popen cmd r wt = (case watcher_enter wt of
     Some e \<Rightarrow> (Inl e, r, wt)
   | None \<Rightarrow> (case popen cmd (rn_env r) (rn_cwd r) of
       Inl e \<Rightarrow> (Inl e, r, wt)
     | Inr l \<Rightarrow> (Inr l, r\<lparr>rn_current_proc := Some (la_pid l)\<rparr>, watcher_register (la_pid l) wt)))"

definition COMMAND_ERRORS :: "exc_class list" where
  "COMMAND_ERRORS = [OSError, SubprocessError, RuntimeError, ValueError]"

text \<open>\<open>SyncRunner.run\<close>: a failing command and an exit code other than 0 both end as the return
  code 255; the process is unregistered in every case.\<close>

definition sync_run :: "launcher \<Rightarrow> string list \<Rightarrow> runner \<Rightarrow> watcher \<Rightarrow> exc option \<times> runner \<times> watcher" where
  "sync_run popen cmd r wt =
     (if cmd = [] then (Some (Exc ValueError ''SyncRunner: cmd must be a list''), r, wt)
      else let (x, r1, wt1) = execute_command popen cmd r wt;
          unreg = (\<lambda>r'. watcher_unregister (rn_current_proc r') wt1)
      in case x of
        Inl e \<Rightarrow> if caught COMMAND_ERRORS e then (None, r1\<lparr>rn_retcode := Some 255\<rparr>, unreg r1) else (Some e, r1, unreg r1)
      | Inr l \<Rightarrow> (case la_communicate l of
          Some e \<Rightarrow> if caught COMMAND_ERRORS e then (None, r1\<lparr>rn_retcode := Some 255\<rparr>, unreg r1) else (Some e, r1, unreg r1)
        | None \<Rightarrow>
          let r2 = r1\<lparr>rn_stdout := Some (la_stdout l), rn_stderr := Some (la_stderr l), rn_retcode := Some (la_code l)\<rparr>
          in if la_code l \<noteq> 0 then (None, r2\<lparr>rn_retcode := Some 255\<rparr>, unreg r2) else (None, r2, unreg r2)))"

text \<open>The specification of a benchmark builds the command and reads the output.\<close>

record 'a bmk_spec =
  bs_cmd :: "string list"
  bs_check_output :: "runner \<Rightarrow> exc option"
  bs_process_output :: "runner \<Rightarrow> 'a res"

definition collect_results :: "'a bmk_spec \<Rightarrow> runner \<Rightarrow> 'a res" where
  "collect_results spec r = (case bs_check_output spec r of Some e \<Rightarrow> Inl e | None \<Rightarrow> bs_process_output spec r)"

definition run_and_collect_results :: "launcher \<Rightarrow> 'a bmk_spec \<Rightarrow> runner \<Rightarrow> watcher \<Rightarrow> 'a res \<times> runner \<times> watcher" where
  "run_and_collect_results popen spec r wt = (case sync_run popen (bs_cmd spec) r wt of
     (Some e, r', wt') \<Rightarrow> (Inl e, r', wt')
   | (None, r', wt') \<Rightarrow>
       if rn_retcode r' \<noteq> Some 0 then (Inl (Exc RuntimeError ''Failed running benchmark command''), r', wt')
       else (collect_results spec r', r', wt'))"

text \<open>
  A benchmark's results are collected from a command that succeeded and from no other:
  a value comes back exactly when the program was started, ended with code 0 and its output
  passed the check, and then it is what the specification reads from that output; and the
  process never stays registered.
\<close>

theorem results_only_from_success:
  "(fst (run_and_collect_results popen spec r wt) = Inr v \<longleftrightarrow>
     bs_cmd spec \<noteq> [] \<and> \<not> wt_stop_requested wt \<and>
     (\<exists>l r'. popen (bs_cmd spec) (rn_env r) (rn_cwd r) = Inr l \<and> la_communicate l = None \<and> la_code l = 0 \<and>
       r' = r\<lparr>rn_current_proc := Some (la_pid l), rn_stdout := Some (la_stdout l),
              rn_stderr := Some (la_stderr l), rn_retcode := Some 0\<rparr> \<and>
       bs_check_output spec r' = None \<and> bs_process_output spec r' = Inr v)) \<and>
   set (wt_processes (snd (snd (run_and_collect_results popen spec r wt)))) \<subseteq> set (wt_processes wt)"
proof (cases "bs_cmd spec = [] \<or> wt_stop_requested wt")
  case True
  then show ?thesis
    by (auto simp: run_and_collect_results_def sync_run_def execute_command_def watcher_enter_def system_exit_def
        caught_def COMMAND_ERRORS_def Let_def watcher_unregister_def split: option.split)
next
  case False
  show ?thesis
  proof (cases "popen (bs_cmd spec) (rn_env r) (rn_cwd r)")
    case (Inl e)
    with False show ?thesis
      by (auto simp: run_and_collect_results_def sync_run_def execute_command_def watcher_enter_def
          watcher_unregister_def split: option.split)
  next
    case (Inr l)
    with False show ?thesis
      by (auto simp: run_and_collect_results_def sync_run_def execute_command_def watcher_enter_def Let_def
          watcher_unregister_def watcher_register_def collect_results_def split: option.split if_splits)
  qed
qed

section \<open>A load in the background\<close>

text \<open>
  \<open>AsyncRunner\<close>: a thread runs a command over and over until it fails or the main thread
  asks it to stop.  The thread and the main thread share the runner's lock, so a critical
  section of either is one step.
\<close>

datatype thread_pc = NoThread | LoopHead | Locking | Communicating nat | Ending | Ended

datatype stop_pc = Working | Joining | Joined

record async =
  as_pc :: thread_pc
  as_stop :: stop_pc
  as_stop_requested :: bool
  as_current_proc :: "nat option"
  as_retcode :: "int option"
  as_alive :: "nat set"
  as_watched :: "nat set"
  as_next_pid :: nat

definition new_async :: async where
  "new_async = \<lparr>as_pc = NoThread, as_stop = Working, as_stop_requested = False, as_current_proc = None, as_retcode = None,
     as_alive = {}, as_watched = {}, as_next_pid = 0\<rparr>"

definition async_start :: "async \<Rightarrow> async res" where
  "async_start s = (if as_pc s \<noteq> NoThread then Inl (Exc AssertionError ''AsyncRunner already running'')
     else Inr (s\<lparr>as_stop_requested := False, as_stop := Working, as_pc := LoopHead\<rparr>))"

text \<open>\<open>stop\<close> up to the join: the process is killed, or gets \<open>SIGINT\<close> and may go on.\<close>

definition async_stop :: "bool \<Rightarrow> async \<Rightarrow> async" where
  "async_stop use_int s = s\<lparr>as_stop_requested := True, as_stop := Joining,
     as_alive := (case as_current_proc s of Some p \<Rightarrow> if use_int then as_alive s else as_alive s - {p} | None \<Rightarrow> as_alive s)\<rparr>"

definition async_spawn :: "async \<Rightarrow> async" where
  "async_spawn s = (let p = as_next_pid s in
     s\<lparr>as_current_proc := Some p, as_alive := insert p (as_alive s), as_watched := insert p (as_watched s),
       as_next_pid := Suc p, as_pc := Communicating p\<rparr>)"

text \<open>\<open>communicate\<close> has returned: the exit code counts as 0 after a stop request.\<close>

definition async_collect :: "int \<Rightarrow> async \<Rightarrow> async" where
  "async_collect code s =
     (let rc = (if as_stop_requested s then 0 else code)
      in s\<lparr>as_retcode := Some rc, as_pc := (if rc \<noteq> 0 then Ending else LoopHead)\<rparr>)"

definition async_finish :: "async \<Rightarrow> async" where
  "async_finish s = s\<lparr>as_watched := as_watched s - set_option (as_current_proc s), as_current_proc := None, as_pc := Ended\<rparr>"

text \<open>Starting the process fails with a logged error, or with \<open>SystemExit\<close> once the watcher
  stops everything, which ends the thread at once; so does an error output that cannot be decoded,
  which leaves the ended process registered.  A process counts as alive until its pipes are closed.\<close>

inductive thread_step :: "async \<Rightarrow> async \<Rightarrow> bool" where
  loop_stop: "as_pc s = LoopHead \<Longrightarrow> as_stop_requested s \<Longrightarrow> thread_step s (s\<lparr>as_pc := Ending\<rparr>)"
| loop_go: "as_pc s = LoopHead \<Longrightarrow> \<not> as_stop_requested s \<Longrightarrow> thread_step s (s\<lparr>as_pc := Locking\<rparr>)"
| lock_stop: "as_pc s = Locking \<Longrightarrow> as_stop_requested s \<Longrightarrow> thread_step s (s\<lparr>as_pc := Ending\<rparr>)"
| lock_spawn: "as_pc s = Locking \<Longrightarrow> \<not> as_stop_requested s \<Longrightarrow> thread_step s (async_spawn s)"
| lock_fail: "as_pc s = Locking \<Longrightarrow> \<not> as_stop_requested s \<Longrightarrow> thread_step s (s\<lparr>as_retcode := Some 255, as_pc := Ending\<rparr>)"
| lock_exit: "as_pc s = Locking \<Longrightarrow> \<not> as_stop_requested s \<Longrightarrow> thread_step s (s\<lparr>as_pc := Ended\<rparr>)"
| collect: "as_pc s = Communicating p \<Longrightarrow> p \<notin> as_alive s \<Longrightarrow> thread_step s (async_collect code s)"
| collect_fails: "as_pc s = Communicating p \<Longrightarrow> p \<notin> as_alive s \<Longrightarrow> thread_step s (s\<lparr>as_pc := Ended\<rparr>)"
| finish: "as_pc s = Ending \<Longrightarrow> thread_step s (async_finish s)"

inductive main_step :: "async \<Rightarrow> async \<Rightarrow> bool" where
  starts: "as_stop s \<noteq> Joining \<Longrightarrow> async_start s = Inr s' \<Longrightarrow> main_step s s'"
| stops: "as_stop s = Working \<Longrightarrow> main_step s (async_stop use_int s)"
| joins: "as_stop s = Joining \<Longrightarrow> as_pc s \<in> {Ended, NoThread} \<Longrightarrow> main_step s (s\<lparr>as_pc := NoThread, as_stop := Joined\<rparr>)"

text \<open>A process may also end by itself at any time.\<close>

inductive async_step :: "async \<Rightarrow> async \<Rightarrow> bool" where
  thread: "thread_step s s' \<Longrightarrow> async_step s s'"
| main: "main_step s s' \<Longrightarrow> async_step s s'"
| exits: "p \<in> as_alive s \<Longrightarrow> async_step s (s\<lparr>as_alive := as_alive s - {p}\<rparr>)"

inductive async_reach :: "async \<Rightarrow> bool" where
  start: "async_reach new_async"
| step: "async_reach s \<Longrightarrow> async_step s s' \<Longrightarrow> async_reach s'"

inductive_cases thread_stepE: "thread_step s s'"
inductive_cases main_stepE: "main_step s s'"
inductive_cases async_stepE: "async_step s s'"

text \<open>At most the current process runs, and only while the thread waits for it.\<close>

definition async_inv :: "async \<Rightarrow> bool" where
  "async_inv s \<longleftrightarrow> as_alive s \<subseteq> {p. as_pc s = Communicating p} \<and>
     (\<forall>p. as_pc s = Communicating p \<longrightarrow> as_current_proc s = Some p) \<and>
     (as_stop s = Joining \<longrightarrow> as_stop_requested s) \<and> (as_stop s = Joined \<longrightarrow> as_pc s = NoThread)"

lemma async_inv_step: "async_step s s' \<Longrightarrow> async_inv s \<Longrightarrow> async_inv s'"
proof (erule async_stepE)
  assume t: "thread_step s s'" and i: "async_inv s"
  show "async_inv s'"
    using t
    by (rule thread_stepE) (use i in \<open>auto simp: async_inv_def async_spawn_def Let_def async_collect_def async_finish_def\<close>)
next
  assume t: "main_step s s'" and i: "async_inv s"
  show "async_inv s'"
    using t
    by (rule main_stepE) (use i in \<open>auto simp: async_inv_def async_start_def async_stop_def split: if_splits option.splits\<close>)
next
  fix p assume "s' = s\<lparr>as_alive := as_alive s - {p}\<rparr>" "async_inv s"
  then show "async_inv s'" by (auto simp: async_inv_def)
qed

lemma async_inv_reach: "async_reach s \<Longrightarrow> async_inv s"
  by (induction rule: async_reach.induct) (simp add: async_inv_def new_async_def, rule async_inv_step)

text \<open>What the thread still does once a stop was requested and its process is gone.\<close>

fun thread_left :: "thread_pc \<Rightarrow> nat" where
  "thread_left NoThread = 0"
| "thread_left Ended = 0"
| "thread_left Ending = 1"
| "thread_left LoopHead = 2"
| "thread_left Locking = 2"
| "thread_left (Communicating p) = 3"

definition stopped :: "async \<Rightarrow> bool" where
  "stopped s \<longleftrightarrow> as_stop s = Joining \<and> as_stop_requested s \<and> as_alive s = {}"

lemma stopped_step: "thread_step s s' \<Longrightarrow> stopped s \<Longrightarrow> stopped s' \<and> thread_left (as_pc s') < thread_left (as_pc s)"
  by (erule thread_stepE) (auto simp: stopped_def async_spawn_def Let_def async_collect_def async_finish_def)

lemma stopped_progress: "stopped s \<Longrightarrow> (\<exists>s'. thread_step s s') \<or> main_step s (s\<lparr>as_pc := NoThread, as_stop := Joined\<rparr>)"
  by (cases "as_pc s") (auto simp: stopped_def intro: thread_step.intros main_step.intros)

lemma stopped_steps:
  "(thread_step ^^ n) s t \<Longrightarrow> stopped s \<Longrightarrow> stopped t \<and> n + thread_left (as_pc t) \<le> thread_left (as_pc s)"
proof (induction n arbitrary: t)
  case (Suc n)
  then obtain u where "(thread_step ^^ n) s u" "thread_step u t" by auto
  then show ?case using Suc.IH[of u] Suc.prems(2) stopped_step[of u t] by auto
qed simp

lemma async_stop_stopped: "async_inv s \<Longrightarrow> stopped (async_stop False s)"
proof -
  assume i: "async_inv s"
  have "as_alive s \<subseteq> set_option (as_current_proc s)" using i by (auto simp: async_inv_def)
  then show ?thesis by (auto simp: stopped_def async_stop_def split: option.splits)
qed

lemma thread_left_le: "thread_left pc \<le> 3"
  by (cases pc) auto



end
