(* ===== verification/Global_Settings.thy ===== *)
theory Global_Settings
  imports Py_Value Py_String
begin

text \<open>
  The global settings of \<open>src/core/asct_env.py\<close>: the execution mode and the debug options
  that come from environment variables.
\<close>

section \<open>Debug options\<close>

record debug_option =
  env_var_name :: string
  debug_var_name :: string
  debug_default :: string

definition to_bool :: "string \<Rightarrow> bool res" where
  "to_bool v =
     (if lower v \<in> {''1'', ''yes'', ''on''} then Inr True
      else if lower v \<in> {''0'', ''no'', ''off''} then Inr False
      else Inl (Exc ValueError (v @ '' could not be converted to bool'')))"

definition DEBUG_CONFIG :: "debug_option list" where
  "DEBUG_CONFIG = [
     \<lparr>env_var_name = ''ASCT_DEBUG_ENABLE_PMU'', debug_var_name = ''enable_pmu'', debug_default = ''0''\<rparr>,
     \<lparr>env_var_name = ''ASCT_DEBUG_DISABLE_HUGEPAGE_RESIZE'', debug_var_name = ''disable_hugepage_resize'', debug_default = ''0''\<rparr>]"

text \<open>An option that cannot be parsed falls back to its default, with a warning.\<close>

definition read_option :: "(string, string) dict \<Rightarrow> debug_option \<Rightarrow> bool res" where
  "read_option environ conf =
     (case to_bool (dget environ (env_var_name conf) (debug_default conf)) of
        Inr b \<Rightarrow> Inr b
      | Inl e \<Rightarrow> if caught [ValueError] e then to_bool (debug_default conf) else Inl e)"

fun read_env_vars :: "(string, string) dict \<Rightarrow> debug_option list \<Rightarrow> (string, bool) dict \<Rightarrow> (string, bool) dict res" where
  "read_env_vars environ [] cfg' = Inr cfg'"
| "read_env_vars environ (conf # cs) cfg' =
     bindr (read_option environ conf) (\<lambda>v. read_env_vars environ cs (dset (debug_var_name conf) v cfg'))"

section \<open>The settings\<close>

datatype exec_mode = EXEC_MODE_NORMAL | EXEC_MODE_QUICK | EXEC_MODE_DEV

record settings =
  st_exec_mode :: exec_mode
  st_debug_config :: "(string, bool) dict"

definition new_settings :: settings where
  "new_settings = \<lparr>st_exec_mode = EXEC_MODE_NORMAL, st_debug_config = []\<rparr>"

definition settings_read_env_vars :: "(string, string) dict \<Rightarrow> settings \<Rightarrow> settings res" where
  "settings_read_env_vars environ s =
     bindr (read_env_vars environ DEBUG_CONFIG (st_debug_config s)) (\<lambda>d. Inr (s\<lparr>st_debug_config := d\<rparr>))"

definition set_dev_mode :: "settings \<Rightarrow> settings" where
  "set_dev_mode s = s\<lparr>st_exec_mode := EXEC_MODE_DEV\<rparr>"

definition set_quick_mode :: "settings \<Rightarrow> settings" where
  "set_quick_mode s = s\<lparr>st_exec_mode := EXEC_MODE_QUICK\<rparr>"

definition dev_mode :: "settings \<Rightarrow> bool" where
  "dev_mode s \<longleftrightarrow> st_exec_mode s = EXEC_MODE_DEV"

definition quick_mode :: "settings \<Rightarrow> bool" where
  "quick_mode s \<longleftrightarrow> st_exec_mode s = EXEC_MODE_QUICK"

text \<open>An attribute the settings do not have is looked up among the debug options (the
  methods of the two classes are left out).\<close>

definition settings_attr :: "settings \<Rightarrow> string \<Rightarrow> bool res" where
  "settings_attr s name = (case map_of (st_debug_config s) name of
     Some v \<Rightarrow> Inr v | None \<Rightarrow> Inl (Exc AttributeError (name @ '' not found in ASCTGlobalSettings'')))"

text \<open>\<open>get_execution_context\<close> of \<open>src/lib/run/run_helper.py\<close>: the development mode runs
  without the lock, the name and the retries of the others are fixed.\<close>

datatype exec_context = NullContext | LockContext string nat

definition get_execution_context :: "bool \<Rightarrow> bool \<Rightarrow> settings \<Rightarrow> exec_context \<times> settings" where
  "get_execution_context arg_dev_mode arg_quick_mode s =
     (if arg_dev_mode then (NullContext, set_dev_mode s)
      else (LockContext ''_asct_'' 5, if arg_quick_mode then set_quick_mode s else s))"

section \<open>The debug options are always there\<close>

lemma read_env_vars_Inr:
  assumes "\<forall>c \<in> set cs. \<exists>b. to_bool (debug_default c) = Inr b" "distinct (map debug_var_name cs)"
  shows "\<exists>d. read_env_vars environ cs acc = Inr d \<and>
    (\<forall>k. k \<notin> debug_var_name ` set cs \<longrightarrow> map_of d k = map_of acc k) \<and>
    (\<forall>c \<in> set cs. map_of d (debug_var_name c) = Some
       (case to_bool (dget environ (env_var_name c) (debug_default c)) of Inr b \<Rightarrow> b | Inl e \<Rightarrow> projr (to_bool (debug_default c))))"
  using assms
proof (induction cs arbitrary: acc)
  case (Cons c cs)
  let ?v = "case to_bool (dget environ (env_var_name c) (debug_default c)) of Inr b \<Rightarrow> b | Inl e \<Rightarrow> projr (to_bool (debug_default c))"
  have "\<exists>b. to_bool (debug_default c) = Inr b" using Cons.prems by simp
  moreover have "to_bool x = Inl e \<Longrightarrow> caught [ValueError] e" for x e
    by (auto simp: to_bool_def caught_def split: if_splits)
  ultimately have o: "read_option environ c = Inr ?v" by (auto simp: read_option_def split: sum.splits)
  obtain d where d: "read_env_vars environ cs (dset (debug_var_name c) ?v acc) = Inr d"
    "\<And>k. k \<notin> debug_var_name ` set cs \<Longrightarrow> map_of d k = map_of (dset (debug_var_name c) ?v acc) k"
    "\<forall>c \<in> set cs. map_of d (debug_var_name c) = Some
       (case to_bool (dget environ (env_var_name c) (debug_default c)) of Inr b \<Rightarrow> b | Inl e \<Rightarrow> projr (to_bool (debug_default c)))"
    using Cons.IH[of "dset (debug_var_name c) ?v acc"] Cons.prems by auto
  have "map_of d (debug_var_name c) = Some ?v" using d(2)[of "debug_var_name c"] Cons.prems(2) by simp
  then show ?case using o d by (intro exI[of _ d]) auto
qed simp

text \<open>
  C26.  The debug options are truth values whatever the environment holds: reading never
  fails, each option has the value its variable spells, or its default (off) where the
  variable is missing or spells nothing.
\<close>

theorem debug_options_typed:
  "\<exists>s'. settings_read_env_vars environ new_settings = Inr s' \<and> st_exec_mode s' = EXEC_MODE_NORMAL \<and>
    settings_attr s' ''enable_pmu'' =
      Inr (case to_bool (dget environ ''ASCT_DEBUG_ENABLE_PMU'' ''0'') of Inr b \<Rightarrow> b | Inl e \<Rightarrow> False) \<and>
    settings_attr s' ''disable_hugepage_resize'' =
      Inr (case to_bool (dget environ ''ASCT_DEBUG_DISABLE_HUGEPAGE_RESIZE'' ''0'') of Inr b \<Rightarrow> b | Inl e \<Rightarrow> False)"
proof -
  have z: "to_bool ''0'' = Inr False" by code_simp
  have D: "\<forall>c \<in> set DEBUG_CONFIG. \<exists>b. to_bool (debug_default c) = Inr b" "distinct (map debug_var_name DEBUG_CONFIG)"
    by (auto simp: DEBUG_CONFIG_def z intro: exI[of _ False])
  from read_env_vars_Inr[OF D, of environ "[]"] obtain d where d: "read_env_vars environ DEBUG_CONFIG [] = Inr d"
    "\<And>k. k \<notin> debug_var_name ` set DEBUG_CONFIG \<Longrightarrow> map_of d k = None"
    "\<And>c. c \<in> set DEBUG_CONFIG \<Longrightarrow> map_of d (debug_var_name c) = Some
       (case to_bool (dget environ (env_var_name c) (debug_default c)) of Inr b \<Rightarrow> b | Inl e \<Rightarrow> projr (to_bool (debug_default c)))"
    by auto
  have c: "DEBUG_CONFIG ! 0 \<in> set DEBUG_CONFIG" "DEBUG_CONFIG ! 1 \<in> set DEBUG_CONFIG" by (simp_all add: DEBUG_CONFIG_def)
  have e: "map_of d ''enable_pmu'' = Some (case to_bool (dget environ ''ASCT_DEBUG_ENABLE_PMU'' ''0'') of Inr b \<Rightarrow> b | Inl e \<Rightarrow> False)"
    using d(3)[OF c(1)] by (simp add: DEBUG_CONFIG_def z cong: sum.case_cong)
  have f: "map_of d ''disable_hugepage_resize'' =
      Some (case to_bool (dget environ ''ASCT_DEBUG_DISABLE_HUGEPAGE_RESIZE'' ''0'') of Inr b \<Rightarrow> b | Inl e \<Rightarrow> False)"
    using d(3)[OF c(2)] by (simp add: DEBUG_CONFIG_def z cong: sum.case_cong)
  have "settings_read_env_vars environ new_settings = Inr (new_settings\<lparr>st_debug_config := d\<rparr>)"
    using d(1) by (simp add: settings_read_env_vars_def new_settings_def)
  then show ?thesis using e f by (simp add: settings_attr_def new_settings_def)
qed

end
