(* ===== verification/Progress_Bar.thy ===== *)
theory Progress_Bar
  imports Run_Benchmarks
begin

text \<open>
  The progress display, from \<open>src/lib/term_ui/progress_bar.py\<close> and the averager of
  \<open>src/lib/utility/numeric.py\<close>, and the loop over the steps of a benchmark in
  \<open>src/core/recipes/recipe_benchmark_base.py\<close>, which reports its progress.  The display
  draws characters beyond ASCII, so its texts are lists of code points.  Times, ratios and
  averages are rational numbers; the rounding of the one division whose result decides
  what is drawn is a parameter.
\<close>

type_synonym ustring = "nat list"

definition utext :: "string \<Rightarrow> ustring" where
  "utext s = map of_char s"

section \<open>Strings\<close>

definition adjust_string_len_to :: "ustring \<Rightarrow> nat \<Rightarrow> ustring" where
  "adjust_string_len_to current_string len =
     (if len < length current_string then take len current_string
      else current_string @ replicate (len - length current_string) 32)"

fun rotations_from :: "nat \<Rightarrow> bool \<Rightarrow> ustring \<Rightarrow> ustring list" where
  "rotations_from 0 right_mode s = []"
| "rotations_from (Suc n) right_mode s =
     (let s' = (if right_mode then last s # butlast s else tl s @ [hd s]) in s' # rotations_from n right_mode s')"

definition generate_string_rotations :: "ustring \<Rightarrow> bool \<Rightarrow> ustring list" where
  "generate_string_rotations target_string right_mode =
     target_string # rotations_from (length target_string - 1) right_mode target_string"

section \<open>Animations\<close>

record anim =
  an_chars :: "ustring list"
  an_period :: rat
  an_last :: "rat option"
  an_cur :: nat

definition new_anim :: "ustring list \<Rightarrow> rat \<Rightarrow> rat \<Rightarrow> anim" where
  "new_anim chars period now = \<lparr>an_chars = chars, an_period = period,
     an_last = (if 0 < period then Some now else None), an_cur = 0\<rparr>"

definition anim_update :: "rat \<Rightarrow> anim \<Rightarrow> anim" where
  "anim_update now c =
     (if 0 < an_period c \<and> now - the (an_last c) < an_period c then c
      else c\<lparr>an_last := (if 0 < an_period c then Some now else an_last c),
             an_cur := (an_cur c + 1) mod length (an_chars c)\<rparr>)"

definition anim_content :: "anim \<Rightarrow> ustring" where
  "anim_content c = an_chars c ! an_cur c"

text \<open>The text of a status line that is written character by character behind a cursor.\<close>

definition CURSOR_CHR :: "ustring list" where
  "CURSOR_CHR = [[0x2584], [0x25A0], [0x2580], [0x25A0]]"

definition TRANSITION_CHAR_COUNT :: nat where
  "TRANSITION_CHAR_COUNT = 2"

record status_anim =
  sa_fixed_length :: nat
  sa_content :: ustring
  sa_cursor_anim :: anim
  sa_target_string :: ustring
  sa_cur_target_char :: nat
  sa_animated :: bool

definition new_status_anim :: "nat \<Rightarrow> status_anim" where
  "new_status_anim fixed_length = \<lparr>sa_fixed_length = fixed_length, sa_content = [], sa_cursor_anim = new_anim CURSOR_CHR 0 0,
     sa_target_string = [], sa_cur_target_char = 0, sa_animated = False\<rparr>"

fun first_diff :: "ustring \<Rightarrow> ustring \<Rightarrow> nat list \<Rightarrow> nat res" where
  "first_diff new_text content [] = Inr (length content)"
| "first_diff new_text content (idx # idxs) =
     (if length new_text \<le> idx \<or> length content \<le> idx then Inl (Exc IndexError ''string index out of range'')
      else if new_text ! idx \<noteq> content ! idx then Inr idx
      else first_diff new_text content idxs)"

definition get_first_string_diff :: "ustring \<Rightarrow> status_anim \<Rightarrow> nat res" where
  "get_first_string_diff new_text s = first_diff new_text (sa_content s) [0..<sa_cur_target_char s]"

definition padded :: "nat \<Rightarrow> ustring \<Rightarrow> ustring" where
  "padded n t = adjust_string_len_to (take n t) n"

definition on_status_text_updated :: "ustring \<Rightarrow> status_anim \<Rightarrow> exc option \<times> status_anim" where
  "on_status_text_updated new_text s =
     (let s1 = s\<lparr>sa_target_string := padded (sa_fixed_length s) new_text\<rparr> in
      case get_first_string_diff (sa_target_string s1) s1 of
        Inl e \<Rightarrow> (Some e, s1)
      | Inr cur \<Rightarrow> (None, s1\<lparr>sa_cur_target_char := cur, sa_animated := True\<rparr>))"

definition status_anim_update :: "status_anim \<Rightarrow> status_anim" where
  "status_anim_update s =
     (if \<not> sa_animated s then s
      else let a = anim_update 0 (sa_cursor_anim s);
               cur = sa_cur_target_char s;
               content = take cur (sa_target_string s) @ anim_content a @ drop (cur + 1) (sa_content s);
               cur' = cur + TRANSITION_CHAR_COUNT
           in if length (sa_target_string s) + 1 \<le> cur'
              then s\<lparr>sa_cursor_anim := a, sa_content := sa_target_string s,
                     sa_cur_target_char := length (sa_target_string s), sa_animated := False\<rparr>
              else s\<lparr>sa_cursor_anim := a, sa_content := content, sa_cur_target_char := cur'\<rparr>)"

definition status_anim_get :: "status_anim \<Rightarrow> ustring" where
  "status_anim_get s = (if sa_fixed_length s = 0 then sa_content s else adjust_string_len_to (sa_content s) (sa_fixed_length s))"

section \<open>Times and steps\<close>

definition zero_padded :: "nat \<Rightarrow> nat \<Rightarrow> string" where
  "zero_padded width n = (let s = nat_str n in replicate (width - length s) CHR ''0'' @ s)"

definition format_time :: "rat \<Rightarrow> string" where
  "format_time seconds = (let s = nat \<lfloor>seconds\<rfloor> in
     zero_padded 2 (s div 3600) @ '':'' @ zero_padded 2 (s mod 3600 div 60) @ '':'' @ zero_padded 2 (s mod 3600 mod 60))"

record timer =
  ti_start :: rat
  ti_last :: rat
  ti_content :: string

definition new_timer :: "rat \<Rightarrow> timer" where
  "new_timer now = \<lparr>ti_start = now, ti_last = now, ti_content = format_time 0\<rparr>"

definition timer_update :: "rat \<Rightarrow> timer \<Rightarrow> timer" where
  "timer_update now t =
     (if now - ti_last t < 1 then t else t\<lparr>ti_content := format_time (now - ti_start t), ti_last := now\<rparr>)"

record countdown = timer +
  cd_estimated :: "rat option"
  cd_samples :: nat

definition format_eta :: "rat option \<Rightarrow> string" where
  "format_eta estimated_time = (case estimated_time of
     None \<Rightarrow> ''-??:??:??'' | Some t \<Rightarrow> CHR ''-'' # format_time (max 0 t))"

definition new_countdown :: "rat \<Rightarrow> countdown" where
  "new_countdown now = \<lparr>ti_start = now, ti_last = now, ti_content = format_eta None, cd_estimated = None, cd_samples = 0\<rparr>"

definition countdown_update :: "rat \<Rightarrow> countdown \<Rightarrow> countdown" where
  "countdown_update now t = (let delta = now - ti_last t in
     if delta < 1 then t
     else let e = map_option (\<lambda>x. max 0 (x - delta)) (cd_estimated t)
          in t\<lparr>cd_estimated := e, ti_content := format_eta e, ti_last := now\<rparr>)"

definition on_global_progress_updated :: "rat \<Rightarrow> nat \<Rightarrow> rat \<Rightarrow> countdown \<Rightarrow> countdown" where
  "on_global_progress_updated now step_idx max_steps t =
     (let n = cd_samples t + 1; avg_sample_time = (now - ti_start t) / of_nat n
      in t\<lparr>cd_samples := n, cd_estimated := Some ((max_steps - of_nat step_idx) * avg_sample_time)\<rparr>)"

text \<open>The first assignment of the original is overwritten by the second, so there are no question marks.\<close>

definition step_build :: "nat \<Rightarrow> nat \<Rightarrow> nat \<Rightarrow> nat \<Rightarrow> string" where
  "step_build digit_count offset current_step max_steps =
     (let current_step = min (current_step + offset) max_steps
      in zero_padded digit_count current_step @ ''/'' @ zero_padded digit_count max_steps)"

text \<open>
  The quotient and the difference are floats, so their rounding is a parameter.  The two limits
  are the floats next to 0.15 and 0.85.
\<close>

definition get_bar_filled_amounts :: "(rat \<Rightarrow> rat) \<Rightarrow> nat \<Rightarrow> nat \<Rightarrow> nat \<Rightarrow> nat \<times> nat" where
  "get_bar_filled_amounts rnd bar_length current_step max_steps =
     (let filled_length = rnd (of_nat (bar_length * current_step) / of_nat max_steps);
          full = nat \<lfloor>filled_length\<rfloor>;
          partial = rnd (filled_length - of_nat full)
      in if partial < 5404319552844595 / 36028797018963968 then (full, 0)
         else if 7656119366529843 / 9007199254740992 \<le> partial then (full + 1, 0) else (full, 1))"

definition bar_build :: "(rat \<Rightarrow> rat) \<Rightarrow> nat \<Rightarrow> nat \<Rightarrow> nat \<Rightarrow> ustring" where
  "bar_build rnd bar_length current_step max_steps =
     (if max_steps = 0 then replicate bar_length 32
      else case get_bar_filled_amounts rnd bar_length current_step max_steps of
        (full, partial) \<Rightarrow> replicate full 0x2593 @ replicate partial 0x2592 @ replicate (bar_length - (full + partial)) 0x2591)"

text \<open>\<open>fmt\<close> prints the ratio of an unfinished step as a percentage with one decimal.\<close>

definition percentage_build :: "(nat \<Rightarrow> nat \<Rightarrow> string) \<Rightarrow> nat \<Rightarrow> nat \<Rightarrow> string" where
  "percentage_build fmt current_step max_steps =
     (if max_steps = 0 then ''00.0%'' else if max_steps \<le> current_step then '' 100%'' else fmt current_step max_steps)"

section \<open>Averages\<close>

record averager =
  av_average :: "rat option"
  av_sum :: rat
  av_count :: rat

definition new_averager :: averager where
  "new_averager = \<lparr>av_average = None, av_sum = 0, av_count = 0\<rparr>"

definition averager_add :: "rat \<Rightarrow> averager \<Rightarrow> averager" where
  "averager_add val a = (let s = av_sum a + val; c = av_count a + 1 in \<lparr>av_average = Some (s / c), av_sum = s, av_count = c\<rparr>)"


definition averager_has_data :: "averager \<Rightarrow> bool" where
  "averager_has_data a \<longleftrightarrow> av_average a \<noteq> None"

section \<open>Components of a display\<close>

text \<open>
  One constructor per class; the numbers in front are the fixed length or digit count and the depth
  of nesting whose progress the component shows.
\<close>

datatype component =
    AnimC anim
  | TimerC timer
  | CountdownC nat countdown
  | StepC nat nat nat string
  | StatusAnimC nat status_anim
  | StaticC "nat option" nat ustring
  | PercentC nat string
  | BarC nat nat ustring

text \<open>What the display takes from its surroundings: the clock, the drawing thread and the float operations.\<close>

record 's display_env =
  de_clock :: "'s \<Rightarrow> rat"
  de_draws :: "'s \<Rightarrow> nat"
  de_round :: "rat \<Rightarrow> rat"
  de_percent :: "nat \<Rightarrow> nat \<Rightarrow> string"

fun get_depth :: "component \<Rightarrow> nat option" where
  "get_depth (CountdownC d c) = Some d"
| "get_depth (StepC n d k c) = Some d"
| "get_depth (StatusAnimC d c) = Some d"
| "get_depth (StaticC l d c) = Some d"
| "get_depth (PercentC d c) = Some d"
| "get_depth (BarC l d c) = Some d"
| "get_depth c = None"

fun component_text :: "ustring \<Rightarrow> component \<Rightarrow> exc option \<times> component" where
  "component_text t (StatusAnimC d s) = (case on_status_text_updated t s of (x, s') \<Rightarrow> (x, StatusAnimC d s'))"
| "component_text t (StaticC l d c) = (None, StaticC l d t)"
| "component_text t c = (None, c)"

fun component_progress :: "'s display_env \<Rightarrow> nat \<Rightarrow> nat \<Rightarrow> component \<Rightarrow> component" where
  "component_progress env i n (StepC w d k c) = StepC w d k (step_build w k i n)"
| "component_progress env i n (PercentC d c) = PercentC d (percentage_build (de_percent env) i n)"
| "component_progress env i n (BarC l d c) = BarC l d (bar_build (de_round env) l i n)"
| "component_progress env i n c = c"

fun component_global :: "rat \<Rightarrow> nat \<Rightarrow> rat \<Rightarrow> component \<Rightarrow> component" where
  "component_global now i n (CountdownC d c) = CountdownC d (on_global_progress_updated now i n c)"
| "component_global now i n c = c"

fun component_update :: "rat \<Rightarrow> component \<Rightarrow> component" where
  "component_update now (AnimC a) = AnimC (anim_update now a)"
| "component_update now (TimerC t) = TimerC (timer_update now t)"
| "component_update now (CountdownC d c) = CountdownC d (countdown_update now c)"
| "component_update now (StatusAnimC d s) = StatusAnimC d (status_anim_update s)"
| "component_update now c = c"

fun component_get :: "component \<Rightarrow> ustring" where
  "component_get (AnimC a) = anim_content a"
| "component_get (TimerC t) = utext (ti_content t)"
| "component_get (CountdownC d c) = utext (ti_content c)"
| "component_get (StepC w d k c) = utext c"
| "component_get (StatusAnimC d s) = status_anim_get s"
| "component_get (StaticC l d c) = (case l of None \<Rightarrow> c | Some n \<Rightarrow> if n = 0 then c else adjust_string_len_to c n)"
| "component_get (PercentC d c) = utext c"
| "component_get (BarC l d c) = (if l = 0 then c else adjust_string_len_to c l)"

fun is_idle :: "component \<Rightarrow> bool" where
  "is_idle (StatusAnimC d s) \<longleftrightarrow> \<not> sa_animated s"
| "is_idle c \<longleftrightarrow> True"

section \<open>Trackers\<close>

record tracker =
  tk_async :: bool
  tk_max_depth :: nat
  tk_extra_logging_tag :: ustring
  tk_template :: "ustring list"
  tk_components :: "component list"
  tk_terminated :: bool
  tk_written :: "ustring list"

text \<open>A template is the list of its literal parts; the components go in between.\<close>

fun fill_template :: "ustring list \<Rightarrow> ustring list \<Rightarrow> ustring" where
  "fill_template (p # ps) (f # fs) = p @ f @ fill_template ps fs"
| "fill_template ps fs = concat ps"

definition assemble_output :: "tracker \<Rightarrow> ustring" where
  "assemble_output k =
     (let output = fill_template (tk_template k) (map component_get (tk_components k))
      in if tk_async k then 13 # output else tk_extra_logging_tag k @ output)"

definition async_components :: "'s display_env \<Rightarrow> rat \<Rightarrow> component list" where
  "async_components env now =
     [AnimC (new_anim (generate_string_rotations [0x2584, 0x25A0, 0x2580, 0x25A0] False) (1/4) now),
      TimerC (new_timer now),
      CountdownC 1 (new_countdown now),
      StepC 2 0 1 (step_build 2 1 0 0),
      StatusAnimC 0 (new_status_anim 20),
      BarC 16 1 (bar_build (de_round env) 16 0 0),
      PercentC 1 (percentage_build (de_percent env) 0 0),
      StaticC (Some 32) 1 []]"

definition sync_components :: "rat \<Rightarrow> component list" where
  "sync_components now =
     [TimerC (new_timer now), StepC 2 0 1 (step_build 2 1 0 0), StaticC None 0 [],
      StepC 2 1 1 (step_build 2 1 0 0), StaticC None 1 []]"

definition new_async_tracker :: "'s display_env \<Rightarrow> rat \<Rightarrow> nat \<Rightarrow> tracker" where
  "new_async_tracker env now max_depth =
     \<lparr>tk_async = True, tk_max_depth = max_depth, tk_extra_logging_tag = [],
      tk_template = [[0x2502], 0x2502 # utext '' ASCT '' @ [0x2551], [0x2502], 0x2551 # utext '' ['', utext ''] '',
        [32, 0xBB, 32, 0x2551], utext ''('', utext '')'' @ [0x2551, 32], []],
      tk_components = async_components env now, tk_terminated = False, tk_written = []\<rparr>"

definition new_sync_tracker :: "rat \<Rightarrow> nat \<Rightarrow> ustring \<Rightarrow> tracker" where
  "new_sync_tracker now max_depth extra_log_tag =
     \<lparr>tk_async = False, tk_max_depth = max_depth, tk_extra_logging_tag = extra_log_tag,
      tk_template = map utext [[], '' ['', ''] '', '' > ('', '') '', []],
      tk_components = sync_components now, tk_terminated = False, tk_written = []\<rparr>"

definition can_notify_child :: "component \<Rightarrow> int \<Rightarrow> bool" where
  "can_notify_child child depth \<longleftrightarrow> map_option int (get_depth child) = Some depth"

fun texts_updated :: "ustring \<Rightarrow> int \<Rightarrow> component list \<Rightarrow> exc option \<times> component list" where
  "texts_updated t depth [] = (None, [])"
| "texts_updated t depth (c # cs) =
     (case if can_notify_child c depth then component_text t c else (None, c) of
        (Some e, c') \<Rightarrow> (Some e, c' # cs)
      | (None, c') \<Rightarrow> (case texts_updated t depth cs of (x, cs') \<Rightarrow> (x, c' # cs')))"

record update =
  up_text :: "ustring option"
  up_step_index :: nat
  up_step_count :: nat
  up_global_step_index :: "nat option"
  up_global_step_count :: rat
  up_step_depth :: int

definition notify_status_updated :: "'s display_env \<Rightarrow> rat \<Rightarrow> update \<Rightarrow> component list \<Rightarrow> exc option \<times> component list" where
  "notify_status_updated env now u cs =
     (case (case up_text u of None \<Rightarrow> (None, cs) | Some t \<Rightarrow> if t = [] then (None, cs) else texts_updated t (up_step_depth u) cs) of
        (Some e, cs') \<Rightarrow> (Some e, cs')
      | (None, cs') \<Rightarrow>
          (let cs1 = map (\<lambda>c. if can_notify_child c (up_step_depth u)
                              then component_progress env (up_step_index u) (up_step_count u) c else c) cs';
               cs2 = (case up_global_step_index u of
                 None \<Rightarrow> cs1
               | Some g \<Rightarrow> if g = 0 then cs1 else map (component_global now g (up_global_step_count u)) cs1)
           in (None, cs2)))"

text \<open>One turn of the drawing thread.\<close>

definition tracker_draw :: "rat \<Rightarrow> tracker \<Rightarrow> tracker" where
  "tracker_draw now k =
     (if tk_terminated k \<or> \<not> tk_async k then k
      else let k1 = k\<lparr>tk_components := map (component_update now) (tk_components k)\<rparr>
           in k1\<lparr>tk_written := tk_written k1 @ [assemble_output k1]\<rparr>)"

definition on_status_updated :: "'s display_env \<Rightarrow> rat \<Rightarrow> update \<Rightarrow> tracker \<Rightarrow> exc option \<times> tracker" where
  "on_status_updated env now u k =
     (if \<not> tk_async k \<and> tk_components k = [] then (None, k)
      else case notify_status_updated env now u (tk_components k) of
        (Some e, cs) \<Rightarrow> (Some e, k\<lparr>tk_components := cs\<rparr>)
      | (None, cs) \<Rightarrow>
          if tk_async k then (None, k\<lparr>tk_components := cs\<rparr>)
          else (let k1 = k\<lparr>tk_components := map (component_update now) cs\<rparr>
                in if up_step_depth u \<noteq> int (tk_max_depth k) - 1 then (None, k1)
                   else (None, k1\<lparr>tk_written := tk_written k1 @ [assemble_output k1]\<rparr>)))"

text \<open>Waiting: the thread draws until every component is idle.\<close>

fun wait_tracker :: "nat \<Rightarrow> rat \<Rightarrow> tracker \<Rightarrow> tracker" where
  "wait_tracker 0 now k = k"
| "wait_tracker (Suc n) now k =
     (if tk_terminated k \<or> list_all is_idle (tk_components k) then k else wait_tracker n now (tracker_draw now k))"

section \<open>Nested iterations\<close>

record iter_state =
  it_step_idx :: nat
  it_is_sized :: bool
  it_step_count :: nat
  it_depth :: int

record container =
  tc_trackers :: "tracker list option"
  tc_max_depth :: nat
  tc_global_step_index :: nat
  tc_prev_global_step_index :: nat
  tc_avg_step_count :: "averager list option"
  tc_active :: bool
  tc_iter_stack :: "iter_state option list option"
  tc_iter_depth :: int

definition new_container :: container where
  "new_container = \<lparr>tc_trackers = None, tc_max_depth = 0, tc_global_step_index = 0, tc_prev_global_step_index = 0,
     tc_avg_step_count = None, tc_active = False, tc_iter_stack = None, tc_iter_depth = -1\<rparr>"

definition LOGGER_TAG_ONLY_FILE :: ustring where
  "LOGGER_TAG_ONLY_FILE = utext ''!file!''"

definition initialize_container :: "'s display_env \<Rightarrow> rat \<Rightarrow> nat \<Rightarrow> bool \<Rightarrow> bool \<Rightarrow> bool \<Rightarrow> container \<Rightarrow> container" where
  "initialize_container env now max_depth enable_terminal terminal_async enable_file c =
     (let c1 = c\<lparr>tc_trackers := Some [], tc_active := enable_terminal \<or> enable_file\<rparr> in
      if \<not> tc_active c1 then c1
      else let c2 = c1\<lparr>tc_max_depth := max_depth, tc_iter_stack := Some (replicate max_depth None),
                       tc_avg_step_count := Some (replicate max_depth new_averager)\<rparr>;
               term = (if \<not> enable_terminal then [] else if terminal_async then [new_async_tracker env now max_depth]
                       else [new_sync_tracker now max_depth []]);
               file = (if enable_terminal \<and> \<not> terminal_async then [] else if enable_file
                       then [new_sync_tracker now max_depth LOGGER_TAG_ONLY_FILE] else [])
           in c2\<lparr>tc_trackers := Some (term @ file)\<rparr>)"

text \<open>Indexing a list: a negative index counts from the end; \<open>None\<close> is not subscriptable.\<close>

definition py_index :: "nat \<Rightarrow> int \<Rightarrow> nat res" where
  "py_index n i =
     (if - int n \<le> i \<and> i < int n then Inr (nat (if i < 0 then i + int n else i))
      else Inl (Exc IndexError ''list index out of range''))"

definition none_type :: string where
  "none_type = CHR 0x27 # ''NoneType'' @ CHR 0x27 # '' object ''"

definition subscript :: "'a list option \<Rightarrow> int \<Rightarrow> nat res" where
  "subscript xs i = (case xs of None \<Rightarrow> Inl (Exc TypeError (none_type @ ''is not subscriptable''))
                     | Some ys \<Rightarrow> py_index (length ys) i)"

definition estimated_step_count :: "averager \<Rightarrow> iter_state option \<Rightarrow> rat" where
  "estimated_step_count a it =
     (case av_average a of Some r \<Rightarrow> r
      | None \<Rightarrow> (case it of None \<Rightarrow> 1 | Some i \<Rightarrow> of_nat (max (it_step_count i) 1)))"

definition get_estimated_global_step_count :: "container \<Rightarrow> rat" where
  "get_estimated_global_step_count c =
     prod_list (map2 estimated_step_count (the (tc_avg_step_count c)) (the (tc_iter_stack c)))"

fun update_children :: "(tracker \<Rightarrow> exc option \<times> tracker) \<Rightarrow> tracker list \<Rightarrow> exc option \<times> tracker list" where
  "update_children f [] = (None, [])"
| "update_children f (k # ks) =
     (case f k of
        (Some e, k') \<Rightarrow> (Some e, k' # ks)
      | (None, k') \<Rightarrow> (case update_children f ks of (x, ks') \<Rightarrow> (x, k' # ks')))"

definition update_children_status :: "'s display_env \<Rightarrow> 's \<Rightarrow> bool \<Rightarrow> update \<Rightarrow> container \<Rightarrow> exc option \<times> container" where
  "update_children_status env w only_async u c =
     (let ks = map (\<lambda>k. (tracker_draw (de_clock env w) ^^ de_draws env w) k) (the (tc_trackers c)) in
      case update_children (\<lambda>k. if only_async \<and> \<not> tk_async k then (None, k) else on_status_updated env (de_clock env w) u k) ks of
        (x, ks') \<Rightarrow> (x, c\<lparr>tc_trackers := Some ks'\<rparr>))"

definition on_exit_iteration_block :: "container \<Rightarrow> exc option \<times> container" where
  "on_exit_iteration_block c =
     (case subscript (tc_avg_step_count c) (tc_iter_depth c) of
        Inl e \<Rightarrow> (Some e, c)
      | Inr i \<Rightarrow>
          (case the (tc_iter_stack c) ! i of
             None \<Rightarrow> (Some (Exc AttributeError (none_type @ ''has no attribute step_idx'')), c)
           | Some it \<Rightarrow>
               (None, c\<lparr>tc_avg_step_count := Some ((the (tc_avg_step_count c))[i := averager_add (of_nat (it_step_idx it)) (the (tc_avg_step_count c) ! i)]),
                       tc_iter_stack := Some ((the (tc_iter_stack c))[i := None]),
                       tc_iter_depth := tc_iter_depth c - 1\<rparr>)))"

definition break_from_iteration :: "container \<Rightarrow> exc option \<times> container" where
  "break_from_iteration c = on_exit_iteration_block c"

definition on_enter_iteration_block :: "nat option \<Rightarrow> container \<Rightarrow> exc option \<times> container" where
  "on_enter_iteration_block len c =
     (let c1 = c\<lparr>tc_iter_depth := tc_iter_depth c + 1\<rparr> in
      case subscript (tc_iter_stack c1) (tc_iter_depth c1) of
        Inl e \<Rightarrow> (Some e, c1)
      | Inr i \<Rightarrow>
          (None, c1\<lparr>tc_iter_stack := Some ((the (tc_iter_stack c1))[i := Some
             \<lparr>it_step_idx = 0, it_is_sized = (len \<noteq> None), it_step_count = (case len of None \<Rightarrow> 0 | Some n \<Rightarrow> n),
              it_depth = tc_iter_depth c1\<rparr>])\<rparr>))"

text \<open>
  The values an iterable gives, each computed when the loop asks for it: an exception, the end
  (\<open>None\<close>) or an item.  The list bounds the number of requests, as the iterables of the program are finite.
\<close>

type_synonym ('i, 's) iterable = "('s \<Rightarrow> 'i option res \<times> 's) list"

type_synonym ('i, 's) loop_body = "'i \<Rightarrow> 's \<Rightarrow> container \<Rightarrow> exc option \<times> 's \<times> container"

definition is_exception :: "exc \<Rightarrow> bool" where
  "is_exception e \<longleftrightarrow> exc_class e \<noteq> SystemExit"

text \<open>The generator and the stack share the state of an iteration.\<close>

definition put_state :: "iter_state \<Rightarrow> container \<Rightarrow> container" where
  "put_state it c = (case tc_iter_stack c of
     None \<Rightarrow> c
   | Some st \<Rightarrow> if 0 \<le> it_depth it \<and> nat (it_depth it) < length st \<and> st ! nat (it_depth it) \<noteq> None
                then c\<lparr>tc_iter_stack := Some (st[nat (it_depth it) := Some it])\<rparr> else c)"

fun quiet_loop :: "('i, 's) loop_body \<Rightarrow> ('i, 's) iterable \<Rightarrow> 's \<Rightarrow> container \<Rightarrow> exc option \<times> 's \<times> container" where
  "quiet_loop body [] w c = (None, w, c)"
| "quiet_loop body (a # as) w c = (case a w of
     (Inl e, w1) \<Rightarrow> (Some e, w1, c)
   | (Inr None, w1) \<Rightarrow> (None, w1, c)
   | (Inr (Some i), w1) \<Rightarrow> (case body i w1 c of
        (Some e, w2, c2) \<Rightarrow> (Some e, w2, c2)
      | (None, w2, c2) \<Rightarrow> quiet_loop body as w2 c2))"

definition current_text :: "(nat \<Rightarrow> 'i \<Rightarrow> ustring res) option \<Rightarrow> nat \<Rightarrow> 'i \<Rightarrow> ustring option res" where
  "current_text text_gen idx i = (case text_gen of
     None \<Rightarrow> Inr None
   | Some f \<Rightarrow> (case f idx i of
       Inr t \<Rightarrow> Inr (Some t)
     | Inl e \<Rightarrow> if is_exception e then Inr (Some (utext (''Step '' @ nat_str idx))) else Inl e))"

text \<open>Before an item is handed out: the text and the progress are shown.\<close>

definition show_step :: "'s display_env \<Rightarrow> (nat \<Rightarrow> 'i \<Rightarrow> ustring res) option \<Rightarrow> 'i \<Rightarrow> iter_state \<Rightarrow> 's \<Rightarrow> container \<Rightarrow>
    (update res) \<times> iter_state \<times> container" where
  "show_step env text_gen i it w c =
     (case current_text text_gen (it_step_idx it) i of
        Inl e \<Rightarrow> (Inl e, it, c)
      | Inr t \<Rightarrow>
          (let it1 = (if it_is_sized it then it else it\<lparr>it_step_count := it_step_idx it + 1\<rparr>);
               c1 = put_state it1 c;
               count = get_estimated_global_step_count c1;
               changed = tc_global_step_index c1 \<noteq> tc_prev_global_step_index c1;
               c2 = (if changed then c1\<lparr>tc_prev_global_step_index := tc_global_step_index c1\<rparr> else c1);
               u = \<lparr>up_text = t, up_step_index = it_step_idx it1, up_step_count = it_step_count it1,
                    up_global_step_index = (if changed then Some (tc_global_step_index c1) else None),
                    up_global_step_count = count, up_step_depth = tc_iter_depth c2\<rparr>;
               it2 = it1\<lparr>it_step_idx := it_step_idx it1 + 1\<rparr>
           in case update_children_status env w False u c2 of
                (Some e, c3) \<Rightarrow> (Inl e, it1, c3)
              | (None, c3) \<Rightarrow> (Inr u, it2, put_state it2 c3)))"

text \<open>
  After the last item: its completion is shown on the terminal.  The step that is shown comes from
  the variables of the last turn, so an iteration without a turn has none.
\<close>

definition finish_iteration :: "'s display_env \<Rightarrow> update option \<Rightarrow> iter_state \<Rightarrow> 's \<Rightarrow> container \<Rightarrow> exc option \<times> 's \<times> container" where
  "finish_iteration env shown it w c =
     (if it_is_sized it \<and> list_ex tk_async (the (tc_trackers c))
      then (case shown of
          None \<Rightarrow> (Some (Exc NameError ''free variable global_step_index referenced before assignment''), w, c)
        | Some u \<Rightarrow> (case update_children_status env w True
              (u\<lparr>up_step_index := it_step_idx it, up_step_count := it_step_count it, up_step_depth := tc_iter_depth c\<rparr>) c of
            (Some e, c1) \<Rightarrow> (Some e, w, c1)
          | (None, c1) \<Rightarrow> (case on_exit_iteration_block c1 of (x, c2) \<Rightarrow> (x, w, c2))))
      else (case on_exit_iteration_block c of (x, c2) \<Rightarrow> (x, w, c2)))"

fun iterate_loop :: "'s display_env \<Rightarrow> (nat \<Rightarrow> 'i \<Rightarrow> ustring res) option \<Rightarrow> ('i, 's) loop_body \<Rightarrow> ('i, 's) iterable \<Rightarrow>
    update option \<Rightarrow> iter_state \<Rightarrow> 's \<Rightarrow> container \<Rightarrow> exc option \<times> 's \<times> container" where
  "iterate_loop env text_gen body [] shown it w c = finish_iteration env shown it w c"
| "iterate_loop env text_gen body (a # as) shown it w c = (case a w of
     (Inl e, w1) \<Rightarrow>
       if \<not> is_exception e then (Some e, w1, c)
       else (case on_exit_iteration_block c of
           (Some e', c1) \<Rightarrow> (Some e', w1, c1)
         | (None, c1) \<Rightarrow> (Some (Exc RuntimeError (''Iteration step setup failure: '' @ exc_msg e)), w1, c1))
   | (Inr None, w1) \<Rightarrow> finish_iteration env shown it w1 c
   | (Inr (Some i), w1) \<Rightarrow> (case show_step env text_gen i it w1 c of
        (Inl e, it1, c1) \<Rightarrow> (Some e, w1, c1)
      | (Inr u, it1, c1) \<Rightarrow> (case body i w1 c1 of
          (Some e, w2, c2) \<Rightarrow> (Some e, w2, c2)
        | (None, w2, c2) \<Rightarrow> iterate_loop env text_gen body as (Some u) it1 w2
            (if tc_iter_depth c2 = int (tc_max_depth c2) - 1
             then c2\<lparr>tc_global_step_index := tc_global_step_index c2 + 1\<rparr> else c2))))"

definition iterate :: "'s display_env \<Rightarrow> (nat \<Rightarrow> 'i \<Rightarrow> ustring res) option \<Rightarrow> nat option \<Rightarrow> ('i, 's) loop_body \<Rightarrow> ('i, 's) iterable \<Rightarrow>
    's \<Rightarrow> container \<Rightarrow> exc option \<times> 's \<times> container" where
  "iterate env text_gen len body items w c =
     (if \<not> tc_active c then quiet_loop body items w c
      else case on_enter_iteration_block len c of
        (Some e, c1) \<Rightarrow> (Some e, w, c1)
      | (None, c1) \<Rightarrow> iterate_loop env text_gen body items None
          \<lparr>it_step_idx = 0, it_is_sized = (len \<noteq> None), it_step_count = (case len of None \<Rightarrow> 0 | Some n \<Rightarrow> n), it_depth = tc_iter_depth c1\<rparr> w c1)"

definition IDLE_DRAWS :: nat where
  "IDLE_DRAWS = 11"

definition wait_until_idle :: "rat \<Rightarrow> container \<Rightarrow> exc option \<times> container" where
  "wait_until_idle now c = (case tc_trackers c of
     None \<Rightarrow> (Some (Exc TypeError (none_type @ ''is not iterable'')), c)
   | Some ks \<Rightarrow> (None, c\<lparr>tc_trackers := Some (map (\<lambda>k. if tk_async k then wait_tracker IDLE_DRAWS now k else k) ks)\<rparr>))"

definition terminate_trackers :: "container \<Rightarrow> exc option \<times> container" where
  "terminate_trackers c = (case tc_trackers c of
     None \<Rightarrow> (Some (Exc TypeError (none_type @ ''is not iterable'')), c)
   | Some ks \<Rightarrow> (None, c\<lparr>tc_trackers := Some (map (\<lambda>k. if tk_async k then k\<lparr>tk_terminated := True\<rparr> else k) ks)\<rparr>))"

section \<open>Running the steps of a benchmark\<close>

record ('i, 's) benchmark_steps =
  bs_dev_mode_data :: "'s \<Rightarrow> exc option \<times> 's"
  bs_gen_steps :: "'s \<Rightarrow> (nat option \<times> ('i, 's) iterable) res \<times> 's"
  bs_get_step_desc :: "'i \<Rightarrow> ustring res"
  bs_one_step :: "'i \<Rightarrow> 's \<Rightarrow> exc option \<times> 's"
  bs_get_results :: "'s \<Rightarrow> exc option \<times> 's"

definition step_body :: "('i, 's) benchmark_steps \<Rightarrow> ('i, 's) loop_body" where
  "step_body b i w c = (case bs_one_step b i w of
     (None, w1) \<Rightarrow> (None, w1, c)
   | (Some e, w1) \<Rightarrow>
       if \<not> caught RUN_ERRORS e then (Some e, w1, c)
       else (case break_from_iteration c of
           (Some e', c1) \<Rightarrow> (Some e', w1, c1)
         | (None, c1) \<Rightarrow> (Some e, w1, c1)))"

definition run_function :: "'s display_env \<Rightarrow> bool \<Rightarrow> ('i, 's) benchmark_steps \<Rightarrow> 's \<Rightarrow> container \<Rightarrow> exc option \<times> 's \<times> container" where
  "run_function env dev_mode b w c =
     (if dev_mode then (case bs_dev_mode_data b w of (x, w1) \<Rightarrow> (x, w1, c))
      else case wait_until_idle (de_clock env w) c of
        (Some e, c1) \<Rightarrow> (Some e, w, c1)
      | (None, c1) \<Rightarrow> (case bs_gen_steps b w of
          (Inl e, w1) \<Rightarrow> (Some e, w1, c1)
        | (Inr (len, items), w1) \<Rightarrow>
            (case iterate env (Some (\<lambda>_. bs_get_step_desc b)) len (step_body b) items w1 c1 of
               (Some e, w2, c2) \<Rightarrow> (Some e, w2, c2)
             | (None, w2, c2) \<Rightarrow> (case bs_get_results b w2 of (x, w3) \<Rightarrow> (x, w3, c2)))))"

section \<open>Running the benchmarks\<close>

text \<open>
  The loop of \<open>execute_benchmarks\<close> with its display: the state of the loop carries the world, the
  container is the state of the display.  The benchmarks run their steps through \<open>run_function\<close>.
\<close>

definition with_container :: "'s run_state \<Rightarrow> container \<Rightarrow> ('s \<times> container) run_state" where
  "with_container st c = \<lparr>rs_completed = rs_completed st, rs_failed = rs_failed st, rs_world = (rs_world st, c)\<rparr>"

definition without_container :: "('s \<times> container) run_state \<Rightarrow> 's run_state \<times> container" where
  "without_container st =
     (\<lparr>rs_completed = rs_completed st, rs_failed = rs_failed st, rs_world = fst (rs_world st)\<rparr>, snd (rs_world st))"

definition beside :: "(string \<Rightarrow> 's \<Rightarrow> exc option \<times> 's) \<Rightarrow> string \<Rightarrow> 's \<times> container \<Rightarrow> exc option \<times> 's \<times> container" where
  "beside f n wc = (case f n (fst wc) of (x, w) \<Rightarrow> (x, w, snd wc))"

definition displayed_methods :: "'s display_env \<Rightarrow> bool \<Rightarrow> (string \<Rightarrow> ('i, 's) benchmark_steps) \<Rightarrow> 's bench_methods \<Rightarrow> ('s \<times> container) bench_methods" where
  "displayed_methods env dev_mode b m =
     \<lparr>bm_setup = beside (bm_setup m), bm_allocate = beside (bm_allocate m),
      bm_run = \<lambda>n wc. run_function env dev_mode (b n) (fst wc) (snd wc),
      bm_teardown = beside (bm_teardown m), bm_write_result = beside (bm_write_result m),
      bm_stop_requested = \<lambda>wc. bm_stop_requested m (fst wc)\<rparr>"

definition benchmark_body :: "'s display_env \<Rightarrow> bool \<Rightarrow> (string \<Rightarrow> ('i, 's) benchmark_steps) \<Rightarrow> 's bench_methods \<Rightarrow> (string, 's run_state) loop_body" where
  "benchmark_body env dev_mode b m n st c =
     (case run_one (displayed_methods env dev_mode b m) n (with_container st c) of (x, st') \<Rightarrow> (x, without_container st'))"

definition run_state_env :: "'s display_env \<Rightarrow> 's run_state display_env" where
  "run_state_env env = \<lparr>de_clock = de_clock env \<circ> rs_world, de_draws = de_draws env \<circ> rs_world,
     de_round = de_round env, de_percent = de_percent env\<rparr>"

definition list_items :: "'i list \<Rightarrow> ('i, 's) iterable" where
  "list_items xs = map (\<lambda>x w. (Inr (Some x), w)) xs"

record display_args =
  da_quiet :: bool
  da_no_progress_bar :: bool
  da_log_file :: bool

definition run_with_display :: "'s display_env \<Rightarrow> display_args \<Rightarrow> bool \<Rightarrow> (string \<Rightarrow> ('i, 's) benchmark_steps) \<Rightarrow> 's bench_methods \<Rightarrow>
    string list \<Rightarrow> 's run_state \<Rightarrow> container \<Rightarrow> exc option \<times> 's run_state \<times> container" where
  "run_with_display env args dev_mode b m priority_list st c =
     (if priority_list = [] then (None, st, c)
      else let c1 = initialize_container env (de_clock env (rs_world st)) 2 (\<not> da_quiet args) (\<not> da_no_progress_bar args) (da_log_file args) c
      in case iterate (run_state_env env) (Some (\<lambda>_ n. Inr (utext n))) (Some (length priority_list))
             (benchmark_body env dev_mode b m) (list_items priority_list) st c1 of
        (x, st1, c2) \<Rightarrow> (case wait_until_idle (de_clock env (rs_world st1)) c2 of
            (Some e, c3) \<Rightarrow> (Some e, st1, c3)
          | (None, c3) \<Rightarrow> (case terminate_trackers c3 of
              (Some e, c4) \<Rightarrow> (Some e, st1, c4)
            | (None, c4) \<Rightarrow> (case teardown_benchmarks m priority_list (rs_world st1) of
                (y, w) \<Rightarrow> (case y of Some e \<Rightarrow> Some e | None \<Rightarrow> x, st1\<lparr>rs_world := w\<rparr>, c4)))))"

section \<open>A text is shown in full\<close>

definition plain_text :: "ustring \<Rightarrow> bool" where
  "plain_text t \<longleftrightarrow> list_all (\<lambda>ch. [ch] \<notin> set CURSOR_CHR) t"

lemma length_padded [simp]: "length (padded n t) = n"
  by (simp add: padded_def adjust_string_len_to_def)

lemma plain_padded: "plain_text t \<Longrightarrow> plain_text (padded n t)"
proof -
  assume t: "plain_text t"
  have "plain_text (take n t)" using t in_set_takeD by (fastforce simp: plain_text_def list_all_iff)
  moreover have "plain_text (replicate m 32)" for m by (simp add: plain_text_def list_all_iff CURSOR_CHR_def)
  ultimately show ?thesis by (simp add: padded_def adjust_string_len_to_def) (simp add: plain_text_def)
qed

text \<open>Where the cursor stands: inside the content, or one behind it with the cursor's character just before.\<close>

definition status_ok :: "status_anim \<Rightarrow> bool" where
  "status_ok s \<longleftrightarrow>
     length (sa_content s) \<le> sa_fixed_length s \<and> sa_cur_target_char s \<le> sa_fixed_length s \<and>
     (sa_animated s \<longrightarrow> length (sa_target_string s) = sa_fixed_length s) \<and>
     (sa_cur_target_char s \<le> length (sa_content s) \<or>
      sa_content s \<noteq> [] \<and> sa_cur_target_char s = Suc (length (sa_content s)) \<and> [last (sa_content s)] \<in> set CURSOR_CHR) \<and>
     an_chars (sa_cursor_anim s) = CURSOR_CHR \<and> an_cur (sa_cursor_anim s) < 4 \<and> an_period (sa_cursor_anim s) = 0"

lemma new_status_ok: "status_ok (new_status_anim n)"
  by (simp add: status_ok_def new_status_anim_def new_anim_def)

lemma first_diff_in_range:
  "list_all (\<lambda>i. i < length t \<and> i < length c) xs \<Longrightarrow>
   first_diff t c (xs @ ys) = (case find (\<lambda>i. t ! i \<noteq> c ! i) xs of Some i \<Rightarrow> Inr i | None \<Rightarrow> first_diff t c ys)"
  by (induction xs) auto

lemma find_in: "find P xs = Some x \<Longrightarrow> x \<in> set xs"
  by (auto simp: find_Some_iff)

lemma first_diff_found:
  assumes "status_ok s" "plain_text t" "length t = sa_fixed_length s"
  shows "\<exists>d\<le>length (sa_content s). get_first_string_diff t s = Inr d"
proof -
  let ?c = "sa_content s" and ?k = "sa_cur_target_char s"
  show ?thesis
  proof (cases "?k \<le> length ?c")
    case True
    then have "list_all (\<lambda>i. i < length t \<and> i < length ?c) [0..<?k]"
      using assms by (auto simp: status_ok_def list_all_iff)
    from first_diff_in_range [OF this, of "[]"] show ?thesis
      using True by (auto simp: get_first_string_diff_def dest!: find_in split: option.splits)
  next
    case False
    then have k: "?k = Suc (length ?c)" "?c \<noteq> []" "[last ?c] \<in> set CURSOR_CHR"
      using assms(1) by (auto simp: status_ok_def)
    let ?l = "length ?c - 1"
    have r: "list_all (\<lambda>i. i < length t \<and> i < length ?c) [0..<length ?c]"
      using assms by (auto simp: status_ok_def list_all_iff)
    have "?l < length t" using k(2) r by (cases ?c) (auto simp: list_all_iff)
    then have "t ! ?l \<noteq> ?c ! ?l"
      using k(2,3) assms(2) by (auto simp: plain_text_def list_all_length last_conv_nth)
    then have "find (\<lambda>i. t ! i \<noteq> ?c ! i) [0..<length ?c] \<noteq> None"
      using k(2) by (auto simp: find_None_iff intro!: exI [of _ "?l"])
    moreover have "[0..<?k] = [0..<length ?c] @ [length ?c]" by (simp add: k(1))
    ultimately show ?thesis
      using first_diff_in_range [OF r, of "[length ?c]"]
      by (auto simp: get_first_string_diff_def dest!: find_in intro: less_imp_le split: option.splits)
  qed
qed

lemma text_updated_ok:
  assumes "status_ok s" "plain_text t"
  obtains s' where "on_status_text_updated t s = (None, s')" "status_ok s'" "sa_animated s'"
    "sa_target_string s' = padded (sa_fixed_length s) t" "sa_fixed_length s' = sa_fixed_length s"
proof -
  let ?s1 = "s\<lparr>sa_target_string := padded (sa_fixed_length s) t\<rparr>"
  have ok: "status_ok ?s1" using assms(1) by (simp add: status_ok_def)
  from first_diff_found [OF this plain_padded [OF assms(2)]]
  obtain d where d: "d \<le> length (sa_content s)" "get_first_string_diff (padded (sa_fixed_length s) t) ?s1 = Inr d"
    by auto
  show ?thesis
  proof (rule that)
    show "on_status_text_updated t s = (None, ?s1\<lparr>sa_cur_target_char := d, sa_animated := True\<rparr>)"
      using d(2) by (simp add: on_status_text_updated_def Let_def)
    show "status_ok (?s1\<lparr>sa_cur_target_char := d, sa_animated := True\<rparr>)"
      using assms(1) d(1) by (auto simp: status_ok_def)
  qed simp_all
qed

lemma cursor_content:
  assumes "an_chars a = CURSOR_CHR" "an_cur a < 4"
  obtains ch where "anim_content a = [ch]" "[ch] \<in> set CURSOR_CHR"
proof -
  have "anim_content a \<in> set CURSOR_CHR"
    using assms by (simp add: anim_content_def CURSOR_CHR_def nth_mem del: set_simps list.set)
  moreover have "\<exists>ch. x = [ch]" if "x \<in> set CURSOR_CHR" for x using that by (auto simp: CURSOR_CHR_def)
  ultimately show ?thesis using that by metis
qed

lemma status_update_ok:
  assumes "status_ok s"
  shows "status_ok (status_anim_update s)" and "sa_fixed_length (status_anim_update s) = sa_fixed_length s"
    and "sa_target_string (status_anim_update s) = sa_target_string s"
proof -
  let ?a = "anim_update 0 (sa_cursor_anim s)" and ?k = "sa_cur_target_char s" and ?t = "sa_target_string s"
  let ?rest = "drop (?k + 1) (sa_content s)"
  have a: "an_chars ?a = CURSOR_CHR" "an_cur ?a < 4" "an_period ?a = 0"
    using assms by (auto simp: status_ok_def anim_update_def CURSOR_CHR_def)
  from cursor_content [OF a(1,2)] obtain ch where ch: "anim_content ?a = [ch]" "[ch] \<in> set CURSOR_CHR" .
  show "status_ok (status_anim_update s)"
  proof (cases "sa_animated s")
    case True
    then have t: "length ?t = sa_fixed_length s" using assms by (simp add: status_ok_def)
    show ?thesis
    proof (cases "length ?t + 1 \<le> ?k + 2")
      case False
      have l: "length (take ?k ?t @ [ch] @ ?rest) = max (?k + 1) (length (sa_content s))"
        using False by auto
      have "?rest = [] \<or> ?k + 2 \<le> length (sa_content s)" by auto
      then show ?thesis
        using True False assms a ch l
        by (auto simp: status_anim_update_def status_ok_def Let_def TRANSITION_CHAR_COUNT_def max_def)
    qed (use True t a in \<open>auto simp: status_anim_update_def status_ok_def Let_def TRANSITION_CHAR_COUNT_def\<close>)
  qed (use assms in \<open>simp add: status_anim_update_def\<close>)
qed (simp_all add: status_anim_update_def Let_def)

lemma updates_finish:
  assumes "status_ok s" "sa_animated s" "sa_fixed_length s + 1 \<le> sa_cur_target_char s + 2 * n"
  shows "sa_content ((status_anim_update ^^ n) s) = sa_target_string s \<and> \<not> sa_animated ((status_anim_update ^^ n) s)"
  using assms
proof (induction n arbitrary: s)
  case 0
  then show ?case by (simp add: status_ok_def)
next
  case (Suc n)
  have t: "length (sa_target_string s) = sa_fixed_length s" using Suc.prems by (simp add: status_ok_def)
  have still: "\<not> sa_animated s' \<Longrightarrow> (status_anim_update ^^ n) s' = s'" for s'
    by (induction n) (auto simp: status_anim_update_def)
  show ?case
  proof (cases "sa_animated (status_anim_update s)")
    case True
    then have "sa_cur_target_char (status_anim_update s) = sa_cur_target_char s + 2"
      using Suc.prems(2) by (auto simp: status_anim_update_def Let_def TRANSITION_CHAR_COUNT_def split: if_splits)
    with Suc.IH [OF status_update_ok(1) [OF Suc.prems(1)] True] Suc.prems show ?thesis
      by (simp add: status_update_ok funpow_swap1)
  next
    case False
    then have "sa_content (status_anim_update s) = sa_target_string s"
      using Suc.prems(2) by (auto simp: status_anim_update_def Let_def split: if_splits)
    with False still [OF False] show ?thesis by (simp add: funpow_swap1)
  qed
qed

text \<open>A status line as its two threads use it: new texts from the program, turns of the drawing thread in between.\<close>

datatype display_event = NewText ustring | Draw

fun run_display :: "display_event list \<Rightarrow> status_anim \<Rightarrow> exc option \<times> status_anim" where
  "run_display [] s = (None, s)"
| "run_display (NewText t # es) s = (case on_status_text_updated t s of
     (Some e, s') \<Rightarrow> (Some e, s') | (None, s') \<Rightarrow> run_display es s')"
| "run_display (Draw # es) s = run_display es (status_anim_update s)"

fun plain_event :: "display_event \<Rightarrow> bool" where
  "plain_event (NewText t) \<longleftrightarrow> plain_text t"
| "plain_event Draw \<longleftrightarrow> True"

lemma run_display_ok:
  "status_ok s \<Longrightarrow> list_all plain_event es \<Longrightarrow>
   \<exists>s'. run_display es s = (None, s') \<and> status_ok s' \<and> sa_fixed_length s' = sa_fixed_length s"
proof (induction es arbitrary: s)
  case (Cons ev es)
  show ?case
  proof (cases ev)
    case (NewText t)
    with Cons.prems obtain s1 where "on_status_text_updated t s = (None, s1)" "status_ok s1" "sa_fixed_length s1 = sa_fixed_length s"
      by (auto elim: text_updated_ok)
    with Cons NewText show ?thesis by force
  next
    case Draw
    with Cons.IH [OF status_update_ok(1) [OF Cons.prems(1)]] Cons.prems show ?thesis
      by (simp add: status_update_ok)
  qed
qed simp

lemma run_display_append:
  "run_display (es @ fs) s = (case run_display es s of (Some e, s') \<Rightarrow> (Some e, s') | (None, s') \<Rightarrow> run_display fs s')"
  by (induction es s rule: run_display.induct) (auto split: prod.splits option.splits)

lemma run_display_draws: "run_display (replicate n Draw) s = (None, (status_anim_update ^^ n) s)"
  by (induction n arbitrary: s) (simp_all add: funpow_swap1)

text \<open>
  C30. Whatever was shown before and however often the line was drawn in between, a new status text
  is shown in full, cut or padded to its field, after half as many turns of the drawing thread as
  the field has characters and one more, and no index is ever out of range.  The characters of the
  cursor must not occur in the texts.
\<close>

theorem status_text_is_shown:
  assumes "list_all plain_event es" "plain_text t" "n div 2 + 1 \<le> k"
  shows "\<exists>s. run_display (es @ NewText t # replicate k Draw) (new_status_anim n) = (None, s) \<and>
    status_anim_get s = padded n t \<and> \<not> sa_animated s"
proof -
  from run_display_ok [OF new_status_ok assms(1), of n]
  obtain s1 where s1: "run_display es (new_status_anim n) = (None, s1)" "status_ok s1" "sa_fixed_length s1 = n"
    by (auto simp: new_status_anim_def)
  from text_updated_ok [OF s1(2) assms(2)]
  obtain s2 where s2: "on_status_text_updated t s1 = (None, s2)" "status_ok s2" "sa_animated s2"
    "sa_target_string s2 = padded n t" "sa_fixed_length s2 = n"
    using s1(3) by metis
  have fin: "sa_content ((status_anim_update ^^ k) s2) = padded n t" "\<not> sa_animated ((status_anim_update ^^ k) s2)"
    using updates_finish [OF s2(2,3), of k] assms(3) s2(4,5) by auto
  have "sa_fixed_length ((status_anim_update ^^ k) s2) = n"
    using run_display_ok [OF s2(2), of "replicate k Draw"] s2(5) by (auto simp: run_display_draws list_all_iff)
  with fin have "status_anim_get ((status_anim_update ^^ k) s2) = padded n t"
    by (simp add: status_anim_get_def adjust_string_len_to_def)
  with fin s1 s2 show ?thesis by (simp add: run_display_append run_display_draws)
qed

theorem status_text_is_shown_witness:
  "\<exists>s. run_display ([NewText (utext ''latency''), Draw, Draw] @ NewText (utext ''late'') # replicate 5 Draw) (new_status_anim 8) = (None, s) \<and>
    status_anim_get s = padded 8 (utext ''late'') \<and> \<not> sa_animated s"
  by (rule status_text_is_shown) (simp_all add: plain_text_def utext_def CURSOR_CHR_def)

section \<open>The bar keeps its width\<close>

lemma bar_amounts_fit:
  assumes "mono rnd" "\<And>k. k \<le> n \<Longrightarrow> rnd (of_nat k) = of_nat k" "i \<le> m" "0 < m"
    and "get_bar_filled_amounts rnd n i m = (full, partial)"
  shows "full + partial \<le> n"
proof -
  let ?q = "of_nat (n * i) / of_nat m :: rat" and ?x = "rnd (of_nat (n * i) / of_nat m)"
  have "(of_nat i :: rat) \<le> of_nat m" using assms(3) by simp
  then have "?q \<le> of_nat n" using assms(4) by (simp add: divide_le_eq mult_left_mono)
  then have le: "?x \<le> of_nat n" using monoD [OF assms(1)] assms(2) [of n] by fastforce
  have "rnd (of_nat 0) \<le> ?x" using monoD [OF assms(1), of "of_nat 0" ?q] by simp
  then have ge: "0 \<le> ?x" using assms(2) [of 0] by simp
  have f: "nat \<lfloor>?x\<rfloor> \<le> n" using le ge by (simp add: floor_le_iff nat_le_iff)
  show ?thesis
  proof (cases "nat \<lfloor>?x\<rfloor> = n")
    case True
    then have "?x = of_nat n" using le ge by (metis floor_le_iff leD le_floor_iff nat_eq_iff2 nle_le of_int_of_nat_eq zero_le_floor antisym)
    then show ?thesis using assms(2) [of 0] assms(5) True by (simp add: get_bar_filled_amounts_def Let_def split: if_splits)
  next
    case False
    then show ?thesis using assms(5) f by (auto simp: get_bar_filled_amounts_def Let_def split: if_splits)
  qed
qed

lemma bar_keeps_width:
  assumes "mono rnd" "\<And>k. k \<le> n \<Longrightarrow> rnd (of_nat k) = of_nat k" "i \<le> m"
  shows "length (bar_build rnd n i m) = n"
proof (cases "m = 0")
  case False
  obtain full partial where a: "get_bar_filled_amounts rnd n i m = (full, partial)" by fastforce
  have "full + partial \<le> n" using bar_amounts_fit [OF assms _ a] False by simp
  with a False show ?thesis by (simp add: bar_build_def)
qed (simp add: bar_build_def)

section \<open>What the display leaves unchanged\<close>

fun component_ok :: "component \<Rightarrow> bool" where
  "component_ok (StatusAnimC d s) \<longleftrightarrow> status_ok s"
| "component_ok c \<longleftrightarrow> True"

definition tracker_ok :: "tracker \<Rightarrow> bool" where
  "tracker_ok k \<longleftrightarrow> list_all component_ok (tk_components k)"

text \<open>A display of \<open>m\<close> levels with \<open>asyncs\<close> trackers, inside the iteration of level \<open>d\<close>.\<close>

definition at_level :: "nat \<Rightarrow> bool list \<Rightarrow> int \<Rightarrow> container \<Rightarrow> bool" where
  "at_level m asyncs d c \<longleftrightarrow>
     tc_active c \<and> tc_max_depth c = m \<and> tc_iter_depth c = d \<and> -1 \<le> d \<and> d < int m \<and>
     (\<exists>ks. tc_trackers c = Some ks \<and> map tk_async ks = asyncs \<and> list_all tracker_ok ks) \<and>
     (\<exists>av. tc_avg_step_count c = Some av \<and> length av = m) \<and>
     (\<exists>st. tc_iter_stack c = Some st \<and> length st = m \<and> (\<forall>i<m. int i \<le> d \<longrightarrow> st ! i \<noteq> None))"

lemma component_update_ok: "component_ok c \<Longrightarrow> component_ok (component_update now c)"
  by (cases c) (simp_all add: status_update_ok)

lemma component_progress_ok [simp]: "component_ok (component_progress env i n c) = component_ok c"
  by (cases c) simp_all

lemma component_global_ok [simp]: "component_ok (component_global now g n c) = component_ok c"
  by (cases c) simp_all

lemma component_text_ok:
  "component_ok c \<Longrightarrow> plain_text t \<Longrightarrow> \<exists>c'. component_text t c = (None, c') \<and> component_ok c'"
  by (cases c) (auto elim: text_updated_ok)

lemma texts_updated_ok:
  "list_all component_ok cs \<Longrightarrow> plain_text t \<Longrightarrow> \<exists>cs'. texts_updated t d cs = (None, cs') \<and> list_all component_ok cs'"
proof (induction cs)
  case (Cons c cs)
  then obtain cs' where "texts_updated t d cs = (None, cs')" "list_all component_ok cs'" by auto
  moreover obtain c' where "(if can_notify_child c d then component_text t c else (None, c)) = (None, c')" "component_ok c'"
    using component_text_ok [of c t] Cons.prems by (cases "can_notify_child c d") auto
  ultimately show ?case by simp
qed simp

definition plain_update :: "update \<Rightarrow> bool" where
  "plain_update u \<longleftrightarrow> (case up_text u of None \<Rightarrow> True | Some t \<Rightarrow> plain_text t)"

lemma notify_ok:
  assumes "list_all component_ok cs" "plain_update u"
  shows "\<exists>cs'. notify_status_updated env now u cs = (None, cs') \<and> list_all component_ok cs'"
proof -
  obtain cs1 where "(case up_text u of None \<Rightarrow> (None, cs) | Some t \<Rightarrow> if t = [] then (None, cs) else texts_updated t (up_step_depth u) cs) = (None, cs1)"
    "list_all component_ok cs1"
  proof (cases "up_text u")
    case (Some t)
    then obtain cs1 where "texts_updated t (up_step_depth u) cs = (None, cs1)" "list_all component_ok cs1"
      using texts_updated_ok [OF assms(1)] assms(2) by (auto simp: plain_update_def)
    with Some assms(1) that show ?thesis by (cases "t = []") simp_all
  qed (use assms(1) that in simp)
  then show ?thesis
    by (simp add: notify_status_updated_def Let_def) (auto simp: list_all_iff split: option.splits)
qed

lemma tracker_draw_ok:
  "tracker_ok k \<Longrightarrow> tracker_ok (tracker_draw now k)" "tk_async (tracker_draw now k) = tk_async k"
  by (auto simp: tracker_draw_def tracker_ok_def Let_def list_all_iff component_update_ok)

lemma tracker_draws_ok:
  "tracker_ok k \<Longrightarrow> tracker_ok ((tracker_draw now ^^ n) k)" "tk_async ((tracker_draw now ^^ n) k) = tk_async k"
  by (induction n) (simp_all add: tracker_draw_ok)

lemma on_status_updated_ok:
  assumes "tracker_ok k" "plain_update u"
  shows "\<exists>k'. on_status_updated env now u k = (None, k') \<and> tracker_ok k' \<and> tk_async k' = tk_async k"
proof -
  obtain cs where "notify_status_updated env now u (tk_components k) = (None, cs)" "list_all component_ok cs"
    using notify_ok [OF _ assms(2)] assms(1) unfolding tracker_ok_def by blast
  then show ?thesis
    using assms(1) by (auto simp: on_status_updated_def tracker_ok_def Let_def list_all_iff component_update_ok)
qed

lemma update_children_ok:
  assumes "\<And>k. k \<in> set ks \<Longrightarrow> \<exists>k'. f k = (None, k') \<and> tracker_ok k' \<and> tk_async k' = tk_async k"
  shows "\<exists>ks'. update_children f ks = (None, ks') \<and> list_all tracker_ok ks' \<and> map tk_async ks' = map tk_async ks"
  using assms
proof (induction ks)
  case (Cons k ks)
  then obtain k' ks' where "f k = (None, k')" "tracker_ok k'" "tk_async k' = tk_async k"
    "update_children f ks = (None, ks')" "list_all tracker_ok ks'" "map tk_async ks' = map tk_async ks"
    by (metis list.set_intros(1,2))
  then show ?case by simp
qed simp

lemma update_children_status_ok:
  assumes "at_level m as d c" "plain_update u"
  shows "\<exists>c'. update_children_status env w oa u c = (None, c') \<and> at_level m as d c'"
proof -
  obtain ks where ks: "tc_trackers c = Some ks" "map tk_async ks = as" "list_all tracker_ok ks"
    using assms(1) by (auto simp: at_level_def)
  let ?ks = "map (\<lambda>k. (tracker_draw (de_clock env w) ^^ de_draws env w) k) ks"
  have "\<exists>ks'. update_children (\<lambda>k. if oa \<and> \<not> tk_async k then (None, k) else on_status_updated env (de_clock env w) u k) ?ks = (None, ks')
      \<and> list_all tracker_ok ks' \<and> map tk_async ks' = map tk_async ?ks"
  proof (rule update_children_ok)
    fix k assume "k \<in> set ?ks"
    then have "tracker_ok k" using ks(3) by (auto simp: list_all_iff tracker_draws_ok)
    then show "\<exists>k'. (if oa \<and> \<not> tk_async k then (None, k) else on_status_updated env (de_clock env w) u k) = (None, k')
        \<and> tracker_ok k' \<and> tk_async k' = tk_async k"
      using on_status_updated_ok [OF _ assms(2), of k env "de_clock env w"] by simp
  qed
  moreover have "map tk_async ?ks = as" using ks(2) by (auto simp: tracker_draws_ok)
  ultimately show ?thesis using assms(1) ks(1) by (auto simp: update_children_status_def at_level_def)
qed

lemma put_state_level [simp]: "at_level m as d c \<Longrightarrow> at_level m as d (put_state it c)"
  by (auto simp: at_level_def put_state_def nth_list_update split: option.splits)

lemma global_index_level [simp]: "at_level m as d (c\<lparr>tc_global_step_index := g\<rparr>) = at_level m as d c"
  by (simp add: at_level_def)

lemma at_level_trackers: "at_level m as d c \<Longrightarrow> \<exists>ks. tc_trackers c = Some ks"
  by (auto simp: at_level_def)

lemma py_index_ok: "0 \<le> i \<Longrightarrow> i < int n \<Longrightarrow> py_index n i = Inr (nat i)"
  by (simp add: py_index_def)

lemma enter_level:
  assumes "at_level m as d c" "d + 1 < int m"
  shows "\<exists>c'. on_enter_iteration_block len c = (None, c') \<and> at_level m as (d + 1) c'"
  using assms
  by (auto simp: on_enter_iteration_block_def at_level_def Let_def subscript_def py_index_ok nth_list_update)

lemma exit_level:
  assumes "at_level m as d c" "0 \<le> d"
  shows "\<exists>c'. on_exit_iteration_block c = (None, c') \<and> at_level m as (d - 1) c'"
proof -
  obtain av st where s: "tc_avg_step_count c = Some av" "length av = m" "tc_iter_stack c = Some st" "length st = m"
    and "\<forall>i<m. int i \<le> d \<longrightarrow> st ! i \<noteq> None" and d: "tc_iter_depth c = d" "d < int m"
    using assms(1) by (auto simp: at_level_def)
  then obtain it where "st ! nat d = Some it" using assms(2) by fastforce
  with s d assms show ?thesis
    by (auto simp: on_exit_iteration_block_def subscript_def py_index_ok at_level_def nth_list_update)
qed

section \<open>The display changes nothing in a run\<close>

text \<open>The same loops without a display: a \<open>for\<close> loop over the iterable itself, as where the display is not active.\<close>

fun plain_loop :: "('i \<Rightarrow> 's \<Rightarrow> exc option \<times> 's) \<Rightarrow> ('i, 's) iterable \<Rightarrow> 's \<Rightarrow> exc option \<times> 's" where
  "plain_loop step [] w = (None, w)"
| "plain_loop step (a # as) w = (case a w of
     (Inl e, w1) \<Rightarrow> (Some e, w1)
   | (Inr None, w1) \<Rightarrow> (None, w1)
   | (Inr (Some i), w1) \<Rightarrow> (case step i w1 of
        (Some e, w2) \<Rightarrow> (Some e, w2)
      | (None, w2) \<Rightarrow> plain_loop step as w2))"

lemma plain_loop_is_quiet:
  "quiet_loop (\<lambda>i w c. case step i w of (x, w') \<Rightarrow> (x, w', c)) items w c = (case plain_loop step items w of (x, w') \<Rightarrow> (x, w', c))"
  by (induction items arbitrary: w) (auto split: prod.splits sum.splits option.splits)

text \<open>
  What the display does to an iterable: an exception that it raises is turned into a
  \<open>RuntimeError\<close> that says so.  Where no exception is raised, nothing is changed.
\<close>

definition setup_failure :: "exc \<Rightarrow> exc" where
  "setup_failure e = (if is_exception e then Exc RuntimeError (''Iteration step setup failure: '' @ exc_msg e) else e)"

definition reported_items :: "('i, 's) iterable \<Rightarrow> ('i, 's) iterable" where
  "reported_items items = map (\<lambda>a w. case a w of (Inl e, w1) \<Rightarrow> (Inl (setup_failure e), w1) | (Inr nx, w1) \<Rightarrow> (Inr nx, w1)) items"

definition reported_setup :: "('i, 's) benchmark_steps \<Rightarrow> ('i, 's) benchmark_steps" where
  "reported_setup b = b\<lparr>bs_gen_steps := (\<lambda>w. case bs_gen_steps b w of
     (Inl e, w1) \<Rightarrow> (Inl e, w1) | (Inr (len, items), w1) \<Rightarrow> (Inr (len, reported_items items), w1))\<rparr>"

lemma plain_loop_reported [simp]:
  "plain_loop step (reported_items []) w = (None, w)"
  "plain_loop step (reported_items (a # as)) w = (case a w of
     (Inl e, w1) \<Rightarrow> (Some (setup_failure e), w1)
   | (Inr None, w1) \<Rightarrow> (None, w1)
   | (Inr (Some i), w1) \<Rightarrow> (case step i w1 of
        (Some e, w2) \<Rightarrow> (Some e, w2)
      | (None, w2) \<Rightarrow> plain_loop step (reported_items as) w2))"
  by (auto simp: reported_items_def split: prod.splits sum.splits option.splits)

lemma reported_list_items [simp]: "reported_items (list_items xs) = list_items xs"
  by (simp add: reported_items_def list_items_def)

lemma reported_setup_same [simp]:
  "bs_one_step (reported_setup b) = bs_one_step b" "bs_dev_mode_data (reported_setup b) = bs_dev_mode_data b"
  "bs_get_results (reported_setup b) = bs_get_results b"
  "bs_gen_steps (reported_setup b) w = (case bs_gen_steps b w of
     (Inl e, w1) \<Rightarrow> (Inl e, w1) | (Inr (len, items), w1) \<Rightarrow> (Inr (len, reported_items items), w1))"
  by (simp_all add: reported_setup_def)

definition plain_run :: "bool \<Rightarrow> ('i, 's) benchmark_steps \<Rightarrow> 's \<Rightarrow> exc option \<times> 's" where
  "plain_run dev_mode b w =
     (if dev_mode then bs_dev_mode_data b w
      else case bs_gen_steps b w of
        (Inl e, w1) \<Rightarrow> (Some e, w1)
      | (Inr (len, items), w1) \<Rightarrow> (case plain_loop (bs_one_step b) items w1 of
          (Some e, w2) \<Rightarrow> (Some e, w2)
        | (None, w2) \<Rightarrow> bs_get_results b w2))"

text \<open>An iterable of a known length that begins with an item or an error.\<close>

definition starts :: "('i, 's) iterable \<Rightarrow> bool" where
  "starts items \<longleftrightarrow> (case items of [] \<Rightarrow> False | a # _ \<Rightarrow> \<forall>w. fst (a w) \<noteq> Inr None)"

definition drawable :: "(nat \<Rightarrow> 'i \<Rightarrow> ustring res) option \<Rightarrow> bool" where
  "drawable text_gen \<longleftrightarrow> (\<forall>idx i. case current_text text_gen idx i of
     Inl e \<Rightarrow> False | Inr None \<Rightarrow> True | Inr (Some t) \<Rightarrow> plain_text t)"

text \<open>
  A body whose result does not depend on the display: it leaves the level when it
  ends well, and one level less after an exception in \<open>P\<close>.
\<close>

definition transparent :: "nat \<Rightarrow> bool list \<Rightarrow> int \<Rightarrow> (exc \<Rightarrow> bool) \<Rightarrow> ('i, 's) loop_body \<Rightarrow> ('i \<Rightarrow> 's \<Rightarrow> exc option \<times> 's) \<Rightarrow> bool" where
  "transparent m as d P body step \<longleftrightarrow> (\<forall>i w c. at_level m as d c \<longrightarrow>
     (\<exists>x w' c'. body i w c = (x, w', c') \<and> step i w = (x, w') \<and>
        (case x of None \<Rightarrow> at_level m as d c' | Some e \<Rightarrow> tc_trackers c' \<noteq> None \<and> (P e \<longrightarrow> at_level m as (d - 1) c'))))"

lemma show_step_ok:
  assumes "at_level m as d c" "drawable text_gen"
  shows "\<exists>u it' c'. show_step env text_gen i it w c = (Inr u, it', c') \<and> at_level m as d c' \<and>
    it_is_sized it' = it_is_sized it \<and> plain_update u"
proof -
  obtain t where t: "current_text text_gen (it_step_idx it) i = Inr t" "case t of None \<Rightarrow> True | Some t \<Rightarrow> plain_text t"
    using assms(2) unfolding drawable_def by (metis (no_types, lifting) old.sum.exhaust sum.case(1) sum.case(2) old.sum.simps(5))
  let ?it = "if it_is_sized it then it else it\<lparr>it_step_count := it_step_idx it + 1\<rparr>"
  let ?c1 = "put_state ?it c"
  let ?g = "tc_global_step_index ?c1 \<noteq> tc_prev_global_step_index ?c1"
  let ?c2 = "if ?g then ?c1\<lparr>tc_prev_global_step_index := tc_global_step_index ?c1\<rparr> else ?c1"
  let ?u = "\<lparr>up_text = t, up_step_index = it_step_idx ?it, up_step_count = it_step_count ?it,
      up_global_step_index = (if ?g then Some (tc_global_step_index ?c1) else None),
      up_global_step_count = get_estimated_global_step_count ?c1, up_step_depth = tc_iter_depth ?c2\<rparr>"
  have l: "at_level m as d ?c2" using put_state_level [OF assms(1), of ?it] by (simp add: at_level_def)
  have u: "plain_update ?u" using t(2) by (simp add: plain_update_def)
  obtain c3 where c3: "update_children_status env w False ?u ?c2 = (None, c3)" "at_level m as d c3"
    using update_children_status_ok [OF l u, of env w False] by blast
  then have "show_step env text_gen i it w c = (Inr ?u, ?it\<lparr>it_step_idx := it_step_idx ?it + 1\<rparr>, put_state (?it\<lparr>it_step_idx := it_step_idx ?it + 1\<rparr>) c3)"
    by (simp only: show_step_def t(1) sum.case Let_def prod.case option.case)
  with c3(2) u show ?thesis by auto
qed

lemma finish_ok:
  assumes "at_level m as d c" "0 \<le> d" "it_is_sized it \<and> True \<in> set as \<Longrightarrow> shown \<noteq> None"
    and "case shown of None \<Rightarrow> True | Some u \<Rightarrow> plain_update u"
  shows "\<exists>c'. finish_iteration env shown it w c = (None, w, c') \<and> at_level m as (d - 1) c'"
proof (cases "it_is_sized it \<and> list_ex tk_async (the (tc_trackers c))")
  case True
  then have "True \<in> set as" using assms(1) by (force simp: at_level_def list_ex_iff)
  then obtain u where u: "shown = Some u" using True assms(3) by blast
  let ?u = "u\<lparr>up_step_index := it_step_idx it, up_step_count := it_step_count it, up_step_depth := tc_iter_depth c\<rparr>"
  have "plain_update ?u" using assms(4) u by (simp add: plain_update_def)
  from update_children_status_ok [OF assms(1) this, of env w True]
  obtain c1 where "update_children_status env w True ?u c = (None, c1)" "at_level m as d c1" by blast
  with exit_level [OF this(2) assms(2)] True u show ?thesis by (auto simp: finish_iteration_def)
next
  case False
  with exit_level [OF assms(1,2)] show ?thesis by (auto simp: finish_iteration_def)
qed

lemma iterate_loop_ok:
  assumes "transparent m as d P body step" "drawable text_gen" "0 \<le> d" "\<And>e. P e \<Longrightarrow> is_exception e"
  shows "at_level m as d c \<Longrightarrow> (it_is_sized it \<and> True \<in> set as \<longrightarrow> shown \<noteq> None \<or> starts items) \<Longrightarrow>
    case shown of None \<Rightarrow> True | Some u \<Rightarrow> plain_update u \<Longrightarrow>
    \<exists>x w' c'. iterate_loop env text_gen body items shown it w c = (x, w', c') \<and> plain_loop step (reported_items items) w = (x, w') \<and>
      (case x of None \<Rightarrow> at_level m as (d - 1) c' | Some e \<Rightarrow> tc_trackers c' \<noteq> None \<and> (P e \<longrightarrow> at_level m as (d - 1) c'))"
proof (induction items arbitrary: w c it shown)
  case Nil
  then have "it_is_sized it \<and> True \<in> set as \<longrightarrow> shown \<noteq> None" by (auto simp: starts_def)
  from finish_ok [OF Nil.prems(1) assms(3) mp [OF this] Nil.prems(3), where env = env and w = w] show ?case by auto
next
  case (Cons a items)
  obtain r w1 where a: "a w = (r, w1)" by fastforce
  show ?case
  proof (cases r)
    case (Inl e)
    show ?thesis
    proof (cases "is_exception e")
      case True
      with exit_level [OF Cons.prems(1) assms(3)] a Inl show ?thesis by (auto simp: setup_failure_def dest: at_level_trackers)
    next
      case False
      with assms(4) [of e] have "\<not> P e" by blast
      with False a Inl at_level_trackers [OF Cons.prems(1)] show ?thesis by (simp add: setup_failure_def)
    qed
  next
    case (Inr nx)
    show ?thesis
    proof (cases nx)
      case None
      then have "\<not> starts (a # items)" using a Inr by (auto simp: starts_def intro: exI [of _ w])
      then have "it_is_sized it \<and> True \<in> set as \<longrightarrow> shown \<noteq> None" using Cons.prems(2) by blast
      from finish_ok [OF Cons.prems(1) assms(3) mp [OF this] Cons.prems(3), where env = env and w = w1] a Inr None show ?thesis by auto
    next
      case (Some i)
      from show_step_ok [OF Cons.prems(1) assms(2), of env i it w1]
      obtain u it1 c1 where s: "show_step env text_gen i it w1 c = (Inr u, it1, c1)" "at_level m as d c1"
        "it_is_sized it1 = it_is_sized it" "plain_update u" by blast
      from assms(1) s(2) obtain x w2 c2 where b: "body i w1 c1 = (x, w2, c2)" "step i w1 = (x, w2)"
        "case x of None \<Rightarrow> at_level m as d c2 | Some e \<Rightarrow> tc_trackers c2 \<noteq> None \<and> (P e \<longrightarrow> at_level m as (d - 1) c2)"
        unfolding transparent_def by blast
      show ?thesis
      proof (cases x)
        case None
        let ?c = "if tc_iter_depth c2 = int (tc_max_depth c2) - 1 then c2\<lparr>tc_global_step_index := tc_global_step_index c2 + 1\<rparr> else c2"
        have "at_level m as d ?c" using b(3) None by simp
        from Cons.IH [OF this, of it1 "Some u" w2] s(4) obtain y w3 c3 where
          "iterate_loop env text_gen body items (Some u) it1 w2 ?c = (y, w3, c3)" "plain_loop step (reported_items items) w2 = (y, w3)"
          "case y of None \<Rightarrow> at_level m as (d - 1) c3 | Some e \<Rightarrow> tc_trackers c3 \<noteq> None \<and> (P e \<longrightarrow> at_level m as (d - 1) c3)" by auto
        with a Inr Some s(1) b None show ?thesis by auto
      next
        case (Some e)
        with a Inr \<open>nx = Some i\<close> s(1) b show ?thesis by auto
      qed
    qed
  qed
qed

lemma iterate_ok:
  assumes "transparent m as (d + 1) P body step" "drawable text_gen" "\<And>e. P e \<Longrightarrow> is_exception e"
    and "at_level m as d c" "d + 1 < int m" "len \<noteq> None \<and> True \<in> set as \<Longrightarrow> starts items"
  shows "\<exists>x w' c'. iterate env text_gen len body items w c = (x, w', c') \<and> plain_loop step (reported_items items) w = (x, w') \<and>
      (case x of None \<Rightarrow> at_level m as d c' | Some e \<Rightarrow> tc_trackers c' \<noteq> None \<and> (P e \<longrightarrow> at_level m as d c'))"
proof -
  have d: "0 \<le> d + 1" and act: "tc_active c" using assms(4) by (auto simp: at_level_def)
  obtain c1 where c1: "on_enter_iteration_block len c = (None, c1)" "at_level m as (d + 1) c1"
    using enter_level [OF assms(4,5), of len] by blast
  let ?it = "\<lparr>it_step_idx = 0, it_is_sized = (len \<noteq> None), it_step_count = (case len of None \<Rightarrow> 0 | Some n \<Rightarrow> n), it_depth = tc_iter_depth c1\<rparr>"
  have "it_is_sized ?it \<and> True \<in> set as \<longrightarrow> (None :: update option) \<noteq> None \<or> starts items" using assms(6) by simp
  from iterate_loop_ok [OF assms(1,2) d assms(3) c1(2) this, of env w]
  show ?thesis unfolding add_diff_cancel_right' by (simp add: iterate_def act c1(1))
qed

lemma wait_tracker_ok: "tracker_ok k \<Longrightarrow> tracker_ok (wait_tracker n now k) \<and> tk_async (wait_tracker n now k) = tk_async k"
  by (induction n arbitrary: k) (simp_all add: tracker_draw_ok)

lemma wait_level:
  assumes "at_level m as d c"
  shows "\<exists>c'. wait_until_idle now c = (None, c') \<and> at_level m as d c'"
proof -
  obtain ks where ks: "tc_trackers c = Some ks" "map tk_async ks = as" "list_all tracker_ok ks"
    using assms by (auto simp: at_level_def)
  let ?ks = "map (\<lambda>k. if tk_async k then wait_tracker IDLE_DRAWS now k else k) ks"
  have "map tk_async ?ks = as" "list_all tracker_ok ?ks"
    using ks(2,3) wait_tracker_ok by (auto simp: list_all_iff)
  with assms ks(1) show ?thesis by (simp add: wait_until_idle_def at_level_def)
qed

text \<open>A benchmark whose descriptions can be drawn, and which has a step at all when its list of steps is known.\<close>

definition steps_ok :: "('i, 's) benchmark_steps \<Rightarrow> bool" where
  "steps_ok b \<longleftrightarrow> drawable (Some (\<lambda>_ :: nat. bs_get_step_desc b)) \<and>
     (\<forall>w. case fst (bs_gen_steps b w) of Inl e \<Rightarrow> True | Inr (len, items) \<Rightarrow> len \<noteq> None \<longrightarrow> starts items)"

lemma step_body_transparent:
  assumes "0 \<le> d"
  shows "transparent m as d (caught RUN_ERRORS) (step_body b) (bs_one_step b)"
  unfolding transparent_def
proof (intro allI impI)
  fix i w c assume l: "at_level m as d c"
  obtain x w1 where s: "bs_one_step b i w = (x, w1)" by fastforce
  from exit_level [OF l assms] obtain c1 where "on_exit_iteration_block c = (None, c1)" "at_level m as (d - 1) c1" by blast
  with l s show "\<exists>x w' c'. step_body b i w c = (x, w', c') \<and> bs_one_step b i w = (x, w') \<and>
      (case x of None \<Rightarrow> at_level m as d c' | Some e \<Rightarrow> tc_trackers c' \<noteq> None \<and> (caught RUN_ERRORS e \<longrightarrow> at_level m as (d - 1) c'))"
    by (cases x) (auto simp: step_body_def break_from_iteration_def dest: at_level_trackers)
qed

lemma caught_is_exception: "caught RUN_ERRORS e \<Longrightarrow> is_exception e"
  by (cases "exc_class e") (auto simp: caught_def RUN_ERRORS_def is_exception_def)

lemma run_function_ok:
  assumes "at_level m as d c" "d + 1 < int m" "steps_ok b"
  shows "\<exists>x w' c'. run_function env dev b w c = (x, w', c') \<and> plain_run dev (reported_setup b) w = (x, w') \<and>
    (case x of None \<Rightarrow> at_level m as d c' | Some e \<Rightarrow> tc_trackers c' \<noteq> None \<and> (caught RUN_ERRORS e \<longrightarrow> at_level m as d c'))"
proof (cases dev)
  case True
  then show ?thesis using assms(1)
    by (auto simp: run_function_def plain_run_def split: prod.splits option.splits dest: at_level_trackers)
next
  case False
  obtain c1 where c1: "wait_until_idle (de_clock env w) c = (None, c1)" "at_level m as d c1"
    using wait_level [OF assms(1)] by blast
  obtain g w1 where g: "bs_gen_steps b w = (g, w1)" by fastforce
  show ?thesis
  proof (cases g)
    case (Inl e)
    with False c1 g at_level_trackers [OF c1(2)] show ?thesis by (simp add: run_function_def plain_run_def)
  next
    case (Inr p)
    obtain len items where p: "p = (len, items)" by fastforce
    have dr: "drawable (Some (\<lambda>_ :: nat. bs_get_step_desc b))" and st: "len \<noteq> None \<and> True \<in> set as \<Longrightarrow> starts items"
      using assms(3) g Inr p unfolding steps_ok_def by (auto dest!: spec [of _ w])
    have "0 \<le> d + 1" using assms(1) by (simp add: at_level_def)
    from iterate_ok [OF step_body_transparent [OF this] dr caught_is_exception c1(2) assms(2) st, where env = env and w = w1]
    obtain x w2 c2 where i: "iterate env (Some (\<lambda>_. bs_get_step_desc b)) len (step_body b) items w1 c1 = (x, w2, c2)"
      "plain_loop (bs_one_step b) (reported_items items) w1 = (x, w2)"
      "case x of None \<Rightarrow> at_level m as d c2 | Some e \<Rightarrow> tc_trackers c2 \<noteq> None \<and> (caught RUN_ERRORS e \<longrightarrow> at_level m as d c2)" by blast
    obtain y w3 where "bs_get_results b w2 = (y, w3)" by fastforce
    with False c1 g Inr p i show ?thesis
      by (cases x; cases y) (auto simp: run_function_def plain_run_def dest: at_level_trackers)
  qed
qed

definition plain_methods :: "bool \<Rightarrow> (string \<Rightarrow> ('i, 's) benchmark_steps) \<Rightarrow> 's bench_methods \<Rightarrow> 's bench_methods" where
  "plain_methods dev b m = m\<lparr>bm_run := \<lambda>n. plain_run dev (b n)\<rparr>"

lemma benchmark_body_transparent:
  fixes env :: "'s display_env"
  assumes "d + 1 < int mx" "\<And>n. steps_ok (b n)"
  shows "transparent mx as d (\<lambda>_. False) (benchmark_body env dev b m) (run_one (plain_methods dev (\<lambda>n. reported_setup (b n)) m))"
  unfolding transparent_def
proof (intro allI impI)
  fix n c and st :: "'s run_state" assume l: "at_level mx as d c"
  from run_function_ok [OF l assms(1,2), where env = env and dev = dev and w = "rs_world st"]
  obtain x w c1 where r: "run_function env dev (b n) (rs_world st) c = (x, w, c1)" "plain_run dev (reported_setup (b n)) (rs_world st) = (x, w)"
    "case x of None \<Rightarrow> at_level mx as d c1 | Some e \<Rightarrow> tc_trackers c1 \<noteq> None \<and> (caught RUN_ERRORS e \<longrightarrow> at_level mx as d c1)" by blast
  obtain y w' where wr: "bm_write_result m n w = (y, w')" by fastforce
  show "\<exists>x w' c'. benchmark_body env dev b m n st c = (x, w', c') \<and> run_one (plain_methods dev (\<lambda>n. reported_setup (b n)) m) n st = (x, w') \<and>
      (case x of None \<Rightarrow> at_level mx as d c' | Some e \<Rightarrow> tc_trackers c' \<noteq> None \<and> (False \<longrightarrow> at_level mx as (d - 1) c'))"
    using l r wr
    by (cases x; cases y)
      (auto simp: benchmark_body_def run_one_def displayed_methods_def plain_methods_def with_container_def
        without_container_def beside_def Let_def dest: at_level_trackers)
qed

lemma initialize_level:
  assumes "\<not> da_quiet args \<or> da_log_file args" "tc_iter_depth c = -1" "0 < mx"
  shows "\<exists>as. at_level mx as (-1) (initialize_container env now mx (\<not> da_quiet args) bar (da_log_file args) c)"
proof -
  have ok: "list_all component_ok (async_components env now)" "list_all component_ok (sync_components now)"
    by (simp_all add: async_components_def sync_components_def new_status_ok)
  then have "tracker_ok (new_async_tracker env now mx)" "tracker_ok (new_sync_tracker now mx t)" for t
    by (simp_all add: tracker_ok_def new_async_tracker_def new_sync_tracker_def)
  with assms show ?thesis by (auto simp: at_level_def initialize_container_def Let_def)
qed

lemma starts_list_items: "xs \<noteq> [] \<Longrightarrow> starts (list_items xs)"
  by (cases xs) (simp_all add: starts_def list_items_def)

lemma plain_loop_run: "plain_loop (run_one m) (list_items ns) st = run_loop m ns st"
  by (induction ns arbitrary: st) (auto simp: list_items_def split: prod.splits option.splits)

lemma plain_small: "list_all (\<lambda>n. n < 256) t \<Longrightarrow> plain_text t"
  by (auto simp: plain_text_def CURSOR_CHR_def list_all_iff)

lemma plain_utext: "plain_text (utext s)"
proof (rule plain_small)
  have "(of_char ch :: nat) < 256" for ch by (metis of_char_mod_256 mod_less_divisor zero_less_numeral)
  then show "list_all (\<lambda>n. n < 256) (utext s)" by (simp add: utext_def list_all_iff)
qed

section \<open>Writing to the terminal\<close>

text \<open>
  \<open>TermManager\<close> of \<open>src/lib/term_ui/term_manager.py\<close>.  A line that starts with a carriage return is
  drawn again and again, so it is clipped to the width of the terminal, kept for a change of that
  width, and cleared before any other line.  The stream is the list of what was written.
\<close>

record term_state =
  tm_clipped :: nat
  tm_printable :: nat
  tm_needs_clear :: bool
  tm_reused :: "ustring option"
  tm_cols :: nat
  tm_prev_cols :: nat
  tm_stream :: "ustring list"

definition CLEAR_LINE :: ustring where
  "CLEAR_LINE = 27 # utext ''[2K''"

definition MOVE_UP :: ustring where
  "MOVE_UP = 27 # utext ''[1A''"

definition new_term :: "nat \<Rightarrow> term_state" where
  "new_term cols = \<lparr>tm_clipped = 0, tm_printable = 0, tm_needs_clear = False, tm_reused = None,
     tm_cols = cols, tm_prev_cols = cols, tm_stream = []\<rparr>"

definition emit :: "ustring \<Rightarrow> term_state \<Rightarrow> term_state" where
  "emit t s = s\<lparr>tm_stream := tm_stream s @ [t]\<rparr>"

definition term_write :: "ustring \<Rightarrow> term_state \<Rightarrow> exc option \<times> term_state" where
  "term_write content s =
     (if content = [] then (Some (Exc IndexError ''string index out of range''), s)
      else let is_reused = hd content = 13;
               s1 = s\<lparr>tm_printable := length content - 1, tm_clipped := min (length content - 1) (tm_cols s)\<rparr>;
               s2 = s1\<lparr>tm_reused := (if is_reused then Some content else None)\<rparr>;
               content' = (if is_reused then take (tm_clipped s2) content else content);
               s3 = (if \<not> is_reused \<and> tm_needs_clear s2 then (emit (CLEAR_LINE @ [13]) s2)\<lparr>tm_needs_clear := False\<rparr> else s2);
               s4 = s3\<lparr>tm_needs_clear := is_reused\<rparr>
           in (None, emit (CLEAR_LINE @ content') s4))"

definition on_term_resize :: "nat \<Rightarrow> term_state \<Rightarrow> exc option \<times> term_state" where
  "on_term_resize cols s =
     (let s1 = s\<lparr>tm_cols := cols\<rparr> in
      case tm_reused s1 of
        None \<Rightarrow> (None, s1\<lparr>tm_prev_cols := cols\<rparr>)
      | Some line \<Rightarrow>
          if line = [] then (None, s1\<lparr>tm_prev_cols := cols\<rparr>)
          else let s2 = (if tm_cols s1 < tm_clipped s1 then emit (CLEAR_LINE @ MOVE_UP) s1 else s1)
               in case term_write line s2 of
                    (Some e, s3) \<Rightarrow> (Some e, s3)
                  | (None, s3) \<Rightarrow> (None, s3\<lparr>tm_prev_cols := tm_cols s3\<rparr>))"

datatype term_event = Write ustring | Resize nat

fun handle_event :: "term_event \<Rightarrow> term_state \<Rightarrow> exc option \<times> term_state" where
  "handle_event (Write t) s = term_write t s"
| "handle_event (Resize n) s = on_term_resize n s"

fun run_term :: "term_event list \<Rightarrow> term_state \<Rightarrow> exc option \<times> term_state" where
  "run_term [] s = (None, s)"
| "run_term (ev # es) s = (case handle_event ev s of (Some e, s') \<Rightarrow> (Some e, s') | (None, s') \<Rightarrow> run_term es s')"

text \<open>
  What a terminal makes of it: finished lines, the line of the cursor and its column.  Erasing a
  line does not move the cursor; a character is put at the column of the cursor.
\<close>

record screen =
  sc_lines :: "ustring list"
  sc_line :: ustring
  sc_col :: nat

definition blank_screen :: screen where
  "blank_screen = \<lparr>sc_lines = [], sc_line = [], sc_col = 0\<rparr>"

definition put_char :: "nat \<Rightarrow> screen \<Rightarrow> screen" where
  "put_char ch sc = sc\<lparr>sc_line := (if sc_col sc < length (sc_line sc) then (sc_line sc)[sc_col sc := ch]
      else sc_line sc @ replicate (sc_col sc - length (sc_line sc)) 32 @ [ch]), sc_col := sc_col sc + 1\<rparr>"

fun feed :: "ustring \<Rightarrow> screen \<Rightarrow> screen" where
  "feed [] sc = sc"
| "feed (ch # cs) sc =
     (if ch = 27 \<and> take 3 cs = utext ''[2K'' then feed (drop 3 cs) (sc\<lparr>sc_line := []\<rparr>)
      else if ch = 13 then feed cs (sc\<lparr>sc_col := 0\<rparr>)
      else if ch = 10 then feed cs \<lparr>sc_lines = sc_lines sc @ [sc_line sc], sc_line = [], sc_col = 0\<rparr>
      else feed cs (put_char ch sc))"

definition screen_of :: "term_state \<Rightarrow> screen" where
  "screen_of s = foldl (\<lambda>sc t. feed t sc) blank_screen (tm_stream s)"

text \<open>
  What is written: lines of the log, the line of the progress display, and changes of the width.
  A change of the width never makes the terminal narrower than the display's line on it: then the
  terminal would wrap that line by itself.
\<close>

datatype term_output = Line ustring | Bar ustring | Width nat

fun event_of :: "term_output \<Rightarrow> term_event" where
  "event_of (Line t) = Write (t @ [10])"
| "event_of (Bar t) = Write (13 # t)"
| "event_of (Width n) = Resize n"

definition printable :: "ustring \<Rightarrow> bool" where
  "printable t \<longleftrightarrow> list_all (\<lambda>ch. ch \<notin> {10, 13, 27}) t"

fun bar_width :: "nat \<Rightarrow> ustring option \<Rightarrow> nat" where
  "bar_width cols None = 0"
| "bar_width cols (Some t) = min (length t) cols"

fun outputs_ok :: "nat \<Rightarrow> ustring option \<Rightarrow> term_output list \<Rightarrow> bool" where
  "outputs_ok cols b [] \<longleftrightarrow> True"
| "outputs_ok cols b (Line t # os) \<longleftrightarrow> printable t \<and> outputs_ok cols None os"
| "outputs_ok cols b (Bar t # os) \<longleftrightarrow> printable t \<and> outputs_ok cols (Some t) os"
| "outputs_ok cols b (Width n # os) \<longleftrightarrow> bar_width cols b \<le> n \<and> outputs_ok n b os"

text \<open>What should be seen: all lines, and what of the last bar fits, if no line has come after it.\<close>

fun lines_of :: "term_output list \<Rightarrow> ustring list" where
  "lines_of [] = []"
| "lines_of (Line t # os) = t # lines_of os"
| "lines_of (Bar t # os) = lines_of os"
| "lines_of (Width n # os) = lines_of os"

fun bar_line :: "nat \<Rightarrow> ustring option \<Rightarrow> term_output list \<Rightarrow> ustring" where
  "bar_line cols None [] = []"
| "bar_line cols (Some t) [] = take (min (length t) cols - 1) t"
| "bar_line cols b (Line t # os) = bar_line cols None os"
| "bar_line cols b (Bar t # os) = bar_line cols (Some t) os"
| "bar_line cols b (Width n # os) = bar_line n b os"

lemma feed_clear [simp]: "feed (CLEAR_LINE @ t) sc = feed t (sc\<lparr>sc_line := []\<rparr>)"
  by (simp add: CLEAR_LINE_def utext_def)

lemma feed_printable:
  "printable t \<Longrightarrow> sc_col sc = length (sc_line sc) \<Longrightarrow>
    feed (t @ u) sc = feed u (sc\<lparr>sc_line := sc_line sc @ t, sc_col := sc_col sc + length t\<rparr>)"
proof (induction t arbitrary: sc)
  case (Cons ch t)
  have "put_char ch sc = sc\<lparr>sc_line := sc_line sc @ [ch], sc_col := sc_col sc + 1\<rparr>"
    using Cons.prems(2) by (simp add: put_char_def)
  with Cons show ?case by (simp add: printable_def)
next
  case Nil
  then show ?case by (cases sc) simp
qed

lemma printable_take: "printable t \<Longrightarrow> printable (take n t)"
  by (auto simp: printable_def list_all_iff dest: in_set_takeD)

text \<open>A bar is pending exactly when the terminal's state says so, and then it is on the line of the cursor.\<close>

definition term_inv :: "ustring option \<Rightarrow> term_state \<Rightarrow> bool" where
  "term_inv b s \<longleftrightarrow> tm_reused s = map_option (\<lambda>t. 13 # t) b \<and> tm_needs_clear s = (b \<noteq> None) \<and>
     (case b of None \<Rightarrow> sc_line (screen_of s) = [] \<and> sc_col (screen_of s) = 0
      | Some t \<Rightarrow> printable t \<and> tm_clipped s = min (length t) (tm_cols s) \<and>
          sc_line (screen_of s) = take (min (length t) (tm_cols s) - 1) t)"

lemma screen_of_emit [simp]: "screen_of (emit t s) = feed t (screen_of s)"
  by (simp add: screen_of_def emit_def)

lemma screen_of_fields [simp]:
  "screen_of (s\<lparr>tm_needs_clear := b\<rparr>) = screen_of s" "screen_of (s\<lparr>tm_reused := r\<rparr>) = screen_of s"
  "screen_of (s\<lparr>tm_cols := n\<rparr>) = screen_of s" "screen_of (s\<lparr>tm_prev_cols := n\<rparr>) = screen_of s"
  "screen_of (s\<lparr>tm_printable := n, tm_clipped := k\<rparr>) = screen_of s"
  by (simp_all add: screen_of_def)

lemma emit_fields [simp]:
  "tm_cols (emit t s) = tm_cols s" "tm_clipped (emit t s) = tm_clipped s" "tm_reused (emit t s) = tm_reused s"
  "tm_needs_clear (emit t s) = tm_needs_clear s" "tm_prev_cols (emit t s) = tm_prev_cols s"
  by (simp_all add: emit_def)

lemma line_written:
  assumes "term_inv b s" "printable t"
  shows "\<exists>s'. term_write (t @ [10]) s = (None, s') \<and> term_inv None s' \<and> tm_cols s' = tm_cols s \<and>
    sc_lines (screen_of s') = sc_lines (screen_of s) @ [t]"
proof -
  have h: "hd (t @ [10]) \<noteq> 13" using assms(2) by (cases t) (auto simp: printable_def)
  have f: "feed (t @ [10]) sc = \<lparr>sc_lines = sc_lines sc @ [t], sc_line = [], sc_col = 0\<rparr>"
    if "sc_line sc = []" "sc_col sc = 0" for sc
    using feed_printable[OF assms(2), of sc "[10]"] that by simp
  show ?thesis
  proof (cases b)
    case None
    then have "\<not> tm_needs_clear s" "sc_line (screen_of s) = []" "sc_col (screen_of s) = 0"
      using assms(1) by (simp_all add: term_inv_def)
    then show ?thesis using h f by (simp add: term_write_def Let_def term_inv_def)
  next
    case (Some u)
    then have "tm_needs_clear s" using assms(1) by (simp add: term_inv_def)
    then show ?thesis using h f by (simp add: term_write_def Let_def term_inv_def)
  qed
qed

lemma bar_written:
  assumes "printable t"
  shows "\<exists>s'. term_write (13 # t) s = (None, s') \<and> term_inv (Some t) s' \<and> tm_cols s' = tm_cols s \<and>
    sc_lines (screen_of s') = sc_lines (screen_of s)"
proof -
  let ?n = "min (length t) (tm_cols s)"
  have "feed (take ?n (13 # t)) (sc\<lparr>sc_line := []\<rparr>) = sc\<lparr>sc_line := take (?n - 1) t, sc_col := (if ?n = 0 then sc_col sc else ?n - 1)\<rparr>" for sc
  proof (cases ?n)
    case (Suc k)
    then have "k \<le> length t" by linarith
    with Suc feed_printable[OF printable_take[OF assms, of k], of "sc\<lparr>sc_line := [], sc_col := 0\<rparr>" "[]"] show ?thesis by simp
  qed simp
  then show ?thesis using assms by (simp add: term_write_def Let_def term_inv_def)
qed

lemma width_changed:
  assumes "term_inv b s" "bar_width (tm_cols s) b \<le> n"
  shows "\<exists>s'. on_term_resize n s = (None, s') \<and> term_inv b s' \<and> tm_cols s' = n \<and>
    sc_lines (screen_of s') = sc_lines (screen_of s)"
proof (cases b)
  case None
  with assms(1) show ?thesis by (simp add: on_term_resize_def Let_def term_inv_def)
next
  case (Some t)
  with assms have t: "tm_reused s = Some (13 # t)" "\<not> n < tm_clipped s" "printable t" by (auto simp: term_inv_def)
  from bar_written[OF t(3), of "s\<lparr>tm_cols := n\<rparr>"] obtain s' where
    s': "term_write (13 # t) (s\<lparr>tm_cols := n\<rparr>) = (None, s')" "term_inv (Some t) s'" "tm_cols s' = n"
      "sc_lines (screen_of s') = sc_lines (screen_of s)" by auto
  have "on_term_resize n s = (None, s'\<lparr>tm_prev_cols := n\<rparr>)" using t(1,2) s'(1,3) by (simp add: on_term_resize_def Let_def)
  moreover have "term_inv (Some t) (s'\<lparr>tm_prev_cols := n\<rparr>)" using s'(2) by (simp add: term_inv_def)
  ultimately show ?thesis using s'(3,4) Some by simp
qed

lemma run_term_shows:
  "term_inv b s \<Longrightarrow> outputs_ok (tm_cols s) b os \<Longrightarrow> \<exists>s'. run_term (map event_of os) s = (None, s') \<and>
    sc_lines (screen_of s') = sc_lines (screen_of s) @ lines_of os \<and> sc_line (screen_of s') = bar_line (tm_cols s) b os"
proof (induction os arbitrary: b s)
  case Nil
  then show ?case by (cases b) (simp_all add: term_inv_def)
next
  case (Cons ev os)
  show ?case
  proof (cases ev)
    case (Line t)
    with line_written[OF Cons.prems(1), of t] Cons.prems(2) obtain s1 where
      "term_write (t @ [10]) s = (None, s1)" "term_inv None s1" "tm_cols s1 = tm_cols s"
      "sc_lines (screen_of s1) = sc_lines (screen_of s) @ [t]" by auto
    with Line Cons.IH[of None s1] Cons.prems(2) show ?thesis by auto
  next
    case (Bar t)
    with bar_written[of t s] Cons.prems(2) obtain s1 where
      "term_write (13 # t) s = (None, s1)" "term_inv (Some t) s1" "tm_cols s1 = tm_cols s"
      "sc_lines (screen_of s1) = sc_lines (screen_of s)" by auto
    with Bar Cons.IH[of "Some t" s1] Cons.prems(2) show ?thesis by auto
  next
    case (Width n)
    with width_changed[OF Cons.prems(1), of n] Cons.prems(2) obtain s1 where
      "on_term_resize n s = (None, s1)" "term_inv b s1" "tm_cols s1 = n"
      "sc_lines (screen_of s1) = sc_lines (screen_of s)" by auto
    with Width Cons.IH[of b s1] Cons.prems(2) show ?thesis by auto
  qed
qed



section \<open>Demonstration\<close>

text \<open>Two benchmarks on a counter: the first takes two steps, the second fails in its second step.\<close>

definition demo_display :: "nat display_env" where
  "demo_display = \<lparr>de_clock = \<lambda>n. of_nat n / 2, de_draws = \<lambda>n. n mod 3, de_round = id, de_percent = \<lambda>i n. ''??.?%''\<rparr>"

definition demo_steps :: "string \<Rightarrow> (nat, nat) benchmark_steps" where
  "demo_steps n = \<lparr>bs_dev_mode_data = \<lambda>w. (None, w), bs_gen_steps = \<lambda>w. (Inr (Some 2, list_items [1, 2]), w),
     bs_get_step_desc = \<lambda>i. Inr (utext (''size '' @ nat_str i)),
     bs_one_step = \<lambda>i w. (if n = ''b'' \<and> i = 2 then Some (Exc OSError ''no device'') else None, w + 1),
     bs_get_results = \<lambda>w. (None, w + 10)\<rparr>"

definition demo_display_args :: "bool \<Rightarrow> display_args" where
  "demo_display_args quiet = \<lparr>da_quiet = quiet, da_no_progress_bar = False, da_log_file = False\<rparr>"

lemma demo_steps_ok: "steps_ok (demo_steps n)"
  by (simp add: steps_ok_def demo_steps_def drawable_def current_text_def plain_utext starts_list_items)

lemma demo_execution:
  "execute_benchmarks (plain_methods False (\<lambda>n. reported_setup (demo_steps n)) demo_methods) [''a'', ''b'', ''c''] demo_start =
     (None, \<lparr>rs_completed = [''a'', ''c''], rs_failed = [(''b'', ''no device'')], rs_world = 2326\<rparr>)"
  by code_simp

text \<open>
  C28.  Whatever is drawn where and whenever the drawing thread runs, the display changes one thing
  in a run that is not quiet: an exception that a benchmark's generator of steps raises becomes
  a \<open>RuntimeError\<close> (\<open>reported_setup\<close>).  Apart from it the benchmarks run in the same order and with
  the same outcome as in plain loops without a display, and an error in a step of one benchmark
  leaves the nesting of the display in order for the next.  The texts of the steps can be
  drawn, and a list of steps of known length is not empty (\<open>steps_ok\<close>).
\<close>

theorem display_changes_nothing:
  fixes env :: "'s display_env"
  assumes "\<not> da_quiet args \<or> da_log_file args" "tc_iter_depth c = -1" "\<And>n. steps_ok (b n)"
  shows "\<exists>c'. run_with_display env args dev b m ns st c =
    (let plain = execute_benchmarks (plain_methods dev (\<lambda>n. reported_setup (b n)) m) ns st in (fst plain, snd plain, c'))"
proof (cases "ns = []")
  case False
  let ?m = "plain_methods dev (\<lambda>n. reported_setup (b n)) m"
  let ?c1 = "initialize_container env (de_clock env (rs_world st)) 2 (\<not> da_quiet args) (\<not> da_no_progress_bar args) (da_log_file args) c"
  obtain as where l: "at_level 2 as (-1) ?c1"
    using initialize_level [OF assms(1,2), of 2 env] by auto
  have t: "transparent 2 as (- 1 + 1) (\<lambda>_. False) (benchmark_body env dev b m) (run_one ?m)"
    by (rule benchmark_body_transparent [OF _ assms(3)]) simp
  have dr: "drawable (Some (\<lambda>_ n. Inr (utext n)))"
    by (simp add: drawable_def current_text_def plain_utext)
  from iterate_ok [OF t dr _ l, of "Some (length ns)" "list_items ns" "run_state_env env" st] starts_list_items [OF False]
  obtain x st1 c2 where i: "iterate (run_state_env env) (Some (\<lambda>_ n. Inr (utext n))) (Some (length ns)) (benchmark_body env dev b m)
      (list_items ns) st ?c1 = (x, st1, c2)" "run_loop ?m ns st = (x, st1)"
    "case x of None \<Rightarrow> at_level 2 as (-1) c2 | Some e \<Rightarrow> tc_trackers c2 \<noteq> None \<and> (False \<longrightarrow> at_level 2 as (-1) c2)"
    by (auto simp: plain_loop_run)
  then obtain ks where ks: "tc_trackers c2 = Some ks" by (cases x) (auto dest: at_level_trackers)
  have td: "teardown_benchmarks ?m ms w = teardown_benchmarks m ms w" for ms w
    by (induction ms arbitrary: w) (auto simp: plain_methods_def split: prod.splits option.splits)
  obtain y w where w: "teardown_benchmarks m ns (rs_world st1) = (y, w)" by fastforce
  show ?thesis
    using False i(1,2) ks w
    by (simp add: run_with_display_def Let_def execute_benchmarks_def td wait_until_idle_def terminate_trackers_def)
qed (simp add: run_with_display_def execute_benchmarks_def)

theorem display_changes_nothing_witness:
  "\<exists>c'. run_with_display demo_display (demo_display_args False) False demo_steps demo_methods [''a'', ''b'', ''c''] demo_start new_container =
     (None, \<lparr>rs_completed = [''a'', ''c''], rs_failed = [(''b'', ''no device'')], rs_world = 2326\<rparr>, c')"
  using display_changes_nothing [of "demo_display_args False" new_container demo_steps demo_display False demo_methods "[''a'', ''b'', ''c'']" demo_start]
  by (simp add: demo_execution demo_steps_ok demo_display_args_def new_container_def)

section \<open>Two ways a run is disturbed\<close>

definition quiet_container :: "'s display_env \<Rightarrow> container" where
  "quiet_container env = initialize_container env 0 2 False True False new_container"

lemma quiet_loop_steps:
  assumes "\<not> tc_active c"
  shows "plain_loop (bs_one_step b) (list_items xs) w = (None, w1) \<Longrightarrow>
    quiet_loop (step_body b) (list_items (xs @ ys)) w c = quiet_loop (step_body b) (list_items ys) w1 c"
proof (induction xs arbitrary: w)
  case (Cons x xs)
  then show ?case
    by (cases "bs_one_step b x w"; cases "fst (bs_one_step b x w)") (auto simp: list_items_def step_body_def)
qed (simp add: list_items_def)



lemma no_steps_on_terminal_aborts:
  assumes "at_level m as d c" "d + 1 < int m" "True \<in> set as" "bs_gen_steps b w = (Inr (Some 0, []), w1)"
  shows "\<exists>c' msg. run_function env False b w c = (Some (Exc NameError msg), w1, c') \<and> \<not> caught RUN_ERRORS (Exc NameError msg)"
proof -
  obtain c1 where c1: "wait_until_idle (de_clock env w) c = (None, c1)" "at_level m as d c1"
    using wait_level [OF assms(1)] by blast
  obtain c2 where c2: "on_enter_iteration_block (Some 0) c1 = (None, c2)" "at_level m as (d + 1) c2"
    using enter_level [OF c1(2) assms(2)] by blast
  obtain ks where "tc_trackers c2 = Some ks" "map tk_async ks = as" using c2(2) by (auto simp: at_level_def)
  then have "list_ex tk_async (the (tc_trackers c2))" using assms(3) by (auto simp: list_ex_iff)
  moreover have "tc_active c1" using c1(2) by (simp add: at_level_def)
  moreover note \<open>True \<in> set as\<close>
  ultimately show ?thesis using c1(1) c2(1) assms(4)
    by (simp add: run_function_def iterate_def finish_iteration_def caught_def RUN_ERRORS_def)
qed

end
