(* ===== verification/Cpu_Topology.thy ===== *)
theory Cpu_Topology
  imports Config_Schema File_System Py_Json
begin

unbundle bit_operations_syntax

text \<open>
  The topology of the machine, from \<open>src/lib/sysreport/sr_cpulist.py\<close>: sets of processors as
  bit masks and as text, the two styles of \<open>/proc/cpuinfo\<close>, caches and processors from the files
  of \<open>/sys\<close>, and the tree of groups that share caches.  The files are those of the file system
  model, with their text as content.
\<close>

section \<open>Files with one word\<close>

definition file_word :: "string fs \<Rightarrow> path \<Rightarrow> string res" where
  "file_word d fn = bindr (read_file d fn) (\<lambda>s. Inr (strip s))"

definition file_int :: "string fs \<Rightarrow> path \<Rightarrow> int res" where
  "file_int d fn = bindr (file_word d fn) int_of_str"

fun us_hex :: "string \<Rightarrow> bool" where
  "us_hex [] \<longleftrightarrow> False"
| "us_hex [c] \<longleftrightarrow> hex_val c \<noteq> None"
| "us_hex (c # d # s) \<longleftrightarrow> hex_val c \<noteq> None \<and> (if d = CHR ''_'' then us_hex s else us_hex (d # s))"

definition hex_digits_val :: "string \<Rightarrow> nat" where
  "hex_digits_val s = foldl (\<lambda>n c. 16 * n + the (hex_val c)) 0 s"

text \<open>\<open>int(s, 16)\<close>, with an optional sign and prefix.\<close>

definition int_of_hex :: "string \<Rightarrow> int res" where
  "int_of_hex s =
     (let t = strip s;
          (neg, u) = (case t of [] \<Rightarrow> (False, t)
             | c # r \<Rightarrow> if c = CHR ''-'' then (True, r) else if c = CHR ''+'' then (False, r) else (False, t));
          v = (case u of z # x # r \<Rightarrow> if z = CHR ''0'' \<and> (x = CHR ''x'' \<or> x = CHR ''X'')
                 then (case r of c # r' \<Rightarrow> if c = CHR ''_'' then r' else r | [] \<Rightarrow> r) else u | _ \<Rightarrow> u)
      in if us_hex v
         then (let n = int (hex_digits_val (filter (\<lambda>c. c \<noteq> CHR ''_'') v)) in Inr (if neg then - n else n))
         else Inl (Exc ValueError ''invalid literal for int() with base 16''))"

definition file_hex :: "string fs \<Rightarrow> path \<Rightarrow> int res" where
  "file_hex d fn = bindr (file_word d fn) (\<lambda>s. int_of_hex (filter (\<lambda>c. c \<noteq> CHR '','') s))"

section \<open>Sets of processors\<close>

definition intlist_mask :: "nat list \<Rightarrow> int" where
  "intlist_mask x = foldl (\<lambda>m n. m OR 2 ^ n) 0 x"

fun mask_bits :: "nat \<Rightarrow> nat \<Rightarrow> nat list" where
  "mask_bits p n = (if n = 0 then [] else (if odd n then [p] else []) @ mask_bits (Suc p) (n div 2))"

declare mask_bits.simps [simp del]

text \<open>The text of a negative number has a \<open>b\<close> before its digits, which counts as one.\<close>

definition intmask_list :: "int \<Rightarrow> nat list" where
  "intmask_list n =
     (let ps = mask_bits 0 (nat \<bar>n\<bar>)
      in if n < 0 then ps @ [Suc (last ps)] else ps)"

definition cpusetstr_part :: "int \<Rightarrow> string \<Rightarrow> int res" where
  "cpusetstr_part m r =
     (if CHR ''-'' \<in> set r
      then (case split_on CHR ''-'' r of
          [lo, hi] \<Rightarrow> bindr (int_of_str hi) (\<lambda>h. bindr (int_of_str lo) (\<lambda>l.
            Inr (m OR (2 ^ nat (h + 1) - 2 ^ nat l))))
        | _ \<Rightarrow> Inl (Exc ValueError ''too many values to unpack (expected 2)''))
      else bindr (int_of_str r) (\<lambda>n. Inr (m OR 2 ^ nat n)))"

fun cpusetstr_parts :: "int \<Rightarrow> string list \<Rightarrow> int res" where
  "cpusetstr_parts m [] = Inr m"
| "cpusetstr_parts m (r # rs) = bindr (cpusetstr_part m r) (\<lambda>m'. cpusetstr_parts m' rs)"

definition cpusetstr_mask :: "string \<Rightarrow> int option res" where
  "cpusetstr_mask s = (if s = [] then Inr None else bindr (cpusetstr_parts 0 (split_on CHR '','' s)) (\<lambda>m. Inr (Some m)))"

definition mask_cpusetstr :: "int \<Rightarrow> string" where
  "mask_cpusetstr m = join '', '' (map nat_str (intmask_list m))"

section \<open>Lemmas on masks\<close>

lemma mask_bits_props:
  "set (mask_bits p n) = {q. p \<le> q \<and> bit n (q - p)} \<and> sorted_wrt (<) (mask_bits p n)"
proof (induction p n rule: mask_bits.induct)
  case (1 p n)
  show ?case
  proof (cases "n = 0")
    case True
    then show ?thesis by (subst (1 2) mask_bits.simps) simp
  next
    case False
    then have e: "mask_bits p n = (if odd n then [p] else []) @ mask_bits (Suc p) (n div 2)"
      by (subst mask_bits.simps) simp
    have s: "set (mask_bits (Suc p) (n div 2)) = {q. Suc p \<le> q \<and> bit (n div 2) (q - Suc p)}"
      and o: "sorted_wrt (<) (mask_bits (Suc p) (n div 2))" using 1 [OF False] by auto
    have "(p \<le> q \<and> bit n (q - p)) = (odd n \<and> q = p \<or> Suc p \<le> q \<and> bit (n div 2) (q - Suc p))" for q
    proof (cases "p < q")
      case True
      then have "q - p = Suc (q - Suc p)" by simp
      then show ?thesis using True by (simp add: bit_Suc)
    qed (auto simp: bit_0)
    then have "set (mask_bits p n) = {q. p \<le> q \<and> bit n (q - p)}" using e s by auto
    moreover have "sorted_wrt (<) (mask_bits p n)" using e s o by (auto simp: Suc_le_eq)
    ultimately show ?thesis by blast
  qed
qed

lemma intmask_list_spec: "0 \<le> m \<Longrightarrow> intmask_list m = sorted_list_of_set {p. bit m p}"
proof -
  assume m: "0 \<le> m"
  have "bit (nat m) p = bit m p" for p using m by (simp add: bit_nat_iff)
  then have "set (mask_bits 0 (nat m)) = {p. bit m p}" "sorted_wrt (<) (mask_bits 0 (nat m))"
    using mask_bits_props [of 0 "nat m"] by auto
  moreover have "intmask_list m = mask_bits 0 (nat m)" using m by (simp add: intmask_list_def)
  ultimately show ?thesis by (metis sorted_list_of_set.idem_if_sorted_distinct strict_sorted_iff)
qed

lemma bit_intlist_mask: "bit (intlist_mask xs) p \<longleftrightarrow> p \<in> set xs"
proof -
  have "bit (foldl (\<lambda>m n. m OR 2 ^ n) m xs) p \<longleftrightarrow> bit m p \<or> p \<in> set xs" for m :: int
    by (induction xs arbitrary: m) (auto simp: bit_or_iff bit_exp_iff)
  then show ?thesis by (simp add: intlist_mask_def)
qed

lemma intlist_mask_nonneg: "0 \<le> intlist_mask xs"
proof -
  have "0 \<le> foldl (\<lambda>m n. m OR 2 ^ n) m xs" if "0 \<le> m" for m :: int
    using that by (induction xs arbitrary: m) simp_all
  then show ?thesis by (simp add: intlist_mask_def)
qed

text \<open>How the kernel prints a set of processors: ranges and single numbers.\<close>

definition range_str :: "nat \<times> nat \<Rightarrow> string" where
  "range_str r = (if fst r = snd r then nat_str (fst r) else nat_str (fst r) @ ''-'' @ nat_str (snd r))"

lemma range_bits: "l \<le> h \<Longrightarrow> bit (2 ^ Suc h - 2 ^ l :: int) p \<longleftrightarrow> l \<le> p \<and> p \<le> h"
proof -
  assume "l \<le> h"
  then have "2 ^ Suc h - 2 ^ l = push_bit l (mask (Suc h - l) :: int)"
    by (simp add: push_bit_eq_mult mask_eq_exp_minus_1 left_diff_distrib flip: power_add)
  then show ?thesis using \<open>l \<le> h\<close> by (auto simp: bit_push_bit_iff bit_mask_iff)
qed

lemma cpusetstr_part_range:
  assumes "fst r \<le> snd r" "0 \<le> m"
  shows "\<exists>m'. cpusetstr_part m (range_str r) = Inr m' \<and> 0 \<le> m' \<and> (\<forall>p. bit m' p \<longleftrightarrow> bit m p \<or> fst r \<le> p \<and> p \<le> snd r)"
proof (cases "fst r = snd r")
  case True
  then show ?thesis
    using assms(2) nat_str_chars by (auto simp: range_str_def cpusetstr_part_def bit_or_iff bit_exp_iff)
next
  case False
  have "split_on CHR ''-'' (nat_str (fst r) @ CHR ''-'' # nat_str (snd r)) = [nat_str (fst r), nat_str (snd r)]"
    by (simp add: split_on_append split_on_nosep)
  moreover have "nat (int (snd r) + 1) = Suc (snd r)" by simp
  moreover have "(2::int) ^ fst r \<le> 2 ^ Suc (snd r)" using assms(1) by (intro power_increasing) auto
  ultimately show ?thesis
    using False assms range_bits [OF assms(1)] by (auto simp: range_str_def cpusetstr_part_def bit_or_iff)
qed

lemma cpusetstr_parts_ranges:
  "list_all (\<lambda>r. fst r \<le> snd r) rs \<Longrightarrow> 0 \<le> m \<Longrightarrow>
   \<exists>m'. cpusetstr_parts m (map range_str rs) = Inr m' \<and> 0 \<le> m' \<and>
     (\<forall>p. bit m' p \<longleftrightarrow> bit m p \<or> p \<in> (\<Union>r\<in>set rs. {fst r..snd r}))"
proof (induction rs arbitrary: m)
  case (Cons r rs)
  then obtain m1 where m1: "cpusetstr_part m (range_str r) = Inr m1" "0 \<le> m1"
    "\<And>p. bit m1 p \<longleftrightarrow> bit m p \<or> fst r \<le> p \<and> p \<le> snd r"
    using cpusetstr_part_range [of r m] by auto
  with Cons.IH [OF _ m1(2)] Cons.prems(1) obtain m2 where "cpusetstr_parts m1 (map range_str rs) = Inr m2" "0 \<le> m2"
    "\<And>p. bit m2 p \<longleftrightarrow> bit m1 p \<or> p \<in> (\<Union>r\<in>set rs. {fst r..snd r})" by auto
  with m1 show ?case by auto
qed simp

lemma range_str_chars: "CHR '','' \<notin> set (range_str r)" "range_str r \<noteq> []"
  by (auto simp: range_str_def)

text \<open>
  C35.  A set of processors that is printed as the kernel prints it, as ranges and single numbers in any
  order and overlapping or not, is read as exactly that set, in ascending order.
\<close>

theorem cpuset_text_is_read:
  assumes "rs \<noteq> []" "list_all (\<lambda>r. fst r \<le> snd r) rs"
  shows "\<exists>m. cpusetstr_mask (join '','' (map range_str rs)) = Inr (Some m) \<and>
    intmask_list m = sorted_list_of_set (\<Union>r\<in>set rs. {fst r..snd r}) \<and>
    intlist_mask (intmask_list m) = m"
proof -
  have sp: "split_on CHR '','' (join '','' (map range_str rs)) = map range_str rs"
    using assms(1) range_str_chars by (intro split_join) auto
  have ne: "join '','' (map range_str rs) \<noteq> []"
    using assms(1) range_str_chars(2) by (cases rs; cases "tl rs") auto
  from cpusetstr_parts_ranges [OF assms(2), of 0] obtain m where m: "cpusetstr_parts 0 (map range_str rs) = Inr m" "0 \<le> m"
    "\<And>p. bit m p \<longleftrightarrow> p \<in> (\<Union>r\<in>set rs. {fst r..snd r})" by auto
  have fin: "finite (\<Union>r\<in>set rs. {fst r..snd r})" by simp
  have l: "intmask_list m = sorted_list_of_set (\<Union>r\<in>set rs. {fst r..snd r})"
    using intmask_list_spec [OF m(2)] by (simp only: m(3) Collect_mem_eq)
  moreover have "intlist_mask (intmask_list m) = m"
    by (rule bit_eqI) (simp only: bit_intlist_mask l set_sorted_list_of_set [OF fin] m(3))
  ultimately show ?thesis using sp ne m(1) by (simp add: cpusetstr_mask_def)
qed

theorem cpuset_text_is_read_witness:
  "\<exists>m. cpusetstr_mask (join '','' (map range_str [(0, 2), (5, 5)])) = Inr (Some m) \<and>
    intmask_list m = sorted_list_of_set (\<Union>r\<in>set [(0, 2), (5, 5)]. {fst r..snd r}) \<and> intlist_mask (intmask_list m) = m"
  by (rule cpuset_text_is_read) simp_all

section \<open>The list of processors\<close>

definition find_char :: "char \<Rightarrow> string \<Rightarrow> int" where
  "find_char c s = (if c \<in> set s then int (length (takeWhile (\<lambda>d. d \<noteq> c) s)) else -1)"

text \<open>\<open>r[i:-1]\<close> for \<open>i\<close> not negative.\<close>

definition slice_to_last :: "int \<Rightarrow> string \<Rightarrow> string" where
  "slice_to_last i r = drop (nat i) (butlast r)"

type_synonym cpu_keys = "(string, string) dict"

fun cpuinfo_lines :: "string list \<Rightarrow> int list \<Rightarrow> cpu_keys \<Rightarrow> int option \<Rightarrow> (int \<times> cpu_keys) list res" where
  "cpuinfo_lines [] cpus keys last_cpu_number = Inr (map (\<lambda>c. (c, keys)) cpus)"
| "cpuinfo_lines (r # rs) cpus keys last_cpu_number =
     (let cix = find_char CHR '':'' r;
          found = (if cix < 0 then map (\<lambda>c. (c, keys)) cpus else []);
          cpus1 = (if cix < 0 then [] else cpus);
          keys1 = (if cix < 0 then [] else keys)
      in bindr (if prefix ''processor'' r
          then bindr (int_of_str (slice_to_last (cix + 2) r)) (\<lambda>cpuno.
            case last_cpu_number of
              Some l \<Rightarrow> if \<not> l < cpuno then Inl (Exc ValueError ''Expected cpuno to be > last_cpu_number'')
                        else cpuinfo_lines rs (cpus1 @ [cpuno]) keys1 (Some cpuno)
            | None \<Rightarrow> cpuinfo_lines rs (cpus1 @ [cpuno]) keys1 (Some cpuno))
          else if cpus1 \<noteq> [] then cpuinfo_lines rs cpus1 (dset (strip (take (nat cix) r)) (slice_to_last (cix + 2) r) keys1) last_cpu_number
          else cpuinfo_lines rs cpus1 keys1 last_cpu_number)
        (\<lambda>later. Inr (found @ later)))"

definition read_proc_cpuinfo :: "string list \<Rightarrow> (int \<times> cpu_keys) list res" where
  "read_proc_cpuinfo lines = cpuinfo_lines lines [] [] None"

text \<open>
  A block of \<open>/proc/cpuinfo\<close>: the processors it describes and their keys.  In one style every block has
  one processor, in the other one block describes many.
\<close>

type_synonym cpu_block = "nat list \<times> cpu_keys"

definition nl :: string where
  "nl = [CHR 0x0A]"

definition processor_line :: "nat \<Rightarrow> string" where
  "processor_line n = ''processor'' @ CHR 0x09 # '': '' @ nat_str n @ nl"

definition key_line :: "string \<times> string \<Rightarrow> string" where
  "key_line kv = fst kv @ CHR 0x09 # '': '' @ snd kv @ nl"

definition block_lines :: "cpu_block \<Rightarrow> string list" where
  "block_lines b = map processor_line (fst b) @ map key_line (snd b) @ [nl]"

definition good_key :: "string \<Rightarrow> bool" where
  "good_key k \<longleftrightarrow> k \<noteq> [] \<and> CHR '':'' \<notin> set k \<and> \<not> prefix ''processor'' k \<and>
     \<not> is_space (hd k) \<and> \<not> is_space (last k)"

definition good_block :: "cpu_block \<Rightarrow> bool" where
  "good_block b \<longleftrightarrow> fst b \<noteq> [] \<and> wf_dict (snd b) \<and> list_all good_key (dkeys (snd b))"

lemma processor_line_parts:
  "find_char CHR '':'' (processor_line n) = 10" "prefix ''processor'' (processor_line n)"
  "slice_to_last 12 (processor_line n) = nat_str n"
  by (simp_all add: find_char_def processor_line_def slice_to_last_def nl_def butlast_append)

lemma strip_tab: "k \<noteq> [] \<Longrightarrow> \<not> is_space (hd k) \<Longrightarrow> \<not> is_space (last k) \<Longrightarrow> strip (k @ [CHR 0x09]) = k"
proof -
  assume k: "k \<noteq> []" "\<not> is_space (hd k)" "\<not> is_space (last k)"
  then have "lstrip (k @ [CHR 0x09]) = k @ [CHR 0x09]" by (cases k) (simp_all add: lstrip_def)
  moreover have "rstrip (k @ [CHR 0x09]) = rstrip k" by (simp add: rstrip_def is_space_def)
  moreover have "rstrip k = k" using k by (cases k rule: rev_cases) (simp_all add: rstrip_def)
  ultimately show ?thesis by (simp add: strip_def)
qed

lemma prefix_before: "prefix p (k @ c # r) \<Longrightarrow> c \<notin> set p \<Longrightarrow> prefix p k"
  by (auto simp: prefix_append prefix_Cons)

lemma key_line_parts:
  assumes "good_key k"
  shows "find_char CHR '':'' (key_line (k, v)) = int (length k) + 1" "\<not> prefix ''processor'' (key_line (k, v))"
    "strip (take (nat (int (length k) + 1)) (key_line (k, v))) = k"
    "slice_to_last (int (length k) + 1 + 2) (key_line (k, v)) = v"
proof -
  have "takeWhile (\<lambda>d. d \<noteq> CHR '':'') (k @ CHR 0x09 # '': '' @ v @ nl) = k @ [CHR 0x09]"
    using assms by (subst takeWhile_append2) (auto simp: good_key_def)
  then show "find_char CHR '':'' (key_line (k, v)) = int (length k) + 1" by (simp add: find_char_def key_line_def)
  show "\<not> prefix ''processor'' (key_line (k, v))"
    using assms prefix_before [of "''processor''" k "CHR 0x09"] by (auto simp: key_line_def good_key_def)
  have n: "nat (int (length k) + 1) = Suc (length k)" "nat (int (length k) + 1 + 2) = Suc (Suc (Suc (length k)))" by simp_all
  show "strip (take (nat (int (length k) + 1)) (key_line (k, v))) = k"
    using assms strip_tab by (simp add: n(1) key_line_def good_key_def)
  show "slice_to_last (int (length k) + 1 + 2) (key_line (k, v)) = v"
    by (simp only: slice_to_last_def n(2)) (simp add: key_line_def nl_def butlast_append)
qed

lemma key_lines_read:
  assumes "cpus \<noteq> []"
  shows "wf_dict (keys @ kvs) \<Longrightarrow> list_all good_key (dkeys kvs) \<Longrightarrow>
    cpuinfo_lines (map key_line kvs @ rs) cpus keys prev = cpuinfo_lines rs cpus (keys @ kvs) prev"
proof (induction kvs arbitrary: keys)
  case (Cons kv kvs)
  obtain k v where kv: "kv = (k, v)" by fastforce
  have g: "good_key k" using Cons.prems(2) kv by simp
  have "dset k v keys = keys @ [(k, v)]" using Cons.prems(1) kv by (intro dset_new) auto
  then show ?case
    using Cons.IH [of "keys @ [(k, v)]"] Cons.prems key_line_parts [OF g, of v] assms kv
    by (simp add: Let_def) (cases "cpuinfo_lines rs cpus (keys @ (k, v) # kvs) prev"; simp)
qed simp

lemma processor_lines_read:
  assumes "sorted_wrt (<) ns" "case prev of None \<Rightarrow> True | Some l \<Rightarrow> list_all (\<lambda>n. l < int n) ns" "ns \<noteq> []"
  shows "cpuinfo_lines (map processor_line ns @ rs) cpus keys prev =
    cpuinfo_lines rs (cpus @ map int ns) keys (Some (int (List.last ns)))"
  using assms
proof (induction ns arbitrary: cpus prev)
  case (Cons n ns)
  have r: "cpuinfo_lines (processor_line n # xs) cpus keys prev = cpuinfo_lines xs (cpus @ [int n]) keys (Some (int n))" for xs
    using Cons.prems(2) processor_line_parts [of n]
    by (auto simp: Let_def split: option.splits) (cases "cpuinfo_lines xs (cpus @ [int n]) keys (Some (int n))"; simp)+
  show ?case
  proof (cases "ns = []")
    case False
    with Cons.IH [of "Some (int n)" "cpus @ [int n]"] Cons.prems(1) r show ?thesis by (simp add: list_all_iff)
  qed (use r [of rs] in \<open>simp del: cpuinfo_lines.simps\<close>)
qed simp

lemma block_read:
  assumes "good_block b" "sorted_wrt (<) (fst b)" "case prev of None \<Rightarrow> True | Some l \<Rightarrow> list_all (\<lambda>n. l < int n) (fst b)"
  shows "cpuinfo_lines (block_lines b @ rs) [] [] prev =
    bindr (cpuinfo_lines rs [] [] (Some (int (List.last (fst b))))) (\<lambda>later. Inr (map (\<lambda>n. (int n, snd b)) (fst b) @ later))"
proof -
  have e: "find_char CHR '':'' nl = -1" "\<not> prefix ''processor'' nl" by (simp_all add: find_char_def nl_def)
  have "cpuinfo_lines (nl # rs) (map int (fst b)) (snd b) l =
      bindr (cpuinfo_lines rs [] [] l) (\<lambda>later. Inr (map (\<lambda>n. (int n, snd b)) (fst b) @ later))" for l
    by (simp add: e Let_def comp_def)
  with assms show ?thesis
    by (simp add: block_lines_def good_block_def processor_lines_read key_lines_read)
qed

text \<open>
  C34.  The list of processors is read in either style: every processor gets the keys of its block, in
  the order of the file, as long as the numbers ascend.
\<close>

theorem cpuinfo_is_read:
  assumes "list_all good_block bs" "sorted_wrt (<) (concat (map fst bs))"
  shows "read_proc_cpuinfo (concat (map block_lines bs)) =
    Inr (concat (map (\<lambda>b. map (\<lambda>n. (int n, snd b)) (fst b)) bs))"
proof -
  have "cpuinfo_lines (concat (map block_lines bs)) [] [] prev = Inr (concat (map (\<lambda>b. map (\<lambda>n. (int n, snd b)) (fst b)) bs))"
    if "case prev of None \<Rightarrow> True | Some l \<Rightarrow> list_all (\<lambda>n. l < int n) (concat (map fst bs))" for prev
    using assms that
  proof (induction bs arbitrary: prev)
    case (Cons b bs)
    have b: "good_block b" "sorted_wrt (<) (fst b)" "case prev of None \<Rightarrow> True | Some l \<Rightarrow> list_all (\<lambda>n. l < int n) (fst b)"
      using Cons.prems by (auto simp: sorted_wrt_append split: option.splits)
    have "List.last (fst b) \<in> set (fst b)" using b(1) by (simp add: good_block_def)
    then have "list_all (\<lambda>n. int (List.last (fst b)) < int n) (concat (map fst bs))"
      using Cons.prems(2) by (auto simp: list_all_iff sorted_wrt_append)
    with Cons.IH [of "Some (int (List.last (fst b)))"] Cons.prems block_read [OF b] show ?case
      by (simp add: sorted_wrt_append)
  qed simp
  from this [of None] show ?thesis by (simp add: read_proc_cpuinfo_def)
qed

theorem cpuinfo_is_read_witness:
  "read_proc_cpuinfo (concat (map block_lines [([0, 1], [(''CPU part'', ''0xd0c'')]), ([3], [(''CPU part'', ''0xd40'')])])) =
    Inr [(0, [(''CPU part'', ''0xd0c'')]), (1, [(''CPU part'', ''0xd0c'')]), (3, [(''CPU part'', ''0xd40'')])]"
  using cpuinfo_is_read [of "[([0, 1], [(''CPU part'', ''0xd0c'')]), ([3], [(''CPU part'', ''0xd40'')])]"]
  by (simp add: good_block_def good_key_def is_space_def)

section \<open>Types of processors\<close>

fun words_aux :: "string \<Rightarrow> string \<Rightarrow> string list" where
  "words_aux acc [] = (if acc = [] then [] else [acc])"
| "words_aux acc (c # cs) =
     (if is_space c then (if acc = [] then words_aux [] cs else acc # words_aux [] cs) else words_aux (acc @ [c]) cs)"

text \<open>\<open>s.split()\<close>\<close>

definition split_words :: "string \<Rightarrow> string list" where
  "split_words s = words_aux [] s"

fun hex_str :: "nat \<Rightarrow> string" where
  "hex_str n = (if n < 16 then [hex_digit n] else hex_str (n div 16) @ [hex_digit (n mod 16)])"

declare hex_str.simps [simp del]

text \<open>The format \<open>{:0wx}\<close>; the sign counts for the width.\<close>

definition hex_text :: "nat \<Rightarrow> int \<Rightarrow> string" where
  "hex_text width i = (let s = hex_str (nat \<bar>i\<bar>) in
     if i < 0 then CHR ''-'' # replicate (width - Suc (length s)) CHR ''0'' @ s
     else replicate (width - length s) CHR ''0'' @ s)"

datatype stepping = Number int | VariantRevision int int

record cpu_spec =
  cs_implementer :: string
  cs_implementer_code :: "int option"
  cs_model_name :: string
  cs_model_code :: int
  cs_model_sku :: "string option"
  cs_stepping :: stepping
  cs_features :: "string list"
  cs_arch :: string

fun stepping_text :: "string \<Rightarrow> stepping \<Rightarrow> string" where
  "stepping_text arch (Number n) = ''stepping '' @ int_str n"
| "stepping_text arch (VariantRevision v p) =
     (if arch = ''aarch64'' then ''r'' @ int_str v @ ''p'' @ int_str p
      else ''stepping ('' @ int_str v @ '', '' @ int_str p @ '')'')"

definition str_stepping :: "cpu_spec \<Rightarrow> string" where
  "str_stepping s = stepping_text (cs_arch s) (cs_stepping s)"

definition str_full :: "cpu_spec \<Rightarrow> string" where
  "str_full s = cs_implementer s @ '' '' @ cs_model_name s @
     (case cs_model_sku s of None \<Rightarrow> [] | Some k \<Rightarrow> '' ('' @ k @ '')'') @ '' '' @ str_stepping s"

definition spec_repr :: "cpu_spec \<Rightarrow> string" where
  "spec_repr s = join '' '' ([''imp:'' @ cs_implementer s] @
     (case cs_implementer_code s of None \<Rightarrow> [] | Some c \<Rightarrow> [''impcode:0x'' @ hex_text 0 c]) @
     [''model:'' @ cs_model_name s, ''code:0x'' @ hex_text 0 (cs_model_code s), ''stepping:'' @ str_stepping s] @
     (if cs_features s = [] then [] else [''features:['' @ join '' '' (cs_features s) @ '']'']))"

text \<open>A dictionary finds a specification when both its hash, of \<open>str_full\<close>, and its description agree.\<close>

definition same_spec :: "cpu_spec \<Rightarrow> cpu_spec \<Rightarrow> bool" where
  "same_spec a b \<longleftrightarrow> str_full a = str_full b \<and> spec_repr a = spec_repr b"

definition ARM_ARM_cpuid_map :: "(int, string) dict" where
  "ARM_ARM_cpuid_map = [(0xC07, ''Cortex-A7''), (0xC0F, ''Cortex-A15''), (0xD03, ''Cortex-A53''), (0xD07, ''Cortex-A57''),
     (0xD08, ''Cortex-A72''), (0xD0C, ''Neoverse N1''), (0xD40, ''Neoverse V1''), (0xD49, ''Neoverse N2''), (0xD4F, ''Neoverse V2'')]"

definition ARM_experimental_cpuid_map :: "(int, string) dict" where
  "ARM_experimental_cpuid_map = [(0x412, ''Rainier'')]"

definition ARM_implementer :: "(int, string \<times> (int, string) dict) dict" where
  "ARM_implementer = [(0x3F, (''Arm-int'', ARM_experimental_cpuid_map)), (0x41, (''Arm'', ARM_ARM_cpuid_map)),
     (0x42, (''Broadcom'', [])), (0x43, (''Cavium'', [(0x0A1, ''ThunderX'')])), (0x44, (''DEC'', [])), (0x46, (''Fujitsu'', [])),
     (0x48, (''Huawei'', [])), (0x49, (''Infineon'', [])), (0x4D, (''Motorola/Freescale'', [])), (0x4E, (''NVIDIA'', [(0x003, ''Denver'')])),
     (0x50, (''APM'', [])), (0x51, (''Qualcomm'', [])), (0x56, (''Marvell'', [])), (0x69, (''Intel'', [])), (0x6D, (''Microsoft'', [(0xD49, ''Cobalt 100'')]))]"

definition key_of :: "cpu_keys \<Rightarrow> string \<Rightarrow> string res" where
  "key_of keys k = (case map_of keys k of Some v \<Rightarrow> Inr v | None \<Rightarrow> Inl (Exc KeyError k))"

definition spec_x86 :: "cpu_keys \<Rightarrow> string \<Rightarrow> cpu_spec res" where
  "spec_x86 keys arch =
     bindr (bindr (key_of keys ''cpu family'') int_of_str) (\<lambda>family.
     bindr (bindr (key_of keys ''model'') int_of_str) (\<lambda>model.
     bindr (key_of keys ''model name'') (\<lambda>model_sku.
     bindr (key_of keys ''vendor_id'') (\<lambda>imp.
     let model_name = (if imp = ''GenuineIntel'' \<and> family = 6 then ''Model '' @ int_str model
                       else ''Family '' @ int_str family @ '' model '' @ int_str model);
         imp1 = (if imp = ''GenuineIntel'' then ''Intel'' else if imp = ''AuthenticAMD'' then ''AMD'' else imp)
     in bindr (bindr (key_of keys ''stepping'') int_of_str) (\<lambda>step.
        bindr (key_of keys ''flags'') (\<lambda>flags.
        Inr \<lparr>cs_implementer = imp1, cs_implementer_code = None, cs_model_name = model_name,
             cs_model_code = push_bit 8 family + model, cs_model_sku = Some model_sku, cs_stepping = Number step,
             cs_features = split_words flags, cs_arch = arch\<rparr>))))))"

definition spec_arm :: "cpu_keys \<Rightarrow> string \<Rightarrow> cpu_spec res" where
  "spec_arm keys arch =
     bindr (bindr (key_of keys ''CPU implementer'') int_of_hex) (\<lambda>impcode.
     bindr (bindr (key_of keys ''CPU part'') int_of_hex) (\<lambda>part.
     let (imp_name, part_name) = (case map_of ARM_implementer impcode of
           Some (name, parts) \<Rightarrow> (name, dget parts part (''Part 0x'' @ hex_text 3 part))
         | None \<Rightarrow> (''Implementer 0x'' @ hex_text 2 impcode, ''Part 0x'' @ hex_text 3 part))
     in bindr (bindr (key_of keys ''CPU variant'') int_of_hex) (\<lambda>variant.
        bindr (bindr (key_of keys ''CPU revision'') int_of_str) (\<lambda>revision.
        bindr (key_of keys ''Features'') (\<lambda>features.
        Inr \<lparr>cs_implementer = imp_name, cs_implementer_code = Some impcode, cs_model_name = part_name, cs_model_code = part,
             cs_model_sku = None, cs_stepping = VariantRevision variant revision,
             cs_features = split_words features, cs_arch = arch\<rparr>)))))"

definition spec_from_keys :: "string \<Rightarrow> cpu_keys \<Rightarrow> cpu_spec option res" where
  "spec_from_keys arch keys =
     (if arch = ''x86_64'' then bindr (spec_x86 keys arch) (\<lambda>s. Inr (Some s))
      else if arch \<in> set [''aarch64'', ''armv7l'', ''armv8l''] then bindr (spec_arm keys arch) (\<lambda>s. Inr (Some s))
      else Inr None)"

section \<open>Caches\<close>

type_synonym cache_key = "int \<times> int \<times> char"

record hw_cache =
  hc_size :: "rat option"
  hc_line_size :: "int option"
  hc_ways :: "int option"
  hc_sets :: "int option"
  hc_type :: char
  hc_write_policy :: "string option"
  hc_level :: int
  hc_cpus :: "nat list"
  hc_parent :: "cache_key option"

text \<open>\<open>float()\<close> is a parameter; without a unit the shift count is negative.\<close>

definition sr_memsize :: "(string \<Rightarrow> rat res) \<Rightarrow> string \<Rightarrow> rat res" where
  "sr_memsize py_float s =
     (if s = [] then Inl (Exc IndexError ''string index out of range'')
      else let u = find_char (last s) ''BKMGT''; t = (if -1 < u then butlast s else s)
      in bindr (py_float t) (\<lambda>f.
        if u < 0 then Inl (Exc ValueError ''negative shift count'') else Inr (f * 2 ^ nat (u * 10))))"

definition cache_type_letter :: "string \<Rightarrow> char res" where
  "cache_type_letter ts =
     (if ts \<in> set [''Instruction'', ''Data'', ''Unified''] then Inr (hd ts)
      else Inl (Exc ValueError (''cache type must be Instruction, Data or Unified, given '' @ ts)))"

definition no_directory :: "path \<Rightarrow> exc" where
  "no_directory p = Exc OSError (''directory '' @ join ''/'' p @ '' not found'')"

definition cache_key_of :: "string fs \<Rightarrow> path \<Rightarrow> cache_key res" where
  "cache_key_of d p =
     (if \<not> is_dir d p then Inl (no_directory p)
      else bindr (file_hex d (p @ [''shared_cpu_map''])) (\<lambda>cpumask.
           bindr (file_int d (p @ [''level''])) (\<lambda>level.
           bindr (bindr (file_word d (p @ [''type''])) cache_type_letter) (\<lambda>t. Inr (cpumask, level, t)))))"

definition if_file :: "string fs \<Rightarrow> path \<Rightarrow> (path \<Rightarrow> 'a res) \<Rightarrow> 'a option res" where
  "if_file d p f = (if is_file d p then bindr (f p) (\<lambda>x. Inr (Some x)) else Inr None)"

definition discover_cache :: "(string \<Rightarrow> rat res) \<Rightarrow> string fs \<Rightarrow> path \<Rightarrow> hw_cache res" where
  "discover_cache py_float d p =
     (if \<not> is_dir d p then Inl (no_directory p)
      else
        bindr (if_file d (p @ [''size'']) (\<lambda>f. bindr (file_word d f) (sr_memsize py_float))) (\<lambda>size.
        bindr (if_file d (p @ [''ways_of_associativity'']) (file_int d)) (\<lambda>ways.
        bindr (if_file d (p @ [''number_of_sets'']) (file_int d)) (\<lambda>sets.
        bindr (if_file d (p @ [''coherency_line_size'']) (file_int d)) (\<lambda>line.
        bindr (bindr (file_word d (p @ [''type''])) cache_type_letter) (\<lambda>t.
        bindr (if t \<noteq> CHR ''I'' then if_file d (p @ [''write_policy'']) (file_word d) else Inr None) (\<lambda>policy.
        bindr (file_int d (p @ [''level''])) (\<lambda>level.
        bindr (file_hex d (p @ [''shared_cpu_map''])) (\<lambda>cpumap.
        bindr (bindr (file_word d (p @ [''shared_cpu_list''])) cpusetstr_mask) (\<lambda>listed.
        if listed \<noteq> Some cpumap then Inl (Exc AssertionError ''mismatch'')
        else Inr \<lparr>hc_size = size, hc_line_size = line, hc_ways = ways, hc_sets = sets, hc_type = t, hc_write_policy = policy,
                  hc_level = level, hc_cpus = intmask_list cpumap, hc_parent = None\<rparr>))))))))))"

definition cache_mask :: "hw_cache \<Rightarrow> int" where
  "cache_mask c = intlist_mask (hc_cpus c)"

definition is_unified :: "hw_cache \<Rightarrow> bool" where
  "is_unified c \<longleftrightarrow> hc_type c = CHR ''U''"

definition cache_contains :: "char \<Rightarrow> hw_cache \<Rightarrow> bool" where
  "cache_contains t c \<longleftrightarrow> is_unified c \<or> hc_type c = t"

section \<open>The system\<close>

record cpu =
  cu_found_in_cpuinfo :: bool
  cu_spec :: "cpu_spec option"
  cu_L1I :: "cache_key option"
  cu_L1D :: "cache_key option"
  cu_core_id :: "int option"
  cu_package_id :: "int option"
  cu_numa_node :: "nat option"
  cu_freq_min :: "rat option"
  cu_freq_max :: "rat option"

definition new_cpu :: cpu where
  "new_cpu = \<lparr>cu_found_in_cpuinfo = False, cu_spec = None, cu_L1I = None, cu_L1D = None, cu_core_id = None,
     cu_package_id = None, cu_numa_node = None, cu_freq_min = None, cu_freq_max = None\<rparr>"

text \<open>Groups are named by their masks.\<close>

record cpu_group =
  cg_parent :: "int option"
  cg_subgroups :: "int list"
  cg_caches :: "cache_key list"

definition new_group :: cpu_group where
  "new_group = \<lparr>cg_parent = None, cg_subgroups = [], cg_caches = []\<rparr>"

record topology =
  tp_cpus :: "(int, cpu) dict"
  tp_caches :: "(cache_key, hw_cache) dict"
  tp_specs :: "(cpu_spec \<times> int list) list"
  tp_max_cpuno :: int
  tp_n_cpus_online :: nat
  tp_cores :: "(int, int list) dict"
  tp_packages :: "(int, int list) dict"
  tp_numa_nodes :: "(nat, int \<times> nat list) dict"
  tp_groups :: "(int, cpu_group) dict"
  tp_all_mask :: int
  tp_phys_mem :: int

definition new_topology :: topology where
  "new_topology = \<lparr>tp_cpus = [], tp_caches = [], tp_specs = [], tp_max_cpuno = 0, tp_n_cpus_online = 0, tp_cores = [],
     tp_packages = [], tp_numa_nodes = [], tp_groups = [], tp_all_mask = 0, tp_phys_mem = 0\<rparr>"

fun add_spec :: "cpu_spec \<Rightarrow> int \<Rightarrow> (cpu_spec \<times> int list) list \<Rightarrow> (cpu_spec \<times> int list) list" where
  "add_spec s n [] = [(s, [n])]"
| "add_spec s n ((t, ns) # ts) = (if same_spec s t then (t, ns @ [n]) # ts else (t, ns) # add_spec s n ts)"

definition mask_add :: "int \<Rightarrow> int \<Rightarrow> int res" where
  "mask_add m n = (if n < 0 then Inl (Exc ValueError ''negative shift count'') else Inr (m OR 2 ^ nat n))"

text \<open>A processor of \<open>/proc/cpuinfo\<close>.\<close>

definition add_cpuinfo :: "string \<Rightarrow> int \<times> cpu_keys \<Rightarrow> topology \<Rightarrow> topology res" where
  "add_cpuinfo arch entry s =
     (case entry of (cpuno, keys) \<Rightarrow>
      bindr (mask_add (tp_all_mask s) cpuno) (\<lambda>m.
      bindr (spec_from_keys arch keys) (\<lambda>spec.
      case spec of
        None \<Rightarrow> Inl (Exc AssertionError ''could not get spec from keys'')
      | Some sp \<Rightarrow> Inr (s\<lparr>tp_all_mask := m, tp_max_cpuno := max (tp_max_cpuno s) cpuno,
          tp_cpus := dset cpuno (new_cpu\<lparr>cu_found_in_cpuinfo := True, cu_spec := Some sp\<rparr>) (tp_cpus s),
          tp_n_cpus_online := Suc (tp_n_cpus_online s), tp_specs := add_spec sp cpuno (tp_specs s)\<rparr>))))"

fun fold_res :: "('a \<Rightarrow> 's \<Rightarrow> 's res) \<Rightarrow> 'a list \<Rightarrow> 's \<Rightarrow> 's res" where
  "fold_res f [] s = Inr s"
| "fold_res f (x # xs) s = bindr (f x s) (fold_res f xs)"

definition update_cpu :: "int \<Rightarrow> (cpu \<Rightarrow> cpu) \<Rightarrow> topology \<Rightarrow> topology" where
  "update_cpu n f s = s\<lparr>tp_cpus := dset n (f (dget (tp_cpus s) n new_cpu)) (tp_cpus s)\<rparr>"

definition append_at :: "'k \<Rightarrow> 'v \<Rightarrow> ('k, 'v list) dict \<Rightarrow> ('k, 'v list) dict" where
  "append_at k v d = dset k (dget d k [] @ [v]) d"

definition read_topology_ids :: "string fs \<Rightarrow> path \<Rightarrow> int \<Rightarrow> topology \<Rightarrow> topology res" where
  "read_topology_ids d cd n s =
     (if \<not> is_dir d (cd @ [''topology'']) then Inr s
      else bindr (file_int d (cd @ [''topology'', ''core_id''])) (\<lambda>core.
           bindr (file_int d (cd @ [''topology'', ''physical_package_id''])) (\<lambda>pkg.
           Inr ((update_cpu n (\<lambda>c. c\<lparr>cu_core_id := Some core, cu_package_id := Some pkg\<rparr>) s)
             \<lparr>tp_cores := append_at core n (tp_cores s), tp_packages := append_at pkg n (tp_packages s)\<rparr>))))"

text \<open>An unreadable frequency is only a warning.\<close>

definition read_frequencies :: "string fs \<Rightarrow> path \<Rightarrow> int \<Rightarrow> topology \<Rightarrow> topology res" where
  "read_frequencies d cd n s =
     (if \<not> is_dir d (cd @ [''cpufreq'']) then Inr s
      else case file_int d (cd @ [''cpufreq'', ''cpuinfo_min_freq'']) of
        Inl e \<Rightarrow> if caught [OSError, ValueError] e then Inr s else Inl e
      | Inr lo \<Rightarrow>
          (let s1 = update_cpu n (\<lambda>c. c\<lparr>cu_freq_min := Some (of_int lo * 1000)\<rparr>) s in
           case file_int d (cd @ [''cpufreq'', ''cpuinfo_max_freq'']) of
             Inl e \<Rightarrow> if caught [OSError, ValueError] e then Inr s1 else Inl e
           | Inr hi \<Rightarrow> Inr (update_cpu n (\<lambda>c. c\<lparr>cu_freq_max := Some (of_int hi * 1000)\<rparr>) s1)))"

definition ensure_group :: "int \<Rightarrow> (int, cpu_group) dict \<Rightarrow> (int, cpu_group) dict" where
  "ensure_group m gs = (if m \<in> set (dkeys gs) then gs else dset m new_group gs)"

definition update_group :: "int \<Rightarrow> (cpu_group \<Rightarrow> cpu_group) \<Rightarrow> (int, cpu_group) dict \<Rightarrow> (int, cpu_group) dict" where
  "update_group m f gs = dset m (f (dget gs m new_group)) gs"

text \<open>One \<open>index*\<close> directory of a processor; the keys of its caches are collected.\<close>

definition read_cache :: "(string \<Rightarrow> rat res) \<Rightarrow> string fs \<Rightarrow> path \<Rightarrow> int \<Rightarrow> string \<Rightarrow> topology \<times> cache_key list \<Rightarrow>
    (topology \<times> cache_key list) res" where
  "read_cache py_float d caches n name st =
     (case st of (s, found) \<Rightarrow>
      if \<not> prefix ''index'' name then Inr (s, found)
      else bindr (cache_key_of d (caches @ [name])) (\<lambda>k.
        bindr (case map_of (tp_caches s) k of
            Some c \<Rightarrow> Inr (s, c)
          | None \<Rightarrow> bindr (discover_cache py_float d (caches @ [name])) (\<lambda>c.
              Inr (s\<lparr>tp_caches := dset k c (tp_caches s),
                    tp_groups := update_group (cache_mask c) (\<lambda>g. g\<lparr>cg_caches := cg_caches g @ [k]\<rparr>)
                      (ensure_group (cache_mask c) (tp_groups s))\<rparr>, c)))
        (\<lambda>(s1, c). Inr ((if hc_level c = 1
            then update_cpu n (\<lambda>u. u\<lparr>cu_L1I := (if cache_contains CHR ''I'' c then Some k else cu_L1I u),
                                    cu_L1D := (if cache_contains CHR ''D'' c then Some k else cu_L1D u)\<rparr>) s1
            else s1), found @ [k]))))"

definition next_level :: "hw_cache \<Rightarrow> hw_cache \<Rightarrow> bool" where
  "next_level c cp \<longleftrightarrow> hc_level cp = hc_level c + 1 \<and> (is_unified c \<or> cache_contains (hc_type c) cp)"

definition link_cache :: "cache_key \<times> cache_key \<Rightarrow> (cache_key, hw_cache) dict \<Rightarrow> (cache_key, hw_cache) dict res" where
  "link_cache kk cs =
     (case kk of (k, kp) \<Rightarrow>
      case (map_of cs k, map_of cs kp) of
        (Some c, Some cp) \<Rightarrow>
          if \<not> next_level c cp then Inr cs
          else if hc_parent c \<noteq> None \<and> hc_parent c \<noteq> Some kp
          then Inl (Exc AssertionError ''cache has a different parent'')
          else Inr (dset k (c\<lparr>hc_parent := Some kp\<rparr>) cs)
      | _ \<Rightarrow> Inr cs)"

definition read_caches :: "(string \<Rightarrow> rat res) \<Rightarrow> string fs \<Rightarrow> path \<Rightarrow> int \<Rightarrow> topology \<Rightarrow> topology res" where
  "read_caches py_float d caches n s =
     (if \<not> path_exists d caches then Inr s
      else bindr (fold_res (read_cache py_float d caches n) (listdir d caches) (s, [])) (\<lambda>(s1, ks).
        bindr (fold_res link_cache (List.product ks ks) (tp_caches s1)) (\<lambda>cs. Inr (s1\<lparr>tp_caches := cs\<rparr>))))"

definition sysfs_cpus :: "string fs \<Rightarrow> path res" where
  "sysfs_cpus d =
     (if path_exists d [''sys'', ''bus'', ''cpu'', ''devices''] then Inr [''sys'', ''bus'', ''cpu'', ''devices'']
      else if path_exists d [''sys'', ''devices'', ''system'', ''cpu''] then Inr [''sys'', ''devices'', ''system'', ''cpu'']
      else Inl (no_directory [''sys'', ''devices'', ''system'', ''cpu'']))"

definition is_cpu_name :: "string \<Rightarrow> bool" where
  "is_cpu_name n \<longleftrightarrow> prefix ''cpu'' n \<and> 4 \<le> length n \<and> is_digit (n ! 3)"

definition add_sys_cpu :: "(string \<Rightarrow> rat res) \<Rightarrow> string fs \<Rightarrow> path \<Rightarrow> string \<Rightarrow> topology \<Rightarrow> topology res" where
  "add_sys_cpu py_float d devdir name s =
     (if \<not> is_cpu_name name then Inr s
      else bindr (int_of_str (drop 3 name)) (\<lambda>n.
        let cd = devdir @ [name] in
        bindr (mask_add (tp_all_mask s) n) (\<lambda>m.
        let s1 = s\<lparr>tp_all_mask := m, tp_max_cpuno := max (tp_max_cpuno s) n\<rparr>;
            s2 = (if n \<in> set (dkeys (tp_cpus s1)) then s1 else s1\<lparr>tp_cpus := dset n new_cpu (tp_cpus s1)\<rparr>)
        in bindr (read_topology_ids d cd n s2) (\<lambda>s3.
           bindr (read_frequencies d cd n s3) (\<lambda>s4.
           read_caches py_float d (cd @ [''cache'']) n s4)))))"

text \<open>\<open>re.search("MemTotal:\s*([0-9]*)")\<close>\<close>

fun mem_total :: "string \<Rightarrow> string option" where
  "mem_total [] = None"
| "mem_total (c # cs) = (if prefix ''MemTotal:'' (c # cs)
     then Some (takeWhile is_digit (dropWhile is_space (drop 9 (c # cs)))) else mem_total cs)"

definition node_path :: "nat \<Rightarrow> path" where
  "node_path n = [''sys'', ''devices'', ''system'', ''node'', ''node'' @ nat_str n]"

definition set_numa_node :: "nat \<Rightarrow> nat \<Rightarrow> topology \<Rightarrow> topology res" where
  "set_numa_node n i s =
     (if int i \<in> set (dkeys (tp_cpus s)) then Inr (update_cpu (int i) (\<lambda>c. c\<lparr>cu_numa_node := Some n\<rparr>) s)
      else Inl (Exc KeyError (nat_str i)))"

text \<open>A node without processors has an empty list.\<close>

definition listed_cpus :: "int option \<Rightarrow> nat list" where
  "listed_cpus m = (case m of None \<Rightarrow> [] | Some i \<Rightarrow> intmask_list i)"

definition read_node :: "string fs \<Rightarrow> nat \<Rightarrow> topology \<Rightarrow> topology res" where
  "read_node d n s =
     bindr (file_word d (node_path n @ [''meminfo''])) (\<lambda>w.
     case mem_total w of
       None \<Rightarrow> Inl (Exc AttributeError ''NoneType object has no attribute group'')
     | Some t \<Rightarrow> bindr (int_of_str t) (\<lambda>sz.
         bindr (bindr (file_word d (node_path n @ [''cpulist''])) cpusetstr_mask) (\<lambda>m.
         let cpus = listed_cpus m
         in fold_res (set_numa_node n) cpus (s\<lparr>tp_numa_nodes := dset n (sz, cpus) (tp_numa_nodes s)\<rparr>))))"

text \<open>Nodes are numbered from zero up to the first that does not exist; no file system has more nodes than entries.\<close>

fun read_nodes :: "string fs \<Rightarrow> nat \<Rightarrow> nat \<Rightarrow> topology \<Rightarrow> topology res" where
  "read_nodes d 0 n s = Inr s"
| "read_nodes d (Suc fuel) n s =
     (if \<not> path_exists d (node_path n) then Inr s else bindr (read_node d n s) (read_nodes d fuel (Suc n)))"

section \<open>The tree of groups\<close>

definition is_subset :: "int \<Rightarrow> int \<Rightarrow> bool" where
  "is_subset a b \<longleftrightarrow> a AND b = a"

definition best_parent :: "int \<Rightarrow> int list \<Rightarrow> int \<Rightarrow> int" where
  "best_parent whole masks g =
     foldl (\<lambda>best gp. if gp \<noteq> g \<and> is_subset g gp \<and> is_subset gp best then gp else best) whole masks"

definition link_group :: "int \<Rightarrow> int list \<Rightarrow> int \<Rightarrow> (int, cpu_group) dict \<Rightarrow> (int, cpu_group) dict" where
  "link_group whole masks g gs =
     (if g = whole then gs
      else let p = best_parent whole masks g
           in update_group p (\<lambda>gr. gr\<lparr>cg_subgroups := cg_subgroups gr @ [g]\<rparr>)
                (update_group g (\<lambda>gr. gr\<lparr>cg_parent := Some p\<rparr>) gs))"

definition consistent_groups :: "(int, cpu_group) dict \<Rightarrow> bool" where
  "consistent_groups gs \<longleftrightarrow> list_all (\<lambda>(m, g). list_all (\<lambda>k. cg_parent (dget gs k new_group) = Some m) (cg_subgroups g)) gs"

definition link_groups :: "int \<Rightarrow> (int, cpu_group) dict \<Rightarrow> (int, cpu_group) dict res" where
  "link_groups whole gs =
     (let gs' = foldl (\<lambda>h g. link_group whole (dkeys gs) g h) gs (dkeys gs)
      in if consistent_groups gs' then Inr gs' else Inl (Exc AssertionError ''subgroup has a different parent''))"

fun meminfo_total :: "string list \<Rightarrow> int option \<Rightarrow> int option res" where
  "meminfo_total [] m2 = Inr m2"
| "meminfo_total (l # ls) m2 =
     (if \<not> prefix ''MemTotal:'' l then meminfo_total ls m2
      else case drop 1 (split_words l) of
          [] \<Rightarrow> Inl (Exc IndexError ''list index out of range'')
        | x # us \<Rightarrow> bindr (int_of_str x) (\<lambda>n. case us of
              [] \<Rightarrow> Inl (Exc IndexError ''list index out of range'')
            | u # _ \<Rightarrow> if u = ''kB'' then meminfo_total ls (Some (n * 1024)) else Inl (Exc AssertionError [])))"

text \<open>Without a line of the total the variable is unbound.\<close>

definition physical_memory :: "int \<Rightarrow> int \<Rightarrow> string list \<Rightarrow> int res" where
  "physical_memory page_size phys_pages meminfo =
     bindr (meminfo_total meminfo None) (\<lambda>m. case m of
         None \<Rightarrow> Inl (Exc NameError ''m2'')
       | Some m2 \<Rightarrow> if page_size * phys_pages = m2 then Inr m2 else Inl (Exc AssertionError ''physical memory mismatch''))"

definition discover :: "(string \<Rightarrow> rat res) \<Rightarrow> string \<Rightarrow> int \<times> int \<Rightarrow> string list \<Rightarrow> string list \<Rightarrow> string fs \<Rightarrow> topology res" where
  "discover py_float arch pages meminfo cpuinfo d =
     bindr (physical_memory (fst pages) (snd pages) meminfo) (\<lambda>phys_mem.
     bindr (read_proc_cpuinfo cpuinfo) (\<lambda>entries.
     bindr (fold_res (add_cpuinfo arch) entries (new_topology\<lparr>tp_phys_mem := phys_mem\<rparr>)) (\<lambda>s1.
     bindr (sysfs_cpus d) (\<lambda>devdir.
     bindr (fold_res (add_sys_cpu py_float d devdir) (listdir d devdir) s1) (\<lambda>s2.
     if tp_cpus s2 = [] then Inl (Exc AssertionError ''cpus_by_number must not be None'')
     else if tp_specs s2 = [] then Inl (Exc AssertionError ''spec_to_cpulist must not be None'')
     else bindr (read_nodes d (length d) 0 s2) (\<lambda>s3.
       bindr (link_groups (tp_all_mask s3) (ensure_group (tp_all_mask s3) (tp_groups s3))) (\<lambda>gs.
       Inr (s3\<lparr>tp_groups := gs\<rparr>))))))))"

definition n_cpus :: "topology \<Rightarrow> nat" where
  "n_cpus s = length (tp_cpus s)"

definition is_missing_cpus :: "topology \<Rightarrow> bool" where
  "is_missing_cpus s \<longleftrightarrow> int (n_cpus s) < tp_max_cpuno s"

definition is_heterogeneous :: "topology \<Rightarrow> bool res" where
  "is_heterogeneous s =
     (if tp_specs s = [] then Inl (Exc AssertionError ''spec_to_cpulist unavailable'')
      else if length (tp_specs s) = 1
      then (if is_missing_cpus s then Inl (Exc AssertionError ''Some CPUs are missing'') else Inr False)
      else Inr True)"

definition cpu_at :: "topology \<Rightarrow> int \<Rightarrow> cpu res" where
  "cpu_at s n = (case map_of (tp_cpus s) n of Some c \<Rightarrow> Inr c | None \<Rightarrow> Inl (Exc KeyError (int_str n)))"

definition online_cpus :: "bool \<Rightarrow> topology \<Rightarrow> cpu list res" where
  "online_cpus online_only s =
     bindr (map_res (cpu_at s) (map int [0..<n_cpus s])) (\<lambda>cs.
       Inr (filter (\<lambda>c. \<not> online_only \<or> cu_found_in_cpuinfo c) cs))"

definition has_cpu_feature :: "string \<Rightarrow> topology \<Rightarrow> bool" where
  "has_cpu_feature f s \<longleftrightarrow> list_all (\<lambda>(sp, _). f \<in> set (cs_features sp)) (tp_specs s)"

section \<open>The groups form a tree\<close>

lemma is_subset_iff: "is_subset a b \<longleftrightarrow> (\<forall>p. bit a p \<longrightarrow> bit b p)"
  by (auto simp: is_subset_def bit_eq_iff bit_and_iff)

lemma is_subset_refl [simp]: "is_subset a a"
  by (simp add: is_subset_iff)

lemma is_subset_trans: "is_subset a b \<Longrightarrow> is_subset b c \<Longrightarrow> is_subset a c"
  by (simp add: is_subset_iff)

lemma is_subset_antisym: "is_subset a b \<Longrightarrow> is_subset b a \<Longrightarrow> a = b"
  by (auto simp: is_subset_iff intro: bit_eqI)

definition above :: "int \<Rightarrow> int list \<Rightarrow> int set" where
  "above g masks = {m \<in> set masks. m \<noteq> g \<and> is_subset g m}"

lemma best_parent_step:
  assumes "best \<in> insert whole (above g xs)" "\<forall>q\<in>above g xs. is_subset q best \<longrightarrow> q = best"
  shows "best_parent best ys g \<in> insert whole (above g (xs @ ys)) \<and>
    (\<forall>q\<in>above g (xs @ ys). is_subset q (best_parent best ys g) \<longrightarrow> q = best_parent best ys g)"
  using assms
proof (induction ys arbitrary: best xs)
  case (Cons y ys)
  let ?b = "if y \<noteq> g \<and> is_subset g y \<and> is_subset y best then y else best"
  have "?b \<in> insert whole (above g (xs @ [y]))" using Cons.prems(1) by (auto simp: above_def)
  moreover have "\<forall>q\<in>above g (xs @ [y]). is_subset q ?b \<longrightarrow> q = ?b"
  proof (intro ballI impI)
    fix q assume q: "q \<in> above g (xs @ [y])" "is_subset q ?b"
    show "q = ?b"
    proof (cases "y \<noteq> g \<and> is_subset g y \<and> is_subset y best")
      case True
      show ?thesis
      proof (cases "q \<in> above g xs")
        case in_xs: True
        have "is_subset q best" using q(2) True is_subset_trans [of q y best] by simp
        then have "q = best" using Cons.prems(2) in_xs by blast
        then show ?thesis using q(2) True is_subset_antisym [of y best] by simp
      qed (use q(1) True in \<open>simp add: above_def\<close>)
    next
      case False
      then show ?thesis using q Cons.prems(2) by (auto simp: above_def)
    qed
  qed
  ultimately show ?case using Cons.IH [of ?b "xs @ [y]"] by (simp add: best_parent_def)
qed (simp add: best_parent_def)

lemma best_parent_spec:
  assumes "whole \<in> set masks" "g \<noteq> whole" "is_subset g whole"
  shows "best_parent whole masks g \<in> above g masks"
    and "q \<in> above g masks \<Longrightarrow> is_subset q (best_parent whole masks g) \<Longrightarrow> q = best_parent whole masks g"
proof -
  have "whole \<in> above g masks" using assms by (simp add: above_def)
  then show "best_parent whole masks g \<in> above g masks"
    using best_parent_step [of whole whole g "[]" masks] by (auto simp: above_def)
  show "q \<in> above g masks \<Longrightarrow> is_subset q (best_parent whole masks g) \<Longrightarrow> q = best_parent whole masks g"
    using best_parent_step [of whole whole g "[]" masks] by (simp add: above_def)
qed

lemma update_group_map:
  "wf_dict gs \<Longrightarrow> m \<in> fst ` set gs \<Longrightarrow> update_group m f gs = map (\<lambda>(k, g). (k, if k = m then f g else g)) gs"
proof (induction gs)
  case (Cons kg gs)
  obtain k g where kg: "kg = (k, g)" by fastforce
  show ?case
  proof (cases "k = m")
    case True
    have "map (\<lambda>(k, g). (k, if k = m then f g else g)) gs = gs"
      using Cons.prems(1) kg True by (intro map_idI) force
    then show ?thesis using kg True by (simp add: update_group_def)
  next
    case False
    then show ?thesis using Cons kg by (simp add: update_group_def)
  qed
qed simp

definition linked :: "int \<Rightarrow> int list \<Rightarrow> int list \<Rightarrow> int \<times> cpu_group \<Rightarrow> int \<times> cpu_group" where
  "linked whole masks xs mg = (fst mg, (snd mg)\<lparr>
     cg_parent := (if fst mg \<in> set xs \<and> fst mg \<noteq> whole then Some (best_parent whole masks (fst mg)) else cg_parent (snd mg)),
     cg_subgroups := cg_subgroups (snd mg) @ filter (\<lambda>k. k \<noteq> whole \<and> best_parent whole masks k = fst mg) xs\<rparr>)"

lemma link_group_map:
  assumes "wf_dict gs" "g \<in> fst ` set gs" "g \<noteq> whole \<Longrightarrow> best_parent whole masks g \<in> fst ` set gs"
  shows "link_group whole masks g gs = map (linked whole masks [g]) gs"
proof (cases "g = whole")
  case True
  then show ?thesis by (auto simp: link_group_def linked_def intro!: map_idI [symmetric])
next
  case False
  let ?h = "update_group g (\<lambda>gr. gr\<lparr>cg_parent := Some (best_parent whole masks g)\<rparr>) gs"
  have h: "?h = map (\<lambda>(k, gr). (k, if k = g then gr\<lparr>cg_parent := Some (best_parent whole masks g)\<rparr> else gr)) gs"
    by (rule update_group_map [OF assms(1,2)])
  then have "fst ` set ?h = fst ` set gs" "wf_dict ?h" using assms(1) by (force, simp add: comp_def case_prod_beta)
  with update_group_map [of ?h "best_parent whole masks g"] assms(3) False h show ?thesis
    by (auto simp: link_group_def linked_def Let_def)
qed

lemma link_groups_map:
  assumes "wf_dict gs" "set xs \<subseteq> fst ` set gs" "\<And>g. g \<in> set xs \<Longrightarrow> g \<noteq> whole \<Longrightarrow> best_parent whole masks g \<in> fst ` set gs"
  shows "foldl (\<lambda>h g. link_group whole masks g h) gs xs = map (linked whole masks xs) gs"
  using assms
proof (induction xs arbitrary: gs)
  case Nil
  then show ?case by (auto simp: linked_def intro!: map_idI [symmetric])
next
  case (Cons x xs)
  have l: "link_group whole masks x gs = map (linked whole masks [x]) gs"
    using Cons.prems by (intro link_group_map) auto
  have k: "map fst (map (linked whole masks [x]) gs) = map fst gs" by (simp add: linked_def comp_def)
  then have f: "fst ` set (map (linked whole masks [x]) gs) = fst ` set gs" by (metis set_map)
  have "wf_dict (map (linked whole masks [x]) gs)" using Cons.prems(1) by (simp only: k)
  then have "foldl (\<lambda>h g. link_group whole masks g h) (map (linked whole masks [x]) gs) xs = map (linked whole masks xs) (map (linked whole masks [x]) gs)"
    by (rule Cons.IH) (use Cons.prems(2,3) in \<open>simp_all only: f list.set\<close>, auto)
  then show ?case by (simp add: l) (auto simp: linked_def)
qed

lemma map_of_linked: "map_of (map (linked whole ms xs) gs) k = map_option (\<lambda>g. snd (linked whole ms xs (k, g))) (map_of gs k)"
  by (induction gs) (auto simp: linked_def)

definition parent_group :: "(int, cpu_group) dict \<Rightarrow> int \<Rightarrow> int" where
  "parent_group gs m = (case cg_parent (dget gs m new_group) of Some p \<Rightarrow> p | None \<Rightarrow> m)"

lemma above_parent:
  assumes "whole \<in> set ms" "m \<noteq> whole" "is_subset m whole"
  shows "above (best_parent whole ms m) ms \<subset> above m ms"
proof -
  let ?p = "best_parent whole ms m"
  have p: "?p \<in> above m ms" by (rule best_parent_spec(1) [OF assms])
  have "above ?p ms \<subseteq> above m ms"
    using p is_subset_trans [of m ?p] is_subset_antisym [of m ?p] by (auto simp: above_def)
  moreover have "?p \<notin> above ?p ms" by (simp add: above_def)
  ultimately show ?thesis using p by blast
qed

lemma parents_reach_whole:
  assumes "whole \<in> set ms" "\<And>m. m \<in> set ms \<Longrightarrow> is_subset m whole"
    and "\<And>m. m \<in> set ms \<Longrightarrow> m \<noteq> whole \<Longrightarrow> par m = best_parent whole ms m"
  shows "m \<in> set ms \<Longrightarrow> \<exists>n. (par ^^ n) m = whole"
proof (induction "card (above m ms)" arbitrary: m rule: less_induct)
  case less
  show ?case
  proof (cases "m = whole")
    case True
    then show ?thesis by (intro exI [of _ 0]) simp
  next
    case False
    let ?p = "best_parent whole ms m"
    have "finite (above m ms)" by (simp add: above_def)
    then have "card (above ?p ms) < card (above m ms)"
      using above_parent [OF assms(1) False assms(2) [OF less.prems]] by (simp add: psubset_card_mono)
    moreover have "?p \<in> set ms" using best_parent_spec(1) [OF assms(1) False assms(2) [OF less.prems]] by (simp add: above_def)
    ultimately obtain n where "(par ^^ n) ?p = whole" using less.hyps by blast
    then show ?thesis using assms(3) [OF less.prems False] by (intro exI [of _ "Suc n"]) (simp add: funpow_swap1)
  qed
qed

lemma best_parent_in: "whole \<in> set masks \<Longrightarrow> best_parent whole masks g \<in> set masks"
  using best_parent_step [of whole whole g "[]" masks] by (auto simp: above_def)

lemma link_groups_eq:
  assumes "wf_dict gs" "whole \<in> set (dkeys gs)"
    and "\<And>g. g \<in> snd ` set gs \<Longrightarrow> cg_parent g = None \<and> cg_subgroups g = []"
  shows "link_groups whole gs = Inr (map (linked whole (dkeys gs) (dkeys gs)) gs)"
proof -
  let ?ks = "dkeys gs" and ?gs = "map (linked whole (dkeys gs) (dkeys gs)) gs"
  have bp: "best_parent whole ?ks g \<in> fst ` set gs" for g using best_parent_in [OF assms(2)] by simp
  have f: "foldl (\<lambda>h g. link_group whole ?ks g h) gs ?ks = ?gs"
    by (rule link_groups_map [OF assms(1)]) (use bp in auto)
  have "consistent_groups ?gs"
    unfolding consistent_groups_def list_all_iff
  proof (safe)
    fix p gr k assume "(p, gr) \<in> set ?gs" "k \<in> set (cg_subgroups gr)"
    then obtain x where x: "x \<in> set gs" "linked whole ?ks ?ks x = (p, gr)"
      unfolding set_map by (metis imageE)
    define g where "g = snd x"
    have "x = (p, g)" using x(2) by (simp add: linked_def g_def prod_eq_iff)
    then have g: "(p, g) \<in> set gs" "gr = snd (linked whole ?ks ?ks (p, g))" using x by (simp, metis snd_conv)
    have "cg_subgroups g = []" using assms(3) [of g] g(1) by force
    then have "k \<in> set (filter (\<lambda>k. k \<noteq> whole \<and> best_parent whole ?ks k = p) ?ks)"
      using \<open>k \<in> set (cg_subgroups gr)\<close> g(2) by (simp add: linked_def)
    then have "k \<in> set ?ks" "k \<noteq> whole" "best_parent whole ?ks k = p" by simp_all
    moreover from this obtain g where "map_of gs k = Some g" by (metis map_of_in_keys set_map)
    ultimately show "cg_parent (dget ?gs k new_group) = Some p"
      using map_of_linked [of whole ?ks ?ks gs k] by (simp add: dget_def linked_def)
  qed
  then show ?thesis using f by (simp add: link_groups_def)
qed

text \<open>
  C33.  The groups of processors form a tree below the group of all: linking never fails, every other
  group gets a parent that properly contains it with no group in between and lists it among its
  subgroups, and the parents of every group lead up to the whole machine.
\<close>

theorem groups_form_tree:
  assumes "wf_dict gs" "whole \<in> set (dkeys gs)" "list_all (\<lambda>m. is_subset m whole) (dkeys gs)"
    and "list_all (\<lambda>g. cg_parent g = None \<and> cg_subgroups g = []) (map snd gs)"
  shows "\<exists>gs'. link_groups whole gs = Inr gs' \<and> dkeys gs' = dkeys gs \<and>
    (\<forall>m\<in>set (dkeys gs). \<exists>n. (parent_group gs' ^^ n) m = whole) \<and>
    (\<forall>m\<in>set (dkeys gs) - {whole}. parent_group gs' m \<in> above m (dkeys gs) \<and>
      (\<forall>q\<in>above m (dkeys gs). is_subset q (parent_group gs' m) \<longrightarrow> q = parent_group gs' m) \<and>
      m \<in> set (cg_subgroups (dget gs' (parent_group gs' m) new_group)))"
proof -
  let ?ks = "dkeys gs" and ?gs = "map (linked whole (dkeys gs) (dkeys gs)) gs"
  have sub: "is_subset m whole" if "m \<in> set ?ks" for m using assms(3) that by (auto simp: list_all_iff)
  have par: "parent_group ?gs k = best_parent whole ?ks k" if k: "k \<in> set ?ks" "k \<noteq> whole" for k
  proof -
    obtain g where "map_of gs k = Some g" using k by (metis map_of_in_keys set_map)
    then show ?thesis using map_of_linked [of whole ?ks ?ks gs k] k by (simp add: parent_group_def dget_def linked_def)
  qed
  have "link_groups whole gs = Inr ?gs"
    by (rule link_groups_eq [OF assms(1,2)]) (use assms(4) in \<open>auto simp: list_all_iff\<close>)
  moreover have "dkeys ?gs = ?ks" by (simp add: linked_def)
  moreover have "\<exists>n. (parent_group ?gs ^^ n) k = whole" if "k \<in> set ?ks" for k
    by (rule parents_reach_whole [OF assms(2) sub par that])
  moreover have "parent_group ?gs k \<in> above k ?ks \<and>
      (\<forall>q\<in>above k ?ks. is_subset q (parent_group ?gs k) \<longrightarrow> q = parent_group ?gs k) \<and>
      k \<in> set (cg_subgroups (dget ?gs (parent_group ?gs k) new_group))" if k: "k \<in> set ?ks - {whole}" for k
  proof -
    have k': "k \<in> set ?ks" "k \<noteq> whole" using k by auto
    note bp = best_parent_spec [OF assms(2) k'(2) sub [OF k'(1)]]
    have "best_parent whole ?ks k \<in> set ?ks" using bp(1) by (simp add: above_def)
    then obtain g where "map_of gs (best_parent whole ?ks k) = Some g" by (metis map_of_in_keys set_map)
    then have "k \<in> set (cg_subgroups (dget ?gs (best_parent whole ?ks k) new_group))"
      using map_of_linked [of whole ?ks ?ks gs "best_parent whole ?ks k"] k' by (simp add: dget_def linked_def)
    then show ?thesis using bp par [OF k'] by auto
  qed
  ultimately show ?thesis by blast
qed

theorem groups_form_tree_witness:
  "\<exists>gs'. link_groups 15 [(3, new_group), (1, new_group), (15, new_group)] = Inr gs' \<and> (\<exists>n. (parent_group gs' ^^ n) 1 = 15)"
  using groups_form_tree [of "[(3, new_group), (1, new_group), (15, new_group)]" 15]
  by (auto simp: is_subset_def new_group_def)

section \<open>What is discovered\<close>

definition l1_ok :: "(cache_key, hw_cache) dict \<Rightarrow> cpu \<Rightarrow> bool" where
  "l1_ok cs u \<longleftrightarrow>
     (case cu_L1I u of None \<Rightarrow> True | Some k \<Rightarrow> (case map_of cs k of None \<Rightarrow> False | Some c \<Rightarrow> hc_level c = 1 \<and> cache_contains CHR ''I'' c)) \<and>
     (case cu_L1D u of None \<Rightarrow> True | Some k \<Rightarrow> (case map_of cs k of None \<Rightarrow> False | Some c \<Rightarrow> hc_level c = 1 \<and> cache_contains CHR ''D'' c))"

definition key_ok :: "cache_key \<Rightarrow> hw_cache \<Rightarrow> bool" where
  "key_ok k c \<longleftrightarrow> hc_cpus c = intmask_list (fst k) \<and> hc_level c = fst (snd k) \<and> hc_type c = snd (snd k)"

text \<open>The processors and the mask of all of them; the caches and the groups they are in; the types of processors.\<close>

definition cpus_ok :: "topology \<Rightarrow> bool" where
  "cpus_ok s \<longleftrightarrow> wf_dict (tp_cpus s) \<and> 0 \<le> tp_all_mask s \<and>
     (\<forall>p. bit (tp_all_mask s) p \<longleftrightarrow> map_of (tp_cpus s) (int p) \<noteq> None) \<and>
     (\<forall>n u. map_of (tp_cpus s) n = Some u \<longrightarrow> 0 \<le> n \<and> n \<le> tp_max_cpuno s \<and> l1_ok (tp_caches s) u)"

definition caches_ok :: "topology \<Rightarrow> bool" where
  "caches_ok s \<longleftrightarrow> wf_dict (tp_caches s) \<and> wf_dict (tp_groups s) \<and>
     (\<forall>k c. map_of (tp_caches s) k = Some c \<longrightarrow> key_ok k c \<and>
       (\<exists>g. map_of (tp_groups s) (cache_mask c) = Some g \<and> k \<in> set (cg_caches g))) \<and>
     (\<forall>m g. map_of (tp_groups s) m = Some g \<longrightarrow>
       (\<forall>k\<in>set (cg_caches g). \<exists>c. map_of (tp_caches s) k = Some c \<and> cache_mask c = m))"

definition specs_ok :: "topology \<Rightarrow> bool" where
  "specs_ok s \<longleftrightarrow>
     (\<forall>n u. map_of (tp_cpus s) n = Some u \<longrightarrow> (cu_found_in_cpuinfo u \<longleftrightarrow> n \<in> set (concat (map snd (tp_specs s))))) \<and>
     (\<forall>t\<in>set (tp_specs s). \<forall>n\<in>set (snd t). \<exists>u. map_of (tp_cpus s) n = Some u \<and>
       (case cu_spec u of None \<Rightarrow> False | Some sp' \<Rightarrow> same_spec sp' (fst t)))"

definition fresh_links :: "topology \<Rightarrow> bool" where
  "fresh_links s \<longleftrightarrow> (\<forall>m g. map_of (tp_groups s) m = Some g \<longrightarrow> cg_parent g = None \<and> cg_subgroups g = [])"

definition topology_ok :: "topology \<Rightarrow> bool" where
  "topology_ok s \<longleftrightarrow> cpus_ok s \<and> caches_ok s \<and> specs_ok s"

lemma caches_ok_cong: "tp_caches s' = tp_caches s \<Longrightarrow> tp_groups s' = tp_groups s \<Longrightarrow> caches_ok s' = caches_ok s"
  by (simp only: caches_ok_def)

lemma cpus_ok_cong: "tp_cpus s' = tp_cpus s \<Longrightarrow> tp_all_mask s' = tp_all_mask s \<Longrightarrow> tp_max_cpuno s' = tp_max_cpuno s \<Longrightarrow>
    tp_caches s' = tp_caches s \<Longrightarrow> cpus_ok s' = cpus_ok s"
  by (simp only: cpus_ok_def)

lemma specs_ok_cong: "tp_cpus s' = tp_cpus s \<Longrightarrow> tp_specs s' = tp_specs s \<Longrightarrow> specs_ok s' = specs_ok s"
  by (simp only: specs_ok_def)

lemma fresh_links_cong: "tp_groups s' = tp_groups s \<Longrightarrow> fresh_links s' = fresh_links s"
  by (simp only: fresh_links_def)

lemma fold_res_inv:
  "fold_res f xs s = Inr s' \<Longrightarrow> P s \<Longrightarrow> (\<And>x s s'. x \<in> set xs \<Longrightarrow> P s \<Longrightarrow> f x s = Inr s' \<Longrightarrow> P s') \<Longrightarrow> P s'"
proof (induction xs arbitrary: s)
  case (Cons x xs)
  then obtain s1 where s1: "f x s = Inr s1" "fold_res f xs s1 = Inr s'" by (auto simp: bindr_Inr_iff)
  show ?case by (rule Cons.IH [OF s1(2)]) (use Cons.prems s1(1) in auto)
qed simp

lemma same_spec_refl [simp]: "same_spec s s" by (simp add: same_spec_def)

lemma same_spec_sym: "same_spec a b \<Longrightarrow> same_spec b a" by (simp add: same_spec_def)

lemma add_spec_covers: "set (concat (map snd (add_spec s n ts))) = insert n (set (concat (map snd ts)))"
proof (induction ts)
  case (Cons t ts)
  obtain u ns where t: "t = (u, ns)" by fastforce
  show ?case using Cons.IH unfolding t by (cases "same_spec s u") (simp_all del: set_concat)
qed simp

lemma add_spec_members:
  "(a, as) \<in> set (add_spec s n ts) \<Longrightarrow> i \<in> set as \<Longrightarrow> i = n \<and> same_spec s a \<or> (\<exists>as'. (a, as') \<in> set ts \<and> i \<in> set as')"
proof (induction ts)
  case (Cons t ts)
  obtain u ns where t: "t = (u, ns)" by fastforce
  show ?case
  proof (cases "same_spec s u")
    case True
    with Cons.prems t consider "a = u" "as = ns @ [n]" | "(a, as) \<in> set ts" by auto
    then show ?thesis using Cons.prems(2) t True by cases auto
  next
    case False
    with Cons.prems t consider "a = u" "as = ns" | "(a, as) \<in> set (add_spec s n ts)" by auto
    then show ?thesis
    proof cases
      case 1
      then show ?thesis using Cons.prems(2) t by auto
    next
      case 2
      with Cons.IH Cons.prems(2) show ?thesis by auto
    qed
  qed
qed simp

lemma mask_add_ok:
  "mask_add m n = Inr m' \<Longrightarrow> 0 \<le> m \<Longrightarrow> 0 \<le> n \<and> 0 \<le> m' \<and> (\<forall>p. bit m' p \<longleftrightarrow> bit m p \<or> int p = n)"
  by (auto simp: mask_add_def bit_or_iff bit_exp_iff split: if_splits)

lemma add_cpuinfo_ok:
  assumes "topology_ok s" "fresh_links s" "map_of (tp_cpus s) (fst e) = None" "add_cpuinfo arch e s = Inr s'"
  shows "topology_ok s' \<and> fresh_links s' \<and> (\<forall>n. map_of (tp_cpus s') n \<noteq> None \<longleftrightarrow> map_of (tp_cpus s) n \<noteq> None \<or> n = fst e)"
proof -
  obtain n keys where e: "e = (n, keys)" by fastforce
  obtain m sp where m: "mask_add (tp_all_mask s) n = Inr m"
    and s': "s' = s\<lparr>tp_all_mask := m, tp_max_cpuno := max (tp_max_cpuno s) n,
          tp_cpus := dset n (new_cpu\<lparr>cu_found_in_cpuinfo := True, cu_spec := Some sp\<rparr>) (tp_cpus s),
          tp_n_cpus_online := Suc (tp_n_cpus_online s), tp_specs := add_spec sp n (tp_specs s)\<rparr>"
    using assms(4) e by (auto simp: add_cpuinfo_def bindr_Inr_iff split: option.splits)
  have "0 \<le> tp_all_mask s" using assms(1) by (simp add: topology_ok_def cpus_ok_def)
  note mk = mask_add_ok [OF m this]
  have c: "cpus_ok s'" using assms(1) mk by (auto simp: s' topology_ok_def cpus_ok_def l1_ok_def new_cpu_def le_max_iff_disj)
  have k: "caches_ok s'" using assms(1) caches_ok_cong [of s' s] by (simp add: s' topology_ok_def)
  have old: "\<forall>n u. map_of (tp_cpus s) n = Some u \<longrightarrow> (cu_found_in_cpuinfo u \<longleftrightarrow> n \<in> set (concat (map snd (tp_specs s))))"
    "\<And>a as i. (a, as) \<in> set (tp_specs s) \<Longrightarrow> i \<in> set as \<Longrightarrow> \<exists>u. map_of (tp_cpus s) i = Some u \<and>
       (case cu_spec u of None \<Rightarrow> False | Some sp' \<Rightarrow> same_spec sp' a)"
    using assms(1) unfolding topology_ok_def specs_ok_def by (blast, metis fst_conv snd_conv)
  have "\<exists>u. map_of (tp_cpus s') i = Some u \<and> (case cu_spec u of None \<Rightarrow> False | Some sp' \<Rightarrow> same_spec sp' a)"
    if "(a, as) \<in> set (add_spec sp n (tp_specs s))" "i \<in> set as" for a as i
  proof -
    from add_spec_members [OF that] consider "i = n" "same_spec sp a" | as' where "(a, as') \<in> set (tp_specs s)" "i \<in> set as'"
      by blast
    then show ?thesis
    proof cases
      case 2
      with old(2) assms(3) e show ?thesis by (force simp: s')
    qed (simp add: s')
  qed
  then have "\<forall>t\<in>set (tp_specs s'). \<forall>i\<in>set (snd t). \<exists>u. map_of (tp_cpus s') i = Some u \<and>
      (case cu_spec u of None \<Rightarrow> False | Some sp' \<Rightarrow> same_spec sp' (fst t))"
    by (simp add: s' del: dset_simps map_of_dset) (metis prod.collapse)
  moreover have "\<forall>i u. map_of (tp_cpus s') i = Some u \<longrightarrow> (cu_found_in_cpuinfo u \<longleftrightarrow> i \<in> set (concat (map snd (tp_specs s'))))"
    using old(1) add_spec_covers [of sp n "tp_specs s"] by (simp add: s' del: set_concat)
  ultimately have "specs_ok s'" by (simp add: specs_ok_def case_prod_beta)
  then show ?thesis using c k assms(2) e by (auto simp: topology_ok_def s' fresh_links_def)
qed

definition sys_inv :: "int \<Rightarrow> topology \<Rightarrow> bool" where
  "sys_inv n s \<longleftrightarrow> topology_ok s \<and> fresh_links s \<and> map_of (tp_cpus s) n \<noteq> None"

lemma update_cpu_ok:
  assumes "sys_inv n s" "\<And>u. cu_found_in_cpuinfo (f u) = cu_found_in_cpuinfo u" "\<And>u. cu_spec (f u) = cu_spec u"
    "\<And>u. l1_ok (tp_caches s) u \<Longrightarrow> l1_ok (tp_caches s) (f u)"
  shows "sys_inv n (update_cpu n f s)"
proof -
  obtain u where u: "map_of (tp_cpus s) n = Some u" using assms(1) by (auto simp: sys_inv_def)
  let ?s = "update_cpu n f s"
  have m: "map_of (tp_cpus ?s) = (map_of (tp_cpus s))(n \<mapsto> f u)" by (simp add: update_cpu_def dget_def u)
  have r: "tp_all_mask ?s = tp_all_mask s" "tp_max_cpuno ?s = tp_max_cpuno s" "tp_caches ?s = tp_caches s" "tp_groups ?s = tp_groups s"
    "tp_specs ?s = tp_specs s" by (simp_all add: update_cpu_def)
  have w: "wf_dict (tp_cpus ?s)" using assms(1) by (simp add: update_cpu_def sys_inv_def topology_ok_def cpus_ok_def)
  have c: "cpus_ok s" and sp: "specs_ok s" using assms(1) by (simp_all add: sys_inv_def topology_ok_def)
  have "l1_ok (tp_caches s) (f u)" using c u assms(4) unfolding cpus_ok_def by blast
  then have "cpus_ok ?s" using c w u unfolding cpus_ok_def r m by auto
  moreover have "specs_ok ?s"
  proof -
    have "\<exists>v. ((map_of (tp_cpus s))(n \<mapsto> f u)) i = Some v \<and> (case cu_spec v of None \<Rightarrow> False | Some sp' \<Rightarrow> same_spec sp' (fst t))"
      if ti: "t \<in> set (tp_specs s)" "i \<in> set (snd t)" for t i
    proof -
      obtain v where v: "map_of (tp_cpus s) i = Some v" "case cu_spec v of None \<Rightarrow> False | Some sp' \<Rightarrow> same_spec sp' (fst t)"
        using conjunct2 [OF sp [unfolded specs_ok_def]] ti by blast
      then show ?thesis using assms(3) u by (cases "i = n") auto
    qed
    moreover have "\<forall>i v. ((map_of (tp_cpus s))(n \<mapsto> f u)) i = Some v \<longrightarrow> (cu_found_in_cpuinfo v \<longleftrightarrow> i \<in> set (concat (map snd (tp_specs s))))"
      using conjunct1 [OF sp [unfolded specs_ok_def]] u assms(2) by (simp del: set_concat)
    ultimately show ?thesis unfolding specs_ok_def r m by (intro conjI ballI)
  qed
  ultimately show ?thesis
    using assms(1) caches_ok_cong [OF r(3,4)] fresh_links_cong [OF r(4)] m by (simp add: sys_inv_def topology_ok_def)
qed

lemma sys_inv_other [simp]:
  "sys_inv n (s\<lparr>tp_cores := a, tp_packages := b\<rparr>) = sys_inv n s" "sys_inv n (s\<lparr>tp_numa_nodes := c\<rparr>) = sys_inv n s"
  by (simp_all add: sys_inv_def topology_ok_def cpus_ok_def caches_ok_def specs_ok_def fresh_links_def)

lemma read_topology_ids_ok: "sys_inv n s \<Longrightarrow> read_topology_ids d cd n s = Inr s' \<Longrightarrow> sys_inv n s'"
  by (auto simp: read_topology_ids_def bindr_Inr_iff l1_ok_def split: if_splits intro!: update_cpu_ok)

lemma read_frequencies_ok: "sys_inv n s \<Longrightarrow> read_frequencies d cd n s = Inr s' \<Longrightarrow> sys_inv n s'"
  by (auto simp: read_frequencies_def Let_def l1_ok_def split: if_splits sum.splits intro!: update_cpu_ok)

lemma discover_cache_keyed:
  "cache_key_of d p = Inr k \<Longrightarrow> discover_cache pf d p = Inr c \<Longrightarrow> key_ok k c"
  by (auto simp: cache_key_of_def discover_cache_def key_ok_def bindr_Inr_iff split: if_splits)

lemma l1_ok_more: "map_of cs k = None \<Longrightarrow> l1_ok cs u \<Longrightarrow> l1_ok (dset k c cs) u"
  by (auto simp: l1_ok_def split: option.splits)

lemma add_cache_ok:
  assumes "sys_inv n s" "map_of (tp_caches s) k = None" "key_ok k c"
  shows "sys_inv n (s\<lparr>tp_caches := dset k c (tp_caches s),
    tp_groups := update_group (cache_mask c) (\<lambda>g. g\<lparr>cg_caches := cg_caches g @ [k]\<rparr>) (ensure_group (cache_mask c) (tp_groups s))\<rparr>)"
    (is "sys_inv n ?s")
proof -
  let ?m = "cache_mask c"
  define g0 where "g0 = dget (tp_groups s) ?m new_group"
  have g: "map_of (tp_groups ?s) = (map_of (tp_groups s))(?m \<mapsto> g0\<lparr>cg_caches := cg_caches g0 @ [k]\<rparr>)"
    by (auto simp: update_group_def ensure_group_def dget_def g0_def dest: map_of_key split: option.splits)
  have k: "map_of (tp_caches ?s) = (map_of (tp_caches s))(k \<mapsto> c)" by simp
  have old: "cpus_ok s" "caches_ok s" "specs_ok s" "fresh_links s" using assms(1) by (simp_all add: sys_inv_def topology_ok_def)
  have r: "tp_cpus ?s = tp_cpus s" "tp_all_mask ?s = tp_all_mask s" "tp_max_cpuno ?s = tp_max_cpuno s" "tp_specs ?s = tp_specs s" by simp_all
  have "l1_ok (tp_caches ?s) u" if "l1_ok (tp_caches s) u" for u using l1_ok_more [OF assms(2) that] by simp
  then have "cpus_ok ?s" using old(1) unfolding cpus_ok_def r by blast
  moreover have "caches_ok ?s"
  proof -
    have w: "wf_dict (tp_caches ?s)" "wf_dict (tp_groups ?s)"
      using old(2) by (simp_all add: caches_ok_def update_group_def ensure_group_def)
    have cg: "\<forall>k'\<in>set (cg_caches g0). \<exists>c. map_of (tp_caches s) k' = Some c \<and> cache_mask c = ?m"
      using old(2) by (auto simp: g0_def dget_def caches_ok_def new_group_def split: option.splits)
    have m0: "map_of (tp_groups s) ?m = Some gr \<Longrightarrow> g0 = gr" for gr by (simp add: g0_def dget_def)
    have "key_ok k' c' \<and> (\<exists>g. map_of (tp_groups ?s) (cache_mask c') = Some g \<and> k' \<in> set (cg_caches g))"
      if "map_of (tp_caches ?s) k' = Some c'" for k' c'
    proof (cases "k' = k")
      case True
      then show ?thesis using that assms(3) unfolding k g by simp
    next
      case False
      then have "map_of (tp_caches s) k' = Some c'" using that unfolding k by simp
      then obtain gr where "key_ok k' c'" "map_of (tp_groups s) (cache_mask c') = Some gr" "k' \<in> set (cg_caches gr)"
        using old(2) unfolding caches_ok_def by blast
      then show ?thesis using m0 unfolding g by (cases "cache_mask c' = ?m") auto
    qed
    moreover have "\<exists>c. map_of (tp_caches ?s) k' = Some c \<and> cache_mask c = m"
      if "map_of (tp_groups ?s) m = Some gr" "k' \<in> set (cg_caches gr)" for m gr k'
    proof (cases "k' = k \<and> m = ?m")
      case False
      have "\<exists>c. map_of (tp_caches s) k' = Some c \<and> cache_mask c = m"
      proof (cases "m = ?m")
        case True
        then show ?thesis using that cg False unfolding g by auto
      next
        case False
        then show ?thesis using that old(2) unfolding g caches_ok_def by auto
      qed
      then show ?thesis using assms(2) unfolding k by auto
    qed (simp add: k)
    ultimately show ?thesis using w unfolding caches_ok_def by blast
  qed
  moreover have "specs_ok ?s" using old(3) by (simp add: specs_ok_def)
  moreover have "fresh_links ?s"
    using old(4) unfolding fresh_links_def g by (auto simp: g0_def dget_def new_group_def split: option.splits)
  ultimately show ?thesis using assms(1) by (simp add: sys_inv_def topology_ok_def)
qed

lemma map_cache_known:
  assumes "sys_inv n s" "map_of (tp_caches s) k = Some c" "hc_level c = 1"
  shows "sys_inv n (update_cpu n (\<lambda>u. u\<lparr>cu_L1I := (if cache_contains CHR ''I'' c then Some k else cu_L1I u),
    cu_L1D := (if cache_contains CHR ''D'' c then Some k else cu_L1D u)\<rparr>) s)"
  by (rule update_cpu_ok [OF assms(1)]) (use assms(2,3) in \<open>auto simp: l1_ok_def\<close>)

lemma read_cache_ok:
  assumes "sys_inv n (fst st)" "read_cache pf d cs n name st = Inr st'"
  shows "sys_inv n (fst st')"
proof -
  obtain s found where st: "st = (s, found)" by fastforce
  show ?thesis
  proof (cases "prefix ''index'' name")
    case False
    then show ?thesis using assms st by (auto simp: read_cache_def)
  next
    case True
    obtain k s1 c where k: "cache_key_of d (cs @ [name]) = Inr k"
      and s1: "(case map_of (tp_caches s) k of
            Some c \<Rightarrow> Inr (s, c)
          | None \<Rightarrow> bindr (discover_cache pf d (cs @ [name])) (\<lambda>c.
              Inr (s\<lparr>tp_caches := dset k c (tp_caches s),
                    tp_groups := update_group (cache_mask c) (\<lambda>g. g\<lparr>cg_caches := cg_caches g @ [k]\<rparr>)
                      (ensure_group (cache_mask c) (tp_groups s))\<rparr>, c))) = (Inr (s1, c) :: (topology \<times> hw_cache) res)"
      and st': "fst st' = (if hc_level c = 1
            then update_cpu n (\<lambda>u. u\<lparr>cu_L1I := (if cache_contains CHR ''I'' c then Some k else cu_L1I u),
                                    cu_L1D := (if cache_contains CHR ''D'' c then Some k else cu_L1D u)\<rparr>) s1
            else s1)"
      using assms(2) st True by (auto simp: read_cache_def bindr_Inr_iff)
    have "sys_inv n s1 \<and> map_of (tp_caches s1) k = Some c"
    proof (cases "map_of (tp_caches s) k")
      case None
      then have dc: "discover_cache pf d (cs @ [name]) = Inr c"
        and e: "s1 = s\<lparr>tp_caches := dset k c (tp_caches s),
                    tp_groups := update_group (cache_mask c) (\<lambda>g. g\<lparr>cg_caches := cg_caches g @ [k]\<rparr>)
                      (ensure_group (cache_mask c) (tp_groups s))\<rparr>"
        using s1 by (auto simp: bindr_Inr_iff)
      show ?thesis unfolding e using add_cache_ok [OF _ None discover_cache_keyed [OF k dc]] assms(1) st by simp
    next
      case (Some c')
      then show ?thesis using s1 assms(1) st by auto
    qed
    then show ?thesis using map_cache_known by (simp add: st')
  qed
qed

lemma same_caches_ok:
  assumes "sys_inv n s" "map_of (tp_caches s) k = Some c" "hc_cpus c' = hc_cpus c" "hc_level c' = hc_level c" "hc_type c' = hc_type c"
  shows "sys_inv n (s\<lparr>tp_caches := dset k c' (tp_caches s)\<rparr>)" (is "sys_inv n ?s")
proof -
  have m: "map_of (tp_caches ?s) = (map_of (tp_caches s))(k \<mapsto> c')" by simp
  have r: "tp_cpus ?s = tp_cpus s" "tp_all_mask ?s = tp_all_mask s" "tp_max_cpuno ?s = tp_max_cpuno s" "tp_specs ?s = tp_specs s"
    "tp_groups ?s = tp_groups s" by simp_all
  have cm: "cache_mask c' = cache_mask c" by (simp add: cache_mask_def assms(3))
  have cc: "cache_contains t c' = cache_contains t c" for t by (simp add: cache_contains_def is_unified_def assms(5))
  have old: "cpus_ok s" "caches_ok s" "specs_ok s" "fresh_links s" using assms(1) by (simp_all add: sys_inv_def topology_ok_def)
  have "l1_ok (tp_caches ?s) u = l1_ok (tp_caches s) u" for u
    unfolding l1_ok_def m using assms(2) by (auto simp: cc assms(4) split: option.splits)
  then have "cpus_ok ?s" using old(1) unfolding cpus_ok_def r by blast
  moreover have "caches_ok ?s"
  proof -
    have kk: "key_ok k c' = key_ok k c" by (simp add: key_ok_def assms(3-5))
    have "wf_dict (tp_caches ?s)" "wf_dict (tp_groups ?s)" using old(2) by (simp_all add: caches_ok_def)
    moreover have "key_ok k' b \<and> (\<exists>g. map_of (tp_groups s) (cache_mask b) = Some g \<and> k' \<in> set (cg_caches g))"
      if b: "map_of (tp_caches ?s) k' = Some b" for k' b
    proof (cases "k' = k")
      case True
      then have "b = c'" using b m by simp
      moreover have "key_ok k c \<and> (\<exists>g. map_of (tp_groups s) (cache_mask c) = Some g \<and> k \<in> set (cg_caches g))"
        using old(2) assms(2) unfolding caches_ok_def by blast
      ultimately show ?thesis using True by (simp add: kk cm)
    next
      case False
      then have "map_of (tp_caches s) k' = Some b" using b m by simp
      then show ?thesis using old(2) unfolding caches_ok_def by blast
    qed
    moreover have "\<exists>b. map_of (tp_caches ?s) k' = Some b \<and> cache_mask b = g"
      if gr: "map_of (tp_groups s) g = Some gr" "k' \<in> set (cg_caches gr)" for g gr k'
    proof -
      obtain b where "map_of (tp_caches s) k' = Some b" "cache_mask b = g"
        using old(2) gr unfolding caches_ok_def by blast
      then show ?thesis using assms(2) cm by (cases "k' = k") (simp_all add: m)
    qed
    ultimately show ?thesis unfolding caches_ok_def r by blast
  qed
  moreover have "specs_ok ?s" "fresh_links ?s" using old(3,4) by (simp_all add: specs_ok_def fresh_links_def)
  ultimately show ?thesis using assms(1) by (simp add: sys_inv_def topology_ok_def)
qed

lemma link_cache_ok:
  assumes "sys_inv n (s\<lparr>tp_caches := cs\<rparr>)" "link_cache kk cs = Inr cs'"
  shows "sys_inv n (s\<lparr>tp_caches := cs'\<rparr>)"
proof -
  obtain k kp where kk: "kk = (k, kp)" by (cases kk)
  show ?thesis
  proof (cases "cs' = cs")
    case False
    then obtain c where c: "map_of cs k = Some c" "cs' = dset k (c\<lparr>hc_parent := Some kp\<rparr>) cs"
      using assms(2) kk by (auto simp: link_cache_def split: option.splits if_splits)
    from same_caches_ok [OF assms(1), of k c "c\<lparr>hc_parent := Some kp\<rparr>"] c show ?thesis by simp
  qed (use assms in simp)
qed

lemma read_caches_ok:
  assumes "sys_inv n s" "read_caches pf d p n s = Inr s'"
  shows "sys_inv n s'"
proof (cases "path_exists d p")
  case True
  then obtain s1 ks cs where s1: "fold_res (read_cache pf d p n) (listdir d p) (s, []) = Inr (s1, ks)"
    and cs: "fold_res link_cache (List.product ks ks) (tp_caches s1) = Inr cs" and s': "s' = s1\<lparr>tp_caches := cs\<rparr>"
    using assms(2) by (auto simp: read_caches_def bindr_Inr_iff)
  have "sys_inv n (fst (s1, ks))"
    by (rule fold_res_inv [OF s1, where P = "\<lambda>st. sys_inv n (fst st)"]) (use assms(1) read_cache_ok in auto)
  then have "sys_inv n (s1\<lparr>tp_caches := tp_caches s1\<rparr>)" by simp
  then have "sys_inv n (s1\<lparr>tp_caches := cs\<rparr>)"
    using fold_res_inv [OF cs, where P = "\<lambda>c. sys_inv n (s1\<lparr>tp_caches := c\<rparr>)"] link_cache_ok by blast
  then show ?thesis by (simp add: s')
qed (use assms in \<open>auto simp: read_caches_def\<close>)

lemma cpuinfo_ascending:
  "cpuinfo_lines rs cpus keys prev = Inr es \<Longrightarrow> sorted_wrt (<) cpus \<Longrightarrow>
    (case prev of None \<Rightarrow> cpus = [] | Some l \<Rightarrow> list_all (\<lambda>c. c \<le> l) cpus) \<Longrightarrow>
    sorted_wrt (<) (map fst es) \<and> (\<forall>c\<in>set (map fst es). c \<in> set cpus \<or> (case prev of None \<Rightarrow> True | Some l \<Rightarrow> l < c))"
proof (induction rs arbitrary: cpus keys prev es)
  case (Cons r rs)
  let ?cix = "find_char CHR '':'' r"
  define found where "found = (if ?cix < 0 then map (\<lambda>c. (c, keys)) cpus else [])"
  define cpus1 where "cpus1 = (if ?cix < 0 then [] else cpus)"
  define keys1 where "keys1 = (if ?cix < 0 then [] else keys)"
  have s1: "sorted_wrt (<) cpus1" "case prev of None \<Rightarrow> cpus1 = [] | Some l \<Rightarrow> list_all (\<lambda>c. c \<le> l) cpus1"
    using Cons.prems(2,3) by (auto simp: cpus1_def split: option.splits)
  obtain later where es: "es = found @ later" and later: "sorted_wrt (<) (map fst later)"
      "\<forall>c\<in>set (map fst later). c \<in> set cpus1 \<or> (case prev of None \<Rightarrow> True | Some l \<Rightarrow> l < c)"
  proof (cases "prefix ''processor'' r")
    case True
    then obtain n later where n: "case prev of None \<Rightarrow> True | Some l \<Rightarrow> l < n"
      "cpuinfo_lines rs (cpus1 @ [n]) keys1 (Some n) = Inr later" "es = found @ later"
      using Cons.prems(1)
      by (cases prev) (auto simp: Let_def bindr_Inr_iff found_def cpus1_def keys1_def split: if_splits)
    have "sorted_wrt (<) (cpus1 @ [n])" using s1 n(1) by (auto simp: sorted_wrt_append list_all_iff split: option.splits)
    moreover have "list_all (\<lambda>c. c \<le> n) (cpus1 @ [n])" using s1(2) n(1) by (auto simp: list_all_iff split: option.splits)
    ultimately have i: "sorted_wrt (<) (map fst later) \<and> (\<forall>c\<in>set (map fst later). c \<in> set (cpus1 @ [n]) \<or> n < c)"
      using Cons.IH [OF n(2)] by simp
    have "\<forall>c\<in>set (map fst later). c \<in> set cpus1 \<or> (case prev of None \<Rightarrow> True | Some l \<Rightarrow> l < c)"
      using i n(1) by (cases prev) auto
    with that [OF n(3)] i show ?thesis by blast
  next
    case False
    then obtain later keys' where n: "cpuinfo_lines rs cpus1 keys' prev = Inr later" "es = found @ later"
      using Cons.prems(1) by (auto simp: Let_def bindr_Inr_iff found_def cpus1_def keys1_def split: if_splits)
    with that Cons.IH [OF n(1) s1] show ?thesis by blast
  qed
  have f: "map fst found = (if ?cix < 0 then cpus else [])" by (simp add: found_def comp_def)
  have "a < b" if "a \<in> set (map fst found)" "b \<in> set (map fst later)" for a b
  proof -
    have "?cix < 0" "a \<in> set cpus" using that(1) by (auto simp: f split: if_splits)
    moreover from this have "case prev of None \<Rightarrow> False | Some l \<Rightarrow> a \<le> l \<and> l < b"
      using later(2) that(2) Cons.prems(3) by (cases prev) (auto simp: cpus1_def list_all_iff)
    ultimately show ?thesis by (auto split: option.splits)
  qed
  moreover have "sorted_wrt (<) (map fst found)" using Cons.prems(2) by (simp add: f)
  moreover have "\<forall>c\<in>set (map fst later). c \<in> set cpus \<or> (case prev of None \<Rightarrow> True | Some l \<Rightarrow> l < c)"
    using later(2) by (auto simp: cpus1_def split: if_splits)
  ultimately show ?case using later(1) es f by (auto simp: sorted_wrt_append)
qed (simp add: comp_def)

lemma cpuinfo_distinct: "read_proc_cpuinfo lines = Inr es \<Longrightarrow> distinct (map fst es)"
  using cpuinfo_ascending [of lines "[]" "[]" None es] strict_sorted_iff
  by (auto simp: read_proc_cpuinfo_def)

lemma add_cpuinfos_ok:
  "fold_res (add_cpuinfo arch) es s = Inr s' \<Longrightarrow> distinct (map fst es) \<Longrightarrow> topology_ok s \<Longrightarrow> fresh_links s \<Longrightarrow>
    \<forall>e\<in>set es. map_of (tp_cpus s) (fst e) = None \<Longrightarrow> topology_ok s' \<and> fresh_links s'"
proof (induction es arbitrary: s)
  case (Cons e es)
  then obtain s1 where s1: "add_cpuinfo arch e s = Inr s1" "fold_res (add_cpuinfo arch) es s1 = Inr s'"
    by (auto simp: bindr_Inr_iff)
  from add_cpuinfo_ok [OF Cons.prems(3,4) _ s1(1)] Cons.prems(5)
  have o: "topology_ok s1" "fresh_links s1" "\<And>n. map_of (tp_cpus s1) n \<noteq> None \<longleftrightarrow> map_of (tp_cpus s) n \<noteq> None \<or> n = fst e" by auto
  have "\<forall>e'\<in>set es. map_of (tp_cpus s1) (fst e') = None"
  proof
    fix e' assume e': "e' \<in> set es"
    then have "fst e' \<in> set (map fst es)" by simp
    then have "fst e' \<noteq> fst e" using Cons.prems(2) by (metis distinct.simps(2) list.simps(9))
    then show "map_of (tp_cpus s1) (fst e') = None" using o(3) [of "fst e'"] Cons.prems(5) e' by auto
  qed
  with Cons.IH [OF s1(2)] Cons.prems(2) o(1,2) show ?case by simp
qed simp

lemma ensure_cpu_ok:
  assumes "topology_ok s" "fresh_links s" "mask_add (tp_all_mask s) n = Inr m"
  defines "s1 \<equiv> s\<lparr>tp_all_mask := m, tp_max_cpuno := max (tp_max_cpuno s) n\<rparr>"
  shows "sys_inv n (if n \<in> set (dkeys (tp_cpus s1)) then s1 else s1\<lparr>tp_cpus := dset n new_cpu (tp_cpus s1)\<rparr>)"
proof -
  have old: "cpus_ok s" "caches_ok s" "specs_ok s" using assms(1) by (simp_all add: topology_ok_def)
  then have "0 \<le> tp_all_mask s" by (simp add: cpus_ok_def)
  note mk = mask_add_ok [OF assms(3) this]
  show ?thesis
  proof (cases "map_of (tp_cpus s) n")
    case None
    then have nk: "n \<notin> set (dkeys (tp_cpus s1))" by (simp add: s1_def map_of_eq_None_iff)
    let ?s = "s1\<lparr>tp_cpus := dset n new_cpu (tp_cpus s1)\<rparr>"
    have m: "map_of (tp_cpus ?s) = (map_of (tp_cpus s))(n \<mapsto> new_cpu)" by (simp add: s1_def)
    have r: "tp_all_mask ?s = m" "tp_max_cpuno ?s = max (tp_max_cpuno s) n" "tp_caches ?s = tp_caches s" "tp_groups ?s = tp_groups s"
      "tp_specs ?s = tp_specs s" by (simp_all add: s1_def)
    have "wf_dict (tp_cpus ?s)" using old(1) by (simp add: cpus_ok_def s1_def)
    then have "cpus_ok ?s" using old(1) mk unfolding cpus_ok_def r m by (auto simp: le_max_iff_disj l1_ok_def new_cpu_def)
    moreover have "specs_ok ?s"
    proof -
      have nn: "n \<notin> set (snd t)" if "t \<in> set (tp_specs s)" for t using old(3) that None unfolding specs_ok_def by fastforce
      then show ?thesis using old(3) unfolding specs_ok_def r m by (auto simp: new_cpu_def)
    qed
    ultimately show ?thesis
      using nk old(2) assms(2) caches_ok_cong [OF r(3,4)] fresh_links_cong [OF r(4)] m by (simp add: sys_inv_def topology_ok_def)
  next
    case (Some u)
    then have nk: "n \<in> set (dkeys (tp_cpus s1))" by (force simp: s1_def dest: map_of_SomeD)
    have p: "map_of (tp_cpus s) (int p) \<noteq> None" if "int p = n" for p using Some that by simp
    have "cpus_ok s1" using old(1) mk p by (auto simp: s1_def cpus_ok_def le_max_iff_disj)
    moreover have "caches_ok s1" "specs_ok s1" "fresh_links s1"
      using old(2,3) assms(2) caches_ok_cong [of s1 s] specs_ok_cong [of s1 s] fresh_links_cong [of s1 s] by (simp_all add: s1_def)
    ultimately show ?thesis using nk Some by (simp add: sys_inv_def topology_ok_def s1_def)
  qed
qed

lemma add_sys_cpu_ok:
  assumes "topology_ok s \<and> fresh_links s" "add_sys_cpu pf d devdir name s = Inr s'"
  shows "topology_ok s' \<and> fresh_links s'"
proof (cases "is_cpu_name name")
  case True
  then obtain n m where n: "int_of_str (drop 3 name) = Inr n" "mask_add (tp_all_mask s) n = Inr m"
    using assms(2) by (auto simp: add_sys_cpu_def bindr_Inr_iff Let_def)
  define s1 where "s1 = s\<lparr>tp_all_mask := m, tp_max_cpuno := max (tp_max_cpuno s) n\<rparr>"
  define s2 where "s2 = (if n \<in> set (dkeys (tp_cpus s1)) then s1 else s1\<lparr>tp_cpus := dset n new_cpu (tp_cpus s1)\<rparr>)"
  have "sys_inv n s2" using ensure_cpu_ok [OF conjunct1 [OF assms(1)] conjunct2 [OF assms(1)] n(2)] unfolding s2_def s1_def .
  moreover obtain s3 s4 where "read_topology_ids d (devdir @ [name]) n s2 = Inr s3" "read_frequencies d (devdir @ [name]) n s3 = Inr s4"
    "read_caches pf d ((devdir @ [name]) @ [''cache'']) n s4 = Inr s'"
    using assms(2) True n unfolding add_sys_cpu_def s2_def s1_def by (auto simp: bindr_Inr_iff Let_def)
  ultimately have "sys_inv n s'" using read_topology_ids_ok read_frequencies_ok read_caches_ok by blast
  then show ?thesis by (simp add: sys_inv_def)
qed (use assms in \<open>simp add: add_sys_cpu_def\<close>)

lemma set_numa_node_ok:
  "topology_ok s \<and> fresh_links s \<Longrightarrow> set_numa_node n i s = Inr s' \<Longrightarrow> topology_ok s' \<and> fresh_links s'"
proof -
  assume a: "topology_ok s \<and> fresh_links s" "set_numa_node n i s = Inr s'"
  then have "int i \<in> fst ` set (tp_cpus s)" and s': "s' = update_cpu (int i) (\<lambda>c. c\<lparr>cu_numa_node := Some n\<rparr>) s"
    by (auto simp: set_numa_node_def split: if_splits)
  then obtain u where "map_of (tp_cpus s) (int i) = Some u" by (metis map_of_in_keys)
  with a(1) have "sys_inv (int i) s" by (simp add: sys_inv_def)
  then have "sys_inv (int i) s'" unfolding s' by (rule update_cpu_ok) (simp_all add: l1_ok_def)
  then show ?thesis by (simp add: sys_inv_def)
qed

lemma numa_nodes_other: "topology_ok (s\<lparr>tp_numa_nodes := x\<rparr>) = topology_ok s" "fresh_links (s\<lparr>tp_numa_nodes := x\<rparr>) = fresh_links s"
  by (simp_all add: topology_ok_def cpus_ok_def caches_ok_def specs_ok_def fresh_links_def)

lemma read_nodes_ok:
  "read_nodes d fuel n s = Inr s' \<Longrightarrow> topology_ok s \<and> fresh_links s \<Longrightarrow> topology_ok s' \<and> fresh_links s'"
proof (induction fuel arbitrary: n s)
  case (Suc fuel)
  show ?case
  proof (cases "path_exists d (node_path n)")
    case True
    then obtain s1 where s1: "read_node d n s = Inr s1" "read_nodes d fuel (Suc n) s1 = Inr s'"
      using Suc.prems(1) by (auto simp: bindr_Inr_iff)
    then obtain sz cpus where f: "fold_res (set_numa_node n) cpus (s\<lparr>tp_numa_nodes := dset n (sz, cpus) (tp_numa_nodes s)\<rparr>) = Inr s1"
      by (auto simp: read_node_def bindr_Inr_iff Let_def split: option.splits)
    have "topology_ok s1 \<and> fresh_links s1"
      by (rule fold_res_inv [OF f, where P = "\<lambda>s. topology_ok s \<and> fresh_links s"])
        (use Suc.prems(2) in \<open>simp only: numa_nodes_other\<close>, rule set_numa_node_ok)
    with Suc.IH [OF s1(2)] show ?thesis by simp
  qed (use Suc.prems in simp)
qed simp

lemma link_groups_consistent: "link_groups w gs = Inr gs' \<Longrightarrow> consistent_groups gs'"
  by (auto simp: link_groups_def Let_def split: if_splits)

lemma linked_topology_ok:
  assumes "topology_ok s" "fresh_links s"
  defines "gs \<equiv> ensure_group (tp_all_mask s) (tp_groups s)"
  shows "\<exists>gs'. link_groups (tp_all_mask s) gs = Inr gs' \<and> topology_ok (s\<lparr>tp_groups := gs'\<rparr>) \<and>
    consistent_groups gs' \<and> tp_all_mask s \<in> set (dkeys gs')"
proof -
  let ?w = "tp_all_mask s" and ?ks = "dkeys gs"
  let ?gs = "map (linked ?w ?ks ?ks) gs" and ?s = "s\<lparr>tp_groups := map (linked ?w ?ks ?ks) gs\<rparr>"
  have wf: "wf_dict gs" using assms(1) by (simp add: gs_def ensure_group_def topology_ok_def caches_ok_def)
  have w: "?w \<in> set ?ks" by (simp add: gs_def ensure_group_def)
  have mg: "map_of gs m = (case map_of (tp_groups s) m of Some g \<Rightarrow> Some g | None \<Rightarrow> if m = ?w then Some new_group else None)" for m
    by (auto simp: gs_def ensure_group_def map_of_eq_None_iff dest: map_of_key split: option.splits)
  have fr: "cg_parent g = None \<and> cg_subgroups g = []" if g: "g \<in> snd ` set gs" for g
  proof -
    obtain m where "(m, g) \<in> set gs" using g by force
    then have "map_of gs m = Some g" using wf by simp
    then show ?thesis
    proof (cases "map_of (tp_groups s) m")
      case None
      with mg [of m] \<open>map_of gs m = Some g\<close> have "g = new_group" by (simp split: if_splits)
      then show ?thesis by (simp add: new_group_def)
    next
      case (Some g')
      with mg [of m] \<open>map_of gs m = Some g\<close> have "map_of (tp_groups s) m = Some g" by simp
      then show ?thesis using assms(2) unfolding fresh_links_def by blast
    qed
  qed
  have l: "link_groups ?w gs = Inr ?gs" by (rule link_groups_eq [OF wf w fr])
  then have "consistent_groups ?gs"
    by (rule link_groups_consistent)
  moreover have "caches_ok ?s"
  proof -
    have m: "map_of (tp_groups ?s) k = map_option (\<lambda>g. snd (linked ?w ?ks ?ks (k, g))) (map_of gs k)" for k
      by (simp add: map_of_linked)
    have old: "caches_ok s" using assms(1) by (simp add: topology_ok_def)
    have c: "tp_caches ?s = tp_caches s" by simp
    have "wf_dict (tp_groups ?s)" using wf by (simp add: linked_def comp_def)
    moreover have "\<exists>g. map_of (tp_groups ?s) (cache_mask b) = Some g \<and> k \<in> set (cg_caches g)"
      if "map_of (tp_groups s) (cache_mask b) = Some g" "k \<in> set (cg_caches g)" for b k g
      using that unfolding m mg by (simp add: linked_def)
    moreover have "\<exists>b. map_of (tp_caches s) k = Some b \<and> cache_mask b = g"
      if g: "map_of (tp_groups ?s) g = Some gr" "k \<in> set (cg_caches gr)" for g gr k
    proof -
      have "\<exists>g0. map_of (tp_groups s) g = Some g0 \<and> k \<in> set (cg_caches g0)"
        using g unfolding m mg by (auto simp: linked_def new_group_def split: option.splits if_splits)
      then show ?thesis using old unfolding caches_ok_def by blast
    qed
    ultimately show ?thesis using old unfolding caches_ok_def c by blast
  qed
  moreover have "cpus_ok ?s" "specs_ok ?s"
    using assms(1) cpus_ok_cong [of ?s s] specs_ok_cong [of ?s s] by (simp_all add: topology_ok_def)
  moreover have "?w \<in> set (dkeys ?gs)" using w by (simp add: linked_def comp_def)
  ultimately show ?thesis using l by (auto simp: topology_ok_def)
qed

text \<open>
  C32.  A discovery that succeeds describes a machine that fits together: the mask of all processors has
  exactly the bits of the processors found, in \<open>/proc/cpuinfo\<close> or in \<open>/sys\<close>; every cache is the one
  its files describe and is listed in the group of the processors that share it; first-level caches
  are first-level caches of the right kind; the types of processors cover exactly the processors
  of \<open>/proc/cpuinfo\<close>, each with a specification of that type.
\<close>

theorem discovered_topology_fits:
  assumes "discover py_float arch pages meminfo cpuinfo d = Inr s"
  shows "cpus_ok s \<and> caches_ok s \<and> specs_ok s \<and> consistent_groups (tp_groups s) \<and> tp_all_mask s \<in> set (dkeys (tp_groups s))"
proof -
  obtain mem es s1 devdir s2 s3 gs where es: "read_proc_cpuinfo cpuinfo = Inr es"
    and s1: "fold_res (add_cpuinfo arch) es (new_topology\<lparr>tp_phys_mem := mem\<rparr>) = Inr s1"
    and s2: "fold_res (add_sys_cpu py_float d devdir) (listdir d devdir) s1 = Inr s2"
    and s3: "read_nodes d (length d) 0 s2 = Inr s3"
    and gs: "link_groups (tp_all_mask s3) (ensure_group (tp_all_mask s3) (tp_groups s3)) = Inr gs"
    and s: "s = s3\<lparr>tp_groups := gs\<rparr>"
    using assms by (auto simp: discover_def bindr_Inr_iff split: if_splits)
  have "topology_ok (new_topology\<lparr>tp_phys_mem := mem\<rparr>) \<and> fresh_links (new_topology\<lparr>tp_phys_mem := mem\<rparr>)"
    by (simp add: new_topology_def topology_ok_def cpus_ok_def caches_ok_def specs_ok_def fresh_links_def)
  then have "topology_ok s1 \<and> fresh_links s1"
    using add_cpuinfos_ok [OF s1 cpuinfo_distinct [OF es]] by (simp add: new_topology_def)
  then have "topology_ok s2 \<and> fresh_links s2" 
    by (rule fold_res_inv [OF s2, where P = "\<lambda>s. topology_ok s \<and> fresh_links s"]) (rule add_sys_cpu_ok)
  then have "topology_ok s3 \<and> fresh_links s3" by (rule read_nodes_ok [OF s3])
  with linked_topology_ok [of s3] gs s show ?thesis by (auto simp: topology_ok_def)
qed


text \<open>Two processors, the second one offline, with a first-level data cache each and a shared second-level cache.\<close>

definition demo_index :: "nat \<Rightarrow> nat \<Rightarrow> string \<Rightarrow> string \<Rightarrow> string \<Rightarrow> string \<Rightarrow> string fs" where
  "demo_index c i level kind shared listed =
     (let p = [''sys'', ''bus'', ''cpu'', ''devices'', ''cpu'' @ nat_str c, ''cache'', ''index'' @ nat_str i]
      in [(p, Dir), (p @ [''level''], File level), (p @ [''type''], File kind), (p @ [''shared_cpu_map''], File shared),
          (p @ [''shared_cpu_list''], File listed)])"

definition demo_sysfs :: "string fs" where
  "demo_sysfs =
     [([''sys''], Dir), ([''sys'', ''bus''], Dir), ([''sys'', ''bus'', ''cpu''], Dir), ([''sys'', ''bus'', ''cpu'', ''devices''], Dir)] @
     concat (map (\<lambda>c. (let p = [''sys'', ''bus'', ''cpu'', ''devices'', ''cpu'' @ nat_str c]
       in [(p, Dir), (p @ [''cache''], Dir)])
       @ demo_index c 0 ''1'' ''Data'' (nat_str (2 ^ c)) (nat_str c) @ demo_index c 1 ''2'' ''Unified'' ''3'' ''0-1'') [0, 1])"

definition demo_cpuinfo :: "string list" where
  "demo_cpuinfo = concat (map block_lines [([0], [(''CPU implementer'', ''0x41''), (''CPU part'', ''0xd0c''),
     (''CPU variant'', ''0x3''), (''CPU revision'', ''1''), (''Features'', ''fp'')])])"

definition demo_topology :: "topology res" where
  "demo_topology = discover (\<lambda>_. Inr 0) ''aarch64'' (4096, 2) [''MemTotal: 8 kB''] demo_cpuinfo demo_sysfs"


lemma demo_discovered: "(case demo_topology of Inl e \<Rightarrow> False
     | Inr s \<Rightarrow> tp_all_mask s = 3 \<and> dkeys (tp_caches s) = [(1, 1, CHR ''D''), (3, 2, CHR ''U''), (2, 1, CHR ''D'')] \<and>
         map (\<lambda>(k, c). hc_parent c) (tp_caches s) = [Some (3, 2, CHR ''U''), None, Some (3, 2, CHR ''U'')] \<and>
         dkeys (tp_groups s) = [1, 3, 2])"
  by code_simp

theorem discovered_topology_fits_witness:
  "\<exists>s. demo_topology = Inr s \<and> tp_all_mask s = 3 \<and> dkeys (tp_groups s) = [1, 3, 2] \<and>
    cpus_ok s \<and> caches_ok s \<and> specs_ok s \<and> consistent_groups (tp_groups s)"
proof (cases demo_topology)
  case (Inr s)
  then have "discover (\<lambda>_. Inr 0) ''aarch64'' (4096, 2) [''MemTotal: 8 kB''] demo_cpuinfo demo_sysfs = Inr s" by (simp add: demo_topology_def)
  note fits = discovered_topology_fits [OF this]
  note d = demo_discovered [unfolded Inr sum.case]
  show ?thesis
    by (intro exI [of _ s]) (use fits Inr conjunct1 [OF d] conjunct2 [OF conjunct2 [OF conjunct2 [OF d]]] in metis)
next
  case (Inl e)
  from demo_discovered [unfolded Inl sum.case] show ?thesis by (rule FalseE)
qed

section \<open>Missing processors\<close>

text \<open>Processors numbered from zero without a gap are all returned.\<close>

definition contiguous :: "topology \<Rightarrow> bool" where
  "contiguous s \<longleftrightarrow> set (dkeys (tp_cpus s)) = set (map int [0..<n_cpus s])"

lemma online_cpus_all:
  assumes "contiguous s" "wf_dict (tp_cpus s)"
  shows "\<exists>cs. online_cpus False s = Inr cs \<and> length cs = n_cpus s"
proof -
  have "\<exists>cs. map_res (cpu_at s) (map int ns) = Inr cs \<and> length cs = length ns"
    if "set ns \<subseteq> {0..<n_cpus s}" for ns
    using that
  proof (induction ns)
    case (Cons n ns)
    then have "int n \<in> set (dkeys (tp_cpus s))" using assms(1) by (auto simp: contiguous_def)
    then obtain c where "map_of (tp_cpus s) (int n) = Some c" by (metis map_of_in_keys set_map)
    with Cons show ?case by (auto simp: cpu_at_def)
  qed simp
  from this [of "[0..<n_cpus s]"] show ?thesis by (auto simp: online_cpus_def)
qed

text \<open>
  A system of two processors, numbered 0 and 2: one is missing, which \<open>is_missing_cpus\<close> does not
  see, since it compares the number of processors with the greatest number and not with its successor,
  and then listing the processors is an error.
\<close>

definition gap_topology :: topology where
  "gap_topology = new_topology\<lparr>tp_cpus := [(0, new_cpu), (2, new_cpu)], tp_max_cpuno := 2, tp_all_mask := 5\<rparr>"

lemma one_missing_unseen:
  "\<not> is_missing_cpus gap_topology \<and> \<not> contiguous gap_topology \<and> online_cpus False gap_topology = Inl (Exc KeyError ''1'')"
  by code_simp

end
