(* ===== verification/System_Files.thy ===== *)
theory System_Files
  imports Cpu_Topology
begin

text \<open>
  What \<open>src/lib/sysreport/sysreport.py\<close> reads from the operating system: the kernel's configuration,
  files of keys, the areas of \<open>/proc/iomem\<close>, a search in a directory tree and the interrupts of the
  ACPI table of interrupt controllers.  The platform, the files, the permissions and the commands that
  are run are an environment, which does not change while a report is made.  The text of a file is
  its content; the bytes of a binary file are the codes of its characters.
\<close>

section \<open>The environment\<close>

record sys_env =
  se_machine :: string
  se_release :: string
  se_files :: "string fs"
  se_denied :: "path \<Rightarrow> exc option"
  se_gunzip :: "string \<Rightarrow> string res"
  se_euid :: nat
  se_cpu_count :: nat
  se_libc_ver :: "string \<times> string"
  se_run :: "string list \<Rightarrow> (string \<times> string) res"
  se_status :: "string list \<Rightarrow> int res"
  se_executable :: "path \<Rightarrow> bool"

definition is_arm :: "sys_env \<Rightarrow> bool" where
  "is_arm e \<longleftrightarrow> se_machine e \<in> set [''armv8l'', ''aarch64'']"

definition is_superuser :: "sys_env \<Rightarrow> bool" where
  "is_superuser e \<longleftrightarrow> se_euid e = 0"

definition open_text :: "sys_env \<Rightarrow> path \<Rightarrow> string res" where
  "open_text e fn = (case se_denied e fn of Some x \<Rightarrow> Inl x | None \<Rightarrow> read_file (se_files e) fn)"

definition file_data :: "sys_env \<Rightarrow> path \<Rightarrow> string option res" where
  "file_data e fn =
     (if is_file (se_files e) fn then bindr (open_text e fn) (\<lambda>s. Inr (Some (strip s))) else Inr None)"

definition data_int :: "sys_env \<Rightarrow> path \<Rightarrow> int option res" where
  "data_int e fn = bindr (file_data e fn) (\<lambda>d. case d of
       None \<Rightarrow> Inr None
     | Some s \<Rightarrow> bindr (int_of_str s) (\<lambda>i. Inr (Some i)))"

text \<open>A command is split at white space and run; its output and its errors are returned.\<close>

definition run_cmd :: "sys_env \<Rightarrow> string \<Rightarrow> (string \<times> string) res" where
  "run_cmd e cmd = se_run e (split_words cmd)"

section \<open>The configuration of the kernel\<close>

definition config_gz :: path where
  "config_gz = [''proc'', ''config.gz'']"

definition kernel_config_file :: "sys_env \<Rightarrow> path option" where
  "kernel_config_file e =
     (if path_exists (se_files e) config_gz then Some config_gz
      else if path_exists (se_files e) [''boot'', ''config-'' @ se_release e] then Some [''boot'', ''config-'' @ se_release e]
      else None)"

definition index_char :: "char \<Rightarrow> string \<Rightarrow> nat res" where
  "index_char c s = (if c \<in> set s then Inr (length (takeWhile (\<lambda>d. d \<noteq> c) s)) else Inl (Exc ValueError ''substring not found''))"

fun config_lines :: "string list \<Rightarrow> (string, string) dict \<Rightarrow> (string, string) dict res" where
  "config_lines [] ck = Inr ck"
| "config_lines (l # ls) ck =
     (let ln = strip l
      in if ln = [] \<or> hd ln = CHR ''#'' then config_lines ls ck
         else bindr (index_char CHR ''='' ln) (\<lambda>ix. config_lines ls (dset (take ix ln) (drop (Suc ix) ln) ck)))"

text \<open>
  A file that cannot be read counts as no configuration; a line without an equality sign is an error.
\<close>

definition kernel_config :: "sys_env \<Rightarrow> (string, string) dict option res" where
  "kernel_config e =
     (case kernel_config_file e of
        None \<Rightarrow> Inr None
      | Some fn \<Rightarrow>
          (case (if fn = config_gz then bindr (open_text e fn) (se_gunzip e) else open_text e fn) of
             Inl x \<Rightarrow> if caught [OSError, ValueError, TypeError, KeyError, IndexError, RuntimeError] x then Inr None else Inl x
           | Inr s \<Rightarrow> bindr (config_lines (split_on (CHR 0x0A) s) []) (\<lambda>ck. Inr (Some ck))))"

section \<open>Files of keys\<close>

definition find_from_start :: "char \<Rightarrow> string \<Rightarrow> nat option" where
  "find_from_start c s = (if c \<in> set s then Some (length (takeWhile (\<lambda>d. d \<noteq> c) s)) else None)"

definition unquoted :: "string \<Rightarrow> string" where
  "unquoted v = (if prefix [CHR 0x22] v then butlast (drop 1 v) else v)"

definition data_key_line :: "string \<Rightarrow> (string, string) dict \<Rightarrow> (string, string) dict" where
  "data_key_line l data =
     (case find_from_start CHR ''='' l of
        None \<Rightarrow> data
      | Some ix \<Rightarrow> if 0 < ix then dset (take ix l) (unquoted (strip (drop (Suc ix) l))) data else data)"

definition file_data_keys :: "sys_env \<Rightarrow> path \<Rightarrow> (string, string) dict option res" where
  "file_data_keys e fn = bindr (file_data e fn) (\<lambda>s. Inr (case s of
       None \<Rightarrow> None
     | Some t \<Rightarrow> Some (fold data_key_line (split_on (CHR 0x0A) t) [])))"

definition file_data_key :: "sys_env \<Rightarrow> path \<Rightarrow> string \<Rightarrow> string option res" where
  "file_data_key e fn k = bindr (file_data_keys e fn) (\<lambda>m. Inr (case m of None \<Rightarrow> None | Some d \<Rightarrow> map_of d k))"

section \<open>A file in a tree\<close>

text \<open>\<open>os.walk\<close>: the directories of a tree, a directory before those in it, with its names.\<close>

fun walk :: "nat \<Rightarrow> 'c fs \<Rightarrow> path \<Rightarrow> path list" where
  "walk 0 d p = []"
| "walk (Suc n) d p =
     (if is_dir d p then p # concat (map (\<lambda>x. walk n d (p @ [x])) (listdir d p)) else [])"

definition files_in :: "'c fs \<Rightarrow> path \<Rightarrow> string list" where
  "files_in d p = filter (\<lambda>x. \<not> is_dir d (p @ [x])) (listdir d p)"

definition find_file_in_tree :: "'c fs \<Rightarrow> path \<Rightarrow> string \<Rightarrow> path option" where
  "find_file_in_tree d p fn =
     (case filter (\<lambda>q. fn \<in> set (files_in d q)) (walk (Suc (length d)) d p) of [] \<Rightarrow> None | q # _ \<Rightarrow> Some (q @ [fn]))"

section \<open>The areas of memory\<close>

definition text_lines :: "string \<Rightarrow> string list" where
  "text_lines s = (let ls = split_on (CHR 0x0A) s in if last ls = [] then butlast ls else ls)"

text \<open>\<open>s.split(" : ")[1]\<close>\<close>

fun after_colon :: "string \<Rightarrow> string option" where
  "after_colon [] = None"
| "after_colon (c # cs) = (if prefix '' : '' (c # cs) then Some (drop 3 (c # cs)) else after_colon cs)"

fun up_to_colon :: "string \<Rightarrow> string" where
  "up_to_colon [] = []"
| "up_to_colon (c # cs) = (if prefix '' : '' (c # cs) then [] else c # up_to_colon cs)"

definition iomem_area :: "string \<Rightarrow> string res" where
  "iomem_area l = (case after_colon (strip l) of
       None \<Rightarrow> Inl (Exc IndexError ''list index out of range'')
     | Some a \<Rightarrow> Inr (up_to_colon a))"

definition iomem_areas :: "sys_env \<Rightarrow> bool \<Rightarrow> string list res" where
  "iomem_areas e toplevel =
     bindr (open_text e [''proc'', ''iomem'']) (\<lambda>s.
     bindr (map_res iomem_area (filter (\<lambda>ln. \<not> (toplevel \<and> prefix '' '' ln)) (text_lines s))) (\<lambda>areas.
     Inr (dkeys (fold (\<lambda>a d. dset a True d) areas []))))"

section \<open>The interrupts of the ACPI table\<close>

text \<open>A little-endian number, and the read of a length that may be negative, which reads all.\<close>

definition le_val :: "string \<Rightarrow> nat" where
  "le_val bs = foldr (\<lambda>c n. of_char c + 256 * n) bs 0"

definition read_len :: "int \<Rightarrow> string \<Rightarrow> string" where
  "read_len n bs = (if n < 0 then bs else take (nat n) bs)"

text \<open>
  The processor's interface, a structure of type 11: the performance interrupt is its word at 20, that
  of SPE its half word at 78, and that of TRBE, which later versions have, the next half word.
\<close>

definition gicc_irqs :: "string \<Rightarrow> (string, nat) dict option" where
  "gicc_irqs identifier =
     (if length identifier < 80 then None
      else let pmu = le_val (take 4 (drop 20 identifier)); spe = le_val (take 2 (drop 78 identifier));
               trbe = (if 82 \<le> length identifier then le_val (take 2 (drop 80 identifier)) else 0)
           in Some ((if pmu \<noteq> 0 then [(''PMU'', pmu)] else []) @ (if spe \<noteq> 0 then [(''SPE'', spe)] else []) @
                    (if trbe \<noteq> 0 then [(''TRBE'', trbe)] else [])))"

function find_gicc :: "string \<Rightarrow> (string, nat) dict option" where
  "find_gicc bs =
     (case bs of
        [] \<Rightarrow> Some []
      | [_] \<Rightarrow> None
      | itype # ilen # r \<Rightarrow>
          (let body = read_len (int (of_char ilen) - 2) r; identifier = itype # ilen # body
           in if of_char itype = (0xB :: nat) then gicc_irqs identifier else find_gicc (drop (length body) r)))"
  by pat_completeness auto
termination by (relation "measure length") (auto simp: Let_def)

declare find_gicc.simps [simp del]

text \<open>The signature and the headers take 44 bytes; any failure to read the table is only a warning.\<close>

definition acpi_irqs :: "sys_env \<Rightarrow> (string, nat) dict option res" where
  "acpi_irqs e =
     (if \<not> is_arm e \<or> \<not> is_superuser e then Inr None
      else case open_text e [''sys'', ''firmware'', ''acpi'', ''tables'', ''APIC''] of
        Inl x \<Rightarrow> if caught [OSError, ValueError] x then Inr None else Inl x
      | Inr bs \<Rightarrow> Inr (find_gicc (drop 44 bs)))"

section \<open>Lemmas\<close>


lemma take_drop_key: "CHR ''='' \<notin> set k \<Longrightarrow> index_char CHR ''='' (k @ CHR ''='' # v) = Inr (length k)"
proof -
  assume k: "CHR ''='' \<notin> set k"
  then have "takeWhile (\<lambda>d. d \<noteq> CHR ''='') (k @ CHR ''='' # v) = k" by (subst takeWhile_append2) auto
  then show ?thesis by (simp add: index_char_def)
qed

text \<open>The lines of a configuration: settings and notes.\<close>

datatype config_entry = Setting string string | Note string

fun entry_line :: "config_entry \<Rightarrow> string" where
  "entry_line (Setting k v) = k @ CHR ''='' # v"
| "entry_line (Note t) = (if t = [] then [] else CHR ''#'' # t)"

fun good_entry :: "config_entry \<Rightarrow> bool" where
  "good_entry (Setting k v) \<longleftrightarrow> CHR ''='' \<notin> set k \<and> k \<noteq> [] \<and> hd k \<noteq> CHR ''#'' \<and> CHR 0x0A \<notin> set (k @ v) \<and>
     strip (k @ CHR ''='' # v) = k @ CHR ''='' # v"
| "good_entry (Note t) \<longleftrightarrow> CHR 0x0A \<notin> set t"

fun settings_of :: "config_entry list \<Rightarrow> (string \<times> string) list" where
  "settings_of [] = []"
| "settings_of (Setting k v # es) = (k, v) # settings_of es"
| "settings_of (Note t # es) = settings_of es"

lemma strip_note: "\<exists>t'. strip (CHR ''#'' # t) = CHR ''#'' # t'"
proof -
  have "\<exists>u. dropWhile is_space (rev t @ [CHR ''#'']) = u @ [CHR ''#'']"
    by (cases "\<exists>c\<in>set t. \<not> is_space c") (auto simp: is_space_def dropWhile_append)
  then obtain u where "dropWhile is_space (rev t @ [CHR ''#'']) = u @ [CHR ''#'']" ..
  then show ?thesis by (simp add: strip_def lstrip_def rstrip_def is_space_def)
qed

lemma config_lines_read:
  "list_all good_entry es \<Longrightarrow> config_lines (map entry_line es) ck = Inr (fold (\<lambda>(k, v) d. dset k v d) (settings_of es) ck)"
proof (induction es arbitrary: ck)
  case (Cons e es)
  show ?case
  proof (cases e)
    case (Setting k v)
    then have "k \<noteq> []" "hd (k @ CHR ''='' # v) \<noteq> CHR ''#''" using Cons.prems by auto
    with Setting Cons show ?thesis by (simp add: Let_def take_drop_key)
  next
    case (Note t)
    have "strip [] = []" by (simp add: strip_def lstrip_def rstrip_def)
    moreover obtain t' where "strip (CHR ''#'' # t) = CHR ''#'' # t'" using strip_note by blast
    ultimately show ?thesis using Note Cons by (simp add: Let_def)
  qed
qed simp

text \<open>
  A kernel configuration made of settings, comments and empty lines is read as its settings, the
  last one of a name, from the compressed file or from the one of the release.
\<close>

theorem kernel_config_is_read:
  assumes "list_all good_entry es" "es \<noteq> []" "kernel_config_file e = Some fn"
    "(if fn = config_gz then bindr (open_text e fn) (se_gunzip e) else open_text e fn) = Inr (join [CHR 0x0A] (map entry_line es))"
  shows "kernel_config e = Inr (Some (fold (\<lambda>(k, v) d. dset k v d) (settings_of es) []))"
proof -
  have "CHR 0x0A \<notin> set (entry_line e)" if "e \<in> set es" for e
    using assms(1) that by (cases e) (auto simp: list_all_iff)
  then have "split_on (CHR 0x0A) (join [CHR 0x0A] (map entry_line es)) = map entry_line es"
    using assms(2) by (intro split_join) auto
  then show ?thesis using assms(3,4) by (auto simp: kernel_config_def config_lines_read [OF assms(1)] simp del: fold_simps)
qed

lemma config_without_equals:
  "CHR ''='' \<notin> set l \<Longrightarrow> strip l = l \<Longrightarrow> l \<noteq> [] \<Longrightarrow> hd l \<noteq> CHR ''#'' \<Longrightarrow>
    config_lines (l # ls) ck = Inl (Exc ValueError ''substring not found'')"
  by (simp add: index_char_def)

section \<open>Lemmas on the table of interrupts\<close>

fun le_bytes :: "nat \<Rightarrow> nat \<Rightarrow> string" where
  "le_bytes 0 n = []"
| "le_bytes (Suc k) n = char_of (n mod 256) # le_bytes k (n div 256)"

lemma le_bytes_length [simp]: "length (le_bytes k n) = k"
  by (induction k n rule: le_bytes.induct) simp_all

lemma le_val_bytes [simp]: "n < 256 ^ k \<Longrightarrow> le_val (le_bytes k n) = n"
proof (induction k n rule: le_bytes.induct)
  case (2 k n)
  then have "n div 256 < 256 ^ k" by (simp add: less_mult_imp_div_less mult.commute)
  with 2 have "le_val (le_bytes k (n div 256)) = n div 256" by blast
  then show ?case by (simp add: le_val_def)
qed (simp add: le_val_def)

text \<open>A structure of the table has its type, its length and its body.\<close>

definition acpi_structure :: "nat \<times> string \<Rightarrow> string" where
  "acpi_structure s = (case s of (t, body) \<Rightarrow> char_of t # char_of (length body + 2) # body)"

definition other_structure :: "nat \<times> string \<Rightarrow> bool" where
  "other_structure s \<longleftrightarrow> fst s < 256 \<and> fst s \<noteq> 0xB \<and> length (snd s) < 254"

definition gicc_body :: "string \<Rightarrow> nat \<Rightarrow> string \<Rightarrow> nat \<Rightarrow> nat \<Rightarrow> string \<Rightarrow> string" where
  "gicc_body a pmu b spe trbe c = a @ le_bytes 4 pmu @ b @ le_bytes 2 spe @ le_bytes 2 trbe @ c"

lemma find_gicc_skip: "other_structure s \<Longrightarrow> find_gicc (acpi_structure s @ r) = find_gicc r"
  by (cases s, subst find_gicc.simps) (simp add: acpi_structure_def other_structure_def read_len_def Let_def)

lemma find_gicc_here:
  "length body < 254 \<Longrightarrow> find_gicc (acpi_structure (0xB, body) @ r) = gicc_irqs (acpi_structure (0xB, body))"
  by (subst find_gicc.simps) (simp add: acpi_structure_def read_len_def Let_def)

lemma find_gicc_others: "list_all other_structure ss \<Longrightarrow> find_gicc (concat (map acpi_structure ss) @ r) = find_gicc r"
  by (induction ss) (simp_all add: find_gicc_skip)

definition irq_of :: "nat \<Rightarrow> nat option" where
  "irq_of n = (if n = 0 then None else Some n)"

text \<open>
  C36.  In a well-formed table of interrupt controllers, the interrupts of the performance monitor, of
  SPE and of TRBE are those of the first processor's interface, whatever comes before and after it; a
  table without one has none.
\<close>

theorem irqs_of_first_gicc:
  assumes "is_arm e" "is_superuser e" "list_all other_structure ss" "length a = 18" "length b = 54" "length c < 170"
    "pmu < 2 ^ 32" "spe < 2 ^ 16" "trbe < 2 ^ 16" "length header = 44"
    "open_text e [''sys'', ''firmware'', ''acpi'', ''tables'', ''APIC''] =
      Inr (header @ concat (map acpi_structure ss) @ acpi_structure (0xB, gicc_body a pmu b spe trbe c) @ rest)"
  shows "\<exists>d. acpi_irqs e = Inr (Some d) \<and> wf_dict d \<and> map_of d ''PMU'' = irq_of pmu \<and> map_of d ''SPE'' = irq_of spe \<and>
    map_of d ''TRBE'' = irq_of trbe"
proof -
  let ?g = "acpi_structure (0xB, gicc_body a pmu b spe trbe c)"
  have l: "length (gicc_body a pmu b spe trbe c) = 80 + length c" by (simp add: gicc_body_def assms(4,5))
  then have "find_gicc (concat (map acpi_structure ss) @ ?g @ rest) = gicc_irqs ?g"
    using assms(3,6) by (simp add: find_gicc_others find_gicc_here)
  then have a: "acpi_irqs e = Inr (gicc_irqs ?g)" using assms(1,2,10,11) by (simp add: acpi_irqs_def)
  define p20 where "p20 = char_of (0xB :: nat) # char_of (length (gicc_body a pmu b spe trbe c) + 2) # a"
  define p78 where "p78 = p20 @ le_bytes 4 pmu @ b"
  define p80 where "p80 = p78 @ le_bytes 2 spe"
  have p: "length p20 = 20" "length p78 = 78" "length p80 = 80" by (simp_all add: p20_def p78_def p80_def assms(4,5))
  have g: "?g = p20 @ le_bytes 4 pmu @ b @ le_bytes 2 spe @ le_bytes 2 trbe @ c"
    "?g = p78 @ le_bytes 2 spe @ le_bytes 2 trbe @ c" "?g = p80 @ le_bytes 2 trbe @ c"
    by (simp_all add: acpi_structure_def gicc_body_def p20_def p78_def p80_def)
  have "drop 20 ?g = le_bytes 4 pmu @ b @ le_bytes 2 spe @ le_bytes 2 trbe @ c"
    "drop 78 ?g = le_bytes 2 spe @ le_bytes 2 trbe @ c" "drop 80 ?g = le_bytes 2 trbe @ c" "82 \<le> length ?g"
    using p l by (simp add: g(1), simp add: g(2), simp add: g(3), simp add: acpi_structure_def)
  then have "gicc_irqs ?g = Some ((if pmu \<noteq> 0 then [(''PMU'', pmu)] else []) @ (if spe \<noteq> 0 then [(''SPE'', spe)] else []) @
      (if trbe \<noteq> 0 then [(''TRBE'', trbe)] else []))"
    using assms(7-9) by (simp add: gicc_irqs_def Let_def)
  then show ?thesis using a by (simp add: irq_of_def)
qed

lemma no_gicc_no_irqs: "list_all other_structure ss \<Longrightarrow> find_gicc (concat (map acpi_structure ss)) = Some []"
  using find_gicc_others [of ss "[]"] by (simp add: find_gicc.simps)

section \<open>Lemmas on the search in a tree\<close>

lemma walk_dirs: "q \<in> set (walk n d p) \<Longrightarrow> prefix p q \<and> is_dir d q"
proof (induction n d p rule: walk.induct)
  case (2 n d p)
  show ?case
  proof (cases "q = p")
    case True
    then show ?thesis using 2 by (simp split: if_splits)
  next
    case False
    then obtain x where x: "is_dir d p" "x \<in> set (listdir d p)" "q \<in> set (walk n d (p @ [x]))" using 2 by (auto split: if_splits)
    from 2(1) [OF x] show ?thesis by (auto dest: append_prefixD)
  qed
qed simp

lemma in_listdir: "x \<in> set (listdir d p) \<longleftrightarrow> p @ [x] \<in> set (dkeys d)"
proof
  assume "x \<in> set (listdir d p)"
  then obtain q where "q \<in> set (dkeys d)" "q \<noteq> []" "butlast q = p" "x = last q" by (auto simp: listdir_def)
  then show "p @ [x] \<in> set (dkeys d)" by (metis append_butlast_last_id)
next
  assume "p @ [x] \<in> set (dkeys d)"
  then have "last (p @ [x]) \<in> set (listdir d p)" unfolding listdir_def by (intro image_eqI [of _ _ "p @ [x]", THEN set_map [THEN equalityD2, THEN subsetD]]) auto
  then show "x \<in> set (listdir d p)" by simp
qed

lemma dir_prefix: "wf_fs d \<Longrightarrow> is_dir d q \<Longrightarrow> prefix p q \<Longrightarrow> is_dir d p"
proof (induction q rule: rev_induct)
  case (snoc x q)
  show ?case
  proof (cases "p = q @ [x]")
    case False
    then have "prefix p q" using snoc.prems(3) by simp
    moreover have "is_dir d q" using wf_fsD [OF snoc.prems(1) is_dir_key [OF snoc.prems(2)]] by simp
    ultimately show ?thesis using snoc by blast
  qed (use snoc.prems in simp)
qed simp

lemma depth_bound:
  assumes "wf_fs d" "q \<in> set (dkeys d)"
  shows "length q \<le> length d"
proof -
  have q: "q \<noteq> []" "is_dir d (butlast q)" using assms by (auto simp: wf_fs_def)
  have k: "take i q \<in> set (dkeys d)" if "i \<in> {1..length q}" for i
  proof (cases "i = length q")
    case False
    then have "prefix (take i q) (butlast q)" using that by (auto simp: butlast_conv_take prefix_def min_def intro!: exI [of _ "drop i (butlast q)"])
      (metis append_take_drop_id butlast_conv_take take_take min.absorb1 Suc_pred less_Suc_eq_le nat_less_le length_greater_0_conv q(1))
    then have "is_dir d (take i q)" using dir_prefix assms(1) q(2) by blast
    then show ?thesis using is_dir_key that q(1) by fastforce
  qed (use assms in simp)
  have "inj_on (\<lambda>i. take i q) {1..length q}" by (rule inj_onI) (metis atLeastAtMost_iff length_take min.absorb2)
  then have "card ((\<lambda>i. take i q) ` {1..length q}) = length q" by (simp add: card_image)
  moreover have "card ((\<lambda>i. take i q) ` {1..length q}) \<le> card (set (dkeys d))" by (rule card_mono) (use k in auto)
  moreover have "card (set (dkeys d)) \<le> length d" by (metis card_length length_map)
  ultimately show ?thesis by linarith
qed

lemma walk_complete:
  "wf_fs d \<Longrightarrow> is_dir d q \<Longrightarrow> prefix p q \<Longrightarrow> length q < length p + n \<Longrightarrow> q \<in> set (walk n d p)"
proof (induction n d p rule: walk.induct)
  case (2 n d p)
  have dp: "is_dir d p" using dir_prefix 2 by blast
  show ?case
  proof (cases "q = p")
    case False
    then obtain x r where q: "q = p @ x # r" using 2(4) by (metis append_Nil2 neq_Nil_conv prefixE)
    then have "prefix (p @ [x]) q" by simp
    moreover from this have "is_dir d (p @ [x])" using dir_prefix 2 by blast
    then have "x \<in> set (listdir d p)" using is_dir_key by (force simp: in_listdir)
    ultimately show ?thesis using 2(1) [OF dp] 2(2,3,5) dp by auto
  qed (simp add: dp)
qed (auto dest: prefix_length_le)

lemma walk_top_down: "wf_fs d \<Longrightarrow> sorted_wrt (\<lambda>a b. \<not> strict_prefix b a) (walk n d p)"
proof (induction n d p rule: walk.induct)
  case (2 n d p)
  have "inj_on last (set (filter (\<lambda>q. q \<noteq> [] \<and> butlast q = p) (dkeys d)))"
    by (rule inj_onI, unfold set_filter mem_Collect_eq) (metis append_butlast_last_id)
  moreover have "distinct (dkeys d)" using 2(2) by (simp add: wf_fs_def)
  ultimately have "distinct (listdir d p)" unfolding listdir_def by (simp only: distinct_map distinct_filter simp_thms)
  moreover have "set xs \<subseteq> set (listdir d p) \<Longrightarrow> distinct xs \<Longrightarrow>
      sorted_wrt (\<lambda>a b. \<not> strict_prefix b a) (concat (map (\<lambda>x. walk n d (p @ [x])) xs))" if "is_dir d p" for xs
  proof (induction xs)
    case (Cons x xs)
    have "\<not> strict_prefix b a" if ab: "a \<in> set (walk n d (p @ [x]))" "y \<in> set xs" "b \<in> set (walk n d (p @ [y]))" for a b y
    proof
      assume "strict_prefix b a"
      then have "prefix (p @ [y]) a" "prefix (p @ [x]) a" using walk_dirs ab(1,3) by (blast intro: prefix_order.trans strict_prefixE)+
      then show False using Cons.prems(2) ab(2) by (auto simp: prefix_def)
    qed
    then show ?case using Cons 2(1)[OF that _ 2(2)] by (auto simp: sorted_wrt_append)
  qed simp
  moreover have "\<not> strict_prefix b p" if "b \<in> set (walk n d (p @ [x]))" for b x
    using walk_dirs[OF that] by (auto simp: strict_prefix_def prefix_def)
  ultimately show ?case by auto
qed simp

text \<open>
  C39.  The search for a file finds one exactly when some directory of the tree, at whatever depth,
  holds a file of the name; it returns such a file, and none of the directories of the tree above
  that file holds another one.
\<close>

theorem file_found_in_tree:
  assumes "wf_fs d"
  shows "(case find_file_in_tree d p fn of
      None \<Rightarrow> \<not> (\<exists>q. prefix p q \<and> is_file d (q @ [fn]))
    | Some r \<Rightarrow> (\<exists>q. r = q @ [fn] \<and> prefix p q \<and> is_file d r \<and>
        (\<forall>q'. prefix p q' \<and> strict_prefix q' q \<longrightarrow> \<not> is_file d (q' @ [fn]))))"
proof -
  have f: "fn \<in> set (files_in d q) \<longleftrightarrow> is_file d (q @ [fn])" for q
    by (auto simp: files_in_def in_listdir is_dir_def is_file_def split: option.splits fnode.splits dest: map_of_key)
       (metis map_of_eq_None_iff option.distinct(1) fnode.exhaust image_eqI fst_conv)+
  have w: "q \<in> set (walk (Suc (length d)) d p)" if "prefix p q" "is_file d (q @ [fn])" for q
  proof -
    have "q @ [fn] \<in> set (dkeys d)" using that(2) by (auto simp: is_file_def dest: map_of_key split: option.splits)
    then have "is_dir d q" "length q < length d" using wf_fsD [OF assms, of "q @ [fn]"] depth_bound [OF assms] by fastforce+
    then show ?thesis by (intro walk_complete [OF assms _ that(1)]) simp_all
  qed
  let ?qs = "filter (\<lambda>q. fn \<in> set (files_in d q)) (walk (Suc (length d)) d p)"
  show ?thesis
  proof (cases ?qs)
    case Nil
    then have "\<not> (prefix p q \<and> is_file d (q @ [fn]))" for q using f [of q] w [of q] unfolding filter_empty_conv by blast
    then show ?thesis using Nil by (simp add: find_file_in_tree_def del: walk.simps)
  next
    case (Cons q qs)
    then have "q \<in> set ?qs" by simp
    then have q: "is_file d (q @ [fn])" "prefix p q" using f walk_dirs by (simp_all del: walk.simps) blast
    have "sorted_wrt (\<lambda>a b. \<not> strict_prefix b a) (q # qs)"
      using sorted_wrt_filter[OF walk_top_down[OF assms], of "\<lambda>q. fn \<in> set (files_in d q)" "Suc (length d)" p] Cons by simp
    moreover have "q' \<in> set (q # qs)" if "prefix p q'" "is_file d (q' @ [fn])" for q'
      unfolding Cons[symmetric] using w[OF that] f that(2) by (simp del: walk.simps)
    ultimately have "\<not> (prefix p q' \<and> strict_prefix q' q \<and> is_file d (q' @ [fn]))" for q' by fastforce
    then show ?thesis using Cons q by (auto simp: find_file_in_tree_def simp del: walk.simps)
  qed
qed

text \<open>A name with a separator is no name of a directory's entry, so it is never found.\<close>

lemma path_name_not_found:
  assumes "CHR ''/'' \<in> set fn" "\<forall>q\<in>set (dkeys d). \<forall>x\<in>set q. CHR ''/'' \<notin> set x"
  shows "find_file_in_tree d p fn = None"
proof -
  have "fn \<notin> set (files_in d q)" for q using assms by (fastforce simp: files_in_def in_listdir)
  then show ?thesis by (simp add: find_file_in_tree_def)
qed

section \<open>Concrete environments\<close>

definition demo_sys_env :: "string fs \<Rightarrow> sys_env" where
  "demo_sys_env d = \<lparr>se_machine = ''aarch64'', se_release = ''6.8.0-45'', se_files = d, se_denied = (\<lambda>_. None),
     se_gunzip = (\<lambda>s. Inl (Exc OSError ''not a gzipped file'')), se_euid = 0, se_cpu_count = 2, se_libc_ver = (''glibc'', ''2.39''),
     se_run = (\<lambda>_. Inl (Exc FileNotFoundError ''no such file'')), se_status = (\<lambda>_. Inl (Exc FileNotFoundError ''no such file'')),
     se_executable = (\<lambda>_. True)\<rparr>"

definition demo_config :: "config_entry list" where
  "demo_config = [Note '' Linux 6.8'', Setting ''CONFIG_NUMA'' ''y'', Note [], Setting ''CONFIG_HZ'' ''250'', Setting ''CONFIG_HZ'' ''1000'']"

theorem kernel_config_is_read_witness:
  "kernel_config (demo_sys_env [([''boot''], Dir), ([''boot'', ''config-6.8.0-45''], File (join [CHR 0x0A] (map entry_line demo_config)))]) =
    Inr (Some [(''CONFIG_NUMA'', ''y''), (''CONFIG_HZ'', ''1000'')])"
  (is "kernel_config ?e = _")
proof -
  have g: "list_all good_entry demo_config" "demo_config \<noteq> []" by code_simp+
  have f: "kernel_config_file ?e = Some [''boot'', ''config-6.8.0-45'']"
    by (simp add: kernel_config_file_def demo_sys_env_def path_exists_def config_gz_def)
  from kernel_config_is_read [OF g f] show ?thesis
    by (simp add: config_gz_def open_text_def demo_sys_env_def read_file_def demo_config_def dset_def)
qed

theorem irqs_of_first_gicc_witness:
  "\<exists>d. acpi_irqs (demo_sys_env [([''sys'', ''firmware'', ''acpi'', ''tables'', ''APIC''], File (replicate 44 CHR ''h'' @
      acpi_structure (0xC, replicate 22 CHR ''d'') @ acpi_structure (0xB, gicc_body (replicate 18 CHR ''a'') 23 (replicate 54 CHR ''b'') 21 0 [])))]) =
    Inr (Some d) \<and> map_of d ''PMU'' = Some 23 \<and> map_of d ''SPE'' = Some 21 \<and> map_of d ''TRBE'' = None"
  using irqs_of_first_gicc [of "demo_sys_env [([''sys'', ''firmware'', ''acpi'', ''tables'', ''APIC''], File (replicate 44 CHR ''h'' @
      acpi_structure (0xC, replicate 22 CHR ''d'') @ acpi_structure (0xB, gicc_body (replicate 18 CHR ''a'') 23 (replicate 54 CHR ''b'') 21 0 [])))]"
      "[(0xC, replicate 22 CHR ''d'')]" "replicate 18 CHR ''a''" "replicate 54 CHR ''b''" "[]" 23 21 0 "replicate 44 CHR ''h''" "[]"]
  by (auto simp: demo_sys_env_def is_arm_def is_superuser_def other_structure_def open_text_def read_file_def irq_of_def)

definition demo_modules :: "string fs" where
  "demo_modules = [([''lib''], Dir), ([''lib'', ''kernel''], Dir), ([''lib'', ''kernel'', ''arm_spe_pmu.ko''], File [])]"

theorem file_found_in_tree_witness:
  "wf_fs demo_modules \<and> find_file_in_tree demo_modules [''lib''] ''arm_spe_pmu.ko'' = Some [''lib'', ''kernel'', ''arm_spe_pmu.ko''] \<and>
    is_file demo_modules [''lib'', ''kernel'', ''arm_spe_pmu.ko'']"
proof -
  have w: "wf_fs demo_modules" by code_simp
  have f: "find_file_in_tree demo_modules [''lib''] ''arm_spe_pmu.ko'' = Some [''lib'', ''kernel'', ''arm_spe_pmu.ko'']" by code_simp
  show ?thesis using file_found_in_tree [OF w, of "[''lib'']" "''arm_spe_pmu.ko''"] w f by auto
qed

end
