(* ===== verification/System_Report.thy ===== *)
theory System_Report
  imports System_Files "HOL-Library.Char_ord" "HOL-Library.List_Lexorder" "HOL-Library.Product_Lexorder"
begin

text \<open>
  The report of a system, from \<open>src/lib/sysreport/sysreport.py\<close>, and the queries of the topology that
  it uses, from \<open>sr_cpulist.py\<close>.  A report keeps what it has read of the vulnerabilities, the interrupts
  and the counters, so that its queries return the report with the answer.  The functions of the
  module that are cached by \<open>lru_cache\<close> are functions of the environment.
\<close>

section \<open>Caches of the topology\<close>

text \<open>The order of caches; the smallest processor of a cache without any is an error.\<close>

definition cache_order :: "hw_cache \<Rightarrow> nat \<times> int \<times> char" where
  "cache_order c = (Min (set (hc_cpus c)), - hc_level c, hc_type c)"

definition sorted_caches :: "topology \<Rightarrow> (cache_key \<times> hw_cache) list res" where
  "sorted_caches s =
     (if 2 \<le> length (tp_caches s) \<and> list_ex (\<lambda>(k, c). hc_cpus c = []) (tp_caches s)
      then Inl (Exc ValueError ''min() arg is an empty sequence'')
      else Inr (sort_key (\<lambda>(k, c). cache_order c) (tp_caches s)))"

definition for_cpu :: "int \<Rightarrow> hw_cache \<Rightarrow> bool" where
  "for_cpu n c \<longleftrightarrow> n \<in> set (map int (hc_cpus c))"

definition cpu_caches :: "topology \<Rightarrow> int \<Rightarrow> (cache_key \<times> hw_cache) list res" where
  "cpu_caches s n = bindr (sorted_caches s) (\<lambda>cs. Inr (filter (\<lambda>(k, c). for_cpu n c) cs))"

definition contains_type :: "char \<Rightarrow> hw_cache \<Rightarrow> bool res" where
  "contains_type t c =
     (if t \<notin> set ''ID'' then Inl (Exc ValueError (''cache_type must be I or D, given '' @ [t]))
      else Inr (cache_contains t c))"

fun find_cache :: "int \<Rightarrow> char \<Rightarrow> (cache_key \<times> hw_cache) list \<Rightarrow> cache_key option \<Rightarrow> cache_key option res" where
  "find_cache level t [] found = Inr found"
| "find_cache level t ((k, c) # cs) found =
     (if hc_level c \<noteq> level then find_cache level t cs found
      else bindr (contains_type t c) (\<lambda>yes.
        if \<not> yes then find_cache level t cs found
        else if found \<noteq> None then Inl (Exc AssertionError ''cache overlap'')
        else find_cache level t cs (Some k)))"

definition cpu_cache :: "topology \<Rightarrow> int \<Rightarrow> int \<Rightarrow> char \<Rightarrow> cache_key option res" where
  "cpu_cache s n level t =
     (if t \<notin> set ''IDU'' then Inl (Exc ValueError ''cache_type must be I, D or U'')
      else bindr (cpu_caches s n) (\<lambda>cs. find_cache level t cs None))"

fun cpu_cache_path_from :: "topology \<Rightarrow> int \<Rightarrow> char \<Rightarrow> int list \<Rightarrow> cache_key list res" where
  "cpu_cache_path_from s n t [] = Inr []"
| "cpu_cache_path_from s n t (i # is) =
     bindr (cpu_cache s n i t) (\<lambda>c. case c of
         None \<Rightarrow> Inr []
       | Some k \<Rightarrow> bindr (cpu_cache_path_from s n t is) (\<lambda>ks. Inr (k # ks)))"

definition cpu_cache_path :: "topology \<Rightarrow> int \<Rightarrow> char \<Rightarrow> cache_key list res" where
  "cpu_cache_path s n t = cpu_cache_path_from s n t [1, 2, 3, 4, 5, 6, 7, 8, 9]"

definition cpu_LLC :: "topology \<Rightarrow> int \<Rightarrow> cache_key option res" where
  "cpu_LLC s n = bindr (cpu_caches s n) (\<lambda>cs.
     Inr (case filter (\<lambda>(k, c). hc_parent c = None) cs of [] \<Rightarrow> None | (k, c) # _ \<Rightarrow> Some k))"

text \<open>The texts of sizes use the float formats of the standard library, which are parameters.\<close>

record float_formats =
  ff_3g :: "rat \<Rightarrow> string"
  ff_str :: "rat \<Rightarrow> string"

definition sr_memsize_str :: "float_formats \<Rightarrow> rat \<Rightarrow> string" where
  "sr_memsize_str ff n =
     (case filter (\<lambda>u. 2 ^ (u * 10) \<le> n) [4, 3, 2, 1] of
        [] \<Rightarrow> ff_str ff n
      | u # _ \<Rightarrow> ff_3g ff (n / 2 ^ (u * 10)) @ [''BKMGT'' ! u])"

definition cache_type_str :: "hw_cache \<Rightarrow> string" where
  "cache_type_str c = ''L'' @ int_str (hc_level c) @ [hc_type c]"

definition geometry_str :: "float_formats \<Rightarrow> hw_cache \<Rightarrow> string" where
  "geometry_str ff c =
     (case hc_size c of
        Some z \<Rightarrow> sr_memsize_str ff z @ (case hc_ways c of None \<Rightarrow> [] | Some w \<Rightarrow> '' '' @ int_str w @ ''-way'')
      | None \<Rightarrow> ''unknown geometry'') @
     (case hc_line_size c of None \<Rightarrow> [] | Some b \<Rightarrow> '' '' @ int_str b @ ''b-line'')"

definition ls_caches :: "float_formats \<Rightarrow> topology \<Rightarrow> (string, nat) dict res" where
  "ls_caches ff s = bindr (sorted_caches s) (\<lambda>cs.
     let counts = fold (\<lambda>(k, c) d. let ct = cache_type_str c @ '' '' @ geometry_str ff c in dset ct (Suc (dget d ct 0)) d) cs []
     in Inr (map (\<lambda>k. (k, dget counts k 0)) (sort (dkeys counts))))"

section \<open>The report\<close>

record sysrep =
  sy_topology :: topology
  sy_arm_arch :: "(int \<times> int) option"
  sy_kernel_config :: "(string, string) dict option"
  sy_vulnerabilities :: "(string, string option) dict option"
  sy_irqs :: "(string, nat) dict option"
  sy_max_counters :: "nat option"

definition arm_cpu_arch :: "(int \<times> int, int \<times> int) dict" where
  "arm_cpu_arch = [((0x41, 0xD03), (8, 0)), ((0x41, 0xD07), (8, 0)), ((0x41, 0xD08), (8, 0)), ((0x41, 0xD0C), (8, 2)),
     ((0x41, 0xD40), (8, 4)), ((0x41, 0xD49), (9, 0)), ((0x41, 0xD4F), (9, 0)), ((0x41, 0xD83), (9, 2)), ((0x41, 0xD84), (9, 2)),
     ((0x6D, 0xD49), (9, 0))]"

definition spec_arch :: "cpu_spec \<Rightarrow> (int \<times> int) option" where
  "spec_arch s = (case cs_implementer_code s of None \<Rightarrow> None | Some i \<Rightarrow> map_of arm_cpu_arch (i, cs_model_code s))"

fun arm_arch :: "cpu_spec list \<Rightarrow> (int \<times> int) option \<Rightarrow> (int \<times> int) option res" where
  "arm_arch [] a = Inr a"
| "arm_arch (s # ss) a =
     (case spec_arch s of
        None \<Rightarrow> arm_arch ss a
      | Some n \<Rightarrow> if a \<noteq> None \<and> a \<noteq> Some n then Inl (Exc AssertionError ''mismatch'') else arm_arch ss (Some n))"

definition cpu_types :: "sysrep \<Rightarrow> cpu_spec list" where
  "cpu_types r = map fst (tp_specs (sy_topology r))"

definition new_sysrep :: "sys_env \<Rightarrow> topology \<Rightarrow> sysrep res" where
  "new_sysrep e t =
     bindr (if is_arm e then arm_arch (map fst (tp_specs t)) None else Inr None) (\<lambda>a.
     bindr (kernel_config e) (\<lambda>ck.
     Inr \<lparr>sy_topology = t, sy_arm_arch = a, sy_kernel_config = ck, sy_vulnerabilities = None, sy_irqs = None, sy_max_counters = None\<rparr>))"

fun first_online :: "topology \<Rightarrow> nat list \<Rightarrow> cpu option res" where
  "first_online s [] = Inr None"
| "first_online s (i # is) = bindr (cpu_at s (int i)) (\<lambda>c. if cu_found_in_cpuinfo c then Inr (Some c) else first_online s is)"

definition get_cpu_features :: "sysrep \<Rightarrow> string list res" where
  "get_cpu_features r =
     bindr (first_online (sy_topology r) [0..<n_cpus (sy_topology r)]) (\<lambda>c. case c of
         None \<Rightarrow> Inr []
       | Some u \<Rightarrow> (case cu_spec u of
             None \<Rightarrow> Inl (Exc AttributeError ''NoneType object has no attribute features'')
           | Some s \<Rightarrow> Inr (cs_features s)))"

definition architecture :: "sys_env \<Rightarrow> sysrep \<Rightarrow> string" where
  "architecture e r =
     (case sy_arm_arch r of
        Some (ma, mi) \<Rightarrow> if is_arm e then ''ARMv'' @ int_str ma @ ''.'' @ int_str mi else se_machine e
      | None \<Rightarrow> se_machine e)"

definition is_arm_architecture :: "sys_env \<Rightarrow> sysrep \<Rightarrow> int \<Rightarrow> int \<Rightarrow> bool" where
  "is_arm_architecture e r ma mi \<longleftrightarrow> is_arm e \<and> (case sy_arm_arch r of None \<Rightarrow> False | Some a \<Rightarrow> (ma, mi) \<le> a)"

section \<open>Software\<close>

fun replace_sub :: "string \<Rightarrow> string \<Rightarrow> string \<Rightarrow> string" where
  "replace_sub old new [] = []"
| "replace_sub old new (c # cs) =
     (if old \<noteq> [] \<and> prefix old (c # cs) then new @ replace_sub old new (drop (length old - 1) cs)
      else c # replace_sub old new cs)"

text \<open>\<open>s[:s.index(sub)]\<close>\<close>

fun before_sub :: "string \<Rightarrow> string \<Rightarrow> string res" where
  "before_sub sub [] = (if sub = [] then Inr [] else Inl (Exc ValueError ''substring not found''))"
| "before_sub sub (c # cs) = (if prefix sub (c # cs) then Inr [] else bindr (before_sub sub cs) (\<lambda>p. Inr (c # p)))"

definition get_distribution :: "sys_env \<Rightarrow> string option res" where
  "get_distribution e =
     bindr (file_data e [''etc'', ''redhat-release'']) (\<lambda>d. case d of
       Some s \<Rightarrow>
         (let t = replace_sub '' release'' [] (replace_sub ''Red Hat Enterprise Linux'' ''RHEL'' s)
          in if suffix '')'' t then bindr (before_sub '' ('' t) (\<lambda>u. Inr (Some u)) else Inr (Some t))
     | None \<Rightarrow> bindr (file_data_key e [''etc'', ''lsb-release''] ''DISTRIB_DESCRIPTION'') (\<lambda>s. case s of
         Some t \<Rightarrow> Inr (Some t)
       | None \<Rightarrow> file_data_key e [''etc'', ''os-release''] ''NAME''))"

definition get_kernel_version :: "sys_env \<Rightarrow> string" where
  "get_kernel_version e = takeWhile (\<lambda>c. c \<noteq> CHR ''-'') (se_release e)"

definition get_kernel_maj_min :: "sys_env \<Rightarrow> (int \<times> int) res" where
  "get_kernel_maj_min e =
     (case split_on CHR ''.'' (get_kernel_version e) of
        [] \<Rightarrow> Inl (Exc IndexError ''list index out of range'')
      | v # vs \<Rightarrow> bindr (int_of_str v) (\<lambda>ma. case vs of
            [] \<Rightarrow> Inl (Exc IndexError ''list index out of range'')
          | w # _ \<Rightarrow> bindr (int_of_str w) (\<lambda>mi. Inr (ma, mi))))"

definition is_kernel_at_least :: "sys_env \<Rightarrow> int \<times> int \<Rightarrow> bool res" where
  "is_kernel_at_least e v = bindr (get_kernel_maj_min e) (\<lambda>k. Inr (v \<le> k))"

definition get_kernel_config :: "sysrep \<Rightarrow> string \<Rightarrow> string option res" where
  "get_kernel_config r var =
     (if \<not> prefix ''CONFIG_'' var then Inl (Exc ValueError ''kernel config variable must start with CONFIG_'')
      else Inr (case sy_kernel_config r of None \<Rightarrow> None | Some ck \<Rightarrow> map_of ck var))"

definition kernel_config_enabled :: "sysrep \<Rightarrow> string \<Rightarrow> bool res" where
  "kernel_config_enabled r var = bindr (get_kernel_config r var) (\<lambda>v. Inr (v = Some ''y'' \<or> v = Some ''m''))"

definition modules_dir :: "sys_env \<Rightarrow> path" where
  "modules_dir e = [''lib'', ''modules'', se_release e]"

definition has_loadable_kernel_module :: "sys_env \<Rightarrow> string \<Rightarrow> path option res" where
  "has_loadable_kernel_module e ko =
     (if \<not> suffix ''.ko'' ko then Inl (Exc ValueError ''name must end with .ko'')
      else Inr (find_file_in_tree (se_files e) (modules_dir e) ko))"

definition get_cache_line_size :: "sys_env \<Rightarrow> int option res" where
  "get_cache_line_size e =
     (case run_cmd e ''getconf LEVEL1_DCACHE_LINESIZE'' of
        Inl x \<Rightarrow> if caught [FileNotFoundError, PermissionError, SubprocessError] x then Inr None else Inl x
      | Inr (out, err) \<Rightarrow> Inr (case int_of_str out of Inl _ \<Rightarrow> None | Inr n \<Rightarrow> Some n))"

definition get_libc_version :: "sys_env \<Rightarrow> string" where
  "get_libc_version e = fst (se_libc_ver e) @ '' '' @ snd (se_libc_ver e)"

definition get_cpu_count :: "sys_env \<Rightarrow> sysrep \<Rightarrow> bool \<Rightarrow> nat res" where
  "get_cpu_count e r online_only =
     (if \<not> online_only then Inr (n_cpus (sy_topology r))
      else if tp_n_cpus_online (sy_topology r) \<noteq> se_cpu_count e then Inl (Exc ValueError ''mismatch on number of CPUs'')
      else Inr (tp_n_cpus_online (sy_topology r)))"

section \<open>What a report keeps\<close>

definition irqs :: "sys_env \<Rightarrow> sysrep \<Rightarrow> ((string, nat) dict \<times> sysrep) res" where
  "irqs e r =
     (case sy_irqs r of
        Some d \<Rightarrow> Inr (d, r)
      | None \<Rightarrow> bindr (acpi_irqs e) (\<lambda>a. let d = (case a of None \<Rightarrow> [] | Some d \<Rightarrow> d) in Inr (d, r\<lparr>sy_irqs := Some d\<rparr>)))"

definition has_irq :: "sys_env \<Rightarrow> string \<Rightarrow> sysrep \<Rightarrow> (bool \<times> sysrep) res" where
  "has_irq e s r = bindr (irqs e r) (\<lambda>(d, r'). Inr (s \<in> set (dkeys d), r'))"

fun read_vulnerabilities :: "sys_env \<Rightarrow> path \<Rightarrow> string list \<Rightarrow> (string, string option) dict \<Rightarrow> (string, string option) dict res" where
  "read_vulnerabilities e vd [] d = Inr d"
| "read_vulnerabilities e vd (rd # rds) d =
     (case file_data e (vd @ [rd]) of
        Inl x \<Rightarrow> if caught [PermissionError, FileNotFoundError, OSError] x then read_vulnerabilities e vd rds (dset rd None d) else Inl x
      | Inr v \<Rightarrow> read_vulnerabilities e vd rds (dset rd v d))"

definition vulnerabilities_dir :: path where
  "vulnerabilities_dir = [''sys'', ''devices'', ''system'', ''cpu'', ''vulnerabilities'']"

definition vulnerabilities :: "sys_env \<Rightarrow> sysrep \<Rightarrow> ((string, string option) dict \<times> sysrep) res" where
  "vulnerabilities e r =
     (case sy_vulnerabilities r of
        Some d \<Rightarrow> Inr (d, r)
      | None \<Rightarrow> bindr (if is_dir (se_files e) vulnerabilities_dir
            then read_vulnerabilities e vulnerabilities_dir (listdir (se_files e) vulnerabilities_dir) [] else Inr [])
          (\<lambda>d. Inr (d, r\<lparr>sy_vulnerabilities := Some d\<rparr>)))"

text \<open>The first entry that decides; an entry that could not be read gives no answer.\<close>

fun kpti_of :: "string option list \<Rightarrow> bool option" where
  "kpti_of [] = Some False"
| "kpti_of (None # vs) = None"
| "kpti_of (Some v # vs) = (if v = ''Mitigation: PTI'' then Some True else kpti_of vs)"

definition is_KPTI_enabled :: "sys_env \<Rightarrow> sysrep \<Rightarrow> (bool option \<times> sysrep) res" where
  "is_KPTI_enabled e r = bindr (vulnerabilities e r) (\<lambda>(d, r'). Inr (kpti_of (map snd d), r'))"

definition vulnerability_text :: "string \<times> string option \<Rightarrow> string option" where
  "vulnerability_text kv =
     (case kv of
        (k, None) \<Rightarrow> Some k
      | (k, Some v) \<Rightarrow> if prefix ''Mitigation:'' v then Some (k @ '':'' @ drop 12 v)
                      else if v = ''Not affected'' then None else Some (k @ '':'' @ v))"

definition vulnerabilities_str :: "(string, string option) dict \<Rightarrow> string" where
  "vulnerabilities_str vl = join ''; '' (List.map_filter vulnerability_text vl)"

definition get_lockdown :: "sysrep \<Rightarrow> string list option res" where
  "get_lockdown r = bindr (get_kernel_config r ''CONFIG_LSM'') (\<lambda>v. case v of
       None \<Rightarrow> Inr None
     | Some ld \<Rightarrow> if ld = [] then Inl (Exc IndexError ''string index out of range'')
         else Inr (Some (split_on CHR '','' (unquoted ld))))"

definition lockdown_str :: "string list option \<Rightarrow> string option" where
  "lockdown_str ld = map_option (join '', '') ld"

section \<open>The interconnect\<close>

definition cmn_type :: "string \<Rightarrow> string option" where
  "cmn_type area =
     (let a = takeWhile (\<lambda>c. c \<noteq> CHR '':'') area
      in if a \<in> set [''ARMHC600'', ''ARMHC650'', ''ARMHC700''] then Some (''CMN-'' @ drop 5 a) else None)"

definition interconnect_step :: "string \<Rightarrow> string option \<times> nat \<Rightarrow> string option \<times> nat" where
  "interconnect_step area st =
     (case (cmn_type area, st) of
        (None, _) \<Rightarrow> st
      | (Some t, (None, n)) \<Rightarrow> (Some t, n)
      | (Some t, (Some it, n)) \<Rightarrow> if t = it then (Some it, Suc n) else (Some ''<mixed?>'', Suc n))"

definition interconnect_of :: "string list \<Rightarrow> string option \<times> nat" where
  "interconnect_of areas = fold interconnect_step areas (None, 1)"

definition system_interconnect :: "sys_env \<Rightarrow> (string option \<times> nat) res" where
  "system_interconnect e = bindr (iomem_areas e True) (\<lambda>as. Inr (interconnect_of as))"

definition event_sources :: path where
  "event_sources = [''sys'', ''bus'', ''event_source'', ''devices'']"

definition has_event_source :: "sys_env \<Rightarrow> string \<Rightarrow> bool" where
  "has_event_source e s \<longleftrightarrow> path_exists (se_files e) (event_sources @ [s])"

definition has_CMN_interconnect :: "sys_env \<Rightarrow> bool res" where
  "has_CMN_interconnect e =
     (if has_event_source e ''arm_cmn_0'' then Inr True
      else bindr (system_interconnect e) (\<lambda>(ic, n). Inr (case ic of None \<Rightarrow> False | Some t \<Rightarrow> prefix ''CMN-'' t)))"

definition has_MPAM :: "sysrep \<Rightarrow> bool res" where
  "has_MPAM r = bindr (get_kernel_config r ''CONFIG_MPAM'') (\<lambda>v. Inr (v = Some ''y''))"

definition has_resctrl :: "sys_env \<Rightarrow> bool" where
  "has_resctrl e \<longleftrightarrow> path_exists (se_files e) [''sys'', ''fs'', ''resctrl'']"

text \<open>The steppings of Arm processors are pairs; comparing another one with a pair is an error.\<close>

fun stepping_less :: "stepping \<Rightarrow> int \<times> int \<Rightarrow> bool res" where
  "stepping_less (VariantRevision v p) b = Inr ((v, p) < b)"
| "stepping_less (Number n) b = Inl (Exc TypeError ''not supported between instances of int and tuple'')"

definition spe_step :: "int \<Rightarrow> cpu_spec \<Rightarrow> int res" where
  "spe_step spe_type ct =
     (if \<not> prefix ''Arm Neoverse'' (str_full ct) then Inr spe_type
      else let t = (if spe_type = 0 then 1 else spe_type)
           in if cs_implementer_code ct \<noteq> Some 0x41 then Inr t
              else bindr (if cs_model_code ct = 0xD0C then stepping_less (cs_stepping ct) (4, 1) else Inr False) (\<lambda>n1.
                if n1 then Inr (-1)
                else bindr (if cs_model_code ct = 0xD40 then stepping_less (cs_stepping ct) (1, 1) else Inr False) (\<lambda>v1.
                  Inr (if v1 then -1 else t))))"

fun spe_of :: "int \<Rightarrow> cpu_spec list \<Rightarrow> int res" where
  "spe_of t [] = Inr t"
| "spe_of t (s # ss) = bindr (spe_step t s) (\<lambda>u. spe_of u ss)"

definition cpu_has_SPE :: "sysrep \<Rightarrow> int res" where
  "cpu_has_SPE r = spe_of 0 (cpu_types r)"

section \<open>Tools\<close>

definition kernel_build_dir :: "sys_env \<Rightarrow> bool \<Rightarrow> path option" where
  "kernel_build_dir e check =
     (let b = modules_dir e @ [''build''] in if check \<and> \<not> is_dir (se_files e) b then None else Some b)"

text \<open>An absolute path; the empty one names nothing.\<close>

definition path_of_text :: "string \<Rightarrow> path" where
  "path_of_text s = filter (\<lambda>c. c \<noteq> []) (split_on CHR ''/'' s)"

definition text_exists :: "sys_env \<Rightarrow> string \<Rightarrow> bool" where
  "text_exists e s \<longleftrightarrow> s \<noteq> [] \<and> path_exists (se_files e) (path_of_text s)"

definition is_exec_shell_script :: "sys_env \<Rightarrow> string \<Rightarrow> bool res" where
  "is_exec_shell_script e f =
     (if \<not> text_exists e f then Inr False
      else bindr (open_text e (path_of_text f)) (\<lambda>s. Inr (take 2 s = ''#!'' \<and> se_executable e (path_of_text f))))"

definition perf_binary :: "sys_env \<Rightarrow> string res" where
  "perf_binary e =
     (case run_cmd e ''which perf'' of
        Inl x \<Rightarrow> if caught [OSError, SubprocessError] x then Inr [] else Inl x
      | Inr (out, err) \<Rightarrow>
          (let found = strip out in bindr (is_exec_shell_script e found) (\<lambda>script.
             let p = (if script then ''/usr/lib/linux-tools/'' @ se_release e @ ''/perf'' else found)
             in Inr (if text_exists e p then p else []))))"

definition perf_binary_imports :: "sys_env \<Rightarrow> string \<Rightarrow> bool option res" where
  "perf_binary_imports e lib =
     bindr (perf_binary e) (\<lambda>p. if p = [] then Inr (Some False)
       else case run_cmd e (''/usr/bin/ldd '' @ p) of
           Inl x \<Rightarrow> if caught [OSError, SubprocessError] x then Inr None else Inl x
         | Inr (out, err) \<Rightarrow> Inr (Some (infix_of lib out)))"

definition perf_binary_has_opencsd :: "sys_env \<Rightarrow> bool option res" where
  "perf_binary_has_opencsd e = perf_binary_imports e ''libopencsd.so''"

definition perf_installed :: "sys_env \<Rightarrow> bool res" where
  "perf_installed e =
     bindr (perf_binary e) (\<lambda>p. if p = [] then Inr False
       else case se_status e [p, ''config''] of
           Inl x \<Rightarrow> if caught [OSError, SubprocessError] x then Inr False else Inl x
         | Inr rc \<Rightarrow> Inr (rc = 0))"

definition counters_cmd :: "nat \<Rightarrow> string" where
  "counters_cmd i = ''perf stat -x, -e {'' @ join '','' (replicate i ''instructions:u'') @ ''} -- true''"

fun try_groups :: "sys_env \<Rightarrow> nat list \<Rightarrow> nat option res" where
  "try_groups e [] = Inr None"
| "try_groups e (i # is) =
     (case run_cmd e (counters_cmd i) of
        Inl x \<Rightarrow> if caught [OSError, SubprocessError] x then Inr None else Inl x
      | Inr (out, err) \<Rightarrow> if prefix ''<not'' err then Inr (Some (i - 1)) else try_groups e is)"

definition perf_max_counters :: "sys_env \<Rightarrow> nat option res" where
  "perf_max_counters e = bindr (perf_installed e) (\<lambda>i. if \<not> i then Inr None else try_groups e [1..<31])"

text \<open>An unknown number is not kept.\<close>

definition max_counters :: "sys_env \<Rightarrow> sysrep \<Rightarrow> (nat option \<times> sysrep) res" where
  "max_counters e r =
     (case sy_max_counters r of
        Some n \<Rightarrow> Inr (Some n, r)
      | None \<Rightarrow> bindr (perf_max_counters e) (\<lambda>n. Inr (n, r\<lparr>sy_max_counters := n\<rparr>)))"

definition perf_event_paranoid :: "sys_env \<Rightarrow> int option res" where
  "perf_event_paranoid e = data_int e [''proc'', ''sys'', ''kernel'', ''perf_event_paranoid'']"

definition kptr_restrict :: "sys_env \<Rightarrow> int option res" where
  "kptr_restrict e =
     (case data_int e [''proc'', ''sys'', ''kernel'', ''kptr_restrict''] of
        Inl x \<Rightarrow> if caught [OSError] x then Inr None else Inl x
      | Inr v \<Rightarrow> Inr v)"

definition perf_precise_sampling :: "sys_env \<Rightarrow> sysrep \<Rightarrow> string option" where
  "perf_precise_sampling e r =
     (if se_machine e = ''x86_64'' \<and> has_cpu_feature ''pebs'' (sy_topology r) then Some ''PEBS'' else None)"

definition perf_noninvasive_sampling :: "sys_env \<Rightarrow> string option" where
  "perf_noninvasive_sampling e = (if is_arm e \<and> has_event_source e ''arm_spe_0'' then Some ''SPE'' else None)"

definition coresight_dir :: path where
  "coresight_dir = [''sys'', ''bus'', ''coresight'', ''devices'']"

definition perf_hardware_trace :: "sys_env \<Rightarrow> sysrep \<Rightarrow> string option res" where
  "perf_hardware_trace e r =
     (if se_machine e = ''x86_64'' then Inr (if has_cpu_feature ''intel_pt'' (sy_topology r) then Some ''PT'' else None)
      else if is_arm e \<and> has_event_source e ''cs_etm'' then
        (if \<not> is_dir (se_files e) coresight_dir then Inl (Exc FileNotFoundError ''no such file or directory'')
         else Inr (if listdir (se_files e) coresight_dir = [] then None else Some ''ETM''))
      else Inr None)"

definition perf_user_access :: "sys_env \<Rightarrow> int option res" where
  "perf_user_access e = data_int e [''proc'', ''sys'', ''kernel'', ''perf_user_access'']"

definition perf_interconnect :: "sys_env \<Rightarrow> bool option res" where
  "perf_interconnect e =
     (if \<not> is_arm e then Inr None
      else bindr (has_CMN_interconnect e) (\<lambda>c. Inr (if c then Some (has_event_source e ''arm_cmn_0'') else None)))"

definition boot_info_type :: "sys_env \<Rightarrow> string option res" where
  "boot_info_type e =
     (let acpi = is_dir (se_files e) [''sys'', ''firmware'', ''acpi'']; dt = is_dir (se_files e) [''proc'', ''device-tree'']
      in if dt \<and> acpi then Inl (Exc AssertionError ''both acpi and device-tree detected as boot_info_types!'')
         else Inr (if dt then Some ''DT'' else if acpi then Some ''ACPI'' else None))"

definition cache_info :: "sys_env \<Rightarrow> string option" where
  "cache_info e =
     (let sc = [''sys'', ''devices'', ''system'', ''cpu'', ''cpu0'', ''cache''];
          cl = map snd (filter (\<lambda>(f, t). is_file (se_files e) (sc @ [''index0'', f]))
            [(''size'', ''size''), (''ways_of_associativity'', ''associativity''), (''shared_cpu_list'', ''sharing'')])
      in if \<not> is_dir (se_files e) sc \<or> cl = [] then None else Some (join '', '' cl))"

definition has_atomics :: "sys_env \<Rightarrow> topology \<Rightarrow> bool" where
  "has_atomics e t \<longleftrightarrow> se_machine e = ''x86_64'' \<or> has_cpu_feature ''atomics'' t"

definition kernel_uses_atomics :: "sys_env \<Rightarrow> sysrep \<Rightarrow> bool option res" where
  "kernel_uses_atomics e r =
     (if \<not> has_atomics e (sy_topology r) then Inr (Some False)
      else if se_machine e = ''x86_64'' then Inr (Some True)
      else if se_machine e = ''aarch64'' \<and> sy_kernel_config r \<noteq> None
      then bindr (kernel_config_enabled r ''CONFIG_ARM64_LSE_ATOMICS'') (\<lambda>b. Inr (Some b))
      else Inr None)"

definition hugepages_dir :: path where
  "hugepages_dir = [''sys'', ''kernel'', ''mm'', ''hugepages'']"

fun hugepage_counts :: "sys_env \<Rightarrow> bool \<Rightarrow> string list \<Rightarrow> (string \<times> int) list res" where
  "hugepage_counts e skip_zero [] = Inr []"
| "hugepage_counts e skip_zero (d # ds) =
     (if \<not> prefix ''hugepages-'' d then hugepage_counts e skip_zero ds
      else bindr (data_int e (hugepages_dir @ [d, ''nr_hugepages''])) (\<lambda>nr. case nr of
          None \<Rightarrow> Inl (Exc TypeError ''not supported between instances of NoneType and int'')
        | Some n \<Rightarrow> bindr (hugepage_counts e skip_zero ds) (\<lambda>hs.
            Inr (if n > 0 \<or> \<not> skip_zero then (drop 10 d, n) # hs else hs))))"

definition kernel_hugepages :: "sys_env \<Rightarrow> bool \<Rightarrow> (string \<times> int) list res" where
  "kernel_hugepages e skip_zero =
     (if \<not> path_exists (se_files e) hugepages_dir then Inr []
      else hugepage_counts e skip_zero (listdir (se_files e) hugepages_dir))"

definition kernel_hugepages_str :: "sys_env \<Rightarrow> bool \<Rightarrow> string res" where
  "kernel_hugepages_str e skip_zero = bindr (kernel_hugepages e skip_zero) (\<lambda>hs.
     Inr (if hs = [] then ''disabled'' else join '', '' (map (\<lambda>(z, n). z @ '': '' @ int_str n) hs)))"

definition kernel_thp :: "sys_env \<Rightarrow> sysrep \<Rightarrow> string option res" where
  "kernel_thp e r =
     bindr (kernel_config_enabled r ''CONFIG_TRANSPARENT_HUGEPAGE'') (\<lambda>b. if \<not> b then Inr None
       else bindr (file_data e [''sys'', ''kernel'', ''mm'', ''transparent_hugepage'', ''enabled'']) (\<lambda>hps. Inr (case hps of
           None \<Rightarrow> None
         | Some s \<Rightarrow> (case filter (\<lambda>h. prefix ''['' h) (split_words s) of [] \<Rightarrow> None | h # _ \<Rightarrow> Some (butlast (drop 1 h))))))"

definition kernel_supports_bpf :: "sysrep \<Rightarrow> bool res" where
  "kernel_supports_bpf r = kernel_config_enabled r ''CONFIG_BPF''"

definition bpftool_installed :: "sys_env \<Rightarrow> string option res" where
  "bpftool_installed e =
     (if \<not> path_exists (se_files e) [''usr'', ''sbin'', ''bpftool''] then Inr None
      else case run_cmd e ''/usr/sbin/bpftool -V'' of
        Inl x \<Rightarrow> if caught [OSError, SubprocessError] x then Inr None else Inl x
      | Inr (out, err) \<Rightarrow> Inr (if prefix ''WARNING: bpftool not found'' err then None
          else Some (map (\<lambda>c. if c = CHR 0x0A then CHR '' '' else c) out)))"

definition bpftrace_installed :: "sys_env \<Rightarrow> string option res" where
  "bpftrace_installed e =
     (if \<not> path_exists (se_files e) [''usr'', ''bin'', ''bpftrace''] then Inr None
      else case run_cmd e ''/usr/bin/bpftrace -V'' of
        Inl x \<Rightarrow> if caught [OSError, SubprocessError] x then Inr None else Inl x
      | Inr (out, err) \<Rightarrow> Inr (Some out))"

definition root_required :: "sys_env \<Rightarrow> string option \<Rightarrow> string" where
  "root_required e s =
     (case s of Some (c # cs) \<Rightarrow> c # cs | _ \<Rightarrow> if is_superuser e then ''N/A'' else ''root required - run with sudo'')"

section \<open>Advice\<close>

text \<open>Queries are run one after the other on the report.\<close>

type_synonym 'a query = "sysrep \<Rightarrow> ('a \<times> sysrep) res"

definition qbind :: "'a query \<Rightarrow> ('a \<Rightarrow> 'b query) \<Rightarrow> 'b query" where
  "qbind q f r = bindr (q r) (\<lambda>(a, r'). f a r')"

definition qpure :: "'a \<Rightarrow> 'a query" where
  "qpure a r = Inr (a, r)"

definition qlift :: "'a res \<Rightarrow> 'a query" where
  "qlift x r = bindr x (\<lambda>a. Inr (a, r))"

definition qask :: "(sysrep \<Rightarrow> 'a res) \<Rightarrow> 'a query" where
  "qask f r = bindr (f r) (\<lambda>a. Inr (a, r))"

type_synonym advice_list = "(string \<times> string list) list"

definition advice_kernel :: "sys_env \<Rightarrow> advice_list query" where
  "advice_kernel e = qbind (qlift (is_kernel_at_least e (5, 0))) (\<lambda>ok. qpure (if ok then []
     else [(''kernel version '' @ get_kernel_version e @ '' may lack support for new perf features'', [''update kernel''])]))"

definition advice_perf :: "sys_env \<Rightarrow> advice_list query" where
  "advice_perf e = qbind (qlift (perf_installed e)) (\<lambda>installed.
     if \<not> installed then qpure [(''perf tools not installed'',
       [''install perf package (see https://learn.arm.com/install-guides/perf)'', ''or build from kernel sources''])]
     else if \<not> is_arm e then qpure []
     else qbind (qlift (perf_binary_has_opencsd e)) (\<lambda>b. qpure (if b = Some True then []
       else [(''perf tools cannot decode hardware trace'', [''build with CORESIGHT=1''])])))"

definition paranoid_now :: "sys_env \<Rightarrow> int res" where
  "paranoid_now e = bindr (perf_event_paranoid e) (\<lambda>p. case p of
       None \<Rightarrow> Inl (Exc TypeError ''not supported between instances of NoneType and int'')
     | Some n \<Rightarrow> Inr n)"

definition advice_events :: "sys_env \<Rightarrow> advice_list query" where
  "advice_events e = qbind (qlift (paranoid_now e)) (\<lambda>n. qpure (if 0 < n
     then [(''System-level events can only be monitored by privileged users'', [''sysctl kernel.perf_event_paranoid=0''])] else []))"

definition advice_counters :: "sys_env \<Rightarrow> advice_list query" where
  "advice_counters e = qbind (qlift (paranoid_now e)) (\<lambda>n.
     if 3 < n then qpure []
     else qbind (max_counters e) (\<lambda>m.
       if m \<noteq> None \<and> m \<noteq> Some 0 then qpure []
       else qbind (if is_arm e then has_irq e ''PMU'' else qpure True) (\<lambda>pmu. qpure
         [(''Hardware perf events are not available'', if pmu then [] else [''ensure APIC table describes PMU interrupt''])])))"

definition advice_kcore :: "sys_env \<Rightarrow> advice_list query" where
  "advice_kcore e = qpure (if path_exists (se_files e) [''proc'', ''kcore''] then []
     else [(''/proc/kcore not enabled, kernel profiling degraded'', [''rebuild kernel with CONFIG_PROC_KCORE''])])"

definition advice_interconnect :: "sys_env \<Rightarrow> advice_list query" where
  "advice_interconnect e = qbind (qlift (perf_interconnect e)) (\<lambda>p.
     if p = Some True then qpure []
     else qbind (qlift (has_CMN_interconnect e)) (\<lambda>cmn. if \<not> cmn then qpure []
       else qbind (qask (\<lambda>r. get_kernel_config r ''CONFIG_ARM_CMN'')) (\<lambda>ck. qpure
         [(''CMN interconnect perf events not enabled'', if ck = Some ''m'' \<or> ck = Some ''y''
           then [''check boot log for CMN driver problems''] else [''rebuild kernel with CONFIG_ARM_CMN enabled''])])))"

definition spe_corrections :: "sys_env \<Rightarrow> string list query" where
  "spe_corrections e = qbind (is_KPTI_enabled e) (\<lambda>kpti. qbind (has_irq e ''SPE'') (\<lambda>irq.
     qbind (qask (\<lambda>r. get_kernel_config r ''CONFIG_ARM_SPE_PMU'')) (\<lambda>ck.
     qbind (if ck = Some ''m'' then qbind (qlift (has_loadable_kernel_module e ''arm_spe_pmu.ko'')) (\<lambda>m. qpure (m = None)) else qpure False) (\<lambda>missing.
     qpure ((if kpti = Some True then [''disable kernel page-table isolation: boot with kpti=off''] else []) @
       (if irq then [] else [''ensure APIC table describes SPE interrupt'']) @
       (if ck = Some ''n'' then [''ensure kernel is built with SPE support (CONFIG_ARM_SPE_PMU)'']
        else if missing then [''kernel module arm_spe_pmu.ko must be built''] else []))))))"

definition advice_spe :: "sys_env \<Rightarrow> advice_list query" where
  "advice_spe e =
     (if \<not> is_arm e then qpure []
      else qbind (qask cpu_has_SPE) (\<lambda>spe. if spe = 0 then qpure []
        else qbind (if perf_noninvasive_sampling e \<noteq> None then qpure []
            else qbind (spe_corrections e) (\<lambda>corrs. qpure [(''non-invasive sampling (SPE) not enabled'', corrs)])) (\<lambda>a.
          if spe \<noteq> -1 then qpure a
          else qask (\<lambda>r. case cpu_types r of
              [] \<Rightarrow> Inl (Exc RuntimeError ''StopIteration'')
            | ct # _ \<Rightarrow> Inr (a @ [(''SPE sampling on '' @ str_full ct @ '' is biased (hardware erratum)'', [''allow for bias''])])))))"

definition trace_corrections :: "sys_env \<Rightarrow> string list query" where
  "trace_corrections e = qbind (qask (\<lambda>r. kernel_config_enabled r ''CONFIG_CORESIGHT'')) (\<lambda>coresight.
     qbind (qask (\<lambda>r. Inr (is_arm_architecture e r 9 0))) (\<lambda>v9.
     qbind (qlift (boot_info_type e)) (\<lambda>boot.
     qbind (if v9 \<and> boot = Some ''ACPI'' then has_irq e ''TRBE'' else qpure True) (\<lambda>trbe.
     qpure ((if coresight then [] else [''rebuild kernel with CONFIG_CORESIGHT'']) @
       (if v9 then (if trbe then [] else [''ensure APIC table describes TRBE interrupt''])
        else if boot = Some ''ACPI'' then [''ensure ACPI describes CoreSight trace fabric''] else []))))))"

definition advice_trace :: "sys_env \<Rightarrow> advice_list query" where
  "advice_trace e =
     (if \<not> is_arm e then qpure []
      else qbind (qask (perf_hardware_trace e)) (\<lambda>t. if t \<noteq> None then qpure []
        else qbind (trace_corrections e) (\<lambda>corrs. qpure [(''hardware trace not enabled'', corrs)])))"

fun all_advice :: "advice_list query list \<Rightarrow> advice_list query" where
  "all_advice [] = qpure []"
| "all_advice (q # qs) = qbind q (\<lambda>a. qbind (all_advice qs) (\<lambda>b. qpure (a @ b)))"

definition advice :: "sys_env \<Rightarrow> advice_list query" where
  "advice e = all_advice [advice_kernel e, advice_perf e, advice_events e, advice_counters e, advice_kcore e,
     advice_interconnect e, advice_spe e, advice_trace e]"

section \<open>What a report keeps is true\<close>

definition irqs_now :: "sys_env \<Rightarrow> (string, nat) dict res" where
  "irqs_now e = bindr (acpi_irqs e) (\<lambda>a. Inr (case a of None \<Rightarrow> [] | Some d \<Rightarrow> d))"

definition vulnerabilities_now :: "sys_env \<Rightarrow> (string, string option) dict res" where
  "vulnerabilities_now e = (if is_dir (se_files e) vulnerabilities_dir
     then read_vulnerabilities e vulnerabilities_dir (listdir (se_files e) vulnerabilities_dir) [] else Inr [])"

definition honest :: "sys_env \<Rightarrow> sysrep \<Rightarrow> bool" where
  "honest e r \<longleftrightarrow> (case sy_irqs r of None \<Rightarrow> True | Some d \<Rightarrow> irqs_now e = Inr d) \<and>
     (case sy_vulnerabilities r of None \<Rightarrow> True | Some d \<Rightarrow> vulnerabilities_now e = Inr d) \<and>
     (case sy_max_counters r of None \<Rightarrow> True | Some n \<Rightarrow> perf_max_counters e = Inr (Some n))"

definition forget :: "sysrep \<Rightarrow> sysrep" where
  "forget r = r\<lparr>sy_vulnerabilities := None, sy_irqs := None, sy_max_counters := None\<rparr>"

text \<open>The answer of a query is a function of what is not kept, and the report stays the same but for that.\<close>

definition determined :: "sys_env \<Rightarrow> 'a query \<Rightarrow> (sysrep \<Rightarrow> 'a res) \<Rightarrow> bool" where
  "determined e q f \<longleftrightarrow> (\<forall>r. honest e r \<longrightarrow> (case f (forget r) of
       Inl x \<Rightarrow> q r = Inl x
     | Inr a \<Rightarrow> (\<exists>r'. q r = Inr (a, r') \<and> honest e r' \<and> forget r' = forget r)))"

named_theorems repeatable

definition repeatable :: "sys_env \<Rightarrow> 'a query \<Rightarrow> bool" where
  "repeatable e q \<longleftrightarrow> (\<exists>f. determined e q f)"

lemma forget_simps [simp]:
  "forget (forget r) = forget r" "sy_topology (forget r) = sy_topology r" "sy_arm_arch (forget r) = sy_arm_arch r"
  "sy_kernel_config (forget r) = sy_kernel_config r" "honest e (forget r)"
  by (simp_all add: forget_def honest_def)

lemma repeatable_pure [repeatable]: "repeatable e (qpure a)"
  unfolding repeatable_def determined_def by (rule exI [of _ "\<lambda>_. Inr a"]) (simp add: qpure_def)

lemma repeatable_lift [repeatable]: "repeatable e (qlift x)"
  unfolding repeatable_def determined_def by (rule exI [of _ "\<lambda>_. x"]) (simp add: qlift_def split: sum.splits)

lemma repeatable_ask:
  assumes "\<And>r. f (forget r) = f r"
  shows "repeatable e (qask f)"
  unfolding repeatable_def determined_def by (rule exI [of _ f]) (simp add: assms qask_def split: sum.splits)

lemma repeatable_bind [repeatable]:
  assumes "repeatable e q" "\<And>a. repeatable e (g a)"
  shows "repeatable e (qbind q g)"
proof -
  obtain f h where f: "determined e q f" and h: "\<And>a. determined e (g a) (h a)"
    using assms unfolding repeatable_def by metis
  have "determined e (qbind q g) (\<lambda>r. bindr (f r) (\<lambda>a. h a r))"
    unfolding determined_def
  proof (intro allI impI)
    fix r assume r: "honest e r"
    show "case bindr (f (forget r)) (\<lambda>a. h a (forget r)) of
        Inl x \<Rightarrow> qbind q g r = Inl x
      | Inr b \<Rightarrow> \<exists>r'. qbind q g r = Inr (b, r') \<and> honest e r' \<and> forget r' = forget r"
    proof (cases "f (forget r)")
      case (Inl x)
      then show ?thesis using f r by (auto simp: determined_def qbind_def)
    next
      case (Inr a)
      then obtain r1 where r1: "q r = Inr (a, r1)" "honest e r1" "forget r1 = forget r" using f r by (force simp: determined_def)
      show ?thesis using h [of a, unfolded determined_def, rule_format, OF r1(2)] Inr
        by (auto simp: qbind_def r1 split: sum.splits)
    qed
  qed
  then show ?thesis unfolding repeatable_def by blast
qed

lemma repeatable_if [repeatable]: "repeatable e q \<Longrightarrow> repeatable e p \<Longrightarrow> repeatable e (if b then q else p)"
  by simp

lemma repeatable_irqs [repeatable]: "repeatable e (irqs e)"
  unfolding repeatable_def determined_def
  by (rule exI [of _ "\<lambda>_. irqs_now e"])
    (auto simp: irqs_def irqs_now_def honest_def forget_def Let_def bindr_def split: sum.splits option.splits)

lemma repeatable_has_irq [repeatable]: "repeatable e (has_irq e s)"
proof -
  have "has_irq e s = qbind (irqs e) (\<lambda>d. qpure (s \<in> set (dkeys d)))" by (rule ext) (simp add: has_irq_def qbind_def qpure_def)
  then show ?thesis by (simp add: repeatable)
qed

lemma repeatable_KPTI [repeatable]: "repeatable e (is_KPTI_enabled e)"
proof -
  have "repeatable e (vulnerabilities e)"
    unfolding repeatable_def determined_def
    by (rule exI [of _ "\<lambda>_. vulnerabilities_now e"])
      (auto simp: vulnerabilities_def vulnerabilities_now_def honest_def forget_def bindr_def split: sum.splits option.splits if_splits)
  moreover have "is_KPTI_enabled e = qbind (vulnerabilities e) (\<lambda>d. qpure (kpti_of (map snd d)))"
    by (rule ext) (simp add: is_KPTI_enabled_def qbind_def qpure_def)
  ultimately show ?thesis by (simp add: repeatable)
qed

lemma repeatable_counters [repeatable]: "repeatable e (max_counters e)"
  unfolding repeatable_def determined_def
  by (rule exI [of _ "\<lambda>_. perf_max_counters e"])
    (auto simp: max_counters_def honest_def forget_def bindr_def split: sum.splits option.splits)

lemma asks_repeatable [repeatable]:
  "repeatable e (qask (\<lambda>r. get_kernel_config r var))" "repeatable e (qask (\<lambda>r. kernel_config_enabled r var))" "repeatable e (qask cpu_has_SPE)"
  "repeatable e (qask (perf_hardware_trace e'))" "repeatable e (qask (\<lambda>r. Inr (is_arm_architecture e' r ma mi)))"
  by (rule repeatable_ask; simp add: get_kernel_config_def kernel_config_enabled_def cpu_has_SPE_def cpu_types_def
    perf_hardware_trace_def is_arm_architecture_def)+

lemma repeatable_bias [repeatable]: "repeatable e (qask (\<lambda>r. case cpu_types r of [] \<Rightarrow> Inl x | ct # cts \<Rightarrow> Inr (g ct)))"
  by (rule repeatable_ask) (simp add: cpu_types_def)

lemma repeatable_advice: "repeatable e (advice e)"
  unfolding advice_def all_advice.simps advice_kernel_def advice_perf_def advice_events_def advice_counters_def advice_kcore_def
    advice_interconnect_def advice_spe_def advice_trace_def spe_corrections_def trace_corrections_def
  by (intro repeatable)

lemma repeatable_forget:
  assumes "repeatable e q" "honest e r"
  shows "map_sum id fst (q r) = map_sum id fst (q (forget r))"
    "q r = Inr (a, r') \<Longrightarrow> honest e r' \<and> forget r' = forget r"
proof -
  obtain f where f: "determined e q f" using assms(1) unfolding repeatable_def by blast
  have "map_sum id fst (q s) = f (forget s)" if "honest e s" for s
    using f [unfolded determined_def, rule_format, OF that] by (auto split: sum.splits)
  from this [OF assms(2)] this [of "forget r"] show "map_sum id fst (q r) = map_sum id fst (q (forget r))" by simp
  show "honest e r' \<and> forget r' = forget r" if "q r = Inr (a, r')"
    using f [unfolded determined_def, rule_format, OF assms(2)] that by (auto split: sum.splits)
qed

text \<open>
  C37.  What a report has kept of earlier queries never shows: the advice is that of a report that has
  kept nothing, and what the advice makes the report keep is again true of the machine, so that a second
  advice is the same.
\<close>

theorem advice_is_repeatable:
  assumes "honest e r" "advice e r = Inr (a, r')"
  shows "honest e r' \<and> (\<exists>r''. advice e (forget r) = Inr (a, r'')) \<and> (\<exists>r''. advice e r' = Inr (a, r''))"
proof -
  have "honest e r'" "forget r' = forget r" using repeatable_forget(2) [OF repeatable_advice assms] by auto
  moreover from this have "map_sum id fst (advice e r') = map_sum id fst (advice e r)"
    using repeatable_forget(1) [OF repeatable_advice] assms(1) by metis
  moreover have "\<exists>r''. advice e s = Inr (a, r'')" if "map_sum id fst (advice e s) = map_sum id fst (advice e r)" for s
    using that assms(2) by (cases "advice e s") auto
  ultimately show ?thesis using repeatable_forget(1) [OF repeatable_advice assms(1)] by metis
qed

section \<open>Lemmas on the queries\<close>

text \<open>
  A cache that is asked for by level and kind is the only one of the processor of that level and
  kind; there is none exactly when no cache of the processor matches.
\<close>

theorem cpu_cache_is_unique:
  assumes "cpu_cache s n level t = Inr r" "cpu_caches s n = Inr cs"
  shows "filter (\<lambda>(k, c). hc_level c = level \<and> cache_contains t c) cs = [] \<and> r = None \<or>
    (\<exists>k c. filter (\<lambda>(k, c). hc_level c = level \<and> cache_contains t c) cs = [(k, c)] \<and> r = Some k)"
proof -
  have "if found = None then (filter (\<lambda>(k, c). hc_level c = level \<and> cache_contains t c) cs = [] \<and> r = None \<or>
      (\<exists>k c. filter (\<lambda>(k, c). hc_level c = level \<and> cache_contains t c) cs = [(k, c)] \<and> r = Some k))
    else filter (\<lambda>(k, c). hc_level c = level \<and> cache_contains t c) cs = [] \<and> r = found"
    if "find_cache level t cs found = Inr r" for found
    using that
  proof (induction cs arbitrary: found)
    case (Cons kc cs)
    obtain k c where kc: "kc = (k, c)" by fastforce
    show ?case
    proof (cases "hc_level c = level \<and> cache_contains t c")
      case True
      then have "found = None" "find_cache level t cs (Some k) = Inr r"
        using Cons.prems kc by (auto simp: bindr_Inr_iff contains_type_def split: if_splits)
      with Cons.IH [of "Some k"] True kc show ?thesis by (cases k) simp
    next
      case False
      then have "find_cache level t cs found = Inr r"
        using Cons.prems kc by (auto simp: bindr_Inr_iff contains_type_def split: if_splits)
      with Cons.IH [of found] False kc show ?thesis by (auto split: if_splits)
    qed
  qed simp
  from this [of None] show ?thesis using assms by (simp add: cpu_cache_def split: if_splits)
qed

lemma unified_not_found:
  "cpu_caches s n = Inr ((k, c) # cs) \<Longrightarrow> hc_level c = level \<Longrightarrow>
    cpu_cache s n level CHR ''U'' = Inl (Exc ValueError (''cache_type must be I or D, given U''))"
  by (simp add: cpu_cache_def contains_type_def)

lemma kpti_order: "kpti_of [Some ''Mitigation: PTI'', None] = Some True" "kpti_of [None, Some ''Mitigation: PTI''] = None"
  by simp_all

text \<open>
  The interconnect is described by its type, when all parts have the same type, and by the
  number of its parts; without a part the number is one.
\<close>

theorem interconnect_is_counted:
  "interconnect_of areas =
    (case List.map_filter cmn_type areas of
       [] \<Rightarrow> (None, 1)
     | t # ts \<Rightarrow> (Some (if list_all ((=) t) ts then t else ''<mixed?>''), Suc (length ts)))"
proof -
  have c: "cmn_type a \<noteq> Some ''<mixed?>''" for a by (simp add: cmn_type_def Let_def)
  have s: "fold interconnect_step as (Some (if b then t else ''<mixed?>''), n) =
      (Some (if b \<and> list_all ((=) t) (List.map_filter cmn_type as) then t else ''<mixed?>''), n + length (List.map_filter cmn_type as))"
    if "t \<noteq> ''<mixed?>''" for b t n as
  proof (induction as arbitrary: b n)
    case (Cons a as)
    show ?case
    proof (cases "cmn_type a")
      case None
      with Cons show ?thesis by (simp add: interconnect_step_def List.map_filter_simps)
    next
      case (Some u)
      then have u: "u \<noteq> ''<mixed?>''" using c by blast
      have "interconnect_step a (Some (if b then t else ''<mixed?>''), n) = (Some (if b \<and> t = u then t else ''<mixed?>''), Suc n)"
        using Some u by (auto simp: interconnect_step_def)
      then show ?thesis using Cons [of "b \<and> t = u" "Suc n"] Some by (simp add: List.map_filter_simps conj_assoc)
    qed
  qed (simp add: List.map_filter_simps)
  show ?thesis
    unfolding interconnect_of_def
  proof (induction areas)
    case (Cons a as)
    show ?case
    proof (cases "cmn_type a")
      case None
      with Cons show ?thesis by (simp add: interconnect_step_def List.map_filter_simps)
    next
      case (Some t)
      then have "t \<noteq> ''<mixed?>''" using c by blast
      moreover have "interconnect_step a (None, 1) = (Some t, 1)" using Some by (simp add: interconnect_step_def)
      ultimately show ?thesis using s [of t as True 1] Some by (simp add: List.map_filter_simps)
    qed
  qed (simp add: List.map_filter_simps)
qed

lemma mixed_interconnect_unseen:
  "interconnect_of [''ARMHC600:00'', ''ARMHC700:00''] = (Some ''<mixed?>'', 2) \<and> \<not> prefix ''CMN-'' ''<mixed?>''"
  by code_simp

text \<open>
  The number of counters is that of the largest group that can be counted: all groups up to it
  are accepted, the next one is not, and it is at most 29.
\<close>

theorem max_counters_is_largest_group:
  assumes "perf_max_counters e = Inr (Some n)"
  shows "n \<le> 29 \<and> (\<exists>out err. run_cmd e (counters_cmd (Suc n)) = Inr (out, err) \<and> prefix ''<not'' err) \<and>
    (\<forall>i\<in>{1..n}. \<exists>out err. run_cmd e (counters_cmd i) = Inr (out, err) \<and> \<not> prefix ''<not'' err)"
proof -
  have "Suc n < b \<and> a \<le> Suc n \<and> (\<exists>out err. run_cmd e (counters_cmd (Suc n)) = Inr (out, err) \<and> prefix ''<not'' err) \<and>
      (\<forall>i\<in>{a..n}. \<exists>out err. run_cmd e (counters_cmd i) = Inr (out, err) \<and> \<not> prefix ''<not'' err)"
    if "try_groups e [a..<b] = Inr (Some n)" "0 < a" for a b
    using that
  proof (induction "b - a" arbitrary: a)
    case (Suc m)
    then have u: "[a..<b] = a # [Suc a..<b]" by (simp add: upt_conv_Cons)
    then obtain out err where r: "run_cmd e (counters_cmd a) = Inr (out, err)"
      using Suc.prems by (auto split: sum.splits if_splits)
    show ?case
    proof (cases "prefix ''<not'' err")
      case True
      then have n: "n = a - 1" using Suc.prems r u by simp
      then have "Suc n = a" "{a..n} = {}" using Suc.prems(2) by auto
      then show ?thesis using True r Suc.hyps(2) by auto
    next
      case False
      then have "try_groups e [Suc a..<b] = Inr (Some n)" using Suc.prems r u by simp
      from Suc.hyps(1) [OF _ this] Suc.hyps(2) have ih: "Suc n < b" "Suc a \<le> Suc n"
        "\<exists>out err. run_cmd e (counters_cmd (Suc n)) = Inr (out, err) \<and> prefix ''<not'' err"
        "\<forall>i\<in>{Suc a..n}. \<exists>out err. run_cmd e (counters_cmd i) = Inr (out, err) \<and> \<not> prefix ''<not'' err" by auto
      moreover have "{a..n} = insert a {Suc a..n}" using ih(2) by auto
      ultimately show ?thesis using r False by auto
    qed
  qed simp
  moreover have "try_groups e [1..<31] = Inr (Some n)" using assms by (auto simp: perf_max_counters_def bindr_Inr_iff simp del: upt_rec_numeral split: if_splits)
  ultimately show ?thesis by fastforce
qed

text \<open>
  The version of a kernel is read from its release, whatever follows the first two numbers.
\<close>

theorem kernel_version_is_read:
  assumes "se_release e = nat_str ma @ CHR ''.'' # nat_str mi @ rest" "rest = [] \<or> hd rest \<in> {CHR ''.'', CHR ''-''}"
  shows "get_kernel_maj_min e = Inr (int ma, int mi)"
proof -
  have d: "CHR ''.'' \<notin> set (nat_str k)" "CHR ''-'' \<notin> set (nat_str k)" for k
    by (auto dest!: nat_str_digits [THEN bspec] simp: is_digit_def)
  have t: "takeWhile (\<lambda>c. c \<noteq> CHR ''-'') (nat_str k @ xs) = nat_str k @ takeWhile (\<lambda>c. c \<noteq> CHR ''-'') xs" for k xs
    by (rule takeWhile_append2) (use d in auto)
  have v: "get_kernel_version e = nat_str ma @ CHR ''.'' # nat_str mi @ takeWhile (\<lambda>c. c \<noteq> CHR ''-'') rest"
    by (simp add: get_kernel_version_def assms(1) t)
  have "\<exists>vs. split_on CHR ''.'' (get_kernel_version e) = nat_str ma # nat_str mi # vs"
  proof (cases "rest = [] \<or> hd rest = CHR ''-''")
    case True
    then have "takeWhile (\<lambda>c. c \<noteq> CHR ''-'') rest = []" by (cases rest) auto
    then show ?thesis using d by (simp add: v split_on_append split_on_nosep)
  next
    case False
    then obtain r where "rest = CHR ''.'' # r" using assms(2) by (cases rest) auto
    then show ?thesis using d by (simp add: v split_on_append)
  qed
  then show ?thesis by (auto simp: get_kernel_maj_min_def)
qed

section \<open>Concrete reports\<close>

definition demo_spec :: cpu_spec where
  "demo_spec = \<lparr>cs_implementer = ''Arm'', cs_implementer_code = Some 0x41, cs_model_name = ''Neoverse N1'', cs_model_code = 0xD0C,
     cs_model_sku = None, cs_stepping = VariantRevision 3 1, cs_features = [''fp''], cs_arch = ''aarch64''\<rparr>"

definition demo_report :: sysrep where
  "demo_report = \<lparr>sy_topology = new_topology\<lparr>tp_specs := [(demo_spec, [0])]\<rparr>, sy_arm_arch = Some (8, 2), sy_kernel_config = None,
     sy_vulnerabilities = None, sy_irqs = Some [], sy_max_counters = None\<rparr>"

definition report_files :: "string fs" where
  "report_files = [([''proc'', ''sys'', ''kernel'', ''perf_event_paranoid''], File ''2''), ([''proc'', ''kcore''], File []),
     ([''proc'', ''iomem''], File ''00000000-ffffffff : ARMHC700:00'')]"

lemma demo_advice: "(case advice (demo_sys_env report_files) demo_report of Inl x \<Rightarrow> False | Inr (a, r) \<Rightarrow>
    map fst a = [''perf tools not installed'', ''System-level events can only be monitored by privileged users'',
      ''Hardware perf events are not available'', ''CMN interconnect perf events not enabled'', ''non-invasive sampling (SPE) not enabled'',
      ''SPE sampling on Arm Neoverse N1 r3p1 is biased (hardware erratum)'', ''hardware trace not enabled''] \<and>
    sy_vulnerabilities r = Some [])"
  by code_simp

theorem advice_is_repeatable_witness:
  "\<exists>a r' r''. advice (demo_sys_env report_files) demo_report = Inr (a, r') \<and> sy_vulnerabilities r' = Some [] \<and>
    length a = 7 \<and> honest (demo_sys_env report_files) r' \<and> advice (demo_sys_env report_files) r' = Inr (a, r'')"
proof -
  let ?e = "demo_sys_env report_files"
  obtain a r' where a: "advice ?e demo_report = Inr (a, r')" and v: "sy_vulnerabilities r' = Some []" and l: "length (map fst a) = 7"
    using demo_advice by (cases "advice ?e demo_report") (auto simp del: length_map)
  have "irqs_now ?e = Inr []" by code_simp
  then have "honest ?e demo_report" by (simp add: honest_def demo_report_def)
  from advice_is_repeatable [OF this a] a v l show ?thesis by auto
qed

definition demo_caches :: "(cache_key, hw_cache) dict" where
  "demo_caches = map (\<lambda>(m, l, t, cs). ((m, l, t), \<lparr>hc_size = None, hc_line_size = None, hc_ways = None, hc_sets = None, hc_type = t,
      hc_write_policy = None, hc_level = l, hc_cpus = cs, hc_parent = None\<rparr>))
    [(1, 1, CHR ''D'', [0]), (1, 1, CHR ''I'', [0]), (3, 2, CHR ''U'', [0, 1])]"

theorem cpu_cache_is_unique_witness:
  "cpu_cache (new_topology\<lparr>tp_caches := demo_caches\<rparr>) 0 1 CHR ''D'' = Inr (Some (1, 1, CHR ''D'')) \<and>
    (\<exists>cs k c. cpu_caches (new_topology\<lparr>tp_caches := demo_caches\<rparr>) 0 = Inr cs \<and>
      filter (\<lambda>(k, c). hc_level c = 1 \<and> cache_contains CHR ''D'' c) cs = [(k, c)] \<and> k = (1, 1, CHR ''D''))"
proof -
  let ?s = "new_topology\<lparr>tp_caches := demo_caches\<rparr>"
  have r: "cpu_cache ?s 0 1 CHR ''D'' = Inr (Some (1, 1, CHR ''D''))" by code_simp
  then obtain cs where cs: "cpu_caches ?s 0 = Inr cs" by (cases "cpu_caches ?s 0") (simp_all add: cpu_cache_def)
  from cpu_cache_is_unique [OF r cs] r cs show ?thesis by auto
qed

definition perf_env :: sys_env where
  "perf_env = demo_sys_env [([''usr'', ''bin'', ''perf''], File ''ELF'')]
     \<lparr>se_run := (\<lambda>args. if hd args = ''which'' then Inr (''/usr/bin/perf'', [])
        else if length (args ! 4) < 100 then Inr ([], ''1234,,instructions:u'') else Inr ([], ''<not counted>,,instructions:u'')),
      se_status := (\<lambda>_. Inr 0)\<rparr>"

theorem max_counters_is_largest_group_witness:
  "perf_max_counters perf_env = Inr (Some 6) \<and>
    (\<exists>out err. run_cmd perf_env (counters_cmd 7) = Inr (out, err) \<and> prefix ''<not'' err) \<and>
    (\<exists>out err. run_cmd perf_env (counters_cmd 6) = Inr (out, err) \<and> \<not> prefix ''<not'' err)"
proof -
  have n: "perf_max_counters perf_env = Inr (Some 6)" by code_simp
  from max_counters_is_largest_group [OF n] n show ?thesis by (simp add: numeral_eq_Suc)
qed

theorem kernel_version_is_read_witness:
  "get_kernel_maj_min (demo_sys_env []) = Inr (6, 8)"
proof -
  have "nat_str 6 = ''6''" "nat_str 8 = ''8''" by code_simp+
  then have "se_release (demo_sys_env []) = nat_str 6 @ CHR ''.'' # nat_str 8 @ ''.0-45''" by (simp add: demo_sys_env_def)
  from kernel_version_is_read [OF this] show ?thesis by simp
qed

end
