(* ===== verification/System_Info.thy ===== *)
theory System_Info
  imports System_Report Resume Sys_Diff
begin

text \<open>
  The recipe \<open>system-info\<close>, from \<open>src/core/recipes/impl/system_info.py\<close>: what it collects from the
  report of the system and from the DMI table, its saved form, its restoring and its normalisation
  for comparisons; and the choices of processors that all benchmarks make from it
  (\<open>src/core/recipes/recipe_benchmark_base.py\<close>).  The reader of the DMI table is the bundled
  cmn-tools' and a parameter.  A value that is written as JSON becomes a list where it was a tuple and
  a text where it was a number that is a key; the two fields that this concerns have types of their own.
\<close>

section \<open>Nodes and processors\<close>

type_synonym numa_nodes = "(int, int \<times> int list) dict"

definition cpu_list_per_numa_node :: "numa_nodes \<Rightarrow> (int, int list) dict" where
  "cpu_list_per_numa_node nodes = map (\<lambda>(n, _, cpus). (n, cpus)) (filter (\<lambda>(n, _, cpus). cpus \<noteq> []) nodes)"

definition n_cpus_per_numa_node :: "numa_nodes \<Rightarrow> (int, nat) dict" where
  "n_cpus_per_numa_node nodes = map (\<lambda>(n, cpus). (n, length cpus)) (cpu_list_per_numa_node nodes)"

definition last_cpus_per_numa_node :: "numa_nodes \<Rightarrow> (int, int) dict" where
  "last_cpus_per_numa_node nodes =
     map (\<lambda>(n, cpus). (n, Max (set cpus))) (filter (\<lambda>(n, cpus). cpus \<noteq> []) (cpu_list_per_numa_node nodes))"

definition cpus_to_numa_node_map :: "numa_nodes \<Rightarrow> (int, int) dict" where
  "cpus_to_numa_node_map nodes = fold (\<lambda>(n, _, cpus) d. fold (\<lambda>c d. dset c n d) (sort cpus) d) nodes []"

text \<open>The accessors of a benchmark.\<close>

definition cpu_list :: "numa_nodes \<Rightarrow> int list" where
  "cpu_list nodes = (let per = cpu_list_per_numa_node nodes in concat (map (\<lambda>n. dget per n []) (sort (dkeys per))))"

definition num_numa_nodes :: "numa_nodes \<Rightarrow> nat" where
  "num_numa_nodes nodes = length (cpu_list_per_numa_node nodes)"

definition single_core_cpu_choice :: "numa_nodes \<Rightarrow> string list res" where
  "single_core_cpu_choice nodes =
     (let ls = last_cpus_per_numa_node nodes
      in if ls = [] then Inl (Exc ValueError ''min() arg is an empty sequence'')
         else Inr [int_str (dget ls (Min (set (dkeys ls))) 0)])"

definition get_numa_node_for_cpu :: "numa_nodes \<Rightarrow> int \<Rightarrow> int option" where
  "get_numa_node_for_cpu nodes c = map_of (cpus_to_numa_node_map nodes) c"

definition default_numa_node :: "numa_nodes \<Rightarrow> int option res" where
  "default_numa_node nodes = bindr (single_core_cpu_choice nodes) (\<lambda>cs.
     bindr (int_of_str (hd cs)) (\<lambda>c. Inr (get_numa_node_for_cpu nodes c)))"

section \<open>Memory\<close>

text \<open>A device of the DMI table, as \<open>memory()\<close> yields it; an unknown speed is none.\<close>

record mem_device =
  md_speed :: "int option"
  md_width :: int
  md_type :: string
  md_mfr :: "string option"
  md_part :: "string option"

record mem_properties =
  mp_speed :: "int option"
  mp_channels :: "nat option"
  mp_width :: "int option"
  mp_type :: "string option"
  mp_mfr :: "string option"
  mp_part :: "string option"

definition no_memory :: mem_properties where
  "no_memory = \<lparr>mp_speed = None, mp_channels = None, mp_width = None, mp_type = None, mp_mfr = None, mp_part = None\<rparr>"

definition add_device :: "mem_device \<Rightarrow> mem_properties \<Rightarrow> mem_properties" where
  "add_device d m = \<lparr>mp_speed = md_speed d, mp_channels = Some (case mp_channels m of None \<Rightarrow> 1 | Some n \<Rightarrow> Suc n),
     mp_width = Some (md_width d), mp_type = Some (md_type d), mp_mfr = md_mfr d, mp_part = md_part d\<rparr>"

definition memory_properties :: "mem_device list \<Rightarrow> mem_properties" where
  "memory_properties ds = fold add_device ds no_memory"

definition total_bandwidth :: "mem_properties \<Rightarrow> int option res" where
  "total_bandwidth m =
     (case mp_width m of
        None \<Rightarrow> Inr None
      | Some w \<Rightarrow> (case (mp_channels m, mp_speed m) of
            (Some n, Some s) \<Rightarrow> Inr (Some (w div 8 * int n * (s * 1000000)))
          | _ \<Rightarrow> Inl (Exc TypeError ''unsupported operand type for NoneType'')))"

text \<open>What the DMI table gives: the system's structure, the BIOS's and the memory's.\<close>

record dmi_table =
  dt_system :: "(string option list) option"
  dt_bios :: "(string option list) option"
  dt_memory :: "mem_device list"

definition dmi_definitions :: "dmi_table res \<Rightarrow> dmi_table option res" where
  "dmi_definitions d =
     (case d of
        Inr t \<Rightarrow> Inr (Some t)
      | Inl e \<Rightarrow> if caught [PermissionError, FileNotFoundError, OSError, RuntimeError, ValueError, TypeError] e then Inr None else Inl e)"

section \<open>The collected data\<close>

datatype seq_value = PyTuple "pv list" | PyOther pv

datatype nodes_value = Nodes "(int, pv list) dict" | OtherNodes pv

definition HW_FIELDS :: "string list" where
  "HW_FIELDS = [''arch'', ''n_cpus'', ''cpu_type'', ''cpu_features'', ''cache_info'', ''cache_line_size'', ''cache_size_dict'',
     ''caches'', ''atomics'', ''interconnect'', ''n_numa_nodes'', ''numa_nodes'', ''numa_kern_cfg'', ''sockets'']"

definition REPORT_FIELDS :: "string list" where
  "REPORT_FIELDS = [''collected_time'', ''asct_ver'', ''run_as_root'']"

definition SYS_INFO_FIELDS :: "string list" where
  "SYS_INFO_FIELDS = [''manufacturer'', ''product_name'', ''version'', ''serial'', ''uuid'']"

definition BIOS_FIELDS :: "string list" where
  "BIOS_FIELDS = [''vendor'', ''version'', ''release_date'']"

definition MEMORY_FIELDS :: "string list" where
  "MEMORY_FIELDS = [''total_size'', ''n_channels'', ''type_str'', ''manufacturer'', ''part_number'', ''speed'', ''data_width'',
     ''peak_theoretical_bw'']"

definition KERN_CFG_FIELDS :: "string list" where
  "KERN_CFG_FIELDS = [''ver'', ''cfg_file'', ''build_dir'', ''uses_atomics'', ''huge_pages'', ''thp'', ''mpam'', ''resctrl'', ''distro'',
     ''libc_ver'', ''boot_info'', ''kpti'', ''lockdown'', ''mitigations'']"

definition BPF_FIELDS :: "string list" where
  "BPF_FIELDS = [''bpf'', ''bpf_tool'', ''bpf_tool_ver'', ''bpftrace'']"

definition PERF_FIELDS :: "string list" where
  "PERF_FIELDS = [''has_tools'', ''perf_dir'', ''perf_opencsd'', ''n_counters'', ''perf_sampling'', ''perf_hw_trace'', ''paranoid'',
     ''kptr_restrict'', ''userspace_access'', ''interconnect'', ''kcore'', ''devmem'', ''bpf'']"

text \<open>The hardware; the two fields with their own types are apart from the others.\<close>

record sys_hw =
  sh_fields :: pdict
  sh_interconnect :: seq_value
  sh_numa_nodes :: nodes_value

record info_object =
  si_report :: pdict
  si_sys_hw :: sys_hw
  si_sys_info :: pdict
  si_bios_info :: pdict
  si_memory :: pdict
  si_kern_cfg :: pdict
  si_perf_feats :: pdict
  si_advice :: pv
  si_vulnerabilities :: pv
  si_kernel_config :: pv
  si_ready :: bool
  si_loaded :: pv

text \<open>A data class from keyword arguments: an unknown name is an error, a missing one is none.\<close>

definition dataclass_of :: "string list \<Rightarrow> pdict \<Rightarrow> pdict res" where
  "dataclass_of names d =
     (if list_all (\<lambda>k. k \<in> set names) (dkeys d) then Inr (map (\<lambda>f. (f, dget d f PNone)) names)
      else Inl (Exc TypeError ''unexpected keyword argument''))"

definition no_fields :: "string list \<Rightarrow> pdict" where
  "no_fields names = map (\<lambda>f. (f, PNone)) names"

definition OTHER_HW_FIELDS :: "string list" where
  "OTHER_HW_FIELDS = filter (\<lambda>f. f \<notin> set [''interconnect'', ''numa_nodes'']) HW_FIELDS"

definition new_info_object :: info_object where
  "new_info_object = \<lparr>si_report = no_fields REPORT_FIELDS,
     si_sys_hw = \<lparr>sh_fields = no_fields OTHER_HW_FIELDS, sh_interconnect = PyOther PNone, sh_numa_nodes = OtherNodes PNone\<rparr>,
     si_sys_info = no_fields SYS_INFO_FIELDS, si_bios_info = no_fields BIOS_FIELDS, si_memory = no_fields MEMORY_FIELDS,
     si_kern_cfg = no_fields KERN_CFG_FIELDS, si_perf_feats = no_fields (butlast PERF_FIELDS) @ [(''bpf'', PDict (no_fields BPF_FIELDS))],
     si_advice = PNone, si_vulnerabilities = PNone, si_kernel_config = PNone, si_ready = False, si_loaded = PNone\<rparr>"

definition opt_pv :: "('a \<Rightarrow> pv) \<Rightarrow> 'a option \<Rightarrow> pv" where
  "opt_pv f x = (case x of None \<Rightarrow> PNone | Some a \<Rightarrow> f a)"

definition info_path_text :: "path \<Rightarrow> string" where
  "info_path_text p = CHR ''/'' # join ''/'' p"

text \<open>The fields of a part are asked for in turn.\<close>

fun collect :: "(string \<times> pv query) list \<Rightarrow> pdict query" where
  "collect [] = qpure []"
| "collect ((k, q) # fs) = qbind q (\<lambda>v. qbind (collect fs) (\<lambda>d. qpure ((k, v) # d)))"

definition qmap :: "('a \<Rightarrow> 'b) \<Rightarrow> 'a query \<Rightarrow> 'b query" where
  "qmap f q = qbind q (\<lambda>a. qpure (f a))"

definition cpu_type_text :: "sysrep \<Rightarrow> string" where
  "cpu_type_text r = join '', '' (map (\<lambda>(ct, cl). nat_str (length cl) @ '' x '' @ str_full ct) (tp_specs (sy_topology r)))"

definition cache_size_dict :: "sysrep \<Rightarrow> pdict res" where
  "cache_size_dict r = bindr (sorted_caches (sy_topology r)) (\<lambda>cs.
     Inr (fold (\<lambda>(k, c) d. if cache_contains CHR ''D'' c \<and> map_of d (''L'' @ int_str (hc_level c)) = None
         then d @ [(''L'' @ int_str (hc_level c), opt_pv PFloat (hc_size c))] else d) cs []))"

definition hw_queries :: "sys_env \<Rightarrow> float_formats \<Rightarrow> (string \<times> pv query) list" where
  "hw_queries e ff =
     [(''arch'', qask (\<lambda>r. Inr (PStr (architecture e r)))),
      (''n_cpus'', qmap (\<lambda>n. PInt (int n)) (qask (\<lambda>r. get_cpu_count e r True))),
      (''cpu_type'', qask (\<lambda>r. Inr (PStr (cpu_type_text r)))),
      (''cpu_features'', qmap (\<lambda>fs. PList (map PStr fs)) (qask get_cpu_features)),
      (''cache_info'', qpure (opt_pv PStr (cache_info e))),
      (''cache_line_size'', qmap (opt_pv PInt) (qlift (get_cache_line_size e))),
      (''cache_size_dict'', qmap PDict (qask cache_size_dict)),
      (''caches'', qmap (\<lambda>d. PDict (map (\<lambda>(k, n). (k, PInt (int n))) d)) (qask (\<lambda>r. ls_caches ff (sy_topology r)))),
      (''atomics'', qask (\<lambda>r. Inr (PBool (has_atomics e (sy_topology r)))))]"

definition hw_queries2 :: "sys_env \<Rightarrow> (string \<times> pv query) list" where
  "hw_queries2 e =
     [(''n_numa_nodes'', qask (\<lambda>r. Inr (PInt (int (length (tp_numa_nodes (sy_topology r))))))),
      (''numa_kern_cfg'', qmap PBool (qask (\<lambda>r. kernel_config_enabled r ''CONFIG_NUMA''))),
      (''sockets'', qask (\<lambda>r. Inr (PInt (int (length (tp_packages (sy_topology r)))))))]"

definition topology_nodes :: "topology \<Rightarrow> (int, pv list) dict" where
  "topology_nodes t = map (\<lambda>n. (int n, case dget (tp_numa_nodes t) n (0, []) of
       (z, cpus) \<Rightarrow> [PInt z, PList (map (\<lambda>c. PInt (int c)) cpus)])) (sort (dkeys (tp_numa_nodes t)))"

definition collect_hw :: "sys_env \<Rightarrow> float_formats \<Rightarrow> sys_hw query" where
  "collect_hw e ff = qbind (collect (hw_queries e ff)) (\<lambda>a.
     qbind (qlift (system_interconnect e)) (\<lambda>(t, n).
     qbind (collect (hw_queries2 e)) (\<lambda>b.
     qask (\<lambda>r. Inr \<lparr>sh_fields = a @ b, sh_interconnect = PyTuple [opt_pv PStr t, PInt (int n)],
       sh_numa_nodes = Nodes (topology_nodes (sy_topology r))\<rparr>))))"

definition collect_memory :: "int \<Rightarrow> dmi_table option \<Rightarrow> pdict res" where
  "collect_memory phys_mem dmi =
     (case dmi of
        None \<Rightarrow> Inr ((''total_size'', PInt phys_mem) # no_fields (tl MEMORY_FIELDS))
      | Some t \<Rightarrow> (let m = memory_properties (dt_memory t) in bindr (total_bandwidth m) (\<lambda>bw.
          Inr [(''total_size'', PInt phys_mem), (''n_channels'', opt_pv (\<lambda>n. PInt (int n)) (mp_channels m)),
            (''type_str'', opt_pv PStr (mp_type m)), (''manufacturer'', opt_pv PStr (mp_mfr m)), (''part_number'', opt_pv PStr (mp_part m)),
            (''speed'', opt_pv PInt (mp_speed m)), (''data_width'', opt_pv PInt (mp_width m)), (''peak_theoretical_bw'', opt_pv PInt bw)])))"

definition texts_or_none :: "string list \<Rightarrow> (string option list) option \<Rightarrow> pdict" where
  "texts_or_none names x = (case x of None \<Rightarrow> no_fields names | Some vs \<Rightarrow> zip names (map (opt_pv PStr) vs))"

definition kern_queries :: "sys_env \<Rightarrow> (string \<times> pv query) list" where
  "kern_queries e =
     [(''ver'', qpure (PStr (get_kernel_version e))),
      (''cfg_file'', qpure (opt_pv (\<lambda>p. PStr (info_path_text p)) (kernel_config_file e))),
      (''build_dir'', qpure (opt_pv (\<lambda>p. PStr (info_path_text p)) (kernel_build_dir e True))),
      (''uses_atomics'', qmap (opt_pv PBool) (qask (kernel_uses_atomics e))),
      (''huge_pages'', qmap PStr (qlift (kernel_hugepages_str e False))),
      (''thp'', qmap (\<lambda>t. PStr (case t of Some (c # cs) \<Rightarrow> c # cs | _ \<Rightarrow> ''disabled'')) (qask (kernel_thp e))),
      (''mpam'', qmap PBool (qask has_MPAM)),
      (''resctrl'', qpure (PBool (has_resctrl e))),
      (''distro'', qmap (opt_pv PStr) (qlift (get_distribution e))),
      (''libc_ver'', qpure (PStr (get_libc_version e))),
      (''boot_info'', qmap (opt_pv PStr) (qlift (boot_info_type e))),
      (''kpti'', qmap (opt_pv PBool) (is_KPTI_enabled e)),
      (''lockdown'', qmap (\<lambda>l. opt_pv PStr (lockdown_str l)) (qask get_lockdown)),
      (''mitigations'', qmap (\<lambda>v. PStr (vulnerabilities_str v)) (vulnerabilities e))]"

definition perf_queries :: "sys_env \<Rightarrow> (string \<times> pv query) list" where
  "perf_queries e =
     [(''has_tools'', qmap PBool (qlift (perf_installed e))),
      (''perf_dir'', qbind (qlift (perf_installed e)) (\<lambda>i. if i then qmap PStr (qlift (perf_binary e)) else qpure PNone)),
      (''perf_opencsd'', qmap (opt_pv PBool) (qlift (perf_binary_has_opencsd e))),
      (''n_counters'', qmap (opt_pv (\<lambda>n. PInt (int n))) (max_counters e)),
      (''perf_sampling'', qpure (opt_pv PStr (perf_noninvasive_sampling e))),
      (''perf_hw_trace'', qmap (opt_pv PStr) (qask (perf_hardware_trace e))),
      (''paranoid'', qmap (opt_pv PInt) (qlift (perf_event_paranoid e))),
      (''kptr_restrict'', qmap (opt_pv PInt) (qlift (kptr_restrict e))),
      (''userspace_access'', qmap (opt_pv PInt) (qlift (perf_user_access e))),
      (''interconnect'', qmap (opt_pv PBool) (qlift (perf_interconnect e))),
      (''kcore'', qpure (PBool (path_exists (se_files e) [''proc'', ''kcore'']))),
      (''devmem'', qpure (PBool (path_exists (se_files e) [''dev'', ''mem'']))),
      (''bpf'', qbind (qask kernel_supports_bpf) (\<lambda>b. qbind (qlift (bpftool_installed e)) (\<lambda>t. qbind (qlift (bpftrace_installed e)) (\<lambda>tr.
         qpure (PDict [(''bpf'', PBool b), (''bpf_tool'', opt_pv PStr t), (''bpf_tool_ver'', opt_pv PStr t), (''bpftrace'', opt_pv PStr tr)])))))]"

text \<open>The run; the configuration says which of the long parts are wanted.\<close>

record info_config =
  ic_advice :: bool
  ic_kernel_config :: bool
  ic_vulnerabilities :: bool

definition advice_pv :: "advice_list \<Rightarrow> pv" where
  "advice_pv a = PList (map (\<lambda>(obs, acts). PList [PStr obs, PList (map PStr acts)]) a)"

definition vulnerabilities_pv :: "(string, string option) dict \<Rightarrow> pv" where
  "vulnerabilities_pv d = PDict (map (\<lambda>(k, v). (k, opt_pv PStr v)) d)"

definition texts_pv :: "(string, string) dict \<Rightarrow> pv" where
  "texts_pv d = PDict (map (\<lambda>(k, v). (k, PStr v)) d)"

definition collect_all :: "sys_env \<Rightarrow> float_formats \<Rightarrow> dmi_table res \<Rightarrow> int \<Rightarrow> string \<Rightarrow> string \<Rightarrow> info_config \<Rightarrow> info_object query" where
  "collect_all e ff dmi phys_mem now ver ic =
     qbind (collect_hw e ff) (\<lambda>hw.
     qbind (qlift (dmi_definitions dmi)) (\<lambda>d.
     qbind (qlift (collect_memory phys_mem d)) (\<lambda>mem.
     qbind (collect (kern_queries e)) (\<lambda>kern.
     qbind (collect (perf_queries e)) (\<lambda>perf.
     qbind (if ic_advice ic then qmap advice_pv (advice e) else qpure PNone) (\<lambda>adv.
     qbind (if ic_kernel_config ic then qmap (opt_pv texts_pv) (qlift (kernel_config e)) else qpure PNone) (\<lambda>kc.
     qbind (if ic_vulnerabilities ic then qmap vulnerabilities_pv (vulnerabilities e) else qpure PNone) (\<lambda>vul.
     qpure \<lparr>si_report = [(''collected_time'', PStr now), (''asct_ver'', PStr ver), (''run_as_root'', PBool (is_superuser e))],
       si_sys_hw = hw,
       si_sys_info = (case d of None \<Rightarrow> no_fields SYS_INFO_FIELDS | Some t \<Rightarrow> texts_or_none SYS_INFO_FIELDS (dt_system t)),
       si_bios_info = (case d of None \<Rightarrow> no_fields BIOS_FIELDS | Some t \<Rightarrow> texts_or_none BIOS_FIELDS (dt_bios t)),
       si_memory = mem, si_kern_cfg = kern, si_perf_feats = perf, si_advice = adv, si_vulnerabilities = vul, si_kernel_config = kc,
       si_ready = True, si_loaded = PNone\<rparr>))))))))"

definition run_system_info :: "sys_env \<Rightarrow> float_formats \<Rightarrow> dmi_table res \<Rightarrow> string \<Rightarrow> string \<Rightarrow> info_config \<Rightarrow> topology \<Rightarrow> info_object res" where
  "run_system_info e ff dmi now ver ic t =
     bindr (new_sysrep e t) (\<lambda>r. bindr (collect_all e ff dmi (tp_phys_mem t) now ver ic r) (\<lambda>(si, r'). Inr si))"

section \<open>The saved form\<close>

text \<open>A tuple is written as a list, a number that is a key as its text.\<close>

fun seq_json :: "seq_value \<Rightarrow> pv" where
  "seq_json (PyTuple vs) = PList vs"
| "seq_json (PyOther v) = v"

fun nodes_json :: "nodes_value \<Rightarrow> pv" where
  "nodes_json (Nodes ns) = PDict (map (\<lambda>(n, vs). (int_str n, PList vs)) ns)"
| "nodes_json (OtherNodes v) = v"

definition hw_json :: "sys_hw \<Rightarrow> pdict" where
  "hw_json hw = map (\<lambda>f. (f, if f = ''interconnect'' then seq_json (sh_interconnect hw)
     else if f = ''numa_nodes'' then nodes_json (sh_numa_nodes hw) else dget (sh_fields hw) f PNone)) HW_FIELDS"

definition info_dict :: "info_object \<Rightarrow> pv" where
  "info_dict si =
     (if si_loaded si \<noteq> PNone then si_loaded si
      else PDict ([(''report'', PDict (si_report si)), (''sys_hw'', PDict (hw_json (si_sys_hw si))), (''sys_info'', PDict (si_sys_info si)),
          (''bios_info'', PDict (si_bios_info si)), (''memory'', PDict (si_memory si)), (''kern_cfg'', PDict (si_kern_cfg si)),
          (''perf_feats'', PDict (si_perf_feats si))] @
        filter (\<lambda>(k, v). v \<noteq> PNone) [(''advice'', si_advice si), (''vulnerabilities'', si_vulnerabilities si), (''kernel_config'', si_kernel_config si)]))"

section \<open>Restoring\<close>

fun all_digits_split :: "string \<Rightarrow> string \<times> string" where
  "all_digits_split s = (takeWhile is_digit s, dropWhile is_digit s)"

text \<open>The pattern \<open>[0-9]+(\.[0-9]+)?[KMG]\<close> on the whole text.\<close>

definition size_unit :: "char \<Rightarrow> rat option" where
  "size_unit c = map_of [(CHR ''K'', 1024), (CHR ''M'', 1024 ^ 2), (CHR ''G'', 1024 ^ 3)] c"

definition parse_cache_size :: "string \<Rightarrow> rat option" where
  "parse_cache_size s =
     (case all_digits_split s of (ip, r) \<Rightarrow>
      if ip = [] then None
      else case (case r of c # r1 \<Rightarrow> if c = CHR ''.'' then (case all_digits_split r1 of (fp, r2) \<Rightarrow> if fp = [] then None else Some (fp, r2))
                                      else Some ([], r)
                | [] \<Rightarrow> Some ([], r)) of
          Some (fp, [u]) \<Rightarrow> map_option (\<lambda>m. decimal_value ip fp * m) (size_unit u)
        | _ \<Rightarrow> None)"

definition cache_size_step :: "string \<Rightarrow> (string, rat) dict \<Rightarrow> (string, rat) dict" where
  "cache_size_step desc d =
     (case split_words desc of
        p # t # _ \<Rightarrow> if take 2 p \<notin> set [''L1'', ''L2'', ''L3''] then d
          else (case parse_cache_size t of None \<Rightarrow> d | Some z \<Rightarrow> dset (take 2 p) (max (dget d (take 2 p) 0) z) d)
      | _ \<Rightarrow> d)"

definition derive_cache_size_dict :: "pv \<Rightarrow> (string, rat) dict" where
  "derive_cache_size_dict caches = (case caches of PDict cs \<Rightarrow> fold cache_size_step (dkeys cs) [] | _ \<Rightarrow> [])"

text \<open>\<open>tuple(v)\<close>\<close>

fun tuple_of :: "pv \<Rightarrow> pv list res" where
  "tuple_of (PList vs) = Inr vs"
| "tuple_of (PStr s) = Inr (map (\<lambda>c. PStr [c]) s)"
| "tuple_of (PDict d) = Inr (map PStr (dkeys d))"
| "tuple_of v = Inl (Exc TypeError ''object is not iterable'')"

text \<open>\<open>dict(v)\<close>; a list of pairs is never saved.\<close>

fun dict_of_pv :: "pv \<Rightarrow> pdict res" where
  "dict_of_pv (PDict d) = Inr d"
| "dict_of_pv (PList []) = Inr []"
| "dict_of_pv (PStr []) = Inr []"
| "dict_of_pv v = Inl (Exc TypeError ''cannot convert to a dictionary'')"

text \<open>\<open>**v\<close>\<close>

fun kwargs_of :: "pv \<Rightarrow> pdict res" where
  "kwargs_of (PDict d) = Inr d"
| "kwargs_of v = Inl (Exc TypeError ''argument after ** must be a mapping'')"

fun seq_of :: "pv \<Rightarrow> seq_value" where
  "seq_of (PList vs) = PyTuple vs"
| "seq_of v = PyOther v"

definition nodes_of_dict :: "pdict \<Rightarrow> (int, pv list) dict res" where
  "nodes_of_dict d =
     bindr (map_res (\<lambda>(k, v). bindr (int_of_str k) (\<lambda>n. Inr (n, v))) d) (\<lambda>items.
     bindr (map_res (\<lambda>(n, v). bindr (tuple_of v) (\<lambda>t. Inr (n, t))) (sort_key fst items)) (\<lambda>ns.
     Inr (dict_of ns)))"

definition nodes_of :: "pv \<Rightarrow> nodes_value res" where
  "nodes_of v = (case v of PDict d \<Rightarrow> bindr (nodes_of_dict d) (\<lambda>ns. Inr (Nodes ns)) | _ \<Rightarrow> Inr (OtherNodes v))"

text \<open>The hardware's data after the conversions, as it is saved again, and the two converted fields.\<close>

definition hw_data :: "pdict \<Rightarrow> (pdict \<times> seq_value \<times> nodes_value) res" where
  "hw_data d =
     (let sizes = derive_cache_size_dict (dget d ''caches'' PNone);
          d1 = (if ''cache_size_dict'' \<notin> set (dkeys d) \<and> sizes \<noteq> []
                then dset ''cache_size_dict'' (PDict (map (\<lambda>(k, z). (k, PFloat z)) sizes)) d else d)
      in bindr (nodes_of (dget d1 ''numa_nodes'' PNone)) (\<lambda>ns.
         Inr (case ns of Nodes _ \<Rightarrow> dset ''numa_nodes'' (nodes_json ns) d1 | OtherNodes _ \<Rightarrow> d1, seq_of (dget d1 ''interconnect'' PNone), ns)))"

definition hw_of_data :: "pdict \<times> seq_value \<times> nodes_value \<Rightarrow> sys_hw res" where
  "hw_of_data x = (case x of (d, i, ns) \<Rightarrow> bindr (dataclass_of HW_FIELDS d) (\<lambda>fs.
     Inr \<lparr>sh_fields = filter (\<lambda>(k, v). k \<notin> set [''interconnect'', ''numa_nodes'']) fs, sh_interconnect = i, sh_numa_nodes = ns\<rparr>))"

definition part_of :: "string list \<Rightarrow> string \<Rightarrow> pdict \<Rightarrow> pdict res" where
  "part_of names k d = bindr (kwargs_of (dget d k (PDict []))) (dataclass_of names)"

definition perf_of :: "pdict \<Rightarrow> pdict res" where
  "perf_of d =
     bindr (kwargs_of (dget d ''perf_feats'' (PDict []))) (\<lambda>p.
     bindr (bindr (kwargs_of (dget p ''bpf'' (PDict []))) (dataclass_of BPF_FIELDS)) (\<lambda>b.
     dataclass_of PERF_FIELDS (dset ''bpf'' (PDict b) p)))"

definition restore_dict :: "pdict \<Rightarrow> info_object res" where
  "restore_dict d =
     bindr (dict_of_pv (dget d ''sys_hw'' (PDict []))) (\<lambda>hd.
     bindr (hw_data hd) (\<lambda>x.
     bindr (part_of REPORT_FIELDS ''report'' d) (\<lambda>rep.
     bindr (hw_of_data x) (\<lambda>hw.
     bindr (part_of SYS_INFO_FIELDS ''sys_info'' d) (\<lambda>si.
     bindr (part_of BIOS_FIELDS ''bios_info'' d) (\<lambda>bi.
     bindr (part_of MEMORY_FIELDS ''memory'' d) (\<lambda>mem.
     bindr (perf_of d) (\<lambda>perf.
     bindr (part_of KERN_CFG_FIELDS ''kern_cfg'' d) (\<lambda>kern.
     Inr \<lparr>si_report = rep, si_sys_hw = hw, si_sys_info = si, si_bios_info = bi, si_memory = mem, si_kern_cfg = kern, si_perf_feats = perf,
       si_advice = dget d ''advice'' PNone, si_vulnerabilities = dget d ''vulnerabilities'' PNone,
       si_kernel_config = dget d ''kernel_config'' PNone, si_ready = True,
       si_loaded = PDict (dset ''sys_hw'' (PDict (fst x)) d)\<rparr>)))))))))"

text \<open>
  An empty result counts as an empty dictionary, to which the hardware is added before it is asked
  whether it is empty: the restored report is ready whatever was loaded.
\<close>

definition restore_system_info :: "pv \<Rightarrow> info_object res" where
  "restore_system_info raw =
     (if \<not> truthy raw then bindr (restore_dict []) (\<lambda>si. Inr (si\<lparr>si_loaded := raw\<rparr>))
      else case raw of PDict d \<Rightarrow> restore_dict d | _ \<Rightarrow> Inl (Exc AttributeError ''object has no attribute get''))"

section \<open>Normalisation for comparisons\<close>

definition with_defaults :: "string list \<Rightarrow> pdict \<Rightarrow> pdict" where
  "with_defaults names s = fold (\<lambda>f s. if f \<in> set (dkeys s) then s else dset f PNone s) names s"

definition section_default :: "string \<Rightarrow> string list \<Rightarrow> pdict \<Rightarrow> pdict res" where
  "section_default k names d =
     (case dget d k (PDict []) of
        PDict s \<Rightarrow> Inr (dset k (PDict (with_defaults names s)) d)
      | _ \<Rightarrow> Inl (Exc AttributeError ''object has no attribute setdefault''))"

definition indexed :: "pv list \<Rightarrow> pdict" where
  "indexed vs = map (\<lambda>i. (nat_str i, vs ! i)) [0..<length vs]"

definition features_as_dict :: "pdict \<Rightarrow> pdict res" where
  "features_as_dict d =
     (case dget d ''sys_hw'' (PDict []) of
        PDict s \<Rightarrow> Inr (dset ''sys_hw'' (PDict (case map_of s ''cpu_features'' of
            Some (PList vs) \<Rightarrow> dset ''cpu_features'' (PDict (indexed vs)) s | _ \<Rightarrow> s)) d)
      | _ \<Rightarrow> Inl (Exc AttributeError ''object has no attribute get''))"

definition normalize_diff_data :: "pv \<Rightarrow> pv res" where
  "normalize_diff_data v =
     (case v of
        PDict d \<Rightarrow> bindr (section_default ''bios_info'' BIOS_FIELDS d) (\<lambda>d1.
          bindr (section_default ''memory'' [''manufacturer'', ''part_number''] d1) (\<lambda>d2.
          bindr (features_as_dict d2) (\<lambda>d3. Inr (PDict d3))))
      | _ \<Rightarrow> Inr (if truthy v then v else PDict []))"

section \<open>The choices of processors\<close>

text \<open>Nodes with different numbers and no processor in two of them, as a machine has them.\<close>

definition machine_nodes :: "numa_nodes \<Rightarrow> bool" where
  "machine_nodes nodes \<longleftrightarrow> wf_dict nodes \<and> (\<forall>(n, z, cpus)\<in>set nodes. \<forall>(m, y, cs)\<in>set nodes. n \<noteq> m \<longrightarrow> set cpus \<inter> set cs = {})"

lemma node_map_of:
  assumes "machine_nodes nodes" "(n, z, cpus) \<in> set nodes" "c \<in> set cpus"
  shows "get_numa_node_for_cpu nodes c = Some n"
proof -
  have inner: "map_of (fold (\<lambda>c d. dset c m d) cs d) c = (if c \<in> set cs then Some m else map_of d c)" for m cs and d :: "(int, int) dict"
    by (induction cs arbitrary: d) auto
  have "map_of (fold (\<lambda>(n, _, cpus) d. fold (\<lambda>c d. dset c n d) (sort cpus) d) ns d) c = Some n"
    if "set ns \<subseteq> set nodes" "(n, z, cpus) \<in> set ns \<or> map_of d c = Some n" for ns d
    using that
  proof (induction ns arbitrary: d)
    case (Cons a ns)
    obtain m y cs where a: "a = (m, y, cs)" by (cases a)
    let ?d = "fold (\<lambda>c d. dset c m d) (sort cs) d"
    have d: "map_of ?d c = (if c \<in> set cs then Some m else map_of d c)" by (simp add: inner)
    have "m = n" if "c \<in> set cs"
      using that assms Cons.prems(1) a by (fastforce simp: machine_nodes_def)
    then have "(n, z, cpus) \<in> set ns \<or> map_of ?d c = Some n"
      using Cons.prems(2) a d assms(3) by auto
    then show ?case using Cons.IH [of ?d] Cons.prems(1) a by simp
  qed simp
  from this [of nodes "[]"] assms(2) show ?thesis by (simp add: get_numa_node_for_cpu_def cpus_to_numa_node_map_def)
qed

lemma int_of_str_int_str: "0 \<le> i \<Longrightarrow> int_of_str (int_str i) = Inr i"
  by (simp add: int_str_def)

text \<open>
  A run on a single processor uses the last processor of the first node that has any, and the
  node for its memory is the node of that processor.  This is node 0 only if node 0 has a processor.
\<close>

theorem single_core_choice_is_local:
  assumes "machine_nodes nodes" "(n, z, cpus) \<in> set nodes" "cpus \<noteq> []" "list_all (\<lambda>c. 0 \<le> c) cpus"
    "\<forall>(m, y, cs)\<in>set nodes. cs = [] \<or> n \<le> m"
  shows "single_core_cpu_choice nodes = Inr [int_str (Max (set cpus))] \<and> default_numa_node nodes = Inr (Some n)"
proof -
  define ls where "ls = last_cpus_per_numa_node nodes"
  have ls: "ls = map (\<lambda>(n, _, cpus). (n, Max (set cpus))) (filter (\<lambda>(n, _, cpus). cpus \<noteq> []) nodes)"
    by (auto simp: ls_def last_cpus_per_numa_node_def cpu_list_per_numa_node_def filter_map o_def case_prod_beta intro!: arg_cong2 [of _ _ _ _ map] filter_cong)
  have wf: "wf_dict ls" using assms(1) by (simp add: ls machine_nodes_def o_def case_prod_beta distinct_map_filter)
  have inl: "(n, Max (set cpus)) \<in> set ls" using assms(2,3) by (force simp: ls)
  then have g: "dget ls n 0 = Max (set cpus)" using wf by (simp add: dget_def)
  have "n \<le> m" if "m \<in> set (dkeys ls)" for m using that assms(5) by (auto simp: ls)
  moreover have "n \<in> set (dkeys ls)" using inl by force
  ultimately have "Min (set (dkeys ls)) = n" by (intro Min_eqI) auto
  then have s: "single_core_cpu_choice nodes = Inr [int_str (Max (set cpus))]"
    using inl g by (auto simp: single_core_cpu_choice_def ls_def [symmetric] Let_def)
  have c: "Max (set cpus) \<in> set cpus" using assms(3) by simp
  then have "0 \<le> Max (set cpus)" using assms(4) by (simp add: list_all_iff)
  then show ?thesis using s node_map_of [OF assms(1,2) c] by (simp add: default_numa_node_def int_of_str_int_str)
qed

section \<open>The saved hardware is restored\<close>

text \<open>Hardware as a run collects it: the fields in order, the interconnect as a tuple, nodes in ascending order.\<close>

definition collected_hw :: "sys_hw \<Rightarrow> bool" where
  "collected_hw hw \<longleftrightarrow> dkeys (sh_fields hw) = OTHER_HW_FIELDS \<and> (case sh_interconnect hw of PyTuple vs \<Rightarrow> True | PyOther v \<Rightarrow> False) \<and>
     (case sh_numa_nodes hw of Nodes ns \<Rightarrow> sorted_wrt (<) (map fst ns) \<and> list_all (\<lambda>n. 0 \<le> n) (map fst ns) | OtherNodes v \<Rightarrow> False)"


definition collected_info :: "info_object \<Rightarrow> bool" where
  "collected_info si \<longleftrightarrow> dkeys (si_report si) = REPORT_FIELDS \<and> collected_hw (si_sys_hw si) \<and> dkeys (si_sys_info si) = SYS_INFO_FIELDS \<and>
     dkeys (si_bios_info si) = BIOS_FIELDS \<and> dkeys (si_memory si) = MEMORY_FIELDS \<and> dkeys (si_kern_cfg si) = KERN_CFG_FIELDS \<and>
     (\<exists>p b. si_perf_feats si = p @ [(''bpf'', PDict b)] \<and> dkeys p = butlast PERF_FIELDS \<and> dkeys b = BPF_FIELDS) \<and>
     si_ready si \<and> si_loaded si = PNone"

lemma dget_all: "distinct (dkeys d) \<Longrightarrow> map (\<lambda>f. (f, dget d f x)) (dkeys d) = d"
proof (induction d)
  case (Cons kv d)
  have "dget (kv # d) f x = dget d f x" if "f \<in> set (dkeys d)" for f using Cons.prems that
    by (cases kv) (force simp: dget_def)
  then have "map (\<lambda>f. (f, dget (kv # d) f x)) (dkeys d) = map (\<lambda>f. (f, dget d f x)) (dkeys d)" by (intro map_cong) auto
  also have "\<dots> = d" using Cons by simp
  finally show ?case by (cases kv) (simp add: dget_def o_def)
qed simp

lemma dataclass_same: "dkeys d = names \<Longrightarrow> distinct names \<Longrightarrow> dataclass_of names d = Inr d"
  using dget_all [of d PNone] by (auto simp: dataclass_of_def list_all_iff)

lemma fields_distinct:
  "distinct HW_FIELDS" "distinct REPORT_FIELDS" "distinct SYS_INFO_FIELDS" "distinct BIOS_FIELDS" "distinct MEMORY_FIELDS"
  "distinct KERN_CFG_FIELDS" "distinct BPF_FIELDS" "distinct PERF_FIELDS"
  by code_simp+

lemma map_res_map: "(\<And>x. x \<in> set xs \<Longrightarrow> f (g x) = Inr (h x)) \<Longrightarrow> map_res f (map g xs) = Inr (map h xs)"
  by (induction xs) auto

lemma nodes_restored:
  assumes "sorted_wrt (<) (map fst ns)" "list_all (\<lambda>n. 0 \<le> n) (map fst ns)"
  shows "nodes_of (nodes_json (Nodes ns)) = Inr (Nodes ns)"
proof -
  have a: "map_res (\<lambda>(k, v). bindr (int_of_str k) (\<lambda>n. Inr (n, v))) (map (\<lambda>(n, vs). (int_str n, PList vs)) ns) =
      Inr (map (\<lambda>(n, vs). (n, PList vs)) ns)"
    by (rule map_res_map) (use assms(2) in \<open>auto simp: list_all_iff int_of_str_int_str\<close>)
  have sd: "sorted (map fst ns)" "distinct (map fst ns)" using assms(1) by (simp_all only: strict_sorted_iff)
  then have "sorted (map fst (map (\<lambda>(n, vs). (n, PList vs)) ns))" by (simp add: o_def case_prod_beta)
  then have b: "sort_key fst (map (\<lambda>(n, vs). (n, PList vs)) ns) = map (\<lambda>(n, vs). (n, PList vs)) ns"
    by (rule sort_key_id_if_sorted)
  have c: "map_res (\<lambda>(n, v). bindr (tuple_of v) (\<lambda>t. Inr (n, t))) (map (\<lambda>(n, vs). (n, PList vs)) ns) = Inr (map id ns)"
    by (rule map_res_map) auto
  have d: "dict_of ns = ns" using sd(2) by (rule dict_of_wf)
  show ?thesis by (simp add: nodes_of_def nodes_of_dict_def a b c d)
qed

lemma hw_keys: "dkeys (hw_json hw) = HW_FIELDS"
  by (simp add: hw_json_def o_def)

lemma map_of_fields: "map_of (map (\<lambda>f. (f, g f)) names) k = (if k \<in> set names then Some (g k) else None)"
  by (induction names) auto

lemma filter_fields: "filter (\<lambda>(k, v). P k) (map (\<lambda>f. (f, g f)) names) = map (\<lambda>f. (f, g f)) (filter P names)"
  by (induction names) auto

lemma dset_same: "wf_dict d \<Longrightarrow> map_of d k = Some v \<Longrightarrow> dset k v d = d"
  by (induction d) (auto simp: dset_def map_idI split: if_splits)

lemma hw_restored:
  assumes "collected_hw hw"
  shows "\<exists>x. hw_data (hw_json hw) = Inr (hw_json hw, x) \<and> hw_of_data (hw_json hw, x) = Inr hw"
proof -
  obtain vs ns where i: "sh_interconnect hw = PyTuple vs" and n: "sh_numa_nodes hw = Nodes ns"
    and ns: "sorted_wrt (<) (map fst ns)" "list_all (\<lambda>n. 0 \<le> n) (map fst ns)" and k: "dkeys (sh_fields hw) = OTHER_HW_FIELDS"
    using assms by (auto simp: collected_hw_def split: seq_value.splits nodes_value.splits)
  have mem: "''cache_size_dict'' \<in> set HW_FIELDS" "''interconnect'' \<in> set HW_FIELDS" "''numa_nodes'' \<in> set HW_FIELDS" by code_simp+
  have g: "map_of (hw_json hw) ''interconnect'' = Some (PList vs)" "map_of (hw_json hw) ''numa_nodes'' = Some (nodes_json (Nodes ns))"
    unfolding hw_json_def map_of_fields by (simp_all add: mem i n)
  have wf: "wf_dict (hw_json hw)" by (simp add: hw_keys fields_distinct)
  have cs: "''cache_size_dict'' \<in> set (dkeys (hw_json hw))" by (simp only: hw_keys mem)
  have d: "hw_data (hw_json hw) = Inr (hw_json hw, PyTuple vs, Nodes ns)"
    using cs g(1) nodes_restored [OF ns] dset_same [OF wf g(2)]
    by (simp add: hw_data_def Let_def dget_def g(2) del: nodes_json.simps)
  have "filter (\<lambda>(k, v). k \<notin> set [''interconnect'', ''numa_nodes'']) (hw_json hw) =
      map (\<lambda>f. (f, dget (sh_fields hw) f PNone)) OTHER_HW_FIELDS"
    unfolding hw_json_def filter_fields OTHER_HW_FIELDS_def by (intro map_cong) auto
  also have "\<dots> = sh_fields hw" using dget_all [of "sh_fields hw" PNone] k fields_distinct(1) by (simp add: OTHER_HW_FIELDS_def)
  finally have f: "filter (\<lambda>(k, v). k \<notin> set [''interconnect'', ''numa_nodes'']) (hw_json hw) = sh_fields hw" .
  have "hw_of_data (hw_json hw, PyTuple vs, Nodes ns) = Inr hw"
    using i n by (simp add: hw_of_data_def dataclass_same [OF hw_keys fields_distinct(1)] f [simplified])
  with d show ?thesis by blast
qed

lemma perf_restored:
  assumes "dkeys p = butlast PERF_FIELDS" "dkeys b = BPF_FIELDS" "map_of d ''perf_feats'' = Some (PDict (p @ [(''bpf'', PDict b)]))"
  shows "perf_of d = Inr (p @ [(''bpf'', PDict b)])"
proof -
  have k: "dkeys (p @ [(''bpf'', PDict b)]) = PERF_FIELDS" unfolding map_append assms(1) by code_simp
  have "''bpf'' \<notin> set (butlast PERF_FIELDS)" by code_simp
  then have "map_of p ''bpf'' = None" using assms(1) by (metis map_of_eq_None_iff set_map)
  then have m: "map_of (p @ [(''bpf'', PDict b)]) ''bpf'' = Some (PDict b)" by (simp add: map_add_def)
  have "wf_dict (p @ [(''bpf'', PDict b)])" by (simp only: k fields_distinct)
  note s = dset_same [OF this m]
  define P where "P = p @ [(''bpf'', PDict b)]"
  show ?thesis
    using s m k dataclass_same [OF k fields_distinct(8)] dataclass_same [OF assms(2) fields_distinct(7)] assms(3)
    unfolding P_def [symmetric] by (simp add: perf_of_def dget_def)
qed

lemma part_restored: "map_of d k = Some (PDict s) \<Longrightarrow> dkeys s = names \<Longrightarrow> distinct names \<Longrightarrow> part_of names k d = Inr s"
  by (simp add: part_of_def dget_def dataclass_same)

lemma info_restored:
  assumes "collected_info si"
  shows "restore_system_info (info_dict si) = Inr (si\<lparr>si_loaded := info_dict si\<rparr>)"
proof -
  obtain p b where p: "si_perf_feats si = p @ [(''bpf'', PDict b)]" "dkeys p = butlast PERF_FIELDS" "dkeys b = BPF_FIELDS"
    using assms by (auto simp: collected_info_def)
  obtain d where d: "info_dict si = PDict d" using assms by (simp add: info_dict_def collected_info_def)
  have m: "map_of d ''report'' = Some (PDict (si_report si))" "map_of d ''sys_hw'' = Some (PDict (hw_json (si_sys_hw si)))"
    "map_of d ''sys_info'' = Some (PDict (si_sys_info si))" "map_of d ''bios_info'' = Some (PDict (si_bios_info si))"
    "map_of d ''memory'' = Some (PDict (si_memory si))" "map_of d ''kern_cfg'' = Some (PDict (si_kern_cfg si))"
    "map_of d ''perf_feats'' = Some (PDict (p @ [(''bpf'', PDict b)]))"
    "dget d ''advice'' PNone = si_advice si" "dget d ''vulnerabilities'' PNone = si_vulnerabilities si"
    "dget d ''kernel_config'' PNone = si_kernel_config si" "wf_dict d" "d \<noteq> []"
    using d assms p(1) by (auto simp: info_dict_def collected_info_def dget_def split: if_splits)
  obtain x where x: "hw_data (hw_json (si_sys_hw si)) = Inr (hw_json (si_sys_hw si), x)"
      "hw_of_data (hw_json (si_sys_hw si), x) = Inr (si_sys_hw si)"
    using hw_restored [of "si_sys_hw si"] assms unfolding collected_info_def by blast
  have sh: "dget d ''sys_hw'' (PDict []) = PDict (hw_json (si_sys_hw si))" by (simp add: dget_def m)
  have parts: "part_of REPORT_FIELDS ''report'' d = Inr (si_report si)" "part_of SYS_INFO_FIELDS ''sys_info'' d = Inr (si_sys_info si)"
    "part_of BIOS_FIELDS ''bios_info'' d = Inr (si_bios_info si)" "part_of MEMORY_FIELDS ''memory'' d = Inr (si_memory si)"
    "part_of KERN_CFG_FIELDS ''kern_cfg'' d = Inr (si_kern_cfg si)"
    using assms m fields_distinct by (simp_all add: part_restored collected_info_def)
  have "restore_dict d = Inr (si\<lparr>si_loaded := PDict d\<rparr>)"
    using assms by (simp add: restore_dict_def sh x parts perf_restored [OF p(2,3) m(7)] m(8-10) dset_same [OF m(11,2)] p(1) [symmetric] collected_info_def)
  then show ?thesis using d m(12) by (simp add: restore_system_info_def)
qed

lemma qbind_Inr: "qbind q f r = Inr (b, r2) \<longleftrightarrow> (\<exists>a r1. q r = Inr (a, r1) \<and> f a r1 = Inr (b, r2))"
  by (auto simp: qbind_def bindr_Inr_iff)

lemma qpure_Inr: "qpure a r = Inr (b, r2) \<longleftrightarrow> b = a \<and> r2 = r"
  by (auto simp: qpure_def)

lemma qlift_Inr: "qlift x r = Inr (b, r2) \<longleftrightarrow> x = Inr b \<and> r2 = r"
  by (auto simp: qlift_def bindr_Inr_iff)

lemma qask_Inr: "qask f r = Inr (b, r2) \<longleftrightarrow> f r = Inr b \<and> r2 = r"
  by (auto simp: qask_def bindr_Inr_iff)

lemmas query_Inr = qbind_Inr qpure_Inr qlift_Inr qask_Inr

lemma collect_keys: "collect fs r = Inr (d, r') \<Longrightarrow> dkeys d = map fst fs"
  by (induction fs arbitrary: r d r') (auto simp: query_Inr)

lemma repeatable_collect: "(\<And>f. f \<in> set fs \<Longrightarrow> repeatable e (snd f)) \<Longrightarrow> repeatable e (collect fs)"
proof (induction fs)
  case (Cons f fs)
  then have "repeatable e (snd f)" "repeatable e (collect fs)" by auto
  then show ?case by (cases f) (auto intro!: repeatable)
qed (simp add: repeatable)

lemma collect_memory_keys: "collect_memory n d = Inr m \<Longrightarrow> dkeys m = MEMORY_FIELDS"
  by (auto simp: collect_memory_def MEMORY_FIELDS_def no_fields_def bindr_Inr_iff Let_def split: option.splits)

definition dmi_ok :: "dmi_table res \<Rightarrow> bool" where
  "dmi_ok d \<longleftrightarrow> (case d of Inl e \<Rightarrow> True | Inr t \<Rightarrow>
     (case dt_system t of None \<Rightarrow> True | Some vs \<Rightarrow> length vs = 5) \<and> (case dt_bios t of None \<Rightarrow> True | Some vs \<Rightarrow> length vs = 3))"

lemma texts_keys: "(case x of None \<Rightarrow> True | Some vs \<Rightarrow> length vs = length names) \<Longrightarrow> dkeys (texts_or_none names x) = names"
  by (auto simp: texts_or_none_def no_fields_def o_def split: option.splits)

lemma collect_hw_ok:
  assumes "collect_hw e ff r = Inr (hw, r')" "honest e r" "wf_dict (tp_numa_nodes (sy_topology r))"
  shows "collected_hw hw"
proof -
  obtain a r1 t n b r2 where a: "collect (hw_queries e ff) r = Inr (a, r1)" and b: "collect (hw_queries2 e) r1 = Inr (b, r2)"
    and hw: "hw = \<lparr>sh_fields = a @ b, sh_interconnect = PyTuple [opt_pv PStr t, PInt (int n)], sh_numa_nodes = Nodes (topology_nodes (sy_topology r2))\<rparr>"
    using assms(1) by (auto simp: collect_hw_def query_Inr)
  have "repeatable e (collect (hw_queries e ff))" "repeatable e (collect (hw_queries2 e))"
    by (rule repeatable_collect; auto simp: hw_queries_def hw_queries2_def qmap_def intro!: repeatable;
      rule repeatable_ask; simp add: architecture_def get_cpu_count_def cpu_type_text_def get_cpu_features_def cache_size_dict_def)+
  from repeatable_forget(2) [OF this(1) assms(2) a] repeatable_forget(2) [OF this(2) _ b] have "forget r2 = forget r" by auto
  then have t: "sy_topology r2 = sy_topology r" by (metis forget_simps(2))
  have k: "dkeys (a @ b) = OTHER_HW_FIELDS"
    unfolding map_append collect_keys [OF a] collect_keys [OF b] by (simp add: hw_queries_def hw_queries2_def OTHER_HW_FIELDS_def HW_FIELDS_def)
  let ?ks = "sort (dkeys (tp_numa_nodes (sy_topology r)))"
  have "sorted_wrt (<) ?ks" using assms(3) by (simp add: strict_sorted_iff)
  then have "sorted_wrt (<) (map int ?ks)" by (simp add: sorted_wrt_map)
  moreover have "map fst (topology_nodes (sy_topology r)) = map int ?ks" by (simp add: topology_nodes_def o_def)
  ultimately show ?thesis using k by (simp add: hw collected_hw_def t list_all_iff)
qed

lemma run_collects:
  assumes "run_system_info e ff dmi now ver ic t = Inr si" "wf_dict (tp_numa_nodes t)" "dmi_ok dmi"
  shows "collected_info si \<and> (\<exists>r r'. new_sysrep e t = Inr r \<and> collect_hw e ff r = Inr (si_sys_hw si, r'))"
proof -
  obtain r r9 where r: "new_sysrep e t = Inr r" and c: "collect_all e ff dmi (tp_phys_mem t) now ver ic r = Inr (si, r9)"
    using assms(1) by (auto simp: run_system_info_def bindr_Inr_iff)
  obtain hw r1 d m kern r2 perf r3 where hw: "collect_hw e ff r = Inr (hw, r1)" and d: "dmi_definitions dmi = Inr d"
    and m: "collect_memory (tp_phys_mem t) d = Inr m" and kern: "collect (kern_queries e) r1 = Inr (kern, r2)"
    and perf: "collect (perf_queries e) r2 = Inr (perf, r3)"
    and si: "si_report si = [(''collected_time'', PStr now), (''asct_ver'', PStr ver), (''run_as_root'', PBool (is_superuser e))]"
      "si_sys_hw si = hw" "si_kern_cfg si = kern" "si_perf_feats si = perf" "si_memory si = m" "si_ready si" "si_loaded si = PNone"
      "si_sys_info si = (case d of None \<Rightarrow> no_fields SYS_INFO_FIELDS | Some t \<Rightarrow> texts_or_none SYS_INFO_FIELDS (dt_system t))"
      "si_bios_info si = (case d of None \<Rightarrow> no_fields BIOS_FIELDS | Some t \<Rightarrow> texts_or_none BIOS_FIELDS (dt_bios t))"
    using c unfolding collect_all_def by (auto simp only: query_Inr) auto
  have "honest e r" "sy_topology r = t" using r by (auto simp: new_sysrep_def honest_def bindr_Inr_iff)
  then have h: "collected_hw hw" using collect_hw_ok [OF hw] assms(2) by simp
  obtain q where q: "perf_queries e = q @ [(''bpf'', qbind (qask kernel_supports_bpf) (\<lambda>b. qbind (qlift (bpftool_installed e))
      (\<lambda>t. qbind (qlift (bpftrace_installed e)) (\<lambda>tr. qpure (PDict [(''bpf'', PBool b), (''bpf_tool'', opt_pv PStr t),
        (''bpf_tool_ver'', opt_pv PStr t), (''bpftrace'', opt_pv PStr tr)])))))]"
    "map fst q = butlast PERF_FIELDS"
    by (rule that [of "butlast (perf_queries e)"]) (simp_all add: perf_queries_def PERF_FIELDS_def)
  have "\<exists>p b. perf = p @ [(''bpf'', PDict b)] \<and> dkeys p = butlast PERF_FIELDS \<and> dkeys b = BPF_FIELDS"
  proof -
    have "\<exists>p b. perf = p @ [(''bpf'', PDict b)] \<and> dkeys p = map fst q \<and> dkeys b = BPF_FIELDS"
      using perf unfolding q(1)
    proof (induction q arbitrary: perf r2 r3)
      case Nil
      then show ?case by (auto simp: query_Inr BPF_FIELDS_def)
    next
      case (Cons f q)
      then obtain k g v ra rest rb where f: "f = (k, g)" and rest: "collect (q @ [(''bpf'', qbind (qask kernel_supports_bpf) (\<lambda>b. qbind (qlift (bpftool_installed e))
      (\<lambda>t. qbind (qlift (bpftrace_installed e)) (\<lambda>tr. qpure (PDict [(''bpf'', PBool b), (''bpf_tool'', opt_pv PStr t),
        (''bpf_tool_ver'', opt_pv PStr t), (''bpftrace'', opt_pv PStr tr)])))))]) ra = Inr (rest, rb)" and p: "perf = (k, v) # rest" 
        by (cases f) (auto simp: query_Inr)
      from Cons.IH [OF rest] obtain p b where "rest = p @ [(''bpf'', PDict b)]" "dkeys p = map fst q" "dkeys b = BPF_FIELDS" by blast
      with p f show ?case by (intro exI [of _ "(k, v) # p"] exI [of _ b]) simp
    qed
    then show ?thesis using q(2) by simp
  qed
  moreover have "dkeys (si_sys_info si) = SYS_INFO_FIELDS" "dkeys (si_bios_info si) = BIOS_FIELDS"
    using assms(3) d unfolding si(8,9) dmi_ok_def dmi_definitions_def
    by (auto simp: no_fields_def o_def SYS_INFO_FIELDS_def BIOS_FIELDS_def intro!: texts_keys split: option.splits sum.splits if_splits)
  ultimately have "collected_info si"
    using si(1-7) h collect_memory_keys [OF m] collect_keys [OF kern]
    by (simp add: collected_info_def REPORT_FIELDS_def kern_queries_def KERN_CFG_FIELDS_def)
  then show ?thesis using r hw si(2) by blast
qed

text \<open>
  C38.  On a machine that has not changed the hardware check of a resume passes: the saved report, read
  from its JSON text, is ready and has the hardware that a new run collects, whatever the two runs
  were asked for.
\<close>

theorem unchanged_machine_passes_check:
  assumes "run_system_info e ff dmi now ver ic t = Inr si" "run_system_info e ff dmi now' ver' ic' t = Inr si'"
    "wf_dict (tp_numa_nodes t)" "dmi_ok dmi" "json_ok fr fp (info_dict si)"
    "list_all (\<lambda>(k, v). wf_value v) (flatten_dict True CHR ''.'' [] (view (si_sys_hw si)))"
  shows "\<exists>sv. bindr (json_loads fp (json_dumps fr (info_dict si))) restore_system_info = Inr sv \<and>
    si_sys_hw sv = si_sys_hw si' \<and> check_hw_match shown (si_ready sv) (view (si_sys_hw si')) (view (si_sys_hw sv)) = Inr ()"
proof -
  from run_collects [OF assms(1,3,4)] run_collects [OF assms(2-4)]
  have c: "collected_info si" and same: "si_sys_hw si' = si_sys_hw si" by auto
  let ?sv = "si\<lparr>si_loaded := info_dict si\<rparr>" and ?h = "flatten_dict True CHR ''.'' [] (view (si_sys_hw si))"
  have "bindr (json_loads fp (json_dumps fr (info_dict si))) restore_system_info = Inr ?sv"
    using json_loads_dumps [OF assms(5)] info_restored [OF c] by simp
  moreover have r: "py_eq (dget ?h k MISSING) (dget ?h k MISSING)" for k
    using assms(6) by (intro py_eq_refl) (auto simp: dget_def list_all_iff MISSING_def dest!: map_of_SomeD split: option.splits)
  have "first_difference ?h ?h ks = None" for ks unfolding first_difference_None using r by blast
  then have "check_hw_match shown True (view (si_sys_hw si)) (view (si_sys_hw si)) = Inr ()" by (simp add: check_hw_match_def Let_def)
  ultimately show ?thesis using same c by (intro exI [of _ ?sv]) (simp add: collected_info_def)
qed

text \<open>Whatever is loaded counts as ready.\<close>

lemma empty_result_is_ready: "restore_system_info (PDict []) = Inr si \<Longrightarrow> si_ready si"
  by (auto simp: restore_system_info_def restore_dict_def bindr_Inr_iff)

lemma empty_result_restored: "\<exists>si. restore_system_info (PDict []) = Inr si \<and> si_ready si"
proof -
  have "\<not> isl (restore_system_info (PDict []))" by code_simp
  then show ?thesis using empty_result_is_ready by (cases "restore_system_info (PDict [])") auto
qed

section \<open>Bandwidth\<close>

text \<open>
  The bandwidth is that of all installed devices at the width and the speed of the last one; when
  its speed is unknown, the computation is an error, which ends the collection.
\<close>

theorem bandwidth_of_devices:
  "total_bandwidth (memory_properties ds) =
    (case rev ds of
       [] \<Rightarrow> Inr None
     | d # _ \<Rightarrow> (case md_speed d of
           Some s \<Rightarrow> Inr (Some (md_width d div 8 * int (length ds) * (s * 1000000)))
         | None \<Rightarrow> Inl (Exc TypeError ''unsupported operand type for NoneType'')))"
proof (cases ds rule: rev_cases)
  case (snoc ds' d)
  have "mp_channels (fold add_device ds m) = (if ds = [] then mp_channels m else Some ((case mp_channels m of None \<Rightarrow> 0 | Some n \<Rightarrow> n) + length ds))"
    for ds m by (induction ds arbitrary: m) (auto simp: add_device_def split: option.splits)
  from this [of ds no_memory] have "mp_channels (memory_properties ds) = Some (length ds)"
    using snoc by (simp add: memory_properties_def no_memory_def)
  then show ?thesis using snoc
    by (simp add: total_bandwidth_def memory_properties_def add_device_def split: option.splits)
qed (simp add: total_bandwidth_def memory_properties_def no_memory_def)

section \<open>Comparisons\<close>

lemma with_defaults_ok:
  "set (dkeys s) \<union> set names \<subseteq> set (dkeys (with_defaults names s))" "wf_dict s \<Longrightarrow> wf_dict (with_defaults names s)"
proof -
  show "set (dkeys s) \<union> set names \<subseteq> set (dkeys (with_defaults names s))"
  proof (induction names arbitrary: s)
    case (Cons f names)
    from Cons [of "if f \<in> set (dkeys s) then s else dset f PNone s"] show ?case by (auto simp: with_defaults_def split: if_splits)
  qed (simp add: with_defaults_def)
  show "wf_dict s \<Longrightarrow> wf_dict (with_defaults names s)"
    by (induction names arbitrary: s) (auto simp: with_defaults_def)
qed

lemma with_defaults_idle: "set names \<subseteq> set (dkeys s) \<Longrightarrow> with_defaults names s = s"
  by (induction names) (auto simp: with_defaults_def)

lemma section_default_again:
  assumes "section_default k names d = Inr d1" "wf_dict d"
  shows "wf_dict d1 \<and> (\<exists>s. map_of d1 k = Some (PDict s) \<and> set names \<subseteq> set (dkeys s)) \<and> (\<forall>j. j \<noteq> k \<longrightarrow> map_of d1 j = map_of d j)"
proof -
  obtain s where d1: "d1 = dset k (PDict (with_defaults names s)) d"
    using assms(1) by (auto simp: section_default_def split: pv.splits)
  have "set names \<subseteq> set (dkeys (with_defaults names s))" using with_defaults_ok(1) by blast
  moreover have "wf_dict d1" using assms(2) by (simp add: d1)
  moreover have "map_of d1 = (map_of d)(k \<mapsto> PDict (with_defaults names s))" by (simp add: d1)
  ultimately show ?thesis by simp
qed

lemma section_default_idle:
  assumes "wf_dict d" "map_of d k = Some (PDict s)" "set names \<subseteq> set (dkeys s)"
  shows "section_default k names d = Inr d"
proof -
  have "dget d k (PDict []) = PDict s" by (simp only: dget_def assms(2) option.case)
  then show ?thesis using dset_same [OF assms(1,2)] with_defaults_idle [OF assms(3)] by (simp add: section_default_def)
qed

text \<open>
  Normalising a result for the comparison gives it the fields of current results, and doing it
  again changes nothing, so that old and new results compare in the same form.
\<close>

theorem normalize_is_idempotent:
  assumes "normalize_diff_data (PDict d) = Inr v" "wf_dict d"
  shows "normalize_diff_data v = Inr v \<and> (\<exists>d' b m. v = PDict d' \<and> map_of d' ''bios_info'' = Some (PDict b) \<and> set BIOS_FIELDS \<subseteq> set (dkeys b) \<and>
    map_of d' ''memory'' = Some (PDict m) \<and> {''manufacturer'', ''part_number''} \<subseteq> set (dkeys m))"
proof -
  obtain d1 d2 d3 where d1: "section_default ''bios_info'' BIOS_FIELDS d = Inr d1"
    and d2: "section_default ''memory'' [''manufacturer'', ''part_number''] d1 = Inr d2" and d3: "features_as_dict d2 = Inr d3" and v: "v = PDict d3"
    using assms(1) by (auto simp: normalize_diff_data_def bindr_Inr_iff)
  from section_default_again [OF d1 assms(2)] obtain b where b: "wf_dict d1" "map_of d1 ''bios_info'' = Some (PDict b)" "set BIOS_FIELDS \<subseteq> set (dkeys b)"
    and o1: "\<And>j. j \<noteq> ''bios_info'' \<Longrightarrow> map_of d1 j = map_of d j" by blast
  from section_default_again [OF d2 b(1)] obtain m where m: "wf_dict d2" "map_of d2 ''memory'' = Some (PDict m)"
      "set [''manufacturer'', ''part_number''] \<subseteq> set (dkeys m)" and o2: "\<And>j. j \<noteq> ''memory'' \<Longrightarrow> map_of d2 j = map_of d1 j" by blast
  obtain s where s: "dget d2 ''sys_hw'' (PDict []) = PDict s"
    and d3': "d3 = dset ''sys_hw'' (PDict (case map_of s ''cpu_features'' of Some (PList vs) \<Rightarrow> dset ''cpu_features'' (PDict (indexed vs)) s | _ \<Rightarrow> s)) d2"
    using d3 by (auto simp: features_as_dict_def split: pv.splits)
  define s' where "s' = (case map_of s ''cpu_features'' of Some (PList vs) \<Rightarrow> dset ''cpu_features'' (PDict (indexed vs)) s | _ \<Rightarrow> s)"
  have g: "wf_dict d3" "map_of d3 ''bios_info'' = Some (PDict b)" "map_of d3 ''memory'' = Some (PDict m)" "map_of d3 ''sys_hw'' = Some (PDict s')"
    using m b o2 [of "''bios_info''"] unfolding d3' s'_def [symmetric] by simp_all
  have "(case map_of s' ''cpu_features'' of Some (PList vs) \<Rightarrow> dset ''cpu_features'' (PDict (indexed vs)) s' | _ \<Rightarrow> s') = s'"
    by (auto simp: s'_def split: option.splits pv.splits)
  then have "features_as_dict d3 = Inr d3" using g dset_same [OF g(1,4)] by (simp add: features_as_dict_def dget_def)
  then have "normalize_diff_data v = Inr v"
    using section_default_idle [OF g(1,2) b(3)] section_default_idle [OF g(1,3) m(3)] by (simp add: normalize_diff_data_def v)
  then show ?thesis using v g b(3) m(3) by auto
qed

section \<open>Concrete reports\<close>

theorem single_core_choice_is_local_witness:
  "single_core_cpu_choice [(2, (100, [4, 5])), (0, (100, [])), (1, (100, [3, 0, 2]))] = Inr [''3''] \<and>
    default_numa_node [(2, (100, [4, 5])), (0, (100, [])), (1, (100, [3, 0, 2]))] = Inr (Some 1)"
proof -
  let ?nodes = "[(2, (100, [4, 5])), (0, (100, [])), (1, (100, [3, 0, 2]))] :: numa_nodes"
  have w: "machine_nodes ?nodes" by code_simp
  have m: "int_str (Max (set [3, 0, 2])) = ''3''" by code_simp
  from single_core_choice_is_local [OF w, of 1 100 "[3, 0, 2]"] show ?thesis unfolding m by simp
qed

definition demo_info_env :: sys_env where
  "demo_info_env = demo_sys_env [([''proc'', ''iomem''], File ''00000000-ffffffff : ARMHC700:00''), ([''boot''], Dir),
     ([''boot'', ''config-6.8.0-45''], File ''CONFIG_NUMA=y'')]"

definition demo_formats :: float_formats where
  "demo_formats = \<lparr>ff_3g = (\<lambda>_. ''64''), ff_str = (\<lambda>_. ''64.0'')\<rparr>"

definition info_machine :: topology where
  "info_machine = new_topology\<lparr>tp_specs := [(demo_spec, [0])], tp_n_cpus_online := 2, tp_numa_nodes := [(0, (1024, [0, 1]))], tp_phys_mem := 4096\<rparr>"

definition info_run :: "string \<Rightarrow> info_object res" where
  "info_run now = run_system_info demo_info_env demo_formats (Inl (Exc PermissionError [])) now ''1.0''
     \<lparr>ic_advice = False, ic_kernel_config = False, ic_vulnerabilities = True\<rparr> info_machine"

text \<open>Values without floats, which need no reading of floats.\<close>

fun floatless :: "pv \<Rightarrow> bool" where
  "floatless (PFloat q) \<longleftrightarrow> False"
| "floatless (PList vs) \<longleftrightarrow> list_all floatless vs"
| "floatless (PDict d) \<longleftrightarrow> distinct (map fst d) \<and> list_all (\<lambda>kv. floatless (snd kv)) d"
| "floatless v \<longleftrightarrow> True"

lemma floatless_json_ok: "floatless v \<Longrightarrow> json_ok fr fp v"
  by (induction v rule: floatless.induct) (auto simp: list_all_iff)

lemma info_run_ok: "(case info_run ''first'' of Inl e \<Rightarrow> False | Inr si \<Rightarrow>
    floatless (info_dict si) \<and> list_all (\<lambda>(k, v). wf_value v) (flatten_dict True CHR ''.'' [] (hw_json (si_sys_hw si))) \<and>
    sh_numa_nodes (si_sys_hw si) = Nodes [(0, [PInt 1024, PList [PInt 0, PInt 1]])])"
  by code_simp

lemma info_run_again: "\<not> isl (info_run ''second'')"
  by code_simp

theorem unchanged_machine_passes_check_witness:
  "\<exists>si si' sv. info_run ''first'' = Inr si \<and> info_run ''second'' = Inr si' \<and>
    bindr (json_loads (\<lambda>_. 1 / 2) (json_dumps (\<lambda>_. ''0.5'') (info_dict si))) restore_system_info = Inr sv \<and>
    sh_numa_nodes (si_sys_hw sv) = Nodes [(0, [PInt 1024, PList [PInt 0, PInt 1]])] \<and>
    check_hw_match (\<lambda>_. []) (si_ready sv) (hw_json (si_sys_hw si')) (hw_json (si_sys_hw sv)) = Inr ()"
proof -
  obtain si where si: "info_run ''first'' = Inr si" using info_run_ok by (cases "info_run ''first''") auto
  obtain si' where si': "info_run ''second'' = Inr si'" using info_run_again by (cases "info_run ''second''") auto
  note d = info_run_ok [unfolded si sum.case]
  have w: "wf_dict (tp_numa_nodes info_machine)" by code_simp
  have o: "dmi_ok (Inl (Exc PermissionError []))" by (simp add: dmi_ok_def)
  from unchanged_machine_passes_check [where view = hw_json, OF si [unfolded info_run_def] si' [unfolded info_run_def] w o floatless_json_ok [OF conjunct1 [OF d]] conjunct1 [OF conjunct2 [OF d]]]
  obtain sv where sv: "bindr (json_loads (\<lambda>_. 1 / 2) (json_dumps (\<lambda>_. ''0.5'') (info_dict si))) restore_system_info = Inr sv"
    "si_sys_hw sv = si_sys_hw si'" "check_hw_match (\<lambda>_. []) (si_ready sv) (hw_json (si_sys_hw si')) (hw_json (si_sys_hw sv)) = Inr ()" by blast
  have "si_sys_hw si' = si_sys_hw si"
    using run_collects [OF si [unfolded info_run_def] w o] run_collects [OF si' [unfolded info_run_def] w o] by auto
  with si si' sv conjunct2 [OF conjunct2 [OF d]] show ?thesis by metis
qed

theorem normalize_is_idempotent_witness:
  "\<exists>v. normalize_diff_data (PDict [(''sys_hw'', PDict [(''cpu_features'', PList [PStr ''fp''])])]) = Inr v \<and> normalize_diff_data v = Inr v \<and>
    v = PDict [(''sys_hw'', PDict [(''cpu_features'', PDict [(''0'', PStr ''fp'')])]),
      (''bios_info'', PDict [(''vendor'', PNone), (''version'', PNone), (''release_date'', PNone)]),
      (''memory'', PDict [(''manufacturer'', PNone), (''part_number'', PNone)])]"
proof -
  have v: "normalize_diff_data (PDict [(''sys_hw'', PDict [(''cpu_features'', PList [PStr ''fp''])])]) =
    Inr (PDict [(''sys_hw'', PDict [(''cpu_features'', PDict [(''0'', PStr ''fp'')])]),
      (''bios_info'', PDict [(''vendor'', PNone), (''version'', PNone), (''release_date'', PNone)]),
      (''memory'', PDict [(''manufacturer'', PNone), (''part_number'', PNone)])])" by code_simp
  from normalize_is_idempotent [OF v] v show ?thesis by auto
qed

end
