(* ===== verification/Sweep_Search.thy ===== *)
theory Sweep_Search
  imports Py_Value Config_Schema Py_Json Complex_Main
begin

text \<open>
  The search for the sizes of the latency sweep: \<open>src/core/sweep_algorithm.py\<close>, the steps of
  \<open>CycleLatencySweep\<close> in \<open>src/core/recipes/impl/memory_load_latency.py\<close>, and
  \<open>range_up\<close> of \<open>src/lib/utility/numeric.py\<close>.

  A data frame is a list of rows, a missing cell is NaN.  Numbers are rationals; logarithm,
  powers, the rounding of floating point numbers and the clustering of the numerical libraries
  are the record \<open>numerics\<close>.  What the
  measurement of a size does to the machine is a function on a state.
\<close>

section \<open>Ranges of sizes\<close>

text \<open>\<open>range_up\<close> is a generator; \<open>None\<close> is a list of it that never ends.\<close>

definition inter_steps :: "rat \<Rightarrow> int \<Rightarrow> rat \<Rightarrow> rat list" where
  "inter_steps d steps step =
     (if steps \<ge> 2 then map (\<lambda>i. d * (1 + of_int i * ((step - 1) / of_int steps))) [1..steps - 1] else [])"

partial_function (option) range_up_loop :: "rat \<Rightarrow> int \<Rightarrow> rat \<Rightarrow> rat \<Rightarrow> rat list \<Rightarrow> rat list option" where
  "range_up_loop hi steps step d found =
     (if d \<le> hi
      then if list_all (\<lambda>m. m \<le> hi) (inter_steps d steps step)
           then range_up_loop hi steps step (d * step) (found @ d # inter_steps d steps step)
           else Some (found @ d # takeWhile (\<lambda>m. m \<le> hi) (inter_steps d steps step))
      else Some found)"

declare range_up_loop.simps [code]

definition range_up :: "rat \<Rightarrow> rat \<Rightarrow> int \<Rightarrow> rat \<Rightarrow> rat list res option" where
  "range_up lo hi steps step =
     (if steps < 1 then Some (Inl (Exc ValueError ''invalid inter-step count''))
      else if \<not> step > 1 then Some (Inl (Exc ValueError ''invalid step size''))
      else map_option Inr (range_up_loop hi steps step lo []))"

section \<open>Frames\<close>

record row =
  rw_sizes :: int
  rw_cells :: "(string, rat) dict"

type_synonym frame = "row list"

definition cell :: "string \<Rightarrow> row \<Rightarrow> rat option" where
  "cell c r = (if c = ''sizes'' then Some (of_int (rw_sizes r)) else map_of (rw_cells r) c)"

definition frame_columns :: "frame \<Rightarrow> string list" where
  "frame_columns df = ''sizes'' # concat (map (\<lambda>r. dkeys (rw_cells r)) df)"

text \<open>The library sorts by size; the order of rows of equal size is left open there.\<close>

definition by_sizes :: "frame \<Rightarrow> frame" where
  "by_sizes df = sort_key rw_sizes df"

text \<open>Least and largest value of a column, NaN when it is empty.\<close>

definition max_of :: "'a::linorder list \<Rightarrow> 'a option" where
  "max_of xs = (if xs = [] then None else Some (Max (set xs)))"

definition min_of :: "'a::linorder list \<Rightarrow> 'a option" where
  "min_of xs = (if xs = [] then None else Some (Min (set xs)))"

section \<open>Levels from misses\<close>

text \<open>The edges of the plateau of a level: where the misses of this level are complete and those
  of the next one have not begun.\<close>

definition on_plateau :: "string option \<Rightarrow> string option \<Rightarrow> row \<Rightarrow> bool" where
  "on_plateau plateau_name next_plateau_name r =
     ((case plateau_name of None \<Rightarrow> True
       | Some c \<Rightarrow> (case cell c r of None \<Rightarrow> False | Some v \<Rightarrow> v \<ge> 95 / 100)) \<and>
      (case next_plateau_name of None \<Rightarrow> True
       | Some c \<Rightarrow> (case cell c r of None \<Rightarrow> False | Some v \<Rightarrow> v < 5 / 100)))"

definition middle_size :: "int \<Rightarrow> int \<Rightarrow> int" where
  "middle_size a b = trunc (of_int (a + b) / 2)"

definition lower_edge :: "frame \<Rightarrow> int \<Rightarrow> int list" where
  "lower_edge df lb =
     (let before_plateau = filter (\<lambda>s. s < lb) (map rw_sizes df);
          too_small = (case max_of before_plateau of None \<Rightarrow> 0 | Some s \<Rightarrow> s)
      in if too_small < lb - 1 then [middle_size lb too_small] else [])"

definition upper_edge :: "frame \<Rightarrow> int \<Rightarrow> int \<Rightarrow> int list" where
  "upper_edge df max_size ub =
     (let after_plateau = filter (\<lambda>s. s > ub) (map rw_sizes df);
          too_large = (case min_of after_plateau of None \<Rightarrow> max_size | Some s \<Rightarrow> s)
      in if too_large > ub + 1 then [middle_size ub too_large] else [])"

definition explore_plateau ::
  "int \<Rightarrow> int \<Rightarrow> frame \<Rightarrow> string option \<Rightarrow> string option \<Rightarrow> int list \<times> (int \<times> int)" where
  "explore_plateau min_size max_size df plateau_name next_plateau_name =
     (let plateau = map rw_sizes (filter (on_plateau plateau_name next_plateau_name) df);
          lb = (if plateau \<noteq> [] \<and> plateau_name \<noteq> None then Min (set plateau) else min_size);
          ub = (if plateau \<noteq> [] \<and> next_plateau_name \<noteq> None then Max (set plateau) else max_size)
      in ((if plateau \<noteq> [] \<and> plateau_name \<noteq> None then lower_edge df lb else []) @
          (if plateau \<noteq> [] \<and> next_plateau_name \<noteq> None then upper_edge df max_size ub else []), (lb, ub)))"

text \<open>The caller subtracts a set from a list, which Python refuses before any level is explored.\<close>

definition compute_new_data_sizes_pmu :: "frame \<Rightarrow> (int list \<times> (string, int \<times> int) dict) res" where
  "compute_new_data_sizes_pmu df =
     Inl (Exc TypeError ''unsupported operand type(s) for -: list and set'')"

section \<open>Levels from latencies\<close>

text \<open>
  The functions round their own results; \<open>nx_round\<close> is the rounding of sums, products and
  quotients.  Halving a floating point number is exact.
\<close>

record numerics =
  nx_round :: "rat \<Rightarrow> rat"
  nx_log2 :: "rat \<Rightarrow> rat"
  nx_exp2 :: "rat \<Rightarrow> rat"
  nx_power2 :: "rat \<Rightarrow> rat"
  nx_kmeans :: "rat list \<Rightarrow> (nat list \<times> rat list) res"

text \<open>\<open>run_kmeans_y\<close>: every row gets the rank of the centre of its cluster.  The library refuses
  values that are NaN and fewer values than clusters.\<close>

definition new_cluster_order :: "rat list \<Rightarrow> (nat, nat) dict" where
  "new_cluster_order centers =
     (let sorted_indices = sort_key (\<lambda>i. centers ! i) [0..<length centers]
      in zip sorted_indices [0..<length centers])"

definition run_kmeans_y :: "numerics \<Rightarrow> rat list \<Rightarrow> nat option list res" where
  "run_kmeans_y nx ys = bindr (nx_kmeans nx ys) (\<lambda>(labels, centers). Inr (map (map_of (new_cluster_order centers)) labels))"

definition median :: "numerics \<Rightarrow> rat list \<Rightarrow> rat" where
  "median nx xs =
     (let ys = sort xs; n = length ys
      in if odd n then ys ! (n div 2) else nx_round nx (ys ! (n div 2 - 1) + ys ! (n div 2)) / 2)"

definition cluster_medians :: "numerics \<Rightarrow> nat option list \<Rightarrow> rat list \<Rightarrow> (nat, rat) dict" where
  "cluster_medians nx clusters ys =
     map (\<lambda>c. (c, median nx (map snd (filter (\<lambda>(l, y). l = Some c) (zip clusters ys)))))
       (sorted_list_of_set (set (List.map_filter id clusters)))"

text \<open>The sizes around the lower and the upper edge of a cluster, five percent off its median.\<close>

record edges =
  ed_left :: "rat option"
  ed_left_inside :: "rat option"
  ed_right_inside :: "rat option"
  ed_right :: "rat option"

definition cluster_edges :: "numerics \<Rightarrow> (rat \<times> rat) list \<Rightarrow> rat \<Rightarrow> edges" where
  "cluster_edges nx points med =
     (let delta = nx_round nx (5 / 100);
          lower = nx_round nx (nx_log2 nx (nx_round nx (1 - delta)) + med);
          upper = nx_round nx (nx_log2 nx (nx_round nx (1 + delta)) + med)
      in \<lparr>ed_left = max_of (map fst (filter (\<lambda>(x, y). y < lower) points)),
          ed_left_inside = min_of (map fst (filter (\<lambda>(x, y). y \<ge> lower) points)),
          ed_right_inside = max_of (map fst (filter (\<lambda>(x, y). y \<le> upper) points)),
          ed_right = min_of (map fst (filter (\<lambda>(x, y). y > upper) points))\<rparr>)"

text \<open>Bounds of a level; \<open>None\<close> is the infinity that they start with.\<close>

type_synonym level_bounds = "(string, rat option \<times> rat option) dict"

definition initial_bounds :: "string list \<Rightarrow> level_bounds" where
  "initial_bounds levels = map (\<lambda>l. (l, (None, None))) levels"

definition skipna :: "rat option list \<Rightarrow> rat list" where
  "skipna vs = List.map_filter id vs"

definition fix_lb :: "edges \<Rightarrow> rat option \<Rightarrow> rat option" where
  "fix_lb e lb =
     (case max_of (skipna [ed_left e, ed_left_inside e]) of
        None \<Rightarrow> lb
      | Some c \<Rightarrow> (case lb of None \<Rightarrow> Some c | Some l \<Rightarrow> Some (if c < l then c else l)))"

definition fix_ub :: "edges \<Rightarrow> rat option \<Rightarrow> rat option" where
  "fix_ub e ub =
     (case min_of (skipna [ed_right e, ed_right_inside e]) of
        None \<Rightarrow> ub
      | Some c \<Rightarrow> (case ub of None \<Rightarrow> Some c | Some u \<Rightarrow> Some (if c > u then c else u)))"

text \<open>The middle of an edge is tried when it extends the bounds and the gap is more than one
  percent of the bound.\<close>

definition middle :: "numerics \<Rightarrow> rat \<Rightarrow> rat \<Rightarrow> rat" where
  "middle nx a b = nx_round nx (a + b) / 2"

definition gap_percent :: "numerics \<Rightarrow> rat \<Rightarrow> rat \<Rightarrow> rat \<Rightarrow> rat" where
  "gap_percent nx a b bound =
     nx_round nx (nx_round nx (100 * nx_round nx (nx_power2 nx b - nx_power2 nx a)) / nx_power2 nx bound)"

definition try_left :: "numerics \<Rightarrow> edges \<Rightarrow> rat option \<Rightarrow> rat list" where
  "try_left nx e lb =
     (case (ed_left e, ed_left_inside e, lb) of
        (Some a, Some b, Some l) \<Rightarrow>
          (if middle nx a b < l \<and> gap_percent nx a b l > 1 then [middle nx a b] else [])
      | _ \<Rightarrow> [])"

definition try_right :: "numerics \<Rightarrow> edges \<Rightarrow> rat option \<Rightarrow> rat list" where
  "try_right nx e ub =
     (case (ed_right_inside e, ed_right e, ub) of
        (Some a, Some b, Some u) \<Rightarrow>
          (if middle nx a b > u \<and> gap_percent nx a b u > 1 then [middle nx a b] else [])
      | _ \<Rightarrow> [])"

definition refine_level :: "numerics \<Rightarrow> (rat \<times> rat) list \<Rightarrow> rat \<Rightarrow> string \<Rightarrow> rat list \<times> level_bounds \<Rightarrow> rat list \<times> level_bounds" where
  "refine_level nx points med level st =
     (case st of (found, bounds) \<Rightarrow>
      (case map_of bounds level of
         None \<Rightarrow> (found, bounds)
       | Some (lb, ub) \<Rightarrow>
          (let e = cluster_edges nx points med; lb' = fix_lb e lb; ub' = fix_ub e ub
           in (found @ try_right nx e ub' @ try_left nx e lb', dset level (lb', ub') bounds))))"

definition refinement_logics ::
  "numerics \<Rightarrow> string list \<Rightarrow> (rat \<times> rat) list \<Rightarrow> level_bounds \<Rightarrow> (rat list \<times> level_bounds) res" where
  "refinement_logics nx levels points bounds =
     bindr (run_kmeans_y nx (map snd points)) (\<lambda>clusters.
       (let meds = map snd (cluster_medians nx clusters (map snd points))
        in if length meds > length levels then Inl (Exc ValueError ''Length of values does not match length of index'')
           else Inr (fold (\<lambda>(med, level). refine_level nx points med level) (zip meds levels) ([], bounds))))"

definition compute_new_data_sizes_cpm ::
  "numerics \<Rightarrow> string list \<Rightarrow> frame \<Rightarrow> string \<Rightarrow> level_bounds \<Rightarrow> bool \<Rightarrow> (int list \<times> level_bounds) res" where
  "compute_new_data_sizes_cpm nx levels df cpm_metric bounds log_scale =
     (if cpm_metric \<notin> set (frame_columns df) then Inl (Exc ValueError (''DataFrame is missing required column: '' @ cpm_metric))
      else if \<not> log_scale then Inl (Exc TypeError ''refinement_logics() missing 1 required argument: bounds_df'')
      else (case those (map (cell cpm_metric) (by_sizes df)) of
          None \<Rightarrow> Inl (Exc ValueError ''Input y contains NaN.'')
        | Some ys \<Rightarrow>
            bindr (refinement_logics nx levels
                (zip (map (\<lambda>r. nx_log2 nx (of_int (rw_sizes r))) (by_sizes df)) (map (nx_log2 nx) ys)) bounds)
              (\<lambda>(found, bounds').
                Inr (sorted_list_of_set (set (map (\<lambda>v. trunc (nx_exp2 nx v)) found) - set (map rw_sizes df)), bounds'))))"

section \<open>The steps of the latency sweep\<close>

text \<open>\<open>one_step\<close> measures a size: the columns of a row, and the new state of the machine.\<close>

type_synonym 'w measure = "int \<Rightarrow> 'w \<Rightarrow> (string, rat) dict res \<times> 'w"

fun measure_sizes :: "'w measure \<Rightarrow> int list \<Rightarrow> frame \<Rightarrow> 'w \<Rightarrow> frame res \<times> 'w" where
  "measure_sizes one_step [] dfs w = (Inr dfs, w)"
| "measure_sizes one_step (s # ss) dfs w =
     (case one_step s w of
        (Inl e, w') \<Rightarrow> (Inl e, w')
      | (Inr cells, w') \<Rightarrow> measure_sizes one_step ss (dfs @ [\<lparr>rw_sizes = s, rw_cells = cells\<rparr>]) w')"

partial_function (option) refine_sweep ::
  "numerics \<Rightarrow> string list \<Rightarrow> string \<Rightarrow> 'w measure \<Rightarrow> frame \<Rightarrow> level_bounds \<Rightarrow> 'w \<Rightarrow> ((frame \<times> level_bounds) res \<times> 'w) option" where
  "refine_sweep nx levels cpm_metric one_step df bounds w =
     (case compute_new_data_sizes_cpm nx levels df cpm_metric bounds True of
        Inl e \<Rightarrow> Some (Inl e, w)
      | Inr (new_data_sizes, bounds') \<Rightarrow>
          (if new_data_sizes = [] then Some (Inr (df, bounds'), w)
           else (case measure_sizes one_step new_data_sizes df w of
               (Inl e, w') \<Rightarrow> Some (Inl e, w')
             | (Inr dfs, w') \<Rightarrow> refine_sweep nx levels cpm_metric one_step (by_sizes dfs) bounds' w')))"

declare refine_sweep.simps [code]

text \<open>The bounds become powers of two of 64-bit integers; an infinite bound cannot be converted.\<close>

definition level_size :: "rat option \<Rightarrow> int res" where
  "level_size b =
     (case b of
        None \<Rightarrow> Inl (Exc ValueError ''Cannot convert non-finite values (NA or inf) to integer'')
      | Some v \<Rightarrow>
          (if trunc v < 0 then Inl (Exc ValueError ''Integers to negative integer powers are not allowed.'')
           else Inr (signed_take_bit 63 (2 ^ nat (trunc v)))))"

record level_summary =
  ls_LB :: int
  ls_UB :: int
  ls_sweet_spot :: row

definition level_sizes :: "level_bounds \<Rightarrow> (string, int \<times> int) dict res" where
  "level_sizes bounds =
     bindr (map_res (\<lambda>(l, lb, ub). bindr (level_size lb) (\<lambda>b. Inr (l, b))) bounds) (\<lambda>lbs.
     bindr (map_res (\<lambda>(l, lb, ub). bindr (level_size ub) (\<lambda>b. Inr b)) bounds) (\<lambda>ubs.
       Inr (map (\<lambda>((l, lb), ub). (l, lb, ub)) (zip lbs ubs))))"

fun sweet_spots ::
  "'w measure \<Rightarrow> (string, int \<times> int) dict \<Rightarrow> (string, level_summary) dict \<times> frame \<Rightarrow> 'w \<Rightarrow> ((string, level_summary) dict \<times> frame) res \<times> 'w" where
  "sweet_spots one_step [] st w = (Inr st, w)"
| "sweet_spots one_step ((level, lb, ub) # ls) (summary, dfs) w =
     (case one_step (trunc (of_int (ub + lb) / 2)) w of
        (Inl e, w') \<Rightarrow> (Inl e, w')
      | (Inr cells, w') \<Rightarrow>
          (let r = \<lparr>rw_sizes = trunc (of_int (ub + lb) / 2), rw_cells = cells\<rparr>
           in sweet_spots one_step ls
                (dset level \<lparr>ls_LB = lb, ls_UB = ub, ls_sweet_spot = r\<rparr> summary, dfs @ [r]) w'))"

definition MIN_DATA_SIZE :: int where
  "MIN_DATA_SIZE = 128"

definition MAX_DATA_SIZE :: int where
  "MAX_DATA_SIZE = 1073741825"

definition level_names :: "string list" where
  "level_names = [''L1'', ''L2'', ''LLC'', ''DRAM'']"

definition data_size_list :: "int list res option" where
  "data_size_list = map_option (map_sum id (map trunc)) (range_up (of_int MIN_DATA_SIZE) (of_int MAX_DATA_SIZE) 1 2)"

text \<open>The sizes measured first, unless the results of an earlier run are there.\<close>

definition presweep :: "'w measure \<Rightarrow> frame option \<Rightarrow> 'w \<Rightarrow> (frame res \<times> 'w) option" where
  "presweep one_step cached w =
     (case cached of
        Some df \<Rightarrow> Some (Inr df, w)
      | None \<Rightarrow> (case data_size_list of
            None \<Rightarrow> None
          | Some (Inl e) \<Rightarrow> Some (Inl e, w)
          | Some (Inr sizes) \<Rightarrow> Some (case measure_sizes one_step sizes [] w of (x, w') \<Rightarrow> (map_sum id by_sizes x, w'))))"

definition finish_sweep ::
  "'w measure \<Rightarrow> frame \<times> level_bounds \<Rightarrow> 'w \<Rightarrow> ((string, level_summary) dict \<times> frame) res \<times> 'w" where
  "finish_sweep one_step found w =
     (case found of (df, bounds) \<Rightarrow>
      (case level_sizes bounds of
         Inl e \<Rightarrow> (Inl e, w)
       | Inr sizes \<Rightarrow> (case sweet_spots one_step sizes ([], df) w of
             (x, w') \<Rightarrow> (map_sum id (\<lambda>(summary, dfs). (summary, by_sizes dfs)) x, w'))))"

definition latency_sweep ::
  "numerics \<Rightarrow> string \<Rightarrow> 'w measure \<Rightarrow> frame option \<Rightarrow> 'w \<Rightarrow> (((string, level_summary) dict \<times> frame) res \<times> 'w) option" where
  "latency_sweep nx cpm_metric one_step cached w =
     (case presweep one_step cached w of
        None \<Rightarrow> None
      | Some (Inl e, w1) \<Rightarrow> Some (Inl e, w1)
      | Some (Inr df, w1) \<Rightarrow>
          (case refine_sweep nx level_names cpm_metric one_step df (initial_bounds level_names) w1 of
             None \<Rightarrow> None
           | Some (Inl e, w2) \<Rightarrow> Some (Inl e, w2)
           | Some (Inr found, w2) \<Rightarrow> Some (finish_sweep one_step found w2)))"

section \<open>The search from a function\<close>

text \<open>\<open>explore_plateau_endpoints\<close>: first in steps of a factor, then by halving the intervals at
  the ends of plateaus until no interval is left.\<close>

partial_function (option) exponential_sweep :: "(rat \<Rightarrow> rat) \<Rightarrow> rat \<Rightarrow> rat \<Rightarrow> rat \<Rightarrow> (rat \<times> rat) list \<Rightarrow> (rat \<times> rat) list option" where
  "exponential_sweep f x_max growth_factor x explored =
     (if x < x_max then exponential_sweep f x_max growth_factor (x * growth_factor) (explored @ [(x, f x)]) else Some explored)"

declare exponential_sweep.simps [code]

definition rel_change :: "rat \<Rightarrow> rat \<Rightarrow> rat" where
  "rel_change y0 y1 = (if y0 \<noteq> 0 then abs ((y1 - y0) / y0) else 0)"

definition endpoint_refinements :: "(rat \<Rightarrow> rat) \<Rightarrow> rat \<Rightarrow> rat \<Rightarrow> (rat \<times> rat) \<times> (rat \<times> rat) \<times> (rat \<times> rat) \<Rightarrow> (rat \<times> rat) list" where
  "endpoint_refinements f changed_threshold unchanged_threshold t =
     (case t of ((x_prev, y_prev), (x_curr, y_curr), (x_next, y_next)) \<Rightarrow>
      (let change_prev = rel_change y_prev y_curr; change_next = rel_change y_curr y_next
       in (if change_prev < unchanged_threshold \<and> change_next > changed_threshold
           then [((x_curr + x_next) / 2, f ((x_curr + x_next) / 2))] else []) @
          (if change_next < unchanged_threshold \<and> change_prev > changed_threshold
           then [((x_curr + x_prev) / 2, f ((x_curr + x_prev) / 2))] else [])))"

fun triples :: "'a list \<Rightarrow> ('a \<times> 'a \<times> 'a) list" where
  "triples (x # y # z # r) = (x, y, z) # triples (y # z # r)"
| "triples _ = []"

partial_function (option) refine_endpoints :: "rat \<Rightarrow> rat \<Rightarrow> (rat \<Rightarrow> rat) \<Rightarrow> (rat \<times> rat) list \<Rightarrow> (rat \<times> rat) list option" where
  "refine_endpoints changed_threshold unchanged_threshold f explored =
     (let new_points = concat (map (endpoint_refinements f changed_threshold unchanged_threshold) (triples explored))
      in if new_points = [] then Some explored
         else refine_endpoints changed_threshold unchanged_threshold f (sort_key fst (remdups (explored @ new_points))))"

declare refine_endpoints.simps [code]

definition explore_plateau_endpoints :: "(rat \<Rightarrow> rat) \<Rightarrow> rat \<Rightarrow> rat \<Rightarrow> rat \<Rightarrow> rat \<Rightarrow> rat \<Rightarrow> (rat \<times> rat) list option" where
  "explore_plateau_endpoints f x_min x_max growth_factor changed_threshold unchanged_threshold =
     Option.bind (exponential_sweep f x_max growth_factor x_min []) (refine_endpoints changed_threshold unchanged_threshold f)"

section \<open>The model of the latencies\<close>

text \<open>Two numbers are close as the library compares them.\<close>

definition isclose :: "rat \<Rightarrow> rat \<Rightarrow> bool" where
  "isclose a b = (abs (a - b) \<le> 1 / 10 ^ 8 + 1 / 10 ^ 5 * abs b)"

definition sigmoid :: "(rat \<Rightarrow> rat) \<Rightarrow> rat \<Rightarrow> rat \<Rightarrow> rat \<Rightarrow> rat" where
  "sigmoid py_exp k x0 x = 1 / (1 + py_exp (- k * (x - x0)))"

definition scaled_sigmoid :: "(rat \<Rightarrow> rat) \<Rightarrow> rat \<Rightarrow> rat \<Rightarrow> rat \<Rightarrow> rat \<Rightarrow> rat \<Rightarrow> rat \<Rightarrow> rat \<Rightarrow> rat res" where
  "scaled_sigmoid py_exp x x_min x_start x_finish x_max y_min y_max =
     (let x0 = (x_start + x_finish) / 2; k = 8 / (x_finish - x_start);
          s = sigmoid py_exp k x0 x; s_min = sigmoid py_exp k x0 x_min; s_max = sigmoid py_exp k x0 x_max
      in if isclose s_min s_max then Inl (Exc ValueError ''Scaled sigmoid cannot be computed'')
         else Inr (y_min + (y_max - y_min) * ((s - s_min) / (s_max - s_min))))"

definition modeled_cpm :: "(rat \<Rightarrow> rat) \<Rightarrow> rat \<Rightarrow> rat res" where
  "modeled_cpm py_exp x =
     bindr (scaled_sigmoid py_exp x 0 80000 300000 500000 4 16) (\<lambda>L1_L2.
     bindr (scaled_sigmoid py_exp x 500000 1000000 8000000 10000000 16 64) (\<lambda>L2_LLC.
     bindr (scaled_sigmoid py_exp x 10000000 20000000 100000000 200000000 64 256) (\<lambda>LLC_RAM.
       Inr (if x \<le> 500000 then L1_L2 else if x \<le> 10000000 then L2_LLC else if x \<le> 200000000 then LLC_RAM else 256))))"

section \<open>Ranges end\<close>

lemma range_up_diverges:
  assumes "x \<le> 0" "0 \<le> hi" "1 \<le> steps" "1 < step"
  shows "range_up_loop hi steps step x r = None"
proof -
  have small: "list_all (\<lambda>m. m \<le> hi) (inter_steps y steps step)" if "y \<le> 0" for y
    using that assms by (auto simp: inter_steps_def list_all_iff mult_nonpos_nonneg intro!: order_trans [of _ 0 hi])
  have "x \<le> 0 \<longrightarrow> 0 \<le> hi \<longrightarrow> 1 \<le> steps \<longrightarrow> 1 < step \<longrightarrow> False" if "range_up_loop hi steps step x r = Some l" for l
    using that
  proof (rule range_up_loop.raw_induct [where P = "\<lambda>hi steps step x r l. x \<le> 0 \<longrightarrow> 0 \<le> hi \<longrightarrow> 1 \<le> steps \<longrightarrow> 1 < step \<longrightarrow> False", rotated], goal_cases)
    case (1 f hi steps step x r l)
    show ?case
    proof (intro impI)
      assume h: "x \<le> 0" "0 \<le> hi" "1 \<le> steps" "1 < step"
      have "list_all (\<lambda>m. m \<le> hi) (inter_steps x steps step)"
        using h by (auto simp: inter_steps_def list_all_iff mult_nonpos_nonneg intro!: order_trans [of _ 0 hi])
      moreover have "x * step \<le> 0" using h by (simp add: mult_nonpos_nonneg)
      ultimately show False using 1 h by (auto split: if_splits)
    qed
  qed
  thus ?thesis using assms by (cases "range_up_loop hi steps step x r") auto
qed

text \<open>From a positive size the range ends, with every size between its ends.\<close>

lemma range_up_ends:
  assumes "0 < x" "1 < step"
  shows "\<exists>r. range_up_loop hi steps step x found = Some (found @ r) \<and> (\<forall>s\<in>set r. x \<le> s \<and> s \<le> hi)"
proof -
  define d where "d = x * (step - 1)"
  have d: "0 < d" using assms by (simp add: d_def)
  obtain n where n: "hi - x < of_nat n * d" using ex_less_of_nat_mult [OF d] by blast
  have "hi - y < of_nat n * d \<Longrightarrow> x \<le> y \<Longrightarrow>
      \<exists>r. range_up_loop hi steps step y found = Some (found @ r) \<and> (\<forall>s\<in>set r. x \<le> s \<and> s \<le> hi)" for y
  proof (induction n arbitrary: y found)
    case 0
    thus ?case by (subst range_up_loop.simps) simp
  next
    case (Suc n)
    have y: "0 < y" using Suc.prems(2) assms by simp
    have ge: "x \<le> m" if m: "m \<in> set (inter_steps y steps step)" for m
    proof -
      have st: "2 \<le> steps" and "m \<in> (\<lambda>i. y * (1 + of_int i * ((step - 1) / of_int steps))) ` {1..steps - 1}"
        using m by (simp_all add: inter_steps_def split: if_splits)
      then obtain i where i: "m = y * (1 + of_int i * ((step - 1) / of_int steps))" "1 \<le> i"
        by (auto simp only: atLeastAtMost_iff elim!: imageE)
      have "0 \<le> (of_int i :: rat) * ((step - 1) / of_int steps)" using i(2) st assms by simp
      hence "y * 1 \<le> m" unfolding i(1) using y by (intro mult_left_mono) simp_all
      thus ?thesis using Suc.prems(2) by simp
    qed
    have "d \<le> y * (step - 1)" using Suc.prems(2) assms unfolding d_def by (intro mult_right_mono) simp_all
    hence "hi - y * step < of_nat n * d" using Suc.prems(1) by (simp add: algebra_simps)
    moreover have "x \<le> y * step"
      by (rule order_trans [OF Suc.prems(2)]) (use assms y in simp)
    ultimately obtain r where r: "range_up_loop hi steps step (y * step) (found @ y # inter_steps y steps step) =
        Some ((found @ y # inter_steps y steps step) @ r)" "\<forall>s\<in>set r. x \<le> s \<and> s \<le> hi"
      using Suc.IH by blast
    show ?case
    proof (cases "y \<le> hi")
      case False
      thus ?thesis by (subst range_up_loop.simps) simp
    next
      case True
      show ?thesis
      proof (cases "list_all (\<lambda>m. m \<le> hi) (inter_steps y steps step)")
        case True
        hence "range_up_loop hi steps step y found = Some (found @ y # inter_steps y steps step @ r)"
          using r(1) \<open>y \<le> hi\<close> by (subst range_up_loop.simps) simp
        thus ?thesis using r(2) True ge Suc.prems(2) \<open>y \<le> hi\<close>
          by (intro exI [of _ "y # inter_steps y steps step @ r"]) (auto simp: list_all_iff)
      next
        case False
        hence "range_up_loop hi steps step y found = Some (found @ y # takeWhile (\<lambda>m. m \<le> hi) (inter_steps y steps step))"
          using \<open>y \<le> hi\<close> by (subst range_up_loop.simps) simp
        thus ?thesis using ge Suc.prems(2) \<open>y \<le> hi\<close>
          by (intro exI [of _ "y # takeWhile (\<lambda>m. m \<le> hi) (inter_steps y steps step)"]) (auto dest: set_takeWhileD)
      qed
    qed
  qed
  thus ?thesis using n by simp
qed

section \<open>A plateau is bisected\<close>

lemma middle_size_between:
  assumes "0 \<le> a" "a + 1 < b"
  shows "a < middle_size a b \<and> middle_size a b < b" "middle_size b a = middle_size a b"
proof -
  have "middle_size a b = (a + b) div 2" using trunc_div [of "a + b" 2] assms by (simp add: middle_size_def)
  thus "a < middle_size a b \<and> middle_size a b < b" using assms by auto
  show "middle_size b a = middle_size a b" by (simp add: middle_size_def add.commute)
qed

lemma max_of_cases: "max_of xs = None \<and> xs = [] \<or> (\<exists>m. max_of xs = Some m \<and> m \<in> set xs \<and> (\<forall>x\<in>set xs. x \<le> m))"
  by (simp add: max_of_def)

lemma min_of_cases: "min_of xs = None \<and> xs = [] \<or> (\<exists>m. min_of xs = Some m \<and> m \<in> set xs \<and> (\<forall>x\<in>set xs. m \<le> x))"
  by (simp add: min_of_def)

lemma max_of_Some: "max_of xs = Some m \<Longrightarrow> m \<in> set xs \<and> (\<forall>x\<in>set xs. x \<le> m)"
  using max_of_cases [of xs] by auto

lemma min_of_Some: "min_of xs = Some m \<Longrightarrow> m \<in> set xs \<and> (\<forall>x\<in>set xs. m \<le> x)"
  using min_of_cases [of xs] by auto

lemma lower_edge_spec:
  assumes "list_all (\<lambda>r. 0 < rw_sizes r) df" "lb \<in> set (map rw_sizes df)"
  shows "(\<forall>s\<in>set (lower_edge df lb). 0 < s \<and> s < lb \<and> s \<notin> set (map rw_sizes df)) \<and>
    (lower_edge df lb = [] \<longrightarrow> lb = 1 \<or> lb - 1 \<in> set (map rw_sizes df))"
proof -
  define bs where "bs = filter (\<lambda>s. s < lb) (map rw_sizes df)"
  have bs: "s \<in> set bs \<longleftrightarrow> s \<in> set (map rw_sizes df) \<and> s < lb" for s by (auto simp: bs_def)
  have pos: "\<forall>s\<in>set (map rw_sizes df). 0 < s" using assms(1) by (auto simp: list_all_iff)
  obtain t where t: "(case max_of bs of None \<Rightarrow> 0 | Some s \<Rightarrow> s) = t" by blast
  have t2: "0 \<le> t" "t < lb" "\<forall>s\<in>set bs. s \<le> t" "t = 0 \<or> t \<in> set (map rw_sizes df)"
    using max_of_cases [of bs] t pos assms(2) bs by (auto simp: less_imp_le simp del: set_map)
  have e: "lower_edge df lb = (if t < lb - 1 then [middle_size lb t] else [])"
    using t by (simp add: lower_edge_def bs_def Let_def)
  show ?thesis
  proof (cases "t < lb - 1")
    case True
    hence m: "t < middle_size lb t" "middle_size lb t < lb" using middle_size_between [of t lb] t2(1) by simp_all
    hence "middle_size lb t \<notin> set (map rw_sizes df)" using t2(3) by (metis bs not_le)
    thus ?thesis using e True m t2(1) by simp
  next
    case False
    hence "t = lb - 1" using t2(2) by simp
    thus ?thesis using e t2(4) by auto
  qed
qed

lemma upper_edge_spec:
  assumes "list_all (\<lambda>r. 0 < rw_sizes r) df" "ub \<in> set (map rw_sizes df)"
  shows "(\<forall>s\<in>set (upper_edge df max_size ub). ub < s \<and> s \<notin> set (map rw_sizes df)) \<and>
    (upper_edge df max_size ub = [] \<longrightarrow> max_size \<le> ub + 1 \<or> ub + 1 \<in> set (map rw_sizes df))"
proof -
  define bs where "bs = filter (\<lambda>s. s > ub) (map rw_sizes df)"
  have pos: "0 \<le> ub" using assms by (auto simp: list_all_iff less_imp_le)
  obtain t where t: "(case min_of bs of None \<Rightarrow> max_size | Some s \<Rightarrow> s) = t" by blast
  have bs: "s \<in> set bs \<longleftrightarrow> s \<in> set (map rw_sizes df) \<and> ub < s" for s by (auto simp: bs_def)
  have t2: "\<forall>s\<in>set bs. t \<le> s" "t = max_size \<or> (t \<in> set (map rw_sizes df) \<and> ub < t)"
  proof -
    have "t = max_size \<and> bs = [] \<or> t \<in> set bs \<and> (\<forall>s\<in>set bs. t \<le> s)"
      using min_of_cases [of bs] t by auto
    thus "\<forall>s\<in>set bs. t \<le> s" "t = max_size \<or> (t \<in> set (map rw_sizes df) \<and> ub < t)" using bs [of t] by auto
  qed
  have e: "upper_edge df max_size ub = (if t > ub + 1 then [middle_size ub t] else [])"
    using t by (simp add: upper_edge_def bs_def Let_def)
  show ?thesis
  proof (cases "ub + 1 < t")
    case True
    hence m: "ub < middle_size ub t" "middle_size ub t < t" using middle_size_between [of ub t] pos by simp_all
    hence "middle_size ub t \<notin> set (map rw_sizes df)" using t2(1) by (metis bs not_le)
    thus ?thesis using e True m by simp
  next
    case False
    thus ?thesis using e t2(2) by force
  qed
qed

text \<open>Every size that is explored is new, lies off the plateau on the side of its edge, and when
  there is none the edges are exact: the next size over an edge has been measured.\<close>

lemma explore_plateau_bisects:
  assumes "list_all (\<lambda>r. 0 < rw_sizes r) df" "explore_plateau mn mx df (Some p) (Some n) = (news, lb, ub)"
    "filter (on_plateau (Some p) (Some n)) df \<noteq> []"
  shows "lb \<in> set (map rw_sizes df)" "ub \<in> set (map rw_sizes df)" "lb \<le> ub"
    "\<forall>s\<in>set news. (0 < s \<and> s < lb \<or> ub < s) \<and> s \<notin> set (map rw_sizes df)"
    "news = [] \<Longrightarrow> (lb = 1 \<or> lb - 1 \<in> set (map rw_sizes df)) \<and> (mx \<le> ub + 1 \<or> ub + 1 \<in> set (map rw_sizes df))"
proof -
  define pl where "pl = map rw_sizes (filter (on_plateau (Some p) (Some n)) df)"
  have r: "news = lower_edge df lb @ upper_edge df mx ub" "lb = Min (set pl)" "ub = Max (set pl)"
    using assms(2,3) unfolding explore_plateau_def Let_def pl_def [symmetric] by (auto simp: pl_def)
  have "pl \<noteq> []" unfolding pl_def map_is_Nil_conv using assms(3) .
  hence ne: "set pl \<noteq> {}" "finite (set pl)" by simp_all
  have sub: "set pl \<subseteq> set (map rw_sizes df)" by (auto simp: pl_def)
  have i: "lb \<in> set pl" "ub \<in> set pl" using Min_in [OF ne(2,1)] Max_in [OF ne(2,1)] r by simp_all
  show lu: "lb \<in> set (map rw_sizes df)" "ub \<in> set (map rw_sizes df)" using i sub by blast+
  show "lb \<le> ub" using r(2) i(2) ne(2) by simp
  note l = lower_edge_spec [OF assms(1) lu(1)] and u = upper_edge_spec [OF assms(1) lu(2), of mx]
  show "\<forall>s\<in>set news. (0 < s \<and> s < lb \<or> ub < s) \<and> s \<notin> set (map rw_sizes df)" using l u r(1) by auto
  show "(lb = 1 \<or> lb - 1 \<in> set (map rw_sizes df)) \<and> (mx \<le> ub + 1 \<or> ub + 1 \<in> set (map rw_sizes df))" if "news = []"
    using l u r(1) that by simp
qed

section \<open>The sweep ends\<close>

text \<open>
  What is relied on: the middle of two different sizes on the logarithmic scale lies between
  them, for the sizes up to \<open>hi\<close> that are measured.  For equal sizes this need not hold of
  floating point numbers, but equal sizes are never bisected.
\<close>

definition geometric_middle :: "numerics \<Rightarrow> int \<Rightarrow> bool" where
  "geometric_middle nx hi \<longleftrightarrow>
     (\<forall>a b. 0 < a \<and> a < b \<and> b \<le> hi \<longrightarrow>
        of_int a \<le> nx_exp2 nx (middle nx (nx_log2 nx (of_int a)) (nx_log2 nx (of_int b))) \<and>
        nx_exp2 nx (middle nx (nx_log2 nx (of_int a)) (nx_log2 nx (of_int b))) < of_int b + 1)"

lemma middle_commute: "middle nx a b = middle nx b a"
  by (simp add: middle_def add.commute)

lemma midpoint_size:
  assumes "geometric_middle nx hi" "0 < a" "0 < b" "a \<noteq> b" "a \<le> hi" "b \<le> hi"
  shows "min a b \<le> trunc (nx_exp2 nx (middle nx (nx_log2 nx (of_int a)) (nx_log2 nx (of_int b)))) \<and>
    trunc (nx_exp2 nx (middle nx (nx_log2 nx (of_int a)) (nx_log2 nx (of_int b)))) \<le> max a b"
proof -
  have *: "c \<le> trunc (nx_exp2 nx (middle nx (nx_log2 nx (of_int c)) (nx_log2 nx (of_int d)))) \<and>
      trunc (nx_exp2 nx (middle nx (nx_log2 nx (of_int c)) (nx_log2 nx (of_int d)))) \<le> d" if "0 < c" "c < d" "d \<le> hi" for c d
  proof -
    let ?m = "nx_exp2 nx (middle nx (nx_log2 nx (of_int c)) (nx_log2 nx (of_int d)))"
    have m: "of_int c \<le> ?m" "?m < of_int d + 1" using assms(1) that unfolding geometric_middle_def by blast+
    moreover have "(0::rat) \<le> of_int c" using that(1) by simp
    ultimately have "\<not> ?m < 0" by simp
    moreover have "\<lfloor>?m\<rfloor> < d + 1" unfolding floor_less_iff using m(2) by simp
    ultimately show ?thesis using m(1) by (simp add: trunc_def le_floor_iff)
  qed
  show ?thesis
  proof (cases "a < b")
    case True
    thus ?thesis using *[of a b] assms(2,6) by simp
  next
    case False
    thus ?thesis using *[of b a] assms(3-5) by (simp add: middle_commute)
  qed
qed

text \<open>Bounds only widen.\<close>

definition wider :: "rat option \<Rightarrow> rat option \<Rightarrow> rat option \<Rightarrow> rat option \<Rightarrow> bool" where
  "wider lb ub lb' ub' \<longleftrightarrow> (\<forall>x. lb = Some x \<longrightarrow> (\<exists>y. lb' = Some y \<and> y \<le> x)) \<and> (\<forall>x. ub = Some x \<longrightarrow> (\<exists>y. ub' = Some y \<and> x \<le> y))"

definition bounds_widen :: "level_bounds \<Rightarrow> level_bounds \<Rightarrow> bool" where
  "bounds_widen b b' \<longleftrightarrow> dkeys b' = dkeys b \<and>
     (\<forall>l lb ub. map_of b l = Some (lb, ub) \<longrightarrow> (\<exists>lb' ub'. map_of b' l = Some (lb', ub') \<and> wider lb ub lb' ub'))"

lemma bounds_widen_refl: "bounds_widen b b"
  by (auto simp: bounds_widen_def wider_def)

lemma wider_trans: "wider lb ub lb1 ub1 \<Longrightarrow> wider lb1 ub1 lb2 ub2 \<Longrightarrow> wider lb ub lb2 ub2"
  by (cases lb; cases ub) (auto simp: wider_def intro: order_trans)

lemma bounds_widen_trans: "bounds_widen a b \<Longrightarrow> bounds_widen b c \<Longrightarrow> bounds_widen a c"
  unfolding bounds_widen_def using wider_trans by (metis (no_types, lifting))

lemma fix_wider: "wider lb ub (fix_lb e lb) (fix_ub e ub)"
  by (auto simp: wider_def fix_lb_def fix_ub_def split: option.splits)

text \<open>Every new size is the middle of the sizes of two points on different sides of an edge.\<close>

definition midpoints_of :: "numerics \<Rightarrow> (rat \<times> rat) list \<Rightarrow> rat list \<Rightarrow> bool" where
  "midpoints_of nx points found \<longleftrightarrow>
     (\<forall>v\<in>set found. \<exists>p\<in>set points. \<exists>q\<in>set points. snd p \<noteq> snd q \<and> v = middle nx (fst p) (fst q))"

lemma left_edge_points:
  assumes "ed_left (cluster_edges nx points med) = Some a" "ed_left_inside (cluster_edges nx points med) = Some b"
  shows "\<exists>p\<in>set points. \<exists>q\<in>set points. snd p < snd q \<and> fst p = a \<and> fst q = b"
  using assms by (force simp: cluster_edges_def Let_def dest!: max_of_Some min_of_Some)

lemma right_edge_points:
  assumes "ed_right_inside (cluster_edges nx points med) = Some a" "ed_right (cluster_edges nx points med) = Some b"
  shows "\<exists>p\<in>set points. \<exists>q\<in>set points. snd p < snd q \<and> fst p = a \<and> fst q = b"
  using assms by (force simp: cluster_edges_def Let_def dest!: max_of_Some min_of_Some)

lemma try_left_middle:
  "v \<in> set (try_left nx e lb) \<Longrightarrow> \<exists>a b. ed_left e = Some a \<and> ed_left_inside e = Some b \<and> v = middle nx a b"
  by (cases "ed_left e"; cases "ed_left_inside e"; cases lb) (auto simp: try_left_def split: if_splits)

lemma try_right_middle:
  "v \<in> set (try_right nx e ub) \<Longrightarrow> \<exists>a b. ed_right_inside e = Some a \<and> ed_right e = Some b \<and> v = middle nx a b"
  by (cases "ed_right e"; cases "ed_right_inside e"; cases ub) (auto simp: try_right_def split: if_splits)

lemma midpoints_append: "midpoints_of nx ps (f @ g) \<longleftrightarrow> midpoints_of nx ps f \<and> midpoints_of nx ps g"
  unfolding midpoints_of_def set_append by blast

lemma tries_midpoints:
  assumes "e = cluster_edges nx points med"
  shows "midpoints_of nx points (try_right nx e ub @ try_left nx e lb)"
proof -
  have "\<exists>p\<in>set points. \<exists>q\<in>set points. snd p < snd q \<and> v = middle nx (fst p) (fst q)"
    if "v \<in> set (try_right nx e ub) \<union> set (try_left nx e lb)" for v
    using that try_left_middle [of v nx e lb] try_right_middle [of v nx e ub]
      left_edge_points [of nx points med] right_edge_points [of nx points med] unfolding assms by blast
  thus ?thesis unfolding midpoints_of_def set_append by (metis less_irrefl)
qed

lemma refine_level_keys: "dkeys (snd (refine_level nx points med level (found, b))) = dkeys b"
proof (cases "map_of b level")
  case None
  thus ?thesis by (simp add: refine_level_def)
next
  case (Some lu)
  hence "level \<in> set (dkeys b)" by (metis map_of_eq_None_iff option.distinct(1) set_map)
  thus ?thesis using Some by (cases lu) (simp add: refine_level_def Let_def dkeys_dset)
qed

lemma refine_level_spec:
  assumes "midpoints_of nx points found" "refine_level nx points med level (found, b) = (found', b')"
  shows "midpoints_of nx points found' \<and> bounds_widen b b'"
proof (cases "map_of b level")
  case None
  thus ?thesis using assms bounds_widen_refl by (simp add: refine_level_def)
next
  case (Some lu)
  obtain lb ub where lu: "lu = (lb, ub)" by (cases lu)
  define e where "e = cluster_edges nx points med"
  have r: "found' = found @ try_right nx e (fix_ub e ub) @ try_left nx e (fix_lb e lb)"
    "b' = dset level (fix_lb e lb, fix_ub e ub) b"
    using assms(2) Some lu by (simp_all add: refine_level_def Let_def e_def)
  have "dkeys b' = dkeys b" using refine_level_keys [of nx points med level found b] assms(2) by simp
  hence "bounds_widen b b'"
    unfolding bounds_widen_def using Some lu fix_wider [of lb ub e] r(2) by (auto simp: wider_def)
  moreover have "midpoints_of nx points found'"
    using assms(1) tries_midpoints [OF e_def] unfolding r(1) midpoints_append by blast
  ultimately show ?thesis by blast
qed

lemma refinement_logics_spec:
  assumes "refinement_logics nx levels points b = Inr (found, b')"
  shows "midpoints_of nx points found \<and> bounds_widen b b'"
proof -
  have "midpoints_of nx points f0 \<Longrightarrow> fold (\<lambda>(med, level). refine_level nx points med level) ms (f0, b0) = (f1, b1) \<Longrightarrow>
      midpoints_of nx points f1 \<and> bounds_widen b0 b1" for ms f0 b0 f1 b1
  proof (induction ms arbitrary: f0 b0)
    case Nil
    thus ?case using bounds_widen_refl by simp
  next
    case (Cons m ms)
    obtain f2 b2 where s: "refine_level nx points (fst m) (snd m) (f0, b0) = (f2, b2)" by fastforce
    have "midpoints_of nx points f2 \<and> bounds_widen b0 b2" using refine_level_spec [OF Cons.prems(1) s] .
    thus ?case using Cons.IH [of f2 b2] Cons.prems(2) s bounds_widen_trans by (auto simp: case_prod_beta)
  qed
  moreover have "midpoints_of nx points []" by (simp add: midpoints_of_def)
  ultimately show ?thesis using assms
    by (auto simp: refinement_logics_def Let_def bindr_def split: sum.splits if_splits prod.splits)
qed

text \<open>The sizes that are measured: positive, different, and at most \<open>hi\<close>.\<close>

definition good_frame :: "int \<Rightarrow> frame \<Rightarrow> bool" where
  "good_frame hi df \<longleftrightarrow> list_all (\<lambda>r. 0 < rw_sizes r \<and> rw_sizes r \<le> hi) df \<and> distinct (map rw_sizes df)"

lemma zip_rows:
  assumes "p \<in> set (zip (map f rs) (map g ys))" "q \<in> set (zip (map f rs) (map g ys))" "snd p \<noteq> snd q"
    "distinct (map k rs)"
  shows "\<exists>x\<in>set rs. \<exists>y\<in>set rs. k x \<noteq> k y \<and> fst p = f x \<and> fst q = f y"
proof -
  obtain i j where i: "i < length rs" "i < length ys" "p = (f (rs ! i), g (ys ! i))"
    and j: "j < length rs" "j < length ys" "q = (f (rs ! j), g (ys ! j))"
    using assms(1,2) by (auto simp: set_zip)
  have "i \<noteq> j" using assms(3) i(3) j(3) by auto
  hence "k (rs ! i) \<noteq> k (rs ! j)" using assms(4) i(1) j(1) by (metis distinct_conv_nth length_map nth_map)
  moreover have "rs ! i \<in> set rs" "rs ! j \<in> set rs" using i(1) j(1) by simp_all
  ultimately show ?thesis using i(3) j(3) by (intro bexI [of _ "rs ! i"] bexI [of _ "rs ! j"]) simp_all
qed

lemma compute_cpm_spec:
  assumes "geometric_middle nx hi" "good_frame hi df"
    "compute_new_data_sizes_cpm nx levels df metric b True = Inr (ss, b')"
  shows "distinct ss" "set ss \<inter> set (map rw_sizes df) = {}" "bounds_widen b b'"
    "\<forall>s\<in>set ss. \<exists>x\<in>set df. \<exists>y\<in>set df. rw_sizes x \<le> s \<and> s \<le> rw_sizes y"
proof -
  obtain ys found where ys: "those (map (cell metric) (by_sizes df)) = Some ys"
    and r: "refinement_logics nx levels
        (zip (map (\<lambda>r. nx_log2 nx (of_int (rw_sizes r))) (by_sizes df)) (map (nx_log2 nx) ys)) b = Inr (found, b')"
    and ss: "ss = sorted_list_of_set (set (map (\<lambda>v. trunc (nx_exp2 nx v)) found) - set (map rw_sizes df))"
    using assms(3) by (auto simp: compute_new_data_sizes_cpm_def bindr_def simp del: set_map split: if_splits option.splits sum.splits)
  let ?f = "\<lambda>r. nx_log2 nx (of_int (rw_sizes r))" and ?ps = "zip (map (\<lambda>r. nx_log2 nx (of_int (rw_sizes r))) (by_sizes df)) (map (nx_log2 nx) ys)"
  note spec = refinement_logics_spec [OF r]
  show "bounds_widen b b'" using spec by blast
  show "distinct ss" "set ss \<inter> set (map rw_sizes df) = {}" unfolding ss by (simp, simp only: set_sorted_list_of_set finite_Diff finite_set, blast)
  have pos: "0 < rw_sizes r \<and> rw_sizes r \<le> hi" if "r \<in> set df" for r using assms(2) that by (simp add: good_frame_def list_all_iff)
  have "distinct df" "inj_on rw_sizes (set df)" using assms(2) by (simp_all add: good_frame_def distinct_map)
  hence d: "distinct (map rw_sizes (by_sizes df))" by (simp add: by_sizes_def distinct_map)
  show "\<forall>s\<in>set ss. \<exists>x\<in>set df. \<exists>y\<in>set df. rw_sizes x \<le> s \<and> s \<le> rw_sizes y"
  proof (intro ballI)
    fix s assume "s \<in> set ss"
    then obtain v where v: "v \<in> set found" "s = trunc (nx_exp2 nx v)" unfolding ss by auto
    then obtain p q where pq: "p \<in> set ?ps" "q \<in> set ?ps" "snd p \<noteq> snd q" "v = middle nx (fst p) (fst q)"
      using spec unfolding midpoints_of_def by blast
    obtain x y where xy: "x \<in> set df" "y \<in> set df" "rw_sizes x \<noteq> rw_sizes y" "fst p = ?f x" "fst q = ?f y"
      using zip_rows [OF pq(1-3) d] by (auto simp: by_sizes_def)
    have "min (rw_sizes x) (rw_sizes y) \<le> s \<and> s \<le> max (rw_sizes x) (rw_sizes y)"
      unfolding v(2) pq(4) xy(4,5) using pos [OF xy(1)] pos [OF xy(2)] midpoint_size [OF assms(1) _ _ xy(3)] by blast
    thus "\<exists>x\<in>set df. \<exists>y\<in>set df. rw_sizes x \<le> s \<and> s \<le> rw_sizes y"
      using xy(1,2) by (cases "rw_sizes x \<le> rw_sizes y") (auto simp: min_def max_def)
  qed
qed

lemma measure_sizes_rows:
  "measure_sizes one_step ss dfs w = (Inr dfs', w') \<Longrightarrow> \<exists>rs. dfs' = dfs @ rs \<and> map rw_sizes rs = ss"
  by (induction ss arbitrary: dfs w) (force split: prod.splits sum.splits)+

text \<open>What holds of every frame that a refinement of \<open>df\<close> reaches.\<close>

definition refines :: "frame \<Rightarrow> frame \<Rightarrow> bool" where
  "refines df df' \<longleftrightarrow>
     set df \<subseteq> set df' \<and> distinct (map rw_sizes df') \<and>
     (\<forall>r\<in>set df'. \<exists>x\<in>set df. \<exists>y\<in>set df. rw_sizes x \<le> rw_sizes r \<and> rw_sizes r \<le> rw_sizes y)"

lemma refines_refl: "distinct (map rw_sizes df) \<Longrightarrow> refines df df"
  by (auto simp: refines_def)

lemma refines_good: "refines df df' \<Longrightarrow> good_frame hi df \<Longrightarrow> good_frame hi df'"
  unfolding refines_def good_frame_def list_all_iff by (meson order_less_le_trans order_trans)

lemma refines_extend:
  assumes "refines df df1" "distinct ss" "set ss \<inter> set (map rw_sizes df1) = {}"
    "\<forall>s\<in>set ss. \<exists>x\<in>set df1. \<exists>y\<in>set df1. rw_sizes x \<le> s \<and> s \<le> rw_sizes y" "map rw_sizes rs = ss"
  shows "refines df (by_sizes (df1 @ rs))"
proof -
  have "distinct (map rw_sizes (df1 @ rs))" using assms unfolding refines_def by auto
  hence "distinct (df1 @ rs)" "inj_on rw_sizes (set (df1 @ rs))" by (simp_all only: distinct_map)
  hence "distinct (map rw_sizes (by_sizes (df1 @ rs)))" by (simp add: by_sizes_def distinct_map)
  moreover have "\<exists>x\<in>set df. \<exists>y\<in>set df. rw_sizes x \<le> rw_sizes r \<and> rw_sizes r \<le> rw_sizes y" if "r \<in> set rs" for r
  proof -
    have "rw_sizes r \<in> set ss" using that assms(5) by auto
    then obtain x y where "x \<in> set df1" "y \<in> set df1" "rw_sizes x \<le> rw_sizes r" "rw_sizes r \<le> rw_sizes y" using assms(4) by blast
    moreover obtain u v where "u \<in> set df" "rw_sizes u \<le> rw_sizes x" "v \<in> set df" "rw_sizes y \<le> rw_sizes v"
      using assms(1) calculation(1,2) unfolding refines_def by blast
    ultimately show ?thesis by (meson order_trans)
  qed
  ultimately show ?thesis using assms(1) unfolding refines_def by_sizes_def by auto
qed

lemma diff_shrinks: "S \<subseteq> R \<Longrightarrow> S \<inter> A = {} \<Longrightarrow> B = A \<union> S \<Longrightarrow> s \<in> S \<Longrightarrow> R - B \<subset> R - A"
  by blast

lemma refine_sweep_from:
  assumes "geometric_middle nx hi" "good_frame hi df" "refines df df1" "bounds_widen b b1"
  shows "\<exists>r w'. refine_sweep nx levels metric one df1 b1 w = Some (r, w') \<and>
    (\<forall>df' b'. r = Inr (df', b') \<longrightarrow> refines df df' \<and> bounds_widen b b' \<and>
      (\<exists>b0. compute_new_data_sizes_cpm nx levels df' metric b0 True = Inr ([], b')))"
  using assms(3,4)
proof (induction "card ({Min (rw_sizes ` set df)..Max (rw_sizes ` set df)} - rw_sizes ` set df1)" arbitrary: df1 b1 w rule: less_induct)
  case less
  let ?range = "{Min (rw_sizes ` set df)..Max (rw_sizes ` set df)}"
  have good1: "good_frame hi df1" using refines_good [OF less.prems(1) assms(2)] .
  show ?case
  proof (cases "compute_new_data_sizes_cpm nx levels df1 metric b1 True")
    case (Inl e)
    thus ?thesis by (subst refine_sweep.simps) simp
  next
    case (Inr sb)
    obtain ss b2 where c: "compute_new_data_sizes_cpm nx levels df1 metric b1 True = Inr (ss, b2)" using Inr by (cases sb) simp
    note spec = compute_cpm_spec [OF assms(1) good1 c]
    have b2: "bounds_widen b b2" using bounds_widen_trans [OF less.prems(2) spec(3)] .
    show ?thesis
    proof (cases "ss = []")
      case True
      thus ?thesis using c less.prems(1) b2 by (subst refine_sweep.simps) auto
    next
      case ne: False
      obtain x w1 where m: "measure_sizes one ss df1 w = (x, w1)" by fastforce
      show ?thesis
      proof (cases x)
        case (Inl e)
        thus ?thesis using c ne m by (subst refine_sweep.simps) simp
      next
        case (Inr dfs)
        then obtain rs where rs: "dfs = df1 @ rs" "map rw_sizes rs = ss" using measure_sizes_rows m by metis
        have ext: "refines df (by_sizes dfs)" using refines_extend [OF less.prems(1) spec(1,2,4) rs(2)] rs(1) by simp
        have "set ss \<subseteq> ?range"
        proof
          fix s assume "s \<in> set ss"
          then obtain r where "r \<in> set rs" "rw_sizes r = s" using rs(2) by auto
          hence "r \<in> set (by_sizes dfs)" "rw_sizes r = s" using rs(1) by (simp_all add: by_sizes_def)
          then obtain u v where "u \<in> set df" "v \<in> set df" "rw_sizes u \<le> s" "s \<le> rw_sizes v" using ext unfolding refines_def by blast
          thus "s \<in> ?range" 
            using order_trans [OF Min_le, of "rw_sizes ` set df" "rw_sizes u" s] order_trans [OF _ Max_ge, of s "rw_sizes v" "rw_sizes ` set df"]
            by simp
        qed
        moreover have "set ss \<inter> rw_sizes ` set df1 = {}" using spec(2) by simp
        moreover have "rw_sizes ` set (by_sizes dfs) = rw_sizes ` set df1 \<union> set ss" using rs by (auto simp: by_sizes_def)
        moreover obtain s where "s \<in> set ss" using ne by (cases ss) auto
        ultimately have "?range - rw_sizes ` set (by_sizes dfs) \<subset> ?range - rw_sizes ` set df1" using diff_shrinks by metis
        hence "card (?range - rw_sizes ` set (by_sizes dfs)) < card (?range - rw_sizes ` set df1)"
          by (intro psubset_card_mono) simp_all
        from less.hyps [OF this ext b2, of w1]
        show ?thesis using c ne m Inr by (subst refine_sweep.simps) simp
      qed
    qed
  qed
qed

section \<open>The search on a step never ends\<close>

lemma exponential_sweep_points:
  assumes "\<forall>i<n. x * g ^ i < x_max" "\<not> x * g ^ n < x_max"
  shows "exponential_sweep f x_max g x explored = Some (explored @ map (\<lambda>i. (x * g ^ i, f (x * g ^ i))) [0..<n])"
  using assms
proof (induction n arbitrary: x explored)
  case 0
  thus ?case by (subst exponential_sweep.simps) simp
next
  case (Suc n)
  have "\<forall>i<n. x * g * g ^ i < x_max" "\<not> x * g * g ^ n < x_max" using Suc.prems by (auto simp: mult.assoc)
  note IH = Suc.IH [OF this, of "explored @ [(x, f x)]"]
  have "x < x_max" using Suc.prems(1) by fastforce
  moreover have "map (\<lambda>i. (x * g ^ i, f (x * g ^ i))) [0..<Suc n] = (x, f x) # map (\<lambda>i. (x * g * g ^ i, f (x * g * g ^ i))) [0..<n]"
    by (simp only: upt_conv_Cons zero_less_Suc map_Suc_upt [symmetric] list.map map_map comp_def) (simp add: mult.assoc)
  ultimately show ?case using IH by (subst exponential_sweep.simps) (simp del: upt_Suc)
qed

lemma growth_exceeds:
  assumes "0 < x" "1 < g"
  shows "\<exists>n. (\<forall>i<n. x * g ^ i < x_max) \<and> \<not> x * g ^ n < (x_max :: rat)"
proof -
  have lin: "x + of_nat n * (x * (g - 1)) \<le> x * g ^ n" for n
  proof (induction n)
    case (Suc n)
    have "1 \<le> g ^ n" using assms by simp
    hence "x * (g - 1) * 1 \<le> x * (g - 1) * g ^ n" using assms by (intro mult_left_mono) simp_all
    thus ?case using Suc by (simp add: algebra_simps)
  qed simp
  obtain n where "x_max < of_nat n * (x * (g - 1))" using ex_less_of_nat_mult [of "x * (g - 1)" x_max] assms by auto
  hence "\<not> x * g ^ n < x_max" using lin [of n] assms(1) by linarith
  hence "\<exists>n. \<not> x * g ^ n < x_max" ..
  thus ?thesis using exists_least_iff [of "\<lambda>n. \<not> x * g ^ n < x_max"] by auto
qed

definition step_function :: "rat \<Rightarrow> rat \<Rightarrow> rat \<Rightarrow> rat \<Rightarrow> rat" where
  "step_function t a b x = (if x < t then a else b)"

definition step_points :: "rat \<Rightarrow> (rat \<Rightarrow> rat) \<Rightarrow> (rat \<times> rat) list \<Rightarrow> bool" where
  "step_points t f ps \<longleftrightarrow>
     sorted_wrt (<) (map fst ps) \<and> list_all (\<lambda>p. snd p = f (fst p)) ps \<and>
     (\<exists>p\<in>set ps. \<exists>q\<in>set ps. fst p < fst q \<and> fst q < t) \<and> (\<exists>r\<in>set ps. t \<le> fst r)"

lemma triples_middle: "(x, y, z) \<in> set (triples (as @ x # y # z # bs))"
proof (induction as)
  case Nil
  show ?case by simp
next
  case (Cons a as)
  obtain u v r where "as @ x # y # z # bs = u # v # r" "r \<noteq> []"
    by (cases as; cases "tl as") auto
  then obtain w r' where "as @ x # y # z # bs = u # v # w # r'" by (cases r) auto
  thus ?case using Cons by simp
qed

lemma sorted_split:
  "sorted_wrt (<) (map fst ps) \<Longrightarrow> ps = filter (\<lambda>p. fst p < t) ps @ filter (\<lambda>p. t \<le> fst p) (ps :: (rat \<times> 'b) list)"
proof (induction ps)
  case (Cons p ps)
  show ?case
  proof (cases "fst p < t")
    case True
    thus ?thesis using Cons by auto
  next
    case False
    hence "filter (\<lambda>p. fst p < t) ps = []" using Cons.prems by (auto simp: filter_empty_conv)
    thus ?thesis using Cons False by auto
  qed
qed simp

lemma step_edge:
  assumes "step_points t f ps"
  shows "\<exists>p q r. (p, q, r) \<in> set (triples ps) \<and> fst p < t \<and> fst q < t \<and> t \<le> fst r \<and> {p, q, r} \<subseteq> set ps"
proof -
  define low high where "low = filter (\<lambda>p. fst p < t) ps" and "high = filter (\<lambda>p. t \<le> fst p) ps"
  have ps: "ps = low @ high" using sorted_split assms unfolding step_points_def low_def high_def by blast
  obtain p q r where m: "p \<in> set low" "q \<in> set low" "p \<noteq> q" "r \<in> set high"
    using assms unfolding step_points_def low_def high_def by fastforce
  obtain low' q' where l1: "low = low' @ [q']" using m(1) by (cases low rule: rev_cases) auto
  obtain low'' p' where l2: "low' = low'' @ [p']" using m(1-3) l1 by (cases low' rule: rev_cases) auto
  obtain r' high' where h: "high = r' # high'" using m(4) by (cases high) auto
  have "(p', q', r') \<in> set (triples ps)" using triples_middle [of p' q' r' low'' high'] unfolding ps l1 l2 h by simp
  moreover have "p' \<in> set low" "q' \<in> set low" "r' \<in> set high" using l1 l2 h by simp_all
  moreover have "set low \<subseteq> set ps" "set high \<subseteq> set ps" unfolding low_def high_def by auto
  ultimately show ?thesis unfolding low_def high_def by (intro exI [of _ p'] exI [of _ q'] exI [of _ r']) auto
qed

lemma step_points_refined:
  assumes "step_points t f ps" "list_all (\<lambda>p. snd p = f (fst p)) news"
  shows "step_points t f (sort_key fst (remdups (ps @ news)))"
proof -
  let ?qs = "sort_key fst (remdups (ps @ news))"
  have val: "snd p = f (fst p)" if "p \<in> set ?qs" for p using that assms unfolding step_points_def list_all_iff by auto
  hence "inj_on fst (set ?qs)" by (intro inj_onI) (metis prod_eqI)
  hence "distinct (map fst ?qs)" by (simp add: distinct_map del: remdups_append)
  hence "sorted_wrt (<) (map fst ?qs)" using sorted_sort_key [of fst "remdups (ps @ news)"]
    by (simp only: strict_sorted_iff)
  thus ?thesis using assms(1) val unfolding step_points_def list_all_iff by auto
qed

lemma endpoint_values: "list_all (\<lambda>p. snd p = f (fst p)) (endpoint_refinements f changed unchanged t)"
  by (simp add: endpoint_refinements_def Let_def split: prod.split)

lemma refine_endpoints_step:
  assumes "step_points t (step_function t a b) ps" "0 < unchanged" "a \<noteq> 0" "changed < rel_change a b"
  shows "refine_endpoints changed unchanged (step_function t a b) ps = None"
proof -
  have "step_points t f ps \<longrightarrow> f = step_function t a b \<longrightarrow> 0 < un \<longrightarrow> ch < rel_change a b \<longrightarrow> False"
    if "refine_endpoints ch un f ps = Some r" for ch un f ps r
    using that
  proof (rule refine_endpoints.raw_induct [where P = "\<lambda>ch un f ps r.
      step_points t f ps \<longrightarrow> f = step_function t a b \<longrightarrow> 0 < un \<longrightarrow> ch < rel_change a b \<longrightarrow> False", rotated], goal_cases)
    case (1 refine ch un f ps r)
    show ?case
    proof (intro impI)
      assume h: "step_points t f ps" "f = step_function t a b" "0 < un" "ch < rel_change a b"
      let ?new = "concat (map (endpoint_refinements f ch un) (triples ps))"
      have new: "list_all (\<lambda>p. snd p = f (fst p)) ?new"
        using endpoint_values [of f ch un] unfolding list_all_iff by (simp only: set_concat set_map) blast
      obtain p q s where e: "(p, q, s) \<in> set (triples ps)" "fst p < t" "fst q < t" "t \<le> fst s" "{p, q, s} \<subseteq> set ps"
        using step_edge [OF h(1)] by blast
      have "snd p = a" "snd q = a" "snd s = b"
        using e(2-5) h(1,2) unfolding step_points_def list_all_iff by (auto simp: step_function_def)
      hence "endpoint_refinements f ch un (p, q, s) \<noteq> []"
        using h(3,4) by (cases p; cases q; cases s) (simp add: endpoint_refinements_def rel_change_def [of a a] Let_def)
      hence "?new \<noteq> []" using e(1) by (auto simp: concat_eq_Nil_conv)
      hence "refine ch un f (sort_key fst (remdups (ps @ ?new))) = Some r" using 1(2) by (simp add: Let_def del: concat_eq_Nil_conv)
      thus False using 1(1) step_points_refined [OF h(1) new] h(2-4) by blast
    qed
  qed
  thus ?thesis using assms by (cases "refine_endpoints changed unchanged (step_function t a b) ps") blast+
qed

section \<open>The whole sweep\<close>

lemma initial_keys: "dkeys (initial_bounds levels) = levels"
  by (simp add: initial_bounds_def comp_def)

lemma map_res_length: "map_res f xs = Inr ys \<Longrightarrow> length ys = length xs"
  by (induction xs arbitrary: ys) (auto simp: bindr_def split: sum.splits)

lemma level_sizes_keys:
  assumes "level_sizes b = Inr ls"
  shows "map fst ls = dkeys b"
proof -
  obtain lbs ubs where l: "map_res (\<lambda>(l, lb, ub). bindr (level_size lb) (\<lambda>b. Inr (l, b))) b = Inr lbs"
    and u: "map_res (\<lambda>(l, lb, ub). bindr (level_size ub) (\<lambda>b. Inr b)) b = Inr ubs"
    and ls: "ls = map (\<lambda>((l, lb), ub). (l, lb, ub)) (zip lbs ubs)"
    using assms by (auto simp: level_sizes_def bindr_def split: sum.splits)
  have "map fst lbs = dkeys b" using l
    by (induction b arbitrary: lbs) (auto simp: bindr_def split: sum.splits)
  moreover have "length lbs = length ubs" using map_res_length [OF l] map_res_length [OF u] by simp
  moreover have "map fst ls = map fst (map fst (zip lbs ubs))" unfolding ls by (simp add: case_prod_beta)
  ultimately show ?thesis by (simp only: map_fst_zip)
qed

lemma sweet_spots_spec:
  assumes "sweet_spots one ls (sm, dfs) w = (Inr (sm', dfs'), w')" "distinct (map fst ls)" "set (map fst ls) \<inter> set (dkeys sm) = {}"
    "\<forall>(l, s)\<in>set sm. ls_sweet_spot s \<in> set dfs \<and> rw_sizes (ls_sweet_spot s) = middle_size (ls_UB s) (ls_LB s)"
  shows "dkeys sm' = dkeys sm @ map fst ls \<and> set dfs \<subseteq> set dfs' \<and>
    (\<forall>(l, s)\<in>set sm'. ls_sweet_spot s \<in> set dfs' \<and> rw_sizes (ls_sweet_spot s) = middle_size (ls_UB s) (ls_LB s))"
  using assms
proof (induction ls arbitrary: sm dfs w)
  case (Cons l ls)
  obtain level lb ub where l: "l = (level, lb, ub)" by (cases l)
  obtain x w1 where x: "one (trunc (of_int (ub + lb) / 2)) w = (x, w1)" by fastforce
  then obtain cells where c: "x = Inr cells" using Cons.prems(1) l by (cases x) auto
  define r where "r = \<lparr>rw_sizes = trunc (of_int (ub + lb) / 2), rw_cells = cells\<rparr>"
  define sm1 where "sm1 = dset level \<lparr>ls_LB = lb, ls_UB = ub, ls_sweet_spot = r\<rparr> sm"
  have "level \<notin> set (dkeys sm)" using Cons.prems(3) l by auto
  hence new: "sm1 = sm @ [(level, \<lparr>ls_LB = lb, ls_UB = ub, ls_sweet_spot = r\<rparr>)]"
    unfolding sm1_def by (simp add: dset_new)
  have "sweet_spots one ls (sm1, dfs @ [r]) w1 = (Inr (sm', dfs'), w')"
    using Cons.prems(1) x c by (simp add: l r_def sm1_def Let_def)
  moreover have k: "dkeys sm1 = dkeys sm @ [level]" using new by simp
  moreover have "\<forall>(l, s)\<in>set sm1. ls_sweet_spot s \<in> set (dfs @ [r]) \<and> rw_sizes (ls_sweet_spot s) = middle_size (ls_UB s) (ls_LB s)"
    using Cons.prems(4) unfolding new by (auto simp: r_def middle_size_def)
  moreover have "distinct (map fst ls)" "set (map fst ls) \<inter> set (dkeys sm1) = {}" using Cons.prems(2,3) k l by auto
  ultimately have "dkeys sm' = dkeys sm1 @ map fst ls \<and> set (dfs @ [r]) \<subseteq> set dfs' \<and>
      (\<forall>(l, s)\<in>set sm'. ls_sweet_spot s \<in> set dfs' \<and> rw_sizes (ls_sweet_spot s) = middle_size (ls_UB s) (ls_LB s))"
    using Cons.IH by blast
  thus ?case using k l by simp
qed simp

lemma data_sizes: "data_size_list = Some (Inr (map (\<lambda>i. 128 * 2 ^ i) [0..<24]))"
  by code_simp

definition sizes_known :: "int \<Rightarrow> frame option \<Rightarrow> bool" where
  "sizes_known hi cached \<longleftrightarrow> (case cached of None \<Rightarrow> MAX_DATA_SIZE \<le> hi | Some df \<Rightarrow> good_frame hi df)"

lemma presweep_frame:
  assumes "sizes_known hi cached"
  shows "\<exists>x w1. presweep one cached w = Some (x, w1) \<and> (\<forall>df. x = Inr df \<longrightarrow> good_frame hi df)"
proof (cases cached)
  case (Some df)
  thus ?thesis using assms by (simp add: presweep_def sizes_known_def)
next
  case None
  let ?sizes = "map (\<lambda>i. 128 * 2 ^ i) [0..<24] :: int list"
  obtain x w1 where m: "measure_sizes one ?sizes [] w = (x, w1)" by fastforce
  have "good_frame hi (by_sizes df)" if "x = Inr df" for df
  proof -
    have sz: "map rw_sizes df = ?sizes" using measure_sizes_rows m that by fastforce
    have top: "(128::int) * 2 ^ i \<le> MAX_DATA_SIZE" if "i < 24" for i :: nat
    proof -
      have "(2::int) ^ i \<le> 2 ^ 23" using that by (intro power_increasing) simp_all
      thus ?thesis by (simp add: MAX_DATA_SIZE_def)
    qed
    have "distinct ?sizes" "list_all (\<lambda>s. 0 < s \<and> s \<le> hi) ?sizes"
      using order_trans [OF top] assms None by (auto simp: distinct_map inj_on_def list_all_iff sizes_known_def)
    hence "distinct (map rw_sizes df)" "list_all (\<lambda>s. 0 < s \<and> s \<le> hi) (map rw_sizes df)" unfolding sz by blast+
    thus ?thesis by (simp add: good_frame_def by_sizes_def list_all_iff distinct_map)
  qed
  thus ?thesis using None m by (cases x) (auto simp: presweep_def data_sizes)
qed

lemma finish_sweep_spec:
  assumes "finish_sweep one (df, b) w = (Inr (summary, final), w')" "dkeys b = level_names"
  shows "dkeys summary = level_names \<and> set df \<subseteq> set final \<and>
    (\<forall>(l, s)\<in>set summary. ls_sweet_spot s \<in> set final \<and> rw_sizes (ls_sweet_spot s) = middle_size (ls_UB s) (ls_LB s))"
proof -
  obtain ls where ls: "level_sizes b = Inr ls" using assms(1) by (cases "level_sizes b") (simp_all add: finish_sweep_def)
  obtain x w1 where x: "sweet_spots one ls ([], df) w = (x, w1)" by fastforce
  obtain sm dfs where sm: "x = Inr (sm, dfs)" "summary = sm" "final = by_sizes dfs"
    using assms(1) ls x by (cases x) (auto simp: finish_sweep_def)
  have k: "map fst ls = level_names" using level_sizes_keys [OF ls] assms(2) by simp
  hence "distinct (map fst ls)" by (simp add: level_names_def)
  from sweet_spots_spec [OF x [unfolded sm(1)] this] show ?thesis
    unfolding sm k by (simp add: by_sizes_def)
qed

text \<open>
  C40.  The sweep for the latencies ends: whatever latencies are measured, and however the values are
  clustered, it comes to a result or to an error.  What it needs is that the cached sizes are distinct
  and no larger than some bound, and that the logarithms of the library put the middle of two
  different sizes up to this bound between them, which \<open>accurate_middle\<close> shows for functions
  with an error of at most \<open>2 ^ - 40\<close> and sizes up to \<open>2 ^ 31\<close>.  A result has a summary of every level, whose
  representative size is the middle of its bounds and was measured; the final data contains the rows
  that were there, and the refinement stopped because no edge of a level was left to bisect: every
  size was measured once and lies between those it started from.
\<close>

theorem latency_sweep_ends:
  assumes "geometric_middle nx hi" "sizes_known hi cached"
  shows "\<exists>r w'. latency_sweep nx metric one cached w = Some (r, w') \<and>
    (\<forall>summary final. r = Inr (summary, final) \<longrightarrow>
      dkeys summary = level_names \<and>
      (\<forall>(l, s)\<in>set summary. ls_sweet_spot s \<in> set final \<and> rw_sizes (ls_sweet_spot s) = middle_size (ls_UB s) (ls_LB s)) \<and>
      (\<exists>start refined b b' w1. presweep one cached w = Some (Inr start, w1) \<and> refines start refined \<and> set refined \<subseteq> set final \<and>
        compute_new_data_sizes_cpm nx level_names refined metric b True = Inr ([], b')))"
proof -
  obtain x w1 where p: "presweep one cached w = Some (x, w1)" "\<forall>df. x = Inr df \<longrightarrow> good_frame hi df"
    using presweep_frame [OF assms(2), of one w] by (elim exE conjE)
  show ?thesis
  proof (cases x)
    case (Inl e)
    thus ?thesis using p(1) by (simp add: latency_sweep_def)
  next
    case (Inr df)
    hence good: "good_frame hi df" "distinct (map rw_sizes df)" using p(2) by (simp_all add: good_frame_def)
    obtain r w2 where r: "refine_sweep nx level_names metric one df (initial_bounds level_names) w1 = Some (r, w2)"
      "\<forall>df' b'. r = Inr (df', b') \<longrightarrow> refines df df' \<and> bounds_widen (initial_bounds level_names) b' \<and>
        (\<exists>b0. compute_new_data_sizes_cpm nx level_names df' metric b0 True = Inr ([], b'))"
      using refine_sweep_from [OF assms(1) good(1) refines_refl [OF good(2)] bounds_widen_refl,
          of level_names metric one "initial_bounds level_names" w1] by (elim exE conjE)
    show ?thesis
    proof (cases r)
      case l: (Inl e)
      thus ?thesis using p(1) Inr r(1) by (simp add: latency_sweep_def)
    next
      case f: (Inr found)
      obtain df' b' where found: "found = (df', b')" by (cases found)
      have b': "dkeys b' = level_names" and ref: "refines df df'"
        and stop: "\<exists>b0. compute_new_data_sizes_cpm nx level_names df' metric b0 True = Inr ([], b')"
        using r(2) f found initial_keys unfolding bounds_widen_def by auto
      obtain y w3 where y: "finish_sweep one found w2 = (y, w3)" by fastforce
      have sw: "latency_sweep nx metric one cached w = Some (y, w3)" using p(1) Inr r(1) f y by (simp add: latency_sweep_def)
      obtain b0 where b0: "compute_new_data_sizes_cpm nx level_names df' metric b0 True = Inr ([], b')" using stop ..
      show ?thesis
      proof (intro exI conjI allI impI)
        show "latency_sweep nx metric one cached w = Some (y, w3)" by (fact sw)
        fix summary final assume res: "y = Inr (summary, final)"
        note fin = finish_sweep_spec [OF y [unfolded found res] b']
        show "dkeys summary = level_names"
          "\<forall>(l, s)\<in>set summary. ls_sweet_spot s \<in> set final \<and> rw_sizes (ls_sweet_spot s) = middle_size (ls_UB s) (ls_LB s)"
          "set df' \<subseteq> set final"
          using fin by blast+
        show "presweep one cached w = Some (Inr df, w1)" using p(1) Inr by simp
        show "refines df df'" by (fact ref)
        show "compute_new_data_sizes_cpm nx level_names df' metric b0 True = Inr ([], b')" by (fact b0)
      qed
    qed
  qed
qed

section \<open>Ranges and models\<close>

lemma zero_size_never_ends: "x \<le> 0 \<Longrightarrow> 0 \<le> hi \<Longrightarrow> range_up x hi 1 2 = None"
  using range_up_diverges [of x hi 1 2 "[]"] by (simp add: range_up_def)

lemma positive_range_ends:
  assumes "0 < x" "1 \<le> steps" "1 < step"
  shows "\<exists>r. range_up x hi steps step = Some (Inr r) \<and> (\<forall>s\<in>set r. x \<le> s \<and> s \<le> hi)"
  using range_up_ends [OF assms(1,3), of hi steps "[]"] assms by (auto simp: range_up_def)

text \<open>The scaled sigmoid takes the given values at its ends.\<close>

lemma scaled_sigmoid_ends:
  assumes "scaled_sigmoid e x x_min x_start x_finish x_max y_min y_max = Inr y"
  shows "x = x_min \<Longrightarrow> y = y_min" "x = x_max \<Longrightarrow> y = y_max"
proof -
  let ?s = "sigmoid e (8 / (x_finish - x_start)) ((x_start + x_finish) / 2)"
  have c: "\<not> isclose (?s x_min) (?s x_max)" and y: "y = y_min + (y_max - y_min) * ((?s x - ?s x_min) / (?s x_max - ?s x_min))"
    using assms by (simp_all add: scaled_sigmoid_def Let_def split: if_splits)
  have "?s x_max - ?s x_min \<noteq> 0" using c by (auto simp: isclose_def)
  thus "x = x_min \<Longrightarrow> y = y_min" "x = x_max \<Longrightarrow> y = y_max" unfolding y by simp_all
qed

text \<open>
  On a function that steps from one value to another the search for the ends of plateaus never
  returns: the interval at the step is halved for ever, since nothing stops the search when the sizes
  get close, and a size that was already explored still counts as new.
\<close>

theorem plateau_search_never_ends:
  assumes "0 < x_min" "1 < growth" "x_min * growth < t" "t \<le> x_min * growth ^ k" "x_min * growth ^ k < x_max"
    "a \<noteq> 0" "0 < unchanged" "changed < rel_change a b"
  shows "explore_plateau_endpoints (step_function t a b) x_min x_max growth changed unchanged = None"
proof -
  let ?f = "step_function t a b"
  obtain n where n: "\<forall>i<n. x_min * growth ^ i < x_max" "\<not> x_min * growth ^ n < x_max"
    using growth_exceeds [OF assms(1,2)] by blast
  let ?ps = "map (\<lambda>i. (x_min * growth ^ i, ?f (x_min * growth ^ i))) [0..<n]"
  have mono: "x_min * growth ^ i < x_min * growth ^ j" if "i < j" for i j
    using assms(1,2) that by (simp add: power_strict_increasing)
  have "1 < k"
  proof (rule ccontr)
    assume "\<not> 1 < k"
    hence "k = 0 \<or> k = 1" by auto
    moreover have "x_min * growth ^ 0 < x_min * growth ^ 1" by (rule mono) simp
    ultimately show False using assms(3,4) by auto
  qed
  moreover have kn: "k < n"
  proof (rule ccontr)
    assume "\<not> k < n"
    hence "x_min * growth ^ n \<le> x_min * growth ^ k" using mono [of n k] by (cases "n = k") auto
    thus False using n(2) assms(5) by linarith
  qed
  ultimately have idx: "0 \<in> set [0..<n]" "1 \<in> set [0..<n]" "k \<in> set [0..<n]" by auto
  have pt: "(x_min * growth ^ i, ?f (x_min * growth ^ i)) \<in> set ?ps" if "i \<in> set [0..<n]" for i
    unfolding set_map using that by (rule imageI)
  have pts: "(x_min, ?f x_min) \<in> set ?ps" "(x_min * growth, ?f (x_min * growth)) \<in> set ?ps"
    "(x_min * growth ^ k, ?f (x_min * growth ^ k)) \<in> set ?ps"
    using pt [OF idx(1)] pt [OF idx(2)] pt [OF idx(3)] by (simp_all only: power_0 power_one_right mult_1_right)
  have "sorted_wrt (<) (map fst ?ps)" using mono by (simp add: sorted_wrt_iff_nth_less)
  moreover have "x_min < x_min * growth" using mono [of 0 1] by simp
  ultimately have "step_points t ?f ?ps"
    unfolding step_points_def using pts assms(3,4)
    by (intro conjI bexI [OF _ pts(1)] bexI [OF _ pts(2)] bexI [OF _ pts(3)]) (simp_all add: list_all_iff)
  from refine_endpoints_step [OF this assms(7,6,8)] show ?thesis
    using exponential_sweep_points [OF n, of ?f "[]"] by (simp add: explore_plateau_endpoints_def)
qed

section \<open>Witnesses\<close>

text \<open>
  Libraries that are accurate to \<open>2\<^sup>-\<^sup>4\<^sup>0\<close>, far less than what double precision gives, bisect
  as the sweep relies on.
\<close>

definition accurate :: "numerics \<Rightarrow> int \<Rightarrow> bool" where
  "accurate nx hi \<longleftrightarrow>
     (\<forall>n. 0 < n \<and> n \<le> hi \<longrightarrow> \<bar>real_of_rat (nx_log2 nx (of_int n)) - log 2 (real_of_int n)\<bar> \<le> 1 / 2 ^ 40) \<and>
     (\<forall>x. \<bar>x\<bar> \<le> 64 \<longrightarrow> \<bar>real_of_rat (nx_round nx x) - real_of_rat x\<bar> \<le> 1 / 2 ^ 40) \<and>
     (\<forall>v. 0 \<le> v \<and> v \<le> 32 \<longrightarrow>
        \<bar>real_of_rat (nx_exp2 nx v) - 2 powr real_of_rat v\<bar> \<le> 2 powr real_of_rat v / 2 ^ 40)"

lemma two_powr_near_one:
  fixes z d :: real
  assumes "\<bar>z\<bar> \<le> d" "d \<le> 1 / 2"
  shows "1 - d \<le> 2 powr z" "2 powr z \<le> 1 + 2 * d"
proof -
  have l: "1 - t \<le> 2 powr (- t)" if "0 \<le> t" for t :: real
  proof -
    have "ln 2 \<le> (1::real)" using ln_le_minus_one [of 2] by simp
    hence "t * ln 2 \<le> t" using that mult_left_mono [of "ln 2" 1 t] by simp
    moreover have "1 + (- t * ln 2) \<le> exp (- t * ln 2)" by (rule exp_ge_add_one_self)
    ultimately show ?thesis by (simp add: powr_def)
  qed
  have d: "0 \<le> d" using abs_ge_zero [of z] assms(1) by linarith
  have "2 powr (- d) \<le> 2 powr z" using assms(1) by (intro powr_mono) auto
  thus "1 - d \<le> 2 powr z" using l [OF d] by linarith
  have h: "1 - d \<le> 2 powr (- z)" using l [OF d] powr_mono [of "- d" "- z" 2] assms(1) by linarith
  have "2 powr z * 2 powr (- z) = 1" by (simp add: powr_add [symmetric])
  hence "2 powr z * (1 - d) \<le> 1" using mult_left_mono [OF h, of "2 powr z"] by simp
  moreover have "1 \<le> (1 + 2 * d) * (1 - d)"
  proof -
    have "0 \<le> d * (1 - 2 * d)" using d assms(2) by simp
    thus ?thesis by (simp add: algebra_simps)
  qed
  ultimately have "2 powr z * (1 - d) \<le> (1 + 2 * d) * (1 - d)" by linarith
  moreover have "0 < 1 - d" using assms(2) by linarith
  ultimately show "2 powr z \<le> 1 + 2 * d" by (simp only: mult_le_cancel_right_pos)
qed

lemma accurate_middle:
  assumes "accurate nx hi" "hi \<le> 2 ^ 31"
  shows "geometric_middle nx hi"
  unfolding geometric_middle_def
proof (intro allI impI)
  fix a b :: int assume ab: "0 < a \<and> a < b \<and> b \<le> hi"
  define e :: real where "e = 1 / 2 ^ 40"
  have e: "0 < e" "3 * e \<le> 1 / 2" "e \<le> 1" by (simp_all add: e_def)
  define x y v where "x = nx_log2 nx (of_int a)" and "y = nx_log2 nx (of_int b)" and "v = middle nx x y"
  have A: "1 \<le> real_of_int a" and B1: "real_of_int a + 1 \<le> real_of_int b" using ab by linarith+
  have "b \<le> 2 ^ 31" using ab assms(2) by (blast intro: order_trans)
  hence "real_of_int b \<le> real_of_int (2 ^ 31)" by (simp only: of_int_le_iff)
  hence B: "real_of_int a + 1 \<le> real_of_int b" "real_of_int b \<le> 2 ^ 31" using B1 by simp_all
  have lx: "\<bar>real_of_rat x - log 2 (real_of_int a)\<bar> \<le> e" and ly: "\<bar>real_of_rat y - log 2 (real_of_int b)\<bar> \<le> e"
    using assms(1) ab unfolding accurate_def x_def y_def e_def by auto
  have la: "0 \<le> log 2 (real_of_int a)" "log 2 (real_of_int a) \<le> 31" and lb: "1 \<le> log 2 (real_of_int b)" "log 2 (real_of_int b) \<le> 31"
    using A B by (simp_all add: le_log_iff log_le_iff)
  have "real_of_rat (x + y) \<le> real_of_rat 64" "real_of_rat (- 64) \<le> real_of_rat (x + y)"
    using la lb lx ly e(3) by (simp_all add: of_rat_add of_rat_minus)
  hence "\<bar>x + y\<bar> \<le> 64" by (simp only: of_rat_less_eq abs_le_iff minus_le_iff)
  hence rd: "\<bar>real_of_rat (nx_round nx (x + y)) - real_of_rat (x + y)\<bar> \<le> e"
    using assms(1) unfolding accurate_def e_def by blast
  have v2: "2 * real_of_rat v = real_of_rat (nx_round nx (x + y))" by (simp add: v_def middle_def of_rat_divide)
  define z where "z = 2 * real_of_rat v - (log 2 (real_of_int a) + log 2 (real_of_int b))"
  have z: "\<bar>z\<bar> \<le> 3 * e" using lx ly rd unfolding z_def v2 by (simp add: of_rat_add)
  have "0 \<le> real_of_rat v \<and> real_of_rat v \<le> 32" using z la lb e(2) unfolding z_def by linarith
  hence "0 \<le> v" "v \<le> 32" using of_rat_less_eq [where ?'a = real, of v 32] by simp_all
  define p t where "p = 2 powr real_of_rat v" and "t = real_of_rat (nx_exp2 nx v)"
  have t: "\<bar>t - p\<bar> \<le> p * e"
    using assms(1) \<open>0 \<le> v\<close> \<open>v \<le> 32\<close> unfolding accurate_def t_def p_def e_def by simp
  have p0: "0 < p" by (simp add: p_def)
  have "p * p = 2 powr (log 2 (real_of_int a) + log 2 (real_of_int b) + z)"
    unfolding p_def powr_add [symmetric] z_def by simp
  also have "\<dots> = real_of_int a * real_of_int b * 2 powr z" using A B by (simp add: powr_add)
  finally have pp: "p * p = real_of_int a * real_of_int b * 2 powr z" .
  note nr = two_powr_near_one [OF z e(2)]
  have t0: "p * (1 - e) \<le> t" "t \<le> p * (1 + e)" using t by (simp_all add: algebra_simps)
  have "real_of_int a \<le> t"
  proof -
    have "real_of_int a * real_of_int a \<le> real_of_int a * ((real_of_int a + 1) * (1 - 5 * e))"
    proof (rule mult_left_mono)
      have "5 * e * (real_of_int a + 1) \<le> 5 * e * 2 ^ 31" using A B e(1) by (intro mult_left_mono) simp_all
      also have "\<dots> \<le> 1" by (simp add: e_def)
      finally show "real_of_int a \<le> (real_of_int a + 1) * (1 - 5 * e)" by (simp add: algebra_simps)
    qed (use A in simp)
    also have "\<dots> \<le> real_of_int a * real_of_int b * ((1 - 3 * e) * ((1 - e) * (1 - e)))"
    proof -
      have "1 - 5 * e \<le> (1 - 3 * e) * ((1 - e) * (1 - e))"
      proof -
        have "(1 - 3 * e) * ((1 - e) * (1 - e)) - (1 - 5 * e) = e * e * (7 - 3 * e)" by (simp add: algebra_simps)
        moreover have "0 \<le> e * e * (7 - 3 * e)" using e by simp
        ultimately show ?thesis by linarith
      qed
      hence "(real_of_int a + 1) * (1 - 5 * e) \<le> real_of_int b * ((1 - 3 * e) * ((1 - e) * (1 - e)))"
        using A B e by (intro mult_mono) simp_all
      thus ?thesis using A mult_left_mono [of _ _ "real_of_int a"] by (simp add: mult.assoc)
    qed
    also have "\<dots> \<le> real_of_int a * real_of_int b * (2 powr z * ((1 - e) * (1 - e)))"
      using A B nr(1) by (intro mult_left_mono mult_right_mono) simp_all
    also have "\<dots> = (p * (1 - e)) * (p * (1 - e))" using pp by (simp add: algebra_simps)
    also have "\<dots> \<le> t * t" using t0(1) p0 e(3) by (intro mult_mono) (simp_all add: order_trans [OF _ t0(1)])
    finally have "(real_of_int a)\<^sup>2 \<le> t\<^sup>2" by (simp add: power2_eq_square)
    moreover have "0 \<le> t" using order_trans [OF _ t0(1), of 0] p0 e(3) by simp
    ultimately show ?thesis by (rule power2_le_imp_le)
  qed
  moreover have "t < real_of_int b + 1"
  proof -
    have "0 \<le> t" using order_trans [OF _ t0(1), of 0] p0 e(3) by simp
    hence "t * t \<le> (p * (1 + e)) * (p * (1 + e))" using t0(2) by (intro mult_mono) simp_all
    also have "\<dots> = real_of_int a * real_of_int b * (2 powr z * ((1 + e) * (1 + e)))" using pp by (simp add: algebra_simps)
    also have "\<dots> \<le> real_of_int b * real_of_int b * (1 + 20 * e)"
    proof (intro mult_mono)
      have "2 powr z * ((1 + e) * (1 + e)) \<le> (1 + 6 * e) * (1 + 3 * e)"
      proof (intro mult_mono)
        have "e * e \<le> 1 * e" using e by (intro mult_right_mono) simp_all
        thus "(1 + e) * (1 + e) \<le> 1 + 3 * e" by (simp add: algebra_simps)
      qed (use nr(2) e in simp_all)
      also have "\<dots> \<le> 1 + 20 * e"
      proof -
        have "18 * e * e \<le> 11 * e" using e by (intro mult_right_mono) simp_all
        thus ?thesis by (simp add: algebra_simps)
      qed
      finally show "2 powr z * ((1 + e) * (1 + e)) \<le> 1 + 20 * e" .
    qed (use A B e in simp_all)
    also have "\<dots> < (real_of_int b + 1) * (real_of_int b + 1)"
    proof -
      have "20 * e * real_of_int b \<le> 20 * e * 2 ^ 31" using B e(1) by (intro mult_left_mono) simp_all
      also have "\<dots> \<le> 1" by (simp add: e_def)
      finally have "real_of_int b * (20 * e * real_of_int b) \<le> real_of_int b * 1" using A B by (intro mult_left_mono) simp_all
      moreover have "real_of_int b * 1 < 2 * real_of_int b + 1" using A B1 by linarith
      ultimately have lt: "real_of_int b * (20 * e * real_of_int b) < 2 * real_of_int b + 1" by (rule order_le_less_trans)
      have eqs: "real_of_int b * real_of_int b * (1 + 20 * e) = real_of_int b * real_of_int b + real_of_int b * (20 * e * real_of_int b)"
        "(real_of_int b + 1) * (real_of_int b + 1) = real_of_int b * real_of_int b + 2 * real_of_int b + 1"
        by (simp_all add: algebra_simps)
      show ?thesis unfolding eqs using add_strict_left_mono [OF lt, of "real_of_int b * real_of_int b"] by (simp only: add.assoc)
    qed
    finally have "t\<^sup>2 < (real_of_int b + 1)\<^sup>2" by (simp add: power2_eq_square)
    moreover have "0 \<le> real_of_int b + 1" using A B1 by linarith
    ultimately show ?thesis by (rule power2_less_imp_less)
  qed
  ultimately have "real_of_rat (of_int a) \<le> real_of_rat (nx_exp2 nx v)" "real_of_rat (nx_exp2 nx v) < real_of_rat (of_int b + 1)"
    unfolding t_def by (simp_all add: of_rat_add)
  thus "of_int a \<le> nx_exp2 nx (middle nx (nx_log2 nx (of_int a)) (nx_log2 nx (of_int b))) \<and>
      nx_exp2 nx (middle nx (nx_log2 nx (of_int a)) (nx_log2 nx (of_int b))) < of_int b + 1"
    unfolding v_def x_def y_def by (simp only: of_rat_less_eq of_rat_less)
qed

text \<open>Such libraries exist: the exact functions, cut off after fifty binary digits.\<close>

definition cut :: "real \<Rightarrow> rat" where
  "cut r = of_int \<lfloor>r * 2 ^ 50\<rfloor> / 2 ^ 50"

definition demo_kmeans :: "rat list \<Rightarrow> (nat list \<times> rat list) res" where
  "demo_kmeans ys = Inr (map (\<lambda>y. if y < 1 then 2 else if y < 4 then 0 else if y < 7 then 3 else 1) ys, [2, 8, 0, 5])"

definition exact_numerics :: numerics where
  "exact_numerics = \<lparr>nx_round = (\<lambda>x. x), nx_log2 = (\<lambda>x. cut (log 2 (real_of_rat x))),
     nx_exp2 = (\<lambda>v. cut (2 powr real_of_rat v)), nx_power2 = (\<lambda>v. cut (2 powr real_of_rat v)), nx_kmeans = demo_kmeans\<rparr>"

lemma cut_near: "\<bar>real_of_rat (cut r) - r\<bar> \<le> 1 / 2 ^ 50"
proof -
  have "r * 2 ^ 50 - 1 < of_int \<lfloor>r * 2 ^ 50\<rfloor>" "of_int \<lfloor>r * 2 ^ 50\<rfloor> \<le> r * 2 ^ 50" by linarith+
  hence "\<bar>of_int \<lfloor>r * 2 ^ 50\<rfloor> / 2 ^ 50 - r\<bar> \<le> 1 / 2 ^ 50"
    by (simp add: abs_le_iff field_simps)
  thus ?thesis by (simp add: cut_def of_rat_divide of_rat_power)
qed

lemma exact_accurate: "accurate exact_numerics hi"
proof -
  have "\<bar>real_of_rat (cut (log 2 (real_of_int n))) - log 2 (real_of_int n)\<bar> \<le> 1 / 2 ^ 40" for n
    by (rule order_trans [OF cut_near]) simp
  moreover have "\<bar>real_of_rat (cut (2 powr r)) - 2 powr r\<bar> \<le> 2 powr r / 2 ^ 40" if "0 \<le> r" for r
  proof -
    have "1 \<le> 2 powr r" using that by (simp add: ge_one_powr_ge_zero)
    hence "1 / 2 ^ 50 \<le> 2 powr r / 2 ^ 40" by simp
    thus ?thesis by (rule order_trans [OF cut_near])
  qed
  ultimately show ?thesis by (simp add: accurate_def exact_numerics_def)
qed

text \<open>And one that computes: the logarithm is linear between powers of two, sums are rounded.\<close>

fun linear_log2 :: "nat \<Rightarrow> rat \<Rightarrow> rat" where
  "linear_log2 0 x = x - 1"
| "linear_log2 (Suc n) x =
     (if x < 1 then linear_log2 n (2 * x) - 1 else if x < 2 then x - 1 else 1 + linear_log2 n (x / 2))"

definition linear_exp2 :: "rat \<Rightarrow> rat" where
  "linear_exp2 v = (1 + (v - of_int \<lfloor>v\<rfloor>)) * (if 0 \<le> v then 2 ^ nat \<lfloor>v\<rfloor> else 1 / 2 ^ nat (- \<lfloor>v\<rfloor>))"

definition demo_numerics :: numerics where
  "demo_numerics = \<lparr>nx_round = (\<lambda>x. of_int \<lfloor>x * 1024 + 1 / 2\<rfloor> / 1024), nx_log2 = linear_log2 10,
     nx_exp2 = linear_exp2, nx_power2 = linear_exp2, nx_kmeans = demo_kmeans\<rparr>"

definition demo_latency :: "int \<Rightarrow> (string, rat) dict" where
  "demo_latency s = [(''lat'', (if s \<le> 1 then 1 else if s \<le> 3 then 5 else if s \<le> 6 then 40 else 300))]"

definition demo_measure :: "nat measure" where
  "demo_measure s w = (Inr (demo_latency s), w + 1)"

definition demo_presweep :: frame where
  "demo_presweep = map (\<lambda>s. \<lparr>rw_sizes = s, rw_cells = demo_latency s\<rparr>) [1, 2, 4, 8]"

definition middle_ok :: "numerics \<Rightarrow> int \<Rightarrow> int \<Rightarrow> bool" where
  "middle_ok nx b a \<longleftrightarrow> (let m = nx_exp2 nx (middle nx (nx_log2 nx (of_int a)) (nx_log2 nx (of_int b))) in of_int a \<le> m \<and> m < of_int b + 1)"

lemma geometric_middle_check: "geometric_middle nx hi \<longleftrightarrow> list_all (\<lambda>b. list_all (middle_ok nx b) [1..b - 1]) [1..hi]"
  unfolding geometric_middle_def middle_ok_def Let_def list_all_iff set_upto by (auto simp: order_less_le_trans)

lemma demo_middle: "geometric_middle demo_numerics 8"
  unfolding geometric_middle_check by code_simp

lemma demo_sweep:
  "case latency_sweep demo_numerics ''lat'' demo_measure (Some demo_presweep) 0 of Some (Inr (summary, final), w') \<Rightarrow> True | _ \<Rightarrow> False"
  by code_simp

theorem latency_sweep_ends_witness:
  "(\<exists>summary final w'. latency_sweep demo_numerics ''lat'' demo_measure (Some demo_presweep) 0 = Some (Inr (summary, final), w') \<and>
     dkeys summary = level_names) \<and>
   (\<exists>r w'. latency_sweep exact_numerics ''lat'' demo_measure None 0 = Some (r, w'))"
proof
  have g: "good_frame 8 demo_presweep" by code_simp
  have c: "sizes_known 8 (Some demo_presweep)" using g by (simp add: sizes_known_def)
  obtain summary final w' where "latency_sweep demo_numerics ''lat'' demo_measure (Some demo_presweep) 0 = Some (Inr (summary, final), w')"
    using demo_sweep by (auto split: option.splits sum.splits prod.splits)
  thus "\<exists>summary final w'. latency_sweep demo_numerics ''lat'' demo_measure (Some demo_presweep) 0 = Some (Inr (summary, final), w') \<and>
     dkeys summary = level_names"
    using latency_sweep_ends [OF demo_middle c, of "''lat''" demo_measure 0] by auto
  have m: "geometric_middle exact_numerics (2 ^ 31)" by (rule accurate_middle [OF exact_accurate]) simp
  have n: "sizes_known (2 ^ 31) None" by (simp add: sizes_known_def MAX_DATA_SIZE_def)
  show "\<exists>r w'. latency_sweep exact_numerics ''lat'' demo_measure None 0 = Some (r, w')"
    using latency_sweep_ends [OF m n, of "''lat''" demo_measure 0] by blast
qed

theorem plateau_search_never_ends_witness:
  "explore_plateau_endpoints (step_function 10 1 2) 1 20 2 (8 / 100) (5 / 100) = None"
  by (rule plateau_search_never_ends [of 1 2 10 4]) (simp_all add: rel_change_def)

end
