(* ===== verification/Spec2Isabelle.thy ===== *)
theory Spec2Isabelle
  imports Resource_Manager Hugepages Data_Registry Recipe_Registry Sys_Diff Commands
    Process_Mutex Process_Control Global_Settings Progress_Bar System_Info
    Sweep_Search
begin

text \<open>
  A model of the Arm System Characterization Tool (ASCT), a Python program that runs
  benchmarks on a machine, saves their results and compares runs, with the properties that
  make its core correct.

  The program and its parts.  A command line selects recipes (a benchmark each) from a table;
  user settings are converted against a schema; every selected recipe registers resources
  (directories, temporary files, huge pages, tools), which a manager applies before and takes
  back after the run; processes are started by runners and watched, so that an interrupt ends
  them all; results are written to a directory and to a cache as soon as they are there, so
  that a run that stops can be resumed; saved runs are compared with one another.  One
  instance runs at a time, which a lock file ensures.

  The theories.
  \<^item> \<open>Asct_Prelude\<close>: exceptions and results, dictionaries as association lists.
    \<open>File_System\<close>, \<open>Py_String\<close>, \<open>Py_Value\<close>, \<open>Py_Json\<close>: what the code uses of Python's
    library: files, strings, dynamically typed values with \<open>flatten_dict\<close>,
    \<open>unflatten_dict\<close> and \<open>retry\<close> (\<open>src/lib/utility/misc.py\<close>), and JSON.
    \<open>Graphlib\<close>: topological sorting as in the library module \<open>graphlib\<close>.
  \<^item> \<open>Resources\<close>: the classes of \<open>src/core/resources\<close>; \<open>Resource_Manager\<close>:
    \<open>src/core/managers/resource_manager.py\<close>; \<open>Hugepages\<close>:
    \<open>src/core/resources/hugepages.py\<close>.
  \<^item> \<open>Data_Registry\<close>: \<open>src/core/datatypes.py\<close> and the configuration of a benchmark in
    \<open>src/core/benchspec/benchspec.py\<close>; \<open>Config_Schema\<close>: the user configuration's schema and
    the parsers of \<open>src/lib/utility/format.py\<close>; \<open>Recipe_Registry\<close>: the recipe table and the
    selection in \<open>src/core/recipes/configuration\<close>; \<open>User_Config\<close>: the conversion of user
    settings in \<open>src/lib/run/run_helper.py\<close>.
  \<^item> \<open>File_Utils\<close>: \<open>src/lib/utility/files.py\<close>; \<open>Recipe_Base\<close>:
    \<open>src/core/recipes/recipe_base.py\<close>; \<open>Saved_Results\<close>: saving in
    \<open>src/core/cmd/helpers/run_helpers.py\<close> and loading in \<open>src/lib/run/result_loader.py\<close>;
    \<open>Cache\<close>: \<open>src/core/cache.py\<close>.
  \<^item> \<open>Run_Benchmarks\<close>: set-up, execution and tear-down in \<open>src/lib/run/run_helper.py\<close>;
    \<open>Resume\<close>: the manifest and the checks of \<open>src/core/cmd/resume.py\<close>; \<open>Run_Command\<close>: the
    outputs, with running, saving and resuming put together; \<open>Commands\<close>: the commands run,
    report and resume from their parsed arguments to their output
    (\<open>src/core/cmd/run.py\<close>, \<open>report.py\<close>, \<open>resume.py\<close>).
  \<^item> \<open>Progress_Bar\<close>: the progress display of \<open>src/lib/term_ui\<close> and the loop over the steps of a
    benchmark in \<open>src/core/recipes/recipe_benchmark_base.py\<close>.
  \<^item> \<open>Process_Mutex\<close>, \<open>Process_Control\<close>, \<open>Global_Settings\<close>: the lock, the process watcher
    and the settings of \<open>src/core/asct_env.py\<close>, with the runners of
    \<open>src/core/benchrunner.py\<close>.
  \<^item> \<open>Cpu_Topology\<close>: the processors, caches, nodes and groups of a machine as
    \<open>src/lib/sysreport/sr_cpulist.py\<close> reads them; \<open>System_Files\<close> and \<open>System_Report\<close>: the
    queries and the advice of \<open>src/lib/sysreport/sysreport.py\<close>; \<open>System_Info\<close>: the recipe
    that collects, saves and restores the description of a machine
    (\<open>src/core/recipes/impl/system_info.py\<close>, \<open>src/lib/cmn-tools/asct_dmi.py\<close>) and the
    accessors that benchmarks use to choose processors and nodes.
  \<^item> \<open>Sweep_Search\<close>: the search for data sizes in \<open>src/core/sweep_algorithm.py\<close> and the
    steps of the latency sweep in \<open>src/core/recipes/impl/memory_load_latency.py\<close>.
  \<^item> \<open>Sys_Diff\<close>: \<open>src/lib/sysdiff\<close> and \<open>src/core/cmd/diff.py\<close>.

  How state and operations correspond.  A class is a record named after it, a method a
  function from the record (and the world it acts on) to the new ones; an exception is the
  left side of a sum or \<open>Some\<close> error next to the state it leaves behind.  Objects that are
  shared are addresses in a heap (registries, huge page requests).  A generator is the list of
  its requests, a \<open>for\<close> loop over it a function that interleaves generator and body.  The disk is an
  association list from paths to nodes; a failing call of the operating system is a
  predicate of the parameter record \<open>platform\<close>, and a failing write leaves of the file what
  \<open>torn_write\<close> says: the old content, nothing, or a part of the new.  Concurrency (instances of the program that
  compete for the lock, the thread of the background load) is an inductive step relation.

  What the lemmas show.  For resources: restoring never raises and keeps everything that was there,
  what can be left over is named exactly, and nothing is left of resources that fit and are in
  nobody's way; sorting respects dependencies.  For huge pages: acquiring grants every request or raises, releasing
  gives pages back.  For configuration: conversion, bounds, inheritance and quick mode.  For
  recipes: the selection, its order and the partition of cached dependencies.  For the cache: that
  changed entries are noticed and that, over any history of runs on any machines, a result that is
  found was saved last on the same machine.  For results:
  round trips of saving and loading, that tampered files are noticed, that every benchmark
  ends completed, failed or skipped and is torn down, and that a run which stops anywhere
  resumes with the rest.  For processes: mutual exclusion as a refinement of an abstract
  lock, progress of waiting instances, and that interrupts and stops leave no process.  For the
  commands: that benchmarks only run under the lock, which is given back, that a stopped run is read back by resume
  with the same request (\<open>manifest_ok\<close> says which arguments fit into its manifest), and that a
  resume accounts for every benchmark.  For the display: that it changes nothing in a run but the
  class of an error of a step generator, except in quiet mode, that every text gets shown, and that
  the terminal shows every line whole and no rest of a bar.  For the description of a machine: that
  the files of the kernel are read as they are printed, that the processors, caches and groups
  that are found fit together, that what is kept of earlier queries never shows, and that an
  unchanged machine passes the check of a resume.  For the latency sweep: that it ends.
  For comparisons: completeness and soundness of the reported differences.

  Interfaces.  Locales state what one part relies on in another: storing files
  (\<open>file_store\<close>, provided by the file system), keys and values (\<open>kv_store\<close>, provided by
  the registries), orders of dependencies (\<open>topo_order\<close>, provided by the sorter of \<open>Graphlib\<close>),
  a resource's operations (\<open>resource_ops\<close>, provided by the resource classes) and writing results
  (\<open>result_store\<close>, provided by the writer of a run).

  Bounds.  Functions with a loop that is bounded by its input are structural or have a
  measure; the reader of JSON carries fuel for the nesting, and \<open>json_loads_depth\<close> shows that
  twice the length of the text plus two is enough; waiting for the display draws eleven times,
  which is enough for its field of twenty characters; the conversion of a range with a step
  below one never returns, which is the value \<open>None\<close>.

  Parameters.  The versions of the package \<open>packaging\<close>, SHA-256, the text of floats (values
  are rationals here: infinities and NaN are not modelled; a tenth of a size is computed exactly,
  which the doubles of the code also do below \<open>2 ^ 50\<close>), the user database and
  the ownership calls, the methods that each recipe supplies, and of the machine the outputs
  of commands, the decompressor and the records of the DMI reader (\<open>sys_env\<close>), and the logarithms, the rounding
  and the clustering of the numerical libraries (\<open>numerics\<close>); what the latency sweep needs of them
  follows from an accuracy of \<open>2 ^ - 40\<close> (\<open>accurate_middle\<close>).  JSON objects have string keys.

  Assumptions on processes.  A killed process ends, and reading its output ends with it: pipes that
  its children keep open are not modelled.  Reading can raise \<open>UnicodeDecodeError\<close>.  The five
  seconds of an interrupt are those of the watcher; the time that the display takes to join its drawing
  thread is not counted.

  Not modelled.  Data frames, tables, plots and terminal output; the recipes' own
  measurements and the programs they call; remote network control; the performance counter binding; logging; argument parsing; the bundled
  cmn-tools.  These parts call libraries or hardware whose behaviour is not in the
  repository.
\<close>

end
